(* ===== verification/Relm_Prelude.thy ===== *)
theory Relm_Prelude
  imports Main "HOL-Library.Word"
begin

text \<open>
  Shared vocabulary of the development: the machine integers of the C sources as words, the
  errno values as a datatype, integer return codes, byte-addressed memory with little-endian
  accesses, and 4 KiB frames. The lemma collections \<open>frame_simps\<close> and \<open>mem_simps\<close> carry the
  proofs about page tables and guest memory in the component theories.
\<close>

unbundle bit_operations_syntax

named_theorems frame_simps \<open>page frames, alignment and offsets\<close>
named_theorems mem_simps \<open>reads over writes of byte memory\<close>

section \<open>Machine integers, error codes\<close>

type_synonym u8 = "8 word"
type_synonym u16 = "16 word"
type_synonym u32 = "32 word"
type_synonym u64 = "64 word"

text \<open>The errno values the sources return (always negated).\<close>

datatype errno = ENOENT | EIO | E2BIG | ENOMEM | EFAULT | EBUSY | EEXIST | ENODEV | EINVAL
  | ENOSPC | ENOSYS | ENAVAIL | ENOTSUPP | EOPNOTSUPP | EACCES | ERANGE

text \<open>An \<open>int\<close>-returning function that reports \<open>0\<close> or \<open>-errno\<close>, with a result.\<close>

type_synonym 'a res = "errno + 'a"

definition failed :: "'a res \<Rightarrow> bool" where
  "failed r = (case r of Inl _ \<Rightarrow> True | Inr _ \<Rightarrow> False)"

lemma failed_simps [simp]: "failed (Inl e)" "\<not> failed (Inr x)"
  by (simp_all add: failed_def)

lemma not_failed_iff: "\<not> failed r \<longleftrightarrow> (\<exists>x. r = Inr x)"
  by (cases r) auto

text \<open>The conversion \<open>(int)n\<close> of a \<open>size_t\<close> count: the low 32 bits in two's complement.\<close>

definition c_int :: "nat \<Rightarrow> int" where
  "c_int n = sint (word_of_nat n :: u32)"

lemma c_int_small: "n < 2 ^ 31 \<Longrightarrow> c_int n = int n"
  by (simp add: c_int_def signed_of_nat signed_take_bit_int_eq_self_iff)

section \<open>Byte memory and little-endian words\<close>

type_synonym mem = "u64 \<Rightarrow> u8"

primrec le_bytes :: "nat \<Rightarrow> u64 \<Rightarrow> u8 list" where
  "le_bytes 0 v = []"
| "le_bytes (Suc n) v = ucast v # le_bytes n (drop_bit 8 v)"

primrec le_word :: "u8 list \<Rightarrow> u64" where
  "le_word [] = 0"
| "le_word (b # bs) = ucast b OR push_bit 8 (le_word bs)"

lemma length_le_bytes [simp]: "length (le_bytes n v) = n"
  by (induction n arbitrary: v) auto

lemma le_word_le_bytes: "le_word (le_bytes n v) = take_bit (8 * n) v"
proof (induction n arbitrary: v)
  case 0
  show ?case by simp
next
  case (Suc n)
  have "le_word (le_bytes (Suc n) v) = ucast (ucast v :: u8) OR push_bit 8 (take_bit (8 * n) (drop_bit 8 v))"
    by (simp add: Suc.IH)
  also have "\<dots> = take_bit (8 * Suc n) v"
    by (rule bit_word_eqI) (auto simp: bit_simps)
  finally show ?case .
qed

lemma le_word_le_bytes_8 [simp]: "le_word (le_bytes 8 v) = v"
  by (simp add: le_word_le_bytes take_bit_word_eq_self)

definition rd_bytes :: "mem \<Rightarrow> u64 \<Rightarrow> nat \<Rightarrow> u8 list" where
  "rd_bytes m a n = map (\<lambda>i. m (a + word_of_nat i)) [0..<n]"

definition wr_bytes :: "mem \<Rightarrow> u64 \<Rightarrow> u8 list \<Rightarrow> mem" where
  "wr_bytes m a bs = (\<lambda>x. if unat (x - a) < length bs then bs ! unat (x - a) else m x)"

lemma length_rd_bytes [simp]: "length (rd_bytes m a n) = n"
  by (simp add: rd_bytes_def)

lemma nth_rd_bytes [simp]: "i < n \<Longrightarrow> rd_bytes m a n ! i = m (a + word_of_nat i)"
  by (simp add: rd_bytes_def)

lemma rd_bytes_eqI:
  "(\<And>i. i < n \<Longrightarrow> m (a + word_of_nat i) = m' (a + word_of_nat i)) \<Longrightarrow> rd_bytes m a n = rd_bytes m' a n"
  by (simp add: rd_bytes_def)

lemma unat_word_of_nat_small: "i < 2 ^ 64 \<Longrightarrow> unat (word_of_nat i :: u64) = i"
  by (simp add: unat_of_nat)

lemma rd_wr_bytes_same [mem_simps]:
  assumes "length bs \<le> 2 ^ 64"
  shows "rd_bytes (wr_bytes m a bs) a (length bs) = bs"
  by (rule nth_equalityI)
    (use assms in \<open>auto simp: wr_bytes_def unat_word_of_nat_small\<close>)

lemma wr_bytes_other: "length bs \<le> unat (x - a) \<Longrightarrow> wr_bytes m a bs x = m x"
  by (simp add: wr_bytes_def)

lemma wr_bytes_Nil [simp]: "wr_bytes m a [] = m"
  by (simp add: wr_bytes_def)

definition rd64 :: "mem \<Rightarrow> u64 \<Rightarrow> u64" where
  "rd64 m a = le_word (rd_bytes m a 8)"

definition wr64 :: "mem \<Rightarrow> u64 \<Rightarrow> u64 \<Rightarrow> mem" where
  "wr64 m a v = wr_bytes m a (le_bytes 8 v)"

lemma rd64_wr64_same [mem_simps]: "rd64 (wr64 m a v) a = v"
  using rd_wr_bytes_same [of "le_bytes 8 v" m a] by (simp add: rd64_def wr64_def)

section \<open>4 KiB frames and their 512 eight-byte slots\<close>

text \<open>\<open>PAGE_ALIGNED\<close> and \<open>page_base\<close> (the C expression \<open>a & PAGE_MASK\<close>) of the kernel
  headers; \<open>slot t i\<close> is the address of entry \<open>i\<close> of the table at \<open>t\<close>.\<close>

definition page_base :: "u64 \<Rightarrow> u64" where
  "page_base a = a AND NOT 0xFFF"

definition PAGE_ALIGNED :: "u64 \<Rightarrow> bool" where
  "PAGE_ALIGNED a \<longleftrightarrow> a AND 0xFFF = 0"

definition slot :: "u64 \<Rightarrow> u64 \<Rightarrow> u64" where
  "slot t i = t + 8 * i"

text \<open>Filling a frame with zeroes (\<open>__GFP_ZERO\<close>).\<close>

definition zero_page :: "mem \<Rightarrow> u64 \<Rightarrow> mem" where
  "zero_page m pa = (\<lambda>x. if page_base x = pa then 0 else m x)"

lemma and_masks:
  "x AND (0xFFF :: u64) = take_bit 12 x"
  "x AND (0x7 :: u64) = take_bit 3 x"
  "x AND (0x1FFFFF :: u64) = take_bit 21 x"
  "x AND (0x1FF :: u64) = take_bit 9 x"
  by (simp_all add: take_bit_eq_mask mask_eq_exp_minus_1)

lemma aligned_add_or:
  fixes t x :: u64
  assumes "take_bit n t = 0" "take_bit n x = x"
  shows "t + x = t OR x"
proof (rule disjunctive_add_eq_or, rule bit_word_eqI)
  fix k assume "k < LENGTH(64)"
  have "bit (take_bit n t) k = bit (0::u64) k" "bit (take_bit n x) k = bit x k" by (simp_all add: assms)
  then show "bit (t AND x) k = bit (0::u64) k" by (auto simp: bit_simps)
qed

lemma take_bit_aligned_add:
  fixes t x :: u64
  assumes "take_bit n t = 0" "take_bit n x = x"
  shows "take_bit n (t + x) = x"
  by (simp add: aligned_add_or [OF assms] assms)

lemma drop_bit_aligned_add:
  fixes t x :: u64
  assumes "take_bit n t = 0" "take_bit n x = x"
  shows "drop_bit n (t + x) = drop_bit n t"
proof -
  have "drop_bit n x = 0" using assms(2) by (metis drop_bit_take_bit diff_self_eq_0 take_bit_0)
  then show ?thesis by (simp add: aligned_add_or [OF assms])
qed

lemma take_bit_eq_self_unat:
  fixes x :: u64
  assumes "n < 64"
  shows "take_bit n x = x \<longleftrightarrow> unat x < 2 ^ n"
proof
  assume "take_bit n x = x"
  then have "unat x = take_bit n (unat x)" by (metis unsigned_take_bit_eq)
  then show "unat x < 2 ^ n" by (metis take_bit_nat_less_exp)
next
  assume "unat x < 2 ^ n"
  then have "take_bit n (unat x) = unat x" by (simp add: take_bit_nat_eq_self)
  then have "unat (take_bit n x) = unat x" by (simp add: unsigned_take_bit_eq)
  then show "take_bit n x = x" by (simp only: word_unat_eq_iff)
qed

lemma word_split_eqI:
  fixes x y :: u64
  assumes "drop_bit n x = drop_bit n y" "take_bit n x = take_bit n y"
  shows "x = y"
  using assms by (metis bits_ident)

lemma PAGE_ALIGNED_iff: "PAGE_ALIGNED a \<longleftrightarrow> take_bit 12 a = 0"
  by (simp add: PAGE_ALIGNED_def and_masks)

lemma and_not_mask: "(a :: u64) AND NOT (mask n) = push_bit n (drop_bit n a)"
  by (rule bit_word_eqI) (auto simp: bit_simps)

lemma page_base_drop: "page_base a = push_bit 12 (drop_bit 12 a)"
  unfolding page_base_def by (simp add: mask_eq_exp_minus_1 flip: and_not_mask)

lemma page_base_aligned [frame_simps]: "PAGE_ALIGNED a \<Longrightarrow> page_base a = a"
  unfolding page_base_drop PAGE_ALIGNED_iff using bits_ident [of 12 a] by simp

lemma page_base_add: "PAGE_ALIGNED t \<Longrightarrow> unat x < 4096 \<Longrightarrow> page_base (t + x) = t"
  using page_base_aligned [of t] take_bit_eq_self_unat [of 12 x]
  by (simp add: page_base_drop PAGE_ALIGNED_iff drop_bit_aligned_add)

lemma unat_8_mult: "unat i < 512 \<Longrightarrow> unat (8 * i :: u64) = 8 * unat i"
  by (simp add: unat_word_ariths)

lemma page_base_slot [frame_simps]: "PAGE_ALIGNED t \<Longrightarrow> unat i < 512 \<Longrightarrow> page_base (slot t i) = t"
  unfolding slot_def by (rule page_base_add) (simp_all add: unat_8_mult)

lemma slot_inject [frame_simps]:
  assumes "PAGE_ALIGNED t" "PAGE_ALIGNED t'" "unat i < 512" "unat i' < 512"
  shows "slot t i = slot t' i' \<longleftrightarrow> t = t' \<and> i = i'"
proof
  assume eq: "slot t i = slot t' i'"
  from eq assms have t: "t = t'" by (metis page_base_slot)
  with eq have "8 * i = 8 * i'" by (simp add: slot_def)
  then have "8 * unat i = 8 * unat i'" by (metis assms(3,4) unat_8_mult)
  with t show "t = t' \<and> i = i'" by (simp add: word_unat_eq_iff)
qed simp

lemma take_bit_3_slot [frame_simps]: "PAGE_ALIGNED t \<Longrightarrow> unat i < 512 \<Longrightarrow> take_bit 3 (slot t i) = 0"
proof -
  assume t: "PAGE_ALIGNED t" and i: "unat i < 512"
  have "take_bit 12 (8 * i) = 8 * i" using i by (simp add: take_bit_eq_self_unat unat_8_mult)
  with t have "take_bit 12 (slot t i) = 8 * i"
    unfolding slot_def PAGE_ALIGNED_iff by (rule take_bit_aligned_add)
  then have "take_bit 3 (slot t i) = take_bit 3 (8 * i)"
    using take_bit_take_bit [of 3 12 "slot t i"] by simp
  also have "8 * i = push_bit 3 i" by (simp add: push_bit_eq_mult)
  finally show ?thesis by (simp add: take_bit_push_bit)
qed

lemma rd64_wr64_other:
  assumes "take_bit 3 a = 0" "take_bit 3 b = 0" "a \<noteq> b"
  shows "rd64 (wr64 m a v) b = rd64 m b"
proof -
  have "8 \<le> unat (b + word_of_nat i - a)" if "i < 8" for i
  proof (rule ccontr)
    assume "\<not> 8 \<le> unat (b + word_of_nat i - a)"
    then have s: "take_bit 3 (b + word_of_nat i - a) = b + word_of_nat i - a"
      by (simp add: take_bit_eq_self_unat)
    have i: "take_bit 3 (word_of_nat i :: u64) = word_of_nat i"
      using that by (simp add: take_bit_eq_self_unat unat_word_of_nat_small)
    have "a + (b + word_of_nat i - a) = b + word_of_nat i" by simp
    then have "drop_bit 3 a = drop_bit 3 b"
      by (metis drop_bit_aligned_add s i assms(1,2))
    with assms show False by (metis word_split_eqI)
  qed
  then have "rd_bytes (wr64 m a v) b 8 = rd_bytes m b 8"
    by (intro rd_bytes_eqI) (simp add: wr64_def wr_bytes_other)
  then show ?thesis by (simp add: rd64_def)
qed

lemma page_base_word_byte:
  assumes "take_bit 3 a = 0" "i < 8"
  shows "page_base (a + word_of_nat i) = page_base a"
proof -
  have i: "take_bit 3 (word_of_nat i :: u64) = word_of_nat i"
    using assms(2) by (simp add: take_bit_eq_self_unat unat_word_of_nat_small)
  have "drop_bit 9 (drop_bit 3 (a + word_of_nat i)) = drop_bit 9 (drop_bit 3 a)"
    using drop_bit_aligned_add [OF assms(1) i] by simp
  then show ?thesis by (simp add: page_base_drop)
qed

lemma wr64_outside:
  assumes "take_bit 3 a = 0" "page_base x \<noteq> page_base a"
  shows "wr64 m a v x = m x"
proof -
  have "8 \<le> unat (x - a)"
  proof (rule ccontr)
    assume "\<not> 8 \<le> unat (x - a)"
    then have "page_base (a + word_of_nat (unat (x - a))) = page_base a"
      by (intro page_base_word_byte [OF assms(1)]) simp
    with assms(2) show False by simp
  qed
  then show ?thesis by (simp add: wr64_def wr_bytes_other)
qed

lemma le_word_zeros: "\<forall>b\<in>set bs. b = 0 \<Longrightarrow> le_word bs = 0"
  by (induction bs) simp_all

lemma rd64_zero_page:
  assumes "take_bit 3 a = 0"
  shows "rd64 (zero_page m pa) a = (if page_base a = pa then 0 else rd64 m a)"
proof (cases "page_base a = pa")
  case True
  have "le_word (rd_bytes (zero_page m pa) a 8) = 0"
    by (rule le_word_zeros) (auto simp: rd_bytes_def zero_page_def page_base_word_byte [OF assms] True)
  with True show ?thesis by (simp add: rd64_def)
next
  case False
  then have "rd_bytes (zero_page m pa) a 8 = rd_bytes m a 8"
    by (intro rd_bytes_eqI) (simp add: zero_page_def page_base_word_byte [OF assms])
  with False show ?thesis by (simp add: rd64_def)
qed

section \<open>Invariants of step relations\<close>

text \<open>The contract of a component that is a state machine: its steps keep its invariant. Each
  component interprets it on its own step relation; a property of every run is then a fact of the
  interpretation.\<close>

locale step_invariant =
  fixes step :: "'s \<Rightarrow> 's \<Rightarrow> bool" and inv :: "'s \<Rightarrow> bool"
  assumes preserved: "step s t \<Longrightarrow> inv s \<Longrightarrow> inv t"
begin

lemma run_inv:
  assumes "step\<^sup>*\<^sup>* s t" "inv s"
  shows "inv t"
  using assms by (induction rule: rtranclp_induct) (auto intro: preserved)

end

end
