(* ===== verification/Relm_Radix.thy ===== *)
theory Relm_Radix
  imports Relm_Prelude "HOL-Library.Sublist"
begin

text \<open>
  Radix page tables: trees of 4 KiB frames of 512 eight-byte entries, the shape shared by the
  second-stage tables of every back end (EPT, NPT, stage 2). The theory gives the walk along a path of
  indices, the leaf found at the end of a full path, the invariant that the tables form a tree
  of frames outside the free pool, and the interface \<open>radix_format\<close> of an entry format. What
  the back ends need of a table update (a leaf written, a new table linked in, memory outside the
  tree written) is proved once inside that interface.
\<close>

section \<open>Walks, leaves and the tree invariant\<close>

text \<open>A frame a table entry can point to: page aligned and below \<open>2 ^ 52\<close>.\<close>

definition frame_ok :: "u64 \<Rightarrow> bool" where
  "frame_ok t \<longleftrightarrow> PAGE_ALIGNED t \<and> t < 2 ^ 52"

lemma frame_ok_aligned [simp]: "frame_ok t \<Longrightarrow> PAGE_ALIGNED t"
  by (simp add: frame_ok_def)

definition path_ok :: "u64 list \<Rightarrow> bool" where
  "path_ok p \<longleftrightarrow> (\<forall>i\<in>set p. unat i < 512)"

lemma path_ok_simps [simp]:
  "path_ok []" "path_ok (i # p) \<longleftrightarrow> unat i < 512 \<and> path_ok p"
  "path_ok (p @ q) \<longleftrightarrow> path_ok p \<and> path_ok q"
  by (auto simp: path_ok_def)

fun walk :: "(u64 \<Rightarrow> bool) \<Rightarrow> (u64 \<Rightarrow> u64) \<Rightarrow> mem \<Rightarrow> u64 \<Rightarrow> u64 list \<Rightarrow> u64 option" where
  "walk P A m t [] = Some t"
| "walk P A m t (i # p) =
     (let e = rd64 m (slot t i) in if P e then walk P A m (A e) p else None)"

definition entry_of :: "(u64 \<Rightarrow> bool) \<Rightarrow> mem \<Rightarrow> u64 \<Rightarrow> u64 \<Rightarrow> u64 option" where
  "entry_of P m t i = (let e = rd64 m (slot t i) in if P e then Some e else None)"

definition leaf :: "(u64 \<Rightarrow> bool) \<Rightarrow> (u64 \<Rightarrow> u64) \<Rightarrow> mem \<Rightarrow> u64 \<Rightarrow> u64 list \<Rightarrow> u64 option" where
  "leaf P A m r q =
     (case walk P A m r (butlast q) of None \<Rightarrow> None | Some t \<Rightarrow> entry_of P m t (last q))"

text \<open>Tables hang at the paths shorter than the depth \<open>D\<close>; they are usable frames outside the
  free pool, and no frame is the table of two paths.\<close>

definition tables :: "(u64 \<Rightarrow> bool) \<Rightarrow> (u64 \<Rightarrow> u64) \<Rightarrow> nat \<Rightarrow> mem \<Rightarrow> u64 \<Rightarrow> u64 set" where
  "tables P A D m r = {t. \<exists>p. path_ok p \<and> length p < D \<and> walk P A m r p = Some t}"

definition radix_wf :: "(u64 \<Rightarrow> bool) \<Rightarrow> (u64 \<Rightarrow> u64) \<Rightarrow> nat \<Rightarrow> mem \<Rightarrow> u64 \<Rightarrow> u64 set \<Rightarrow> bool" where
  "radix_wf P A D m r free \<longleftrightarrow>
     (\<forall>t\<in>tables P A D m r. frame_ok t \<and> t \<notin> free) \<and>
     (\<forall>p q t. path_ok p \<and> length p < D \<and> walk P A m r p = Some t \<and>
              path_ok q \<and> length q < D \<and> walk P A m r q = Some t \<longrightarrow> p = q)"

text \<open>No present entry above the last level is a large-page leaf (predicate \<open>L\<close>): every one of them
  links a table.\<close>

definition plain :: "(u64 \<Rightarrow> bool) \<Rightarrow> (u64 \<Rightarrow> u64) \<Rightarrow> (u64 \<Rightarrow> bool) \<Rightarrow> nat \<Rightarrow> mem \<Rightarrow> u64 \<Rightarrow> bool" where
  "plain P A L D m r \<longleftrightarrow> (\<forall>p t i e. path_ok p \<and> Suc (length p) < D \<and> walk P A m r p = Some t \<and> unat i < 512 \<and>
     entry_of P m t i = Some e \<longrightarrow> \<not> L e)"

lemma plainD:
  "plain P A L D m r \<Longrightarrow> path_ok p \<Longrightarrow> Suc (length p) < D \<Longrightarrow> walk P A m r p = Some t \<Longrightarrow> unat i < 512 \<Longrightarrow>
     entry_of P m t i = Some e \<Longrightarrow> \<not> L e"
  unfolding plain_def by blast

lemma tablesI: "path_ok p \<Longrightarrow> length p < D \<Longrightarrow> walk P A m r p = Some t \<Longrightarrow> t \<in> tables P A D m r"
  by (auto simp: tables_def)

lemma walk_snoc:
  "walk P A m r (p @ [i]) =
     (case walk P A m r p of None \<Rightarrow> None | Some t \<Rightarrow> map_option A (entry_of P m t i))"
  by (induction p arbitrary: r) (auto simp: entry_of_def Let_def)

lemma leaf_snoc:
  "leaf P A m r (q @ [j]) = (case walk P A m r q of None \<Rightarrow> None | Some t \<Rightarrow> entry_of P m t j)"
  by (simp add: leaf_def split: option.split)

lemma walk_append_None: "walk P A m r p = None \<Longrightarrow> walk P A m r (p @ q) = None"
  by (induction p arbitrary: r) (auto simp: Let_def split: if_splits)

lemma radix_wf_frame:
  "radix_wf P A D m r free \<Longrightarrow> path_ok p \<Longrightarrow> length p < D \<Longrightarrow> walk P A m r p = Some t \<Longrightarrow>
     frame_ok t \<and> t \<notin> free"
  by (auto simp: radix_wf_def dest: tablesI)

lemma radix_wf_inj:
  "radix_wf P A D m r free \<Longrightarrow> path_ok p \<Longrightarrow> length p < D \<Longrightarrow> walk P A m r p = Some t \<Longrightarrow>
     path_ok q \<Longrightarrow> length q < D \<Longrightarrow> walk P A m r q = Some t \<Longrightarrow> p = q"
  by (auto simp: radix_wf_def)

section \<open>Listing the frames of a tree\<close>

text \<open>The tables below \<open>t\<close> in the order a depth-first teardown visits them, each table after its
  children.\<close>

fun radix_frames :: "(u64 \<Rightarrow> bool) \<Rightarrow> (u64 \<Rightarrow> u64) \<Rightarrow> nat \<Rightarrow> mem \<Rightarrow> u64 \<Rightarrow> u64 list" where
  "radix_frames P A 0 m t = []"
| "radix_frames P A (Suc n) m t =
     concat (map (\<lambda>i. case entry_of P m t (word_of_nat i) of None \<Rightarrow> []
                     | Some e \<Rightarrow> radix_frames P A n m (A e)) [0..<512]) @ [t]"

lemma radix_frames_1 [simp]: "radix_frames P A (Suc 0) m t = [t]"
  by (auto simp: option.case_eq_if)

lemma tables_Suc:
  "tables P A (Suc n) m t =
     insert t (\<Union>i\<in>{..<512}. case entry_of P m t (word_of_nat i) of None \<Rightarrow> {} | Some e \<Rightarrow> tables P A n m (A e))"
proof (rule set_eqI)
  fix u
  show "u \<in> tables P A (Suc n) m t \<longleftrightarrow> u \<in> insert t (\<Union>i\<in>{..<512}. case entry_of P m t (word_of_nat i) of
      None \<Rightarrow> {} | Some e \<Rightarrow> tables P A n m (A e))" (is "?l \<longleftrightarrow> ?r")
  proof
    assume ?l
    then obtain p where p: "path_ok p" "length p < Suc n" "walk P A m t p = Some u" by (auto simp: tables_def)
    show ?r
    proof (cases p)
      case (Cons i q)
      with p obtain e where "entry_of P m t i = Some e" "u \<in> tables P A n m (A e)" "unat i < 512"
        by (auto simp: entry_of_def Let_def intro: tablesI split: if_splits)
      then show ?thesis by (auto intro!: bexI [of _ "unat i"])
    qed (use p in simp)
  next
    assume ?r
    then consider "u = t" | i e where "i < 512" "entry_of P m t (word_of_nat i) = Some e" "u \<in> tables P A n m (A e)"
      by (auto split: option.splits)
    then show ?l
    proof cases
      case 2
      then obtain p where "path_ok p" "length p < n" "walk P A m (A e) p = Some u" by (auto simp: tables_def)
      with 2 show ?thesis
        by (intro tablesI [of "word_of_nat i # p"]) (auto simp: entry_of_def Let_def unat_word_of_nat_small split: if_splits)
    qed (auto intro: tablesI [of "[]"])
  qed
qed

lemma set_radix_frames: "set (radix_frames P A n m t) = tables P A n m t"
proof (induction n arbitrary: t)
  case 0
  then show ?case by (simp add: tables_def)
next
  case (Suc n)
  then show ?case unfolding tables_Suc by (auto split: option.splits)
qed

lemma distinct_concat_disjoint:
  "distinct is \<Longrightarrow> (\<And>i. i \<in> set is \<Longrightarrow> distinct (f i)) \<Longrightarrow>
     (\<And>i j. i \<in> set is \<Longrightarrow> j \<in> set is \<Longrightarrow> i \<noteq> j \<Longrightarrow> set (f i) \<inter> set (f j) = {}) \<Longrightarrow> distinct (concat (map f is))"
proof (induction "is")
  case (Cons i js)
  have "set (f i) \<inter> (\<Union>j\<in>set js. set (f j)) = {}" using Cons.prems(1,3) by fastforce
  with Cons show ?case by auto
qed simp

definition walk_inj :: "(u64 \<Rightarrow> bool) \<Rightarrow> (u64 \<Rightarrow> u64) \<Rightarrow> nat \<Rightarrow> mem \<Rightarrow> u64 \<Rightarrow> bool" where
  "walk_inj P A n m t \<longleftrightarrow> (\<forall>p q u. path_ok p \<and> length p < n \<and> walk P A m t p = Some u \<and>
     path_ok q \<and> length q < n \<and> walk P A m t q = Some u \<longrightarrow> p = q)"

lemma walk_injD:
  "walk_inj P A n m t \<Longrightarrow> path_ok p \<Longrightarrow> length p < n \<Longrightarrow> walk P A m t p = Some u \<Longrightarrow>
     path_ok q \<Longrightarrow> length q < n \<Longrightarrow> walk P A m t q = Some u \<Longrightarrow> p = q"
  unfolding walk_inj_def by blast

lemma walk_via_entry:
  "entry_of P m t (word_of_nat i) = Some e \<Longrightarrow> walk P A m t (word_of_nat i # p) = walk P A m (A e) p"
  by (auto simp: entry_of_def Let_def split: if_splits)

lemma distinct_radix_frames: "walk_inj P A n m t \<Longrightarrow> distinct (radix_frames P A n m t)"
proof (induction n arbitrary: t)
  case (Suc n)
  let ?f = "\<lambda>i. case entry_of P m t (word_of_nat i) of None \<Rightarrow> [] | Some e \<Rightarrow> radix_frames P A n m (A e)"
  have mem: "\<exists>p. path_ok p \<and> length p < n \<and> walk P A m t (word_of_nat i # p) = Some u" if "u \<in> set (?f i)" for i u
  proof (cases "entry_of P m t (word_of_nat i)")
    case (Some e)
    with that obtain p where "path_ok p" "length p < n" "walk P A m (A e) p = Some u"
      by (auto simp: set_radix_frames tables_def)
    then show ?thesis unfolding walk_via_entry [OF Some] by blast
  qed (use that in simp)
  have "distinct (?f i)" if i: "i < 512" for i
  proof (cases "entry_of P m t (word_of_nat i)")
    case (Some e)
    have "walk_inj P A n m (A e)"
      unfolding walk_inj_def
    proof (intro allI impI, elim conjE)
      fix p q u assume "path_ok p" "length p < n" "walk P A m (A e) p = Some u" "path_ok q" "length q < n" "walk P A m (A e) q = Some u"
      then show "p = q"
        using walk_injD [OF Suc.prems, of "word_of_nat i # p" u "word_of_nat i # q"] i
        by (simp only: walk_via_entry [OF Some] list.size path_ok_simps) (simp add: unat_word_of_nat_small)
    qed
    with Some Suc.IH show ?thesis by simp
  qed simp
  moreover have "set (?f i) \<inter> set (?f j) = {}" if ij: "i < 512" "j < 512" "i \<noteq> j" for i j
  proof (rule ccontr)
    assume "set (?f i) \<inter> set (?f j) \<noteq> {}"
    then obtain u where u: "u \<in> set (?f i)" "u \<in> set (?f j)" by blast
    obtain p where p: "path_ok p" "length p < n" "walk P A m t (word_of_nat i # p) = Some u" using mem [OF u(1)] by blast
    obtain q where q: "path_ok q" "length q < n" "walk P A m t (word_of_nat j # q) = Some u" using mem [OF u(2)] by blast
    have "(word_of_nat i :: u64) # p = word_of_nat j # q"
      using walk_injD [OF Suc.prems _ _ p(3) _ _ q(3)] p(1,2) q(1,2) ij by (simp add: unat_word_of_nat_small)
    then have "(word_of_nat i :: u64) = word_of_nat j" by simp
    then have "unat (word_of_nat i :: u64) = unat (word_of_nat j :: u64)" by simp
    with ij show False by (simp add: unat_word_of_nat_small)
  qed
  ultimately have "distinct (concat (map ?f [0..<512]))" by (intro distinct_concat_disjoint) auto
  moreover have "t \<notin> set (?f i)" if i: "i < 512" for i
  proof
    assume "t \<in> set (?f i)"
    then obtain p where p: "path_ok p" "length p < n" "walk P A m t (word_of_nat i # p) = Some t" using mem by blast
    show False using walk_injD [OF Suc.prems _ _ p(3), of "[]"] p(1,2) i by (simp add: unat_word_of_nat_small)
  qed
  ultimately show ?case by auto
qed simp

text \<open>With no large-page leaf above the last level, the tables a teardown follows are all the tables.\<close>

lemma plain_walk:
  assumes pl: "plain P A L D m r"
  shows "path_ok p \<Longrightarrow> length p < D \<Longrightarrow> walk (\<lambda>e. P e \<and> \<not> L e) A m r p = walk P A m r p"
proof (induction p rule: rev_induct)
  case (snoc i p)
  then have IH: "walk (\<lambda>e. P e \<and> \<not> L e) A m r p = walk P A m r p" by simp
  show ?case
  proof (cases "walk P A m r p")
    case (Some t)
    have "\<not> L e" if "entry_of P m t i = Some e" for e using plainD [OF pl _ _ Some _ that] snoc.prems by simp
    then have "entry_of (\<lambda>e. P e \<and> \<not> L e) m t i = entry_of P m t i" by (auto simp: entry_of_def Let_def)
    with Some IH show ?thesis by (simp add: walk_snoc)
  qed (use IH in \<open>simp add: walk_snoc\<close>)
qed simp

lemma teardown_frames:
  assumes wf: "radix_wf P A D m r free" and pl: "plain P A L D m r"
  shows "set (radix_frames (\<lambda>e. P e \<and> \<not> L e) A D m r) = tables P A D m r"
    and "distinct (radix_frames (\<lambda>e. P e \<and> \<not> L e) A D m r)"
proof -
  note w = plain_walk [OF pl]
  show "set (radix_frames (\<lambda>e. P e \<and> \<not> L e) A D m r) = tables P A D m r"
    unfolding set_radix_frames tables_def using w by auto
  have "walk_inj (\<lambda>e. P e \<and> \<not> L e) A D m r"
    unfolding walk_inj_def using radix_wf_inj [OF wf] w by metis
  then show "distinct (radix_frames (\<lambda>e. P e \<and> \<not> L e) A D m r)" by (rule distinct_radix_frames)
qed

section \<open>Updates that leave walks alone\<close>

text \<open>Memory that agrees on the entries of the tree has the same walks and leaves.\<close>

lemma walk_agree:
  assumes wf: "radix_wf P A D m r free"
    and same: "\<And>t i. t \<in> tables P A D m r \<Longrightarrow> unat i < 512 \<Longrightarrow> rd64 m' (slot t i) = rd64 m (slot t i)"
  shows "path_ok q \<Longrightarrow> length q \<le> D \<Longrightarrow> walk P A m' r q = walk P A m r q"
proof (induction q rule: rev_induct)
  case Nil
  show ?case by simp
next
  case (snoc i q)
  then have IH: "walk P A m' r q = walk P A m r q" by simp
  show ?case
  proof (cases "walk P A m r q")
    case None
    with IH show ?thesis by (simp add: walk_snoc)
  next
    case (Some t)
    with snoc.prems have "t \<in> tables P A D m r" by (auto intro: tablesI)
    with Some IH snoc.prems show ?thesis by (simp add: walk_snoc entry_of_def same)
  qed
qed

lemma leaf_agree:
  assumes wf: "radix_wf P A D m r free"
    and same: "\<And>t i. t \<in> tables P A D m r \<Longrightarrow> unat i < 512 \<Longrightarrow> rd64 m' (slot t i) = rd64 m (slot t i)"
    and q: "path_ok q" "length q = D" "0 < D"
  shows "leaf P A m' r q = leaf P A m r q"
proof -
  from q have qs: "q = butlast q @ [last q]" by (metis append_butlast_last_id length_greater_0_conv)
  with q have b: "path_ok (butlast q)" "length (butlast q) < D" "unat (last q) < 512"
    by (metis path_ok_simps(2,3), simp, metis path_ok_simps(2,3))
  have w: "walk P A m' r (butlast q) = walk P A m r (butlast q)"
    using walk_agree [OF wf same] b by simp
  show ?thesis
  proof (cases "walk P A m r (butlast q)")
    case (Some t)
    with b have "t \<in> tables P A D m r" by (auto intro: tablesI)
    with w Some b show ?thesis by (simp add: leaf_def entry_of_def same)
  qed (simp add: leaf_def w)
qed

lemma tables_agree:
  assumes "\<And>q. path_ok q \<Longrightarrow> length q < D \<Longrightarrow> walk P A m' r q = walk P A m r q"
  shows "tables P A D m' r = tables P A D m r"
  using assms by (auto simp: tables_def)

lemma radix_wf_agree:
  assumes wf: "radix_wf P A D m r free"
    and same: "\<And>q. path_ok q \<Longrightarrow> length q < D \<Longrightarrow> walk P A m' r q = walk P A m r q"
    and free: "free' \<subseteq> free"
  shows "radix_wf P A D m' r free'"
proof -
  have t: "tables P A D m' r = tables P A D m r" by (rule tables_agree) (rule same)
  show ?thesis using wf free unfolding radix_wf_def t by (auto simp: same)
qed

text \<open>Clearing a frame outside the tree changes no entry of it.\<close>

lemma zero_page_same:
  assumes "radix_wf P A D m r free" "t \<in> tables P A D m r" "unat i < 512" "f \<notin> tables P A D m r"
  shows "rd64 (zero_page m f) (slot t i) = rd64 m (slot t i)"
proof -
  have "frame_ok t" using assms by (simp add: radix_wf_def)
  moreover have "t \<noteq> f" using assms by auto
  ultimately show ?thesis using assms(3) by (simp add: rd64_zero_page frame_simps)
qed

lemma plain_agree:
  assumes pl: "plain P A L D m r" and wf: "radix_wf P A D m r free"
    and same: "\<And>t i. t \<in> tables P A D m r \<Longrightarrow> unat i < 512 \<Longrightarrow> rd64 m' (slot t i) = rd64 m (slot t i)"
  shows "plain P A L D m' r"
  unfolding plain_def
proof (intro allI impI, elim conjE)
  fix p t i e assume p: "path_ok p" "Suc (length p) < D" "walk P A m' r p = Some t" "unat i < 512" "entry_of P m' t i = Some e"
  then have w: "walk P A m r p = Some t" using walk_agree [OF wf same, of p] by simp
  then have "t \<in> tables P A D m r" using p by (auto intro: tablesI)
  then have "entry_of P m t i = Some e" using p same by (simp add: entry_of_def)
  then show "\<not> L e" using plainD [OF pl p(1,2) w p(4)] by simp
qed

section \<open>Writing one entry\<close>

text \<open>A write to entry \<open>i\<close> of the table at path \<open>p\<close> changes only the walks through it.\<close>

lemma entry_of_write:
  assumes wf: "radix_wf P A D m r free"
    and p: "path_ok p" "length p < D" "walk P A m r p = Some t" "unat i < 512"
    and q: "path_ok q" "length q < D" "walk P A m r q = Some t'" "unat j < 512"
    and ne: "q @ [j] \<noteq> p @ [i]"
  shows "entry_of P (wr64 m (slot t i) v) t' j = entry_of P m t' j"
proof -
  from wf p q have f: "frame_ok t" "frame_ok t'" by (auto dest: radix_wf_frame)
  have "\<not> (t = t' \<and> i = j)" using radix_wf_inj [OF wf p(1-3) q(1,2)] q(3) ne by auto
  with f p(4) q(4) have "slot t i \<noteq> slot t' j" by (simp add: frame_simps)
  with f p(4) q(4) show ?thesis
    by (simp add: entry_of_def rd64_wr64_other frame_simps)
qed

lemma walk_write_other:
  assumes wf: "radix_wf P A D m r free"
    and p: "path_ok p" "length p < D" "walk P A m r p = Some t" "unat i < 512"
  shows "path_ok q \<Longrightarrow> length q \<le> D \<Longrightarrow> \<not> prefix (p @ [i]) q \<Longrightarrow>
    walk P A (wr64 m (slot t i) v) r q = walk P A m r q"
proof (induction q rule: rev_induct)
  case Nil
  show ?case by simp
next
  case (snoc j q)
  from snoc.prems have "\<not> prefix (p @ [i]) q" by simp
  with snoc have IH: "walk P A (wr64 m (slot t i) v) r q = walk P A m r q" by simp
  show ?case
  proof (cases "walk P A m r q")
    case None
    with IH show ?thesis by (simp add: walk_snoc)
  next
    case (Some t')
    have "entry_of P (wr64 m (slot t i) v) t' j = entry_of P m t' j"
      using snoc.prems Some by (intro entry_of_write [OF wf p]) auto
    with Some IH show ?thesis by (simp add: walk_snoc)
  qed
qed

lemma leaf_write:
  assumes wf: "radix_wf P A D m r free"
    and p: "path_ok p" "Suc (length p) = D" "walk P A m r p = Some t" "unat i < 512"
    and q: "path_ok q" "length q = D"
  shows "leaf P A (wr64 m (slot t i) v) r q =
    (if q = p @ [i] then if P v then Some v else None else leaf P A m r q)"
proof -
  obtain q' j where qs: "q = q' @ [j]" using p(2) q(2) by (cases q rule: rev_cases) auto
  with q p(2) have q': "path_ok q'" "length q' < D" "unat j < 512" by auto
  have np: "\<not> prefix (p @ [i]) q'"
    using p(2) q(2) qs by (auto dest: prefix_length_le)
  have w: "walk P A (wr64 m (slot t i) v) r q' = walk P A m r q'"
    using walk_write_other [OF wf _ _ p(3,4)] p q' np by simp
  show ?thesis
  proof (cases "q = p @ [i]")
    case True
    with qs w p show ?thesis by (simp add: leaf_snoc entry_of_def mem_simps)
  next
    case False
    show ?thesis
    proof (cases "walk P A m r q'")
      case (Some t')
      have "entry_of P (wr64 m (slot t i) v) t' j = entry_of P m t' j"
        using wf p q' False qs Some by (intro entry_of_write [where p = p and q = q']) auto
      with False qs w Some show ?thesis by (auto simp: leaf_snoc)
    qed (use False qs w in \<open>auto simp: leaf_snoc\<close>)
  qed
qed

lemma radix_wf_leaf_write:
  assumes wf: "radix_wf P A D m r free"
    and p: "path_ok p" "Suc (length p) = D" "walk P A m r p = Some t" "unat i < 512"
  shows "radix_wf P A D (wr64 m (slot t i) v) r free"
proof (rule radix_wf_agree [OF wf])
  fix q assume q: "path_ok q" "length q < D"
  then have "\<not> prefix (p @ [i]) q" using p(2) by (auto dest: prefix_length_le)
  with q p show "walk P A (wr64 m (slot t i) v) r q = walk P A m r q"
    by (intro walk_write_other [OF wf]) auto
qed simp

lemma plain_leaf_write:
  assumes pl: "plain P A L D m r" and wf: "radix_wf P A D m r free"
    and p: "path_ok p" "Suc (length p) = D" "walk P A m r p = Some t" "unat i < 512"
  shows "plain P A L D (wr64 m (slot t i) v) r"
  unfolding plain_def
proof (intro allI impI, elim conjE)
  fix q t' j e assume q: "path_ok q" "Suc (length q) < D" "walk P A (wr64 m (slot t i) v) r q = Some t'" "unat j < 512"
    "entry_of P (wr64 m (slot t i) v) t' j = Some e"
  have "\<not> prefix (p @ [i]) q" using p(2) q(2) by (auto dest: prefix_length_le)
  then have w: "walk P A m r q = Some t'" using walk_write_other [OF wf p(1) _ p(3,4), of q v] p(2) q by simp
  have "q @ [j] \<noteq> p @ [i]" using p(2) q(2) by auto
  then have "entry_of P m t' j = Some e"
    using entry_of_write [OF wf p(1) _ p(3,4) q(1) _ w q(4)] p(2) q by simp
  then show "\<not> L e" using plainD [OF pl q(1,2) w q(4)] by simp
qed

text \<open>Writing an absent entry cuts the subtree below it off.\<close>

lemma walk_cut:
  assumes wf: "radix_wf P A D m r free"
    and p: "path_ok p" "length p < D" "walk P A m r p = Some t" "unat i < 512"
    and v: "\<not> P v" and q: "path_ok q" "length q \<le> D"
  shows "walk P A (wr64 m (slot t i) v) r q = (if prefix (p @ [i]) q then None else walk P A m r q)"
proof (cases "prefix (p @ [i]) q")
  case True
  have "walk P A (wr64 m (slot t i) v) r p = Some t"
    using walk_write_other [OF wf p, of p v] p by auto
  then have "walk P A (wr64 m (slot t i) v) r (p @ [i]) = None"
    using v by (simp add: walk_snoc entry_of_def mem_simps)
  with True show ?thesis by (auto simp: prefix_def walk_append_None simp del: append_assoc)
qed (use walk_write_other [OF wf p] q in simp)

lemma radix_wf_cut:
  assumes wf: "radix_wf P A D m r free"
    and p: "path_ok p" "length p < D" "walk P A m r p = Some t" "unat i < 512" and v: "\<not> P v"
  shows "radix_wf P A D (wr64 m (slot t i) v) r free"
proof -
  note w = walk_cut [OF wf p v]
  have "tables P A D (wr64 m (slot t i) v) r \<subseteq> tables P A D m r"
    by (auto simp: tables_def w split: if_splits)
  then show ?thesis using wf unfolding radix_wf_def by (auto simp: w split: if_splits)
qed

section \<open>Entry formats and the linking of a new table\<close>

text \<open>An entry format: which entries are present, the frame an entry names, the entry that
  links a table, which entries are large-page leaves, and the frames an entry can name. A zeroed entry
  is absent.\<close>

locale radix_format =
  fixes P :: "u64 \<Rightarrow> bool" and A :: "u64 \<Rightarrow> u64" and link :: "u64 \<Rightarrow> u64" and L :: "u64 \<Rightarrow> bool"
    and usable :: "u64 \<Rightarrow> bool"
  assumes absent_zero: "\<not> P 0"
    and usable_frame: "usable f \<Longrightarrow> frame_ok f"
    and link_present: "usable f \<Longrightarrow> P (link f)"
    and link_addr: "usable f \<Longrightarrow> A (link f) = f"
    and link_small: "usable f \<Longrightarrow> \<not> L (link f)"
begin

lemma entry_of_zero_page:
  "frame_ok f \<Longrightarrow> unat i < 512 \<Longrightarrow> entry_of P (zero_page m f) f i = None"
  by (simp add: entry_of_def rd64_zero_page frame_simps absent_zero)

text \<open>The state after a fresh zeroed frame \<open>f\<close> is linked at the absent entry \<open>p @ [i]\<close>.\<close>

lemma walk_link:
  assumes wf: "radix_wf P A D m r free"
    and p: "path_ok p" "Suc (length p) < D" "walk P A m r p = Some t" "unat i < 512"
    and absent: "entry_of P m t i = None"
    and f: "usable f" "f \<in> free"
    and q: "path_ok q" "length q \<le> D"
  shows "walk P A (wr64 (zero_page m f) (slot t i) (link f)) r q =
    (if q = p @ [i] then Some f else walk P A m r q)"
proof -
  note fo = usable_frame [OF f(1)]
  have nt: "f \<notin> tables P A D m r" using wf f by (auto simp: radix_wf_def)
  let ?z = "zero_page m f" and ?m = "wr64 (zero_page m f) (slot t i) (link f)"
  have w0: "walk P A ?z r q = walk P A m r q" if "path_ok q" "length q \<le> D" for q
    by (rule walk_agree [OF wf zero_page_same [OF wf _ _ nt]]) (use that in auto)
  have wf0: "radix_wf P A D ?z r free"
    by (rule radix_wf_agree [OF wf]) (simp_all add: w0)
  have p0: "walk P A ?z r p = Some t" using w0 [of p] p by simp
  have f2: "frame_ok t" "t \<noteq> f" using radix_wf_frame [OF wf] p f by auto
  have at: "walk P A ?m r (p @ [i]) = Some f"
    using walk_write_other [OF wf0 p(1) _ p0 p(4), of p "link f"] p p0 f
    by (simp add: walk_snoc entry_of_def mem_simps link_present link_addr)
  have none: "walk P A m r (p @ [i]) = None" using p absent by (simp add: walk_snoc)
  have new: "entry_of P ?m f j = None" if "unat j < 512" for j
  proof -
    have "slot t i \<noteq> slot f j" using f2 fo p(4) that by (simp add: frame_simps)
    then have "entry_of P ?m f j = entry_of P ?z f j"
      using f2 fo p(4) that by (simp add: entry_of_def rd64_wr64_other frame_simps)
    then show ?thesis using entry_of_zero_page fo that by simp
  qed
  show ?thesis
  proof (cases "prefix (p @ [i]) q")
    case False
    then have "walk P A ?m r q = walk P A ?z r q"
      using walk_write_other [OF wf0 p(1) _ p0 p(4)] p q by simp
    with False w0 [OF q] show ?thesis by auto
  next
    case True
    then obtain s where s: "q = p @ [i] @ s" by (auto simp: prefix_def)
    show ?thesis
    proof (cases s)
      case Nil
      with s at show ?thesis by simp
    next
      case (Cons j s')
      have "walk P A ?m r ((p @ [i]) @ [j]) = None"
        using at new q s Cons by (simp only: walk_snoc [of P A ?m r "p @ [i]"]) simp
      from walk_append_None [OF this, of s'] have "walk P A ?m r q = None" using s Cons by simp
      moreover have "walk P A m r q = None" using walk_append_None [OF none] s by simp
      ultimately show ?thesis using s Cons by simp
    qed
  qed
qed

lemma leaf_link:
  assumes wf: "radix_wf P A D m r free"
    and p: "path_ok p" "Suc (length p) < D" "walk P A m r p = Some t" "unat i < 512"
    and absent: "entry_of P m t i = None"
    and f: "usable f" "f \<in> free"
    and q: "path_ok q" "length q = D"
  shows "leaf P A (wr64 (zero_page m f) (slot t i) (link f)) r q = leaf P A m r q"
proof -
  let ?m = "wr64 (zero_page m f) (slot t i) (link f)"
  obtain q' j where qs: "q = q' @ [j]" using p(2) q(2) by (cases q rule: rev_cases) auto
  with q have q': "path_ok q'" "length q' < D" "unat j < 512" by auto
  note wl = walk_link [OF wf p absent f]
  have d: "q \<noteq> p @ [i]" using p(2) q(2) by auto
  have nt: "f \<notin> tables P A D m r" using wf f by (auto simp: radix_wf_def)
  show ?thesis
  proof (cases "q' = p @ [i]")
    case True
    have none: "walk P A m r (p @ [i]) = None" using p absent by (simp add: walk_snoc)
    have ft: "frame_ok t" "t \<noteq> f" using radix_wf_frame [OF wf] p f by auto
    have "entry_of P ?m f j = None"
      using ft usable_frame [OF f(1)] p(4) q'(3) entry_of_zero_page [OF usable_frame [OF f(1)] q'(3), of m]
      by (simp add: entry_of_def rd64_wr64_other frame_simps)
    then show ?thesis using True none wl [of q'] q' unfolding qs leaf_snoc by simp
  next
    case False
    then have w: "walk P A ?m r q' = walk P A m r q'" using wl [of q'] q' by simp
    show ?thesis
    proof (cases "walk P A m r q'")
      case (Some t')
      have ft: "frame_ok t" "frame_ok t'" using radix_wf_frame [OF wf] p q' Some by auto
      have ne: "\<not> (t = t' \<and> i = j)"
        using radix_wf_inj [OF wf p(1) _ p(3) q'(1,2)] Some p d qs by auto
      have t': "t' \<in> tables P A D m r" using q' Some by (auto intro: tablesI)
      have "rd64 ?m (slot t' j) = rd64 m (slot t' j)"
        using ft ne p(4) q'(3) zero_page_same [OF wf t' q'(3) nt]
        by (subst rd64_wr64_other) (auto simp: frame_simps)
      with w Some show ?thesis by (simp add: leaf_snoc qs entry_of_def)
    qed (simp add: leaf_snoc qs w)
  qed
qed

lemma tables_link:
  assumes wf: "radix_wf P A D m r free"
    and p: "path_ok p" "Suc (length p) < D" "walk P A m r p = Some t" "unat i < 512"
    and absent: "entry_of P m t i = None"
    and f: "usable f" "f \<in> free"
  shows "tables P A D (wr64 (zero_page m f) (slot t i) (link f)) r = insert f (tables P A D m r)"
proof -
  note wl = walk_link [OF wf p absent f]
  have none: "walk P A m r (p @ [i]) = None" using p absent by (simp add: walk_snoc)
  have "path_ok (p @ [i])" "length (p @ [i]) < D" using p by auto
  show ?thesis
  proof (rule set_eqI)
    fix u
    show "u \<in> tables P A D (wr64 (zero_page m f) (slot t i) (link f)) r \<longleftrightarrow> u \<in> insert f (tables P A D m r)"
      unfolding tables_def mem_Collect_eq insert_iff
      using wl none \<open>path_ok (p @ [i])\<close> \<open>length (p @ [i]) < D\<close>
      by (metis (no_types, lifting) option.distinct(1) option.inject less_imp_le)
  qed
qed

lemma radix_wf_link:
  assumes wf: "radix_wf P A D m r free"
    and p: "path_ok p" "Suc (length p) < D" "walk P A m r p = Some t" "unat i < 512"
    and absent: "entry_of P m t i = None"
    and f: "usable f" "f \<in> free"
  shows "radix_wf P A D (wr64 (zero_page m f) (slot t i) (link f)) r (free - {f})"
proof -
  let ?m = "wr64 (zero_page m f) (slot t i) (link f)"
  note wl = walk_link [OF wf p absent f]
  have nt: "f \<notin> tables P A D m r" using wf f by (auto simp: radix_wf_def)
  have nf: "walk P A m r q \<noteq> Some f" if "path_ok q" "length q < D" for q
    using nt that by (auto intro: tablesI)
  have "\<forall>t\<in>tables P A D ?m r. frame_ok t \<and> t \<notin> free - {f}"
    using wf f usable_frame [OF f(1)] by (auto simp: tables_link [OF wf p absent f] radix_wf_def)
  moreover have "q = q'" if "path_ok q" "length q < D" "walk P A ?m r q = Some u"
      "path_ok q'" "length q' < D" "walk P A ?m r q' = Some u" for q q' u
    using that radix_wf_inj [OF wf, of q u q'] nf [of q] nf [of q']
    by (auto simp: wl split: if_splits)
  ultimately show ?thesis unfolding radix_wf_def by blast
qed

lemma plain_link:
  assumes pl: "plain P A L D m r" and wf: "radix_wf P A D m r free"
    and p: "path_ok p" "Suc (length p) < D" "walk P A m r p = Some t" "unat i < 512"
    and absent: "entry_of P m t i = None"
    and f: "usable f" "f \<in> free"
  shows "plain P A L D (wr64 (zero_page m f) (slot t i) (link f)) r"
  unfolding plain_def
proof (intro allI impI, elim conjE)
  let ?m = "wr64 (zero_page m f) (slot t i) (link f)"
  fix q t' j e assume q: "path_ok q" "Suc (length q) < D" "walk P A ?m r q = Some t'" "unat j < 512"
    "entry_of P ?m t' j = Some e"
  have ft: "frame_ok t" "t \<noteq> f" using radix_wf_frame [OF wf] p f by auto
  have nt: "f \<notin> tables P A D m r" using wf f by (auto simp: radix_wf_def)
  show "\<not> L e"
  proof (cases "q = p @ [i]")
    case True
    then have "t' = f" using walk_link [OF wf p absent f q(1)] q(2,3) by simp
    moreover have "slot t i \<noteq> slot f j" using ft usable_frame [OF f(1)] p(4) q(4) by (simp add: frame_simps)
    ultimately have "entry_of P ?m t' j = None"
      using ft usable_frame [OF f(1)] p(4) q(4) entry_of_zero_page [OF usable_frame [OF f(1)] q(4), of m]
      by (simp add: entry_of_def rd64_wr64_other frame_simps)
    with q(5) show ?thesis by simp
  next
    case False
    then have w: "walk P A m r q = Some t'" using walk_link [OF wf p absent f q(1)] q(2,3) by simp
    then have t': "t' \<in> tables P A D m r" "frame_ok t'" using q radix_wf_frame [OF wf q(1)] by (auto intro: tablesI)
    show ?thesis
    proof (cases "t' = t \<and> j = i")
      case True
      then have "e = link f" using q(5) by (auto simp: entry_of_def mem_simps Let_def split: if_splits)
      then show ?thesis using link_small f by simp
    next
      case other: False
      then have "slot t i \<noteq> slot t' j" using ft t' p(4) q(4) by (auto simp: frame_simps)
      then have "rd64 ?m (slot t' j) = rd64 m (slot t' j)"
        using ft t' p(4) q(4) zero_page_same [OF wf t'(1) q(4) nt]
        by (subst rd64_wr64_other) (auto simp: frame_simps)
      then have "entry_of P m t' j = Some e" using q(5) by (simp add: entry_of_def)
      then show ?thesis using plainD [OF pl q(1,2) w q(4)] by simp
    qed
  qed
qed

end

end
