(* ===== verification/Relm_Host.thy ===== *)
theory Relm_Host
  imports Relm_Prelude Relm_Radix
begin

text \<open>
  The host kernel as the hypervisor sees it. Physical memory is one byte memory; the direct map
  identifies kernel pointers with physical addresses. The page and slab allocators are kernel code
  outside the repository: their answers are part of the state. \<open>pool\<close> lists the frames the page
  allocator hands out, in order (an empty pool is a failing allocation), and \<open>kmem\<close> the outcomes of
  the coming \<open>kzalloc\<close>/\<open>kmalloc\<close>/\<open>kcalloc\<close> calls. What the kernel guarantees of the pool is
  \<open>host_ok\<close>: the frames are distinct, page aligned and within the physical address width.
\<close>

record host =
  pool :: "u64 list"
  kmem :: "bool list"
  pmem :: mem

definition host_ok :: "host \<Rightarrow> bool" where
  "host_ok h \<longleftrightarrow> distinct (pool h) \<and> (\<forall>f\<in>set (pool h). frame_ok f)"

text \<open>\<open>__get_free_page(... | __GFP_ZERO)\<close> and \<open>alloc_page(... | __GFP_ZERO)\<close>.\<close>

definition get_zeroed_page :: "host \<Rightarrow> u64 option \<times> host" where
  "get_zeroed_page h = (case pool h of
     [] \<Rightarrow> (None, h)
   | f # fs \<Rightarrow> (Some f, h\<lparr>pool := fs, pmem := zero_page (pmem h) f\<rparr>))"

definition free_page :: "u64 \<Rightarrow> host \<Rightarrow> host" where
  "free_page f h = h\<lparr>pool := pool h @ [f]\<rparr>"

text \<open>A slab allocation: whether it succeeds, and the host afterwards.\<close>

definition kzalloc :: "host \<Rightarrow> bool \<times> host" where
  "kzalloc h = (case kmem h of [] \<Rightarrow> (False, h) | b # bs \<Rightarrow> (b, h\<lparr>kmem := bs\<rparr>))"

lemma get_zeroed_page_simps [simp]:
  "pool h = [] \<Longrightarrow> get_zeroed_page h = (None, h)"
  "pool h = f # fs \<Longrightarrow> get_zeroed_page h = (Some f, h\<lparr>pool := fs, pmem := zero_page (pmem h) f\<rparr>)"
  by (simp_all add: get_zeroed_page_def)

lemma get_zeroed_page_cases:
  assumes "get_zeroed_page h = (r, h')"
  obtains "r = None" "h' = h" "pool h = []"
  | f fs where "r = Some f" "pool h = f # fs" "h' = h\<lparr>pool := fs, pmem := zero_page (pmem h) f\<rparr>"
  using assms by (cases "pool h") auto

lemma kzalloc_simps [simp]:
  "pool (snd (kzalloc h)) = pool h" "pmem (snd (kzalloc h)) = pmem h"
  by (simp_all add: kzalloc_def split: list.split)

section \<open>Growing a page-table tree from the pool\<close>

text \<open>A tree of depth \<open>D\<close> rooted at \<open>r\<close> together with the free pool; \<open>grows\<close> relates two host
  states when tables were only added to the tree, each taken from the pool: the translation is
  the same, no frame is lost, and memory outside the tables is untouched.\<close>

definition tree_ok :: "(u64 \<Rightarrow> bool) \<Rightarrow> (u64 \<Rightarrow> u64) \<Rightarrow> (u64 \<Rightarrow> bool) \<Rightarrow> nat \<Rightarrow> u64 \<Rightarrow> host \<Rightarrow> bool" where
  "tree_ok P A L D r h \<longleftrightarrow> host_ok h \<and> radix_wf P A D (pmem h) r (set (pool h)) \<and> plain P A L D (pmem h) r"

definition tree_frames :: "(u64 \<Rightarrow> bool) \<Rightarrow> (u64 \<Rightarrow> u64) \<Rightarrow> nat \<Rightarrow> u64 \<Rightarrow> host \<Rightarrow> u64 set" where
  "tree_frames P A D r h = tables P A D (pmem h) r \<union> set (pool h)"

definition grows :: "(u64 \<Rightarrow> bool) \<Rightarrow> (u64 \<Rightarrow> u64) \<Rightarrow> (u64 \<Rightarrow> bool) \<Rightarrow> nat \<Rightarrow> u64 \<Rightarrow> host \<Rightarrow> host \<Rightarrow> bool" where
  "grows P A L D r h h' \<longleftrightarrow> tree_ok P A L D r h' \<and>
     tree_frames P A D r h' = tree_frames P A D r h \<and>
     tables P A D (pmem h) r \<subseteq> tables P A D (pmem h') r \<and>
     (\<forall>q. path_ok q \<and> length q = D \<longrightarrow> leaf P A (pmem h') r q = leaf P A (pmem h) r q) \<and>
     (\<forall>x. page_base x \<notin> tables P A D (pmem h') r \<longrightarrow> pmem h' x = pmem h x) \<and>
     kmem h' = kmem h"

lemma grows_refl: "tree_ok P A L D r h \<Longrightarrow> grows P A L D r h h"
  by (simp add: grows_def)

lemma grows_trans: "grows P A L D r h h' \<Longrightarrow> grows P A L D r h' h'' \<Longrightarrow> grows P A L D r h h''"
  unfolding grows_def by (metis subset_iff)

lemma grows_tree_ok: "grows P A L D r h h' \<Longrightarrow> tree_ok P A L D r h'"
  by (simp add: grows_def)

text \<open>The interface of a get-or-create-table routine over an entry format: it follows a present
  entry and otherwise links a fresh zeroed frame, or fails when there is none.\<close>

locale radix_alloc = radix_format P A link L frame_ok
  for P :: "u64 \<Rightarrow> bool" and A :: "u64 \<Rightarrow> u64" and link :: "u64 \<Rightarrow> u64" and L :: "u64 \<Rightarrow> bool" +
  fixes goc :: "u64 \<Rightarrow> host \<Rightarrow> u64 option \<times> host"
  assumes goc_present: "P (rd64 (pmem h) a) \<Longrightarrow> goc a h = (Some (A (rd64 (pmem h) a)), h)"
    and goc_fail: "\<not> P (rd64 (pmem h) a) \<Longrightarrow> pool h = [] \<Longrightarrow> goc a h = (None, h)"
    and goc_alloc: "\<not> P (rd64 (pmem h) a) \<Longrightarrow> pool h = f # fs \<Longrightarrow>
      goc a h = (Some f, h\<lparr>pool := fs, pmem := wr64 (zero_page (pmem h) f) a (link f)\<rparr>)"
begin

lemma goc_step:
  assumes ok: "tree_ok P A L D r h"
    and p: "path_ok p" "Suc (length p) < D" "walk P A (pmem h) r p = Some t" "unat i < 512"
    and g: "goc (slot t i) h = (res, h')"
  obtains "res = None" "h' = h" "pool h = []"
  | u where "res = Some u" "grows P A L D r h h'" "walk P A (pmem h') r (p @ [i]) = Some u"
proof (cases "P (rd64 (pmem h) (slot t i))")
  case True
  with g have r: "res = Some (A (rd64 (pmem h) (slot t i)))" "h' = h" by (auto simp: goc_present)
  then have "walk P A (pmem h') r (p @ [i]) = Some (A (rd64 (pmem h) (slot t i)))"
    using p True by (simp add: walk_snoc entry_of_def)
  with r ok show ?thesis by (intro that(2)) (auto simp: grows_refl)
next
  case False
  show ?thesis
  proof (cases "pool h")
    case Nil
    with g False show ?thesis by (intro that(1)) (auto simp: goc_fail)
  next
    case (Cons f fs)
    let ?m = "wr64 (zero_page (pmem h) f) (slot t i) (link f)"
    from g False Cons have r: "res = Some f" "h' = h\<lparr>pool := fs, pmem := ?m\<rparr>" by (auto simp: goc_alloc)
    have wf: "radix_wf P A D (pmem h) r (set (pool h))" and hok: "host_ok h"
      using ok by (auto simp: tree_ok_def)
    have f: "frame_ok f" "f \<in> set (pool h)" "f \<notin> set fs" using hok Cons by (auto simp: host_ok_def)
    have none: "entry_of P (pmem h) t i = None" using False by (simp add: entry_of_def)
    note link = wf p none f(1,2)
    have t: "frame_ok t" using radix_wf_frame [OF wf p(1) _ p(3)] p by simp
    have tb: "tables P A D ?m r = insert f (tables P A D (pmem h) r)" by (rule tables_link [OF link])
    have tt: "t \<in> tables P A D (pmem h) r" using p by (auto intro: tablesI)
    have wf': "radix_wf P A D ?m r (set fs)"
      using radix_wf_link [OF link] f Cons by (simp add: insert_Diff_if)
    have pl: "plain P A L D ?m r" by (rule plain_link [OF _ link]) (use ok in \<open>simp add: tree_ok_def\<close>)
    have same: "?m x = pmem h x" if "page_base x \<notin> insert f (tables P A D (pmem h) r)" for x
    proof -
      have "page_base x \<noteq> page_base (slot t i)" "page_base x \<noteq> f"
        using that t tt p(4) by (auto simp: frame_simps)
      then show ?thesis using t p(4) by (simp add: wr64_outside frame_simps zero_page_def)
    qed
    have "grows P A L D r h h'"
      unfolding grows_def tree_ok_def tree_frames_def using wf' pl hok Cons r tb same leaf_link [OF link]
      by (auto simp: host_ok_def)
    moreover have "walk P A (pmem h') r (p @ [i]) = Some f"
      using walk_link [OF link, of "p @ [i]"] p r by simp
    ultimately show ?thesis using r by (intro that(2))
  qed
qed

text \<open>A zeroed root taken from the pool is an empty tree.\<close>

lemma fresh_root:
  assumes h: "host_ok h" and p: "pool h = r # fs" and h': "pool h' = fs" "pmem h' = zero_page (pmem h) r"
  shows "tree_ok P A L D r h'" "path_ok q \<Longrightarrow> q \<noteq> [] \<Longrightarrow> leaf P A (pmem h') r q = None"
    "0 < D \<Longrightarrow> tables P A D (pmem h') r \<union> set (pool h') = set (pool h)"
proof -
  have r: "frame_ok r" "r \<notin> set fs" and f: "\<forall>f\<in>set fs. frame_ok f" "distinct fs"
    using h p by (auto simp: host_ok_def)
  have e: "entry_of P (pmem h') r i = None" if "unat i < 512" for i
    using entry_of_zero_page [OF r(1) that, of "pmem h"] by (simp add: h')
  have w: "walk P A (pmem h') r q = (if q = [] then Some r else None)" if "path_ok q" for q
  proof (cases q)
    case (Cons i q')
    with that e [of i] show ?thesis by (auto simp: entry_of_def Let_def split: if_splits)
  qed simp
  show "tree_ok P A L D r h'"
    unfolding tree_ok_def radix_wf_def tables_def host_ok_def plain_def using r f h'(1) by (auto simp: w e split: if_splits)
  show "leaf P A (pmem h') r q = None" if "path_ok q" "q \<noteq> []"
  proof -
    obtain q' j where q: "q = q' @ [j]" using \<open>q \<noteq> []\<close> by (cases q rule: rev_cases) auto
    with that show ?thesis using w [of q'] e [of j] by (simp add: leaf_snoc)
  qed
  show "tables P A D (pmem h') r \<union> set (pool h') = set (pool h)" if "0 < D"
    unfolding tables_def using that p h'(1) by (auto simp: w intro: exI [of _ "[]"] split: if_splits)
qed

end

lemma tree_ok_leaf_write:
  assumes "tree_ok P A L D r h" "path_ok p" "Suc (length p) = D" "walk P A (pmem h) r p = Some t" "unat i < 512"
  shows "tree_ok P A L D r (h\<lparr>pmem := wr64 (pmem h) (slot t i) v\<rparr>)"
  using assms radix_wf_leaf_write [of P A D "pmem h" r "set (pool h)" p t i v]
    plain_leaf_write [of P A L D "pmem h" r "set (pool h)" p t i v]
  by (simp add: tree_ok_def host_ok_def)

lemma tables_leaf_write:
  assumes ok: "tree_ok P A L D r h" and p: "path_ok p" "Suc (length p) = D" "walk P A (pmem h) r p = Some t" "unat i < 512"
  shows "tables P A D (wr64 (pmem h) (slot t i) v) r = tables P A D (pmem h) r"
proof (rule tables_agree)
  fix q assume q: "path_ok q" "length q < D"
  then have "\<not> prefix (p @ [i]) q" using p(2) by (auto dest: prefix_length_le)
  with q p ok show "walk P A (wr64 (pmem h) (slot t i) v) r q = walk P A (pmem h) r q"
    by (intro walk_write_other) (auto simp: tree_ok_def)
qed

section \<open>Giving the frames of a tree back\<close>

lemma fold_append_pool:
  assumes "\<And>i h. pmem h = m \<Longrightarrow> g i h = h\<lparr>pool := pool h @ f i\<rparr>"
  shows "pmem h = m \<Longrightarrow> fold g is h = h\<lparr>pool := pool h @ concat (map f is)\<rparr>"
proof (induction "is" arbitrary: h)
  case (Cons i js)
  then show ?case by (simp add: assms)
qed simp

lemma teardown_ok:
  assumes ok: "tree_ok P A L D r h"
    and h': "h' = h\<lparr>pool := pool h @ radix_frames (\<lambda>e. P e \<and> \<not> L e) A D (pmem h) r\<rparr>"
  shows "host_ok h'" "set (pool h') = tree_frames P A D r h"
proof -
  have hk: "host_ok h" and wf: "radix_wf P A D (pmem h) r (set (pool h))" and pl: "plain P A L D (pmem h) r"
    using ok by (simp_all add: tree_ok_def)
  note tf = teardown_frames [OF wf pl]
  show "host_ok h'" using hk wf tf by (auto simp: host_ok_def h' radix_wf_def)
  show "set (pool h') = tree_frames P A D r h" using tf by (auto simp: h' tree_frames_def)
qed

end
