(* ===== verification/Relm_Dense.thy ===== *)
theory Relm_Dense
  imports Relm_Prelude
begin

text \<open>
  Dense arrays with a live count, the idiom of the registries in src/virtio/mmio.c and
  src/virtio/virtio.c: an element is removed by moving every later element down one slot and
  decrementing the count. The loop is shown to delete exactly one element of the live prefix.
\<close>

text \<open>The inner loop of the release: entries \<open>j\<close>, \<open>j + 1\<close>, \dots{} move down one slot.\<close>

function shift_down :: "nat \<Rightarrow> nat \<Rightarrow> 'a list \<Rightarrow> 'a list" where
  "shift_down j count a =
     (if j + 1 < count then shift_down (j + 1) count (a[j := a ! (j + 1)]) else a)"
  by pat_completeness auto
termination
  by (relation "measure (\<lambda>(j, count, a). count - j)") auto

declare shift_down.simps [simp del]

text \<open>The list operation a removal implements: delete the first element that satisfies \<open>P\<close>.\<close>

fun drop_first :: "('a \<Rightarrow> bool) \<Rightarrow> 'a list \<Rightarrow> 'a list" where
  "drop_first P [] = []"
| "drop_first P (x # xs) = (if P x then xs else x # drop_first P xs)"

lemma set_drop_first: "set (drop_first P xs) \<subseteq> set xs"
  by (induction xs) auto

lemma drop_first_append: "\<forall>x\<in>set xs. \<not> P x \<Longrightarrow> drop_first P (xs @ ys) = xs @ drop_first P ys"
  by (induction xs) auto

lemma drop_first_id: "\<forall>x\<in>set xs. \<not> P x \<Longrightarrow> drop_first P xs = xs"
  by (induction xs) auto

lemma sorted_wrt_drop_first: "sorted_wrt R xs \<Longrightarrow> sorted_wrt R (drop_first P xs)"
  by (induction xs) (use set_drop_first in fastforce)+

lemma take_list_update_self: "n < length xs \<Longrightarrow> take (Suc n) (xs[n := x]) = take n xs @ [x]"
  by (simp add: take_Suc_conv_app_nth)

text \<open>The shifting loop deletes entry \<open>i\<close> of the first \<open>n\<close> entries of the array.\<close>

lemma shift_down_length [simp]: "length (shift_down j n a) = length a"
  by (induction j n a rule: shift_down.induct) (simp add: shift_down.simps)

lemma shift_down_take_below: "take j (shift_down j n a) = take j a"
proof (induction j n a rule: shift_down.induct)
  case (1 j n a)
  show ?case
  proof (cases "j + 1 < n")
    case True
    have "take j (shift_down (j + 1) n (a[j := a ! (j + 1)])) =
        take j (take (j + 1) (shift_down (j + 1) n (a[j := a ! (j + 1)])))" by simp
    also have "\<dots> = take j a" using 1 True by simp
    finally show ?thesis using True by (simp add: shift_down.simps [of j])
  qed (simp add: shift_down.simps [of j])
qed

lemma shift_down_nth:
  "n \<le> length a \<Longrightarrow> j \<le> k \<Longrightarrow> k + 1 < n \<Longrightarrow> shift_down j n a ! k = a ! (k + 1)"
proof (induction j n a arbitrary: k rule: shift_down.induct)
  case (1 j n a)
  show ?case
  proof (cases "k = j")
    case True
    have "shift_down (j + 1) n (a[j := a ! (j + 1)]) ! j =
        take (j + 1) (shift_down (j + 1) n (a[j := a ! (j + 1)])) ! j" by simp
    also have "\<dots> = take (j + 1) (a[j := a ! (j + 1)]) ! j" by (simp only: shift_down_take_below)
    also have "\<dots> = a ! (j + 1)" using 1 True by simp
    finally show ?thesis using True 1 by (simp add: shift_down.simps [of j])
  next
    case False
    with 1 show ?thesis by (simp add: shift_down.simps [of j])
  qed
qed

lemma shift_down_deletes:
  assumes "i < n" "n \<le> length a"
  shows "take (n - 1) (shift_down i n a) = take i a @ drop (i + 1) (take n a)"
proof (rule nth_equalityI)
  show "length (take (n - 1) (shift_down i n a)) = length (take i a @ drop (i + 1) (take n a))"
    using assms by simp
  fix k assume "k < length (take (n - 1) (shift_down i n a))"
  then have k: "k < n - 1" by simp
  show "take (n - 1) (shift_down i n a) ! k = (take i a @ drop (i + 1) (take n a)) ! k"
  proof (cases "k < i")
    case True
    have "shift_down i n a ! k = take i (shift_down i n a) ! k" using True by simp
    then show ?thesis using True k assms by (simp add: shift_down_take_below nth_append)
  next
    case False
    with k assms show ?thesis by (simp add: nth_append shift_down_nth)
  qed
qed

end
