(* ===== verification/Relm_Mmio.thy ===== *)
theory Relm_Mmio
  imports Relm_Prelude Relm_Dense
begin

text \<open>
  The guest memory bookkeeping of a VM (\<open>struct relm_vm_memory\<close>, include/relm/vm.h) and the registry
  of reserved MMIO windows (src/virtio/mmio.c): reservation with its alignment and overlap checks,
  release, the membership test of the EPT-violation handler and the iteration interface. The
  registry is a fixed array of eight slots with a live count; \<open>live\<close> is its abstraction, the
  list of reserved windows. The theorems: the operations refine the list operations, windows stay
  pairwise disjoint and off guest RAM, and what the membership test decides.
\<close>

section \<open>Data\<close>

text \<open>\<open>struct guest_mem_region\<close>: \<open>pages\<close> is the array of backing frames (\<open>None\<close> a NULL
  slot), absent altogether for an MMIO passthrough region. The linked list of regions is a list,
  head first.\<close>

record guest_mem_region =
  gr_gpa_start :: u64
  gr_size :: u64
  gr_pages :: "u64 option list option"
  gr_nr_pages :: u64
  gr_flags :: u64

record relm_mmio_region =
  mr_gpa_start :: u64
  mr_size :: u64
  mr_name :: string

abbreviation (input) RELM_MAX_MMIO_REGIONS :: nat where "RELM_MAX_MMIO_REGIONS \<equiv> 8"

record relm_vm_memory =
  mem_regions :: "guest_mem_region list"
  total_guest_ram :: u64
  mmio_regions :: "relm_mmio_region list"
  mmio_region_count :: nat

section \<open>Operations\<close>

text \<open>The half-open interval test of the C code, on wrapping 64-bit ends.\<close>

definition ranges_overlap :: "u64 \<Rightarrow> u64 \<Rightarrow> u64 \<Rightarrow> u64 \<Rightarrow> bool" where
  "ranges_overlap a asize b bsize \<longleftrightarrow> a < b + bsize \<and> b < a + asize"

text \<open>\<open>strscpy(slot->name, name, sizeof(slot->name))\<close> with a 32-byte destination.\<close>

definition strscpy :: "nat \<Rightarrow> string \<Rightarrow> string" where
  "strscpy n s = take (n - 1) s"

definition relm_vm_reserve_mmio_region ::
    "u64 \<Rightarrow> u64 \<Rightarrow> string option \<Rightarrow> relm_vm_memory option \<Rightarrow> unit res \<times> relm_vm_memory option" where
  "relm_vm_reserve_mmio_region gpa_start sz name vm =
     (case (vm, name) of
        (Some mm, Some nm) \<Rightarrow>
          if sz = 0 then (Inl EINVAL, vm)
          else if \<not> PAGE_ALIGNED gpa_start \<or> \<not> PAGE_ALIGNED sz then (Inl EINVAL, vm)
          else if \<exists>r\<in>set (mem_regions mm). ranges_overlap gpa_start sz (gr_gpa_start r) (gr_size r)
          then (Inl EBUSY, vm)
          else if \<exists>r\<in>set (take (mmio_region_count mm) (mmio_regions mm)).
                    ranges_overlap gpa_start sz (mr_gpa_start r) (mr_size r)
          then (Inl EBUSY, vm)
          else if mmio_region_count mm \<ge> RELM_MAX_MMIO_REGIONS then (Inl ENOSPC, vm)
          else (Inr (), Some (mm\<lparr>mmio_regions := (mmio_regions mm)[mmio_region_count mm :=
                    \<lparr>mr_gpa_start = gpa_start, mr_size = sz, mr_name = strscpy 32 nm\<rparr>],
                  mmio_region_count := mmio_region_count mm + 1\<rparr>))
      | _ \<Rightarrow> (Inl EINVAL, vm))"

fun release_from :: "nat \<Rightarrow> nat \<Rightarrow> u64 \<Rightarrow> relm_vm_memory \<Rightarrow> relm_vm_memory" where
  "release_from 0 i gpa_start mm = mm"
| "release_from (Suc k) i gpa_start mm =
     (if mr_gpa_start (mmio_regions mm ! i) = gpa_start
      then mm\<lparr>mmio_regions := shift_down i (mmio_region_count mm) (mmio_regions mm),
              mmio_region_count := mmio_region_count mm - 1\<rparr>
      else release_from k (i + 1) gpa_start mm)"

definition relm_vm_release_mmio_region :: "u64 \<Rightarrow> relm_vm_memory option \<Rightarrow> relm_vm_memory option" where
  "relm_vm_release_mmio_region gpa_start vm =
     map_option (\<lambda>mm. release_from (mmio_region_count mm) 0 gpa_start mm) vm"

definition relm_vm_gpa_is_mmio_region :: "relm_vm_memory option \<Rightarrow> u64 \<Rightarrow> bool" where
  "relm_vm_gpa_is_mmio_region vm fault_gpa =
     (case vm of None \<Rightarrow> False
      | Some mm \<Rightarrow> (\<exists>r\<in>set (take (mmio_region_count mm) (mmio_regions mm)).
          mr_gpa_start r \<le> fault_gpa \<and> fault_gpa < mr_gpa_start r + mr_size r))"

definition relm_vm_mmio_region_count :: "relm_vm_memory option \<Rightarrow> nat" where
  "relm_vm_mmio_region_count vm = (case vm of None \<Rightarrow> 0 | Some mm \<Rightarrow> mmio_region_count mm)"

text \<open>The out parameter \<open>struct relm_mmio_region *out\<close> is a cell, or NULL.\<close>

definition relm_vm_mmio_region_at ::
    "relm_vm_memory option \<Rightarrow> nat \<Rightarrow> relm_mmio_region option \<Rightarrow> unit res \<times> relm_mmio_region option" where
  "relm_vm_mmio_region_at vm index out =
     (case (vm, out) of
        (Some mm, Some _) \<Rightarrow>
          if index \<ge> mmio_region_count mm then (Inl ENOENT, out)
          else (Inr (), Some (mmio_regions mm ! index))
      | _ \<Rightarrow> (Inl EINVAL, out))"

section \<open>The registry as a list of windows\<close>

definition live :: "relm_vm_memory \<Rightarrow> relm_mmio_region list" where
  "live mm = take (mmio_region_count mm) (mmio_regions mm)"

definition in_range :: "u64 \<Rightarrow> u64 \<Rightarrow> u64 \<Rightarrow> bool" where
  "in_range a start sz \<longleftrightarrow> start \<le> a \<and> a < start + sz"

definition windows_apart :: "relm_mmio_region \<Rightarrow> relm_mmio_region \<Rightarrow> bool" where
  "windows_apart r r' \<longleftrightarrow> \<not> ranges_overlap (mr_gpa_start r) (mr_size r) (mr_gpa_start r') (mr_size r')"

definition off_ram :: "guest_mem_region list \<Rightarrow> relm_mmio_region \<Rightarrow> bool" where
  "off_ram rs w \<longleftrightarrow>
     (\<forall>r\<in>set rs. \<not> ranges_overlap (mr_gpa_start w) (mr_size w) (gr_gpa_start r) (gr_size r))"

text \<open>The invariant of the registry: eight slots, a count within them, live windows aligned,
  non-empty, pairwise apart and off guest RAM.\<close>

definition mmio_inv :: "relm_vm_memory \<Rightarrow> bool" where
  "mmio_inv mm \<longleftrightarrow> length (mmio_regions mm) = RELM_MAX_MMIO_REGIONS \<and>
     mmio_region_count mm \<le> RELM_MAX_MMIO_REGIONS \<and>
     sorted_wrt windows_apart (live mm) \<and>
     (\<forall>w\<in>set (live mm). off_ram (mem_regions mm) w \<and> mr_size w \<noteq> 0 \<and>
        PAGE_ALIGNED (mr_gpa_start w) \<and> PAGE_ALIGNED (mr_size w))"

lemma ranges_overlap_sym: "ranges_overlap a s b t = ranges_overlap b t a s"
  by (auto simp: ranges_overlap_def)

lemma in_range_overlap: "in_range a s n \<Longrightarrow> in_range a t k \<Longrightarrow> ranges_overlap s n t k"
  by (auto simp: in_range_def ranges_overlap_def)

lemma gpa_is_mmio_live:
  "relm_vm_gpa_is_mmio_region (Some mm) a \<longleftrightarrow>
     (\<exists>w\<in>set (live mm). in_range a (mr_gpa_start w) (mr_size w))"
  by (simp add: relm_vm_gpa_is_mmio_region_def live_def in_range_def)

section \<open>Reservation and release on the list of windows\<close>

lemma release_from_live:
  assumes "length (mmio_regions mm) = RELM_MAX_MMIO_REGIONS"
    and "mmio_region_count mm \<le> RELM_MAX_MMIO_REGIONS"
    and "i + k = mmio_region_count mm"
    and "\<forall>w\<in>set (take i (mmio_regions mm)). mr_gpa_start w \<noteq> g"
  shows "live (release_from k i g mm) = drop_first (\<lambda>w. mr_gpa_start w = g) (live mm)"
  using assms
proof (induction k arbitrary: i)
  case 0
  then show ?case by (simp add: live_def drop_first_id)
next
  case (Suc k)
  let ?a = "mmio_regions mm" and ?n = "mmio_region_count mm"
  have lt: "i < ?n" "?n \<le> length ?a" using Suc.prems by auto
  have split: "live mm = take i ?a @ ?a ! i # drop (i + 1) (take ?n ?a)"
    using lt id_take_nth_drop [of i "take ?n ?a"] by (simp add: live_def min_def)
  show ?case
  proof (cases "mr_gpa_start (?a ! i) = g")
    case True
    then have "live (release_from (Suc k) i g mm) = take (?n - 1) (shift_down i ?n ?a)"
      by (simp add: live_def)
    also have "\<dots> = take i ?a @ drop (i + 1) (take ?n ?a)"
      by (rule shift_down_deletes [OF lt])
    also have "\<dots> = drop_first (\<lambda>w. mr_gpa_start w = g) (live mm)"
      using True Suc.prems by (simp add: split drop_first_append)
    finally show ?thesis .
  next
    case False
    have "\<forall>w\<in>set (take (i + 1) ?a). mr_gpa_start w \<noteq> g"
      using False Suc.prems lt by (auto simp: take_Suc_conv_app_nth)
    with False Suc show ?thesis by simp
  qed
qed

lemma release_from_fields [simp]:
  "mem_regions (release_from k i g mm) = mem_regions mm"
  "total_guest_ram (release_from k i g mm) = total_guest_ram mm"
  "length (mmio_regions (release_from k i g mm)) = length (mmio_regions mm)"
  "mmio_region_count (release_from k i g mm) \<le> mmio_region_count mm"
  by (induction k arbitrary: i) auto

text \<open>The registry operations as an input language, and runs of it.\<close>

datatype mmio_op = Reserve u64 u64 string | Release u64

definition mmio_step :: "mmio_op \<Rightarrow> relm_vm_memory option \<Rightarrow> relm_vm_memory option" where
  "mmio_step oper vm = (case oper of
     Reserve g n nm \<Rightarrow> snd (relm_vm_reserve_mmio_region g n (Some nm) vm)
   | Release g \<Rightarrow> relm_vm_release_mmio_region g vm)"

lemma reserve_Inr:
  assumes "relm_vm_reserve_mmio_region g n name (Some mm) = (Inr (), vm')" "mmio_inv mm"
  obtains nm mm' where "name = Some nm" "vm' = Some mm'"
    "live mm' = live mm @ [\<lparr>mr_gpa_start = g, mr_size = n, mr_name = strscpy 32 nm\<rparr>]"
    "mem_regions mm' = mem_regions mm" "mmio_region_count mm' = mmio_region_count mm + 1"
    "length (mmio_regions mm') = length (mmio_regions mm)" "mmio_region_count mm < RELM_MAX_MMIO_REGIONS"
    "n \<noteq> 0" "PAGE_ALIGNED g" "PAGE_ALIGNED n"
    "\<forall>r\<in>set (mem_regions mm). \<not> ranges_overlap g n (gr_gpa_start r) (gr_size r)"
    "\<forall>w\<in>set (live mm). \<not> ranges_overlap g n (mr_gpa_start w) (mr_size w)"
  using assms
  by (auto simp: relm_vm_reserve_mmio_region_def live_def mmio_inv_def take_list_update_self
      split: option.splits if_splits)

lemma reserve_Inl: "relm_vm_reserve_mmio_region g n name vm = (Inl e, vm') \<Longrightarrow> vm' = vm"
  by (auto simp: relm_vm_reserve_mmio_region_def split: option.splits if_splits)

lemma reserve_inv:
  assumes inv: "mmio_inv mm" and r: "relm_vm_reserve_mmio_region g n name (Some mm) = (r, Some mm')"
  shows "mmio_inv mm'"
proof (cases r)
  case (Inl e)
  with r inv show ?thesis by (auto dest: reserve_Inl)
next
  case (Inr u)
  with r have "relm_vm_reserve_mmio_region g n name (Some mm) = (Inr (), Some mm')" by simp
  from reserve_Inr [OF this inv] obtain nm where
    l: "live mm' = live mm @ [\<lparr>mr_gpa_start = g, mr_size = n, mr_name = strscpy 32 nm\<rparr>]"
      (is "_ = _ @ [?w]") and
    rest: "mem_regions mm' = mem_regions mm" "mmio_region_count mm' = mmio_region_count mm + 1"
    "length (mmio_regions mm') = length (mmio_regions mm)" "mmio_region_count mm < RELM_MAX_MMIO_REGIONS"
    "n \<noteq> 0" "PAGE_ALIGNED g" "PAGE_ALIGNED n"
    "\<forall>r\<in>set (mem_regions mm). \<not> ranges_overlap g n (gr_gpa_start r) (gr_size r)" and
    apart: "\<forall>w\<in>set (live mm). \<not> ranges_overlap g n (mr_gpa_start w) (mr_size w)"
    by (metis option.inject)
  have "\<forall>w\<in>set (live mm). windows_apart w ?w"
    using apart by (auto simp: windows_apart_def ranges_overlap_def)
  with inv l rest show ?thesis
    by (simp add: mmio_inv_def sorted_wrt_append ball_Un) (simp add: off_ram_def)
qed

lemma release_inv: "mmio_inv mm \<Longrightarrow> mmio_inv (release_from (mmio_region_count mm) 0 g mm)"
  using release_from_live [of mm 0 "mmio_region_count mm" g]
    release_from_fields(4) [of "mmio_region_count mm" 0 g mm]
  unfolding mmio_inv_def
  by (auto simp: sorted_wrt_drop_first dest: subsetD [OF set_drop_first] intro: order_trans
      simp del: release_from_fields(4))

lemma mmio_step_inv:
  assumes "mmio_inv mm"
  obtains mm' where "mmio_step oper (Some mm) = Some mm'" "mmio_inv mm'"
    "mem_regions mm' = mem_regions mm"
proof (cases oper)
  case (Reserve g n nm)
  obtain r vm' where rv: "relm_vm_reserve_mmio_region g n (Some nm) (Some mm) = (r, vm')" by force
  show ?thesis
  proof (cases r)
    case (Inl e)
    with rv Reserve that assms show ?thesis by (auto simp: mmio_step_def dest: reserve_Inl)
  next
    case (Inr u)
    with rv have "relm_vm_reserve_mmio_region g n (Some nm) (Some mm) = (Inr (), vm')" by simp
    from reserve_Inr [OF this assms] obtain mm' where "vm' = Some mm'" "mem_regions mm' = mem_regions mm"
      by metis
    with rv Reserve that reserve_inv [OF assms, of g n "Some nm" r mm'] show ?thesis
      by (simp add: mmio_step_def)
  qed
next
  case (Release g)
  with that release_inv [OF assms] show ?thesis
    by (simp add: mmio_step_def relm_vm_release_mmio_region_def)
qed

lemma mmio_run_inv:
  "mmio_inv mm \<Longrightarrow> \<exists>mm'. fold mmio_step ops (Some mm) = Some mm' \<and> mmio_inv mm' \<and> mem_regions mm' = mem_regions mm"
proof (induction ops arbitrary: mm)
  case (Cons oper ops)
  obtain mm' where "mmio_step oper (Some mm) = Some mm'" "mmio_inv mm'" "mem_regions mm' = mem_regions mm"
    using mmio_step_inv [OF Cons.prems] .
  with Cons.IH [of mm'] show ?case by auto
qed simp

lemma windows_unique:
  assumes "mmio_inv mm" "i < length (live mm)" "j < length (live mm)"
    and "in_range a (mr_gpa_start (live mm ! i)) (mr_size (live mm ! i))"
    and "in_range a (mr_gpa_start (live mm ! j)) (mr_size (live mm ! j))"
  shows "i = j"
proof (rule ccontr)
  assume "i \<noteq> j"
  then have "windows_apart (live mm ! i) (live mm ! j) \<or> windows_apart (live mm ! j) (live mm ! i)"
    using assms(1-3) unfolding mmio_inv_def sorted_wrt_iff_nth_less by (metis nat_neq_iff)
  with assms(4,5) show False by (auto simp: windows_apart_def dest: in_range_overlap)
qed

lemma live_release:
  "mmio_inv mm \<Longrightarrow> live (release_from (mmio_region_count mm) 0 g mm) = drop_first (\<lambda>w. mr_gpa_start w = g) (live mm)"
  by (rule release_from_live) (simp_all add: mmio_inv_def)

lemma drop_first_unique:
  "distinct xs \<Longrightarrow> w \<in> set xs \<Longrightarrow> (\<And>v. v \<in> set xs \<Longrightarrow> P v \<longleftrightarrow> v = w) \<Longrightarrow> set (drop_first P xs) = set xs - {w}"
  by (induction xs) auto

lemma live_unwrapped:
  assumes inv: "mmio_inv mm" and nw: "\<forall>w\<in>set (live mm). mr_gpa_start w < mr_gpa_start w + mr_size w"
    and w: "w \<in> set (live mm)" and v: "v \<in> set (live mm)" and c: "in_range a (mr_gpa_start w) (mr_size w)"
    "in_range a (mr_gpa_start v) (mr_size v)"
  shows "v = w"
  using windows_unique [OF inv] w v c by (metis in_set_conv_nth)

lemma live_distinct:
  assumes inv: "mmio_inv mm" and nw: "\<forall>w\<in>set (live mm). mr_gpa_start w < mr_gpa_start w + mr_size w"
  shows "distinct (live mm)"
  unfolding distinct_conv_nth
proof (intro allI impI notI)
  fix i j assume ij: "i < length (live mm)" "j < length (live mm)" "i \<noteq> j" "live mm ! i = live mm ! j"
  have "in_range (mr_gpa_start (live mm ! i)) (mr_gpa_start (live mm ! i)) (mr_size (live mm ! i))"
    using nw ij(1) by (auto simp: in_range_def)
  with ij windows_unique [OF inv ij(1,2)] show False by metis
qed

section \<open>Properties\<close>

text \<open>(C19) Whatever sequence of reservations (successful or refused) and releases is run, an
  address the EPT-violation handler classifies as MMIO lies in exactly one live window and in no
  guest RAM region, so device emulation and RAM never compete for an access.\<close>

theorem mmio_run_exclusive:
  assumes "mmio_inv mm"
  shows "\<exists>mm'. fold mmio_step ops (Some mm) = Some mm' \<and> mmio_inv mm' \<and>
    (\<forall>a. relm_vm_gpa_is_mmio_region (Some mm') a \<longrightarrow>
       (\<exists>!i. i < length (live mm') \<and> in_range a (mr_gpa_start (live mm' ! i)) (mr_size (live mm' ! i))) \<and>
       (\<forall>r\<in>set (mem_regions mm). \<not> in_range a (gr_gpa_start r) (gr_size r)))"
proof -
  obtain mm' where mm': "fold mmio_step ops (Some mm) = Some mm'" "mmio_inv mm'"
      "mem_regions mm' = mem_regions mm"
    using mmio_run_inv [OF assms] by blast
  have "(\<exists>!i. i < length (live mm') \<and> in_range a (mr_gpa_start (live mm' ! i)) (mr_size (live mm' ! i))) \<and>
       (\<forall>r\<in>set (mem_regions mm). \<not> in_range a (gr_gpa_start r) (gr_size r))"
    if "relm_vm_gpa_is_mmio_region (Some mm') a" for a
  proof -
    from that obtain w where w: "w \<in> set (live mm')" "in_range a (mr_gpa_start w) (mr_size w)"
      by (auto simp: gpa_is_mmio_live)
    then obtain i where "i < length (live mm')" "live mm' ! i = w" by (auto simp: in_set_conv_nth)
    with w windows_unique [OF mm'(2)] show ?thesis
      using mm' unfolding mmio_inv_def off_ram_def by (metis in_range_overlap)
  qed
  with mm' show ?thesis by blast
qed

definition mmio_empty :: relm_vm_memory where
  "mmio_empty = \<lparr>mem_regions = [\<lparr>gr_gpa_start = 0, gr_size = 0x8000000, gr_pages = None, gr_nr_pages = 0x8000, gr_flags = 7\<rparr>],
     total_guest_ram = 0x8000000,
     mmio_regions = replicate 8 \<lparr>mr_gpa_start = 0, mr_size = 0, mr_name = []\<rparr>, mmio_region_count = 0\<rparr>"

lemma mmio_empty_inv: "mmio_inv mmio_empty"
  by (simp add: mmio_inv_def mmio_empty_def live_def)

definition mmio_two :: relm_vm_memory where
  "mmio_two = mmio_empty\<lparr>mmio_regions := [\<lparr>mr_gpa_start = 0xD0000000, mr_size = 0x1000, mr_name = ''blk''\<rparr>,
      \<lparr>mr_gpa_start = 0xD0001000, mr_size = 0x1000, mr_name = ''net''\<rparr>] @ drop 2 (mmio_regions mmio_empty),
     mmio_region_count := 2\<rparr>"

lemma live_mmio_two: "live mmio_two = [\<lparr>mr_gpa_start = 0xD0000000, mr_size = 0x1000, mr_name = ''blk''\<rparr>,
      \<lparr>mr_gpa_start = 0xD0001000, mr_size = 0x1000, mr_name = ''net''\<rparr>]"
  by (simp add: mmio_two_def live_def)

lemma mmio_two_inv: "mmio_inv mmio_two"
  unfolding mmio_inv_def live_mmio_two
  by (simp add: mmio_two_def mmio_empty_def windows_apart_def off_ram_def ranges_overlap_def PAGE_ALIGNED_def)

theorem mmio_run_exclusive_witness:
  "\<exists>mm'. fold mmio_step [Reserve 0xD0000001 0x1000 ''x'', Release 0xD0000000] (Some mmio_two) = Some mm'
     \<and> mmio_inv mm' \<and> (relm_vm_gpa_is_mmio_region (Some mm') 0 \<longrightarrow> \<not> in_range 0 0 0x8000000)"
  using mmio_run_exclusive [OF mmio_two_inv, of "[Reserve 0xD0000001 0x1000 ''x'', Release 0xD0000000]"]
  by (auto simp: mmio_two_def mmio_empty_def)

text \<open>A successful reservation makes exactly the addresses of the new window classify as
  MMIO in addition to those that already did; a refused one (bad alignment, overlap, full
  registry, NULL arguments) changes nothing.\<close>

theorem reserve_adds_window:
  assumes "mmio_inv mm" and "relm_vm_reserve_mmio_region g n name (Some mm) = (r, vm')"
  shows "relm_vm_gpa_is_mmio_region vm' a \<longleftrightarrow>
    relm_vm_gpa_is_mmio_region (Some mm) a \<or> (r = Inr () \<and> in_range a g n)"
proof (cases r)
  case (Inl e)
  with assms show ?thesis by (auto dest: reserve_Inl)
next
  case (Inr u)
  with assms have "relm_vm_reserve_mmio_region g n name (Some mm) = (Inr (), vm')" by simp
  from reserve_Inr [OF this assms(1)] obtain nm mm' where "vm' = Some mm'"
    "live mm' = live mm @ [\<lparr>mr_gpa_start = g, mr_size = n, mr_name = strscpy 32 nm\<rparr>]" by metis
  with Inr show ?thesis by (auto simp: gpa_is_mmio_live)
qed

theorem reserve_adds_window_witness:
  "relm_vm_gpa_is_mmio_region (snd (relm_vm_reserve_mmio_region 0xD0000000 0x1000 (Some ''vblk'') (Some mmio_empty))) 0xD0000FFF"
proof -
  have "relm_vm_reserve_mmio_region 0xD0000000 0x1000 (Some ''vblk'') (Some mmio_empty) =
      (Inr (), snd (relm_vm_reserve_mmio_region 0xD0000000 0x1000 (Some ''vblk'') (Some mmio_empty)))"
    by (simp add: mmio_empty_def relm_vm_reserve_mmio_region_def ranges_overlap_def PAGE_ALIGNED_def)
  from reserve_adds_window [OF mmio_empty_inv this, where a = "0xD0000FFF"] show ?thesis
    by (simp add: in_range_def)
qed

text \<open>Releasing a live window by its start address takes exactly its addresses out of the
  MMIO classification and leaves every other window in place, although later array entries
  move (for windows whose end does not wrap around the address space).\<close>

theorem release_removes_window:
  assumes inv: "mmio_inv mm" and nw: "\<forall>w\<in>set (live mm). mr_gpa_start w < mr_gpa_start w + mr_size w"
    and w: "w \<in> set (live mm)"
  shows "relm_vm_gpa_is_mmio_region (relm_vm_release_mmio_region (mr_gpa_start w) (Some mm)) a \<longleftrightarrow>
    relm_vm_gpa_is_mmio_region (Some mm) a \<and> \<not> in_range a (mr_gpa_start w) (mr_size w)"
proof -
  have start: "mr_gpa_start v = mr_gpa_start w \<longleftrightarrow> v = w" if "v \<in> set (live mm)" for v
    using live_unwrapped [OF inv nw w that, of "mr_gpa_start w"] nw w that
    by (force simp: in_range_def)
  have "set (drop_first (\<lambda>v. mr_gpa_start v = mr_gpa_start w) (live mm)) = set (live mm) - {w}"
    by (rule drop_first_unique [OF live_distinct [OF inv nw] w start])
  then have "relm_vm_gpa_is_mmio_region (relm_vm_release_mmio_region (mr_gpa_start w) (Some mm)) a \<longleftrightarrow>
      (\<exists>v\<in>set (live mm) - {w}. in_range a (mr_gpa_start v) (mr_size v))"
    by (simp add: relm_vm_release_mmio_region_def gpa_is_mmio_live live_release [OF inv])
  then show ?thesis
    using live_unwrapped [OF inv nw w] w unfolding gpa_is_mmio_live by blast
qed

theorem release_removes_window_witness:
  "relm_vm_gpa_is_mmio_region (relm_vm_release_mmio_region 0xD0000000 (Some mmio_two)) 0xD0001004"
  using release_removes_window [OF mmio_two_inv,
      where w = "\<lparr>mr_gpa_start = 0xD0000000, mr_size = 0x1000, mr_name = ''blk''\<rparr>" and a = "0xD0001004"]
  by (simp add: live_mmio_two gpa_is_mmio_live in_range_def)

end
