(* ===== verification/Relm_Mem_Ops.thy ===== *)
theory Relm_Mem_Ops
  imports Relm_Prelude
begin

text \<open>
  The interface between the generic VM code and a second-stage page-table back end
  (\<open>struct relm_mem_ops\<close>, include/relm/vm.h): map one page, unmap one page. The locale states the
  contract the generic code relies on, over an abstract translation: a lookup from guest
  addresses to leaf entries in which two addresses are the same page when their keys agree. What
  follows for sequences of operations is proved here once and holds for every back end that
  interprets the locale.
\<close>

datatype mem_op = MapPage u64 u64 u64 | UnmapPage u64

text \<open>Sequences of calls through a table of operations, with their return codes.\<close>

fun mem_step :: "(u64 \<Rightarrow> u64 \<Rightarrow> u64 \<Rightarrow> 's \<Rightarrow> unit res \<times> 's) \<Rightarrow> (u64 \<Rightarrow> 's \<Rightarrow> 's) \<Rightarrow> mem_op \<Rightarrow> 's \<Rightarrow> unit res \<times> 's" where
  "mem_step mp un (MapPage g p f) s = mp g p f s"
| "mem_step mp un (UnmapPage g) s = (Inr (), un g s)"

fun mem_run :: "(u64 \<Rightarrow> u64 \<Rightarrow> u64 \<Rightarrow> 's \<Rightarrow> unit res \<times> 's) \<Rightarrow> (u64 \<Rightarrow> 's \<Rightarrow> 's) \<Rightarrow> mem_op list \<Rightarrow> 's
    \<Rightarrow> unit res list \<times> 's" where
  "mem_run mp un [] s = ([], s)"
| "mem_run mp un (x # xs) s =
     (let (r, s') = mem_step mp un x s; (rs, s'') = mem_run mp un xs s' in (r # rs, s''))"

lemma mem_run_invariant:
  assumes step: "\<And>x s r s'. I s \<Longrightarrow> mem_step mp un x s = (r, s') \<Longrightarrow> I s'"
  shows "I s \<Longrightarrow> mem_run mp un xs s = (rs, s') \<Longrightarrow> I s'"
proof (induction xs arbitrary: s rs)
  case (Cons x xs)
  obtain r s1 where st: "mem_step mp un x s = (r, s1)" by force
  with Cons.prems obtain rs' where "mem_run mp un xs s1 = (rs', s')" by (auto simp: Let_def split: prod.splits)
  with Cons.IH [OF step [OF Cons.prems(1) st]] show ?case .
qed simp

text \<open>The abstract back end: a partial map from page keys to entries. A refused call does
  nothing.\<close>

fun abs_step :: "(u64 \<Rightarrow> 'k) \<Rightarrow> (u64 \<Rightarrow> u64 \<Rightarrow> u64) \<Rightarrow> mem_op \<times> unit res \<Rightarrow> ('k \<rightharpoonup> u64) \<Rightarrow> ('k \<rightharpoonup> u64)" where
  "abs_step key ent (MapPage g p f, r) t = (if r = Inr () then t(key g \<mapsto> ent p f) else t)"
| "abs_step key ent (UnmapPage g, r) t = t(key g := None)"

locale mem_ops =
  fixes map_page :: "u64 \<Rightarrow> u64 \<Rightarrow> u64 \<Rightarrow> 's \<Rightarrow> unit res \<times> 's"
    and unmap_page :: "u64 \<Rightarrow> 's \<Rightarrow> 's"
    and entry :: "'s \<Rightarrow> u64 \<Rightarrow> u64 option"
    and key :: "u64 \<Rightarrow> 'k"
    and ent :: "u64 \<Rightarrow> u64 \<Rightarrow> u64"
    and inv :: "'s \<Rightarrow> bool"
  assumes map_inv: "inv s \<Longrightarrow> map_page gpa hpa flags s = (res, s') \<Longrightarrow> inv s'"
    and map_entry: "inv s \<Longrightarrow> map_page gpa hpa flags s = (res, s') \<Longrightarrow>
      entry s' g = (if res = Inr () \<and> key g = key gpa then Some (ent hpa flags) else entry s g)"
    and unmap_inv: "inv s \<Longrightarrow> inv (unmap_page gpa s)"
    and unmap_entry: "inv s \<Longrightarrow> entry (unmap_page gpa s) g = (if key g = key gpa then None else entry s g)"
begin

definition represents :: "'s \<Rightarrow> ('k \<rightharpoonup> u64) \<Rightarrow> bool" where
  "represents s t \<longleftrightarrow> inv s \<and> (\<forall>g. entry s g = t (key g))"

lemma step_refines:
  assumes "represents s t" "mem_step map_page unmap_page x s = (r, s')"
  shows "represents s' (abs_step key ent (x, r) t)"
  using assms map_inv [of s] map_entry [of s] unmap_inv [of s] unmap_entry [of s]
  by (cases x) (auto simp: represents_def)

lemma run_refines:
  "represents s t \<Longrightarrow> mem_run map_page unmap_page xs s = (rs, s') \<Longrightarrow>
     represents s' (fold (abs_step key ent) (zip xs rs) t)"
proof (induction xs arbitrary: s t rs)
  case Nil
  then show ?case by simp
next
  case (Cons x xs)
  obtain r s1 where st: "mem_step map_page unmap_page x s = (r, s1)" by force
  with Cons.prems obtain rs' where rn: "mem_run map_page unmap_page xs s1 = (rs', s')" "rs = r # rs'"
    by (auto simp: Let_def split: prod.splits)
  from Cons.IH [OF step_refines [OF Cons.prems(1) st] rn(1)] rn(2) show ?case by simp
qed

text \<open>Unmapping a list of pages removes exactly them.\<close>

lemma unmap_list:
  "inv s \<Longrightarrow> inv (fold unmap_page gs s) \<and>
     entry (fold unmap_page gs s) g = (if key g \<in> key ` set gs then None else entry s g)"
  by (induction gs arbitrary: s) (auto simp: unmap_inv unmap_entry)

end

end
