(* ===== verification/Relm_Ept.thy ===== *)
theory Relm_Ept
  imports Relm_Host Relm_Mmio Relm_Mem_Ops
begin

text \<open>
  Extended page tables (src/arch/x86/vmx/ept.c, include/arch/x86/vmx/ept.h): the context with its
  root table and statistics, capability check, table allocation, mapping and unmapping of 4 KiB
  pages, ranges, 2 MiB pages and guest RAM, lookup, teardown, and the flag translation of the
  memory-operations table. Tables live in the byte memory of the host at their physical
  addresses (the direct map). The entry format interprets \<open>radix_format\<close> and the allocation routine
  \<open>radix_alloc\<close>; the properties (round trip, isolation, invariant, statistics) rest on
  the facts proved there.
\<close>

section \<open>Constants and data\<close>

abbreviation (input) EPT_ACCESS_READ :: u64 where "EPT_ACCESS_READ \<equiv> 0x1"
abbreviation (input) EPT_ACCESS_WRITE :: u64 where "EPT_ACCESS_WRITE \<equiv> 0x2"
abbreviation (input) EPT_ACCESS_EXEC :: u64 where "EPT_ACCESS_EXEC \<equiv> 0x4"
abbreviation (input) EPT_RWX :: u64 where "EPT_RWX \<equiv> 0x7"
abbreviation (input) EPT_MEMTYPE_UC :: u64 where "EPT_MEMTYPE_UC \<equiv> 0x0"
abbreviation (input) EPT_MEMTYPE_WB :: u64 where "EPT_MEMTYPE_WB \<equiv> 0x30"
abbreviation (input) EPT_IGNORE_PAT :: u64 where "EPT_IGNORE_PAT \<equiv> 0x40"
abbreviation (input) EPT_PAGE_SIZE :: u64 where "EPT_PAGE_SIZE \<equiv> 0x80"
abbreviation (input) EPT_ADDR_MASK :: u64 where "EPT_ADDR_MASK \<equiv> 0x000FFFFFFFFFF000"
abbreviation (input) EPT_PAGE_SIZE_4KB :: u64 where "EPT_PAGE_SIZE_4KB \<equiv> 0x1000"
abbreviation (input) EPT_PAGE_SIZE_2MB :: u64 where "EPT_PAGE_SIZE_2MB \<equiv> 0x200000"

definition EPT_PML4_INDEX :: "u64 \<Rightarrow> u64" where "EPT_PML4_INDEX gpa = drop_bit 39 gpa AND 0x1FF"
definition EPT_PDPT_INDEX :: "u64 \<Rightarrow> u64" where "EPT_PDPT_INDEX gpa = drop_bit 30 gpa AND 0x1FF"
definition EPT_PD_INDEX :: "u64 \<Rightarrow> u64" where "EPT_PD_INDEX gpa = drop_bit 21 gpa AND 0x1FF"
definition EPT_PT_INDEX :: "u64 \<Rightarrow> u64" where "EPT_PT_INDEX gpa = drop_bit 12 gpa AND 0x1FF"
definition EPT_PAGE_OFFSET :: "u64 \<Rightarrow> u64" where "EPT_PAGE_OFFSET gpa = gpa AND 0xFFF"

definition ept_is_4kb_aligned :: "u64 \<Rightarrow> bool" where "ept_is_4kb_aligned addr \<longleftrightarrow> addr AND 0xFFF = 0"
definition ept_is_2mb_aligned :: "u64 \<Rightarrow> bool" where "ept_is_2mb_aligned addr \<longleftrightarrow> addr AND 0x1FFFFF = 0"

definition CONSTRUCT_EPTP :: "u64 \<Rightarrow> u8 \<Rightarrow> bool \<Rightarrow> u64" where
  "CONSTRUCT_EPTP pml4_pa memtype enable_ad =
     (pml4_pa AND EPT_ADDR_MASK) OR 0x18 OR (if enable_ad then 0x40 else 0) OR (ucast memtype AND 0x7)"

record ept_context =
  pml4 :: "u64 option"
  pml4_pa :: u64
  eptp :: u64
  memtype :: u8
  ad_enabled :: bool
  pages_4kb :: u64
  pages_2mb :: u64
  pages_1gb :: u64
  total_mapped :: u64

text \<open>The C macro \<open>PAGE_ALIGN\<close>, wrapping at 64 bits.\<close>

definition PAGE_ALIGN :: "u64 \<Rightarrow> u64" where
  "PAGE_ALIGN n = (n + 0xFFF) AND NOT 0xFFF"

section \<open>Setup, table allocation and mapping of one page\<close>

text \<open>The capability MSR is read from the processor: \<open>cap\<close> is its value.\<close>

definition relm_ept_check_support :: "u64 \<Rightarrow> bool" where
  "relm_ept_check_support cap =
     (if cap AND 0x40 = 0 then False
      else if cap AND 0x4000 = 0 then False
      else if cap AND 0x100000 = 0 then False
      else True)"

definition relm_ept_context_create :: "host \<Rightarrow> ept_context res \<times> host" where
  "relm_ept_context_create h =
     (let (ok, h) = kzalloc h in
      if \<not> ok then (Inl ENOMEM, h)
      else case get_zeroed_page h of
        (None, h) \<Rightarrow> (Inl ENOMEM, h)
      | (Some root, h) \<Rightarrow>
          (Inr \<lparr>pml4 = Some root, pml4_pa = root, eptp = CONSTRUCT_EPTP root 6 False, memtype = 6,
                ad_enabled = False, pages_4kb = 0, pages_2mb = 0, pages_1gb = 0, total_mapped = 0\<rparr>, h))"

definition relm_setup_ept :: "u64 \<Rightarrow> host \<Rightarrow> unit res \<times> ept_context option \<times> host" where
  "relm_setup_ept cap h =
     (if \<not> relm_ept_check_support cap then (Inl ENOTSUPP, None, h)
      else case relm_ept_context_create h of
        (Inl e, h) \<Rightarrow> (Inl e, None, h)
      | (Inr ept, h) \<Rightarrow> (Inr (), Some ept, h))"

definition relm_ept_alloc_table :: "host \<Rightarrow> u64 option \<times> host" where
  "relm_ept_alloc_table h = get_zeroed_page h"

definition relm_ept_get_or_create_table :: "u64 \<Rightarrow> host \<Rightarrow> u64 option \<times> host" where
  "relm_ept_get_or_create_table entry_ptr h =
     (let entry = rd64 (pmem h) entry_ptr in
      if entry AND EPT_ACCESS_READ \<noteq> 0 then (Some (entry AND EPT_ADDR_MASK), h)
      else case relm_ept_alloc_table h of
        (None, h) \<Rightarrow> (None, h)
      | (Some table_pa, h) \<Rightarrow>
          (Some table_pa, h\<lparr>pmem := wr64 (pmem h) entry_ptr ((table_pa AND EPT_ADDR_MASK) OR EPT_RWX)\<rparr>))"

definition relm_ept_map_page ::
    "u64 \<Rightarrow> u64 \<Rightarrow> u64 \<Rightarrow> ept_context option \<Rightarrow> host \<Rightarrow> unit res \<times> ept_context option \<times> host" where
  "relm_ept_map_page gpa hpa flags ctx h =
     (case ctx of None \<Rightarrow> (Inl EINVAL, ctx, h)
      | Some ept \<Rightarrow>
        (case pml4 ept of None \<Rightarrow> (Inl EINVAL, ctx, h)
         | Some root \<Rightarrow>
          if \<not> ept_is_4kb_aligned gpa \<or> \<not> ept_is_4kb_aligned hpa then (Inl EINVAL, ctx, h)
          else if flags AND EPT_ACCESS_READ = 0 then (Inl EINVAL, ctx, h)
          else case relm_ept_get_or_create_table (slot root (EPT_PML4_INDEX gpa)) h of
            (None, h) \<Rightarrow> (Inl ENOMEM, ctx, h)
          | (Some pdpt, h) \<Rightarrow>
            (case relm_ept_get_or_create_table (slot pdpt (EPT_PDPT_INDEX gpa)) h of
              (None, h) \<Rightarrow> (Inl ENOMEM, ctx, h)
            | (Some pd, h) \<Rightarrow>
              (case relm_ept_get_or_create_table (slot pd (EPT_PD_INDEX gpa)) h of
                (None, h) \<Rightarrow> (Inl ENOMEM, ctx, h)
              | (Some pt, h) \<Rightarrow>
                (let leaf_entry = slot pt (EPT_PT_INDEX gpa);
                     ept' = (if rd64 (pmem h) leaf_entry AND EPT_ACCESS_READ \<noteq> 0 then ept
                             else ept\<lparr>pages_4kb := pages_4kb ept + 1,
                                      total_mapped := total_mapped ept + EPT_PAGE_SIZE_4KB\<rparr>)
                 in (Inr (), Some ept',
                     h\<lparr>pmem := wr64 (pmem h) leaf_entry ((hpa AND EPT_ADDR_MASK) OR flags)\<rparr>))))))"

text \<open>The walk shared in shape by unmap and lookup: the leaf slot, if every level is present.\<close>

definition relm_ept_unmap_page ::
    "u64 \<Rightarrow> ept_context option \<Rightarrow> host \<Rightarrow> unit res \<times> ept_context option \<times> host" where
  "relm_ept_unmap_page gpa ctx h =
     (case ctx of None \<Rightarrow> (Inl EINVAL, ctx, h)
      | Some ept \<Rightarrow>
        (case pml4 ept of None \<Rightarrow> (Inl EINVAL, ctx, h)
         | Some root \<Rightarrow>
          let e4 = rd64 (pmem h) (slot root (EPT_PML4_INDEX gpa)) in
          if e4 AND EPT_ACCESS_READ = 0 then (Inl ENOENT, ctx, h) else
          let e3 = rd64 (pmem h) (slot (e4 AND EPT_ADDR_MASK) (EPT_PDPT_INDEX gpa)) in
          if e3 AND EPT_ACCESS_READ = 0 then (Inl ENOENT, ctx, h) else
          let e2 = rd64 (pmem h) (slot (e3 AND EPT_ADDR_MASK) (EPT_PD_INDEX gpa)) in
          if e2 AND EPT_ACCESS_READ = 0 then (Inl ENOENT, ctx, h) else
          let leaf_entry = slot (e2 AND EPT_ADDR_MASK) (EPT_PT_INDEX gpa) in
          if rd64 (pmem h) leaf_entry AND EPT_ACCESS_READ = 0 then (Inl ENOENT, ctx, h)
          else (Inr (), Some (ept\<lparr>pages_4kb := pages_4kb ept - 1,
                                  total_mapped := total_mapped ept - EPT_PAGE_SIZE_4KB\<rparr>),
                h\<lparr>pmem := wr64 (pmem h) leaf_entry 0\<rparr>)))"

definition relm_ept_get_mapping :: "u64 \<Rightarrow> ept_context option \<Rightarrow> host \<Rightarrow> u64 res" where
  "relm_ept_get_mapping gpa ctx h =
     (case ctx of None \<Rightarrow> Inl EINVAL
      | Some ept \<Rightarrow>
        (case pml4 ept of None \<Rightarrow> Inl EINVAL
         | Some root \<Rightarrow>
          let e4 = rd64 (pmem h) (slot root (EPT_PML4_INDEX gpa)) in
          if e4 AND EPT_ACCESS_READ = 0 then Inl ENOENT else
          let e3 = rd64 (pmem h) (slot (e4 AND EPT_ADDR_MASK) (EPT_PDPT_INDEX gpa)) in
          if e3 AND EPT_ACCESS_READ = 0 then Inl ENOENT else
          let e2 = rd64 (pmem h) (slot (e3 AND EPT_ADDR_MASK) (EPT_PD_INDEX gpa)) in
          if e2 AND EPT_ACCESS_READ = 0 then Inl ENOENT else
          let leaf_entry = rd64 (pmem h) (slot (e2 AND EPT_ADDR_MASK) (EPT_PT_INDEX gpa)) in
          if leaf_entry AND EPT_ACCESS_READ = 0 then Inl ENOENT
          else Inr ((leaf_entry AND EPT_ADDR_MASK) OR EPT_PAGE_OFFSET gpa)))"

section \<open>Ranges, huge pages, guest RAM\<close>

text \<open>The page loop: \<open>k\<close> pages remain, \<open>i\<close> is the loop index.\<close>

fun ept_map_pages :: "nat \<Rightarrow> u64 \<Rightarrow> u64 \<Rightarrow> u64 \<Rightarrow> u64 \<Rightarrow> ept_context option \<Rightarrow> host
    \<Rightarrow> unit res \<times> ept_context option \<times> host" where
  "ept_map_pages 0 i gpa_start hpa_start flags ctx h = (Inr (), ctx, h)"
| "ept_map_pages (Suc k) i gpa_start hpa_start flags ctx h =
     (case relm_ept_map_page (gpa_start + i * EPT_PAGE_SIZE_4KB) (hpa_start + i * EPT_PAGE_SIZE_4KB) flags ctx h of
        (Inl e, ctx, h) \<Rightarrow> (Inl e, ctx, h)
      | (Inr _, ctx, h) \<Rightarrow> ept_map_pages k (i + 1) gpa_start hpa_start flags ctx h)"

definition relm_ept_map_range :: "u64 \<Rightarrow> u64 \<Rightarrow> u64 \<Rightarrow> u64 \<Rightarrow> ept_context option \<Rightarrow> host
    \<Rightarrow> unit res \<times> ept_context option \<times> host" where
  "relm_ept_map_range gpa_start hpa_start sz flags ctx h =
     (if ctx = None then (Inl EINVAL, ctx, h)
      else ept_map_pages (unat (PAGE_ALIGN sz div EPT_PAGE_SIZE_4KB)) 0 gpa_start hpa_start flags ctx h)"

definition relm_ept_map_huge_page ::
    "u64 \<Rightarrow> u64 \<Rightarrow> u64 \<Rightarrow> ept_context option \<Rightarrow> host \<Rightarrow> unit res \<times> ept_context option \<times> host" where
  "relm_ept_map_huge_page gpa hpa flags ctx h =
     (case ctx of None \<Rightarrow> (Inl EINVAL, ctx, h)
      | Some ept \<Rightarrow>
        (case pml4 ept of None \<Rightarrow> (Inl EINVAL, ctx, h)
         | Some root \<Rightarrow>
          if \<not> ept_is_2mb_aligned gpa \<or> \<not> ept_is_2mb_aligned hpa then (Inl EINVAL, ctx, h)
          else if flags AND EPT_ACCESS_READ = 0 then (Inl EINVAL, ctx, h)
          else case relm_ept_get_or_create_table (slot root (EPT_PML4_INDEX gpa)) h of
            (None, h) \<Rightarrow> (Inl ENOMEM, ctx, h)
          | (Some pdpt, h) \<Rightarrow>
            (case relm_ept_get_or_create_table (slot pdpt (EPT_PDPT_INDEX gpa)) h of
              (None, h) \<Rightarrow> (Inl ENOMEM, ctx, h)
            | (Some pd, h) \<Rightarrow>
              (let leaf_entry = slot pd (EPT_PD_INDEX gpa);
                   ept' = (if rd64 (pmem h) leaf_entry AND EPT_ACCESS_READ \<noteq> 0 then ept
                           else ept\<lparr>pages_2mb := pages_2mb ept + 1,
                                    total_mapped := total_mapped ept + EPT_PAGE_SIZE_2MB\<rparr>)
               in (Inr (), Some ept',
                   h\<lparr>pmem := wr64 (pmem h) leaf_entry (((hpa * EPT_ADDR_MASK) OR flags) OR EPT_PAGE_SIZE)\<rparr>)))))"

text \<open>The loop over the registry, by index through the iteration interface.\<close>

definition ept_range_overlaps_mmio :: "relm_vm_memory option \<Rightarrow> u64 \<Rightarrow> u64 \<Rightarrow> bool" where
  "ept_range_overlaps_mmio vm gpa sz =
     (case vm of None \<Rightarrow> False
      | Some mm \<Rightarrow>
         (\<exists>i\<in>set [0..<relm_vm_mmio_region_count vm].
            case relm_vm_mmio_region_at vm i (Some \<lparr>mr_gpa_start = 0, mr_size = 0, mr_name = []\<rparr>) of
              (Inr _, Some region) \<Rightarrow>
                gpa < mr_gpa_start region + mr_size region \<and> mr_gpa_start region < gpa + sz
            | _ \<Rightarrow> False))"

fun ept_map_ram_pages :: "relm_vm_memory option \<Rightarrow> nat \<Rightarrow> u64 \<Rightarrow> u64 \<Rightarrow> u64 \<Rightarrow> u64 \<Rightarrow> ept_context option \<Rightarrow> host
    \<Rightarrow> unit res \<times> ept_context option \<times> host" where
  "ept_map_ram_pages vm 0 i gpa_start hpa_start flags ctx h = (Inr (), ctx, h)"
| "ept_map_ram_pages vm (Suc k) i gpa_start hpa_start flags ctx h =
     (let gpa = gpa_start + i * EPT_PAGE_SIZE_4KB; hpa = hpa_start + i * EPT_PAGE_SIZE_4KB in
      if ept_range_overlaps_mmio vm gpa EPT_PAGE_SIZE_4KB
      then ept_map_ram_pages vm k (i + 1) gpa_start hpa_start flags ctx h
      else case relm_ept_map_page gpa hpa flags ctx h of
        (Inl e, ctx, h) \<Rightarrow> (Inl e, ctx, h)
      | (Inr _, ctx, h) \<Rightarrow> ept_map_ram_pages vm k (i + 1) gpa_start hpa_start flags ctx h)"

definition relm_ept_map_guest_ram_4kb :: "relm_vm_memory option \<Rightarrow> u64 \<Rightarrow> u64 \<Rightarrow> u64 \<Rightarrow> u64 \<Rightarrow> ept_context option \<Rightarrow> host
    \<Rightarrow> unit res \<times> ept_context option \<times> host" where
  "relm_ept_map_guest_ram_4kb vm gpa_start hpa_start sz flags ctx h =
     (if ctx = None then (Inl EINVAL, ctx, h)
      else ept_map_ram_pages vm (unat (PAGE_ALIGN sz div EPT_PAGE_SIZE_4KB)) 0 gpa_start hpa_start flags ctx h)"

lemma stride_decreases:
  fixes gpa e c :: u64
  assumes "gpa < e" "0 < c" "c \<le> e - gpa"
  shows "unat (e - (gpa + c)) < unat (e - gpa)"
proof -
  have "e - (gpa + c) = (e - gpa) - c" by simp
  moreover have "unat ((e - gpa) - c) = unat (e - gpa) - unat c" using assms(3) by (simp add: unat_sub)
  moreover have "0 < unat c" "unat c \<le> unat (e - gpa)" using assms(2,3) by (auto simp: word_less_nat_alt word_le_nat_alt)
  ultimately show ?thesis by (metis diff_less less_le_trans)
qed

lemma word_diff_positive: "(a :: u64) < b \<Longrightarrow> 0 < unat (b - a)"
  by (simp add: unat_gt_0)

lemma boundary_positive: "0 < 0x200000 - (g AND 0x1FFFFF :: u64)"
proof -
  have "g AND 0x1FFFFF \<le> (0x1FFFFF :: u64)" by (rule word_and_le1)
  then have "g AND 0x1FFFFF \<noteq> (0x200000 :: u64)" by auto
  then show ?thesis by (metis right_minus_eq word_gt_0)
qed

text \<open>The \<open>while (gpa < end)\<close> loop: a whole aligned 2 MiB stride free of MMIO is mapped as one huge
  page, anything else up to the next 2 MiB boundary by 4 KiB pages.\<close>

function ept_map_ram_strides :: "relm_vm_memory option \<Rightarrow> u64 \<Rightarrow> u64 \<Rightarrow> u64 \<Rightarrow> u64 \<Rightarrow> ept_context option \<Rightarrow> host
    \<Rightarrow> unit res \<times> ept_context option \<times> host" where
  "ept_map_ram_strides vm end gpa hpa flags ctx h =
     (if gpa < end then
        let remaining = end - gpa;
            offset_in_2mb = gpa AND (EPT_PAGE_SIZE_2MB - 1);
            aligned_2mb = (offset_in_2mb = 0 \<and> hpa AND (EPT_PAGE_SIZE_2MB - 1) = 0);
            whole_2mb_fits = (EPT_PAGE_SIZE_2MB \<le> remaining);
            to_boundary = EPT_PAGE_SIZE_2MB - offset_in_2mb;
            chunk = (if remaining < to_boundary then remaining else to_boundary)
        in if aligned_2mb \<and> whole_2mb_fits \<and> \<not> ept_range_overlaps_mmio vm gpa EPT_PAGE_SIZE_2MB
           then (case relm_ept_map_huge_page gpa hpa flags ctx h of
                   (Inl e, ctx, h) \<Rightarrow> (Inl e, ctx, h)
                 | (Inr _, ctx, h) \<Rightarrow>
                     ept_map_ram_strides vm end (gpa + EPT_PAGE_SIZE_2MB) (hpa + EPT_PAGE_SIZE_2MB) flags ctx h)
           else (case relm_ept_map_guest_ram_4kb vm gpa hpa chunk flags ctx h of
                   (Inl e, ctx, h) \<Rightarrow> (Inl e, ctx, h)
                 | (Inr _, ctx, h) \<Rightarrow> ept_map_ram_strides vm end (gpa + chunk) (hpa + chunk) flags ctx h)
      else (Inr (), ctx, h))"
  by pat_completeness auto

termination
  by (relation "measure (\<lambda>(vm, e, gpa, hpa, flags, ctx, h). unat (e - gpa))")
    (auto simp: Let_def boundary_positive word_diff_positive intro!: stride_decreases)

declare ept_map_ram_strides.simps [simp del]

definition relm_ept_map_guest_ram_huge :: "relm_vm_memory option \<Rightarrow> u64 \<Rightarrow> u64 \<Rightarrow> u64 \<Rightarrow> u64 \<Rightarrow> ept_context option \<Rightarrow> host
    \<Rightarrow> unit res \<times> ept_context option \<times> host" where
  "relm_ept_map_guest_ram_huge vm gpa_start hpa_start sz flags ctx h =
     (if ctx = None then (Inl EINVAL, ctx, h)
      else ept_map_ram_strides vm (gpa_start + PAGE_ALIGN sz) gpa_start hpa_start flags ctx h)"

section \<open>Teardown, faults and the memory-operations table\<close>

text \<open>\<open>relm_ept_free_table\<close> is called with levels 4 to 1 only; entries 0 to 511 are visited in
  order, absent and large-page entries skipped, then the table itself is freed.\<close>

fun relm_ept_free_table :: "nat \<Rightarrow> u64 \<Rightarrow> host \<Rightarrow> host" where
  "relm_ept_free_table 0 table h = h"
| "relm_ept_free_table (Suc 0) table h = free_page table h"
| "relm_ept_free_table (Suc (Suc n)) table h =
     free_page table
       (fold (\<lambda>i h. let entry = rd64 (pmem h) (slot table (word_of_nat i)) in
                if entry AND EPT_ACCESS_READ = 0 then h
                else if entry AND EPT_PAGE_SIZE \<noteq> 0 then h
                else relm_ept_free_table (Suc n) (entry AND EPT_ADDR_MASK) h) [0..<512] h)"

definition relm_ept_context_destroy :: "ept_context option \<Rightarrow> host \<Rightarrow> host" where
  "relm_ept_context_destroy ctx h =
     (case ctx of None \<Rightarrow> h
      | Some ept \<Rightarrow> (case pml4 ept of None \<Rightarrow> h | Some root \<Rightarrow> relm_ept_free_table 4 root h))"

text \<open>Both fault handlers only log and report the fault as fatal.\<close>

definition relm_handle_ept_violation :: "ept_context option option \<Rightarrow> unit res" where
  "relm_handle_ept_violation vm =
     (case vm of None \<Rightarrow> Inl ENAVAIL | Some None \<Rightarrow> Inl ENAVAIL | Some (Some ept) \<Rightarrow> Inl EFAULT)"

definition relm_vcpu_handle_ept_misconfig :: "ept_context option \<Rightarrow> unit res" where
  "relm_vcpu_handle_ept_misconfig ctx = Inl EFAULT"

abbreviation (input) RELM_MEM_F_READ :: u64 where "RELM_MEM_F_READ \<equiv> 0x1"
abbreviation (input) RELM_MEM_F_WRITE :: u64 where "RELM_MEM_F_WRITE \<equiv> 0x2"
abbreviation (input) RELM_MEM_F_EXEC :: u64 where "RELM_MEM_F_EXEC \<equiv> 0x4"
abbreviation (input) RELM_MEM_F_MMIO :: u64 where "RELM_MEM_F_MMIO \<equiv> 0x8"

definition ept_flags_of :: "u64 \<Rightarrow> u64" where
  "ept_flags_of flags =
     (let f = (if flags AND RELM_MEM_F_READ \<noteq> 0 then EPT_ACCESS_READ else 0);
          f = (if flags AND RELM_MEM_F_WRITE \<noteq> 0 then f OR EPT_ACCESS_WRITE else f);
          f = (if flags AND RELM_MEM_F_EXEC \<noteq> 0 then f OR EPT_ACCESS_EXEC else f)
      in if flags AND RELM_MEM_F_MMIO \<noteq> 0 then f OR (EPT_MEMTYPE_UC OR EPT_IGNORE_PAT)
         else f OR EPT_MEMTYPE_WB)"

definition vmx_mem_map_page ::
    "u64 \<Rightarrow> u64 \<Rightarrow> u64 \<Rightarrow> ept_context option \<Rightarrow> host \<Rightarrow> unit res \<times> ept_context option \<times> host" where
  "vmx_mem_map_page gpa hpa flags ctx h = relm_ept_map_page gpa hpa (ept_flags_of flags) ctx h"

definition vmx_mem_unmap_page :: "u64 \<Rightarrow> ept_context option \<Rightarrow> host \<Rightarrow> ept_context option \<times> host" where
  "vmx_mem_unmap_page gpa ctx h = snd (relm_ept_unmap_page gpa ctx h)"

definition vmx_mem_destroy :: "ept_context option \<Rightarrow> host \<Rightarrow> ept_context option \<times> host" where
  "vmx_mem_destroy ctx h =
     (case ctx of None \<Rightarrow> (None, h) | Some ept \<Rightarrow> (None, relm_ept_context_destroy ctx h))"

section \<open>The entry format and the allocation routine\<close>

definition ept_present :: "u64 \<Rightarrow> bool" where "ept_present e \<longleftrightarrow> e AND EPT_ACCESS_READ \<noteq> 0"
definition ept_addr :: "u64 \<Rightarrow> u64" where "ept_addr e = e AND EPT_ADDR_MASK"
definition ept_link :: "u64 \<Rightarrow> u64" where "ept_link f = (f AND EPT_ADDR_MASK) OR EPT_RWX"

definition ept_large :: "u64 \<Rightarrow> bool" where "ept_large e \<longleftrightarrow> e AND EPT_PAGE_SIZE \<noteq> 0"

lemma addr_mask_eq: "(0x000FFFFFFFFFF000 :: u64) = push_bit 12 (mask 40)"
  by (simp add: mask_eq_exp_minus_1 push_bit_eq_mult)

lemma and_1_bit: "(e AND 1 :: u64) = 0 \<longleftrightarrow> \<not> bit e 0"
  by (simp add: and_one_eq bit_0 flip: even_iff_mod_2_eq_zero)

lemma frame_ok_bit:
  assumes "frame_ok f" "bit f k"
  shows "12 \<le> k \<and> k < 52"
proof -
  have "f < 2 ^ 52" "take_bit 12 f = 0" using assms(1) by (simp_all add: frame_ok_def PAGE_ALIGNED_iff)
  then have "take_bit 52 f = f" by (simp add: take_bit_eq_self_unat word_less_nat_alt)
  then have "k < 52" using assms(2) by (metis bit_take_bit_iff)
  moreover have "\<not> k < 12" using \<open>take_bit 12 f = 0\<close> assms(2) by (metis bit_0_eq bit_take_bit_iff bot_apply bot_bool_def)
  ultimately show ?thesis by simp
qed

lemma frame_ok_mask: "frame_ok f \<Longrightarrow> f AND 0x000FFFFFFFFFF000 = f"
  unfolding addr_mask_eq by (rule bit_word_eqI) (auto simp: bit_simps dest: frame_ok_bit)

lemma masked_or_flags:
  assumes "fl AND 0x000FFFFFFFFFF000 = 0"
  shows "((x AND 0x000FFFFFFFFFF000) OR fl) AND 0x000FFFFFFFFFF000 = x AND (0x000FFFFFFFFFF000 :: u64)"
  using assms by (simp add: bit.conj_disj_distrib2 and.assoc)

lemma get_or_create_simps:
  "ept_present (rd64 (pmem h) a) \<Longrightarrow> relm_ept_get_or_create_table a h = (Some (ept_addr (rd64 (pmem h) a)), h)"
  "\<not> ept_present (rd64 (pmem h) a) \<Longrightarrow> pool h = [] \<Longrightarrow> relm_ept_get_or_create_table a h = (None, h)"
  "\<not> ept_present (rd64 (pmem h) a) \<Longrightarrow> pool h = f # fs \<Longrightarrow> relm_ept_get_or_create_table a h =
     (Some f, h\<lparr>pool := fs, pmem := wr64 (zero_page (pmem h) f) a (ept_link f)\<rparr>)"
  by (simp_all add: relm_ept_get_or_create_table_def relm_ept_alloc_table_def ept_present_def ept_addr_def ept_link_def)

interpretation ept_fmt: radix_alloc ept_present ept_addr ept_link ept_large relm_ept_get_or_create_table
proof unfold_locales
  show "\<not> ept_present 0" by (simp add: ept_present_def)
next
  fix f assume f: "frame_ok f"
  show "ept_present (ept_link f)" by (simp add: ept_present_def ept_link_def and_1_bit bit_simps)
  show "ept_addr (ept_link f) = f"
    using masked_or_flags [of 7 f] by (simp add: ept_addr_def ept_link_def frame_ok_mask f)
  show "\<not> ept_large (ept_link f)"
    by (simp add: ept_large_def ept_link_def bit.conj_disj_distrib2 and.assoc)
qed (simp_all add: get_or_create_simps)

section \<open>The translation and its invariant\<close>

definition ept_path :: "u64 \<Rightarrow> u64 list" where
  "ept_path gpa = [EPT_PML4_INDEX gpa, EPT_PDPT_INDEX gpa, EPT_PD_INDEX gpa, EPT_PT_INDEX gpa]"

abbreviation ept_leaf :: "mem \<Rightarrow> u64 \<Rightarrow> u64 list \<Rightarrow> u64 option" where
  "ept_leaf \<equiv> leaf ept_present ept_addr"

text \<open>The leaf entry that translates \<open>gpa\<close>.\<close>

definition ept_entry :: "ept_context \<Rightarrow> host \<Rightarrow> u64 \<Rightarrow> u64 option" where
  "ept_entry ept h gpa =
     (case pml4 ept of None \<Rightarrow> None | Some r \<Rightarrow> ept_leaf (pmem h) r (ept_path gpa))"

definition ept_mapped :: "mem \<Rightarrow> u64 \<Rightarrow> u64 list set" where
  "ept_mapped m r = {q. path_ok q \<and> length q = 4 \<and> ept_leaf m r q \<noteq> None}"

text \<open>The invariant of a context without huge pages: the tables are a tree of frames outside the free
  pool, the EPT pointer names the root, and the statistics count the mapped pages.\<close>

definition ept_ok :: "ept_context \<Rightarrow> host \<Rightarrow> bool" where
  "ept_ok ept h \<longleftrightarrow> (\<exists>r. pml4 ept = Some r \<and> pml4_pa ept = r \<and>
     eptp ept = CONSTRUCT_EPTP r (memtype ept) (ad_enabled ept) \<and>
     tree_ok ept_present ept_addr ept_large 4 r h \<and>
     pages_4kb ept = word_of_nat (card (ept_mapped (pmem h) r)) \<and>
     pages_2mb ept = 0 \<and> total_mapped ept = EPT_PAGE_SIZE_4KB * pages_4kb ept)"

lemma ept_ok_iff:
  assumes "pml4 ept = Some r"
  shows "ept_ok ept h \<longleftrightarrow> pml4_pa ept = r \<and>
     eptp ept = CONSTRUCT_EPTP r (memtype ept) (ad_enabled ept) \<and>
     tree_ok ept_present ept_addr ept_large 4 r h \<and>
     pages_4kb ept = word_of_nat (card (ept_mapped (pmem h) r)) \<and>
     pages_2mb ept = 0 \<and> total_mapped ept = EPT_PAGE_SIZE_4KB * pages_4kb ept"
  using assms by (simp add: ept_ok_def)

lemma unat_and_1FF: "unat (x AND 0x1FF :: u64) < 512"
proof -
  have "x AND 0x1FF \<le> (0x1FF :: u64)" by (rule word_and_le1)
  then show ?thesis by (simp add: word_le_nat_alt)
qed

lemma ept_path_ok [simp]: "path_ok (ept_path gpa)" "length (ept_path gpa) = 4"
  by (simp_all add: ept_path_def EPT_PML4_INDEX_def EPT_PDPT_INDEX_def EPT_PD_INDEX_def EPT_PT_INDEX_def unat_and_1FF)

lemma ept_index_less [simp]:
  "unat (EPT_PML4_INDEX gpa) < 512" "unat (EPT_PDPT_INDEX gpa) < 512"
  "unat (EPT_PD_INDEX gpa) < 512" "unat (EPT_PT_INDEX gpa) < 512"
  by (simp_all add: EPT_PML4_INDEX_def EPT_PDPT_INDEX_def EPT_PD_INDEX_def EPT_PT_INDEX_def unat_and_1FF)

text \<open>Two addresses share a leaf exactly when bits 12 to 47 agree.\<close>

lemma take_bit_split:
  "take_bit (a + b) x = take_bit (a + b) y \<longleftrightarrow>
     take_bit a x = take_bit a y \<and> take_bit b (drop_bit a x) = take_bit b (drop_bit a (y :: u64))"
proof
  assume e: "take_bit (a + b) x = take_bit (a + b) y"
  have "take_bit a x = take_bit a y" using e by (metis le_add1 min_absorb1 take_bit_take_bit)
  moreover have "take_bit b (drop_bit a x) = take_bit b (drop_bit a y)"
    using e by (metis add_diff_cancel_left' drop_bit_take_bit)
  ultimately show "take_bit a x = take_bit a y \<and> take_bit b (drop_bit a x) = take_bit b (drop_bit a y)" ..
next
  assume e: "take_bit a x = take_bit a y \<and> take_bit b (drop_bit a x) = take_bit b (drop_bit a y)"
  show "take_bit (a + b) x = take_bit (a + b) y"
  proof (rule bit_word_eqI)
    fix k assume "k < LENGTH(64)"
    show "bit (take_bit (a + b) x) k \<longleftrightarrow> bit (take_bit (a + b) y) k"
    proof (cases "k < a")
      case True
      have "bit (take_bit a x) k \<longleftrightarrow> bit (take_bit a y) k" using e by simp
      with True show ?thesis by (simp add: bit_take_bit_iff)
    next
      case False
      have "bit (take_bit b (drop_bit a x)) (k - a) \<longleftrightarrow> bit (take_bit b (drop_bit a y)) (k - a)" using e by simp
      with False show ?thesis by (auto simp: bit_take_bit_iff bit_drop_bit_eq)
    qed
  qed
qed

lemma ept_path_eq_iff:
  "ept_path g = ept_path g' \<longleftrightarrow> take_bit 36 (drop_bit 12 g) = take_bit 36 (drop_bit 12 g')"
  using take_bit_split [of 9 27 "drop_bit 12 g" "drop_bit 12 g'"]
    take_bit_split [of 9 18 "drop_bit 21 g" "drop_bit 21 g'"]
    take_bit_split [of 9 9 "drop_bit 30 g" "drop_bit 30 g'"]
  by (auto simp: ept_path_def EPT_PML4_INDEX_def EPT_PDPT_INDEX_def EPT_PD_INDEX_def EPT_PT_INDEX_def and_masks)

lemma ept_entry_Some: "pml4 ept = Some r \<Longrightarrow> ept_entry ept h g = ept_leaf (pmem h) r (ept_path g)"
  by (simp add: ept_entry_def)

text \<open>The code's two walks are the leaf of the translation.\<close>

lemma ept_leaf_path:
  "ept_leaf m r (ept_path gpa) =
    (let e4 = rd64 m (slot r (EPT_PML4_INDEX gpa));
         e3 = rd64 m (slot (ept_addr e4) (EPT_PDPT_INDEX gpa));
         e2 = rd64 m (slot (ept_addr e3) (EPT_PD_INDEX gpa));
         e1 = rd64 m (slot (ept_addr e2) (EPT_PT_INDEX gpa))
     in if ept_present e4 \<and> ept_present e3 \<and> ept_present e2 \<and> ept_present e1 then Some e1 else None)"
  by (simp add: leaf_def ept_path_def entry_of_def Let_def)

lemma get_mapping_entry:
  assumes "pml4 ept = Some r"
  shows "relm_ept_get_mapping gpa (Some ept) h =
    (case ept_entry ept h gpa of None \<Rightarrow> Inl ENOENT
     | Some e \<Rightarrow> Inr (ept_addr e OR EPT_PAGE_OFFSET gpa))"
  using assms
  by (simp add: relm_ept_get_mapping_def ept_entry_Some ept_leaf_path Let_def ept_present_def ept_addr_def)

section \<open>Mapping and unmapping one page\<close>

abbreviation ept_tree :: "u64 \<Rightarrow> host \<Rightarrow> bool" where "ept_tree \<equiv> tree_ok ept_present ept_addr ept_large 4"
abbreviation ept_tables :: "mem \<Rightarrow> u64 \<Rightarrow> u64 set" where "ept_tables \<equiv> tables ept_present ept_addr 4"
abbreviation ept_grows :: "u64 \<Rightarrow> host \<Rightarrow> host \<Rightarrow> bool" where "ept_grows \<equiv> grows ept_present ept_addr ept_large 4"

lemma finite_ept_mapped [simp]: "finite (ept_mapped m r)"
proof (rule finite_subset)
  show "ept_mapped m r \<subseteq> {q. set q \<subseteq> (UNIV :: u64 set) \<and> length q = 4}" by (auto simp: ept_mapped_def)
  show "finite {q. set q \<subseteq> (UNIV :: u64 set) \<and> length q = 4}" by (rule finite_lists_length_eq) simp
qed

lemma ept_mapped_bound: "card (ept_mapped m r) < 2 ^ 64"
proof -
  let ?I = "word_of_nat ` {..<512} :: u64 set"
  have "ept_mapped m r \<subseteq> {q. set q \<subseteq> ?I \<and> length q = 4}"
  proof (clarsimp simp: ept_mapped_def path_ok_def)
    fix q :: "u64 list" and x assume "\<forall>i\<in>set q. unat i < 512" "x \<in> set q"
    then have "x = word_of_nat (unat x)" "unat x < 512" by auto
    then show "x \<in> ?I" by (metis imageI lessThan_iff)
  qed
  then have "card (ept_mapped m r) \<le> card {q. set q \<subseteq> ?I \<and> length q = 4}"
    by (intro card_mono finite_lists_length_eq) auto
  also have "\<dots> = card ?I ^ 4" by (rule card_lists_length_eq) simp
  also have "\<dots> \<le> 512 ^ 4" using card_image_le [of "{..<512::nat}" "word_of_nat :: nat \<Rightarrow> u64"] by (intro power_mono) auto
  also have "\<dots> < (2::nat) ^ 64" by simp
  finally show ?thesis .
qed

lemma ept_mapped_grows: "ept_grows r h h' \<Longrightarrow> ept_mapped (pmem h') r = ept_mapped (pmem h) r"
  by (auto simp: ept_mapped_def grows_def)

lemma ept_ok_grows: "ept_ok ept h \<Longrightarrow> pml4 ept = Some r \<Longrightarrow> ept_grows r h h' \<Longrightarrow> ept_ok ept h'"
  using ept_mapped_grows [of r h h'] by (auto simp: ept_ok_def dest: grows_tree_ok)

lemma ept_entry_grows:
  "pml4 ept = Some r \<Longrightarrow> ept_grows r h h' \<Longrightarrow> ept_entry ept h' g = ept_entry ept h g"
  by (simp add: ept_entry_Some grows_def)

text \<open>The three table steps of a mapping: either the allocator is exhausted, or the last-level
  table is reached in a state that only grew the tree.\<close>

lemma ept_table_chain:
  assumes ok: "ept_tree r h"
    and g1: "relm_ept_get_or_create_table (slot r (EPT_PML4_INDEX gpa)) h = (Some pdpt, h1)"
    and g2: "relm_ept_get_or_create_table (slot pdpt (EPT_PDPT_INDEX gpa)) h1 = (Some pd, h2)"
  shows "ept_grows r h h1" "ept_grows r h h2"
    "walk ept_present ept_addr (pmem h1) r [EPT_PML4_INDEX gpa] = Some pdpt"
    "walk ept_present ept_addr (pmem h2) r [EPT_PML4_INDEX gpa, EPT_PDPT_INDEX gpa] = Some pd"
proof -
  show s1: "ept_grows r h h1" and w1: "walk ept_present ept_addr (pmem h1) r [EPT_PML4_INDEX gpa] = Some pdpt"
    using ept_fmt.goc_step [OF ok _ _ _ _ g1, of "[]"] by auto
  from ept_fmt.goc_step [OF grows_tree_ok [OF s1] _ _ w1 _ g2]
  have s2: "ept_grows r h1 h2" and
    w2: "walk ept_present ept_addr (pmem h2) r [EPT_PML4_INDEX gpa, EPT_PDPT_INDEX gpa] = Some pd" by auto
  from s1 s2 show "ept_grows r h h2" by (rule grows_trans)
  from w2 show "walk ept_present ept_addr (pmem h2) r [EPT_PML4_INDEX gpa, EPT_PDPT_INDEX gpa] = Some pd" .
qed

text \<open>The outcome of a mapping call with a live context.\<close>

lemma ept_map_page_cases:
  assumes ok: "ept_tree r h" and r: "pml4 ept = Some r"
    and m: "relm_ept_map_page gpa hpa flags (Some ept) h = (res, ctx', h')"
  obtains (inval) "res = Inl EINVAL" "ctx' = Some ept" "h' = h"
      "\<not> PAGE_ALIGNED gpa \<or> \<not> PAGE_ALIGNED hpa \<or> flags AND EPT_ACCESS_READ = 0"
  | (nomem) "res = Inl ENOMEM" "ctx' = Some ept" "ept_grows r h h'" "pool h' = []"
  | (mapped) hh pt ept' where "res = Inr ()" "ctx' = Some ept'" "ept_grows r h hh"
      "PAGE_ALIGNED gpa" "PAGE_ALIGNED hpa" "flags AND EPT_ACCESS_READ \<noteq> 0"
      "walk ept_present ept_addr (pmem hh) r [EPT_PML4_INDEX gpa, EPT_PDPT_INDEX gpa, EPT_PD_INDEX gpa] = Some pt"
      "h' = hh\<lparr>pmem := wr64 (pmem hh) (slot pt (EPT_PT_INDEX gpa)) ((hpa AND EPT_ADDR_MASK) OR flags)\<rparr>"
      "ept' = (if ept_entry ept h gpa \<noteq> None then ept
               else ept\<lparr>pages_4kb := pages_4kb ept + 1, total_mapped := total_mapped ept + EPT_PAGE_SIZE_4KB\<rparr>)"
proof (cases "\<not> PAGE_ALIGNED gpa \<or> \<not> PAGE_ALIGNED hpa \<or> flags AND EPT_ACCESS_READ = 0")
  case True
  have "relm_ept_map_page gpa hpa flags (Some ept) h = (Inl EINVAL, Some ept, h)"
    using True r by (auto simp: relm_ept_map_page_def ept_is_4kb_aligned_def PAGE_ALIGNED_def)
  with m True show ?thesis by (intro inval) auto
next
  case args: False
  obtain o1 h1 where g1: "relm_ept_get_or_create_table (slot r (EPT_PML4_INDEX gpa)) h = (o1, h1)" by force
  note m' = m [unfolded relm_ept_map_page_def ept_is_4kb_aligned_def]
  show ?thesis
  proof (cases o1)
    case None
    then have "h1 = h" "pool h = []" using ept_fmt.goc_step [OF ok _ _ _ _ g1, of "[]"] by auto
    with None m' r g1 args ok show ?thesis
      by (intro nomem) (auto simp: PAGE_ALIGNED_def intro: grows_refl)
  next
    case (Some pdpt)
    note g1 = g1 [unfolded Some]
    from ept_fmt.goc_step [OF ok _ _ _ _ g1, of "[]"]
    have s1: "ept_grows r h h1" and w1: "walk ept_present ept_addr (pmem h1) r [EPT_PML4_INDEX gpa] = Some pdpt"
      by auto
    obtain o2 h2 where g2: "relm_ept_get_or_create_table (slot pdpt (EPT_PDPT_INDEX gpa)) h1 = (o2, h2)" by force
    show ?thesis
    proof (cases o2)
      case None
      then have "h2 = h1" "pool h1 = []" using ept_fmt.goc_step [OF grows_tree_ok [OF s1] _ _ w1 _ g2] by auto
      with None m' r g1 g2 args s1 show ?thesis by (intro nomem) (auto simp: PAGE_ALIGNED_def)
    next
      case (Some pd)
      note g2 = g2 [unfolded Some]
      note ch = ept_table_chain [OF ok g1 g2]
      obtain o3 h3 where g3: "relm_ept_get_or_create_table (slot pd (EPT_PD_INDEX gpa)) h2 = (o3, h3)" by force
      show ?thesis
      proof (cases o3)
        case None
        then have "h3 = h2" "pool h2 = []"
          using ept_fmt.goc_step [OF grows_tree_ok [OF ch(2)] _ _ ch(4) _ g3] by auto
        with None m' r g1 g2 g3 args ch(2) show ?thesis by (intro nomem) (auto simp: PAGE_ALIGNED_def)
      next
        case (Some pt)
        note g3 = g3 [unfolded Some]
        from ept_fmt.goc_step [OF grows_tree_ok [OF ch(2)] _ _ ch(4) _ g3]
        have s3: "ept_grows r h2 h3" and
          w3: "walk ept_present ept_addr (pmem h3) r [EPT_PML4_INDEX gpa, EPT_PDPT_INDEX gpa, EPT_PD_INDEX gpa] = Some pt"
          by auto
        have s: "ept_grows r h h3" using ch(2) s3 by (rule grows_trans)
        have "ept_leaf (pmem h3) r (ept_path gpa) = entry_of ept_present (pmem h3) pt (EPT_PT_INDEX gpa)"
          using w3 by (simp add: leaf_def ept_path_def)
        then have e: "ept_entry ept h gpa = entry_of ept_present (pmem h3) pt (EPT_PT_INDEX gpa)"
          using ept_entry_grows [OF r s] r by (simp add: ept_entry_Some)
        show ?thesis
        proof (rule mapped)
          show "res = Inr ()" using m' args r g1 g2 g3 by (simp add: PAGE_ALIGNED_def Let_def)
          show "ctx' = Some (if ept_entry ept h gpa \<noteq> None then ept
               else ept\<lparr>pages_4kb := pages_4kb ept + 1, total_mapped := total_mapped ept + EPT_PAGE_SIZE_4KB\<rparr>)"
            using m' args r g1 g2 g3 by (auto simp: PAGE_ALIGNED_def Let_def e entry_of_def ept_present_def)
          show "h' = h3\<lparr>pmem := wr64 (pmem h3) (slot pt (EPT_PT_INDEX gpa)) ((hpa AND EPT_ADDR_MASK) OR flags)\<rparr>"
            using m' args r g1 g2 g3 by (auto simp: PAGE_ALIGNED_def Let_def)
        qed (use args s w3 in auto)
      qed
    qed
  qed
qed

lemma ept_path_snoc: "ept_path gpa = [EPT_PML4_INDEX gpa, EPT_PDPT_INDEX gpa, EPT_PD_INDEX gpa] @ [EPT_PT_INDEX gpa]"
  by (simp add: ept_path_def)

lemma ept_path_prefix_ok: "path_ok [EPT_PML4_INDEX gpa, EPT_PDPT_INDEX gpa, EPT_PD_INDEX gpa]"
  by simp

lemma flags_present: "fl AND 1 \<noteq> 0 \<Longrightarrow> ept_present (x OR fl)"
  by (simp add: ept_present_def and_1_bit bit_or_iff)

text \<open>Writing the leaf slot of \<open>gpa\<close>: what changes, and what is kept.\<close>

lemma ept_leaf_update:
  assumes ok: "ept_tree r h"
    and w: "walk ept_present ept_addr (pmem h) r [EPT_PML4_INDEX gpa, EPT_PDPT_INDEX gpa, EPT_PD_INDEX gpa] = Some pt"
    and h': "h' = h\<lparr>pmem := wr64 (pmem h) (slot pt (EPT_PT_INDEX gpa)) v\<rparr>"
  shows "ept_tree r h'" "ept_tables (pmem h') r = ept_tables (pmem h) r"
    "path_ok q \<Longrightarrow> length q = 4 \<Longrightarrow> ept_leaf (pmem h') r q =
      (if q = ept_path gpa then if ept_present v then Some v else None else ept_leaf (pmem h) r q)"
    "page_base x \<notin> ept_tables (pmem h) r \<Longrightarrow> pmem h' x = pmem h x"
proof -
  note p = ept_path_prefix_ok [of gpa]
  show "ept_tree r h'" unfolding h' by (rule tree_ok_leaf_write [OF ok p _ w]) simp_all
  show "ept_tables (pmem h') r = ept_tables (pmem h) r"
    using tables_leaf_write [OF ok p _ w, of "EPT_PT_INDEX gpa" v] by (simp add: h')
  show "ept_leaf (pmem h') r q =
      (if q = ept_path gpa then if ept_present v then Some v else None else ept_leaf (pmem h) r q)"
    if "path_ok q" "length q = 4"
    using leaf_write [OF _ p _ w, of 4 "set (pool h)" "EPT_PT_INDEX gpa" q v] ok that
    by (simp add: h' tree_ok_def ept_path_snoc)
  have t: "frame_ok pt" "pt \<in> ept_tables (pmem h) r"
    using w ok radix_wf_frame [OF _ p _ w, of 4 "set (pool h)"]
      tablesI [OF p _ w, of 4] by (auto simp: tree_ok_def)
  show "pmem h' x = pmem h x" if "page_base x \<notin> ept_tables (pmem h) r"
  proof -
    have "page_base x \<noteq> page_base (slot pt (EPT_PT_INDEX gpa))" using that t by (auto simp: frame_simps)
    then show ?thesis using t by (simp add: h' wr64_outside frame_simps)
  qed
qed

text \<open>What a mapping call does to the translation and the context.\<close>

definition ept_new_entry :: "u64 \<Rightarrow> u64 \<Rightarrow> u64" where
  "ept_new_entry hpa flags = (hpa AND EPT_ADDR_MASK) OR flags"

lemma ept_mapped_insert:
  assumes "\<And>q. path_ok q \<Longrightarrow> length q = 4 \<Longrightarrow> ept_leaf m' r q = (if q = ept_path gpa then Some v else ept_leaf m r q)"
  shows "ept_mapped m' r = insert (ept_path gpa) (ept_mapped m r)"
  using assms by (auto simp: ept_mapped_def)

lemma ept_map_page_spec:
  assumes ok: "ept_ok ept h" and m: "relm_ept_map_page gpa hpa flags (Some ept) h = (res, ctx', h')"
  shows "\<exists>ept' r. ctx' = Some ept' \<and> pml4 ept = Some r \<and> pml4 ept' = Some r \<and> ept_ok ept' h' \<and>
    (\<forall>g. ept_entry ept' h' g =
       (if res = Inr () \<and> ept_path g = ept_path gpa then Some (ept_new_entry hpa flags) else ept_entry ept h g)) \<and>
    tree_frames ept_present ept_addr 4 r h' = tree_frames ept_present ept_addr 4 r h \<and>
    ept_tables (pmem h) r \<subseteq> ept_tables (pmem h') r \<and>
    (\<forall>x. page_base x \<notin> ept_tables (pmem h') r \<longrightarrow> pmem h' x = pmem h x) \<and> kmem h' = kmem h"
proof -
  from ok obtain r where r: "pml4 ept = Some r" and tr: "ept_tree r h" by (auto simp: ept_ok_def)
  from tr r m show ?thesis
  proof (cases rule: ept_map_page_cases)
    case inval
    with ok r show ?thesis by auto
  next
    case nomem
    with ok r ept_ok_grows [OF ok r] ept_entry_grows [OF r] show ?thesis by (auto simp: grows_def)
  next
    case (mapped hh pt ept')
    note up = ept_leaf_update [OF grows_tree_ok [OF mapped(3)] mapped(7) mapped(8)]
    have pr: "ept_present (ept_new_entry hpa flags)"
      using mapped(6) by (simp add: ept_new_entry_def flags_present)
    note lf = up(3) [folded ept_new_entry_def, simplified pr if_True]
    have r': "pml4 ept' = Some r" using mapped(9) r by simp
    have ins: "ept_mapped (pmem h') r = insert (ept_path gpa) (ept_mapped (pmem h) r)"
      using ept_mapped_insert [OF lf] ept_mapped_grows [OF mapped(3)] by simp
    have old: "ept_entry ept h gpa \<noteq> None \<longleftrightarrow> ept_path gpa \<in> ept_mapped (pmem h) r"
      using r by (simp add: ept_entry_Some ept_mapped_def)
    have "ept_ok ept' h'"
      using ok up(1) unfolding ept_ok_iff [OF r] ept_ok_iff [OF r'] ins
      by (cases "ept_entry ept h gpa = None")
        (use old in \<open>auto simp: mapped(9) insert_absorb algebra_simps\<close>)
    moreover have "ept_entry ept' h' g =
       (if ept_path g = ept_path gpa then Some (ept_new_entry hpa flags) else ept_entry ept h g)" for g
      using lf [of "ept_path g"] ept_entry_grows [OF r mapped(3), of g] r r' by (simp add: ept_entry_Some)
    moreover have "tree_frames ept_present ept_addr 4 r h' = tree_frames ept_present ept_addr 4 r h"
      using mapped(3) up(2) mapped(8) by (simp add: grows_def tree_frames_def)
    moreover have "\<forall>x. page_base x \<notin> ept_tables (pmem h') r \<longrightarrow> pmem h' x = pmem h x"
      using mapped(3) up(2,4) by (simp add: grows_def)
    moreover have "ept_tables (pmem h) r \<subseteq> ept_tables (pmem h') r" using mapped(3) up(2) by (simp add: grows_def)
    moreover have "kmem h' = kmem h" using mapped(3,8) by (simp add: grows_def)
    ultimately show ?thesis using mapped(1,2) r r' by (intro exI [of _ ept'] exI [of _ r] conjI) auto
  qed
qed

lemma ept_mapped_remove:
  assumes "\<And>q. path_ok q \<Longrightarrow> length q = 4 \<Longrightarrow> ept_leaf m' r q = (if q = ept_path gpa then None else ept_leaf m r q)"
  shows "ept_mapped m' r = ept_mapped m r - {ept_path gpa}"
  using assms by (auto simp: ept_mapped_def split: if_splits)

lemma ept_unmap_page_spec:
  assumes ok: "ept_ok ept h" and m: "relm_ept_unmap_page gpa (Some ept) h = (res, ctx', h')"
  shows "\<exists>ept' r. ctx' = Some ept' \<and> pml4 ept = Some r \<and> pml4 ept' = Some r \<and> ept_ok ept' h' \<and>
    res = (if ept_entry ept h gpa = None then Inl ENOENT else Inr ()) \<and>
    (\<forall>g. ept_entry ept' h' g = (if ept_path g = ept_path gpa then None else ept_entry ept h g)) \<and>
    ept_tables (pmem h') r = ept_tables (pmem h) r \<and> pool h' = pool h \<and>
    (\<forall>x. page_base x \<notin> ept_tables (pmem h) r \<longrightarrow> pmem h' x = pmem h x)"
proof -
  from ok obtain r where r: "pml4 ept = Some r" and tr: "ept_tree r h" by (auto simp: ept_ok_def)
  show ?thesis
  proof (cases "ept_entry ept h gpa")
    case None
    then have "res = Inl ENOENT" "ctx' = Some ept" "h' = h"
      using m r
      by (auto simp: relm_ept_unmap_page_def ept_entry_Some ept_leaf_path Let_def ept_present_def ept_addr_def
          split: if_splits)
    with None ok r show ?thesis by (auto simp: ept_entry_Some)
  next
    case (Some e)
    then obtain pt where w: "walk ept_present ept_addr (pmem h) r
        [EPT_PML4_INDEX gpa, EPT_PDPT_INDEX gpa, EPT_PD_INDEX gpa] = Some pt"
      using r by (auto simp: ept_entry_Some ept_path_snoc leaf_def split: option.splits)
    from Some have mm: "res = Inr ()" "ctx' = Some (ept\<lparr>pages_4kb := pages_4kb ept - 1,
          total_mapped := total_mapped ept - EPT_PAGE_SIZE_4KB\<rparr>)"
        "h' = h\<lparr>pmem := wr64 (pmem h) (slot pt (EPT_PT_INDEX gpa)) 0\<rparr>"
      using m r w
      by (auto simp: relm_ept_unmap_page_def ept_entry_Some ept_leaf_path Let_def ept_present_def ept_addr_def
          split: if_splits)
    note up = ept_leaf_update [OF tr w mm(3)]
    have lf: "ept_leaf (pmem h') r q = (if q = ept_path gpa then None else ept_leaf (pmem h) r q)"
      if "path_ok q" "length q = 4" for q
      using up(3) that by (simp add: ept_present_def)
    note rm = ept_mapped_remove [OF lf]
    have mem: "ept_path gpa \<in> ept_mapped (pmem h) r" using Some r by (simp add: ept_entry_Some ept_mapped_def)
    have "(word_of_nat (card (ept_mapped (pmem h) r - {ept_path gpa})) :: u64) = word_of_nat (card (ept_mapped (pmem h) r)) - 1"
      using mem by (subst card.remove [OF finite_ept_mapped mem]) simp
    then have "ept_ok (ept\<lparr>pages_4kb := pages_4kb ept - 1, total_mapped := total_mapped ept - EPT_PAGE_SIZE_4KB\<rparr>) h'"
      using ok r up(1) rm by (auto simp: ept_ok_def algebra_simps)
    moreover have "ept_entry (ept\<lparr>pages_4kb := pages_4kb ept - 1, total_mapped := total_mapped ept - EPT_PAGE_SIZE_4KB\<rparr>) h' g =
        (if ept_path g = ept_path gpa then None else ept_entry ept h g)" for g
      using lf [of "ept_path g"] r by (simp add: ept_entry_def)
    ultimately show ?thesis using mm up(2,4) r Some by (intro exI conjI) auto
  qed
qed

section \<open>Teardown\<close>

lemma ept_free_table_frames:
  "relm_ept_free_table n t h =
     h\<lparr>pool := pool h @ radix_frames (\<lambda>e. ept_present e \<and> \<not> ept_large e) ept_addr n (pmem h) t\<rparr>"
proof (induction n arbitrary: t h)
  case (Suc k)
  show ?case
  proof (cases k)
    case 0
    then show ?thesis by (simp add: free_page_def del: radix_frames.simps)
  next
    case k: (Suc n)
    let ?P = "\<lambda>e. ept_present e \<and> \<not> ept_large e"
    let ?f = "\<lambda>i. case entry_of ?P (pmem h) t (word_of_nat i) of None \<Rightarrow> []
       | Some e \<Rightarrow> radix_frames ?P ept_addr (Suc n) (pmem h) (ept_addr e)"
    let ?g = "\<lambda>i h. let entry = rd64 (pmem h) (slot t (word_of_nat i)) in
        if entry AND EPT_ACCESS_READ = 0 then h else if entry AND EPT_PAGE_SIZE \<noteq> 0 then h
        else relm_ept_free_table (Suc n) (entry AND EPT_ADDR_MASK) h"
    have "fold ?g [0..<512] h = h\<lparr>pool := pool h @ concat (map ?f [0..<512])\<rparr>"
    proof (rule fold_append_pool)
      fix i :: nat and h1 :: host assume m: "pmem h1 = pmem h"
      have "?g i h1 = (if ?P (rd64 (pmem h) (slot t (word_of_nat i)))
          then relm_ept_free_table (Suc n) (ept_addr (rd64 (pmem h) (slot t (word_of_nat i)))) h1 else h1)"
        by (simp add: Let_def ept_present_def ept_large_def ept_addr_def m)
      then show "?g i h1 = h1\<lparr>pool := pool h1 @ ?f i\<rparr>"
        unfolding Suc.IH [unfolded k] m by (auto simp: entry_of_def Let_def)
    qed simp
    then show ?thesis
      unfolding k relm_ept_free_table.simps radix_frames.simps(2) [of _ _ "Suc n"] by (simp add: free_page_def)
  qed
qed simp

lemma ept_destroy_spec:
  assumes "ept_ok ept h" "pml4 ept = Some r"
  shows "host_ok (relm_ept_context_destroy (Some ept) h)"
    "set (pool (relm_ept_context_destroy (Some ept) h)) = ept_tables (pmem h) r \<union> set (pool h)"
    "pmem (relm_ept_context_destroy (Some ept) h) = pmem h"
proof -
  have t: "ept_tree r h" using assms by (simp add: ept_ok_iff)
  note d = teardown_ok [OF t refl]
  have e: "relm_ept_context_destroy (Some ept) h = relm_ept_free_table 4 r h"
    using assms(2) by (simp add: relm_ept_context_destroy_def)
  show "host_ok (relm_ept_context_destroy (Some ept) h)" using d(1) unfolding e ept_free_table_frames .
  show "set (pool (relm_ept_context_destroy (Some ept) h)) = ept_tables (pmem h) r \<union> set (pool h)"
    using d(2) unfolding e ept_free_table_frames tree_frames_def .
  show "pmem (relm_ept_context_destroy (Some ept) h) = pmem h" unfolding e ept_free_table_frames by simp
qed

section \<open>The memory-operations contract\<close>

definition ept_state_ok :: "ept_context option \<times> host \<Rightarrow> bool" where
  "ept_state_ok s = (case s of (None, h) \<Rightarrow> False | (Some ept, h) \<Rightarrow> ept_ok ept h)"

definition ept_state_entry :: "ept_context option \<times> host \<Rightarrow> u64 \<Rightarrow> u64 option" where
  "ept_state_entry s g = (case s of (None, h) \<Rightarrow> None | (Some ept, h) \<Rightarrow> ept_entry ept h g)"

definition ept_mem_entry :: "u64 \<Rightarrow> u64 \<Rightarrow> u64" where
  "ept_mem_entry hpa flags = ept_new_entry hpa (ept_flags_of flags)"

definition vmx_map_op :: "u64 \<Rightarrow> u64 \<Rightarrow> u64 \<Rightarrow> ept_context option \<times> host \<Rightarrow> unit res \<times> ept_context option \<times> host" where
  "vmx_map_op gpa hpa flags s = vmx_mem_map_page gpa hpa flags (fst s) (snd s)"

definition vmx_unmap_op :: "u64 \<Rightarrow> ept_context option \<times> host \<Rightarrow> ept_context option \<times> host" where
  "vmx_unmap_op gpa s = vmx_mem_unmap_page gpa (fst s) (snd s)"

interpretation vmx_ops: mem_ops vmx_map_op vmx_unmap_op ept_state_entry ept_path ept_mem_entry ept_state_ok
proof unfold_locales
  fix s gpa hpa flags res s'
  assume ok: "ept_state_ok s" and m: "vmx_map_op gpa hpa flags s = (res, s')"
  then obtain ept h where s: "s = (Some ept, h)" "ept_ok ept h"
    by (auto simp: ept_state_ok_def split: prod.splits option.splits)
  obtain ctx' h' where s': "s' = (ctx', h')" by force
  from ept_map_page_spec [OF s(2), of gpa hpa "ept_flags_of flags" res ctx' h'] m s s'
  show "ept_state_ok s'"
    and "ept_state_entry s' g = (if res = Inr () \<and> ept_path g = ept_path gpa
           then Some (ept_mem_entry hpa flags) else ept_state_entry s g)" for g
    by (auto simp: ept_state_ok_def ept_state_entry_def ept_mem_entry_def vmx_map_op_def vmx_mem_map_page_def)
next
  fix s gpa
  assume ok: "ept_state_ok s"
  then obtain ept h where s: "s = (Some ept, h)" "ept_ok ept h"
    by (auto simp: ept_state_ok_def split: prod.splits option.splits)
  obtain res ctx' h' where u: "relm_ept_unmap_page gpa (Some ept) h = (res, ctx', h')" by (metis prod_cases3)
  from ept_unmap_page_spec [OF s(2) u] s u
  show "ept_state_ok (vmx_unmap_op gpa s)"
    and "ept_state_entry (vmx_unmap_op gpa s) g = (if ept_path g = ept_path gpa then None else ept_state_entry s g)" for g
    by (auto simp: ept_state_ok_def ept_state_entry_def vmx_unmap_op_def vmx_mem_unmap_page_def)
qed

section \<open>Properties\<close>

lemma page_offset_or:
  assumes "frame_ok f" "unat d < 4096"
  shows "f OR EPT_PAGE_OFFSET d = f + d" "EPT_PAGE_OFFSET d = d"
proof -
  have d: "take_bit 12 d = d" using assms(2) by (simp add: take_bit_eq_self_unat)
  then show o: "EPT_PAGE_OFFSET d = d" by (simp add: EPT_PAGE_OFFSET_def and_masks)
  show "f OR EPT_PAGE_OFFSET d = f + d"
    unfolding o using assms(1) d by (intro aligned_add_or [symmetric]) (auto simp: frame_ok_def PAGE_ALIGNED_iff)
qed

lemma ept_path_offset:
  assumes "PAGE_ALIGNED g" "unat d < 4096"
  shows "ept_path (g + d) = ept_path g" "EPT_PAGE_OFFSET (g + d) = d"
proof -
  have d: "take_bit 12 d = d" "take_bit 12 g = 0"
    using assms by (simp_all add: take_bit_eq_self_unat PAGE_ALIGNED_iff)
  show "ept_path (g + d) = ept_path g"
    unfolding ept_path_eq_iff by (simp add: drop_bit_aligned_add [OF d(2,1)])
  show "EPT_PAGE_OFFSET (g + d) = d"
    by (simp add: EPT_PAGE_OFFSET_def and_masks take_bit_aligned_add [OF d(2,1)])
qed

lemma ept_addr_new_entry:
  "frame_ok hpa \<Longrightarrow> flags AND EPT_ADDR_MASK = 0 \<Longrightarrow> ept_addr (ept_new_entry hpa flags) = hpa"
  unfolding ept_addr_def ept_new_entry_def using masked_or_flags [of flags hpa] by (simp add: frame_ok_mask)

text \<open>A host and a freshly set-up context, used as the concrete case of the properties below.\<close>

definition demo_host :: host where
  "demo_host = \<lparr>pool = [0x1000, 0x2000, 0x3000, 0x4000, 0x5000], kmem = [True, True], pmem = (\<lambda>_. 0)\<rparr>"

definition demo_ept :: ept_context where
  "demo_ept = \<lparr>pml4 = Some 0x1000, pml4_pa = 0x1000, eptp = CONSTRUCT_EPTP 0x1000 6 False, memtype = 6,
     ad_enabled = False, pages_4kb = 0, pages_2mb = 0, pages_1gb = 0, total_mapped = 0\<rparr>"

definition demo_host1 :: host where
  "demo_host1 = demo_host\<lparr>pool := [0x2000, 0x3000, 0x4000, 0x5000], kmem := [True],
     pmem := zero_page (pmem demo_host) 0x1000\<rparr>"

lemma setup_ept_ok:
  assumes h: "host_ok h" and s: "relm_setup_ept cap h = (Inr (), ctx, h')"
  obtains ept where "ctx = Some ept" "ept_ok ept h'" "\<And>g. ept_entry ept h' g = None"
    "\<And>r. pml4 ept = Some r \<Longrightarrow> ept_tables (pmem h') r \<union> set (pool h') = set (pool h)"
proof -
  obtain b h0 where k: "kzalloc h = (b, h0)" by force
  then have k0: "pool h0 = pool h" "pmem h0 = pmem h" using kzalloc_simps [of h] by simp_all
  obtain r fs where p: "pool h0 = r # fs" "b"
    using s k by (cases "pool h0") (auto simp: relm_setup_ept_def relm_ept_context_create_def split: if_splits)
  define ept where "ept = \<lparr>pml4 = Some r, pml4_pa = r, eptp = CONSTRUCT_EPTP r 6 False, memtype = 6,
     ad_enabled = False, pages_4kb = 0, pages_2mb = 0, pages_1gb = 0, total_mapped = 0\<rparr>"
  have c: "ctx = Some ept" "h' = h0\<lparr>pool := fs, pmem := zero_page (pmem h0) r\<rparr>"
    using s k p by (auto simp: relm_setup_ept_def relm_ept_context_create_def ept_def split: if_splits)
  have "host_ok h0" using h k0 by (simp add: host_ok_def)
  note ft = ept_fmt.fresh_root [OF this p(1), of h']
  have "ept_mapped (pmem h') r = {}" using ft(2) c by (fastforce simp: ept_mapped_def)
  then have e: "ept_ok ept h'" using ft(1) c by (simp add: ept_ok_def ept_def)
  have "ept_entry ept h' g = None" for g
    using ft(2) [of "ept_path g"] c by (simp add: ept_entry_def ept_def) (simp add: ept_path_def)
  moreover have "ept_tables (pmem h') r \<union> set (pool h') = set (pool h)"
    using ft(3) c k0 p by simp
  ultimately show ?thesis using that [OF c(1) e] by (simp add: ept_def)
qed

lemma demo_host_ok: "host_ok demo_host"
  by (simp add: host_ok_def demo_host_def frame_ok_def PAGE_ALIGNED_def)

lemma demo_setup: "relm_setup_ept 0x104040 demo_host = (Inr (), Some demo_ept, demo_host1)"
  by (simp add: relm_setup_ept_def relm_ept_check_support_def relm_ept_context_create_def kzalloc_def
      demo_host_def demo_ept_def demo_host1_def)

lemma demo_ept_ok: "ept_ok demo_ept demo_host1"
  using setup_ept_ok [OF demo_host_ok demo_setup] by auto

text \<open>After a successful mapping call, looking up any byte of the guest page gives the
  corresponding byte of the host frame.\<close>

theorem ept_map_lookup:
  assumes "ept_ok ept h" and "relm_ept_map_page gpa hpa flags (Some ept) h = (Inr (), ctx', h')"
    and "hpa < 2 ^ 52" and "flags AND EPT_ADDR_MASK = 0" and "unat d < 4096"
  shows "relm_ept_get_mapping (gpa + d) ctx' h' = Inr (hpa + d)"
proof -
  from ept_map_page_spec [OF assms(1,2)] obtain ept' r where
    e: "ctx' = Some ept'" "pml4 ept' = Some r"
      "ept_entry ept' h' g = (if ept_path g = ept_path gpa then Some (ept_new_entry hpa flags) else ept_entry ept h g)" for g
    by auto
  have al: "PAGE_ALIGNED gpa" "PAGE_ALIGNED hpa"
    using assms(1,2) by (auto simp: relm_ept_map_page_def ept_is_4kb_aligned_def PAGE_ALIGNED_def
        split: option.splits if_splits)
  then have f: "frame_ok hpa" using assms(3) by (simp add: frame_ok_def)
  have "ept_addr (ept_new_entry hpa flags) OR EPT_PAGE_OFFSET (gpa + d) = hpa + d"
    using page_offset_or [OF f assms(5)] ept_addr_new_entry [OF f assms(4)] ept_path_offset [OF al(1) assms(5)]
    by simp
  then show ?thesis
    using e ept_path_offset(1) [OF al(1) assms(5)] by (simp add: get_mapping_entry)
qed

text \<open>Three free frames are enough for any mapping.\<close>

lemma get_or_create_pool:
  assumes "pool h \<noteq> []"
  obtains t h' where "relm_ept_get_or_create_table a h = (Some t, h')" "length (pool h) \<le> Suc (length (pool h'))"
  using assms get_or_create_simps [of h a]
  by (cases "ept_present (rd64 (pmem h) a)"; cases "pool h") auto

lemma ept_map_page_succeeds:
  assumes r: "pml4 ept = Some r" and a: "PAGE_ALIGNED gpa" "PAGE_ALIGNED hpa" "flags AND EPT_ACCESS_READ \<noteq> 0"
    and p: "3 \<le> length (pool h)"
  shows "\<exists>ctx' h'. relm_ept_map_page gpa hpa flags (Some ept) h = (Inr (), ctx', h')"
proof -
  obtain t1 h1 where 1: "relm_ept_get_or_create_table (slot r (EPT_PML4_INDEX gpa)) h = (Some t1, h1)"
    "length (pool h) \<le> Suc (length (pool h1))" using p by (metis get_or_create_pool list.size(3) not_numeral_le_zero)
  then have "pool h1 \<noteq> []" using p by auto
  then obtain t2 h2 where 2: "relm_ept_get_or_create_table (slot t1 (EPT_PDPT_INDEX gpa)) h1 = (Some t2, h2)"
    "length (pool h1) \<le> Suc (length (pool h2))" by (rule get_or_create_pool)
  then have "pool h2 \<noteq> []" using p 1 by auto
  then obtain t3 h3 where 3: "relm_ept_get_or_create_table (slot t2 (EPT_PD_INDEX gpa)) h2 = (Some t3, h3)"
    by (rule get_or_create_pool)
  from 1(1) 2(1) 3 r a show ?thesis
    by (simp add: relm_ept_map_page_def ept_is_4kb_aligned_def PAGE_ALIGNED_def Let_def)
qed

lemma demo_map: "\<exists>ctx' h'. relm_ept_map_page 0x7000 0x9000 0x37 (Some demo_ept) demo_host1 = (Inr (), ctx', h')"
  by (rule ept_map_page_succeeds) (simp_all add: demo_ept_def demo_host1_def PAGE_ALIGNED_def)

theorem ept_map_lookup_witness:
  "\<exists>ctx' h'. relm_ept_map_page 0x7000 0x9000 0x37 (Some demo_ept) demo_host1 = (Inr (), ctx', h') \<and>
     relm_ept_get_mapping 0x7010 ctx' h' = Inr 0x9010"
proof -
  obtain ctx' h' where m: "relm_ept_map_page 0x7000 0x9000 0x37 (Some demo_ept) demo_host1 = (Inr (), ctx', h')"
    using demo_map by blast
  from ept_map_lookup [OF demo_ept_ok m, of "0x10"] m show ?thesis by simp
qed

text \<open>A mapping call never changes the translation of another page, whether it succeeds or
  fails; a failing call changes no translation at all, keeps the context and loses no frame.\<close>

theorem ept_map_isolated:
  assumes "ept_ok ept h" and "relm_ept_map_page gpa hpa flags (Some ept) h = (res, ctx', h')"
    and "take_bit 36 (drop_bit 12 g) \<noteq> take_bit 36 (drop_bit 12 gpa) \<or> res \<noteq> Inr ()"
  shows "relm_ept_get_mapping g ctx' h' = relm_ept_get_mapping g (Some ept) h"
proof -
  from ept_map_page_spec [OF assms(1,2)] obtain ept' r where
    e: "ctx' = Some ept'" "pml4 ept = Some r" "pml4 ept' = Some r"
      "\<And>g. ept_entry ept' h' g = (if res = Inr () \<and> ept_path g = ept_path gpa
         then Some (ept_new_entry hpa flags) else ept_entry ept h g)"
    by auto
  then have "ept_entry ept' h' g = ept_entry ept h g" using assms(3) by (auto simp: ept_path_eq_iff)
  then show ?thesis using e by (simp add: get_mapping_entry)
qed

theorem ept_map_isolated_witness:
  "\<exists>ctx' h'. relm_ept_map_page 0x7000 0x9000 0x37 (Some demo_ept) demo_host1 = (Inr (), ctx', h') \<and>
     relm_ept_get_mapping 0x8000 ctx' h' = relm_ept_get_mapping 0x8000 (Some demo_ept) demo_host1"
proof -
  obtain ctx' h' where m: "relm_ept_map_page 0x7000 0x9000 0x37 (Some demo_ept) demo_host1 = (Inr (), ctx', h')"
    using demo_map by blast
  from ept_map_isolated [OF demo_ept_ok m, of "0x8000"] m show ?thesis by (simp add: take_bit_eq_mod)
qed

text \<open>Unmapping removes exactly one page: afterwards its lookup reports \<open>-ENOENT\<close>, every other
  page translates as before; the return code is \<open>-ENOENT\<close> exactly when the page was not
  mapped.\<close>

theorem ept_unmap_removes:
  assumes "ept_ok ept h" and "relm_ept_unmap_page gpa (Some ept) h = (res, ctx', h')"
  shows "relm_ept_get_mapping g ctx' h' =
      (if take_bit 36 (drop_bit 12 g) = take_bit 36 (drop_bit 12 gpa) then Inl ENOENT
       else relm_ept_get_mapping g (Some ept) h) \<and>
    (res = Inl ENOENT \<longleftrightarrow> relm_ept_get_mapping gpa (Some ept) h = Inl ENOENT) \<and> (res = Inl ENOENT \<or> res = Inr ())"
proof -
  from ept_unmap_page_spec [OF assms] obtain ept' r where
    e: "ctx' = Some ept'" "pml4 ept = Some r" "pml4 ept' = Some r"
      "res = (if ept_entry ept h gpa = None then Inl ENOENT else Inr ())"
      "\<And>g. ept_entry ept' h' g = (if ept_path g = ept_path gpa then None else ept_entry ept h g)"
    by auto
  then show ?thesis by (simp add: get_mapping_entry ept_path_eq_iff split: option.split)
qed

theorem ept_unmap_removes_witness:
  "relm_ept_get_mapping 0x7123 (fst (snd (relm_ept_unmap_page 0x7000 (Some demo_ept) demo_host1)))
     (snd (snd (relm_ept_unmap_page 0x7000 (Some demo_ept) demo_host1))) = Inl ENOENT"
  using ept_unmap_removes [OF demo_ept_ok, of "0x7000" "fst (relm_ept_unmap_page 0x7000 (Some demo_ept) demo_host1)"
      "fst (snd (relm_ept_unmap_page 0x7000 (Some demo_ept) demo_host1))"
      "snd (snd (relm_ept_unmap_page 0x7000 (Some demo_ept) demo_host1))" "0x7123"]
  by (simp add: take_bit_eq_mod)

text \<open>(C2) Refinement: from a fresh context, any sequence of map and unmap calls through the memory
  operations leaves the tables translating exactly like the abstract partial map from page numbers
  to entries, updated by the calls that succeeded.\<close>

theorem ept_run_refines:
  assumes "host_ok h" and "relm_setup_ept cap h = (Inr (), ctx, h1)"
    and "mem_run vmx_map_op vmx_unmap_op ops (ctx, h1) = (rs, s')"
  shows "ept_state_entry s' g = fold (abs_step ept_path ept_mem_entry) (zip ops rs) (\<lambda>_. None) (ept_path g)"
proof -
  from setup_ept_ok [OF assms(1,2)] obtain ept where
    e: "ctx = Some ept" "ept_ok ept h1" "\<And>g. ept_entry ept h1 g = None" by blast
  then have "vmx_ops.represents (ctx, h1) (\<lambda>_. None)"
    by (simp add: vmx_ops.represents_def ept_state_ok_def ept_state_entry_def)
  from vmx_ops.run_refines [OF this assms(3)] show ?thesis by (simp add: vmx_ops.represents_def)
qed

theorem ept_run_refines_witness:
  "ept_state_entry (snd (mem_run vmx_map_op vmx_unmap_op [MapPage 0x7000 0x9000 3, UnmapPage 0x7000] (Some demo_ept, demo_host1))) 0x7000 = None"
proof -
  let ?ops = "[MapPage 0x7000 0x9000 3, UnmapPage 0x7000]"
  obtain rs s' where m: "mem_run vmx_map_op vmx_unmap_op ?ops (Some demo_ept, demo_host1) = (rs, s')"
    by (metis surj_pair)
  moreover have "length rs = 2" using m by (auto simp: Let_def split: prod.splits)
  ultimately show ?thesis
    using ept_run_refines [OF demo_host_ok demo_setup m, of "0x7000"]
    by (auto simp: numeral_eq_Suc length_Suc_conv)
qed

text \<open>The frames of a context and the pool, and that no call changes their union.\<close>

definition ept_frames :: "ept_context option \<times> host \<Rightarrow> u64 set" where
  "ept_frames s = (case s of (Some ept, h) \<Rightarrow> (case pml4 ept of Some r \<Rightarrow> ept_tables (pmem h) r | None \<Rightarrow> {}) \<union> set (pool h)
     | (None, h) \<Rightarrow> set (pool h))"

lemma ept_step_frames:
  assumes ok: "ept_state_ok s" and st: "mem_step vmx_map_op vmx_unmap_op x s = (rc, s')"
  shows "ept_state_ok s' \<and> ept_frames s' = ept_frames s"
proof -
  obtain ept h where s: "s = (Some ept, h)" "ept_ok ept h"
    using ok by (auto simp: ept_state_ok_def split: prod.splits option.splits)
  show ?thesis
  proof (cases x)
    case (MapPage g p f)
    obtain c h' where s': "s' = (c, h')" by force
    have "relm_ept_map_page g p (ept_flags_of f) (Some ept) h = (rc, c, h')"
      using st MapPage s s' by (simp add: vmx_map_op_def vmx_mem_map_page_def)
    from ept_map_page_spec [OF s(2) this] s s' show ?thesis
      by (auto simp: ept_state_ok_def ept_frames_def tree_frames_def)
  next
    case (UnmapPage g)
    obtain rc' c h' where u: "relm_ept_unmap_page g (Some ept) h = (rc', c, h')" by (metis prod_cases3)
    then have "s' = (c, h')" using st UnmapPage s by (simp add: vmx_unmap_op_def vmx_mem_unmap_page_def)
    with ept_unmap_page_spec [OF s(2) u] s show ?thesis
      by (auto simp: ept_state_ok_def ept_frames_def)
  qed
qed

text \<open>(C21) Teardown is exact: setting up a context, any sequence of map and unmap calls, and destroying it gives
  the page allocator back the very frames it had, each exactly once, so that no table leaks and none is
  freed twice; the context pointer is cleared.\<close>

theorem ept_teardown_exact:
  assumes "host_ok h" and "relm_setup_ept cap h = (Inr (), ctx, h1)"
    and "mem_run vmx_map_op vmx_unmap_op ops (ctx, h1) = (rs, (ctx2, h2))" and "vmx_mem_destroy ctx2 h2 = (ctx3, h3)"
  shows "ctx3 = None \<and> set (pool h3) = set (pool h) \<and> distinct (pool h3)"
proof -
  from setup_ept_ok [OF assms(1,2)] obtain ept r where
    e: "ctx = Some ept" "ept_ok ept h1" "pml4 ept = Some r" "ept_tables (pmem h1) r \<union> set (pool h1) = set (pool h)"
    by (metis ept_ok_def)
  have "ept_state_ok (ctx2, h2) \<and> ept_frames (ctx2, h2) = ept_frames (ctx, h1)"
    by (rule mem_run_invariant [where I = "\<lambda>s. ept_state_ok s \<and> ept_frames s = ept_frames (ctx, h1)", OF _ _ assms(3)])
      (use ept_step_frames e in \<open>auto simp: ept_state_ok_def\<close>)
  then obtain ept2 r2 where 2: "ctx2 = Some ept2" "ept_ok ept2 h2" "pml4 ept2 = Some r2"
    "ept_tables (pmem h2) r2 \<union> set (pool h2) = set (pool h)"
    using e by (auto simp: ept_state_ok_def ept_frames_def ept_ok_def split: option.splits)
  then have "ctx3 = None" "h3 = relm_ept_context_destroy (Some ept2) h2"
    using assms(4) by (auto simp: vmx_mem_destroy_def)
  with ept_destroy_spec [OF 2(2,3)] 2(4) show ?thesis by (simp add: host_ok_def)
qed

theorem ept_teardown_exact_witness:
  "set (pool (snd (vmx_mem_destroy (Some demo_ept) demo_host1))) = {0x1000, 0x2000, 0x3000, 0x4000, 0x5000}"
  using ept_teardown_exact [OF demo_host_ok demo_setup, of "[]" "[]" "Some demo_ept" demo_host1
      "fst (vmx_mem_destroy (Some demo_ept) demo_host1)" "snd (vmx_mem_destroy (Some demo_ept) demo_host1)"]
  by (simp add: demo_host_def)

text \<open>The statistics are exact after any sequence of calls: the page counter equals the number of
  mapped pages (it cannot wrap) and the byte counter is 4096 times it.\<close>

theorem ept_stats_exact:
  assumes "host_ok h" and "relm_setup_ept cap h = (Inr (), ctx, h1)"
    and "mem_run vmx_map_op vmx_unmap_op ops (ctx, h1) = (rs, (Some ept', h'))" and "pml4 ept' = Some r"
  shows "unat (pages_4kb ept') = card (ept_mapped (pmem h') r) \<and> total_mapped ept' = 4096 * pages_4kb ept'"
proof -
  from setup_ept_ok [OF assms(1,2)] obtain ept where
    e: "ctx = Some ept" "ept_ok ept h1" "\<And>g. ept_entry ept h1 g = None" by blast
  then have "vmx_ops.represents (ctx, h1) (\<lambda>_. None)"
    by (simp add: vmx_ops.represents_def ept_state_ok_def ept_state_entry_def)
  from vmx_ops.run_refines [OF this assms(3)] have ok: "ept_ok ept' h'"
    by (simp add: vmx_ops.represents_def ept_state_ok_def)
  have "card (ept_mapped (pmem h') r) < 2 ^ 64" by (rule ept_mapped_bound)
  then show ?thesis using ok assms(4) by (simp add: ept_ok_iff unat_word_of_nat_small)
qed

theorem ept_stats_exact_witness:
  "unat (pages_4kb demo_ept) = card (ept_mapped (pmem demo_host1) 0x1000)"
  using ept_stats_exact [OF demo_host_ok demo_setup, of "[]" "[]" demo_ept demo_host1 "0x1000"]
  by (simp add: demo_ept_def)

text \<open>Mapping uses no memory but the tables': the table frames together with the free pool are the
  same set before and after, and every byte outside the tables (all of guest RAM) keeps its
  value.\<close>

theorem ept_map_frames:
  assumes "ept_ok ept h" and "relm_ept_map_page gpa hpa flags (Some ept) h = (res, ctx', h')" and "pml4 ept = Some r"
  shows "ept_tables (pmem h') r \<union> set (pool h') = ept_tables (pmem h) r \<union> set (pool h) \<and>
    (page_base x \<notin> ept_tables (pmem h') r \<longrightarrow> pmem h' x = pmem h x)"
  using ept_map_page_spec [OF assms(1,2)] assms(3) by (auto simp: tree_frames_def)

theorem ept_map_frames_witness:
  "ept_tables (pmem (snd (snd (relm_ept_map_page 0x7000 0x9000 0x37 (Some demo_ept) demo_host1)))) 0x1000 \<union>
     set (pool (snd (snd (relm_ept_map_page 0x7000 0x9000 0x37 (Some demo_ept) demo_host1)))) =
   ept_tables (pmem demo_host1) 0x1000 \<union> set (pool demo_host1)"
  using ept_map_frames [OF demo_ept_ok, of "0x7000" "0x9000" "0x37"
      "fst (relm_ept_map_page 0x7000 0x9000 0x37 (Some demo_ept) demo_host1)"
      "fst (snd (relm_ept_map_page 0x7000 0x9000 0x37 (Some demo_ept) demo_host1))"
      "snd (snd (relm_ept_map_page 0x7000 0x9000 0x37 (Some demo_ept) demo_host1))" "0x1000"]
  by (simp add: demo_ept_def)

text \<open>The lowest set bit of a non-zero word.\<close>

lemma lowest_bit:
  fixes x :: u64
  assumes "x \<noteq> 0"
  obtains k where "bit x k" "take_bit k x = 0"
proof -
  obtain j where j: "bit x j" using assms by (metis bit_0_eq bit_word_eqI bot_apply bot_bool_def)
  define k where "k = (LEAST j. bit x j)"
  have "bit x k" unfolding k_def using j by (rule LeastI)
  moreover have "take_bit k x = 0"
  proof (rule bit_word_eqI)
    fix n assume "n < LENGTH(64)"
    have "n < k \<Longrightarrow> \<not> bit x n" unfolding k_def by (rule not_less_Least)
    then show "bit (take_bit k x) n \<longleftrightarrow> bit (0 :: u64) n" by (auto simp: bit_take_bit_iff)
  qed
  ultimately show ?thesis by (rule that)
qed

lemma huge_product_wrong:
  fixes hpa :: u64
  assumes "hpa \<noteq> 0" "hpa < 2 ^ 52" "flags AND 0x000FFFFFFFFFF000 = 0"
  shows "((hpa * 0x000FFFFFFFFFF000 OR flags) OR 0x80) AND 0x000FFFFFFFFFF000 \<noteq> hpa"
proof
  assume eq: "((hpa * 0x000FFFFFFFFFF000 OR flags) OR 0x80) AND 0x000FFFFFFFFFF000 = hpa"
  obtain k where k: "bit hpa k" "take_bit k hpa = 0" using lowest_bit [OF assms(1)] .
  have "hpa = push_bit k (drop_bit k hpa)" using bits_ident [of k hpa] k(2) by (metis add.right_neutral)
  then have "hpa * 0x000FFFFFFFFFF000 = push_bit k (drop_bit k hpa) * push_bit 12 (mask 40)"
    by (rule arg_cong2 [where f = "(*)", OF _ addr_mask_eq])
  also have "\<dots> = push_bit (k + 12) (drop_bit k hpa * mask 40)"
    by (simp add: push_bit_eq_mult power_add mult_ac)
  finally have p: "\<not> bit (hpa * 0x000FFFFFFFFFF000) k" by (simp add: bit_push_bit_iff)
  have m: "bit (0x000FFFFFFFFFF000 :: u64) k"
    using k(1) eq by (metis bit_and_iff)
  have "\<not> bit flags k" using assms(3) m by (metis bit_0_eq bit_and_iff bot_apply bot_bool_def)
  moreover have "\<not> bit (0x80 :: u64) k"
  proof -
    have "12 \<le> k" using m unfolding addr_mask_eq by (simp add: bit_push_bit_iff)
    then have "\<not> bit (take_bit 12 (0x80 :: u64)) k" by (simp only: bit_take_bit_iff) simp
    then show ?thesis by simp
  qed
  ultimately have "\<not> bit (((hpa * 0x000FFFFFFFFFF000 OR flags) OR 0x80) AND 0x000FFFFFFFFFF000) k"
    using p by (simp add: bit_simps)
  with eq k(1) show False by simp
qed

text \<open>The 2 MiB path multiplies the host address by the mask (\<open>hpa * EPT_ADDR_MASK\<close>) where the 4 KiB path
  masks it: for every non-zero host address the large-page leaf it installs names a different
  frame.\<close>

theorem ept_huge_leaf_wrong:
  assumes "relm_ept_map_huge_page gpa hpa flags (Some ept) h = (Inr (), ctx', h')"
    and "hpa \<noteq> 0" and "hpa < 2 ^ 52" and "flags AND EPT_ADDR_MASK = 0"
  shows "\<exists>pd. rd64 (pmem h') (slot pd (EPT_PD_INDEX gpa)) AND EPT_PAGE_SIZE \<noteq> 0 \<and>
    ept_addr (rd64 (pmem h') (slot pd (EPT_PD_INDEX gpa))) \<noteq> hpa"
proof -
  from assms(1) obtain pd h1 where
    h': "h' = h1\<lparr>pmem := wr64 (pmem h1) (slot pd (EPT_PD_INDEX gpa)) ((hpa * EPT_ADDR_MASK OR flags) OR EPT_PAGE_SIZE)\<rparr>"
    by (auto simp: relm_ept_map_huge_page_def Let_def split: option.splits if_splits prod.splits)
  have "((x OR flags) OR 0x80) AND 0x80 = (0x80 :: u64)" for x
    by (rule bit_word_eqI) (auto simp: bit_simps)
  then show ?thesis
    using huge_product_wrong [OF assms(2-4)] by (intro exI [of _ pd]) (simp add: h' mem_simps ept_addr_def)
qed

lemma demo_map_huge: "\<exists>ctx' h'. relm_ept_map_huge_page 0x400000 0x200000 0x37 (Some demo_ept) demo_host1 = (Inr (), ctx', h')"
proof -
  obtain t1 h1 where 1: "relm_ept_get_or_create_table (slot 0x1000 (EPT_PML4_INDEX 0x400000)) demo_host1 = (Some t1, h1)"
    "length (pool demo_host1) \<le> Suc (length (pool h1))"
    by (rule get_or_create_pool [of demo_host1]) (simp_all add: demo_host1_def)
  then have "pool h1 \<noteq> []" by (auto simp: demo_host1_def)
  then obtain t2 h2 where "relm_ept_get_or_create_table (slot t1 (EPT_PDPT_INDEX 0x400000)) h1 = (Some t2, h2)"
    by (rule get_or_create_pool)
  with 1(1) show ?thesis
    by (simp add: relm_ept_map_huge_page_def demo_ept_def ept_is_2mb_aligned_def Let_def)
qed

theorem ept_huge_leaf_wrong_witness:
  "\<exists>ctx' h' pd. relm_ept_map_huge_page 0x400000 0x200000 0x37 (Some demo_ept) demo_host1 = (Inr (), ctx', h') \<and>
    ept_addr (rd64 (pmem h') (slot pd (EPT_PD_INDEX 0x400000))) \<noteq> 0x200000"
proof -
  obtain ctx' h' where m: "relm_ept_map_huge_page 0x400000 0x200000 0x37 (Some demo_ept) demo_host1 = (Inr (), ctx', h')"
    using demo_map_huge by blast
  from ept_huge_leaf_wrong [OF m] m show ?thesis by auto
qed

end
