(* ===== verification/Relm_Guest_Mem.thy ===== *)
theory Relm_Guest_Mem
  imports Relm_Host Relm_Mmio Relm_Mem_Ops Relm_Ept
begin

text \<open>
  Guest physical memory (src/core/vm.c): allocation of guest RAM page by page with its mapping
  and cleanup path, MMIO passthrough regions, release, and the three copy loops between host
  buffers and guest-physical addresses. The back end is the \<open>mem_ops\<close> table, so the allocation
  routines take its \<open>map_page\<close> as an argument. Guest pages are frames of the host memory;
  \<open>kmap_local_page\<close>, which cannot fail for kernel pages, is the identity on them. The loops are
  compared with byte-wise writes and reads through the address map \<open>guest_hpa\<close>.
\<close>

section \<open>Copy loops\<close>

text \<open>An \<open>int\<close> result (a count or \<open>-errno\<close>), or a dereference of an invalid host pointer.\<close>

datatype outcome = Ret "int res" | Fault

definition covers :: "u64 \<Rightarrow> guest_mem_region \<Rightarrow> bool" where
  "covers a r \<longleftrightarrow> gr_gpa_start r \<le> a \<and> a < gr_gpa_start r + gr_size r"

text \<open>The region of an address: the one of the previous iteration if it still fits, else the first of
  the list.\<close>

definition pick_region :: "guest_mem_region list \<Rightarrow> guest_mem_region option \<Rightarrow> u64 \<Rightarrow> guest_mem_region option" where
  "pick_region regs region a =
     (case region of
        Some r \<Rightarrow> if covers a r then region else find (covers a) regs
      | None \<Rightarrow> find (covers a) regs)"

text \<open>\<open>return copied > 0 ? copied : -EFAULT\<close>.\<close>

definition partial_result :: "nat \<Rightarrow> outcome" where
  "partial_result n = Ret (if n > 0 then Inr (c_int n) else Inl EFAULT)"

definition page_at :: "guest_mem_region \<Rightarrow> nat \<Rightarrow> u64 option option" where
  "page_at r i = (case gr_pages r of None \<Rightarrow> None
     | Some ps \<Rightarrow> if i < length ps then Some (ps ! i) else None)"

lemma covers_offset:
  assumes "covers a r"
  shows "unat (a - gr_gpa_start r) < unat (gr_size r)"
    and "unat (gr_gpa_start r + gr_size r) = unat (gr_gpa_start r) + unat (gr_size r)"
    and "unat (a - gr_gpa_start r) = unat a - unat (gr_gpa_start r)"
    and "unat (gr_gpa_start r) \<le> unat a"
proof -
  let ?s = "gr_gpa_start r" and ?n = "gr_size r"
  have a: "unat ?s \<le> unat a" "unat a < unat (?s + ?n)"
    using assms by (simp_all add: covers_def word_le_nat_alt word_less_nat_alt)
  show sub: "unat (a - ?s) = unat a - unat ?s" using assms by (simp add: covers_def unat_sub)
  have "unat (?s + ?n) = (unat ?s + unat ?n) mod 2 ^ 64" by (simp add: unat_word_ariths)
  moreover have "unat ?s < 2 ^ 64" "unat ?n < 2 ^ 64" using unsigned_less [of ?s] unsigned_less [of ?n] by auto
  ultimately show plus: "unat (?s + ?n) = unat ?s + unat ?n" using a by (auto simp: mod_if split: if_splits)
  show "unat (a - ?s) < unat ?n" "unat ?s \<le> unat a" using a sub plus by auto
qed

lemma pick_region_covers: "pick_region regs region a = Some r \<Longrightarrow> covers a r"
  by (auto simp: pick_region_def find_Some_iff split: option.splits if_splits)

lemma region_room: "covers a r \<Longrightarrow> 0 < unat (gr_size r - (a - gr_gpa_start r))"
  using covers_offset(1) [of a r] by (auto simp: unat_gt_0)

lemma page_offset_less: "unat (x mod 0x1000 :: u64) < 4096"
  by (simp add: unat_mod)

function copy_to_loop :: "guest_mem_region list \<Rightarrow> u8 list \<Rightarrow> guest_mem_region option \<Rightarrow> u64 \<Rightarrow> nat \<Rightarrow> host
    \<Rightarrow> outcome \<times> host" where
  "copy_to_loop regs data region current_gpa copied h =
     (if copied < length data then
        case pick_region regs region current_gpa of
          None \<Rightarrow> (partial_result copied, h)
        | Some r \<Rightarrow>
            let region_offset = current_gpa - gr_gpa_start r;
                page_index = unat (region_offset div 0x1000);
                page_offset = unat (region_offset mod 0x1000);
                bytes_to_copy = min (min (4096 - page_offset) (length data - copied)) (unat (gr_size r - region_offset))
            in case page_at r page_index of
                 None \<Rightarrow> (Fault, h)
               | Some None \<Rightarrow> (partial_result copied, h)
               | Some (Some page) \<Rightarrow>
                   copy_to_loop regs data (Some r) (current_gpa + word_of_nat bytes_to_copy) (copied + bytes_to_copy)
                     (h\<lparr>pmem := wr_bytes (pmem h) (page + word_of_nat page_offset)
                                  (take bytes_to_copy (drop copied data))\<rparr>)
      else (Ret (Inr (c_int copied)), h))"
  by pat_completeness auto

termination copy_to_loop
proof (relation "measure (\<lambda>(regs, data, region, a, copied, h). length data - copied)", goal_cases)
  case 1
  show ?case by simp
next
  case (2 regs data region a copied h r x xa xb xc xd xe)
  then have "0 < xc" using region_room [OF pick_region_covers, of regs region a r] page_offset_less [of x] by simp
  with 2(1) have "length data - (copied + xc) < length data - copied" by arith
  then show ?case by simp
qed

function copy_from_loop :: "guest_mem_region list \<Rightarrow> nat \<Rightarrow> guest_mem_region option \<Rightarrow> u64 \<Rightarrow> nat \<Rightarrow> u8 list \<Rightarrow> host
    \<Rightarrow> outcome \<times> u8 list" where
  "copy_from_loop regs sz region current_gpa copied dst h =
     (if copied < sz then
        case pick_region regs region current_gpa of
          None \<Rightarrow> (partial_result copied, dst)
        | Some r \<Rightarrow>
            let region_offset = current_gpa - gr_gpa_start r;
                page_index = unat (region_offset div 0x1000);
                page_offset = unat (region_offset mod 0x1000);
                bytes_to_copy = min (min (4096 - page_offset) (sz - copied)) (unat (gr_size r - region_offset))
            in case page_at r page_index of
                 None \<Rightarrow> (Fault, dst)
               | Some None \<Rightarrow> (partial_result copied, dst)
               | Some (Some page) \<Rightarrow>
                   copy_from_loop regs sz (Some r) (current_gpa + word_of_nat bytes_to_copy) (copied + bytes_to_copy)
                     (take copied dst @ rd_bytes (pmem h) (page + word_of_nat page_offset) bytes_to_copy
                       @ drop (copied + bytes_to_copy) dst) h
      else (Ret (Inr (c_int copied)), dst))"
  by pat_completeness auto

termination copy_from_loop
proof (relation "measure (\<lambda>(regs, sz, region, a, copied, dst, h). sz - copied)", goal_cases)
  case 1
  show ?case by simp
next
  case (2 regs sz region a copied dst h r x xa xb xc xd xe)
  then have "0 < xc" using region_room [OF pick_region_covers, of regs region a r] page_offset_less [of x] by simp
  with 2(1) have "sz - (copied + xc) < sz - copied" by arith
  then show ?case by simp
qed

text \<open>Zeroing clips at the page and at the request, not at the region.\<close>

function zero_loop :: "guest_mem_region list \<Rightarrow> nat \<Rightarrow> guest_mem_region option \<Rightarrow> u64 \<Rightarrow> nat \<Rightarrow> host
    \<Rightarrow> outcome \<times> host" where
  "zero_loop regs sz region current_gpa zeroed h =
     (if zeroed < sz then
        case pick_region regs region current_gpa of
          None \<Rightarrow> (partial_result zeroed, h)
        | Some r \<Rightarrow>
            let region_offset = current_gpa - gr_gpa_start r;
                page_index = unat (region_offset div 0x1000);
                page_offset = unat (region_offset mod 0x1000);
                bytes_to_zero = min (4096 - page_offset) (sz - zeroed)
            in case page_at r page_index of
                 None \<Rightarrow> (Fault, h)
               | Some None \<Rightarrow> (partial_result zeroed, h)
               | Some (Some page) \<Rightarrow>
                   zero_loop regs sz (Some r) (current_gpa + word_of_nat bytes_to_zero) (zeroed + bytes_to_zero)
                     (h\<lparr>pmem := wr_bytes (pmem h) (page + word_of_nat page_offset) (replicate bytes_to_zero 0)\<rparr>)
      else (Ret (Inr (c_int zeroed)), h))"
  by pat_completeness auto

termination zero_loop
proof (relation "measure (\<lambda>(regs, sz, region, a, zeroed, h). sz - zeroed)", goal_cases)
  case 1
  show ?case by simp
next
  case (2 regs sz region a zeroed h r x xa xb xc xd xe)
  then have "0 < xc" using page_offset_less [of x] by simp
  with 2(1) have "sz - (zeroed + xc) < sz - zeroed" by arith
  then show ?case by simp
qed

declare copy_to_loop.simps [simp del] copy_from_loop.simps [simp del] zero_loop.simps [simp del]

definition relm_vm_copy_to_guest :: "relm_vm_memory option \<Rightarrow> u64 \<Rightarrow> u8 list option \<Rightarrow> host \<Rightarrow> outcome \<times> host" where
  "relm_vm_copy_to_guest vm gpa data h =
     (case (vm, data) of
        (Some mm, Some bs) \<Rightarrow>
          if bs = [] then (Ret (Inl EINVAL), h) else copy_to_loop (mem_regions mm) bs None gpa 0 h
      | _ \<Rightarrow> (Ret (Inl EINVAL), h))"

text \<open>\<open>data\<close> is the destination buffer, at least \<open>sz\<close> bytes long.\<close>

definition relm_vm_copy_from_guest :: "relm_vm_memory option \<Rightarrow> u64 \<Rightarrow> u8 list option \<Rightarrow> nat \<Rightarrow> host
    \<Rightarrow> outcome \<times> u8 list option" where
  "relm_vm_copy_from_guest vm gpa data sz h =
     (case (vm, data) of
        (Some mm, Some dst) \<Rightarrow>
          if sz = 0 then (Ret (Inl EINVAL), data)
          else (let (res, dst') = copy_from_loop (mem_regions mm) sz None gpa 0 dst h in (res, Some dst'))
      | _ \<Rightarrow> (Ret (Inl EINVAL), data))"

definition relm_vm_zero_guest_memory :: "relm_vm_memory option \<Rightarrow> u64 \<Rightarrow> nat \<Rightarrow> host \<Rightarrow> outcome \<times> host" where
  "relm_vm_zero_guest_memory vm gpa sz h =
     (case vm of None \<Rightarrow> (Ret (Inl EINVAL), h)
      | Some mm \<Rightarrow> if sz = 0 then (Ret (Inl EINVAL), h) else zero_loop (mem_regions mm) sz None gpa 0 h)"

section \<open>Guest RAM and passthrough regions\<close>

text \<open>The page loop of the allocation: \<open>pages\<close> are the frames recorded so far; on failure the code
  and the frames to clean up.\<close>

fun alloc_ram_pages :: "(u64 \<Rightarrow> u64 \<Rightarrow> u64 \<Rightarrow> 'c \<times> host \<Rightarrow> unit res \<times> 'c \<times> host) \<Rightarrow> nat \<Rightarrow> u64 \<Rightarrow> u64 \<Rightarrow> u64
    \<Rightarrow> u64 list \<Rightarrow> 'c \<times> host \<Rightarrow> errno option \<times> u64 list \<times> 'c \<times> host" where
  "alloc_ram_pages mp 0 i gpa_start flags pages s = (None, pages, s)"
| "alloc_ram_pages mp (Suc k) i gpa_start flags pages s =
     (case get_zeroed_page (snd s) of
        (None, h) \<Rightarrow> (Some ENOMEM, pages, (fst s, h))
      | (Some page, h) \<Rightarrow>
          (case mp (gpa_start + i * 0x1000) page flags (fst s, h) of
             (Inl e, s') \<Rightarrow> (Some e, pages, (fst s', free_page page (snd s')))
           | (Inr _, s') \<Rightarrow> alloc_ram_pages mp k (i + 1) gpa_start flags (pages @ [page]) s'))"

definition relm_vm_allocate_guest_ram :: "(u64 \<Rightarrow> u64 \<Rightarrow> u64 \<Rightarrow> 'c \<times> host \<Rightarrow> unit res \<times> 'c \<times> host)
    \<Rightarrow> u64 \<Rightarrow> u64 \<Rightarrow> relm_vm_memory option \<Rightarrow> 'c \<times> host \<Rightarrow> unit res \<times> relm_vm_memory option \<times> 'c \<times> host" where
  "relm_vm_allocate_guest_ram mp sz gpa_start vm s =
     (case vm of None \<Rightarrow> (Inl EINVAL, vm, s)
      | Some mm \<Rightarrow>
        (let sz = PAGE_ALIGN sz; num_pages = sz div 0x1000; (ok, h) = kzalloc (snd s) in
         if \<not> ok then (Inl ENOMEM, vm, (fst s, h)) else
         let (ok, h) = kzalloc h in
         if \<not> ok then (Inl ENOMEM, vm, (fst s, h)) else
         (case alloc_ram_pages mp (unat num_pages) 0 gpa_start 7 [] (fst s, h) of
            (Some e, pages, s') \<Rightarrow> (Inl e, vm, (fst s', fold free_page (rev pages) (snd s')))
          | (None, pages, s') \<Rightarrow>
              (Inr (), Some (mm\<lparr>mem_regions := \<lparr>gr_gpa_start = gpa_start, gr_size = sz, gr_pages = Some (map Some pages),
                                   gr_nr_pages = num_pages, gr_flags = 7\<rparr> # mem_regions mm,
                                total_guest_ram := total_guest_ram mm + sz\<rparr>), s'))))"

text \<open>The passthrough loop stops with the index of the failing page; the cleanup unmaps the pages below
  it, last first. The test on \<open>vm->arch.ept\<close> and the unmapping are those of the VMX back end.\<close>

fun map_mmio_pages :: "nat \<Rightarrow> nat \<Rightarrow> u64 \<Rightarrow> u64 \<Rightarrow> u64 \<Rightarrow> ept_context option \<times> host
    \<Rightarrow> (errno \<times> nat) option \<times> ept_context option \<times> host" where
  "map_mmio_pages 0 i gpa hpa flags s = (None, s)"
| "map_mmio_pages (Suc k) i gpa hpa flags s =
     (case vmx_mem_map_page (gpa + word_of_nat i * 0x1000) (hpa + word_of_nat i * 0x1000) flags (fst s) (snd s) of
        (Inl e, s') \<Rightarrow> (Some (e, i), s')
      | (Inr _, s') \<Rightarrow> map_mmio_pages k (i + 1) gpa hpa flags s')"

fun unmap_mmio_pages :: "nat \<Rightarrow> u64 \<Rightarrow> ept_context option \<times> host \<Rightarrow> ept_context option \<times> host" where
  "unmap_mmio_pages 0 gpa s = s"
| "unmap_mmio_pages (Suc i) gpa s =
     unmap_mmio_pages i gpa (snd (relm_ept_unmap_page (gpa + word_of_nat i * 0x1000) (fst s) (snd s)))"

definition relm_vm_map_mmio_region :: "u64 \<Rightarrow> u64 \<Rightarrow> u64 \<Rightarrow> relm_vm_memory option \<Rightarrow> ept_context option \<times> host
    \<Rightarrow> unit res \<times> relm_vm_memory option \<times> ept_context option \<times> host" where
  "relm_vm_map_mmio_region gpa hpa sz vm s =
     (case vm of None \<Rightarrow> (Inl EINVAL, vm, s)
      | Some mm \<Rightarrow>
        if fst s = None then (Inl EINVAL, vm, s)
        else if sz = 0 then (Inl EINVAL, vm, s)
        else if gpa AND 0xFFF \<noteq> 0 \<or> hpa AND 0xFFF \<noteq> 0 \<or> sz AND 0xFFF \<noteq> 0 then (Inl EINVAL, vm, s)
        else let num_pages = sz div 0x1000; mmio_flags = 0xB; (ok, h) = kzalloc (snd s) in
        if \<not> ok then (Inl ENOMEM, vm, (fst s, h))
        else case map_mmio_pages (unat num_pages) 0 gpa hpa mmio_flags (fst s, h) of
          (Some (e, i), s') \<Rightarrow> (Inl e, vm, unmap_mmio_pages i gpa s')
        | (None, s') \<Rightarrow>
            (Inr (), Some (mm\<lparr>mem_regions := \<lparr>gr_gpa_start = gpa, gr_size = sz, gr_pages = None,
                                gr_nr_pages = num_pages, gr_flags = mmio_flags\<rparr> # mem_regions mm\<rparr>), s'))"

text \<open>Releasing the backing pages of every region, in list order.\<close>

definition free_region :: "guest_mem_region \<Rightarrow> host \<Rightarrow> host" where
  "free_region r h = (case gr_pages r of None \<Rightarrow> h
     | Some ps \<Rightarrow> fold (\<lambda>i h. case ps ! i of None \<Rightarrow> h | Some page \<Rightarrow> free_page page h) [0..<unat (gr_nr_pages r)] h)"

definition relm_vm_free_guest_mem :: "relm_vm_memory option \<Rightarrow> host \<Rightarrow> relm_vm_memory option \<times> host" where
  "relm_vm_free_guest_mem vm h =
     (case vm of None \<Rightarrow> (None, h)
      | Some mm \<Rightarrow> (Some (mm\<lparr>mem_regions := [], total_guest_ram := 0\<rparr>), fold free_region (mem_regions mm) h))"

section \<open>The byte-wise view\<close>

text \<open>The host address of a guest-physical byte.\<close>

definition guest_hpa :: "guest_mem_region list \<Rightarrow> u64 \<Rightarrow> u64 option" where
  "guest_hpa regs a = (case find (covers a) regs of None \<Rightarrow> None
     | Some r \<Rightarrow> (case page_at r (unat ((a - gr_gpa_start r) div 0x1000)) of
         Some (Some page) \<Rightarrow> Some (page + word_of_nat (unat ((a - gr_gpa_start r) mod 0x1000)))
       | _ \<Rightarrow> None))"

primrec guest_write :: "guest_mem_region list \<Rightarrow> mem \<Rightarrow> u64 \<Rightarrow> u8 list \<Rightarrow> mem" where
  "guest_write regs m a [] = m"
| "guest_write regs m a (b # bs) = guest_write regs (m(the (guest_hpa regs a) := b)) (a + 1) bs"

definition guest_read :: "guest_mem_region list \<Rightarrow> mem \<Rightarrow> u64 \<Rightarrow> nat \<Rightarrow> u8 list" where
  "guest_read regs m a n = map (\<lambda>i. m (the (guest_hpa regs (a + word_of_nat i)))) [0..<n]"

text \<open>How many of the \<open>n\<close> bytes from \<open>a\<close> on are backed before the first hole.\<close>

primrec backed_run :: "guest_mem_region list \<Rightarrow> u64 \<Rightarrow> nat \<Rightarrow> nat" where
  "backed_run regs a 0 = 0"
| "backed_run regs a (Suc n) = (if guest_hpa regs a = None then 0 else Suc (backed_run regs (a + 1) n))"

text \<open>RAM regions as the allocator builds them: ranges do not overlap and each has a page slot
  for every 4 KiB of its size.\<close>

definition ram_ok :: "guest_mem_region list \<Rightarrow> bool" where
  "ram_ok regs \<longleftrightarrow>
     (\<forall>r\<in>set regs. \<forall>r'\<in>set regs. \<forall>a. covers a r \<and> covers a r' \<longrightarrow> r = r') \<and>
     (\<forall>r\<in>set regs. \<exists>ps. gr_pages r = Some ps \<and> unat (gr_size r) = 4096 * length ps)"

lemma find_covers:
  assumes "ram_ok regs" "r \<in> set regs" "covers a r"
  shows "find (covers a) regs = Some r"
proof (cases "find (covers a) regs")
  case None
  with assms show ?thesis by (auto simp: find_None_iff)
next
  case (Some r')
  then have "r' \<in> set regs" "covers a r'" by (auto simp: find_Some_iff)
  with assms Some show ?thesis unfolding ram_ok_def by metis
qed

lemma pick_region_ok:
  assumes "ram_ok regs" "set_option region \<subseteq> set regs"
  shows "pick_region regs region a = find (covers a) regs"
  using assms find_covers [OF assms(1)] by (auto simp: pick_region_def split: option.splits)

lemma unat_offset: "unat (x div 0x1000 :: u64) = unat x div 4096" "unat (x mod 0x1000 :: u64) = unat x mod 4096"
  by (simp_all add: unat_div unat_mod)

lemma page_at_covered:
  assumes "ram_ok regs" "r \<in> set regs" "covers a r"
  shows "page_at r (unat ((a - gr_gpa_start r) div 0x1000)) \<noteq> None"
proof -
  obtain ps where ps: "gr_pages r = Some ps" "unat (gr_size r) = 4096 * length ps"
    using assms by (auto simp: ram_ok_def)
  have "unat (a - gr_gpa_start r) div 4096 < length ps" using covers_offset(1) [OF assms(3)] ps(2) by simp
  with ps show ?thesis by (simp add: page_at_def unat_offset)
qed

lemma covers_advance:
  assumes "covers a r" "i < unat (gr_size r - (a - gr_gpa_start r))"
  shows "covers (a + word_of_nat i) r"
    and "unat (a + word_of_nat i - gr_gpa_start r) = unat (a - gr_gpa_start r) + i"
proof -
  note c = covers_offset [OF assms(1)]
  let ?s = "gr_gpa_start r" and ?n = "gr_size r" and ?o = "a - gr_gpa_start r"
  have le: "?o \<le> ?n" using c(1) by (simp add: word_le_nat_alt)
  have i: "unat ?o + i < unat ?n" using assms(2) le by (simp add: unat_sub)
  have b: "unat (?s + ?n) < 2 ^ 64" using unsigned_less [of "?s + ?n"] by simp
  have ia: "unat (a + word_of_nat i) = unat a + i"
    using i c b by (subst unat_plus_simple [THEN iffD1]) (auto simp: unat_word_of_nat_small word_le_nat_alt unat_word_ariths)
  show "covers (a + word_of_nat i) r"
    using i c ia by (simp add: covers_def word_le_nat_alt word_less_nat_alt)
  then show "unat (a + word_of_nat i - ?s) = unat ?o + i"
    using covers_offset(3,4) [of "a + word_of_nat i" r] c ia by simp
qed

lemma div_mod_step:
  assumes "(n :: nat) mod 4096 + i < 4096"
  shows "(n + i) div 4096 = n div 4096" "(n + i) mod 4096 = n mod 4096 + i"
proof -
  obtain q s where n: "n = 4096 * q + s" "s < 4096" by (metis mod_less_divisor mult_div_mod_eq zero_less_numeral)
  then have "s + i < 4096" using assms by simp
  with n show "(n + i) div 4096 = n div 4096" "(n + i) mod 4096 = n mod 4096 + i" by (simp_all add: add.assoc)
qed

text \<open>Within one page of a region the address map is an offset.\<close>

lemma guest_hpa_chunk:
  assumes ok: "ram_ok regs" and r: "r \<in> set regs" "covers a r"
    and pg: "page_at r (unat ((a - gr_gpa_start r) div 0x1000)) = Some (Some page)"
    and i: "i < 4096 - unat ((a - gr_gpa_start r) mod 0x1000)" "i < unat (gr_size r - (a - gr_gpa_start r))"
  shows "guest_hpa regs (a + word_of_nat i) =
    Some (page + word_of_nat (unat ((a - gr_gpa_start r) mod 0x1000)) + word_of_nat i)"
proof -
  note adv = covers_advance [OF r(2) i(2)]
  let ?o = "unat (a - gr_gpa_start r)"
  have m: "?o mod 4096 + i < 4096" using i(1) by (simp add: unat_offset)
  show ?thesis
    unfolding guest_hpa_def find_covers [OF ok r(1) adv(1)]
    using pg by (simp add: unat_offset adv(2) div_mod_step [OF m] add.assoc)
qed

lemma wr_bytes_Cons:
  assumes "length (b # bs) \<le> 2 ^ 64"
  shows "wr_bytes m x (b # bs) = wr_bytes (m(x := b)) (x + 1) bs"
proof
  fix y
  show "wr_bytes m x (b # bs) y = wr_bytes (m(x := b)) (x + 1) bs y"
  proof (cases "y = x")
    case True
    have "unat (x - (x + 1)) = 2 ^ 64 - 1" by (simp add: unsigned_minus_1_eq_mask mask_eq_exp_minus_1)
    with True assms show ?thesis by (simp add: wr_bytes_def)
  next
    case False
    then have n: "y - x \<noteq> 0" by simp
    have "unat (y - (x + 1)) = unat (y - x) - 1" using unat_minus_one [OF n] by (simp add: diff_diff_eq)
    moreover have "0 < unat (y - x)" using n by (simp add: unat_gt_0)
    moreover have "unat (y - x) < Suc (length bs) \<longleftrightarrow> unat (y - x) - 1 < length bs"
      using \<open>0 < unat (y - x)\<close> by auto
    ultimately show ?thesis using False by (simp add: wr_bytes_def nth_Cons')
  qed
qed

lemma guest_write_wr_bytes:
  assumes "\<And>i. i < length bs \<Longrightarrow> guest_hpa regs (a + word_of_nat i) = Some (x + word_of_nat i)"
    and "length bs \<le> 2 ^ 64"
  shows "guest_write regs m a bs = wr_bytes m x bs"
  using assms
proof (induction bs arbitrary: m a x)
  case (Cons b bs)
  have "guest_hpa regs a = Some x" using Cons.prems(1) [of 0] by simp
  moreover have "guest_hpa regs (a + 1 + word_of_nat i) = Some (x + 1 + word_of_nat i)" if "i < length bs" for i
    using Cons.prems(1) [of "Suc i"] that by (simp add: add.assoc)
  ultimately show ?case using Cons by (simp add: wr_bytes_Cons)
qed simp

lemma guest_write_append:
  "guest_write regs m a (xs @ ys) = guest_write regs (guest_write regs m a xs) (a + word_of_nat (length xs)) ys"
  by (induction xs arbitrary: m a) (simp_all add: add.assoc)

lemma backed_run_le: "backed_run regs a n \<le> n"
  by (induction n arbitrary: a) auto

lemma backed_run_add:
  "(\<And>i. i < m \<Longrightarrow> guest_hpa regs (a + word_of_nat i) \<noteq> None) \<Longrightarrow>
     backed_run regs a (m + n) = m + backed_run regs (a + word_of_nat m) n"
proof (induction m arbitrary: a)
  case (Suc m)
  have "guest_hpa regs a \<noteq> None" using Suc.prems [of 0] by simp
  moreover have "guest_hpa regs (a + 1 + word_of_nat i) \<noteq> None" if "i < m" for i
    using Suc.prems [of "Suc i"] that by (simp add: add.assoc)
  ultimately show ?case using Suc.IH [of "a + 1"] by (simp add: add.assoc)
qed simp

lemma backed_run_zero: "guest_hpa regs a = None \<Longrightarrow> backed_run regs a n = 0"
  by (cases n) auto

section \<open>The loops refine the byte-wise view\<close>

lemma guest_hpa_find_None: "find (covers a) regs = None \<Longrightarrow> guest_hpa regs a = None"
  by (simp add: guest_hpa_def)

text \<open>One iteration: either the address is not backed, or a chunk of one page is.\<close>

lemma region_cases:
  assumes ok: "ram_ok regs" and reg: "set_option region \<subseteq> set regs"
  obtains (none) "pick_region regs region a = None" "guest_hpa regs a = None"
  | (hole) r where "pick_region regs region a = Some r"
      "page_at r (unat ((a - gr_gpa_start r) div 0x1000)) = Some None" "guest_hpa regs a = None"
  | (page) r page where "pick_region regs region a = Some r" "r \<in> set regs" "covers a r"
      "page_at r (unat ((a - gr_gpa_start r) div 0x1000)) = Some (Some page)"
      "\<And>i. i < 4096 - unat ((a - gr_gpa_start r) mod 0x1000) \<Longrightarrow> i < unat (gr_size r - (a - gr_gpa_start r)) \<Longrightarrow>
         guest_hpa regs (a + word_of_nat i) = Some (page + word_of_nat (unat ((a - gr_gpa_start r) mod 0x1000)) + word_of_nat i)"
proof (cases "find (covers a) regs")
  case None
  with pick_region_ok [OF ok reg] show ?thesis by (intro none) (auto simp: guest_hpa_def)
next
  case (Some r)
  then have r: "r \<in> set regs" "covers a r" by (auto simp: find_Some_iff)
  have p: "pick_region regs region a = Some r" using Some pick_region_ok [OF ok reg] by simp
  obtain q where q: "page_at r (unat ((a - gr_gpa_start r) div 0x1000)) = Some q"
    using page_at_covered [OF ok r] by auto
  show ?thesis
  proof (cases q)
    case None
    with Some p q show ?thesis by (intro hole [of r]) (auto simp: guest_hpa_def)
  next
    case (Some page)
    with q guest_hpa_chunk [OF ok r, of page] show ?thesis by (intro page [OF p r, of page]) auto
  qed
qed

lemma copy_to_loop_spec:
  assumes "ram_ok regs" and "set_option region \<subseteq> set regs" and "copied \<le> length data"
    and "length data \<le> 2 ^ 64"
  shows "copy_to_loop regs data region a copied h =
    (let k = backed_run regs a (length data - copied) in
     (if copied + k = length data then Ret (Inr (c_int (length data))) else partial_result (copied + k),
      h\<lparr>pmem := guest_write regs (pmem h) a (take k (drop copied data))\<rparr>))"
  using assms
proof (induction regs data region a copied h rule: copy_to_loop.induct)
  case (1 regs data region a copied h)
  show ?case
  proof (cases "copied < length data")
    case False
    with "1.prems" have "copied = length data" by auto
    then show ?thesis by (simp add: copy_to_loop.simps)
  next
    case lt: True
    show ?thesis
    proof (rule region_cases [OF "1.prems"(1,2), of a], goal_cases)
      case 1
      with lt show ?case by (simp add: copy_to_loop.simps backed_run_zero)
    next
      case (2 r)
      with lt show ?case by (simp add: copy_to_loop.simps backed_run_zero Let_def)
    next
      case page: (3 r pg)
      define po where "po = unat ((a - gr_gpa_start r) mod 0x1000)"
      define n where "n = min (min (4096 - po) (length data - copied)) (unat (gr_size r - (a - gr_gpa_start r)))"
      let ?h = "h\<lparr>pmem := wr_bytes (pmem h) (pg + word_of_nat po) (take n (drop copied data))\<rparr>"
      have ch: "guest_hpa regs (a + word_of_nat i) = Some (pg + word_of_nat po + word_of_nat i)" if "i < n" for i
        using page(5) [of i] that by (simp add: n_def po_def)
      have IH: "copy_to_loop regs data (Some r) (a + word_of_nat n) (copied + n) ?h =
         (let k = backed_run regs (a + word_of_nat n) (length data - (copied + n)) in
          (if copied + n + k = length data then Ret (Inr (c_int (length data))) else partial_result (copied + n + k),
           ?h\<lparr>pmem := guest_write regs (pmem ?h) (a + word_of_nat n) (take k (drop (copied + n) data))\<rparr>))"
        using "1.prems" page lt by (intro "1.IH" [OF lt page(1) refl refl refl _ page(4) refl, unfolded po_def [symmetric]])
          (auto simp: n_def po_def)
      have st: "copy_to_loop regs data region a copied h = copy_to_loop regs data (Some r) (a + word_of_nat n) (copied + n) ?h"
        using lt page(1,4) by (subst copy_to_loop.simps) (simp add: Let_def n_def po_def)
      have k: "backed_run regs a (length data - copied) = n + backed_run regs (a + word_of_nat n) (length data - (copied + n))"
      proof -
        have "n + (length data - (copied + n)) = length data - copied" using lt by (simp add: n_def)
        then show ?thesis using backed_run_add [of n regs a "length data - (copied + n)"] ch by simp
      qed
      have w: "guest_write regs (pmem h) a (take n (drop copied data)) = wr_bytes (pmem h) (pg + word_of_nat po) (take n (drop copied data))"
        using ch "1.prems"(4) by (intro guest_write_wr_bytes) auto
      have len: "length (take n (drop copied data)) = n" using lt by (simp add: n_def)
      show ?case
        unfolding st IH k Let_def
        using guest_write_append [of regs "pmem h" a "take n (drop copied data)"] w len
        by (simp add: take_add add.assoc add.commute [of n copied])
    qed
  qed
qed

lemma guest_read_add:
  "guest_read regs m a (n + k) = guest_read regs m a n @ guest_read regs m (a + word_of_nat n) k"
  by (induction k) (simp_all add: guest_read_def add.assoc)

lemma guest_read_rd_bytes:
  assumes "\<And>i. i < n \<Longrightarrow> guest_hpa regs (a + word_of_nat i) = Some (x + word_of_nat i)"
  shows "guest_read regs m a n = rd_bytes m x n"
  using assms by (simp add: guest_read_def rd_bytes_def)

lemma length_guest_read [simp]: "length (guest_read regs m a n) = n"
  by (simp add: guest_read_def)

lemma copy_from_loop_spec:
  assumes "ram_ok regs" and "set_option region \<subseteq> set regs" and "copied \<le> sz" and "sz \<le> length dst"
  shows "copy_from_loop regs sz region a copied dst h =
    (let k = backed_run regs a (sz - copied) in
     (if copied + k = sz then Ret (Inr (c_int sz)) else partial_result (copied + k),
      take copied dst @ guest_read regs (pmem h) a k @ drop (copied + k) dst))"
  using assms
proof (induction regs sz region a copied dst h rule: copy_from_loop.induct)
  case (1 regs sz region a copied dst h)
  show ?case
  proof (cases "copied < sz")
    case False
    with "1.prems" have "copied = sz" by auto
    then show ?thesis by (simp add: copy_from_loop.simps guest_read_def)
  next
    case lt: True
    show ?thesis
    proof (rule region_cases [OF "1.prems"(1,2), of a], goal_cases)
      case 1
      with lt show ?case by (simp add: copy_from_loop.simps backed_run_zero guest_read_def)
    next
      case (2 r)
      with lt show ?case by (simp add: copy_from_loop.simps backed_run_zero Let_def guest_read_def)
    next
      case page: (3 r pg)
      define po where "po = unat ((a - gr_gpa_start r) mod 0x1000)"
      define n where "n = min (min (4096 - po) (sz - copied)) (unat (gr_size r - (a - gr_gpa_start r)))"
      let ?d = "take copied dst @ rd_bytes (pmem h) (pg + word_of_nat po) n @ drop (copied + n) dst"
      have ch: "guest_hpa regs (a + word_of_nat i) = Some (pg + word_of_nat po + word_of_nat i)" if "i < n" for i
        using page(5) [of i] that by (simp add: n_def po_def)
      have n: "copied + n \<le> sz" using lt by (simp add: n_def)
      have IH: "copy_from_loop regs sz (Some r) (a + word_of_nat n) (copied + n) ?d h =
         (let k = backed_run regs (a + word_of_nat n) (sz - (copied + n)) in
          (if copied + n + k = sz then Ret (Inr (c_int sz)) else partial_result (copied + n + k),
           take (copied + n) ?d @ guest_read regs (pmem h) (a + word_of_nat n) k @ drop (copied + n + k) ?d))"
        using "1.prems" page lt n by (intro "1.IH" [OF lt page(1) refl refl refl _ page(4) refl, unfolded po_def [symmetric]])
          (auto simp: n_def po_def)
      have st: "copy_from_loop regs sz region a copied dst h = copy_from_loop regs sz (Some r) (a + word_of_nat n) (copied + n) ?d h"
        using lt page(1,4) by (subst copy_from_loop.simps) (simp add: Let_def n_def po_def)
      have k: "backed_run regs a (sz - copied) = n + backed_run regs (a + word_of_nat n) (sz - (copied + n))"
      proof -
        have "n + (sz - (copied + n)) = sz - copied" using lt by (simp add: n_def)
        then show ?thesis using backed_run_add [of n regs a "sz - (copied + n)"] ch by simp
      qed
      have gr: "guest_read regs (pmem h) a n = rd_bytes (pmem h) (pg + word_of_nat po) n"
        by (rule guest_read_rd_bytes) (rule ch)
      have "copied + n \<le> length dst" using n "1.prems" by simp
      then show ?case
        unfolding st IH k Let_def guest_read_add gr by (auto simp: ac_simps)
    qed
  qed
qed

lemma page_room:
  assumes "ram_ok regs" "r \<in> set regs" "covers a r"
  shows "4096 - unat ((a - gr_gpa_start r) mod 0x1000) \<le> unat (gr_size r - (a - gr_gpa_start r))"
proof -
  from assms obtain ps :: "u64 option list" where ps: "unat (gr_size r) = 4096 * length ps"
    unfolding ram_ok_def by blast
  let ?o = "unat (a - gr_gpa_start r)"
  have o: "?o < 4096 * length ps" using covers_offset(1) [OF assms(3)] ps by simp
  then have "?o div 4096 < length ps" by simp
  then have "4096 * (?o div 4096) + 4096 \<le> 4096 * length ps" by simp
  moreover have "?o = 4096 * (?o div 4096) + ?o mod 4096" by simp
  moreover have "unat (gr_size r - (a - gr_gpa_start r)) = 4096 * length ps - ?o"
    using o ps by (simp add: unat_sub word_le_nat_alt)
  ultimately show ?thesis unfolding unat_offset by linarith
qed

lemma zero_loop_spec:
  assumes "ram_ok regs" and "set_option region \<subseteq> set regs" and "zeroed \<le> sz" and "sz \<le> 2 ^ 64"
  shows "zero_loop regs sz region a zeroed h =
    (let k = backed_run regs a (sz - zeroed) in
     (if zeroed + k = sz then Ret (Inr (c_int sz)) else partial_result (zeroed + k),
      h\<lparr>pmem := guest_write regs (pmem h) a (replicate k 0)\<rparr>))"
  using assms
proof (induction regs sz region a zeroed h rule: zero_loop.induct)
  case (1 regs sz region a zeroed h)
  show ?case
  proof (cases "zeroed < sz")
    case False
    with "1.prems" have "zeroed = sz" by auto
    then show ?thesis by (simp add: zero_loop.simps)
  next
    case lt: True
    show ?thesis
    proof (rule region_cases [OF "1.prems"(1,2), of a], goal_cases)
      case 1
      with lt show ?case by (simp add: zero_loop.simps backed_run_zero)
    next
      case (2 r)
      with lt show ?case by (simp add: zero_loop.simps backed_run_zero Let_def)
    next
      case page: (3 r pg)
      define po where "po = unat ((a - gr_gpa_start r) mod 0x1000)"
      define n where "n = min (4096 - po) (sz - zeroed)"
      let ?h = "h\<lparr>pmem := wr_bytes (pmem h) (pg + word_of_nat po) (replicate n 0)\<rparr>"
      have ch: "guest_hpa regs (a + word_of_nat i) = Some (pg + word_of_nat po + word_of_nat i)" if "i < n" for i
        using page(5) [of i] page_room [OF "1.prems"(1) page(2,3)] that by (simp add: n_def po_def)
      have n: "zeroed + n \<le> sz" using lt by (simp add: n_def)
      have IH: "zero_loop regs sz (Some r) (a + word_of_nat n) (zeroed + n) ?h =
         (let k = backed_run regs (a + word_of_nat n) (sz - (zeroed + n)) in
          (if zeroed + n + k = sz then Ret (Inr (c_int sz)) else partial_result (zeroed + n + k),
           ?h\<lparr>pmem := guest_write regs (pmem ?h) (a + word_of_nat n) (replicate k 0)\<rparr>))"
        using "1.prems" page lt n by (intro "1.IH" [OF lt page(1) refl refl refl _ page(4) refl, unfolded po_def [symmetric]])
          (auto simp: n_def po_def)
      have st: "zero_loop regs sz region a zeroed h = zero_loop regs sz (Some r) (a + word_of_nat n) (zeroed + n) ?h"
        using lt page(1,4) by (subst zero_loop.simps) (simp add: Let_def n_def po_def)
      have k: "backed_run regs a (sz - zeroed) = n + backed_run regs (a + word_of_nat n) (sz - (zeroed + n))"
      proof -
        have "n + (sz - (zeroed + n)) = sz - zeroed" using lt by (simp add: n_def)
        then show ?thesis using backed_run_add [of n regs a "sz - (zeroed + n)"] ch by simp
      qed
      have w: "guest_write regs (pmem h) a (replicate n 0) = wr_bytes (pmem h) (pg + word_of_nat po) (replicate n 0)"
        using ch "1.prems"(4) n by (intro guest_write_wr_bytes) auto
      show ?case
        unfolding st IH k Let_def
        using guest_write_append [of regs "pmem h" a "replicate n 0"] w
        by (simp add: replicate_add add.assoc add.commute [of n zeroed])
    qed
  qed
qed

text \<open>No frame backs two page slots, and frames are page aligned.\<close>

definition frames_ok :: "guest_mem_region list \<Rightarrow> bool" where
  "frames_ok regs \<longleftrightarrow>
     (\<forall>r\<in>set regs. \<forall>r'\<in>set regs. \<forall>i j f.
        page_at r i = Some (Some f) \<and> page_at r' j = Some (Some f) \<longrightarrow> r = r' \<and> i = j) \<and>
     (\<forall>r\<in>set regs. \<forall>i f. page_at r i = Some (Some f) \<longrightarrow> PAGE_ALIGNED f)"

lemma guest_hpa_page:
  assumes "guest_hpa regs a = Some x"
  obtains r p where "r \<in> set regs" "page_at r (unat ((a - gr_gpa_start r) div 0x1000)) = Some (Some p)"
    "x = p + word_of_nat (unat ((a - gr_gpa_start r) mod 0x1000))"
proof (cases "find (covers a) regs")
  case (Some r)
  then have "r \<in> set regs" by (auto simp: find_Some_iff)
  with Some assms that show ?thesis by (auto simp: guest_hpa_def split: option.splits)
qed (use assms in \<open>simp add: guest_hpa_def\<close>)

lemma guest_hpa_inj:
  assumes f: "frames_ok regs" and a: "guest_hpa regs a = Some x" and b: "guest_hpa regs b = Some x"
  shows "a = b"
proof -
  from guest_hpa_page [OF a] obtain r p where r: "r \<in> set regs"
      "page_at r (unat ((a - gr_gpa_start r) div 0x1000)) = Some (Some p)"
      "x = p + word_of_nat (unat ((a - gr_gpa_start r) mod 0x1000))" .
  from guest_hpa_page [OF b] obtain r' p' where r': "r' \<in> set regs"
      "page_at r' (unat ((b - gr_gpa_start r') div 0x1000)) = Some (Some p')"
      "x = p' + word_of_nat (unat ((b - gr_gpa_start r') mod 0x1000))" .
  have al: "PAGE_ALIGNED p" "PAGE_ALIGNED p'" using f r(1,2) r'(1,2) unfolding frames_ok_def by blast+
  have pb: "page_base (q + word_of_nat (unat (o1 mod 0x1000 :: u64))) = q" if "PAGE_ALIGNED q" for q o1
    using that page_offset_less [of o1] by (intro page_base_add) simp_all
  have "p = p'" using pb [OF al(1), of "a - gr_gpa_start r"] pb [OF al(2), of "b - gr_gpa_start r'"] r(3) r'(3) by simp
  with f r r' have e: "r = r'" "unat ((a - gr_gpa_start r) div 0x1000) = unat ((b - gr_gpa_start r') div 0x1000)"
    unfolding frames_ok_def by blast+
  have "(a - gr_gpa_start r) mod 0x1000 = (b - gr_gpa_start r') mod 0x1000" using r(3) r'(3) \<open>p = p'\<close> by simp
  moreover have "(a - gr_gpa_start r) div 0x1000 = (b - gr_gpa_start r') div 0x1000" using e(2) by (simp only: word_unat_eq_iff)
  ultimately have "a - gr_gpa_start r = b - gr_gpa_start r'" by (metis word_mod_div_equality)
  with e(1) show ?thesis by simp
qed

lemma guest_write_other:
  "(\<And>i. i < length bs \<Longrightarrow> the (guest_hpa regs (a + word_of_nat i)) \<noteq> y) \<Longrightarrow> guest_write regs m a bs y = m y"
proof (induction bs arbitrary: m a)
  case (Cons b bs)
  have "the (guest_hpa regs a) \<noteq> y" using Cons.prems [of 0] by simp
  moreover have "the (guest_hpa regs (a + 1 + word_of_nat i)) \<noteq> y" if "i < length bs" for i
    using Cons.prems [of "Suc i"] that by (simp add: add.assoc)
  ultimately show ?case using Cons.IH [of "a + 1"] by simp
qed simp

lemma word_of_nat_Suc_nonzero: "Suc i < 2 ^ 64 \<Longrightarrow> a + 1 + word_of_nat i \<noteq> (a :: u64)"
proof
  assume "Suc i < 2 ^ 64" "a + 1 + word_of_nat i = a"
  then have "(word_of_nat (Suc i) :: u64) = 0" by (simp add: add.assoc)
  then have "unat (word_of_nat (Suc i) :: u64) = 0" by simp
  then show False using \<open>Suc i < 2 ^ 64\<close> unat_word_of_nat_small [of "Suc i"] by simp
qed

lemma guest_write_at:
  assumes f: "frames_ok regs"
  shows "length bs \<le> 2 ^ 64 \<Longrightarrow> (\<And>i. i < length bs \<Longrightarrow> guest_hpa regs (a + word_of_nat i) \<noteq> None) \<Longrightarrow> i < length bs \<Longrightarrow>
    guest_write regs m a bs (the (guest_hpa regs (a + word_of_nat i))) = bs ! i"
proof (induction bs arbitrary: m a i)
  case (Cons b bs)
  have bk: "guest_hpa regs (a + 1 + word_of_nat j) \<noteq> None" if "j < length bs" for j
    using Cons.prems(2) [of "Suc j"] that by (simp add: add.assoc)
  show ?case
  proof (cases i)
    case 0
    have "the (guest_hpa regs (a + 1 + word_of_nat j)) \<noteq> the (guest_hpa regs a)" if j: "j < length bs" for j
    proof
      assume "the (guest_hpa regs (a + 1 + word_of_nat j)) = the (guest_hpa regs a)"
      moreover have "guest_hpa regs a \<noteq> None" using Cons.prems(2) [of 0] by simp
      ultimately have "a + 1 + word_of_nat j = a" using bk [OF j] guest_hpa_inj [OF f] by (metis option.collapse)
      with word_of_nat_Suc_nonzero [of j a] j Cons.prems(1) show False by simp
    qed
    from guest_write_other [OF this, where m = "m(the (guest_hpa regs a) := b)"] 0 show ?thesis by simp
  next
    case (Suc j)
    with Cons.IH [of "a + 1" j] Cons.prems bk show ?thesis by (simp add: add.assoc)
  qed
qed simp

lemma backed_run_full:
  "(\<And>i. i < n \<Longrightarrow> guest_hpa regs (a + word_of_nat i) \<noteq> None) \<Longrightarrow> backed_run regs a n = n"
  using backed_run_add [of n regs a 0] by simp

section \<open>Properties of the copies\<close>

text \<open>(C18) The page-chunked copy into the guest does what a byte-wise copy does: it writes the longest
  prefix of the buffer whose guest addresses are backed, across page and region boundaries,
  returns its length, and reports \<open>-EFAULT\<close> without writing when the first byte has no page.\<close>

theorem copy_to_guest_bytewise:
  assumes "ram_ok (mem_regions mm)" and "data \<noteq> []" and "length data < 2 ^ 31"
    and "k = backed_run (mem_regions mm) gpa (length data)"
  shows "relm_vm_copy_to_guest (Some mm) gpa (Some data) h =
    (Ret (if k = 0 then Inl EFAULT else Inr (int k)),
     h\<lparr>pmem := guest_write (mem_regions mm) (pmem h) gpa (take k data)\<rparr>)"
proof -
  have "k \<le> length data" using assms(4) backed_run_le by simp
  then have "c_int k = int k" "c_int (length data) = int (length data)"
    using assms(3) by (auto intro!: c_int_small)
  then show ?thesis
    using copy_to_loop_spec [OF assms(1), of None 0 data gpa h] assms
    by (simp add: relm_vm_copy_to_guest_def partial_result_def Let_def)
qed

definition demo_mm :: relm_vm_memory where
  "demo_mm = \<lparr>mem_regions = [\<lparr>gr_gpa_start = 0, gr_size = 0x2000, gr_pages = Some [Some 0x5000, Some 0x9000],
      gr_nr_pages = 2, gr_flags = 7\<rparr>], total_guest_ram = 0x2000, mmio_regions = replicate 8 \<lparr>mr_gpa_start = 0, mr_size = 0, mr_name = []\<rparr>,
      mmio_region_count = 0\<rparr>"

lemma demo_mm_ok: "ram_ok (mem_regions demo_mm)" "frames_ok (mem_regions demo_mm)"
  by (auto simp: ram_ok_def frames_ok_def demo_mm_def page_at_def PAGE_ALIGNED_def less_2_cases_iff nth_Cons'
      split: if_splits)

lemma demo_mm_backed: "guest_hpa (mem_regions demo_mm) 0xFFF = Some 0x5FFF" "guest_hpa (mem_regions demo_mm) 0x1000 = Some 0x9000"
  "guest_hpa (mem_regions demo_mm) 0x2000 = None" "guest_hpa (mem_regions demo_mm) 0x1FFF = Some 0x9FFF"
  by (simp_all add: guest_hpa_def demo_mm_def covers_def page_at_def)

theorem copy_to_guest_bytewise_witness:
  "fst (relm_vm_copy_to_guest (Some demo_mm) 0x1FFF (Some [7, 8]) demo_host) = Ret (Inr 1)"
  using copy_to_guest_bytewise [OF demo_mm_ok(1), of "[7, 8]" 1 "0x1FFF" demo_host]
  by (simp add: demo_mm_backed)

text \<open>What is copied into guest memory is read back unchanged, when the range is backed and
  no frame backs two guest pages.\<close>

theorem copy_round_trip:
  assumes "ram_ok (mem_regions mm)" and "frames_ok (mem_regions mm)" and "data \<noteq> []" and "length data < 2 ^ 31"
    and "\<forall>i<length data. guest_hpa (mem_regions mm) (gpa + word_of_nat i) \<noteq> None"
    and "relm_vm_copy_to_guest (Some mm) gpa (Some data) h = (res, h')" and "length buf = length data"
  shows "res = Ret (Inr (int (length data))) \<and>
    relm_vm_copy_from_guest (Some mm) gpa (Some buf) (length data) h' = (Ret (Inr (int (length data))), Some data)"
proof -
  let ?regs = "mem_regions mm" and ?n = "length data"
  have k: "backed_run ?regs gpa ?n = ?n" using assms(5) by (intro backed_run_full) auto
  have ci: "c_int ?n = int ?n" using assms(4) by (rule c_int_small)
  have to: "res = Ret (Inr (int ?n))" "h' = h\<lparr>pmem := guest_write ?regs (pmem h) gpa data\<rparr>"
    using copy_to_loop_spec [OF assms(1), of None 0 data gpa h] assms(3,4,6) k ci
    by (auto simp: relm_vm_copy_to_guest_def)
  have rd: "guest_read ?regs (pmem h') gpa ?n = data"
    using guest_write_at [OF assms(2), of data gpa _ "pmem h"] assms(4,5) to(2)
    by (intro nth_equalityI) (auto simp: guest_read_def)
  have "copy_from_loop ?regs ?n None gpa 0 buf h' = (Ret (Inr (int ?n)), data)"
    using copy_from_loop_spec [OF assms(1), of None 0 ?n buf gpa h'] assms(7) k ci rd by simp
  then show ?thesis using to(1) assms(3) by (simp add: relm_vm_copy_from_guest_def)
qed

theorem copy_round_trip_witness:
  "relm_vm_copy_from_guest (Some demo_mm) 0xFFF (Some [0, 0]) 2
     (snd (relm_vm_copy_to_guest (Some demo_mm) 0xFFF (Some [7, 8]) demo_host)) = (Ret (Inr 2), Some [7, 8])"
proof -
  have "\<forall>i<length [7, 8 :: u8]. guest_hpa (mem_regions demo_mm) (0xFFF + word_of_nat i) \<noteq> None"
    by (auto simp: less_Suc_eq demo_mm_backed)
  then show ?thesis
  using copy_round_trip [OF demo_mm_ok, of "[7, 8]" "0xFFF" demo_host
      "fst (relm_vm_copy_to_guest (Some demo_mm) 0xFFF (Some [7, 8]) demo_host)"
      "snd (relm_vm_copy_to_guest (Some demo_mm) 0xFFF (Some [7, 8]) demo_host)" "[0, 0]"]
    by (simp flip: numeral_2_eq_2)
qed

text \<open>Zeroing clears exactly the backed prefix of the range and nothing else, although its loop
  does not clip at the end of a region.\<close>

theorem zero_guest_exact:
  assumes "ram_ok (mem_regions mm)" and "frames_ok (mem_regions mm)" and "0 < sz" and "sz < 2 ^ 31"
    and "relm_vm_zero_guest_memory (Some mm) gpa sz h = (res, h')"
    and "k = backed_run (mem_regions mm) gpa sz"
  shows "res = Ret (if k = 0 then Inl EFAULT else Inr (int k)) \<and>
    pmem h' = guest_write (mem_regions mm) (pmem h) gpa (replicate k 0) \<and> pool h' = pool h"
proof -
  have "k \<le> sz" using assms(6) backed_run_le by simp
  then have "c_int k = int k" "c_int sz = int sz" using assms(4) by (auto intro!: c_int_small)
  then show ?thesis
    using zero_loop_spec [OF assms(1), of None 0 sz gpa h] assms(3-)
    by (auto simp: relm_vm_zero_guest_memory_def partial_result_def Let_def)
qed

lemma backed_run_2: "backed_run regs a 2 =
    (if guest_hpa regs a = None then 0 else if guest_hpa regs (a + 1) = None then 1 else 2)"
  by (simp add: numeral_2_eq_2)

theorem zero_guest_exact_witness:
  "fst (relm_vm_zero_guest_memory (Some demo_mm) 0x1FFF 2 demo_host) = Ret (Inr 1)"
  using zero_guest_exact [OF demo_mm_ok, of 2 "0x1FFF" demo_host "fst (relm_vm_zero_guest_memory (Some demo_mm) 0x1FFF 2 demo_host)"
      "snd (relm_vm_zero_guest_memory (Some demo_mm) 0x1FFF 2 demo_host)" 1]
  by (simp add: backed_run_2 demo_mm_backed)

section \<open>Allocation of guest RAM over a back end\<close>

text \<open>What the allocation relies on beyond the page operations: the back end keeps its tables in frames
  apart from the free pool, takes new ones only from there, and writes nowhere else.\<close>

locale guest_backend = mem_ops map_page unmap_page entry key ent inv
  for map_page :: "u64 \<Rightarrow> u64 \<Rightarrow> u64 \<Rightarrow> 'c \<times> host \<Rightarrow> unit res \<times> 'c \<times> host"
    and unmap_page :: "u64 \<Rightarrow> 'c \<times> host \<Rightarrow> 'c \<times> host"
    and entry :: "'c \<times> host \<Rightarrow> u64 \<Rightarrow> u64 option" and key :: "u64 \<Rightarrow> 'k" and ent :: "u64 \<Rightarrow> u64 \<Rightarrow> u64"
    and inv :: "'c \<times> host \<Rightarrow> bool" +
  fixes tabs :: "'c \<times> host \<Rightarrow> u64 set"
  assumes inv_host: "inv s \<Longrightarrow> host_ok (snd s) \<and> tabs s \<inter> set (pool (snd s)) = {}"
    and take_page: "inv (c, h) \<Longrightarrow> pool h = f # fs \<Longrightarrow>
      inv (c, h\<lparr>pool := fs, pmem := zero_page (pmem h) f\<rparr>) \<and>
      tabs (c, h\<lparr>pool := fs, pmem := zero_page (pmem h) f\<rparr>) = tabs (c, h) \<and>
      entry (c, h\<lparr>pool := fs, pmem := zero_page (pmem h) f\<rparr>) g = entry (c, h) g"
    and kmem_inv: "inv (c, h\<lparr>kmem := bs\<rparr>) \<longleftrightarrow> inv (c, h)"
    and kmem_entry: "entry (c, h\<lparr>kmem := bs\<rparr>) g = entry (c, h) g"
    and free_entry: "entry (c, free_page f h) g = entry (c, h) g"
    and map_frames: "inv s \<Longrightarrow> map_page gpa hpa flags s = (res, s') \<Longrightarrow>
      tabs s' \<union> set (pool (snd s')) = tabs s \<union> set (pool (snd s)) \<and> tabs s \<subseteq> tabs s' \<and>
      (\<forall>x. page_base x \<notin> tabs s' \<longrightarrow> pmem (snd s') x = pmem (snd s) x)"
begin

lemma alloc_pages_success:
  assumes "alloc_ram_pages map_page k i g0 fl pages s = (None, pages', s')" "inv s"
  shows "\<exists>new. pages' = pages @ new \<and> length new = k \<and> distinct new \<and> inv s' \<and>
    set new \<union> tabs s' \<union> set (pool (snd s')) = tabs s \<union> set (pool (snd s)) \<and>
    set new \<inter> (tabs s' \<union> set (pool (snd s'))) = {} \<and> set new \<subseteq> set (pool (snd s)) \<and> tabs s \<subseteq> tabs s' \<and>
    (\<forall>x. page_base x \<in> set new \<longrightarrow> pmem (snd s') x = 0) \<and>
    (\<forall>x. page_base x \<notin> tabs s \<union> set (pool (snd s)) \<longrightarrow> pmem (snd s') x = pmem (snd s) x) \<and>
    (\<forall>g. (\<forall>j<k. key g \<noteq> key (g0 + (i + word_of_nat j) * 0x1000)) \<longrightarrow> entry s' g = entry s g) \<and>
    (inj_on (\<lambda>j. key (g0 + (i + word_of_nat j) * 0x1000)) {..<k} \<longrightarrow>
      (\<forall>j<k. \<forall>g. key g = key (g0 + (i + word_of_nat j) * 0x1000) \<longrightarrow> entry s' g = Some (ent (new ! j) fl)))"
  using assms
proof (induction k arbitrary: i pages s)
  case 0
  then show ?case by auto
next
  case (Suc k)
  obtain c h where s: "s = (c, h)" by force
  from Suc.prems(1) obtain f fs where p: "pool h = f # fs" unfolding s by (cases "pool h") auto
  define h1 where "h1 = h\<lparr>pool := fs, pmem := zero_page (pmem h) f\<rparr>"
  obtain res s1 where m: "map_page (g0 + i * 0x1000) f fl (c, h1) = (res, s1)" by (metis surj_pair)
  with Suc.prems(1) p have res: "res = Inr ()" and
    rec: "alloc_ram_pages map_page k (i + 1) g0 fl (pages @ [f]) s1 = (None, pages', s')"
    unfolding s h1_def by (auto split: sum.splits)
  have inv0: "inv (c, h)" using Suc.prems(2) s by simp
  note tp = take_page [OF inv0 p, folded h1_def]
  have inv1: "inv (c, h1)" "tabs (c, h1) = tabs s" "\<And>g. entry (c, h1) g = entry s g" using tp s by auto
  have inv2: "inv s1" using map_inv [OF inv1(1) m] .
  note mf = map_frames [OF inv1(1) m]
  have fh: "f \<notin> tabs s" "f \<notin> set fs" using inv_host [OF inv0] p s by (auto simp: host_ok_def)
  have pool1: "set (pool (snd (c, h1))) = set fs" by (simp add: h1_def)
  have un1: "tabs s1 \<union> set (pool (snd s1)) = tabs s \<union> set fs" using mf inv1(2) pool1 by simp
  have f1: "f \<notin> tabs s1 \<union> set (pool (snd s1))" using un1 fh by simp
  have mfx: "pmem (snd s1) x = pmem h1 x" if "page_base x \<notin> tabs s1" for x using mf that by auto
  from Suc.IH [OF rec inv2] obtain new where new: "pages' = (pages @ [f]) @ new" "length new = k" "distinct new" "inv s'"
    "set new \<union> tabs s' \<union> set (pool (snd s')) = tabs s1 \<union> set (pool (snd s1))"
    "set new \<inter> (tabs s' \<union> set (pool (snd s'))) = {}" "set new \<subseteq> set (pool (snd s1))" "tabs s1 \<subseteq> tabs s'"
    "\<forall>x. page_base x \<in> set new \<longrightarrow> pmem (snd s') x = 0"
    "\<forall>x. page_base x \<notin> tabs s1 \<union> set (pool (snd s1)) \<longrightarrow> pmem (snd s') x = pmem (snd s1) x"
    and old: "\<forall>g. (\<forall>j<k. key g \<noteq> key (g0 + (i + 1 + word_of_nat j) * 0x1000)) \<longrightarrow> entry s' g = entry s1 g"
    and ents: "inj_on (\<lambda>j. key (g0 + (i + 1 + word_of_nat j) * 0x1000)) {..<k} \<longrightarrow>
      (\<forall>j<k. \<forall>g. key g = key (g0 + (i + 1 + word_of_nat j) * 0x1000) \<longrightarrow> entry s' g = Some (ent (new ! j) fl))"
    by blast
  have e1: "entry s1 g = (if key g = key (g0 + i * 0x1000) then Some (ent f fl) else entry s g)" for g
    using map_entry [OF inv1(1) m, of g] res inv1(3) by simp
  have fnew: "f \<notin> set new" using f1 new(7) by auto
  have z: "pmem (snd s') x = 0" if "page_base x = f" for x
  proof -
    have "pmem (snd s') x = pmem (snd s1) x" using new(10) f1 that by simp
    also have "\<dots> = pmem h1 x" using mfx [of x] f1 that by blast
    also have "\<dots> = 0" using that by (simp add: h1_def zero_page_def)
    finally show ?thesis .
  qed
  have out: "pmem (snd s') x = pmem (snd s) x" if "page_base x \<notin> tabs s \<union> set (pool (snd s))" for x
  proof -
    have nx: "page_base x \<notin> tabs s1 \<union> set (pool (snd s1))" "page_base x \<noteq> f"
      using that un1 p s by auto
    then have "pmem (snd s') x = pmem h1 x" using new(10) mfx [of x] by auto
    with nx show ?thesis by (simp add: h1_def zero_page_def s)
  qed
  define kk where "kk j = key (g0 + (i + word_of_nat j) * 0x1000)" for j
  have kk: "key (g0 + (i + 1 + word_of_nat j) * 0x1000) = kk (Suc j)" "key (g0 + i * 0x1000) = kk 0" for j
    unfolding kk_def by (simp_all add: algebra_simps)
  note old = old [unfolded kk] and ents = ents [unfolded kk] and e1 = e1 [unfolded kk]
  have olds: "entry s' g = entry s g" if "\<forall>j<Suc k. key g \<noteq> kk j" for g
    using that old e1 [of g] by simp
  have entss: "entry s' g = Some (ent ((f # new) ! j) fl)"
    if inj: "inj_on kk {..<Suc k}" and j: "j < Suc k" and kg: "key g = kk j" for g j
  proof (cases j)
    case 0
    have "key g \<noteq> kk (Suc l)" if "l < k" for l
      using inj_onD [OF inj, of 0 "Suc l"] kg 0 that by auto
    then have "entry s' g = entry s1 g" using old by simp
    with e1 [of g] kg 0 show ?thesis by simp
  next
    case (Suc l)
    have "inj_on (\<lambda>j. kk (Suc j)) {..<k}" by (rule inj_onI) (use inj_onD [OF inj, of "Suc _" "Suc _"] in auto)
    with ents kg Suc j show ?thesis by simp
  qed
  show ?case
    unfolding kk_def [symmetric]
  proof (intro exI [of _ "f # new"] conjI allI impI)
    show "set (f # new) \<union> tabs s' \<union> set (pool (snd s')) = tabs s \<union> set (pool (snd s))"
      using new(5) un1 p s by auto
    show "set (f # new) \<inter> (tabs s' \<union> set (pool (snd s'))) = {}"
      using new(5,6) f1 by auto
    show "set (f # new) \<subseteq> set (pool (snd s))"
    proof
      fix y assume y: "y \<in> set (f # new)"
      show "y \<in> set (pool (snd s))"
      proof (cases "y = f")
        case False
        then have "y \<in> set (pool (snd s1))" "y \<in> set new" using y new(7) by auto
        moreover have "y \<notin> tabs s1" using \<open>y \<in> set new\<close> new(6,8) by auto
        ultimately show ?thesis using un1 mf inv1(2) p s by auto
      qed (use p s in auto)
    qed
    show "tabs s \<subseteq> tabs s'" using mf inv1(2) new(8) by auto
  qed (use new fnew z out olds entss in auto)
qed

text \<open>Success or not, the pages recorded so far are mapped.\<close>

lemma alloc_pages_entries:
  assumes "alloc_ram_pages map_page k i g0 fl pages s = (e, pages', s')" "inv s"
    and "inj_on (\<lambda>j. key (g0 + (i + word_of_nat j) * 0x1000)) {..<k}"
  shows "\<exists>new. pages' = pages @ new \<and> length new \<le> k \<and>
    (\<forall>g. (\<forall>j<k. key g \<noteq> key (g0 + (i + word_of_nat j) * 0x1000)) \<longrightarrow> entry s' g = entry s g) \<and>
    (\<forall>j<length new. entry s' (g0 + (i + word_of_nat j) * 0x1000) = Some (ent (new ! j) fl))"
  using assms
proof (induction k arbitrary: i pages s)
  case 0
  then show ?case by auto
next
  case (Suc k)
  obtain c h where s: "s = (c, h)" by force
  show ?case
  proof (cases "pool h")
    case Nil
    with Suc.prems s show ?thesis by (intro exI [of _ "[]"]) auto
  next
    case p: (Cons f fs)
    define h1 where "h1 = h\<lparr>pool := fs, pmem := zero_page (pmem h) f\<rparr>"
    define kk where "kk j = key (g0 + (i + word_of_nat j) * 0x1000)" for j
    obtain res s1 where m: "map_page (g0 + i * 0x1000) f fl (c, h1) = (res, s1)" by (metis surj_pair)
    have inv1: "inv (c, h1)" "\<And>g. entry (c, h1) g = entry s g"
      using take_page [OF _ p, of c, folded h1_def] Suc.prems(2) s by auto
    have kk0: "key (g0 + i * 0x1000) = kk 0" by (simp add: kk_def)
    have e1: "entry s1 g = (if res = Inr () \<and> key g = kk 0 then Some (ent f fl) else entry s g)" for g
      using map_entry [OF inv1(1) m, of g] inv1(2) kk0 by simp
    show ?thesis
    proof (cases res)
      case (Inl er)
      then have "pages' = pages" "s' = (fst s1, free_page f (snd s1))"
        using Suc.prems(1) s p m by (auto simp: h1_def)
      with e1 Inl show ?thesis by (intro exI [of _ "[]"]) (simp add: free_entry)
    next
      case (Inr u)
      then have rec: "alloc_ram_pages map_page k (i + 1) g0 fl (pages @ [f]) s1 = (e, pages', s')"
        using Suc.prems(1) s p m by (auto simp: h1_def)
      have sh: "g0 + (i + 1 + word_of_nat j) * 0x1000 = g0 + (i + word_of_nat (Suc j)) * 0x1000" for j
        by (simp add: algebra_simps)
      have inj: "inj_on kk {..<Suc k}" using Suc.prems(3) unfolding kk_def .
      have inj': "inj_on (\<lambda>j. key (g0 + (i + 1 + word_of_nat j) * 0x1000)) {..<k}"
        unfolding sh kk_def [symmetric] by (rule inj_onI) (use inj_onD [OF inj, of "Suc _" "Suc _"] in auto)
      from Suc.IH [OF rec map_inv [OF inv1(1) m] inj', unfolded sh, folded kk_def] obtain new where
        new: "pages' = (pages @ [f]) @ new" "length new \<le> k"
        "\<forall>g. (\<forall>j<k. key g \<noteq> kk (Suc j)) \<longrightarrow> entry s' g = entry s1 g"
        "\<forall>j<length new. entry s' (g0 + (i + word_of_nat (Suc j)) * 0x1000) = Some (ent (new ! j) fl)"
        by blast
      have "kk 0 \<noteq> kk (Suc l)" if "l < k" for l using inj_onD [OF inj, of 0 "Suc l"] that by auto
      then have f0: "entry s' (g0 + i * 0x1000) = Some (ent f fl)" using new(3) e1 [of "g0 + i * 0x1000"] Inr kk0 by simp
      show ?thesis
        unfolding kk_def [symmetric]
      proof (intro exI [of _ "f # new"] conjI allI impI)
        fix g assume "\<forall>j<Suc k. key g \<noteq> kk j"
        then show "entry s' g = entry s g" using new(3) e1 [of g] by simp
      next
        fix j assume "j < length (f # new)"
        then show "entry s' (g0 + (i + word_of_nat j) * 0x1000) = Some (ent ((f # new) ! j) fl)"
          using new(4) f0 by (cases j) auto
      qed (use new in auto)
    qed
  qed
qed

end

section \<open>The VMX back end\<close>

definition ept_tabs :: "ept_context option \<times> host \<Rightarrow> u64 set" where
  "ept_tabs s = (case s of (Some ept, h) \<Rightarrow> (case pml4 ept of Some r \<Rightarrow> ept_tables (pmem h) r | None \<Rightarrow> {}) | _ \<Rightarrow> {})"

lemma tree_take_page:
  assumes ok: "tree_ok P A L D r h" and p: "pool h = f # fs" and D: "0 < D"
    and h1: "h1 = h\<lparr>pool := fs, pmem := zero_page (pmem h) f\<rparr>"
  shows "tree_ok P A L D r h1" "tables P A D (pmem h1) r = tables P A D (pmem h) r"
    "path_ok q \<Longrightarrow> length q = D \<Longrightarrow> leaf P A (pmem h1) r q = leaf P A (pmem h) r q"
proof -
  have wf: "radix_wf P A D (pmem h) r (set (pool h))" and hk: "host_ok h" using ok by (simp_all add: tree_ok_def)
  have nt: "f \<notin> tables P A D (pmem h) r" using wf p by (auto simp: radix_wf_def)
  note same = zero_page_same [OF wf _ _ nt]
  have w: "walk P A (pmem h1) r q = walk P A (pmem h) r q" if "path_ok q" "length q < D" for q
    unfolding h1 using walk_agree [OF wf same, of q] that by simp
  show "tables P A D (pmem h1) r = tables P A D (pmem h) r" by (rule tables_agree) (rule w)
  show "tree_ok P A L D r h1"
    using radix_wf_agree [OF wf w, of "set fs"] plain_agree [OF _ wf same, of L] ok hk p
    by (auto simp: tree_ok_def host_ok_def h1)
  show "leaf P A (pmem h1) r q = leaf P A (pmem h) r q" if "path_ok q" "length q = D"
    unfolding h1 using leaf_agree [OF wf same that D] by simp
qed

lemma ept_take_page:
  assumes ok: "ept_ok ept h" and p: "pool h = f # fs" and r: "pml4 ept = Some r"
    and h1: "h1 = h\<lparr>pool := fs, pmem := zero_page (pmem h) f\<rparr>"
  shows "ept_ok ept h1" "ept_tables (pmem h1) r = ept_tables (pmem h) r" "ept_entry ept h1 g = ept_entry ept h g"
proof -
  have tr: "ept_tree r h" using ok by (simp add: ept_ok_iff [OF r])
  note t = tree_take_page [OF tr p _ h1, simplified]
  have "ept_mapped (pmem h1) r = ept_mapped (pmem h) r" using t(3) by (auto simp: ept_mapped_def)
  then show "ept_ok ept h1" using ok t(1) by (simp add: ept_ok_iff [OF r])
  show "ept_tables (pmem h1) r = ept_tables (pmem h) r" by (rule t(2))
  show "ept_entry ept h1 g = ept_entry ept h g" using t(3) [of "ept_path g"] by (simp add: ept_entry_Some [OF r])
qed

lemma ept_state_cases:
  assumes "ept_state_ok s"
  obtains ept h r where "s = (Some ept, h)" "ept_ok ept h" "pml4 ept = Some r" "ept_tabs s = ept_tables (pmem h) r"
  using assms by (auto simp: ept_state_ok_def ept_tabs_def ept_ok_def split: prod.splits option.splits)

interpretation vmx_guest: guest_backend vmx_map_op vmx_unmap_op ept_state_entry ept_path ept_mem_entry ept_state_ok ept_tabs
proof unfold_locales
  fix s :: "ept_context option \<times> host" assume "ept_state_ok s"
  then show "host_ok (snd s) \<and> ept_tabs s \<inter> set (pool (snd s)) = {}"
  proof (cases rule: ept_state_cases)
    case (1 ept h r)
    then show ?thesis by (auto simp: ept_ok_iff tree_ok_def radix_wf_def)
  qed
next
  fix c :: "ept_context option" and h f fs g
  assume "ept_state_ok (c, h)" and p: "pool h = f # fs"
  then show "ept_state_ok (c, h\<lparr>pool := fs, pmem := zero_page (pmem h) f\<rparr>) \<and>
      ept_tabs (c, h\<lparr>pool := fs, pmem := zero_page (pmem h) f\<rparr>) = ept_tabs (c, h) \<and>
      ept_state_entry (c, h\<lparr>pool := fs, pmem := zero_page (pmem h) f\<rparr>) g = ept_state_entry (c, h) g"
  proof (cases rule: ept_state_cases)
    case (1 ept h' r)
    with ept_take_page [OF 1(2) _ 1(3) refl] p show ?thesis
      by (auto simp: ept_state_ok_def ept_tabs_def ept_state_entry_def)
  qed
next
  fix c :: "ept_context option" and h bs g
  show "ept_state_ok (c, h\<lparr>kmem := bs\<rparr>) = ept_state_ok (c, h)"
    by (cases c) (simp_all add: ept_state_ok_def ept_ok_def tree_ok_def host_ok_def)
  show "ept_state_entry (c, h\<lparr>kmem := bs\<rparr>) g = ept_state_entry (c, h) g"
    by (cases c) (simp_all add: ept_state_entry_def ept_entry_def split: option.split)
  fix f :: u64
  show "ept_state_entry (c, free_page f h) g = ept_state_entry (c, h) g"
    by (cases c) (simp_all add: ept_state_entry_def ept_entry_def free_page_def split: option.split)
next
  fix s gpa hpa flags res s'
  assume "ept_state_ok s" and m: "vmx_map_op gpa hpa flags s = (res, s')"
  then show "ept_tabs s' \<union> set (pool (snd s')) = ept_tabs s \<union> set (pool (snd s)) \<and> ept_tabs s \<subseteq> ept_tabs s' \<and>
      (\<forall>x. page_base x \<notin> ept_tabs s' \<longrightarrow> pmem (snd s') x = pmem (snd s) x)"
  proof (cases rule: ept_state_cases)
    case (1 ept h r)
    obtain ctx' h' where s': "s' = (ctx', h')" by force
    with m 1 have mm: "relm_ept_map_page gpa hpa (ept_flags_of flags) (Some ept) h = (res, ctx', h')"
      by (simp add: vmx_map_op_def vmx_mem_map_page_def)
    obtain ept' where "ctx' = Some ept'" "pml4 ept' = Some r"
      "tree_frames ept_present ept_addr 4 r h' = tree_frames ept_present ept_addr 4 r h"
      "ept_tables (pmem h) r \<subseteq> ept_tables (pmem h') r"
      "\<forall>x. page_base x \<notin> ept_tables (pmem h') r \<longrightarrow> pmem h' x = pmem h x"
      using ept_map_page_spec [OF 1(2) mm] 1(3) by auto
    with 1 s' show ?thesis by (simp add: ept_tabs_def tree_frames_def)
  qed
qed

lemma page_number:
  assumes "PAGE_ALIGNED g"
  shows "unat (take_bit 36 (drop_bit 12 (g + word_of_nat j * 0x1000))) = take_bit 36 (unat g div 4096 + j)"
proof -
  have m: "unat g mod 4096 = 0"
  proof -
    have "unat (take_bit 12 g) = 0" using assms by (simp add: PAGE_ALIGNED_iff)
    then show ?thesis by (simp only: unsigned_take_bit_eq) (simp add: take_bit_eq_mod)
  qed
  have "unat (g + word_of_nat j * 0x1000) = take_bit 64 (unat g + j * 4096)"
    by (simp add: unat_word_ariths unat_of_nat take_bit_eq_mod mod_simps)
  then have "unat (take_bit 36 (drop_bit 12 (g + word_of_nat j * 0x1000))) = take_bit 36 (drop_bit 12 (take_bit 64 (unat g + j * 4096)))"
    by (simp only: unsigned_take_bit_eq unsigned_drop_bit_eq) (simp add: unsigned_drop_bit_eq)
  also have "\<dots> = take_bit 36 (drop_bit 12 (unat g + j * 4096))" by (simp add: drop_bit_take_bit)
  also have "drop_bit 12 (unat g + j * 4096) = unat g div 4096 + j" using m by (simp add: drop_bit_eq_div)
  finally show ?thesis .
qed

lemma page_keys_inj:
  assumes "PAGE_ALIGNED g" "n \<le> 2 ^ 36"
  shows "inj_on (\<lambda>j. ept_path (g + (0 + word_of_nat j) * 0x1000)) {..<n}"
proof (rule inj_onI)
  fix i j assume ij: "i \<in> {..<n}" "j \<in> {..<n}" and "ept_path (g + (0 + word_of_nat i) * 0x1000) = ept_path (g + (0 + word_of_nat j) * 0x1000)"
  then have "take_bit 36 (unat g div 4096 + i) = take_bit 36 (unat g div 4096 + j)"
    unfolding ept_path_eq_iff by (metis add_0 page_number [OF assms(1)])
  then have "(word_of_nat (unat g div 4096 + i) :: 36 word) = word_of_nat (unat g div 4096 + j)"
    by (simp only: word_of_nat_eq_iff) simp
  then have "(word_of_nat i :: 36 word) = word_of_nat j" by (simp only: of_nat_add add_left_cancel)
  then have "take_bit 36 i = take_bit 36 j" by (simp only: word_of_nat_eq_iff) simp
  then show "i = j" using ij assms(2) by (simp add: take_bit_nat_eq_self_iff take_bit_eq_mod)
qed

lemma word_div_mod_4096: "(x :: u64) = word_of_nat (unat (x div 0x1000)) * 0x1000 + x mod 0x1000"
  using word_mod_div_equality [of x "0x1000"] by (simp add: mult.commute)

lemma ept_mem_entry_ram: "frame_ok f \<Longrightarrow> ept_addr (ept_mem_entry f 7) = f"
  unfolding ept_mem_entry_def by (rule ept_addr_new_entry) (simp_all add: ept_flags_of_def Let_def)

lemma PAGE_ALIGNED_unat: "PAGE_ALIGNED x \<longleftrightarrow> unat x mod 4096 = 0"
proof -
  have "take_bit 12 x = 0 \<longleftrightarrow> unat (take_bit 12 x) = 0" by (simp only: unat_eq_zero)
  then show ?thesis by (simp only: PAGE_ALIGNED_iff unsigned_take_bit_eq) (simp add: take_bit_eq_mod)
qed

lemma page_align_unat: "unat (PAGE_ALIGN n) mod 4096 = 0"
proof -
  have "PAGE_ALIGN n = push_bit 12 (drop_bit 12 (n + 0xFFF))"
    using page_base_drop [of "n + 0xFFF"] by (simp add: PAGE_ALIGN_def page_base_def)
  then have "take_bit 12 (PAGE_ALIGN n) = 0" by (simp only: take_bit_push_bit) simp
  then show ?thesis by (simp only: PAGE_ALIGNED_iff flip: PAGE_ALIGNED_unat)
qed

lemma aligned_page_plus:
  assumes "PAGE_ALIGNED g"
  shows "PAGE_ALIGNED (g + y * 0x1000)"
proof -
  have "unat (g + y * 0x1000) mod 4096 = (unat g + unat y * 4096) mod 4096"
    by (simp add: unat_word_ariths mod_mod_cancel mod_simps)
  with assms show ?thesis by (simp add: PAGE_ALIGNED_unat)
qed

lemma allocate_guest_ram_cases:
  assumes "relm_vm_allocate_guest_ram mp sz g0 (Some mm) (c, h) = (Inr (), vm', s')"
  obtains bs pages where "alloc_ram_pages mp (unat (PAGE_ALIGN sz div 0x1000)) 0 g0 7 [] (c, h\<lparr>kmem := bs\<rparr>) = (None, pages, s')"
    "vm' = Some (mm\<lparr>mem_regions := \<lparr>gr_gpa_start = g0, gr_size = PAGE_ALIGN sz, gr_pages = Some (map Some pages),
        gr_nr_pages = PAGE_ALIGN sz div 0x1000, gr_flags = 7\<rparr> # mem_regions mm,
        total_guest_ram := total_guest_ram mm + PAGE_ALIGN sz\<rparr>)"
proof -
  have k: "\<exists>bs. snd (kzalloc x) = x\<lparr>kmem := bs\<rparr>" for x by (cases "kmem x") (auto simp: kzalloc_def intro: exI [of _ "kmem x"])
  obtain b1 h1 b2 h2 where kz: "kzalloc h = (b1, h1)" "kzalloc h1 = (b2, h2)" by (metis surj_pair)
  then obtain bs where h2: "h2 = h\<lparr>kmem := bs\<rparr>" using k [of h] k [of h1] by auto
  obtain e pages s'' where al: "alloc_ram_pages mp (unat (PAGE_ALIGN sz div 0x1000)) 0 g0 7 [] (c, h2) = (e, pages, s'')"
    by (metis surj_pair)
  from assms kz h2 al show ?thesis
    by (intro that [of bs pages]) (auto simp: relm_vm_allocate_guest_ram_def Let_def split: if_splits option.splits prod.splits)
qed

section \<open>Properties of guest RAM\<close>

text \<open>A back end whose pages are the 4 KiB pages of a 48-bit guest address space. What allocation
  promises of guest RAM is proved once for all of them.\<close>

locale paged_backend = guest_backend map_page unmap_page entry key ent inv tabs
  for map_page :: "u64 \<Rightarrow> u64 \<Rightarrow> u64 \<Rightarrow> 'c \<times> host \<Rightarrow> unit res \<times> 'c \<times> host"
    and unmap_page :: "u64 \<Rightarrow> 'c \<times> host \<Rightarrow> 'c \<times> host"
    and entry :: "'c \<times> host \<Rightarrow> u64 \<Rightarrow> u64 option" and key :: "u64 \<Rightarrow> 'k" and ent :: "u64 \<Rightarrow> u64 \<Rightarrow> u64"
    and inv :: "'c \<times> host \<Rightarrow> bool" and tabs :: "'c \<times> host \<Rightarrow> u64 set" +
  assumes key_iff: "key g = key g' \<longleftrightarrow> take_bit 36 (drop_bit 12 g) = take_bit 36 (drop_bit 12 g')"
begin

lemma key_path: "key g = key g' \<longleftrightarrow> ept_path g = ept_path g'"
  by (simp add: key_iff ept_path_eq_iff)

lemma keys_inj:
  assumes "PAGE_ALIGNED g" "n \<le> 2 ^ 36"
  shows "inj_on (\<lambda>j. key (g + (0 + word_of_nat j) * 0x1000)) {..<n}"
  using page_keys_inj [OF assms] by (simp add: inj_on_def key_path)

lemma ram_views:
  assumes ok: "inv (ctx, h)" and al: "PAGE_ALIGNED g0" and sz: "PAGE_ALIGN sz \<le> 2 ^ 48"
    and run: "relm_vm_allocate_guest_ram map_page sz g0 (Some mm) (ctx, h) = (Inr (), Some mm', (ctx', h'))"
    and a: "g0 \<le> a" "a < g0 + PAGE_ALIGN sz"
  obtains f d where "frame_ok f" "unat d < 4096" "EPT_PAGE_OFFSET a = d"
    "guest_hpa (mem_regions mm') a = Some (f + d)" "entry (ctx', h') a = Some (ent f 7)"
    "pmem h' (f + d) = 0" "inv (ctx', h')"
proof -
  let ?n = "unat (PAGE_ALIGN sz div 0x1000)"
  from run obtain bs pages where
    alloc: "alloc_ram_pages map_page ?n 0 g0 7 [] (ctx, h\<lparr>kmem := bs\<rparr>) = (None, pages, (ctx', h'))" and
    mm': "mem_regions mm' = \<lparr>gr_gpa_start = g0, gr_size = PAGE_ALIGN sz, gr_pages = Some (map Some pages),
        gr_nr_pages = PAGE_ALIGN sz div 0x1000, gr_flags = 7\<rparr> # mem_regions mm" (is "_ = ?r # _")
    by (rule allocate_guest_ram_cases) simp
  have i: "inv (ctx, h\<lparr>kmem := bs\<rparr>)" using ok by (simp add: kmem_inv)
  have n: "?n \<le> 2 ^ 36" using sz by (simp add: unat_offset word_le_nat_alt)
  from alloc_pages_success [OF alloc i] keys_inj [OF al n] obtain new where
    new: "pages = new" "length new = ?n" "inv (ctx', h')" "set new \<subseteq> set (pool h)"
      "\<forall>x. page_base x \<in> set new \<longrightarrow> pmem h' x = 0" and
    ents: "\<And>j g. j < ?n \<Longrightarrow> key g = key (g0 + (0 + word_of_nat j) * 0x1000) \<Longrightarrow>
        entry (ctx', h') g = Some (ent (new ! j) 7)"
    by auto
  define j where "j = unat ((a - g0) div 0x1000)"
  define d where "d = (a - g0) mod 0x1000"
  have cov: "covers a ?r" using a by (simp add: covers_def)
  have j: "j < ?n" using covers_offset(1) [OF cov] page_align_unat [of sz]
    by (simp add: j_def unat_offset) (metis dvd_div_mult_self less_mult_imp_div_less mod_eq_0_iff_dvd mult.commute)
  have d: "unat d < 4096" unfolding d_def by (rule page_offset_less)
  have aj: "a = g0 + (0 + word_of_nat j) * 0x1000 + d"
    using word_div_mod_4096 [of "a - g0"] by (simp add: j_def d_def algebra_simps)
  note off = ept_path_offset [OF aligned_page_plus [OF al] d, folded aj]
  have "new ! j \<in> set new" using new(2) j by simp
  then have fr: "frame_ok (new ! j)" "new ! j \<in> set new"
    using new(4) inv_host [OF ok] by (auto simp: host_ok_def)
  show ?thesis
  proof (rule that)
    show "entry (ctx', h') a = Some (ent (new ! j) 7)"
      by (rule ents [OF j]) (use aj off(1) in \<open>simp only: key_path\<close>)
    show "guest_hpa (mem_regions mm') a = Some (new ! j + d)"
      unfolding mm' guest_hpa_def using cov j new(1,2) by (simp add: page_at_def flip: j_def d_def)
    show "pmem h' (new ! j + d) = 0"
      using new(5) fr page_base_add [OF frame_ok_aligned [OF fr(1)] d] by simp
    show "EPT_PAGE_OFFSET a = d" using aj off(2) by metis
  qed (use fr d new(3) in auto)
qed

end

interpretation vmx_paged: paged_backend vmx_map_op vmx_unmap_op ept_state_entry ept_path ept_mem_entry ept_state_ok ept_tabs
  by unfold_locales (rule ept_path_eq_iff)

text \<open>(C1) The two views of guest RAM agree: after a successful allocation, every byte of the region has the
  same host address through the software tables of the copy routines as through the extended page
  tables the processor walks, and it reads as zero.\<close>

theorem guest_ram_views_agree:
  assumes ok: "ept_state_ok (ctx, h)" and al: "PAGE_ALIGNED g0" and sz: "PAGE_ALIGN sz \<le> 2 ^ 48"
    and run: "relm_vm_allocate_guest_ram vmx_map_op sz g0 (Some mm) (ctx, h) = (Inr (), Some mm', (ctx', h'))"
    and a: "g0 \<le> a" "a < g0 + PAGE_ALIGN sz"
  shows "\<exists>x. guest_hpa (mem_regions mm') a = Some x \<and> relm_ept_get_mapping a ctx' h' = Inr x \<and> pmem h' x = 0"
proof -
  obtain f d where v: "frame_ok f" "unat d < 4096" "EPT_PAGE_OFFSET a = d"
    "guest_hpa (mem_regions mm') a = Some (f + d)" "ept_state_entry (ctx', h') a = Some (ept_mem_entry f 7)"
    "pmem h' (f + d) = 0" "ept_state_ok (ctx', h')"
    by (rule vmx_paged.ram_views [OF assms])
  from v(7) obtain ept' r where c: "ctx' = Some ept'" "pml4 ept' = Some r"
    by (cases rule: ept_state_cases) auto
  have "relm_ept_get_mapping a ctx' h' = Inr (f + d)"
    using v c page_offset_or [OF v(1,2)] ept_mem_entry_ram [OF v(1)]
    by (simp add: get_mapping_entry ept_state_entry_def)
  with v show ?thesis by blast
qed

definition demo_state :: "ept_context option \<times> host" where
  "demo_state = (Some demo_ept, demo_host1\<lparr>kmem := [True, True]\<rparr>)"

lemma demo_state_ok: "ept_state_ok demo_state"
  using demo_ept_ok vmx_guest.kmem_inv [where c = "Some demo_ept" and h = demo_host1 and bs = "[True, True]"]
  by (simp add: demo_state_def ept_state_ok_def)

lemma demo_first_page:
  "\<exists>s'. vmx_map_op 0 0x2000 7 (Some demo_ept,
     demo_host1\<lparr>kmem := [], pool := [0x3000, 0x4000, 0x5000], pmem := zero_page (pmem demo_host1) 0x2000\<rparr>) = (Inr (), s')"
  unfolding vmx_map_op_def vmx_mem_map_page_def fst_conv snd_conv
  using ept_map_page_succeeds [of demo_ept "0x1000" 0 "0x2000" "ept_flags_of 7"
      "demo_host1\<lparr>kmem := [], pool := [0x3000, 0x4000, 0x5000], pmem := zero_page (pmem demo_host1) 0x2000\<rparr>"]
  by (auto simp: demo_ept_def PAGE_ALIGNED_def ept_flags_of_def)

lemma demo_allocate:
  "\<exists>mm' ctx' h'. relm_vm_allocate_guest_ram vmx_map_op 0x1000 0 (Some mmio_empty) demo_state = (Inr (), Some mm', (ctx', h'))"
proof -
  obtain s' where "vmx_map_op 0 0x2000 7 (Some demo_ept,
     demo_host1\<lparr>kmem := [], pool := [0x3000, 0x4000, 0x5000], pmem := zero_page (pmem demo_host1) 0x2000\<rparr>) = (Inr (), s')"
    using demo_first_page by blast
  then show ?thesis
    by (cases s') (simp add: relm_vm_allocate_guest_ram_def demo_state_def kzalloc_def demo_host1_def PAGE_ALIGN_def Let_def)
qed

theorem guest_ram_views_agree_witness:
  "\<exists>mm' ctx' h' x. relm_vm_allocate_guest_ram vmx_map_op 0x1000 0 (Some mmio_empty) demo_state = (Inr (), Some mm', (ctx', h')) \<and>
     guest_hpa (mem_regions mm') 0x10 = Some x \<and> relm_ept_get_mapping 0x10 ctx' h' = Inr x"
proof -
  obtain mm' ctx' h' where m: "relm_vm_allocate_guest_ram vmx_map_op 0x1000 0 (Some mmio_empty) demo_state = (Inr (), Some mm', (ctx', h'))"
    using demo_allocate by blast
  have ok: "ept_state_ok (fst demo_state, snd demo_state)" using demo_state_ok by simp
  from guest_ram_views_agree [OF ok, of 0 "0x1000" mmio_empty mm' ctx' h' "0x10"] m show ?thesis
    by (auto simp: PAGE_ALIGNED_def PAGE_ALIGN_def)
qed

lemma pool_fold_free: "pool (fold free_page fs h) = pool h @ fs" "pmem (fold free_page fs h) = pmem h"
  by (induction fs arbitrary: h) (simp_all add: free_page_def)

text \<open>When the allocation of guest RAM fails half-way, the cleanup path returns the backing pages to the
  page allocator but leaves them mapped for the guest: here a five-page request on a host with four
  free frames fails with an error, frame \<open>0x2000\<close> is free again, and guest address 0 still translates
  to it.\<close>

theorem failed_alloc_leaves_mapping:
  "\<exists>e ctx' h'. relm_vm_allocate_guest_ram vmx_map_op 0x5000 0 (Some mmio_empty) demo_state = (Inl e, Some mmio_empty, (ctx', h')) \<and>
     0x2000 \<in> set (pool h') \<and> relm_ept_get_mapping 0 ctx' h' = Inr 0x2000"
proof -
  let ?h0 = "demo_host1\<lparr>kmem := []\<rparr>"
  let ?h1 = "demo_host1\<lparr>kmem := [], pool := [0x3000, 0x4000, 0x5000], pmem := zero_page (pmem demo_host1) 0x2000\<rparr>"
  have ok: "ept_state_ok (Some demo_ept, ?h0)"
    using demo_ept_ok by (simp add: vmx_guest.kmem_inv) (simp add: ept_state_ok_def)
  obtain s1 where m: "vmx_map_op 0 0x2000 7 (Some demo_ept, ?h1) = (Inr (), s1)" using demo_first_page by blast
  obtain e pages ctx' h' where al: "alloc_ram_pages vmx_map_op 5 0 0 7 [] (Some demo_ept, ?h0) = (e, pages, (ctx', h'))"
    by (metis surj_pair)
  have inj: "inj_on (\<lambda>j. ept_path (0 + (0 + word_of_nat j) * 0x1000)) {..<5}"
    by (rule page_keys_inj) (simp_all add: PAGE_ALIGNED_def)
  have st: "alloc_ram_pages vmx_map_op 5 0 0 7 [] (Some demo_ept, ?h0) = alloc_ram_pages vmx_map_op 4 1 0 7 [0x2000] s1"
    using m by (simp add: numeral_eq_Suc demo_host1_def)
  have e: "e \<noteq> None"
  proof
    assume "e = None"
    then obtain new where "length new = 5" "distinct new" "set new \<subseteq> set (pool ?h0)"
      using vmx_guest.alloc_pages_success [OF al [unfolded \<open>e = None\<close>] ok] by auto
    then have "card (set new) = 5" "card (set new) \<le> card (set (pool ?h0))"
      by (simp add: distinct_card, intro card_mono) auto
    then show False by (simp add: demo_host1_def)
  qed
  have inv1: "ept_state_ok s1"
    using vmx_ops.map_inv [OF _ m] vmx_guest.take_page [OF ok, of "0x2000" "[0x3000, 0x4000, 0x5000]"]
    by (simp add: demo_host1_def)
  from vmx_guest.alloc_pages_entries [OF al [unfolded st] inv1] page_keys_inj [of "0x1000" 4]
  obtain new where p: "pages = 0x2000 # new" by (auto simp: PAGE_ALIGNED_def algebra_simps)
  from vmx_guest.alloc_pages_entries [OF al ok inj] p
  have en: "ept_state_entry (ctx', h') 0 = Some (ept_mem_entry 0x2000 7)" by auto
  then obtain ept' r where c: "ctx' = Some ept'" "pml4 ept' = Some r"
    by (auto simp: ept_state_entry_def ept_entry_def split: option.splits)
  obtain e' where e': "e = Some e'" using e by auto
  have run: "relm_vm_allocate_guest_ram vmx_map_op 0x5000 0 (Some mmio_empty) demo_state =
      (Inl e', Some mmio_empty, (ctx', fold free_page (rev pages) h'))"
    using al e' by (simp add: relm_vm_allocate_guest_ram_def demo_state_def kzalloc_def PAGE_ALIGN_def Let_def)
  have "ept_addr (ept_mem_entry 0x2000 7) = 0x2000" by (rule ept_mem_entry_ram) (simp add: frame_ok_def PAGE_ALIGNED_def)
  then have "relm_ept_get_mapping 0 ctx' (fold free_page (rev pages) h') = Inr 0x2000"
    using en c by (simp add: get_mapping_entry ept_state_entry_def ept_entry_Some pool_fold_free EPT_PAGE_OFFSET_def)
  moreover have "0x2000 \<in> set (pool (fold free_page (rev pages) h'))" using p by (simp only: pool_fold_free) simp
  ultimately show ?thesis using run by blast
qed

lemma map_mmio_pages_fail:
  assumes "map_mmio_pages k i gpa hpa fl s = (Some (e, i'), s')" "ept_state_ok s"
  shows "ept_state_ok s' \<and> i \<le> i' \<and> i' < i + k \<and>
    (\<forall>g. (\<forall>j. i \<le> j \<and> j < i' \<longrightarrow> ept_path g \<noteq> ept_path (gpa + word_of_nat j * 0x1000)) \<longrightarrow>
       ept_state_entry s' g = ept_state_entry s g)"
  using assms
proof (induction k arbitrary: i s)
  case (Suc k)
  obtain res s1 where m: "vmx_map_op (gpa + word_of_nat i * 0x1000) (hpa + word_of_nat i * 0x1000) fl s = (res, s1)" by (metis surj_pair)
  note m' = m [unfolded vmx_map_op_def]
  have inv1: "ept_state_ok s1" by (rule vmx_ops.map_inv [OF Suc.prems(2) m])
  note e1 = vmx_ops.map_entry [OF Suc.prems(2) m]
  show ?case
  proof (cases res)
    case (Inl er)
    then have "i' = i" "s' = s1" using Suc.prems(1) m' by auto
    with inv1 e1 Inl show ?thesis by simp
  next
    case (Inr u)
    then have "map_mmio_pages k (i + 1) gpa hpa fl s1 = (Some (e, i'), s')" using Suc.prems(1) m' by simp
    from Suc.IH [OF this inv1] have "ept_state_ok s'" "i + 1 \<le> i'" "i' < i + 1 + k" and
      r: "\<And>g. (\<forall>j. i + 1 \<le> j \<and> j < i' \<longrightarrow> ept_path g \<noteq> ept_path (gpa + word_of_nat j * 0x1000)) \<Longrightarrow>
        ept_state_entry s' g = ept_state_entry s1 g" by auto
    then show ?thesis using e1 by simp
  qed
qed simp

lemma unmap_mmio_pages_entry:
  "ept_state_ok s \<Longrightarrow> ept_state_entry (unmap_mmio_pages i gpa s) g =
     (if \<exists>j<i. ept_path g = ept_path (gpa + word_of_nat j * 0x1000) then None else ept_state_entry s g)"
proof (induction i arbitrary: s)
  case (Suc i)
  let ?u = "snd (relm_ept_unmap_page (gpa + word_of_nat i * 0x1000) (fst s) (snd s))"
  have u: "?u = vmx_unmap_op (gpa + word_of_nat i * 0x1000) s" by (simp add: vmx_unmap_op_def vmx_mem_unmap_page_def)
  from Suc.IH [of ?u] Suc.prems show ?case
    unfolding unmap_mmio_pages.simps u
    by (auto simp: vmx_ops.unmap_inv vmx_ops.unmap_entry less_Suc_eq)
qed simp

text \<open>A passthrough mapping that fails part-way is rolled back: the region is not recorded, no page of
  the window is left mapped by the call, and every other translation is unchanged.\<close>

theorem map_mmio_rollback:
  assumes "ept_state_ok s" and "relm_vm_map_mmio_region gpa hpa sz (Some mm) s = (Inl e, vm', s')"
  shows "vm' = Some mm \<and> (ept_state_entry s' g = ept_state_entry s g \<or>
    ept_state_entry s' g = None \<and> (\<exists>j<unat (sz div 0x1000). ept_path g = ept_path (gpa + word_of_nat j * 0x1000)))"
proof -
  obtain ok h where k: "kzalloc (snd s) = (ok, h)" by force
  have "h = snd (kzalloc (snd s))" using k by simp
  then obtain bs where h: "h = snd s\<lparr>kmem := bs\<rparr>"
    by (cases "kmem (snd s)") (auto simp: kzalloc_def intro: that [of "kmem (snd s)"])
  have ok0: "ept_state_ok (fst s, h)" "\<And>g. ept_state_entry (fst s, h) g = ept_state_entry s g"
    using assms(1) unfolding h by (simp_all add: vmx_guest.kmem_inv vmx_guest.kmem_entry)
  show ?thesis
  proof (cases "fst s \<noteq> None \<and> sz \<noteq> 0 \<and> gpa AND 0xFFF = 0 \<and> hpa AND 0xFFF = 0 \<and> sz AND 0xFFF = 0 \<and> ok")
    case False
    then have "vm' = Some mm \<and> (s' = s \<or> s' = (fst s, h))"
      using assms(2) k by (auto simp: relm_vm_map_mmio_region_def split: if_splits)
    with ok0 show ?thesis by auto
  next
    case True
    then obtain er i s1 where f: "map_mmio_pages (unat (sz div 0x1000)) 0 gpa hpa 0xB (fst s, h) = (Some (er, i), s1)"
        "s' = unmap_mmio_pages i gpa s1" "vm' = Some mm"
      using assms(2) k by (auto simp: relm_vm_map_mmio_region_def Let_def split: option.splits prod.splits)
    note mf = map_mmio_pages_fail [OF f(1) ok0(1)]
    then have "ept_state_entry s1 g = ept_state_entry s g" if "\<forall>j<i. ept_path g \<noteq> ept_path (gpa + word_of_nat j * 0x1000)"
      using that ok0(2) by simp
    with mf f(2,3) show ?thesis by (auto simp: unmap_mmio_pages_entry intro: less_trans)
  qed
qed

theorem map_mmio_rollback_witness:
  "relm_vm_map_mmio_region 0x1001 0 0x1000 (Some mmio_empty) demo_state = (Inl EINVAL, Some mmio_empty, demo_state) \<and>
     ept_state_entry demo_state 0 = ept_state_entry demo_state 0"
proof -
  have "relm_vm_map_mmio_region 0x1001 0 0x1000 (Some mmio_empty) demo_state = (Inl EINVAL, Some mmio_empty, demo_state)"
    by (simp add: relm_vm_map_mmio_region_def demo_state_def)
  with map_mmio_rollback [OF demo_state_ok this] show ?thesis by simp
qed

end
