(* ===== verification/Relm_Mmu.thy ===== *)
theory Relm_Mmu
  imports Relm_Guest_Mem
begin

text \<open>
  The software walker of guest page tables (src/arch/x86/vmx/mmu.c): the three paging modes, the
  translation of an instruction pointer to a linear address and page-wise reads at guest-virtual
  addresses; and the identity-mapping page tables the hypervisor builds inside guest RAM
  (\<open>relm_ept_create_guest_page_tables\<close>, src/arch/x86/vmx/ept.c). The VMCS fields the walker reads
  are a record. The main theorem connects the two: the walker, run on the tables that are
  built, maps every address below 1 GiB to itself.
\<close>

section \<open>The walker\<close>

record guest_ctl =
  GUEST_CR0 :: u64
  GUEST_CR3 :: u64
  GUEST_CR4 :: u64
  GUEST_IA32_EFER :: u64
  GUEST_CS_AR_BYTES :: u64
  GUEST_CS_BASE :: u64

abbreviation (input) PTE_PRESENT :: u64 where "PTE_PRESENT \<equiv> 0x1"
abbreviation (input) PTE_PS :: u64 where "PTE_PS \<equiv> 0x80"
abbreviation (input) PTE_ADDR_MASK :: u64 where "PTE_ADDR_MASK \<equiv> 0x000FFFFFFFFFF000"

text \<open>A result, or \<open>None\<close> when a host pointer is invalid. A read of an entry goes to a zeroed
  64-bit variable; a negative count is the only failure it sees.\<close>

definition mmu_read_entry :: "relm_vm_memory option \<Rightarrow> host \<Rightarrow> u64 \<Rightarrow> nat \<Rightarrow> u64 res option" where
  "mmu_read_entry vm h entry_gpa sz =
     (case relm_vm_copy_from_guest vm entry_gpa (Some (replicate 8 0)) sz h of
        (Fault, _) \<Rightarrow> None
      | (Ret (Inl e), _) \<Rightarrow> Some (Inl EFAULT)
      | (Ret (Inr n), val) \<Rightarrow> if n < 0 then Some (Inl EFAULT) else Some (Inr (le_word (the val))))"

text \<open>The loop over the levels 4 to 1, called with the level still to be read.\<close>

fun mmu_walk_levels :: "relm_vm_memory option \<Rightarrow> host \<Rightarrow> u64 \<Rightarrow> nat \<Rightarrow> u64 \<Rightarrow> u64 res option" where
  "mmu_walk_levels vm h gva 0 table = Some (Inl EFAULT)"
| "mmu_walk_levels vm h gva (Suc l) table =
     (let shift = 12 + 9 * l; index = drop_bit shift gva AND 0x1FF in
      case mmu_read_entry vm h (table + index * 8) 8 of
        None \<Rightarrow> None
      | Some (Inl e) \<Rightarrow> Some (Inl e)
      | Some (Inr entry) \<Rightarrow>
          if entry AND PTE_PRESENT = 0 then Some (Inl EFAULT)
          else if Suc l > 1 \<and> entry AND PTE_PS \<noteq> 0 then
            (let page_mask = push_bit shift 1 - 1 in
             if Suc l = 4 then Some (Inl EFAULT)
             else Some (Inr ((entry AND PTE_ADDR_MASK AND NOT page_mask) OR (gva AND page_mask))))
          else if Suc l = 1 then Some (Inr ((entry AND PTE_ADDR_MASK) OR (gva AND 0xFFF)))
          else mmu_walk_levels vm h gva l (entry AND PTE_ADDR_MASK))"

definition mmu_walk_long :: "relm_vm_memory option \<Rightarrow> host \<Rightarrow> guest_ctl \<Rightarrow> u64 \<Rightarrow> u64 res option" where
  "mmu_walk_long vm h ctl gva = mmu_walk_levels vm h gva 4 (GUEST_CR3 ctl AND PTE_ADDR_MASK)"

definition mmu_walk_pae :: "relm_vm_memory option \<Rightarrow> host \<Rightarrow> guest_ctl \<Rightarrow> u64 \<Rightarrow> u64 res option" where
  "mmu_walk_pae vm h ctl gva =
     (let pdpt = GUEST_CR3 ctl AND 0xFFFFFFE0 in
      case mmu_read_entry vm h (pdpt + (drop_bit 30 gva AND 0x3) * 8) 8 of
        None \<Rightarrow> None
      | Some (Inl e) \<Rightarrow> Some (Inl e)
      | Some (Inr pdpte) \<Rightarrow>
        if pdpte AND PTE_PRESENT = 0 then Some (Inl EFAULT)
        else case mmu_read_entry vm h ((pdpte AND PTE_ADDR_MASK) + (drop_bit 21 gva AND 0x1FF) * 8) 8 of
          None \<Rightarrow> None
        | Some (Inl e) \<Rightarrow> Some (Inl e)
        | Some (Inr pde) \<Rightarrow>
          if pde AND PTE_PRESENT = 0 then Some (Inl EFAULT)
          else if pde AND PTE_PS \<noteq> 0
          then Some (Inr ((pde AND PTE_ADDR_MASK AND NOT 0x1FFFFF) OR (gva AND 0x1FFFFF)))
          else case mmu_read_entry vm h ((pde AND PTE_ADDR_MASK) + (drop_bit 12 gva AND 0x1FF) * 8) 8 of
            None \<Rightarrow> None
          | Some (Inl e) \<Rightarrow> Some (Inl e)
          | Some (Inr pte) \<Rightarrow>
            if pte AND PTE_PRESENT = 0 then Some (Inl EFAULT)
            else Some (Inr ((pte AND PTE_ADDR_MASK) OR (gva AND 0xFFF))))"

definition mmu_walk_legacy :: "relm_vm_memory option \<Rightarrow> host \<Rightarrow> guest_ctl \<Rightarrow> u64 \<Rightarrow> u64 res option" where
  "mmu_walk_legacy vm h ctl gva =
     (let pd = GUEST_CR3 ctl AND 0xFFFFF000 in
      case mmu_read_entry vm h (pd + (drop_bit 22 gva AND 0x3FF) * 4) 4 of
        None \<Rightarrow> None
      | Some (Inl e) \<Rightarrow> Some (Inl e)
      | Some (Inr pde) \<Rightarrow>
        if pde AND PTE_PRESENT = 0 then Some (Inl EFAULT)
        else if GUEST_CR4 ctl AND 0x10 \<noteq> 0 \<and> pde AND PTE_PS \<noteq> 0
        then Some (Inr ((pde AND 0xFFC00000) OR (gva AND 0x3FFFFF)))
        else case mmu_read_entry vm h ((pde AND 0xFFFFF000) + (drop_bit 12 gva AND 0x3FF) * 4) 4 of
          None \<Rightarrow> None
        | Some (Inl e) \<Rightarrow> Some (Inl e)
        | Some (Inr pte) \<Rightarrow>
          if pte AND PTE_PRESENT = 0 then Some (Inl EFAULT)
          else Some (Inr ((pte AND 0xFFFFF000) OR (gva AND 0xFFF))))"

definition relm_mmu_rip_to_linear :: "guest_ctl \<Rightarrow> u64 \<Rightarrow> u64" where
  "relm_mmu_rip_to_linear ctl rip =
     (if GUEST_IA32_EFER ctl AND 0x400 \<noteq> 0 \<and> GUEST_CS_AR_BYTES ctl AND 0x2000 \<noteq> 0 then rip
      else (GUEST_CS_BASE ctl + rip) * 0xFFFFFFFF)"

definition relm_mmu_gva_to_gpa :: "relm_vm_memory option \<Rightarrow> host \<Rightarrow> guest_ctl \<Rightarrow> u64 \<Rightarrow> u64 res option" where
  "relm_mmu_gva_to_gpa vm h ctl gva =
     (if GUEST_CR0 ctl AND 0x80000000 = 0 then Some (Inr gva)
      else if GUEST_IA32_EFER ctl AND 0x400 \<noteq> 0 then
        (if GUEST_CR4 ctl AND 0x1000 \<noteq> 0 then Some (Inl EINVAL) else mmu_walk_long vm h ctl gva)
      else let gva = gva AND 0xFFFFFFFF in
        if GUEST_CR4 ctl AND 0x20 \<noteq> 0 then mmu_walk_pae vm h ctl gva else mmu_walk_legacy vm h ctl gva)"

text \<open>The page-wise copy. \<open>dst\<close> is the destination buffer; a chunk counts as copied in full once the
  guest read reports no error.\<close>

function copy_virt_loop :: "relm_vm_memory option \<Rightarrow> host \<Rightarrow> guest_ctl \<Rightarrow> u64 \<Rightarrow> nat \<Rightarrow> nat \<Rightarrow> u8 list
    \<Rightarrow> int res option \<times> u8 list" where
  "copy_virt_loop vm h ctl gva sz copied dst =
     (if copied < sz then
        let cur_gva = gva + word_of_nat copied;
            chunk = min (sz - copied) (4096 - unat (cur_gva AND 0xFFF))
        in case relm_mmu_gva_to_gpa vm h ctl cur_gva of
             None \<Rightarrow> (None, dst)
           | Some (Inl e) \<Rightarrow> (Some (Inl e), dst)
           | Some (Inr gpa) \<Rightarrow>
               (case relm_vm_copy_from_guest vm gpa (Some (drop copied dst)) chunk h of
                  (Fault, _) \<Rightarrow> (None, dst)
                | (Ret (Inl e), _) \<Rightarrow> (Some (Inl e), dst)
                | (Ret (Inr n), d) \<Rightarrow> copy_virt_loop vm h ctl gva sz (copied + chunk) (take copied dst @ the d))
      else (Some (Inr (c_int copied)), dst))"
  by pat_completeness auto
termination
proof (relation "measure (\<lambda>(vm, h, ctl, gva, sz, copied, dst). sz - copied)", goal_cases)
  case 1
  show ?case by simp
next
  case (2 vm h ctl gva sz copied dst x xa)
  have "unat (x AND 0xFFF) < 4096"
  proof -
    have "x AND 0xFFF \<le> 0xFFF" by (rule word_and_le1)
    then show ?thesis by (simp add: word_le_nat_alt)
  qed
  with 2(1,3) have "0 < xa" by simp
  with 2(1) have "sz - (copied + xa) < sz - copied" by arith
  then show ?case by simp
qed

declare copy_virt_loop.simps [simp del]

definition relm_mmu_copy_from_guest_virt :: "relm_vm_memory option \<Rightarrow> host \<Rightarrow> guest_ctl \<Rightarrow> u64 \<Rightarrow> u8 list option \<Rightarrow> nat
    \<Rightarrow> int res option \<times> u8 list option" where
  "relm_mmu_copy_from_guest_virt vm h ctl gva data sz =
     (case data of None \<Rightarrow> (Some (Inl EINVAL), data)
      | Some dst \<Rightarrow> if sz = 0 then (Some (Inl EINVAL), data)
          else (let (res, dst') = copy_virt_loop vm h ctl gva sz 0 dst in (res, Some dst')))"

section \<open>Guest page tables\<close>

text \<open>The three table pages as byte images.\<close>

definition pd_image :: "u8 list" where
  "pd_image = concat (map (\<lambda>i. le_bytes 8 ((word_of_nat i * 0x200000) OR 0x87)) [0..<512])"

definition link_image :: "u64 \<Rightarrow> u8 list" where
  "link_image gpa = le_bytes 8 (gpa OR 0x7) @ replicate 4088 0"

text \<open>The state: guest memory, the EPT context, the host, and \<open>arch.pml4_gpa\<close>. \<open>None\<close> is an invalid host
  pointer.\<close>

definition relm_ept_create_guest_page_tables :: "(relm_vm_memory \<times> ept_context option) option \<Rightarrow> u64 \<Rightarrow> host
    \<Rightarrow> unit res option \<times> u64 \<times> host" where
  "relm_ept_create_guest_page_tables vm arch_pml4_gpa h =
     (case vm of None \<Rightarrow> (Some (Inl EINVAL), arch_pml4_gpa, h)
      | Some (mm, None) \<Rightarrow> (Some (Inl EINVAL), arch_pml4_gpa, h)
      | Some (mm, Some ept) \<Rightarrow>
        let pml4_gpa = total_guest_ram mm - 3 * 0x1000; pdpt_gpa = pml4_gpa + 0x1000; pd_gpa = pml4_gpa + 2 * 0x1000;
            (ok, h) = kzalloc h in
        if \<not> ok then (Some (Inl ENOMEM), arch_pml4_gpa, h)
        else (case relm_vm_copy_to_guest (Some mm) pd_gpa (Some pd_image) h of
          (Fault, h) \<Rightarrow> (None, arch_pml4_gpa, h)
        | (Ret (Inl e), h) \<Rightarrow> (Some (Inl e), arch_pml4_gpa, h)
        | (Ret (Inr _), h) \<Rightarrow>
          (case relm_vm_copy_to_guest (Some mm) pdpt_gpa (Some (link_image pd_gpa)) h of
            (Fault, h) \<Rightarrow> (None, arch_pml4_gpa, h)
          | (Ret (Inl e), h) \<Rightarrow> (Some (Inl e), arch_pml4_gpa, h)
          | (Ret (Inr _), h) \<Rightarrow>
            (case relm_vm_copy_to_guest (Some mm) pml4_gpa (Some (link_image pdpt_gpa)) h of
              (Fault, h) \<Rightarrow> (None, arch_pml4_gpa, h)
            | (Ret (Inl e), h) \<Rightarrow> (Some (Inl e), arch_pml4_gpa, h)
            | (Ret (Inr _), h) \<Rightarrow> (Some (Inr ()), pml4_gpa, h)))))"

section \<open>Reading back what was copied in\<close>

definition guest_byte :: "guest_mem_region list \<Rightarrow> mem \<Rightarrow> u64 \<Rightarrow> u8" where
  "guest_byte regs m a = m (the (guest_hpa regs a))"

lemma guest_byte_write:
  assumes f: "frames_ok regs" and len: "length bs \<le> 2 ^ 64"
    and bk: "\<And>i. i < length bs \<Longrightarrow> guest_hpa regs (a + word_of_nat i) \<noteq> None" and b: "guest_hpa regs b \<noteq> None"
  shows "guest_byte regs (guest_write regs m a bs) b =
    (if unat (b - a) < length bs then bs ! unat (b - a) else guest_byte regs m b)"
proof (cases "unat (b - a) < length bs")
  case True
  have "b = a + word_of_nat (unat (b - a))" by simp
  with True guest_write_at [OF f len bk, of "unat (b - a)" m] show ?thesis by (simp add: guest_byte_def)
next
  case False
  have "the (guest_hpa regs (a + word_of_nat i)) \<noteq> the (guest_hpa regs b)" if i: "i < length bs" for i
  proof
    assume "the (guest_hpa regs (a + word_of_nat i)) = the (guest_hpa regs b)"
    then have "a + word_of_nat i = b" using bk [OF i] b guest_hpa_inj [OF f] by (metis option.collapse)
    then have "b - a = word_of_nat i" by auto
    then have "unat (b - a) = i" using i len by (simp add: unat_word_of_nat_small)
    with False i show False by simp
  qed
  from guest_write_other [OF this, where m = m] False show ?thesis by (simp add: guest_byte_def)
qed

lemma read_entry_backed:
  assumes "ram_ok (mem_regions mm)" "\<And>i. i < 8 \<Longrightarrow> guest_hpa (mem_regions mm) (a + word_of_nat i) \<noteq> None"
    and "\<And>i. i < 8 \<Longrightarrow> guest_byte (mem_regions mm) (pmem h) (a + word_of_nat i) = le_bytes 8 v ! i"
  shows "mmu_read_entry (Some mm) h a 8 = Some (Inr v)"
proof -
  have k: "backed_run (mem_regions mm) a 8 = 8" using assms(2) by (rule backed_run_full)
  have "guest_read (mem_regions mm) (pmem h) a 8 = map (\<lambda>i. le_bytes 8 v ! i) [0..<8]"
    unfolding guest_read_def using assms(3) by (intro map_cong) (auto simp: guest_byte_def)
  also have "\<dots> = le_bytes 8 v" using map_nth [of "le_bytes 8 v"] by simp
  finally have "guest_read (mem_regions mm) (pmem h) a 8 = le_bytes 8 v" .
  then have "copy_from_loop (mem_regions mm) 8 None a 0 (replicate 8 0) h = (Ret (Inr 8), le_bytes 8 v)"
    using copy_from_loop_spec [OF assms(1), of None 0 8 "replicate 8 0" a h] k c_int_small [of 8] by simp
  then show ?thesis by (simp add: mmu_read_entry_def relm_vm_copy_from_guest_def)
qed

lemma nth_concat_8:
  "\<forall>x\<in>set xs. length x = 8 \<Longrightarrow> i < length xs \<Longrightarrow> j < 8 \<Longrightarrow> concat xs ! (8 * i + j) = xs ! i ! j"
proof (induction xs arbitrary: i)
  case (Cons x xs)
  then show ?case by (cases i) (auto simp: nth_append)
qed simp

lemma length_images [simp]: "length pd_image = 4096" "length (link_image g) = 4096"
  by (simp_all add: pd_image_def link_image_def length_concat comp_def sum_list_triv)

lemma nth_images:
  "i < 512 \<Longrightarrow> j < 8 \<Longrightarrow> pd_image ! (8 * i + j) = le_bytes 8 ((word_of_nat i * 0x200000) OR 0x87) ! j"
  "j < 8 \<Longrightarrow> link_image g ! j = le_bytes 8 (g OR 0x7) ! j"
  unfolding pd_image_def by (subst nth_concat_8) (auto simp: link_image_def nth_append)

text \<open>A success of the construction leaves the three images in guest memory.\<close>

definition tables_at :: "guest_mem_region list \<Rightarrow> mem \<Rightarrow> u64 \<Rightarrow> bool" where
  "tables_at regs m p \<longleftrightarrow> (\<forall>k<4096.
     guest_byte regs m (p + word_of_nat k) = link_image (p + 0x1000) ! k \<and>
     guest_byte regs m (p + 0x1000 + word_of_nat k) = link_image (p + 0x2000) ! k \<and>
     guest_byte regs m (p + 0x2000 + word_of_nat k) = pd_image ! k)"

lemma unat_offset_diff:
  assumes "k < 2 ^ 63" "c < 2 ^ 63"
  shows "unat ((p + word_of_nat k) - (p + word_of_nat c) :: u64) = (if c \<le> k then k - c else 2 ^ 64 + k - c)"
proof -
  define wk wc :: u64 where "wk = word_of_nat k" and "wc = word_of_nat c"
  have u: "unat wk = k" "unat wc = c" using assms by (simp_all add: wk_def wc_def unat_word_of_nat_small)
  have "unat ((p + wk) - (p + wc)) = unat (wk - wc)" by simp
  also have "\<dots> = (if unat wc \<le> unat wk then unat wk - unat wc else unat wk + 2 ^ 64 - unat wc)"
    using unat_sub_if_size [of wk wc] by (simp only: word_size) simp
  also have "\<dots> = (if c \<le> k then k - c else 2 ^ 64 + k - c)" unfolding u by (simp only: add.commute)
  finally show ?thesis unfolding wk_def wc_def .
qed

lemma guest_byte_write_rel:
  assumes f: "frames_ok regs" and len: "length bs = 4096" and c: "c \<le> 0x2000" and k: "k < 0x3000"
    and bk: "\<And>i. i < 0x3000 \<Longrightarrow> guest_hpa regs (p + word_of_nat i) \<noteq> None"
  shows "guest_byte regs (guest_write regs m (p + word_of_nat c) bs) (p + word_of_nat k) =
    (if c \<le> k \<and> k < c + 4096 then bs ! (k - c) else guest_byte regs m (p + word_of_nat k))"
proof -
  have "guest_hpa regs (p + word_of_nat c + word_of_nat i) \<noteq> None" if "i < length bs" for i
    using bk [of "c + i"] that c len by (simp add: add.assoc)
  from guest_byte_write [OF f _ this bk [OF k], where m = m] len
  have "guest_byte regs (guest_write regs m (p + word_of_nat c) bs) (p + word_of_nat k) =
      (if unat ((p + word_of_nat k) - (p + word_of_nat c)) < 4096 then bs ! unat ((p + word_of_nat k) - (p + word_of_nat c))
       else guest_byte regs m (p + word_of_nat k))" by simp
  moreover have "unat ((p + word_of_nat k) - (p + word_of_nat c)) = (if c \<le> k then k - c else 2 ^ 64 + k - c)"
    using c k by (intro unat_offset_diff) auto
  ultimately show ?thesis using c by auto
qed

lemma copy_to_backed:
  assumes "ram_ok (mem_regions mm)" "length bs = 4096" "\<And>i. i < 4096 \<Longrightarrow> guest_hpa (mem_regions mm) (a + word_of_nat i) \<noteq> None"
  shows "relm_vm_copy_to_guest (Some mm) a (Some bs) h =
    (Ret (Inr 4096), h\<lparr>pmem := guest_write (mem_regions mm) (pmem h) a bs\<rparr>)"
proof -
  have "backed_run (mem_regions mm) a 4096 = 4096" using assms(3) by (rule backed_run_full)
  moreover have "bs \<noteq> []" using assms(2) by auto
  ultimately show ?thesis
    using copy_to_loop_spec [OF assms(1), of None 0 bs a h] assms(2) c_int_small [of 4096]
    by (simp add: relm_vm_copy_to_guest_def)
qed

lemma create_tables_at:
  assumes ram: "ram_ok (mem_regions mm)" "frames_ok (mem_regions mm)"
    and p: "p = total_guest_ram mm - 0x3000"
    and bk: "\<And>i. i < 0x3000 \<Longrightarrow> guest_hpa (mem_regions mm) (p + word_of_nat i) \<noteq> None"
    and run: "relm_ept_create_guest_page_tables (Some (mm, Some ept)) old h = (Some (Inr ()), pa, h')"
  shows "pa = p \<and> tables_at (mem_regions mm) (pmem h') p"
proof -
  let ?r = "mem_regions mm"
  obtain ok h0 where k: "kzalloc h = (ok, h0)" by force
  have bk2: "guest_hpa ?r (p + word_of_nat c + word_of_nat i) \<noteq> None" if "i < 4096" "c \<le> 0x2000" for i c
    using bk [of "c + i"] that by (simp add: add.assoc)
  have b0: "guest_hpa ?r (p + word_of_nat i) \<noteq> None" "guest_hpa ?r (p + 0x1000 + word_of_nat i) \<noteq> None"
    "guest_hpa ?r (p + 0x2000 + word_of_nat i) \<noteq> None" if "i < 4096" for i
    using bk2 [OF that, of 0] bk2 [OF that, of "0x1000"] bk2 [OF that, of "0x2000"] by simp_all
  note c = copy_to_backed [OF ram(1) _ b0(3), OF length_images(1)]
    copy_to_backed [OF ram(1) _ b0(2), OF length_images(2)] copy_to_backed [OF ram(1) _ b0(1), OF length_images(2)]
  define m1 where "m1 = guest_write ?r (pmem h0) (p + word_of_nat 0x2000) pd_image"
  define m2 where "m2 = guest_write ?r m1 (p + word_of_nat 0x1000) (link_image (p + 0x2000))"
  define m3 where "m3 = guest_write ?r m2 (p + word_of_nat 0) (link_image (p + 0x1000))"
  have h': "pmem h' = m3" "pa = p"
    using run k by (auto simp: relm_ept_create_guest_page_tables_def c Let_def m1_def m2_def m3_def simp flip: p split: if_splits)
  note w = guest_byte_write_rel [OF ram(2) length_images(2) _ _ bk] guest_byte_write_rel [OF ram(2) length_images(1) _ _ bk]
  have v: "guest_byte ?r m3 (p + word_of_nat k) =
      (if k < 4096 then link_image (p + 0x1000) ! k else if k < 8192 then link_image (p + 0x2000) ! (k - 4096) else pd_image ! (k - 8192))"
    if "k < 0x3000" for k
    unfolding m3_def m2_def m1_def using that by (simp only: w) simp
  have "tables_at ?r m3 p"
    unfolding tables_at_def
  proof (intro allI impI conjI)
    fix k :: nat assume k: "k < 4096"
    show "guest_byte ?r m3 (p + word_of_nat k) = link_image (p + 0x1000) ! k" using v [of k] k by simp
    show "guest_byte ?r m3 (p + 0x1000 + word_of_nat k) = link_image (p + 0x2000) ! k"
      using v [of "4096 + k"] k by (simp add: add.assoc)
    show "guest_byte ?r m3 (p + 0x2000 + word_of_nat k) = pd_image ! k"
      using v [of "8192 + k"] k by (simp add: add.assoc)
  qed
  with h' show ?thesis by simp
qed

section \<open>Properties\<close>

lemma bit_128: "bit (0x80 :: int) n \<longleftrightarrow> n = 7"
proof -
  have e: "(0x80 :: int) = push_bit 7 1" by (simp add: push_bit_eq_mult)
  show ?thesis by (simp only: e bit_push_bit_iff) (auto simp: bit_1_iff)
qed

lemma link_entry:
  assumes "frame_ok g"
  shows "(g OR 0x7) AND PTE_PRESENT \<noteq> 0" "(g OR 0x7) AND PTE_PS = 0" "(g OR 0x7) AND PTE_ADDR_MASK = g"
proof -
  show "(g OR 0x7) AND PTE_PRESENT \<noteq> 0" by (simp add: and_1_bit bit_simps)
  show "(g OR 0x7) AND PTE_PS = 0"
  proof -
    have "g AND 0x80 = 0"
      by (rule bit_word_eqI) (use frame_ok_bit [OF assms, of 7] in \<open>auto simp: bit_and_iff bit_128\<close>)
    then show ?thesis by (simp add: bit.conj_disj_distrib2)
  qed
  show "(g OR 0x7) AND PTE_ADDR_MASK = g"
    using frame_ok_mask [OF assms] by (simp add: bit.conj_disj_distrib2)
qed

lemma pd_entry:
  fixes gva :: u64
  assumes "gva < 2 ^ 30"
  shows "((drop_bit 21 gva * 0x200000 OR 0x87) AND PTE_ADDR_MASK AND NOT 0x1FFFFF) OR (gva AND 0x1FFFFF) = gva"
    "(x OR 0x87 :: u64) AND PTE_PRESENT \<noteq> 0" "(x OR 0x87 :: u64) AND PTE_PS \<noteq> 0"
proof -
  have "take_bit 30 gva = gva" using assms by (simp add: take_bit_eq_self_unat word_less_nat_alt)
  then have g: "bit gva k \<Longrightarrow> k < 30" for k by (metis bit_take_bit_iff)
  have m: "(0x1FFFFF :: u64) = mask 21" by (simp add: mask_eq_exp_minus_1)
  have p: "drop_bit 21 gva * 0x200000 = push_bit 21 (drop_bit 21 gva)" by (simp add: push_bit_eq_mult)
  have l: "bit (0x87 :: u64) n \<Longrightarrow> n < 8" for n
  proof -
    have "take_bit 8 (0x87 :: u64) = 0x87" by simp
    then show "bit (0x87 :: u64) n \<Longrightarrow> n < 8" by (metis bit_take_bit_iff)
  qed
  show "((drop_bit 21 gva * 0x200000 OR 0x87) AND PTE_ADDR_MASK AND NOT 0x1FFFFF) OR (gva AND 0x1FFFFF) = gva"
    unfolding m p addr_mask_eq by (rule bit_word_eqI) (use g l in \<open>fastforce simp: bit_simps\<close>)
  show "(x OR 0x87 :: u64) AND PTE_PRESENT \<noteq> 0" by (simp add: and_1_bit bit_simps)
  have "((x OR 0x87) AND 0x80 :: u64) = (x AND 0x80) OR 0x80" by (simp add: bit.conj_disj_distrib2)
  then have "bit ((x OR 0x87) AND 0x80 :: u64) 7" by (simp add: bit_or_iff)
  then have "((x OR 0x87) AND 0x80 :: u64) \<noteq> 0" by (metis bit_0_eq bot_apply bot_bool_def)
  then show "(x OR 0x87 :: u64) AND PTE_PS \<noteq> 0" by simp
qed

lemma low_indices:
  fixes gva :: u64
  assumes "gva < 2 ^ 30"
  shows "drop_bit 39 gva AND 0x1FF = 0" "drop_bit 30 gva AND 0x1FF = 0" "drop_bit 21 gva AND 0x1FF = drop_bit 21 gva"
    "unat (drop_bit 21 gva) < 512"
proof -
  have u: "unat gva < 2 ^ 30" using assms by (simp add: word_less_nat_alt)
  have "unat (drop_bit 39 gva) = 0" "unat (drop_bit 30 gva) = 0" "unat (drop_bit 21 gva) < 512"
    using u by (simp_all add: drop_bit_eq_div unat_div)
  then have z: "drop_bit 39 gva = 0" "drop_bit 30 gva = 0" "unat (drop_bit 21 gva) < 512" by (auto simp: unat_eq_zero)
  then show "drop_bit 39 gva AND 0x1FF = 0" "drop_bit 30 gva AND 0x1FF = 0" "unat (drop_bit 21 gva) < 512" by simp_all
  show "drop_bit 21 gva AND 0x1FF = drop_bit 21 gva"
    unfolding and_masks using z(3) by (simp add: take_bit_eq_self_unat)
qed

text \<open>A walk of the three tables at \<open>q\<close>.\<close>

lemma tables_at_identity:
  assumes ram: "ram_ok (mem_regions mm)" and p: "frame_ok q" "q < 2 ^ 51"
    and bk': "\<And>i. i < 0x3000 \<Longrightarrow> guest_hpa (mem_regions mm) (q + word_of_nat i) \<noteq> None"
    and t: "tables_at (mem_regions mm) (pmem h') q"
    and mode: "GUEST_CR0 ctl AND 0x80000000 \<noteq> 0" "GUEST_IA32_EFER ctl AND 0x400 \<noteq> 0" "GUEST_CR4 ctl AND 0x1000 = 0"
      "GUEST_CR3 ctl = q" and gva: "gva < 2 ^ 30"
  shows "relm_mmu_gva_to_gpa (Some mm) h' ctl gva = Some (Inr gva)"
proof -
  let ?r = "mem_regions mm"
  have q: "PAGE_ALIGNED q" "unat q < 2 ^ 51" using p by (simp_all add: frame_ok_def word_less_nat_alt)
  have fo: "frame_ok (q + word_of_nat c * 0x1000)" if "c \<le> 2" for c
  proof -
    have "unat (q + word_of_nat c * 0x1000) \<le> unat q + c * 4096"
      by (simp add: unat_word_ariths unat_of_nat)
    then have "q + word_of_nat c * 0x1000 < 2 ^ 52" using q(2) that by (simp add: word_less_nat_alt)
    with aligned_page_plus [OF q(1)] show ?thesis by (simp add: frame_ok_def)
  qed
  have f: "frame_ok q" "frame_ok (q + 0x1000)" "frame_ok (q + 0x2000)" using fo [of 0] fo [of 1] fo [of 2] by simp_all
  have bk2: "guest_hpa ?r (q + word_of_nat c + word_of_nat i) \<noteq> None" if "c + i < 0x3000" for c i
    using bk' [of "c + i"] that by (simp add: add.assoc)
  note ta = t [unfolded tables_at_def]
  note ix = low_indices [OF gva]
  have e4: "mmu_read_entry (Some mm) h' q 8 = Some (Inr ((q + 0x1000) OR 0x7))"
    using ta bk' nth_images(2) by (intro read_entry_backed [OF ram]) auto
  have e3: "mmu_read_entry (Some mm) h' (q + 0x1000) 8 = Some (Inr ((q + 0x2000) OR 0x7))"
    using ta bk2 [of "0x1000"] nth_images(2) by (intro read_entry_backed [OF ram]) auto
  let ?i = "unat (drop_bit 21 gva)"
  have pdi: "q + 0x2000 + drop_bit 21 gva * 8 + word_of_nat j = q + 0x2000 + word_of_nat (8 * ?i + j)" for j
    by (simp add: algebra_simps)
  have e2: "mmu_read_entry (Some mm) h' (q + 0x2000 + drop_bit 21 gva * 8) 8 = Some (Inr ((drop_bit 21 gva * 0x200000) OR 0x87))"
  proof (rule read_entry_backed [OF ram], unfold pdi)
    fix j :: nat assume j: "j < 8"
    with ix(4) have lt: "8 * ?i + j < 4096" by simp
    show "guest_hpa ?r (q + 0x2000 + word_of_nat (8 * ?i + j)) \<noteq> None" using bk2 [of "0x2000" "8 * ?i + j"] lt by simp
    show "guest_byte ?r (pmem h') (q + 0x2000 + word_of_nat (8 * ?i + j)) = le_bytes 8 ((drop_bit 21 gva * 0x200000) OR 0x87) ! j"
    proof -
      have "guest_byte ?r (pmem h') (q + 0x2000 + word_of_nat (8 * ?i + j)) = pd_image ! (8 * ?i + j)" using ta lt by blast
      also have "\<dots> = le_bytes 8 ((word_of_nat ?i * 0x200000) OR 0x87) ! j" by (rule nth_images(1) [OF ix(4) j])
      finally show ?thesis by simp
    qed
  qed
  have pm: "push_bit 21 1 - 1 = (0x1FFFFF :: u64)" by (simp add: push_bit_eq_mult)
  have l2: "mmu_walk_levels (Some mm) h' gva (Suc (Suc 0)) (q + 0x2000) = Some (Inr gva)"
    using e2 pd_entry [OF gva] pm by (simp add: Let_def ix(3) del: push_bit_of_1)
  have l3: "mmu_walk_levels (Some mm) h' gva (Suc (Suc (Suc 0))) (q + 0x1000) = Some (Inr gva)"
    unfolding mmu_walk_levels.simps(2) [of _ _ _ "Suc (Suc 0)"]
    using e3 l2 link_entry [OF f(3)] by (simp add: Let_def ix(2) del: mmu_walk_levels.simps)
  have l4: "mmu_walk_levels (Some mm) h' gva (Suc (Suc (Suc (Suc 0)))) q = Some (Inr gva)"
    unfolding mmu_walk_levels.simps(2) [of _ _ _ "Suc (Suc (Suc 0))"]
    using e4 l3 link_entry [OF f(2)] by (simp add: Let_def ix(1) del: mmu_walk_levels.simps)
  have "(4 :: nat) = Suc (Suc (Suc (Suc 0)))" by simp
  then have "mmu_walk_levels (Some mm) h' gva 4 q = Some (Inr gva)" using l4 by metis
  then show ?thesis
    using mode frame_ok_mask [OF f(1)] by (simp add: relm_mmu_gva_to_gpa_def mmu_walk_long_def)
qed

text \<open>(C34) The page tables the hypervisor builds in guest RAM are the identity map of the first GiB as its own
  walker reads them: after a successful construction, in long mode with CR3 at the new root,
  every linear address below 1 GiB translates to itself.\<close>

theorem guest_tables_identity:
  assumes ram: "ram_ok (mem_regions mm)" "frames_ok (mem_regions mm)"
    and p: "frame_ok (total_guest_ram mm - 0x3000)" "total_guest_ram mm - 0x3000 < 2 ^ 51"
    and bk: "\<forall>i<0x3000. guest_hpa (mem_regions mm) (total_guest_ram mm - 0x3000 + word_of_nat i) \<noteq> None"
    and run: "relm_ept_create_guest_page_tables (Some (mm, Some ept)) old h = (Some (Inr ()), pa, h')"
    and mode: "GUEST_CR0 ctl AND 0x80000000 \<noteq> 0" "GUEST_IA32_EFER ctl AND 0x400 \<noteq> 0" "GUEST_CR4 ctl AND 0x1000 = 0"
      "GUEST_CR3 ctl = pa" and gva: "gva < 2 ^ 30"
  shows "relm_mmu_gva_to_gpa (Some mm) h' ctl gva = Some (Inr gva)"
proof -
  define q where "q = total_guest_ram mm - 0x3000"
  have bk': "guest_hpa (mem_regions mm) (q + word_of_nat i) \<noteq> None" if "i < 0x3000" for i using bk that by (simp add: q_def)
  from create_tables_at [OF ram q_def bk' run] have t: "pa = q" "tables_at (mem_regions mm) (pmem h') q" by auto
  show ?thesis
    using p t mode gva bk' by (intro tables_at_identity [OF ram(1), where q = q]) (simp_all add: q_def)
qed

definition demo_pt_mm :: relm_vm_memory where
  "demo_pt_mm = demo_mm\<lparr>mem_regions := [\<lparr>gr_gpa_start = 0, gr_size = 0x3000,
      gr_pages = Some [Some 0x5000, Some 0x9000, Some 0x7000], gr_nr_pages = 3, gr_flags = 7\<rparr>], total_guest_ram := 0x3000\<rparr>"

lemma demo_pt_mm_ok: "ram_ok (mem_regions demo_pt_mm)" "frames_ok (mem_regions demo_pt_mm)"
  by (auto simp: ram_ok_def frames_ok_def demo_pt_mm_def page_at_def PAGE_ALIGNED_def nth_Cons' numeral_3_eq_3
      less_Suc_eq split: if_splits)

lemma demo_pt_mm_backed:
  assumes "i < 0x3000"
  shows "guest_hpa (mem_regions demo_pt_mm) (word_of_nat i) \<noteq> None"
proof -
  have u: "unat (word_of_nat i :: u64) = i" using assms by (simp add: unat_word_of_nat_small)
  then have "covers (word_of_nat i) \<lparr>gr_gpa_start = 0, gr_size = 0x3000,
      gr_pages = Some [Some 0x5000, Some 0x9000, Some 0x7000], gr_nr_pages = 3, gr_flags = 7\<rparr>"
    using assms by (simp add: covers_def word_less_nat_alt)
  moreover have "i div 4096 < 3" using assms by simp
  then have "i div 4096 = 0 \<or> i div 4096 = 1 \<or> i div 4096 = 2" by arith
  ultimately show ?thesis
    using u by (auto simp: demo_pt_mm_def guest_hpa_def page_at_def unat_offset simp del: unat_of_nat)
qed

lemma create_tables_succeeds:
  assumes "ram_ok (mem_regions mm)" "kzalloc h = (True, h0)"
    and bk: "\<And>i. i < 0x3000 \<Longrightarrow> guest_hpa (mem_regions mm) (total_guest_ram mm - 0x3000 + word_of_nat i) \<noteq> None"
  shows "\<exists>h'. relm_ept_create_guest_page_tables (Some (mm, Some ept)) old h = (Some (Inr ()), total_guest_ram mm - 0x3000, h')"
proof -
  define p where "p = total_guest_ram mm - 0x3000"
  have bk2: "guest_hpa (mem_regions mm) (p + word_of_nat c + word_of_nat i) \<noteq> None" if "i < 4096" "c \<le> 0x2000" for i c
    using bk [of "c + i"] that by (simp add: add.assoc p_def)
  have b0: "guest_hpa (mem_regions mm) (p + word_of_nat i) \<noteq> None" "guest_hpa (mem_regions mm) (p + 0x1000 + word_of_nat i) \<noteq> None"
    "guest_hpa (mem_regions mm) (p + 0x2000 + word_of_nat i) \<noteq> None" if "i < 4096" for i
    using bk2 [OF that, of 0] bk2 [OF that, of "0x1000"] bk2 [OF that, of "0x2000"] by simp_all
  note c = copy_to_backed [OF assms(1) _ b0(3), OF length_images(1)]
    copy_to_backed [OF assms(1) _ b0(2), OF length_images(2)] copy_to_backed [OF assms(1) _ b0(1), OF length_images(2)]
  have p': "total_guest_ram mm - 3 * 0x1000 = p" by (simp add: p_def)
  show ?thesis
    unfolding p_def [symmetric] relm_ept_create_guest_page_tables_def option.case prod.case Let_def p'
    using assms(2) by (simp add: c)
qed

theorem guest_tables_identity_witness:
  "\<exists>pa h'. relm_ept_create_guest_page_tables (Some (demo_pt_mm, Some demo_ept)) 0 demo_host = (Some (Inr ()), pa, h') \<and>
     relm_mmu_gva_to_gpa (Some demo_pt_mm) h' \<lparr>GUEST_CR0 = 0x80000001, GUEST_CR3 = pa, GUEST_CR4 = 0x20,
        GUEST_IA32_EFER = 0x500, GUEST_CS_AR_BYTES = 0xA09B, GUEST_CS_BASE = 0\<rparr> 0x12345678 = Some (Inr 0x12345678)"
proof -
  have bk: "guest_hpa (mem_regions demo_pt_mm) (total_guest_ram demo_pt_mm - 0x3000 + word_of_nat i) \<noteq> None" if "i < 0x3000" for i
    using demo_pt_mm_backed [OF that] by (simp add: demo_pt_mm_def)
  have k: "kzalloc demo_host = (True, demo_host\<lparr>kmem := [True]\<rparr>)" by (simp add: kzalloc_def demo_host_def)
  obtain h' where r: "relm_ept_create_guest_page_tables (Some (demo_pt_mm, Some demo_ept)) 0 demo_host =
      (Some (Inr ()), total_guest_ram demo_pt_mm - 0x3000, h')"
    using create_tables_succeeds [OF demo_pt_mm_ok(1) k bk] by blast
  from guest_tables_identity [OF demo_pt_mm_ok _ _ _ r,
      where gva = "0x12345678" and ctl = "\<lparr>GUEST_CR0 = 0x80000001, GUEST_CR3 = total_guest_ram demo_pt_mm - 0x3000,
        GUEST_CR4 = 0x20, GUEST_IA32_EFER = 0x500, GUEST_CS_AR_BYTES = 0xA09B, GUEST_CS_BASE = 0\<rparr>"] bk r
  show ?thesis by (auto simp: demo_pt_mm_def frame_ok_def PAGE_ALIGNED_def)
qed

text \<open>Outside 64-bit mode the linear address of an instruction is computed with a multiplication where a
  truncation to 32 bits is meant: in a flat code segment every non-zero instruction pointer below
  4 GiB is turned into a different address.\<close>

theorem rip_to_linear_wrong:
  assumes "GUEST_IA32_EFER ctl AND 0x400 = 0" and "GUEST_CS_BASE ctl = 0" and "rip \<noteq> 0" and "rip < 2 ^ 32"
  shows "relm_mmu_rip_to_linear ctl rip \<noteq> rip"
proof
  assume "relm_mmu_rip_to_linear ctl rip = rip"
  then have "rip * 0xFFFFFFFF = rip" using assms(1,2) by (simp add: relm_mmu_rip_to_linear_def)
  then have "unat (rip * 0xFFFFFFFF) = unat rip" by (rule arg_cong)
  moreover have "unat (rip * 0xFFFFFFFF) = unat rip * 0xFFFFFFFF"
  proof -
    have "unat rip < 2 ^ 32" using assms(4) by (simp add: word_less_nat_alt)
    then show ?thesis by (simp add: unat_word_ariths)
  qed
  ultimately show False using assms(3) by (simp add: unat_eq_zero)
qed

theorem rip_to_linear_wrong_witness:
  "relm_mmu_rip_to_linear \<lparr>GUEST_CR0 = 1, GUEST_CR3 = 0, GUEST_CR4 = 0, GUEST_IA32_EFER = 0,
     GUEST_CS_AR_BYTES = 0xC09B, GUEST_CS_BASE = 0\<rparr> 0x7C00 \<noteq> 0x7C00"
  by (rule rip_to_linear_wrong) simp_all

end
