(* ===== verification/Relm_Npt.thy ===== *)
theory Relm_Npt
  imports Relm_Mmu
begin

text \<open>
  Nested page tables, the AMD back end (src/arch/x86/svm/npt.c, include/arch/x86/svm/npt.h): the
  context, capability check, table allocation, mapping of pages, ranges, 2 MiB pages and guest RAM,
  unmapping, lookup, teardown, the fault handler, and the flag translation of the
  memory-operations table. The table format has the present bit, the address field and the link
  value of the extended page tables at the same positions, so \<open>npt_view\<close> reads a context as one of
  \<open>Relm_Ept\<close>; a simulation lemma per operation carries the round trip, the isolation, the
  refinement and the statistics over, and \<open>svm_ops\<close> interprets the memory-operations contract.
\<close>

section \<open>Constants and data\<close>

abbreviation (input) NPT_PRESENT :: u64 where "NPT_PRESENT \<equiv> 0x1"
abbreviation (input) NPT_WRITABLE :: u64 where "NPT_WRITABLE \<equiv> 0x2"
abbreviation (input) NPT_USER :: u64 where "NPT_USER \<equiv> 0x4"
abbreviation (input) NPT_PAGE_SIZE :: u64 where "NPT_PAGE_SIZE \<equiv> 0x80"
abbreviation (input) NPT_NX :: u64 where "NPT_NX \<equiv> 0x8000000000000000"
abbreviation (input) NPT_ADDR_MASK :: u64 where "NPT_ADDR_MASK \<equiv> 0x000FFFFFFFFFF000"
abbreviation (input) NPT_RWX :: u64 where "NPT_RWX \<equiv> 0x7"
abbreviation (input) NPT_MEMTYPE_UC :: u64 where "NPT_MEMTYPE_UC \<equiv> 0x18"
abbreviation (input) NPT_MEMTYPE_WB :: u64 where "NPT_MEMTYPE_WB \<equiv> 0x0"
abbreviation (input) NPT_PAGE_SIZE_4KB :: u64 where "NPT_PAGE_SIZE_4KB \<equiv> 0x1000"
abbreviation (input) NPT_PAGE_SIZE_2MB :: u64 where "NPT_PAGE_SIZE_2MB \<equiv> 0x200000"

definition NPT_PML4_INDEX :: "u64 \<Rightarrow> u64" where "NPT_PML4_INDEX gpa = drop_bit 39 gpa AND 0x1FF"
definition NPT_PDPT_INDEX :: "u64 \<Rightarrow> u64" where "NPT_PDPT_INDEX gpa = drop_bit 30 gpa AND 0x1FF"
definition NPT_PD_INDEX :: "u64 \<Rightarrow> u64" where "NPT_PD_INDEX gpa = drop_bit 21 gpa AND 0x1FF"
definition NPT_PT_INDEX :: "u64 \<Rightarrow> u64" where "NPT_PT_INDEX gpa = drop_bit 12 gpa AND 0x1FF"
definition NPT_PAGE_OFFSET :: "u64 \<Rightarrow> u64" where "NPT_PAGE_OFFSET gpa = gpa AND 0xFFF"

definition npt_is_2mb_aligned :: "u64 \<Rightarrow> bool" where "npt_is_2mb_aligned addr \<longleftrightarrow> addr AND 0x1FFFFF = 0"

record npt_context =
  n_pml4 :: "u64 option"
  n_pml4_pa :: u64
  n_pages_4kb :: u64
  n_pages_2mb :: u64
  n_pages_1gb :: u64
  n_total_mapped :: u64

section \<open>Setup and table allocation\<close>

text \<open>The two CPUID leaves are read from the processor: \<open>ecx\<close> and \<open>edx\<close> are the values. The second
  leaf matters only when the first reports SVM.\<close>

definition relm_npt_check_support :: "u32 \<Rightarrow> u32 \<Rightarrow> bool" where
  "relm_npt_check_support ecx edx =
     (if ecx AND 0x4 = 0 then False
      else if edx AND 0x1 = 0 then False
      else True)"

definition relm_npt_context_create :: "host \<Rightarrow> npt_context res \<times> host" where
  "relm_npt_context_create h =
     (let (ok, h) = kzalloc h in
      if \<not> ok then (Inl ENOMEM, h)
      else case get_zeroed_page h of
        (None, h) \<Rightarrow> (Inl ENOMEM, h)
      | (Some root, h) \<Rightarrow>
          (Inr \<lparr>n_pml4 = Some root, n_pml4_pa = root, n_pages_4kb = 0, n_pages_2mb = 0, n_pages_1gb = 0,
                n_total_mapped = 0\<rparr>, h))"

definition relm_setup_npt :: "u32 \<Rightarrow> u32 \<Rightarrow> host \<Rightarrow> unit res \<times> npt_context option \<times> host" where
  "relm_setup_npt ecx edx h =
     (if \<not> relm_npt_check_support ecx edx then (Inl ENOTSUPP, None, h)
      else case relm_npt_context_create h of
        (Inl e, h) \<Rightarrow> (Inl e, None, h)
      | (Inr npt, h) \<Rightarrow> (Inr (), Some npt, h))"

definition relm_npt_alloc_table :: "host \<Rightarrow> u64 option \<times> host" where
  "relm_npt_alloc_table h = get_zeroed_page h"

definition relm_npt_get_or_create_table :: "u64 \<Rightarrow> host \<Rightarrow> u64 option \<times> host" where
  "relm_npt_get_or_create_table entry_ptr h =
     (let entry = rd64 (pmem h) entry_ptr in
      if entry AND NPT_PRESENT \<noteq> 0 then (Some (entry AND NPT_ADDR_MASK), h)
      else case relm_npt_alloc_table h of
        (None, h) \<Rightarrow> (None, h)
      | (Some table_pa, h) \<Rightarrow>
          (Some table_pa, h\<lparr>pmem := wr64 (pmem h) entry_ptr ((table_pa AND NPT_ADDR_MASK) OR NPT_RWX)\<rparr>))"

section \<open>Mapping, unmapping and lookup of one page\<close>

definition relm_npt_map_page ::
    "u64 \<Rightarrow> u64 \<Rightarrow> u64 \<Rightarrow> npt_context option \<Rightarrow> host \<Rightarrow> unit res \<times> npt_context option \<times> host" where
  "relm_npt_map_page gpa hpa flags ctx h =
     (case ctx of None \<Rightarrow> (Inl EINVAL, ctx, h)
      | Some npt \<Rightarrow>
        (case n_pml4 npt of None \<Rightarrow> (Inl EINVAL, ctx, h)
         | Some root \<Rightarrow>
          if gpa AND 0xFFF \<noteq> 0 \<or> hpa AND 0xFFF \<noteq> 0 then (Inl EINVAL, ctx, h)
          else if flags AND (NPT_PRESENT OR NPT_USER) \<noteq> NPT_PRESENT OR NPT_USER then (Inl EINVAL, ctx, h)
          else case relm_npt_get_or_create_table (slot root (NPT_PML4_INDEX gpa)) h of
            (None, h) \<Rightarrow> (Inl ENOMEM, ctx, h)
          | (Some pdpt, h) \<Rightarrow>
            (case relm_npt_get_or_create_table (slot pdpt (NPT_PDPT_INDEX gpa)) h of
              (None, h) \<Rightarrow> (Inl ENOMEM, ctx, h)
            | (Some pd, h) \<Rightarrow>
              (case relm_npt_get_or_create_table (slot pd (NPT_PD_INDEX gpa)) h of
                (None, h) \<Rightarrow> (Inl ENOMEM, ctx, h)
              | (Some pt, h) \<Rightarrow>
                (let leaf_entry = slot pt (NPT_PT_INDEX gpa);
                     npt' = (if rd64 (pmem h) leaf_entry AND NPT_PRESENT \<noteq> 0 then npt
                             else npt\<lparr>n_pages_4kb := n_pages_4kb npt + 1,
                                      n_total_mapped := n_total_mapped npt + NPT_PAGE_SIZE_4KB\<rparr>)
                 in (Inr (), Some npt',
                     h\<lparr>pmem := wr64 (pmem h) leaf_entry ((hpa AND NPT_ADDR_MASK) OR flags)\<rparr>))))))"

definition relm_npt_unmap_page ::
    "u64 \<Rightarrow> npt_context option \<Rightarrow> host \<Rightarrow> unit res \<times> npt_context option \<times> host" where
  "relm_npt_unmap_page gpa ctx h =
     (case ctx of None \<Rightarrow> (Inl EINVAL, ctx, h)
      | Some npt \<Rightarrow>
        (case n_pml4 npt of None \<Rightarrow> (Inl EINVAL, ctx, h)
         | Some root \<Rightarrow>
          let e4 = rd64 (pmem h) (slot root (NPT_PML4_INDEX gpa)) in
          if e4 AND NPT_PRESENT = 0 then (Inl ENOENT, ctx, h) else
          let e3 = rd64 (pmem h) (slot (e4 AND NPT_ADDR_MASK) (NPT_PDPT_INDEX gpa)) in
          if e3 AND NPT_PRESENT = 0 then (Inl ENOENT, ctx, h) else
          let e2 = rd64 (pmem h) (slot (e3 AND NPT_ADDR_MASK) (NPT_PD_INDEX gpa)) in
          if e2 AND NPT_PRESENT = 0 then (Inl ENOENT, ctx, h) else
          let leaf_entry = slot (e2 AND NPT_ADDR_MASK) (NPT_PT_INDEX gpa) in
          if rd64 (pmem h) leaf_entry AND NPT_PRESENT = 0 then (Inl ENOENT, ctx, h)
          else (Inr (), Some (npt\<lparr>n_pages_4kb := n_pages_4kb npt - 1,
                                  n_total_mapped := n_total_mapped npt - NPT_PAGE_SIZE_4KB\<rparr>),
                h\<lparr>pmem := wr64 (pmem h) leaf_entry 0\<rparr>)))"

definition relm_npt_get_mapping :: "u64 \<Rightarrow> npt_context option \<Rightarrow> host \<Rightarrow> u64 res" where
  "relm_npt_get_mapping gpa ctx h =
     (case ctx of None \<Rightarrow> Inl EINVAL
      | Some npt \<Rightarrow>
        (case n_pml4 npt of None \<Rightarrow> Inl EINVAL
         | Some root \<Rightarrow>
          let e4 = rd64 (pmem h) (slot root (NPT_PML4_INDEX gpa)) in
          if e4 AND NPT_PRESENT = 0 then Inl ENOENT else
          let e3 = rd64 (pmem h) (slot (e4 AND NPT_ADDR_MASK) (NPT_PDPT_INDEX gpa)) in
          if e3 AND NPT_PRESENT = 0 then Inl ENOENT else
          let e2 = rd64 (pmem h) (slot (e3 AND NPT_ADDR_MASK) (NPT_PD_INDEX gpa)) in
          if e2 AND NPT_PRESENT = 0 then Inl ENOENT else
          let leaf_entry = rd64 (pmem h) (slot (e2 AND NPT_ADDR_MASK) (NPT_PT_INDEX gpa)) in
          if leaf_entry AND NPT_PRESENT = 0 then Inl ENOENT
          else Inr ((leaf_entry AND NPT_ADDR_MASK) OR NPT_PAGE_OFFSET gpa)))"

section \<open>Ranges, huge pages, guest RAM\<close>

fun npt_map_pages :: "nat \<Rightarrow> u64 \<Rightarrow> u64 \<Rightarrow> u64 \<Rightarrow> u64 \<Rightarrow> npt_context option \<Rightarrow> host
    \<Rightarrow> unit res \<times> npt_context option \<times> host" where
  "npt_map_pages 0 i gpa_start hpa_start flags ctx h = (Inr (), ctx, h)"
| "npt_map_pages (Suc k) i gpa_start hpa_start flags ctx h =
     (case relm_npt_map_page (gpa_start + i * NPT_PAGE_SIZE_4KB) (hpa_start + i * NPT_PAGE_SIZE_4KB) flags ctx h of
        (Inl e, ctx, h) \<Rightarrow> (Inl e, ctx, h)
      | (Inr _, ctx, h) \<Rightarrow> npt_map_pages k (i + 1) gpa_start hpa_start flags ctx h)"

definition relm_npt_map_range :: "u64 \<Rightarrow> u64 \<Rightarrow> u64 \<Rightarrow> u64 \<Rightarrow> npt_context option \<Rightarrow> host
    \<Rightarrow> unit res \<times> npt_context option \<times> host" where
  "relm_npt_map_range gpa_start hpa_start sz flags ctx h =
     (if ctx = None then (Inl EINVAL, ctx, h)
      else npt_map_pages (unat (PAGE_ALIGN sz div NPT_PAGE_SIZE_4KB)) 0 gpa_start hpa_start flags ctx h)"

definition relm_npt_map_huge_page ::
    "u64 \<Rightarrow> u64 \<Rightarrow> u64 \<Rightarrow> npt_context option \<Rightarrow> host \<Rightarrow> unit res \<times> npt_context option \<times> host" where
  "relm_npt_map_huge_page gpa hpa flags ctx h =
     (case ctx of None \<Rightarrow> (Inl EINVAL, ctx, h)
      | Some npt \<Rightarrow>
        (case n_pml4 npt of None \<Rightarrow> (Inl EINVAL, ctx, h)
         | Some root \<Rightarrow>
          if \<not> npt_is_2mb_aligned gpa \<or> \<not> npt_is_2mb_aligned hpa then (Inl EINVAL, ctx, h)
          else if flags AND (NPT_PRESENT OR NPT_USER) \<noteq> NPT_PRESENT OR NPT_USER then (Inl EINVAL, ctx, h)
          else case relm_npt_get_or_create_table (slot root (NPT_PML4_INDEX gpa)) h of
            (None, h) \<Rightarrow> (Inl ENOMEM, ctx, h)
          | (Some pdpt, h) \<Rightarrow>
            (case relm_npt_get_or_create_table (slot pdpt (NPT_PDPT_INDEX gpa)) h of
              (None, h) \<Rightarrow> (Inl ENOMEM, ctx, h)
            | (Some pd, h) \<Rightarrow>
              (let leaf_entry = slot pd (NPT_PD_INDEX gpa);
                   npt' = (if rd64 (pmem h) leaf_entry AND NPT_PRESENT \<noteq> 0 then npt
                           else npt\<lparr>n_pages_2mb := n_pages_2mb npt + 1,
                                    n_total_mapped := n_total_mapped npt + NPT_PAGE_SIZE_2MB\<rparr>)
               in (Inr (), Some npt',
                   h\<lparr>pmem := wr64 (pmem h) leaf_entry (((hpa AND NPT_ADDR_MASK) OR flags) OR NPT_PAGE_SIZE)\<rparr>)))))"

definition npt_range_overlaps_mmio :: "relm_vm_memory option \<Rightarrow> u64 \<Rightarrow> u64 \<Rightarrow> bool" where
  "npt_range_overlaps_mmio vm gpa sz =
     (case vm of None \<Rightarrow> False
      | Some mm \<Rightarrow>
         (\<exists>i\<in>set [0..<relm_vm_mmio_region_count vm].
            case relm_vm_mmio_region_at vm i (Some \<lparr>mr_gpa_start = 0, mr_size = 0, mr_name = []\<rparr>) of
              (Inr _, Some region) \<Rightarrow>
                gpa < mr_gpa_start region + mr_size region \<and> mr_gpa_start region < gpa + sz
            | _ \<Rightarrow> False))"

fun npt_map_ram_pages :: "relm_vm_memory option \<Rightarrow> nat \<Rightarrow> u64 \<Rightarrow> u64 \<Rightarrow> u64 \<Rightarrow> u64 \<Rightarrow> npt_context option \<Rightarrow> host
    \<Rightarrow> unit res \<times> npt_context option \<times> host" where
  "npt_map_ram_pages vm 0 i gpa_start hpa_start flags ctx h = (Inr (), ctx, h)"
| "npt_map_ram_pages vm (Suc k) i gpa_start hpa_start flags ctx h =
     (let gpa = gpa_start + i * NPT_PAGE_SIZE_4KB; hpa = hpa_start + i * NPT_PAGE_SIZE_4KB in
      if npt_range_overlaps_mmio vm gpa NPT_PAGE_SIZE_4KB
      then npt_map_ram_pages vm k (i + 1) gpa_start hpa_start flags ctx h
      else case relm_npt_map_page gpa hpa flags ctx h of
        (Inl e, ctx, h) \<Rightarrow> (Inl e, ctx, h)
      | (Inr _, ctx, h) \<Rightarrow> npt_map_ram_pages vm k (i + 1) gpa_start hpa_start flags ctx h)"

definition relm_npt_map_guest_ram_4kb :: "relm_vm_memory option \<Rightarrow> u64 \<Rightarrow> u64 \<Rightarrow> u64 \<Rightarrow> u64 \<Rightarrow> npt_context option \<Rightarrow> host
    \<Rightarrow> unit res \<times> npt_context option \<times> host" where
  "relm_npt_map_guest_ram_4kb vm gpa_start hpa_start sz flags ctx h =
     (if ctx = None then (Inl EINVAL, ctx, h)
      else npt_map_ram_pages vm (unat (PAGE_ALIGN sz div NPT_PAGE_SIZE_4KB)) 0 gpa_start hpa_start flags ctx h)"

text \<open>The \<open>while (gpa < end)\<close> loop. The branch for a whole aligned 2 MiB stride tests the local variable
  \<open>ret\<close> without a call before it: \<open>ret\<close> is the value left by the previous 4 KiB stride (zero, or
  the function has returned) and before the first one the indeterminate initial value \<open>ret0\<close>, an
  argument of the model.\<close>

function npt_map_ram_strides :: "relm_vm_memory option \<Rightarrow> u64 \<Rightarrow> unit res \<Rightarrow> u64 \<Rightarrow> u64 \<Rightarrow> u64 \<Rightarrow> npt_context option \<Rightarrow> host
    \<Rightarrow> unit res \<times> npt_context option \<times> host" where
  "npt_map_ram_strides vm end ret gpa hpa flags ctx h =
     (if gpa < end then
        let remaining = end - gpa;
            offset_in_2mb = gpa AND (NPT_PAGE_SIZE_2MB - 1);
            aligned_2mb = (offset_in_2mb = 0 \<and> hpa AND (NPT_PAGE_SIZE_2MB - 1) = 0);
            whole_2mb_fits = (NPT_PAGE_SIZE_2MB \<le> remaining);
            to_boundary = NPT_PAGE_SIZE_2MB - offset_in_2mb;
            chunk = (if remaining < to_boundary then remaining else to_boundary)
        in if aligned_2mb \<and> whole_2mb_fits \<and> \<not> npt_range_overlaps_mmio vm gpa NPT_PAGE_SIZE_2MB
           then (case ret of
                   Inl e \<Rightarrow> (Inl e, ctx, h)
                 | Inr _ \<Rightarrow>
                     npt_map_ram_strides vm end ret (gpa + NPT_PAGE_SIZE_2MB) (hpa + NPT_PAGE_SIZE_2MB) flags ctx h)
           else (case relm_npt_map_guest_ram_4kb vm gpa hpa chunk flags ctx h of
                   (Inl e, ctx, h) \<Rightarrow> (Inl e, ctx, h)
                 | (Inr u, ctx, h) \<Rightarrow> npt_map_ram_strides vm end (Inr u) (gpa + chunk) (hpa + chunk) flags ctx h)
      else (Inr (), ctx, h))"
  by pat_completeness auto

termination
  by (relation "measure (\<lambda>(vm, e, ret, gpa, hpa, flags, ctx, h). unat (e - gpa))")
    (auto simp: Let_def boundary_positive word_diff_positive intro!: stride_decreases)

declare npt_map_ram_strides.simps [simp del]

definition relm_npt_map_guest_ram_huge :: "unit res \<Rightarrow> relm_vm_memory option \<Rightarrow> u64 \<Rightarrow> u64 \<Rightarrow> u64 \<Rightarrow> u64 \<Rightarrow> npt_context option \<Rightarrow> host
    \<Rightarrow> unit res \<times> npt_context option \<times> host" where
  "relm_npt_map_guest_ram_huge ret0 vm gpa_start hpa_start sz flags ctx h =
     (if ctx = None then (Inl EINVAL, ctx, h)
      else npt_map_ram_strides vm (gpa_start + PAGE_ALIGN sz) ret0 gpa_start hpa_start flags ctx h)"

section \<open>Teardown, faults and the memory-operations table\<close>

fun relm_npt_free_table :: "nat \<Rightarrow> u64 \<Rightarrow> host \<Rightarrow> host" where
  "relm_npt_free_table 0 table h = h"
| "relm_npt_free_table (Suc 0) table h = free_page table h"
| "relm_npt_free_table (Suc (Suc n)) table h =
     free_page table
       (fold (\<lambda>i h. let entry = rd64 (pmem h) (slot table (word_of_nat i)) in
                if entry AND NPT_PRESENT = 0 then h
                else if entry AND NPT_PAGE_SIZE \<noteq> 0 then h
                else relm_npt_free_table (Suc n) (entry AND NPT_ADDR_MASK) h) [0..<512] h)"

definition relm_npt_context_destroy :: "npt_context option \<Rightarrow> host \<Rightarrow> host" where
  "relm_npt_context_destroy ctx h =
     (case ctx of None \<Rightarrow> h
      | Some npt \<Rightarrow> (case n_pml4 npt of None \<Rightarrow> h | Some root \<Rightarrow> relm_npt_free_table 4 root h))"

text \<open>The fault handler logs and reports the fault as fatal.\<close>

definition relm_npt_handle_fault :: "npt_context option option \<Rightarrow> u64 \<Rightarrow> u64 \<Rightarrow> unit res" where
  "relm_npt_handle_fault vm gpa error_code =
     (case vm of None \<Rightarrow> Inl ENAVAIL | Some None \<Rightarrow> Inl ENAVAIL | Some (Some npt) \<Rightarrow> Inl EFAULT)"

definition npt_flags_of :: "u64 \<Rightarrow> u64" where
  "npt_flags_of flags =
     (let f = NPT_PRESENT OR NPT_USER;
          f = (if flags AND RELM_MEM_F_WRITE \<noteq> 0 then f OR NPT_WRITABLE else f);
          f = (if flags AND RELM_MEM_F_EXEC = 0 then f OR NPT_NX else f)
      in if flags AND RELM_MEM_F_MMIO \<noteq> 0 then f OR NPT_MEMTYPE_UC else f OR NPT_MEMTYPE_WB)"

definition svm_mem_map_page ::
    "u64 \<Rightarrow> u64 \<Rightarrow> u64 \<Rightarrow> npt_context option \<Rightarrow> host \<Rightarrow> unit res \<times> npt_context option \<times> host" where
  "svm_mem_map_page gpa hpa flags ctx h = relm_npt_map_page gpa hpa (npt_flags_of flags) ctx h"

definition svm_mem_unmap_page :: "u64 \<Rightarrow> npt_context option \<Rightarrow> host \<Rightarrow> npt_context option \<times> host" where
  "svm_mem_unmap_page gpa ctx h = snd (relm_npt_unmap_page gpa ctx h)"

definition svm_mem_destroy :: "npt_context option \<Rightarrow> host \<Rightarrow> npt_context option \<times> host" where
  "svm_mem_destroy ctx h =
     (case ctx of None \<Rightarrow> (None, h) | Some npt \<Rightarrow> (None, relm_npt_context_destroy ctx h))"

text \<open>\<open>relm_npt_invalidate\<close> requests a flush in the control block of every vCPU that has one: the array
  of vCPUs is given as the \<open>tlb_ctl\<close> bytes of their control blocks.\<close>

definition relm_npt_invalidate :: "u8 option option list option \<Rightarrow> u8 option option list option" where
  "relm_npt_invalidate vcpus =
     map_option (map (map_option (map_option (\<lambda>_. 3)))) vcpus"

section \<open>The simulation by extended page tables\<close>

definition npt_view :: "npt_context \<Rightarrow> ept_context" where
  "npt_view npt = \<lparr>pml4 = n_pml4 npt, pml4_pa = n_pml4_pa npt, eptp = CONSTRUCT_EPTP (n_pml4_pa npt) 6 False,
     memtype = 6, ad_enabled = False, pages_4kb = n_pages_4kb npt, pages_2mb = n_pages_2mb npt,
     pages_1gb = n_pages_1gb npt, total_mapped = n_total_mapped npt\<rparr>"

definition npt_outcome :: "unit res \<times> npt_context option \<times> host \<Rightarrow> unit res \<times> ept_context option \<times> host" where
  "npt_outcome x = (case x of (r, c, h) \<Rightarrow> (r, map_option npt_view c, h))"

lemma npt_view_simps [simp]:
  "pml4 (npt_view npt) = n_pml4 npt" "pages_4kb (npt_view npt) = n_pages_4kb npt"
  "pages_2mb (npt_view npt) = n_pages_2mb npt" "total_mapped (npt_view npt) = n_total_mapped npt"
  "pml4_pa (npt_view npt) = n_pml4_pa npt"
  by (simp_all add: npt_view_def)

lemma npt_index_eq:
  "NPT_PML4_INDEX = EPT_PML4_INDEX" "NPT_PDPT_INDEX = EPT_PDPT_INDEX" "NPT_PD_INDEX = EPT_PD_INDEX"
  "NPT_PT_INDEX = EPT_PT_INDEX" "NPT_PAGE_OFFSET = EPT_PAGE_OFFSET"
  by (auto simp: NPT_PML4_INDEX_def EPT_PML4_INDEX_def NPT_PDPT_INDEX_def EPT_PDPT_INDEX_def NPT_PD_INDEX_def
      EPT_PD_INDEX_def NPT_PT_INDEX_def EPT_PT_INDEX_def NPT_PAGE_OFFSET_def EPT_PAGE_OFFSET_def)

lemma npt_goc_eq: "relm_npt_get_or_create_table = relm_ept_get_or_create_table"
  by (intro ext) (simp add: relm_npt_get_or_create_table_def relm_ept_get_or_create_table_def
      relm_npt_alloc_table_def relm_ept_alloc_table_def Let_def)

lemma npt_overlaps_eq: "npt_range_overlaps_mmio = ept_range_overlaps_mmio"
  by (intro ext) (simp add: npt_range_overlaps_mmio_def ept_range_overlaps_mmio_def)

lemma npt_free_table_eq: "relm_npt_free_table n = relm_ept_free_table n"
proof (induction n)
  case (Suc n)
  show ?case
  proof (cases n)
    case (Suc k)
    with \<open>relm_npt_free_table n = relm_ept_free_table n\<close> show ?thesis
      by (intro ext) (simp only: relm_npt_free_table.simps relm_ept_free_table.simps)
  qed (auto intro!: ext)
qed (auto intro!: ext)

text \<open>Present and user together are stronger than present.\<close>

lemma npt_flags_present: "flags AND 5 = (5 :: u64) \<Longrightarrow> flags AND 1 \<noteq> 0"
proof -
  assume "flags AND 5 = (5 :: u64)"
  then have "(flags AND 5) AND 1 = (5 AND 1 :: u64)" by simp
  then show ?thesis by (simp add: and.assoc)
qed

lemma npt_map_page_sim:
  assumes "flags AND 5 = 5"
  shows "npt_outcome (relm_npt_map_page gpa hpa flags ctx h) = relm_ept_map_page gpa hpa flags (map_option npt_view ctx) h"
  using assms npt_flags_present [OF assms]
  by (auto simp: npt_outcome_def relm_npt_map_page_def relm_ept_map_page_def npt_index_eq npt_goc_eq Let_def
      ept_is_4kb_aligned_def npt_view_def split: option.splits prod.splits)

lemma npt_map_page_refused:
  "flags AND 5 \<noteq> 5 \<Longrightarrow> relm_npt_map_page gpa hpa flags ctx h = (Inl EINVAL, ctx, h)"
  by (simp add: relm_npt_map_page_def split: option.splits)

lemma npt_unmap_page_sim:
  "npt_outcome (relm_npt_unmap_page gpa ctx h) = relm_ept_unmap_page gpa (map_option npt_view ctx) h"
  by (auto simp: npt_outcome_def relm_npt_unmap_page_def relm_ept_unmap_page_def npt_index_eq Let_def
      npt_view_def split: option.splits)

lemma npt_get_mapping_sim:
  "relm_npt_get_mapping gpa ctx h = relm_ept_get_mapping gpa (map_option npt_view ctx) h"
  by (auto simp: relm_npt_get_mapping_def relm_ept_get_mapping_def npt_index_eq Let_def split: option.splits)

lemma npt_setup_sim:
  assumes "relm_npt_check_support ecx edx" "relm_ept_check_support cap"
  shows "npt_outcome (relm_setup_npt ecx edx h) = relm_setup_ept cap h"
  using assms
  by (auto simp: npt_outcome_def relm_setup_npt_def relm_setup_ept_def relm_npt_context_create_def
      relm_ept_context_create_def npt_view_def split: prod.splits option.splits sum.splits if_splits)

lemma npt_outcomeD: "npt_outcome (r, c, h) = (r', c', h') \<Longrightarrow> r' = r \<and> c' = map_option npt_view c \<and> h' = h"
  by (simp add: npt_outcome_def)

section \<open>The invariant and the memory-operations contract\<close>

abbreviation npt_tables :: "mem \<Rightarrow> u64 \<Rightarrow> u64 set" where "npt_tables \<equiv> ept_tables"

definition npt_ok :: "npt_context \<Rightarrow> host \<Rightarrow> bool" where
  "npt_ok npt h \<longleftrightarrow> (\<exists>r. n_pml4 npt = Some r \<and> n_pml4_pa npt = r \<and> ept_tree r h \<and>
     n_pages_4kb npt = word_of_nat (card (ept_mapped (pmem h) r)) \<and>
     n_pages_2mb npt = 0 \<and> n_total_mapped npt = NPT_PAGE_SIZE_4KB * n_pages_4kb npt)"

lemma npt_ok_view: "npt_ok npt h \<longleftrightarrow> ept_ok (npt_view npt) h"
  by (auto simp: npt_ok_def ept_ok_def npt_view_def)

definition npt_state_ok :: "npt_context option \<times> host \<Rightarrow> bool" where
  "npt_state_ok s = (case s of (None, h) \<Rightarrow> False | (Some npt, h) \<Rightarrow> npt_ok npt h)"

text \<open>The leaf entry that translates \<open>gpa\<close>.\<close>

definition npt_state_entry :: "npt_context option \<times> host \<Rightarrow> u64 \<Rightarrow> u64 option" where
  "npt_state_entry s g = (case s of (None, h) \<Rightarrow> None | (Some npt, h) \<Rightarrow> ept_entry (npt_view npt) h g)"

definition npt_mem_entry :: "u64 \<Rightarrow> u64 \<Rightarrow> u64" where
  "npt_mem_entry hpa flags = (hpa AND NPT_ADDR_MASK) OR npt_flags_of flags"

definition svm_map_op :: "u64 \<Rightarrow> u64 \<Rightarrow> u64 \<Rightarrow> npt_context option \<times> host \<Rightarrow> unit res \<times> npt_context option \<times> host" where
  "svm_map_op gpa hpa flags s = svm_mem_map_page gpa hpa flags (fst s) (snd s)"

definition svm_unmap_op :: "u64 \<Rightarrow> npt_context option \<times> host \<Rightarrow> npt_context option \<times> host" where
  "svm_unmap_op gpa s = svm_mem_unmap_page gpa (fst s) (snd s)"

lemma npt_flags_valid: "npt_flags_of flags AND 5 = 5"
  by (simp add: npt_flags_of_def Let_def)

lemma npt_flags_no_addr: "npt_flags_of flags AND NPT_ADDR_MASK = 0"
  by (simp add: npt_flags_of_def Let_def)

lemma npt_map_page_spec:
  assumes ok: "npt_ok npt h" and m: "relm_npt_map_page gpa hpa flags (Some npt) h = (res, ctx', h')"
  obtains npt' r where "ctx' = Some npt'" "n_pml4 npt = Some r" "n_pml4 npt' = Some r" "npt_ok npt' h'"
    "\<And>g. ept_entry (npt_view npt') h' g =
       (if res = Inr () \<and> ept_path g = ept_path gpa then Some (ept_new_entry hpa flags) else ept_entry (npt_view npt) h g)"
    "npt_tables (pmem h') r \<union> set (pool h') = npt_tables (pmem h) r \<union> set (pool h)"
    "npt_tables (pmem h) r \<subseteq> npt_tables (pmem h') r"
    "\<And>x. page_base x \<notin> npt_tables (pmem h') r \<Longrightarrow> pmem h' x = pmem h x"
proof (cases "flags AND 5 = 5")
  case True
  from npt_map_page_sim [OF True, of gpa hpa "Some npt" h] m
  have "relm_ept_map_page gpa hpa flags (Some (npt_view npt)) h = (res, map_option npt_view ctx', h')"
    by (simp add: npt_outcome_def)
  from ept_map_page_spec [OF ok [unfolded npt_ok_view] this] that show ?thesis
    by (auto simp: npt_ok_view tree_frames_def)
next
  case False
  with m ok that [of npt] show ?thesis by (auto simp: npt_map_page_refused npt_ok_def)
qed

lemma npt_unmap_page_spec:
  assumes ok: "npt_ok npt h" and m: "relm_npt_unmap_page gpa (Some npt) h = (res, ctx', h')"
  obtains npt' where "ctx' = Some npt'" "npt_ok npt' h'"
    "\<And>g. ept_entry (npt_view npt') h' g = (if ept_path g = ept_path gpa then None else ept_entry (npt_view npt) h g)"
proof -
  from npt_unmap_page_sim [of gpa "Some npt" h] m
  have "relm_ept_unmap_page gpa (Some (npt_view npt)) h = (res, map_option npt_view ctx', h')"
    by (simp add: npt_outcome_def)
  from ept_unmap_page_spec [OF ok [unfolded npt_ok_view] this] that show ?thesis by (auto simp: npt_ok_view)
qed

interpretation svm_ops: mem_ops svm_map_op svm_unmap_op npt_state_entry ept_path npt_mem_entry npt_state_ok
proof unfold_locales
  fix s gpa hpa flags res s'
  assume ok: "npt_state_ok s" and m: "svm_map_op gpa hpa flags s = (res, s')"
  then obtain npt h where s: "s = (Some npt, h)" "npt_ok npt h"
    by (auto simp: npt_state_ok_def split: prod.splits option.splits)
  obtain ctx' h' where s': "s' = (ctx', h')" by force
  from m s s' have m': "relm_npt_map_page gpa hpa (npt_flags_of flags) (Some npt) h = (res, ctx', h')"
    by (simp add: svm_map_op_def svm_mem_map_page_def)
  obtain npt' where 1: "ctx' = Some npt'" "npt_ok npt' h'" and
    2: "\<And>g. ept_entry (npt_view npt') h' g = (if res = Inr () \<and> ept_path g = ept_path gpa
      then Some (npt_mem_entry hpa flags) else ept_entry (npt_view npt) h g)"
    unfolding npt_mem_entry_def ept_new_entry_def [symmetric] by (rule npt_map_page_spec [OF s(2) m']) blast
  show "npt_state_ok s'" using 1 s' by (simp add: npt_state_ok_def)
  show "npt_state_entry s' g = (if res = Inr () \<and> ept_path g = ept_path gpa
           then Some (npt_mem_entry hpa flags) else npt_state_entry s g)" for g
    using 1 2 s s' by (simp add: npt_state_entry_def)
next
  fix s gpa
  assume ok: "npt_state_ok s"
  then obtain npt h where s: "s = (Some npt, h)" "npt_ok npt h"
    by (auto simp: npt_state_ok_def split: prod.splits option.splits)
  obtain res ctx' h' where u: "relm_npt_unmap_page gpa (Some npt) h = (res, ctx', h')" by (metis prod_cases3)
  obtain npt' where 1: "ctx' = Some npt'" "npt_ok npt' h'" and
    2: "\<And>g. ept_entry (npt_view npt') h' g = (if ept_path g = ept_path gpa then None else ept_entry (npt_view npt) h g)"
    by (rule npt_unmap_page_spec [OF s(2) u]) blast
  have o: "svm_unmap_op gpa s = (Some npt', h')"
    using 1 s u by (simp add: svm_unmap_op_def svm_mem_unmap_page_def)
  show "npt_state_ok (svm_unmap_op gpa s)" unfolding o using 1 by (simp add: npt_state_ok_def)
  show "npt_state_entry (svm_unmap_op gpa s) g = (if ept_path g = ept_path gpa then None else npt_state_entry s g)" for g
    unfolding o using 2 s by (simp add: npt_state_entry_def)
qed

section \<open>Guest RAM over nested page tables\<close>

definition npt_tabs :: "npt_context option \<times> host \<Rightarrow> u64 set" where
  "npt_tabs s = (case s of (Some npt, h) \<Rightarrow> (case n_pml4 npt of Some r \<Rightarrow> npt_tables (pmem h) r | None \<Rightarrow> {}) | _ \<Rightarrow> {})"

definition npt_state_view :: "npt_context option \<times> host \<Rightarrow> ept_context option \<times> host" where
  "npt_state_view s = (map_option npt_view (fst s), snd s)"

lemma npt_state_view_simps:
  "npt_state_ok s \<longleftrightarrow> ept_state_ok (npt_state_view s)" "npt_state_entry s = ept_state_entry (npt_state_view s)"
  "npt_tabs s = ept_tabs (npt_state_view s)"
  by (auto simp: npt_state_view_def npt_state_ok_def ept_state_ok_def npt_state_entry_def ept_state_entry_def
      npt_tabs_def ept_tabs_def npt_ok_view split: prod.splits option.splits)

interpretation svm_paged: paged_backend svm_map_op svm_unmap_op npt_state_entry ept_path npt_mem_entry npt_state_ok npt_tabs
proof unfold_locales
  fix s assume "npt_state_ok s"
  then show "host_ok (snd s) \<and> npt_tabs s \<inter> set (pool (snd s)) = {}"
    using vmx_guest.inv_host [of "npt_state_view s"] unfolding npt_state_view_simps by (simp add: npt_state_view_def)
next
  fix c h f fs g
  assume "npt_state_ok (c, h)" and "pool h = f # fs"
  then show "npt_state_ok (c, h\<lparr>pool := fs, pmem := zero_page (pmem h) f\<rparr>) \<and>
      npt_tabs (c, h\<lparr>pool := fs, pmem := zero_page (pmem h) f\<rparr>) = npt_tabs (c, h) \<and>
      npt_state_entry (c, h\<lparr>pool := fs, pmem := zero_page (pmem h) f\<rparr>) g = npt_state_entry (c, h) g"
    unfolding npt_state_view_simps npt_state_view_def fst_conv snd_conv by (rule vmx_guest.take_page)
next
  fix c h bs g
  show "npt_state_ok (c, h\<lparr>kmem := bs\<rparr>) = npt_state_ok (c, h)"
    unfolding npt_state_view_simps npt_state_view_def fst_conv snd_conv by (rule vmx_guest.kmem_inv)
  show "npt_state_entry (c, h\<lparr>kmem := bs\<rparr>) g = npt_state_entry (c, h) g"
    unfolding npt_state_view_simps npt_state_view_def fst_conv snd_conv by (rule vmx_guest.kmem_entry)
  fix f
  show "npt_state_entry (c, free_page f h) g = npt_state_entry (c, h) g"
    unfolding npt_state_view_simps npt_state_view_def fst_conv snd_conv by (rule vmx_guest.free_entry)
next
  fix s gpa hpa flags res s'
  assume ok: "npt_state_ok s" and m: "svm_map_op gpa hpa flags s = (res, s')"
  then obtain npt h where s: "s = (Some npt, h)" "npt_ok npt h"
    by (auto simp: npt_state_ok_def split: prod.splits option.splits)
  obtain ctx' h' where s': "s' = (ctx', h')" by force
  from m s s' have m': "relm_npt_map_page gpa hpa (npt_flags_of flags) (Some npt) h = (res, ctx', h')"
    by (simp add: svm_map_op_def svm_mem_map_page_def)
  obtain npt' r where "ctx' = Some npt'" "n_pml4 npt = Some r" "n_pml4 npt' = Some r"
    "npt_tables (pmem h') r \<union> set (pool h') = npt_tables (pmem h) r \<union> set (pool h)"
    "npt_tables (pmem h) r \<subseteq> npt_tables (pmem h') r"
    "\<And>x. page_base x \<notin> npt_tables (pmem h') r \<Longrightarrow> pmem h' x = pmem h x"
    by (rule npt_map_page_spec [OF s(2) m']) blast
  then show "npt_tabs s' \<union> set (pool (snd s')) = npt_tabs s \<union> set (pool (snd s)) \<and> npt_tabs s \<subseteq> npt_tabs s' \<and>
      (\<forall>x. page_base x \<notin> npt_tabs s' \<longrightarrow> pmem (snd s') x = pmem (snd s) x)"
    using s s' by (simp add: npt_tabs_def)
next
  fix g g'
  show "ept_path g = ept_path g' \<longleftrightarrow> take_bit 36 (drop_bit 12 g) = take_bit 36 (drop_bit 12 g')"
    by (rule ept_path_eq_iff)
qed

text \<open>The page tables handed to the guest: the nested-paging file writes the same images as the
  extended-paging one.\<close>

definition relm_npt_create_guest_page_tables :: "(relm_vm_memory \<times> npt_context option) option \<Rightarrow> u64 \<Rightarrow> host
    \<Rightarrow> unit res option \<times> u64 \<times> host" where
  "relm_npt_create_guest_page_tables vm arch_pml4_gpa h =
     (case vm of None \<Rightarrow> (Some (Inl EINVAL), arch_pml4_gpa, h)
      | Some (mm, None) \<Rightarrow> (Some (Inl EINVAL), arch_pml4_gpa, h)
      | Some (mm, Some npt) \<Rightarrow>
        let pml4_gpa = total_guest_ram mm - 3 * 0x1000; pdpt_gpa = pml4_gpa + 0x1000; pd_gpa = pml4_gpa + 2 * 0x1000;
            (ok, h) = kzalloc h in
        if \<not> ok then (Some (Inl ENOMEM), arch_pml4_gpa, h)
        else (case relm_vm_copy_to_guest (Some mm) pd_gpa (Some pd_image) h of
          (Fault, h) \<Rightarrow> (None, arch_pml4_gpa, h)
        | (Ret (Inl e), h) \<Rightarrow> (Some (Inl e), arch_pml4_gpa, h)
        | (Ret (Inr _), h) \<Rightarrow>
          (case relm_vm_copy_to_guest (Some mm) pdpt_gpa (Some (link_image pd_gpa)) h of
            (Fault, h) \<Rightarrow> (None, arch_pml4_gpa, h)
          | (Ret (Inl e), h) \<Rightarrow> (Some (Inl e), arch_pml4_gpa, h)
          | (Ret (Inr _), h) \<Rightarrow>
            (case relm_vm_copy_to_guest (Some mm) pml4_gpa (Some (link_image pdpt_gpa)) h of
              (Fault, h) \<Rightarrow> (None, arch_pml4_gpa, h)
            | (Ret (Inl e), h) \<Rightarrow> (Some (Inl e), arch_pml4_gpa, h)
            | (Ret (Inr _), h) \<Rightarrow> (Some (Inr ()), pml4_gpa, h)))))"

lemma npt_create_tables_eq:
  "relm_npt_create_guest_page_tables vm a h =
     relm_ept_create_guest_page_tables (map_option (map_prod (\<lambda>mm. mm) (map_option npt_view)) vm) a h"
  by (cases vm) (auto simp: relm_npt_create_guest_page_tables_def relm_ept_create_guest_page_tables_def split: option.splits)

section \<open>Properties\<close>

lemma npt_support_pair: "relm_ept_check_support 0x104040"
  by (simp add: relm_ept_check_support_def)

lemma setup_npt_ok:
  assumes h: "host_ok h" and s: "relm_setup_npt ecx edx h = (Inr (), ctx, h')"
  obtains npt where "ctx = Some npt" "npt_ok npt h'" "\<And>g. ept_entry (npt_view npt) h' g = None"
proof -
  have "relm_npt_check_support ecx edx" using s by (auto simp: relm_setup_npt_def split: if_splits)
  from npt_setup_sim [OF this npt_support_pair, of h] s
  have "relm_setup_ept 0x104040 h = (Inr (), map_option npt_view ctx, h')" by (simp add: npt_outcome_def)
  then obtain ept where
    "map_option npt_view ctx = Some ept" "ept_ok ept h'" "\<And>g. ept_entry ept h' g = None"
    by (rule setup_ept_ok [OF h]) blast
  moreover from this(1) obtain npt where "ctx = Some npt" "ept = npt_view npt" by (cases ctx) auto
  ultimately show ?thesis by (intro that [of npt]) (simp_all add: npt_ok_view)
qed

text \<open>(C10) Refinement by nested page tables: from a fresh context, any sequence of map and unmap calls through the
  memory operations leaves the tables translating like the abstract partial map from page numbers
  to entries, updated by the calls that succeeded.\<close>

theorem npt_run_refines:
  assumes "host_ok h" and "relm_setup_npt ecx edx h = (Inr (), ctx, h1)"
    and "mem_run svm_map_op svm_unmap_op ops (ctx, h1) = (rs, s')"
  shows "npt_state_entry s' g = fold (abs_step ept_path npt_mem_entry) (zip ops rs) (\<lambda>_. None) (ept_path g)"
proof -
  from setup_npt_ok [OF assms(1,2)] obtain npt where
    e: "ctx = Some npt" "npt_ok npt h1" "\<And>g. ept_entry (npt_view npt) h1 g = None" by blast
  then have "svm_ops.represents (ctx, h1) (\<lambda>_. None)"
    by (simp add: svm_ops.represents_def npt_state_ok_def npt_state_entry_def)
  from svm_ops.run_refines [OF this assms(3)] show ?thesis by (simp add: svm_ops.represents_def)
qed

definition demo_npt :: npt_context where
  "demo_npt = \<lparr>n_pml4 = Some 0x1000, n_pml4_pa = 0x1000, n_pages_4kb = 0, n_pages_2mb = 0, n_pages_1gb = 0, n_total_mapped = 0\<rparr>"

lemma demo_npt_setup: "relm_setup_npt 4 1 demo_host = (Inr (), Some demo_npt, demo_host1)"
  by (simp add: relm_setup_npt_def relm_npt_check_support_def relm_npt_context_create_def kzalloc_def
      demo_host_def demo_npt_def demo_host1_def)

lemma demo_npt_ok: "npt_ok demo_npt demo_host1"
  using setup_npt_ok [OF demo_host_ok demo_npt_setup] by auto

theorem npt_run_refines_witness:
  "npt_state_entry (snd (mem_run svm_map_op svm_unmap_op [MapPage 0x7000 0x9000 3, UnmapPage 0x7000] (Some demo_npt, demo_host1))) 0x7000 = None"
proof -
  let ?ops = "[MapPage 0x7000 0x9000 3, UnmapPage 0x7000]"
  obtain rs s' where m: "mem_run svm_map_op svm_unmap_op ?ops (Some demo_npt, demo_host1) = (rs, s')"
    by (metis surj_pair)
  moreover have "length rs = 2" using m by (auto simp: Let_def split: prod.splits)
  ultimately show ?thesis
    using npt_run_refines [OF demo_host_ok demo_npt_setup m, of "0x7000"]
    by (auto simp: numeral_eq_Suc length_Suc_conv)
qed

text \<open>The software view of guest RAM and the nested page tables agree: after a successful allocation through
  the SVM operations every byte of the region has the same host address in both, and it is zero.\<close>

theorem npt_guest_ram_views_agree:
  assumes ok: "npt_state_ok (ctx, h)" and al: "PAGE_ALIGNED g0" and sz: "PAGE_ALIGN sz \<le> 2 ^ 48"
    and run: "relm_vm_allocate_guest_ram svm_map_op sz g0 (Some mm) (ctx, h) = (Inr (), Some mm', (ctx', h'))"
    and a: "g0 \<le> a" "a < g0 + PAGE_ALIGN sz"
  shows "\<exists>x. guest_hpa (mem_regions mm') a = Some x \<and> relm_npt_get_mapping a ctx' h' = Inr x \<and> pmem h' x = 0"
proof -
  obtain f d where v: "frame_ok f" "unat d < 4096" "EPT_PAGE_OFFSET a = d"
    "guest_hpa (mem_regions mm') a = Some (f + d)" "npt_state_entry (ctx', h') a = Some (npt_mem_entry f 7)"
    "pmem h' (f + d) = 0" "npt_state_ok (ctx', h')"
    by (rule svm_paged.ram_views [OF assms])
  from v(7) obtain npt' r where c: "ctx' = Some npt'" "n_pml4 npt' = Some r"
    by (auto simp: npt_state_ok_def npt_ok_def split: option.splits)
  have "ept_addr (npt_mem_entry f 7) = f"
    using ept_addr_new_entry [OF v(1) npt_flags_no_addr] by (simp add: npt_mem_entry_def ept_new_entry_def)
  then have "relm_npt_get_mapping a ctx' h' = Inr (f + d)"
    using v c page_offset_or [OF v(1,2)]
    by (simp add: npt_get_mapping_sim get_mapping_entry npt_state_entry_def)
  with v show ?thesis by blast
qed

lemma demo_npt_first_page:
  "\<exists>s'. svm_map_op 0 0x2000 7 (Some demo_npt,
     demo_host1\<lparr>kmem := [], pool := [0x3000, 0x4000, 0x5000], pmem := zero_page (pmem demo_host1) 0x2000\<rparr>) = (Inr (), s')"
  (is "\<exists>s'. svm_map_op _ _ _ (_, ?h) = _")
proof -
  obtain c h' where e: "relm_ept_map_page 0 0x2000 (npt_flags_of 7) (Some (npt_view demo_npt)) ?h = (Inr (), c, h')"
    using ept_map_page_succeeds [of "npt_view demo_npt" "0x1000" 0 "0x2000" "npt_flags_of 7" ?h]
      npt_flags_present [OF npt_flags_valid]
    by (auto simp: demo_npt_def PAGE_ALIGNED_def)
  obtain rc c1 h1 where n: "relm_npt_map_page 0 0x2000 (npt_flags_of 7) (Some demo_npt) ?h = (rc, c1, h1)" by (metis prod_cases3)
  from npt_map_page_sim [OF npt_flags_valid, of 0 "0x2000" 7 "Some demo_npt" ?h] e n have "rc = Inr ()"
    by (simp add: npt_outcome_def)
  with n show ?thesis by (simp add: svm_map_op_def svm_mem_map_page_def)
qed

definition demo_npt_state :: "npt_context option \<times> host" where
  "demo_npt_state = (Some demo_npt, demo_host1\<lparr>kmem := [True, True]\<rparr>)"

theorem npt_guest_ram_views_agree_witness:
  "\<exists>mm' ctx' h' x. relm_vm_allocate_guest_ram svm_map_op 0x1000 0 (Some mmio_empty) demo_npt_state = (Inr (), Some mm', (ctx', h')) \<and>
     guest_hpa (mem_regions mm') 0x10 = Some x \<and> relm_npt_get_mapping 0x10 ctx' h' = Inr x"
proof -
  obtain s' where "svm_map_op 0 0x2000 7 (Some demo_npt,
     demo_host1\<lparr>kmem := [], pool := [0x3000, 0x4000, 0x5000], pmem := zero_page (pmem demo_host1) 0x2000\<rparr>) = (Inr (), s')"
    using demo_npt_first_page by blast
  then have "\<exists>mm' ctx' h'. relm_vm_allocate_guest_ram svm_map_op 0x1000 0 (Some mmio_empty) demo_npt_state = (Inr (), Some mm', (ctx', h'))"
    by (cases s') (simp add: relm_vm_allocate_guest_ram_def demo_npt_state_def kzalloc_def demo_host1_def PAGE_ALIGN_def Let_def)
  then obtain mm' ctx' h' where m: "relm_vm_allocate_guest_ram svm_map_op 0x1000 0 (Some mmio_empty)
      (fst demo_npt_state, snd demo_npt_state) = (Inr (), Some mm', (ctx', h'))" by auto
  have "npt_state_ok (fst demo_npt_state, snd demo_npt_state)"
    using demo_npt_ok svm_paged.kmem_inv [where c = "Some demo_npt" and h = demo_host1 and bs = "[True, True]"]
    by (simp add: demo_npt_state_def npt_state_ok_def)
  from npt_guest_ram_views_agree [OF this _ _ m, of "0x10"] m show ?thesis
    by (auto simp: PAGE_ALIGNED_def PAGE_ALIGN_def)
qed

text \<open>Large strides of the RAM loop are skipped.\<close>

lemma aligned_step:
  assumes "g AND 0x1FFFFF = (0 :: u64)"
  shows "g + 0x200000 AND 0x1FFFFF = (0 :: u64)"
proof -
  have m: "x AND 0x1FFFFF = take_bit 21 x" for x :: u64
    by (simp add: take_bit_eq_mask mask_eq_exp_minus_1)
  have "g = push_bit 21 (drop_bit 21 g)" using assms bits_ident [of 21 g] unfolding m by simp
  then have "g + 0x200000 = push_bit 21 (drop_bit 21 g) + 0x200000" by simp
  also have "\<dots> = push_bit 21 (drop_bit 21 g + 1)" by (simp add: push_bit_eq_mult distrib_right)
  finally have "g + 0x200000 = push_bit 21 (drop_bit 21 g + 1)" .
  then show ?thesis unfolding m by (simp only: take_bit_push_bit) simp
qed

lemma skip_strides:
  assumes "gpa AND 0x1FFFFF = 0" "hpa AND 0x1FFFFF = 0" "unat gpa + n * 0x200000 < 2 ^ 64"
    and "\<forall>k<n. \<not> npt_range_overlaps_mmio vm (gpa + word_of_nat k * 0x200000) 0x200000"
  shows "npt_map_ram_strides vm (gpa + word_of_nat n * 0x200000) ret gpa hpa flags ctx h =
    (if n = 0 then (Inr (), ctx, h) else (ret, ctx, h))"
  using assms
proof (induction n arbitrary: gpa hpa)
  case 0
  then show ?case by (simp add: npt_map_ram_strides.simps)
next
  case (Suc n)
  let ?e = "gpa + word_of_nat (Suc n) * 0x200000"
  have u: "unat (word_of_nat (Suc n) * 0x200000 :: u64) = Suc n * 0x200000"
    using Suc.prems(3) by (simp add: unat_word_ariths unat_of_nat mod_less)
  then have ue: "unat ?e = unat gpa + Suc n * 0x200000" using Suc.prems(3) by (subst unat_add_lem [THEN iffD1]) auto
  have lt: "gpa < ?e" unfolding word_less_nat_alt ue by simp
  have fits: "0x200000 \<le> ?e - gpa" by (simp only: add_diff_cancel_left' word_le_nat_alt u) simp
  have no: "\<not> npt_range_overlaps_mmio vm gpa 0x200000" using Suc.prems(4) by force
  have step: "npt_map_ram_strides vm ?e ret gpa hpa flags ctx h =
     (case ret of Inl e \<Rightarrow> (Inl e, ctx, h)
      | Inr _ \<Rightarrow> npt_map_ram_strides vm ?e ret (gpa + 0x200000) (hpa + 0x200000) flags ctx h)"
    using lt fits no Suc.prems(1,2) by (subst npt_map_ram_strides.simps) (simp add: Let_def)
  show ?case
  proof (cases ret)
    case (Inr u)
    have e2: "?e = (gpa + 0x200000) + word_of_nat n * 0x200000" by (simp add: algebra_simps)
    have "\<forall>k<n. \<not> npt_range_overlaps_mmio vm (gpa + 0x200000 + word_of_nat k * 0x200000) 0x200000"
    proof (intro allI impI)
      fix k assume "k < n"
      then show "\<not> npt_range_overlaps_mmio vm (gpa + 0x200000 + word_of_nat k * 0x200000) 0x200000"
        using Suc.prems(4) [rule_format, of "Suc k"] by (simp add: algebra_simps)
    qed
    moreover have "unat (gpa + 0x200000) + n * 0x200000 < 2 ^ 64"
    proof -
      have "unat (gpa + 0x200000) \<le> unat gpa + unat (0x200000 :: u64)" by (simp only: unat_word_ariths mod_less_eq_dividend)
      then show ?thesis using Suc.prems(3) by simp
    qed
    ultimately have "npt_map_ram_strides vm ?e ret (gpa + 0x200000) (hpa + 0x200000) flags ctx h = (Inr (), ctx, h)"
      unfolding e2 using Suc.IH [of "gpa + 0x200000" "hpa + 0x200000"] aligned_step Suc.prems(1,2) Inr by simp
    with step Inr show ?thesis by simp
  qed (use step in simp)
qed

text \<open>The huge-page variant of the RAM mapping maps nothing: over any range of whole aligned 2 MiB strides
  clear of MMIO windows it returns its uninitialised local variable, leaving tables and context as they
  were. When that variable happens to hold zero the caller sees success and an empty mapping.\<close>

theorem npt_ram_huge_maps_nothing:
  assumes "gpa AND 0x1FFFFF = 0" and "hpa AND 0x1FFFFF = 0" and "0 < n" and "unat gpa + n * 0x200000 < 2 ^ 64"
    and "\<forall>k<n. \<not> npt_range_overlaps_mmio vm (gpa + word_of_nat k * 0x200000) 0x200000"
  shows "relm_npt_map_guest_ram_huge ret0 vm gpa hpa (word_of_nat n * 0x200000) flags (Some npt) h = (ret0, Some npt, h)"
proof -
  have "PAGE_ALIGN (word_of_nat n * 0x200000) = word_of_nat n * 0x200000"
  proof -
    have "word_of_nat n * 0x200000 = push_bit 12 (word_of_nat n * 0x200 :: u64)" by (simp add: push_bit_eq_mult)
    then have "PAGE_ALIGNED (word_of_nat n * 0x200000)" unfolding PAGE_ALIGNED_iff by (simp only: take_bit_push_bit) simp
    then show ?thesis
      using page_base_add [of "word_of_nat n * 0x200000" "0xFFF"] by (simp add: PAGE_ALIGN_def page_base_def)
  qed
  then show ?thesis
    using skip_strides [OF assms(1,2,4,5), of ret0 flags "Some npt" h] assms(3)
    by (simp add: relm_npt_map_guest_ram_huge_def)
qed

theorem npt_ram_huge_maps_nothing_witness:
  "relm_npt_map_guest_ram_huge (Inr ()) None 0x400000 0x600000 0x200000 7 (Some demo_npt) demo_host1 = (Inr (), Some demo_npt, demo_host1)"
  using npt_ram_huge_maps_nothing [of "0x400000" "0x600000" 1 None "Inr ()" 7 demo_npt demo_host1]
  by (simp add: npt_range_overlaps_mmio_def)

end
