(* ===== verification/Relm_Decoder.thy ===== *)
theory Relm_Decoder
  imports Relm_Prelude
begin

text \<open>
  The instruction decoder contract used by MMIO emulation: include/relm/decoder.h (the decoded
  instruction, register lanes), src/arch/x86/decoder/utils.c (the adapter over Zydis) and
  src/core/decoder.c (the dispatcher, built for x86). Zydis is a vendored third-party library: its
  decoder, register classes and enclosing-register map are arguments of the model, with the fields
  of its result the adapter reads. The theorems hold for every such decoder: whatever it reports,
  an accepted instruction satisfies the contract the emulators rely on.
\<close>

section \<open>Data\<close>

datatype relm_memory_access = RELM_MEMORY_ACCESS_INVALID | RELM_MEMORY_ACCESS_READ | RELM_MEMORY_ACCESS_WRITE

datatype relm_operand_kind = RELM_OPERAND_INVALID | RELM_OPERAND_GPR | RELM_OPERAND_IMMEDIATE

datatype relm_gpr_write_semantics = RELM_GPR_WRITE_NONE | RELM_GPR_WRITE_MERGE
  | RELM_GPR_WRITE_ZERO_EXTEND | RELM_GPR_WRITE_REPLACE

record relm_decoded_insn =
  di_length :: nat
  di_memory_access :: relm_memory_access
  di_memory_width :: nat
  di_operand_kind :: relm_operand_kind
  di_immediate :: u64
  di_gpr_index :: int
  di_gpr_width :: nat
  di_gpr_bit_offset :: nat
  di_gpr_write_semantics :: relm_gpr_write_semantics

definition relm_width_mask :: "nat \<Rightarrow> u64" where
  "relm_width_mask width =
     (if width = 1 then 0xFF else if width = 2 then 0xFFFF else if width = 4 then 0xFFFFFFFF
      else if width = 8 then NOT 0 else 0)"

definition relm_decoded_has_valid_gpr :: "relm_decoded_insn option \<Rightarrow> bool" where
  "relm_decoded_has_valid_gpr decoded = (case decoded of None \<Rightarrow> False
   | Some d \<Rightarrow>
       if di_operand_kind d \<noteq> RELM_OPERAND_GPR then False
       else if di_gpr_index d < 0 \<or> di_gpr_index d \<ge> 16 then False
       else if relm_width_mask (di_gpr_width d) = 0 then False
       else if di_gpr_bit_offset d = 0 then True
       else di_gpr_width d = 1 \<and> di_gpr_bit_offset d = 8)"

definition relm_decoded_gpr_extract :: "relm_decoded_insn \<Rightarrow> u64 \<Rightarrow> u64" where
  "relm_decoded_gpr_extract d enclosing_value =
     (if \<not> relm_decoded_has_valid_gpr (Some d) then 0
      else drop_bit (di_gpr_bit_offset d) enclosing_value AND relm_width_mask (di_gpr_width d))"

definition relm_decoded_gpr_commit :: "relm_decoded_insn \<Rightarrow> u64 \<Rightarrow> u64 \<Rightarrow> u64" where
  "relm_decoded_gpr_commit d old_value transferred_value =
     (if \<not> relm_decoded_has_valid_gpr (Some d) then old_value
      else let mask = relm_width_mask (di_gpr_width d) in
       case di_gpr_write_semantics d of
         RELM_GPR_WRITE_MERGE \<Rightarrow>
           let lane_mask = push_bit (di_gpr_bit_offset d) mask in
           (old_value AND NOT lane_mask) OR push_bit (di_gpr_bit_offset d) (transferred_value AND mask)
       | RELM_GPR_WRITE_ZERO_EXTEND \<Rightarrow> transferred_value AND mask
       | RELM_GPR_WRITE_REPLACE \<Rightarrow> transferred_value AND mask
       | RELM_GPR_WRITE_NONE \<Rightarrow> old_value)"

section \<open>The Zydis results the adapter reads\<close>

datatype zydis_operand_type = ZYDIS_OPERAND_TYPE_REGISTER | ZYDIS_OPERAND_TYPE_MEMORY
  | ZYDIS_OPERAND_TYPE_IMMEDIATE | ZYDIS_OPERAND_TYPE_OTHER

datatype zydis_regclass = ZYDIS_REGCLASS_GPR8 | ZYDIS_REGCLASS_GPR16 | ZYDIS_REGCLASS_GPR32
  | ZYDIS_REGCLASS_GPR64 | ZYDIS_REGCLASS_OTHER

text \<open>Registers are the enumerators of the Zydis header by number: AH, CH, DH, BH are 5 to 8 and RAX to
  R15 are 53 to 68. Operand sizes are in bits.\<close>

record zydis_operand =
  zo_type :: zydis_operand_type
  zo_explicit :: bool
  zo_size :: nat
  zo_actions :: u8
  zo_reg :: nat
  zo_mem_is_mem :: bool
  zo_imm_is_relative :: bool
  zo_imm :: u64

record zydis_instruction =
  zi_is_mov :: bool
  zi_has_lock :: bool
  zi_operands :: "zydis_operand list"
  zi_length :: nat

record zydis =
  zydis_decode :: "u8 list \<Rightarrow> zydis_instruction option"
  zydis_register_class :: "nat \<Rightarrow> zydis_regclass"
  zydis_largest_enclosing :: "nat \<Rightarrow> nat"

abbreviation (input) ZYDIS_REGISTER_RAX :: nat where "ZYDIS_REGISTER_RAX \<equiv> 53"
abbreviation (input) ZYDIS_REGISTER_R15 :: nat where "ZYDIS_REGISTER_R15 \<equiv> 68"

section \<open>The adapter\<close>

definition relm_zydis_decode_gpr :: "zydis \<Rightarrow> zydis_operand \<Rightarrow> relm_decoded_insn \<Rightarrow> relm_decoded_insn res" where
  "relm_zydis_decode_gpr z operand out =
     (if zo_type operand \<noteq> ZYDIS_OPERAND_TYPE_REGISTER then Inl EOPNOTSUPP
      else if zydis_register_class z (zo_reg operand) = ZYDIS_REGCLASS_OTHER then Inl EOPNOTSUPP
      else if zo_size operand = 0 \<or> zo_size operand mod 8 \<noteq> 0 then Inl EOPNOTSUPP
      else let out = out\<lparr>di_gpr_width := zo_size operand div 8\<rparr> in
      if relm_width_mask (di_gpr_width out) = 0 then Inl EOPNOTSUPP
      else let enclosing = zydis_largest_enclosing z (zo_reg operand) in
      if enclosing < ZYDIS_REGISTER_RAX \<or> enclosing > ZYDIS_REGISTER_R15 then Inl EOPNOTSUPP
      else let out = out\<lparr>di_gpr_index := int enclosing - int ZYDIS_REGISTER_RAX,
                         di_gpr_bit_offset := (if zo_reg operand \<in> {5, 6, 7, 8} then 8 else 0)\<rparr>
           in if relm_decoded_has_valid_gpr (Some out) then Inr out else Inl EOPNOTSUPP)"

definition relm_zydis_set_load_semantics :: "relm_decoded_insn \<Rightarrow> relm_decoded_insn res" where
  "relm_zydis_set_load_semantics out =
     (if di_gpr_width out = 1 \<or> di_gpr_width out = 2 then Inr (out\<lparr>di_gpr_write_semantics := RELM_GPR_WRITE_MERGE\<rparr>)
      else if di_gpr_width out = 4 then Inr (out\<lparr>di_gpr_write_semantics := RELM_GPR_WRITE_ZERO_EXTEND\<rparr>)
      else if di_gpr_width out = 8 then Inr (out\<lparr>di_gpr_write_semantics := RELM_GPR_WRITE_REPLACE\<rparr>)
      else Inl EOPNOTSUPP)"

text \<open>The loop that sorts the two visible operands into the memory operand and the other one.\<close>

fun classify_operands :: "zydis_operand list \<Rightarrow> zydis_operand option \<Rightarrow> zydis_operand option
    \<Rightarrow> (zydis_operand option \<times> zydis_operand option) res" where
  "classify_operands [] memory value_operand = Inr (memory, value_operand)"
| "classify_operands (operand # rest) memory value_operand =
     (if \<not> zo_explicit operand then Inl EOPNOTSUPP
      else if zo_type operand = ZYDIS_OPERAND_TYPE_MEMORY then
        (if memory \<noteq> None then Inl EOPNOTSUPP else classify_operands rest (Some operand) value_operand)
      else (if value_operand \<noteq> None then Inl EOPNOTSUPP else classify_operands rest memory (Some operand)))"

definition decoded_blank :: relm_decoded_insn where
  "decoded_blank = \<lparr>di_length = 0, di_memory_access = RELM_MEMORY_ACCESS_INVALID, di_memory_width = 0,
     di_operand_kind = RELM_OPERAND_INVALID, di_immediate = 0, di_gpr_index = -1, di_gpr_width = 0,
     di_gpr_bit_offset = 0, di_gpr_write_semantics = RELM_GPR_WRITE_NONE\<rparr>"

text \<open>The memory operand: width and direction, checked against the direction of the value operand.\<close>

definition decode_memory :: "zydis_operand \<Rightarrow> zydis_operand \<Rightarrow> relm_decoded_insn \<Rightarrow> relm_decoded_insn res" where
  "decode_memory memory value_operand out =
     (if zo_size memory = 0 \<or> zo_size memory mod 8 \<noteq> 0 then Inl EOPNOTSUPP
      else let out = out\<lparr>di_memory_width := zo_size memory div 8\<rparr> in
      if relm_width_mask (di_memory_width out) = 0 then Inl EOPNOTSUPP
      else if zo_actions memory = 1 then
        (if zo_actions value_operand AND 0xA = 0 \<or> zo_actions value_operand AND 5 \<noteq> 0 then Inl EOPNOTSUPP
         else Inr (out\<lparr>di_memory_access := RELM_MEMORY_ACCESS_READ\<rparr>))
      else if zo_actions memory = 2 then
        (if zo_actions value_operand AND 5 = 0 \<or> zo_actions value_operand AND 0xA \<noteq> 0 then Inl EOPNOTSUPP
         else Inr (out\<lparr>di_memory_access := RELM_MEMORY_ACCESS_WRITE\<rparr>))
      else Inl EOPNOTSUPP)"

definition decode_value :: "zydis \<Rightarrow> zydis_operand \<Rightarrow> relm_decoded_insn \<Rightarrow> relm_decoded_insn res" where
  "decode_value z value_operand out =
     (case zo_type value_operand of
        ZYDIS_OPERAND_TYPE_REGISTER \<Rightarrow>
          (case relm_zydis_decode_gpr z value_operand (out\<lparr>di_operand_kind := RELM_OPERAND_GPR\<rparr>) of
             Inl e \<Rightarrow> Inl e
           | Inr out \<Rightarrow>
               if di_gpr_width out \<noteq> di_memory_width out then Inl EOPNOTSUPP
               else if di_memory_access out = RELM_MEMORY_ACCESS_READ then relm_zydis_set_load_semantics out
               else Inr (out\<lparr>di_gpr_write_semantics := RELM_GPR_WRITE_NONE\<rparr>))
      | ZYDIS_OPERAND_TYPE_IMMEDIATE \<Rightarrow>
          if di_memory_access out \<noteq> RELM_MEMORY_ACCESS_WRITE \<or> zo_imm_is_relative value_operand then Inl EOPNOTSUPP
          else Inr (out\<lparr>di_operand_kind := RELM_OPERAND_IMMEDIATE, di_immediate := zo_imm value_operand\<rparr>)
      | _ \<Rightarrow> Inl EOPNOTSUPP)"

text \<open>The buffer is NULL or the bytes read from the guest; \<open>len\<close> is how many of them are valid. The result is the
  filled descriptor (whose length the code also returns) or the error; on an error the
  descriptor is unspecified and no caller reads it.\<close>

definition relm_decode_x86 :: "zydis \<Rightarrow> u8 list option \<Rightarrow> int \<Rightarrow> relm_decoded_insn res" where
  "relm_decode_x86 z insn_buf len =
     (case insn_buf of None \<Rightarrow> Inl EINVAL
      | Some buf \<Rightarrow>
        if len \<le> 0 then Inl EINVAL
        else case zydis_decode z (take (nat len) buf) of
          None \<Rightarrow> Inl EINVAL
        | Some instruction \<Rightarrow>
          if \<not> zi_is_mov instruction \<or> zi_has_lock instruction then Inl EOPNOTSUPP
          else if length (zi_operands instruction) \<noteq> 2 then Inl EOPNOTSUPP
          else case classify_operands (zi_operands instruction) None None of
            Inl e \<Rightarrow> Inl e
          | Inr (Some memory, Some value_operand) \<Rightarrow>
              if \<not> zo_mem_is_mem memory then Inl EOPNOTSUPP
              else (case decode_memory memory value_operand decoded_blank of
                 Inl e \<Rightarrow> Inl e
               | Inr out \<Rightarrow>
                  (case decode_value z value_operand out of
                     Inl e \<Rightarrow> Inl e
                   | Inr out \<Rightarrow>
                       if zi_length instruction = 0 \<or> int (zi_length instruction) > len then Inl EINVAL
                       else Inr (out\<lparr>di_length := zi_length instruction\<rparr>)))
          | Inr _ \<Rightarrow> Inl EOPNOTSUPP)"

definition relm_decode_instruction :: "zydis \<Rightarrow> u8 list option \<Rightarrow> int \<Rightarrow> relm_decoded_insn res" where
  "relm_decode_instruction z insn_buf len = relm_decode_x86 z insn_buf len"

section \<open>Register lanes\<close>

lemma width_mask_mask:
  "relm_width_mask n \<noteq> 0 \<longleftrightarrow> n \<in> {1, 2, 4, 8}"
  "n \<in> {1, 2, 4, 8} \<Longrightarrow> relm_width_mask n = mask (8 * n)"
  by (auto simp: relm_width_mask_def mask_eq_exp_minus_1)

lemma valid_gpr_iff:
  "relm_decoded_has_valid_gpr (Some d) \<longleftrightarrow> di_operand_kind d = RELM_OPERAND_GPR \<and> 0 \<le> di_gpr_index d \<and>
     di_gpr_index d < 16 \<and> di_gpr_width d \<in> {1, 2, 4, 8} \<and>
     (di_gpr_bit_offset d = 0 \<or> di_gpr_width d = 1 \<and> di_gpr_bit_offset d = 8)"
  using width_mask_mask(1) [of "di_gpr_width d"] by (auto simp: relm_decoded_has_valid_gpr_def)

lemma lane_bits:
  assumes "relm_decoded_has_valid_gpr (Some d)"
  shows "di_gpr_bit_offset d + 8 * di_gpr_width d \<le> 64" "relm_width_mask (di_gpr_width d) = mask (8 * di_gpr_width d)"
  using assms width_mask_mask(2) [of "di_gpr_width d"] by (auto simp: valid_gpr_iff)

text \<open>The contract an accepted instruction satisfies.\<close>

definition insn_contract :: "int \<Rightarrow> relm_decoded_insn \<Rightarrow> bool" where
  "insn_contract len d \<longleftrightarrow> 0 < di_length d \<and> int (di_length d) \<le> len \<and> di_memory_width d \<in> {1, 2, 4, 8} \<and>
     (di_memory_access d = RELM_MEMORY_ACCESS_READ \<and> di_operand_kind d = RELM_OPERAND_GPR \<or>
      di_memory_access d = RELM_MEMORY_ACCESS_WRITE \<and> di_operand_kind d \<in> {RELM_OPERAND_GPR, RELM_OPERAND_IMMEDIATE}) \<and>
     (di_operand_kind d = RELM_OPERAND_GPR \<longrightarrow>
        relm_decoded_has_valid_gpr (Some d) \<and> di_gpr_width d = di_memory_width d \<and>
        di_gpr_write_semantics d =
          (if di_memory_access d = RELM_MEMORY_ACCESS_WRITE then RELM_GPR_WRITE_NONE
           else if di_gpr_width d \<le> 2 then RELM_GPR_WRITE_MERGE
           else if di_gpr_width d = 4 then RELM_GPR_WRITE_ZERO_EXTEND else RELM_GPR_WRITE_REPLACE))"

lemma decode_memory_Inr:
  assumes "decode_memory m v out = Inr out'"
  shows "di_memory_width out' \<in> {1, 2, 4, 8}" "di_memory_access out' \<in> {RELM_MEMORY_ACCESS_READ, RELM_MEMORY_ACCESS_WRITE}"
  using assms width_mask_mask(1) [of "zo_size m div 8"]
  by (auto simp: decode_memory_def Let_def split: if_splits)

lemma decode_gpr_Inr:
  assumes "relm_zydis_decode_gpr z operand out = Inr out'"
  shows "relm_decoded_has_valid_gpr (Some out')" "di_memory_access out' = di_memory_access out"
    "di_memory_width out' = di_memory_width out"
  using assms by (auto simp: relm_zydis_decode_gpr_def Let_def split: if_splits)

lemma load_semantics_Inr:
  assumes "relm_zydis_set_load_semantics out = Inr out'"
  shows "out' = out\<lparr>di_gpr_write_semantics := (if di_gpr_width out \<le> 2 then RELM_GPR_WRITE_MERGE
      else if di_gpr_width out = 4 then RELM_GPR_WRITE_ZERO_EXTEND else RELM_GPR_WRITE_REPLACE)\<rparr>"
  using assms by (auto simp: relm_zydis_set_load_semantics_def split: if_splits)

lemma decode_value_Inr:
  assumes "decode_value z v out = Inr out'" "di_memory_width out \<in> {1, 2, 4, 8}"
    and acc: "di_memory_access out \<in> {RELM_MEMORY_ACCESS_READ, RELM_MEMORY_ACCESS_WRITE}"
    and len: "0 < n" "int n \<le> len"
  shows "insn_contract len (out'\<lparr>di_length := n\<rparr>)"
proof (cases "zo_type v")
  case ZYDIS_OPERAND_TYPE_REGISTER
  then obtain o1 where o1: "relm_zydis_decode_gpr z v (out\<lparr>di_operand_kind := RELM_OPERAND_GPR\<rparr>) = Inr o1"
    using assms(1) by (auto simp: decode_value_def split: sum.splits)
  note g = decode_gpr_Inr [OF o1]
  show ?thesis
  proof (cases "di_memory_access o1 = RELM_MEMORY_ACCESS_READ")
    case True
    then have "relm_zydis_set_load_semantics o1 = Inr out'" "di_gpr_width o1 = di_memory_width o1"
      using assms(1) ZYDIS_OPERAND_TYPE_REGISTER o1 by (auto simp: decode_value_def split: if_splits)
    with load_semantics_Inr [OF this(1)] True g assms(2) len show ?thesis
      by (auto simp: insn_contract_def valid_gpr_iff)
  next
    case False
    then have "out' = o1\<lparr>di_gpr_write_semantics := RELM_GPR_WRITE_NONE\<rparr>" "di_gpr_width o1 = di_memory_width o1"
      using assms(1) ZYDIS_OPERAND_TYPE_REGISTER o1 by (auto simp: decode_value_def split: if_splits)
    with False g assms(2) acc len show ?thesis by (auto simp: insn_contract_def valid_gpr_iff)
  qed
next
  case ZYDIS_OPERAND_TYPE_IMMEDIATE
  with assms show ?thesis by (auto simp: decode_value_def insn_contract_def split: if_splits)
qed (use assms in \<open>auto simp: decode_value_def\<close>)

lemma decode_instruction_contract:
  assumes "relm_decode_instruction z buf len = Inr d"
  shows "insn_contract len d"
proof -
  from assms obtain m v o1 o2 n where
    "decode_memory m v decoded_blank = Inr o1" "decode_value z v o1 = Inr o2" "0 < n" "int n \<le> len"
    "d = o2\<lparr>di_length := n\<rparr>"
    by (auto simp: relm_decode_instruction_def relm_decode_x86_def split: option.splits if_splits sum.splits prod.splits)
  with decode_memory_Inr decode_value_Inr show ?thesis by metis
qed

section \<open>Properties\<close>

text \<open>(C33) Whatever the disassembler reports, an instruction the adapter accepts satisfies the contract of the
  emulators: a length between 1 and the bytes given, a width of 1, 2, 4 or 8, a load into or a
  store from a valid register lane of the same width (or a store of an immediate), and the write
  semantics of x86 for that width.\<close>

theorem decode_contract:
  assumes "relm_decode_instruction z buf len = Inr d"
  shows "insn_contract len d"
  using assms by (rule decode_instruction_contract)

definition demo_zydis :: zydis where
  "demo_zydis = \<lparr>zydis_decode = (\<lambda>bs. Some \<lparr>zi_is_mov = True, zi_has_lock = False, zi_operands =
      [\<lparr>zo_type = ZYDIS_OPERAND_TYPE_MEMORY, zo_explicit = True, zo_size = 32, zo_actions = 2, zo_reg = 0,
        zo_mem_is_mem = True, zo_imm_is_relative = False, zo_imm = 0\<rparr>,
       \<lparr>zo_type = ZYDIS_OPERAND_TYPE_REGISTER, zo_explicit = True, zo_size = 32, zo_actions = 1, zo_reg = 37,
        zo_mem_is_mem = False, zo_imm_is_relative = False, zo_imm = 0\<rparr>], zi_length = 2\<rparr>),
     zydis_register_class = (\<lambda>_. ZYDIS_REGCLASS_GPR32), zydis_largest_enclosing = (\<lambda>_. 53)\<rparr>"

theorem decode_contract_witness:
  "\<exists>d. relm_decode_instruction demo_zydis (Some [0x89, 0x07]) 2 = Inr d \<and> insn_contract 2 d"
proof -
  have "\<exists>d. relm_decode_instruction demo_zydis (Some [0x89, 0x07]) 2 = Inr d"
    by (simp add: relm_decode_instruction_def relm_decode_x86_def demo_zydis_def decode_memory_def decode_value_def
        relm_zydis_decode_gpr_def relm_decoded_has_valid_gpr_def relm_width_mask_def decoded_blank_def Let_def)
  then show ?thesis using decode_contract by blast
qed

text \<open>Committing a loaded value and extracting it again gives the value cut to the access width, and the
  rest of the 64-bit register follows the x86 rules: 8- and 16-bit loads keep it, 32-bit loads
  clear it.\<close>

theorem gpr_load_lane:
  assumes "insn_contract len d" and "di_memory_access d = RELM_MEMORY_ACCESS_READ"
  shows "relm_decoded_gpr_extract d (relm_decoded_gpr_commit d old v) = v AND relm_width_mask (di_memory_width d) \<and>
    (\<forall>k<64. \<not> (di_gpr_bit_offset d \<le> k \<and> k < di_gpr_bit_offset d + 8 * di_gpr_width d) \<longrightarrow>
       bit (relm_decoded_gpr_commit d old v) k = (di_gpr_width d \<le> 2 \<and> bit old k))"
proof -
  have c: "relm_decoded_has_valid_gpr (Some d)" "di_memory_width d = di_gpr_width d"
    "di_gpr_width d \<le> 2 \<Longrightarrow> di_gpr_write_semantics d = RELM_GPR_WRITE_MERGE"
    "di_gpr_width d = 4 \<Longrightarrow> di_gpr_write_semantics d = RELM_GPR_WRITE_ZERO_EXTEND"
    "di_gpr_width d = 8 \<Longrightarrow> di_gpr_write_semantics d = RELM_GPR_WRITE_REPLACE"
    using assms by (auto simp: insn_contract_def)
  note lane = lane_bits [OF c(1)]
  have w: "di_gpr_width d \<le> 2 \<or> di_gpr_width d = 4 \<and> di_gpr_bit_offset d = 0 \<or> di_gpr_width d = 8 \<and> di_gpr_bit_offset d = 0"
    using c(1) by (auto simp: valid_gpr_iff)
  show ?thesis
  proof (cases "di_gpr_width d \<le> 2")
    case True
    have cm: "relm_decoded_gpr_commit d old v =
        (old AND NOT (push_bit (di_gpr_bit_offset d) (mask (8 * di_gpr_width d)))) OR
        push_bit (di_gpr_bit_offset d) (v AND mask (8 * di_gpr_width d))"
      using c(1,3) True lane by (simp add: relm_decoded_gpr_commit_def Let_def)
    have "relm_decoded_gpr_extract d (relm_decoded_gpr_commit d old v) = v AND mask (8 * di_gpr_width d)"
      unfolding cm relm_decoded_gpr_extract_def using c(1) lane
      by (intro bit_word_eqI) (auto simp: bit_simps)
    with True lane c(2) show ?thesis unfolding cm by (auto simp: bit_simps)
  next
    case False
    then have off: "di_gpr_bit_offset d = 0" using w by auto
    have cm: "relm_decoded_gpr_commit d old v = v AND mask (8 * di_gpr_width d)"
      using c(1,4,5) False w lane by (auto simp: relm_decoded_gpr_commit_def Let_def)
    show ?thesis
      unfolding cm relm_decoded_gpr_extract_def using c(1,2) lane off False
      by (auto simp: bit_simps intro: bit_word_eqI)
  qed
qed

theorem gpr_load_lane_witness:
  "relm_decoded_gpr_extract (decoded_blank\<lparr>di_length := 3, di_memory_access := RELM_MEMORY_ACCESS_READ, di_memory_width := 1,
      di_operand_kind := RELM_OPERAND_GPR, di_gpr_index := 0, di_gpr_width := 1, di_gpr_bit_offset := 8, di_gpr_write_semantics := RELM_GPR_WRITE_MERGE\<rparr>)
    (relm_decoded_gpr_commit (decoded_blank\<lparr>di_length := 3, di_memory_access := RELM_MEMORY_ACCESS_READ, di_memory_width := 1,
      di_operand_kind := RELM_OPERAND_GPR, di_gpr_index := 0, di_gpr_width := 1, di_gpr_bit_offset := 8, di_gpr_write_semantics := RELM_GPR_WRITE_MERGE\<rparr>)
      0x1122334455667788 0x1FE) = 0xFE"
  (is "relm_decoded_gpr_extract ?d _ = _")
proof -
  have "insn_contract 15 ?d" by (simp add: insn_contract_def valid_gpr_iff decoded_blank_def)
  from gpr_load_lane [OF this, of "0x1122334455667788" "0x1FE"] show ?thesis
    by (simp add: decoded_blank_def relm_width_mask_def)
qed

end
