(* ===== verification/Relm_Virtio.thy ===== *)
theory Relm_Virtio
  imports Relm_Mmio Relm_Dense
begin

text \<open>
  The virtio-mmio transport (src/virtio/virtio.c, include/virtio/virtio.h): the module-global registry
  of devices, the selector registers kept beside it, and the register file of a device. Devices
  and VMs are referred to by pointers, modelled as numbers into stores; the callbacks of a concrete
  device (\<open>struct relm_virtio_device_ops\<close>, of which the repository has no implementation) are a
  record of functions, an argument of the register access: those that return a value read the
  device, the other three may change it. The predicate \<open>callbacks_ok\<close> is what the transport relies on.
\<close>

section \<open>Data\<close>

record relm_virtqueue =
  queue_size :: u64
  desc_gpa :: u64
  avail_gpa :: u64
  used_gpa :: u64
  last_avail_idx :: u16
  ready :: bool

record relm_virtio_device =
  device_id :: u32
  mmio_base_gpa :: u64
  dev_irq :: u32
  dev_vm :: nat
  status :: u8
  guest_features :: u32
  isr :: u8
  queues :: "relm_virtqueue list"
  queue_count :: nat
  dev_has_ops :: bool
  dev_name :: string

record relm_virtio_device_ops =
  op_device_features :: "relm_virtio_device \<Rightarrow> u32 \<Rightarrow> u32"
  op_driver_features_ack :: "relm_virtio_device \<Rightarrow> u32 \<Rightarrow> u32 \<Rightarrow> relm_virtio_device"
  op_queue_num_max :: "relm_virtio_device \<Rightarrow> u32 \<Rightarrow> u16"
  op_config_read :: "relm_virtio_device \<Rightarrow> nat \<Rightarrow> u32"
  op_queue_notify :: "relm_virtio_device \<Rightarrow> u32 \<Rightarrow> int \<times> relm_virtio_device"
  op_status_changed :: "(relm_virtio_device \<Rightarrow> u8 \<Rightarrow> relm_virtio_device) option"

record mmio_selector_state =
  device_features_sel :: u32
  driver_features_sel :: u32
  queue_sel :: u32

abbreviation (input) RELM_VIRTIO_MMIO_MAX_DEVICES :: nat where "RELM_VIRTIO_MMIO_MAX_DEVICES \<equiv> 4"
abbreviation (input) RELM_VIRTIO_MMIO_REGION_SIZE :: u64 where "RELM_VIRTIO_MMIO_REGION_SIZE \<equiv> 0x1000"
abbreviation (input) VIRTIO_CONFIG_S_DRIVER_OK :: u8 where "VIRTIO_CONFIG_S_DRIVER_OK \<equiv> 4"
abbreviation (input) VIRTIO_CONFIG_S_FAILED :: u8 where "VIRTIO_CONFIG_S_FAILED \<equiv> 0x80"

record virtio_state =
  vdevs :: "nat \<Rightarrow> relm_virtio_device"
  vvms :: "nat \<Rightarrow> relm_vm_memory"
  g_registered_devices :: "nat list"
  g_registered_count :: nat
  g_selector_state :: "mmio_selector_state list"
  sel_dummy :: mmio_selector_state

section \<open>Registry\<close>

definition relm_virtio_mmio_register_device :: "nat option \<Rightarrow> u64 \<Rightarrow> u32 \<Rightarrow> virtio_state \<Rightarrow> unit res \<times> virtio_state" where
  "relm_virtio_mmio_register_device dev base_gpa irq s =
     (case dev of None \<Rightarrow> (Inl EINVAL, s)
      | Some d \<Rightarrow>
        if \<not> dev_has_ops (vdevs s d) then (Inl EINVAL, s)
        else if g_registered_count s \<ge> RELM_VIRTIO_MMIO_MAX_DEVICES then (Inl ENOSPC, s)
        else case relm_vm_reserve_mmio_region base_gpa RELM_VIRTIO_MMIO_REGION_SIZE (Some (dev_name (vdevs s d)))
                    (Some (vvms s (dev_vm (vdevs s d)))) of
          (Inl e, _) \<Rightarrow> (Inl e, s)
        | (Inr _, mm) \<Rightarrow>
            (Inr (), s\<lparr>vvms := (vvms s)(dev_vm (vdevs s d) := the mm),
                       vdevs := (vdevs s)(d := (vdevs s d)\<lparr>mmio_base_gpa := base_gpa, dev_irq := irq\<rparr>),
                       g_registered_devices := (g_registered_devices s)[g_registered_count s := d],
                       g_registered_count := g_registered_count s + 1\<rparr>))"

text \<open>The search of the unregistration, from slot \<open>i\<close> with \<open>k\<close> live slots left.\<close>

fun unregister_from :: "nat \<Rightarrow> nat \<Rightarrow> nat \<Rightarrow> virtio_state \<Rightarrow> virtio_state" where
  "unregister_from 0 i dev s = s"
| "unregister_from (Suc k) i dev s =
     (if g_registered_devices s ! i = dev
      then s\<lparr>g_registered_devices := shift_down i (g_registered_count s) (g_registered_devices s),
             g_registered_count := g_registered_count s - 1,
             vvms := (vvms s)(dev_vm (vdevs s dev) :=
               the (relm_vm_release_mmio_region (mmio_base_gpa (vdevs s dev)) (Some (vvms s (dev_vm (vdevs s dev))))))\<rparr>
      else unregister_from k (i + 1) dev s)"

definition relm_virtio_mmio_unregister_device :: "nat option \<Rightarrow> virtio_state \<Rightarrow> virtio_state" where
  "relm_virtio_mmio_unregister_device dev s =
     (case dev of None \<Rightarrow> s | Some d \<Rightarrow> unregister_from (g_registered_count s) 0 d s)"

definition relm_virtio_find_device_for_gpa :: "nat \<Rightarrow> u64 \<Rightarrow> virtio_state \<Rightarrow> nat option" where
  "relm_virtio_find_device_for_gpa vm fault_gpa s =
     find (\<lambda>d. dev_vm (vdevs s d) = vm \<and> mmio_base_gpa (vdevs s d) \<le> fault_gpa \<and>
               fault_gpa < mmio_base_gpa (vdevs s d) + RELM_VIRTIO_MMIO_REGION_SIZE)
       (take (g_registered_count s) (g_registered_devices s))"

text \<open>The slot of the selector registers of a device, or the scratch state.\<close>

fun selector_slot_from :: "nat \<Rightarrow> nat \<Rightarrow> nat \<Rightarrow> virtio_state \<Rightarrow> nat option" where
  "selector_slot_from 0 i dev s = None"
| "selector_slot_from (Suc k) i dev s =
     (if g_registered_devices s ! i = dev then Some i else selector_slot_from k (i + 1) dev s)"

definition selector_state_for :: "nat \<Rightarrow> virtio_state \<Rightarrow> nat option" where
  "selector_state_for dev s = selector_slot_from (g_registered_count s) 0 dev s"

definition sel_get :: "nat option \<Rightarrow> virtio_state \<Rightarrow> mmio_selector_state" where
  "sel_get si s = (case si of None \<Rightarrow> sel_dummy s | Some i \<Rightarrow> g_selector_state s ! i)"

definition sel_put :: "nat option \<Rightarrow> mmio_selector_state \<Rightarrow> virtio_state \<Rightarrow> virtio_state" where
  "sel_put si sl s = (case si of None \<Rightarrow> s\<lparr>sel_dummy := sl\<rparr>
     | Some i \<Rightarrow> s\<lparr>g_selector_state := (g_selector_state s)[i := sl]\<rparr>)"

section \<open>Register file\<close>

definition put_dev :: "nat \<Rightarrow> relm_virtio_device \<Rightarrow> virtio_state \<Rightarrow> virtio_state" where
  "put_dev d dv s = s\<lparr>vdevs := (vdevs s)(d := dv)\<rparr>"

definition upd_queue :: "nat \<Rightarrow> (relm_virtqueue \<Rightarrow> relm_virtqueue) \<Rightarrow> relm_virtio_device \<Rightarrow> relm_virtio_device" where
  "upd_queue i f dv = dv\<lparr>queues := (queues dv)[i := f (queues dv ! i)]\<rparr>"

text \<open>Each group of registers: the device and selector registers before, and after it the value
  register, the device, the selectors and whether an interrupt is needed.\<close>

type_synonym access = "u32 \<times> relm_virtio_device \<times> mmio_selector_state \<times> bool"

definition reg_identity :: "nat \<Rightarrow> bool \<Rightarrow> access \<Rightarrow> access" where
  "reg_identity off is_write a = (case a of (v, dv, sl, irq) \<Rightarrow>
     if is_write then a
     else (if off = 0x000 then 0x74726976 else if off = 0x004 then 2
           else if off = 0x008 then device_id dv else 0x52454C4D, dv, sl, irq))"

definition reg_features :: "relm_virtio_device_ops \<Rightarrow> nat \<Rightarrow> bool \<Rightarrow> access \<Rightarrow> access" where
  "reg_features ops off is_write a = (case a of (v, dv, sl, irq) \<Rightarrow>
     if off = 0x010 then
       (if is_write then a else (op_device_features ops dv (device_features_sel sl), dv, sl, irq))
     else if off = 0x014 then
       (if is_write then (v, dv, sl\<lparr>device_features_sel := v\<rparr>, irq) else a)
     else if off = 0x020 then
       (if is_write then
          (let dv = op_driver_features_ack ops dv (driver_features_sel sl) v
           in (v, if driver_features_sel sl = 0 then dv\<lparr>guest_features := v\<rparr> else dv, sl, irq))
        else a)
     else (if is_write then (v, dv, sl\<lparr>driver_features_sel := v\<rparr>, irq) else a))"

definition reg_queue_setup :: "relm_virtio_device_ops \<Rightarrow> nat \<Rightarrow> bool \<Rightarrow> access \<Rightarrow> access" where
  "reg_queue_setup ops off is_write a = (case a of (v, dv, sl, irq) \<Rightarrow>
     if off = 0x030 then (if is_write then (v, dv, sl\<lparr>queue_sel := v\<rparr>, irq) else a)
     else if off = 0x034 then
       (if is_write then a else (ucast (op_queue_num_max ops dv (queue_sel sl)), dv, sl, irq))
     else
       (if is_write then
          (let max = op_queue_num_max ops dv (queue_sel sl) in
           if v \<noteq> ucast max then a
           else if unat (queue_sel sl) < queue_count dv
           then (v, upd_queue (unat (queue_sel sl)) (\<lambda>q. q\<lparr>queue_size := ucast (ucast v :: u16)\<rparr>) dv, sl, irq)
           else a)
        else a))"

definition reg_queue_ready :: "bool \<Rightarrow> access \<Rightarrow> access" where
  "reg_queue_ready is_write a = (case a of (v, dv, sl, irq) \<Rightarrow>
     if unat (queue_sel sl) \<ge> queue_count dv then (if is_write then a else (0, dv, sl, irq))
     else let i = unat (queue_sel sl); vq = queues dv ! i in
       if is_write then
         (if v = 0 then (v, upd_queue i (\<lambda>q. q\<lparr>ready := False\<rparr>) dv, sl, irq)
          else if desc_gpa vq = 0 \<or> avail_gpa vq = 0 \<or> used_gpa vq = 0 then a
          else (v, upd_queue i (\<lambda>q. q\<lparr>ready := (status dv AND VIRTIO_CONFIG_S_DRIVER_OK \<noteq> 0)\<rparr>) dv, sl, irq))
       else (if ready vq then 1 else 0, dv, sl, irq))"

definition reg_interrupt :: "relm_virtio_device_ops \<Rightarrow> nat \<Rightarrow> bool \<Rightarrow> access \<Rightarrow> access" where
  "reg_interrupt ops off is_write a = (case a of (v, dv, sl, irq) \<Rightarrow>
     if off = 0x050 then
       (if is_write then
          (case op_queue_notify ops dv v of (processed, dv) \<Rightarrow>
             if processed > 0 then (v, dv\<lparr>isr := isr dv OR 0x1\<rparr>, sl, True) else (v, dv, sl, irq))
        else (0, dv, sl, irq))
     else if off = 0x060 then (if is_write then a else (ucast (isr dv), dv, sl, irq))
     else (if is_write then (v, dv\<lparr>isr := isr dv AND NOT (ucast v)\<rparr>, sl, irq) else a))"

definition reset_queue :: "relm_virtqueue \<Rightarrow> relm_virtqueue" where
  "reset_queue q = q\<lparr>ready := False, desc_gpa := 0, avail_gpa := 0, used_gpa := 0, last_avail_idx := 0\<rparr>"

definition activate_queue :: "relm_virtqueue \<Rightarrow> relm_virtqueue" where
  "activate_queue q = q\<lparr>ready := (desc_gpa q \<noteq> 0 \<and> avail_gpa q \<noteq> 0 \<and> used_gpa q \<noteq> 0)\<rparr>"

text \<open>The loops over the queues below \<open>queue_count\<close>.\<close>

definition each_queue :: "(relm_virtqueue \<Rightarrow> relm_virtqueue) \<Rightarrow> relm_virtio_device \<Rightarrow> relm_virtio_device" where
  "each_queue f dv = fold (\<lambda>i. upd_queue i f) [0..<queue_count dv] dv"

definition reg_status :: "relm_virtio_device_ops \<Rightarrow> bool \<Rightarrow> access \<Rightarrow> access" where
  "reg_status ops is_write a = (case a of (v, dv, sl, irq) \<Rightarrow>
     if is_write then
       (let dv = dv\<lparr>status := ucast v\<rparr>;
            dv = (if v = 0 \<or> v AND 0x80 \<noteq> 0 then each_queue reset_queue dv
                  else if v AND 4 \<noteq> 0 then each_queue activate_queue dv else dv);
            dv = (case op_status_changed ops of None \<Rightarrow> dv | Some f \<Rightarrow> f dv (ucast v))
        in (v, dv, sl, irq))
     else (ucast (status dv), dv, sl, irq))"

definition lo_half :: "u64 \<Rightarrow> u32 \<Rightarrow> u64" where
  "lo_half old v = (old AND 0xFFFFFFFF00000000) OR ucast v"

definition hi_half :: "u64 \<Rightarrow> u32 \<Rightarrow> u64" where
  "hi_half old v = (old AND 0x00000000FFFFFFFF) OR push_bit 32 (ucast v)"

definition reg_queue_addr :: "nat \<Rightarrow> bool \<Rightarrow> access \<Rightarrow> access" where
  "reg_queue_addr off is_write a = (case a of (v, dv, sl, irq) \<Rightarrow>
     if is_write \<and> unat (queue_sel sl) < queue_count dv then
       (let i = unat (queue_sel sl);
            f = (if off = 0x080 then (\<lambda>q. q\<lparr>desc_gpa := lo_half (desc_gpa q) v\<rparr>)
                 else if off = 0x084 then (\<lambda>q. q\<lparr>desc_gpa := hi_half (desc_gpa q) v\<rparr>)
                 else if off = 0x090 then (\<lambda>q. q\<lparr>avail_gpa := lo_half (avail_gpa q) v\<rparr>)
                 else if off = 0x094 then (\<lambda>q. q\<lparr>avail_gpa := hi_half (avail_gpa q) v\<rparr>)
                 else if off = 0x0a0 then (\<lambda>q. q\<lparr>used_gpa := lo_half (used_gpa q) v\<rparr>)
                 else (\<lambda>q. q\<lparr>used_gpa := hi_half (used_gpa q) v\<rparr>))
        in (v, upd_queue i f dv, sl, irq))
     else a)"

definition reg_dispatch :: "relm_virtio_device_ops \<Rightarrow> nat \<Rightarrow> bool \<Rightarrow> access \<Rightarrow> access" where
  "reg_dispatch ops off is_write a = (case a of (v, dv, sl, irq) \<Rightarrow>
     if off \<ge> 0x100 then (if is_write then a else (op_config_read ops dv (off - 0x100), dv, sl, irq))
     else if off \<in> {0x000, 0x004, 0x008, 0x00c} then reg_identity off is_write a
     else if off \<in> {0x010, 0x014, 0x020, 0x024} then reg_features ops off is_write a
     else if off \<in> {0x030, 0x034, 0x038} then reg_queue_setup ops off is_write a
     else if off = 0x044 then reg_queue_ready is_write a
     else if off \<in> {0x050, 0x060, 0x064} then reg_interrupt ops off is_write a
     else if off = 0x070 then reg_status ops is_write a
     else if off \<in> {0x080, 0x084, 0x090, 0x094, 0x0a0, 0x0a4} then reg_queue_addr off is_write a
     else if is_write then a else (0, dv, sl, irq))"

definition relm_virtio_mmio_register_access_locked ::
    "relm_virtio_device_ops \<Rightarrow> nat \<Rightarrow> nat \<Rightarrow> bool \<Rightarrow> u32 \<Rightarrow> bool \<Rightarrow> virtio_state \<Rightarrow> u32 \<times> bool \<times> virtio_state" where
  "relm_virtio_mmio_register_access_locked ops dev off is_write v irq s =
     (let si = selector_state_for dev s in
      case reg_dispatch ops off is_write (v, vdevs s dev, sel_get si s, irq) of
        (v', dv', sl', irq') \<Rightarrow> (v', irq', sel_put si sl' (put_dev dev dv' s)))"

text \<open>The unlocked entry point only takes and drops the register lock.\<close>

definition relm_virtio_mmio_register_access ::
    "relm_virtio_device_ops \<Rightarrow> nat \<Rightarrow> nat \<Rightarrow> bool \<Rightarrow> u32 \<Rightarrow> bool \<Rightarrow> virtio_state \<Rightarrow> u32 \<times> bool \<times> virtio_state" where
  "relm_virtio_mmio_register_access ops dev off is_write v need_irq s =
     relm_virtio_mmio_register_access_locked ops dev off is_write v need_irq s"

section \<open>What the transport relies on\<close>

text \<open>The fields the transport owns: the callbacks of a device leave them alone, and may keep
  books elsewhere (the host's read position of a queue, the negotiated features, the ISR).\<close>

definition queue_view :: "relm_virtqueue \<Rightarrow> u64 \<times> u64 \<times> u64 \<times> u64 \<times> bool" where
  "queue_view q = (queue_size q, desc_gpa q, avail_gpa q, used_gpa q, ready q)"

definition transport_view where
  "transport_view dv = (mmio_base_gpa dv, dev_vm dv, dev_has_ops dv, status dv, queue_count dv, map queue_view (queues dv))"

definition callbacks_ok :: "relm_virtio_device_ops \<Rightarrow> bool" where
  "callbacks_ok ops \<longleftrightarrow>
     (\<forall>dv sl v. transport_view (op_driver_features_ack ops dv sl v) = transport_view dv) \<and>
     (\<forall>dv qi. transport_view (snd (op_queue_notify ops dv qi)) = transport_view dv) \<and>
     (\<forall>f dv st. op_status_changed ops = Some f \<longrightarrow> transport_view (f dv st) = transport_view dv)"

definition queues_ok :: "relm_virtio_device \<Rightarrow> bool" where
  "queues_ok dv \<longleftrightarrow> length (queues dv) = 8 \<and> queue_count dv \<le> 8"

definition ring_set :: "relm_virtqueue \<Rightarrow> bool" where
  "ring_set q \<longleftrightarrow> desc_gpa q \<noteq> 0 \<and> avail_gpa q \<noteq> 0 \<and> used_gpa q \<noteq> 0"

lemma transport_view_length: "transport_view dv = transport_view dv' \<Longrightarrow> length (queues dv) = length (queues dv')"
  by (auto simp: transport_view_def dest: map_eq_imp_length_eq)

lemma transport_view_queue:
  assumes "transport_view dv = transport_view dv'" "i < length (queues dv')"
  shows "queue_view (queues dv ! i) = queue_view (queues dv' ! i)"
proof -
  have "map queue_view (queues dv) ! i = map queue_view (queues dv') ! i"
    using assms(1) by (simp add: transport_view_def)
  then show ?thesis using assms transport_view_length [OF assms(1)] by simp
qed

lemma transport_view_fields:
  assumes "transport_view dv = transport_view dv'"
  shows "status dv = status dv'" "queue_count dv = queue_count dv'" "mmio_base_gpa dv = mmio_base_gpa dv'"
    "dev_vm dv = dev_vm dv'" "dev_has_ops dv = dev_has_ops dv'"
  using assms by (simp_all add: transport_view_def)

lemma transport_view_upd [simp]:
  "transport_view (dv\<lparr>guest_features := g\<rparr>) = transport_view dv"
  "transport_view (dv\<lparr>isr := x\<rparr>) = transport_view dv"
  by (simp_all add: transport_view_def)

lemma upd_queue_simps [simp]:
  "status (upd_queue i f dv) = status dv" "queue_count (upd_queue i f dv) = queue_count dv"
  "mmio_base_gpa (upd_queue i f dv) = mmio_base_gpa dv" "dev_vm (upd_queue i f dv) = dev_vm dv"
  "dev_has_ops (upd_queue i f dv) = dev_has_ops dv"
  "length (queues (upd_queue i f dv)) = length (queues dv)"
  by (simp_all add: upd_queue_def)

lemma fold_upd_queue:
  "n \<le> length (queues dv) \<Longrightarrow> fold (\<lambda>i. upd_queue i f) [0..<n] dv =
     dv\<lparr>queues := map f (take n (queues dv)) @ drop n (queues dv)\<rparr>"
proof (induction n)
  case (Suc n)
  then have "fold (\<lambda>i. upd_queue i f) [0..<Suc n] dv =
      upd_queue n f (dv\<lparr>queues := map f (take n (queues dv)) @ drop n (queues dv)\<rparr>)" by simp
  also have "\<dots> = dv\<lparr>queues := map f (take (Suc n) (queues dv)) @ drop (Suc n) (queues dv)\<rparr>"
    using Suc.prems by (simp add: upd_queue_def nth_append list_update_append take_Suc_conv_app_nth
        Cons_nth_drop_Suc [symmetric])
  finally show ?case .
qed simp

lemma each_queue_eq:
  "queues_ok dv \<Longrightarrow> each_queue f dv =
     dv\<lparr>queues := map f (take (queue_count dv) (queues dv)) @ drop (queue_count dv) (queues dv)\<rparr>"
  by (simp add: each_queue_def fold_upd_queue queues_ok_def)

lemma each_queue_nth:
  "queues_ok dv \<Longrightarrow> i < 8 \<Longrightarrow>
     queues (each_queue f dv) ! i = (if i < queue_count dv then f (queues dv ! i) else queues dv ! i)"
  by (simp add: each_queue_eq nth_append queues_ok_def)

section \<open>Queue readiness\<close>

text \<open>What a step of the transport may do to the queues: a queue that turns ready has a complete
  ring under a driver that is up; the shape of the device is kept.\<close>

definition rise_ok :: "relm_virtio_device \<Rightarrow> relm_virtio_device \<Rightarrow> bool" where
  "rise_ok dv dv' \<longleftrightarrow> queues_ok dv' \<and>
     mmio_base_gpa dv' = mmio_base_gpa dv \<and> dev_vm dv' = dev_vm dv \<and> dev_has_ops dv' = dev_has_ops dv \<and>
     (\<forall>i<8. \<not> ready (queues dv ! i) \<and> ready (queues dv' ! i) \<longrightarrow>
        ring_set (queues dv' ! i) \<and> status dv' AND VIRTIO_CONFIG_S_DRIVER_OK \<noteq> 0)"

lemma rise_ok_refl: "queues_ok dv \<Longrightarrow> rise_ok dv dv"
  by (simp add: rise_ok_def)

lemma queue_view_iff: "queue_view p = queue_view q \<longleftrightarrow> queue_size p = queue_size q \<and> desc_gpa p = desc_gpa q
    \<and> avail_gpa p = avail_gpa q \<and> used_gpa p = used_gpa q \<and> ready p = ready q"
  by (simp add: queue_view_def)

lemma rise_ok_view:
  assumes r: "rise_ok dv dv'" and v: "transport_view dv'' = transport_view dv'"
  shows "rise_ok dv dv''"
proof -
  have "queue_view (queues dv'' ! i) = queue_view (queues dv' ! i)" if "i < 8" for i
    using transport_view_queue [OF v, of i] r that by (simp add: rise_ok_def queues_ok_def)
  with r show ?thesis
    using transport_view_fields [OF v] transport_view_length [OF v]
    by (auto simp: rise_ok_def queues_ok_def ring_set_def queue_view_iff)
qed

lemma rise_ok_upd_queue:
  assumes "queues_ok dv"
    and "\<not> ready (queues dv ! j) \<Longrightarrow> ready (f (queues dv ! j)) \<Longrightarrow>
           ring_set (f (queues dv ! j)) \<and> status dv AND VIRTIO_CONFIG_S_DRIVER_OK \<noteq> 0"
  shows "rise_ok dv (upd_queue j f dv)"
proof (cases "j < 8")
  case True
  with assms show ?thesis unfolding rise_ok_def queues_ok_def by (auto simp: upd_queue_def nth_list_update)
next
  case False
  with assms(1) show ?thesis unfolding rise_ok_def queues_ok_def by (auto simp: upd_queue_def list_update_beyond)
qed

text \<open>The same for a whole access, on the device component of its result.\<close>

abbreviation acc_dev :: "access \<Rightarrow> relm_virtio_device" where "acc_dev a \<equiv> fst (snd a)"

lemma rise_identity: "queues_ok (acc_dev a) \<Longrightarrow> rise_ok (acc_dev a) (acc_dev (reg_identity off w a))"
  by (auto simp: reg_identity_def rise_ok_refl split: prod.splits)

lemma rise_features:
  assumes "queues_ok (acc_dev a)" "callbacks_ok ops"
  shows "rise_ok (acc_dev a) (acc_dev (reg_features ops off w a))"
  using assms rise_ok_view [OF rise_ok_refl [OF assms(1)]]
  by (auto simp: reg_features_def callbacks_ok_def Let_def rise_ok_refl split: prod.splits)

lemma rise_queue_setup:
  "queues_ok (acc_dev a) \<Longrightarrow> rise_ok (acc_dev a) (acc_dev (reg_queue_setup ops off w a))"
  by (auto simp: reg_queue_setup_def Let_def rise_ok_refl split: prod.splits intro!: rise_ok_upd_queue)

lemma rise_queue_ready:
  "queues_ok (acc_dev a) \<Longrightarrow> rise_ok (acc_dev a) (acc_dev (reg_queue_ready w a))"
  by (auto simp: reg_queue_ready_def Let_def rise_ok_refl ring_set_def split: prod.splits intro!: rise_ok_upd_queue)

lemma rise_interrupt:
  assumes "queues_ok (acc_dev a)" "callbacks_ok ops"
  shows "rise_ok (acc_dev a) (acc_dev (reg_interrupt ops off w a))"
proof -
  obtain v dv sl irq where a: "a = (v, dv, sl, irq)" by (metis surj_pair)
  obtain k dv' where n: "op_queue_notify ops dv v = (k, dv')" by (metis surj_pair)
  have "transport_view dv' = transport_view dv" using assms(2) n unfolding callbacks_ok_def by (metis snd_conv)
  with assms(1) a n show ?thesis
    using rise_ok_view [OF rise_ok_refl] by (auto simp: reg_interrupt_def rise_ok_refl)
qed

lemma rise_queue_addr:
  "queues_ok (acc_dev a) \<Longrightarrow> rise_ok (acc_dev a) (acc_dev (reg_queue_addr off w a))"
  by (auto simp: reg_queue_addr_def Let_def rise_ok_refl split: prod.splits intro!: rise_ok_upd_queue)

lemma rise_reset:
  "queues_ok dv \<Longrightarrow> rise_ok dv (each_queue reset_queue (dv\<lparr>status := st\<rparr>))"
  by (subst each_queue_eq) (auto simp: rise_ok_def queues_ok_def nth_append reset_queue_def)

lemma rise_activate:
  "queues_ok dv \<Longrightarrow> st AND VIRTIO_CONFIG_S_DRIVER_OK \<noteq> 0 \<Longrightarrow> rise_ok dv (each_queue activate_queue (dv\<lparr>status := st\<rparr>))"
  by (subst each_queue_eq) (auto simp: rise_ok_def queues_ok_def nth_append activate_queue_def ring_set_def)

lemma rise_store: "queues_ok dv \<Longrightarrow> rise_ok dv (dv\<lparr>status := st\<rparr>)"
  by (simp add: rise_ok_def queues_ok_def)

lemma ucast_and_4: "(ucast v :: u8) AND 4 \<noteq> 0 \<longleftrightarrow> (v :: u32) AND 4 \<noteq> 0"
  using and_exp_eq_0_iff_not_bit [of "ucast v :: u8" 2] and_exp_eq_0_iff_not_bit [of v 2]
  by (simp add: bit_simps)

lemma rise_status:
  assumes q: "queues_ok (acc_dev a)" and ops: "callbacks_ok ops"
  shows "rise_ok (acc_dev a) (acc_dev (reg_status ops w a))"
proof -
  obtain v dv sl irq where a: "a = (v, dv, sl, irq)" by (metis surj_pair)
  define dv1 where "dv1 = (if v = 0 \<or> v AND 0x80 \<noteq> 0 then each_queue reset_queue (dv\<lparr>status := ucast v\<rparr>)
      else if v AND 4 \<noteq> 0 then each_queue activate_queue (dv\<lparr>status := ucast v\<rparr>) else dv\<lparr>status := ucast v\<rparr>)"
  have "rise_ok dv dv1"
    using q a unfolding dv1_def by (auto simp: rise_reset rise_activate rise_store ucast_and_4)
  moreover have "acc_dev (reg_status ops w a) =
      (if w then (case op_status_changed ops of None \<Rightarrow> dv1 | Some f \<Rightarrow> f dv1 (ucast v)) else dv)"
    unfolding reg_status_def a dv1_def by (simp add: Let_def)
  ultimately show ?thesis
    using ops q a by (auto simp: callbacks_ok_def rise_ok_refl split: option.splits intro: rise_ok_view)
qed

lemma rise_dispatch:
  assumes "queues_ok (acc_dev a)" "callbacks_ok ops"
  shows "rise_ok (acc_dev a) (acc_dev (reg_dispatch ops off w a))"
proof -
  note rises = rise_identity rise_features rise_queue_setup rise_queue_ready rise_interrupt rise_status
    rise_queue_addr
  obtain v dv sl irq where a: "a = (v, dv, sl, irq)" by (metis surj_pair)
  show ?thesis unfolding reg_dispatch_def a prod.case
    by (intro if_split [where P = "\<lambda>x. rise_ok _ (acc_dev x)", THEN iffD2] conjI impI
        rises [of "(v, dv, sl, irq)"])
      (use assms a in \<open>simp_all add: rise_ok_refl\<close>)
qed

lemma access_state:
  "snd (snd (relm_virtio_mmio_register_access ops dev off w v irq s)) =
     (let a' = reg_dispatch ops off w (v, vdevs s dev, sel_get (selector_state_for dev s) s, irq)
      in sel_put (selector_state_for dev s) (fst (snd (snd a'))) (put_dev dev (acc_dev a') s))"
  by (simp add: relm_virtio_mmio_register_access_def relm_virtio_mmio_register_access_locked_def Let_def
      split: prod.splits)

lemma sel_put_simps [simp]:
  "vdevs (sel_put i sl s) = vdevs s" "vvms (sel_put i sl s) = vvms s"
  "g_registered_devices (sel_put i sl s) = g_registered_devices s"
  "g_registered_count (sel_put i sl s) = g_registered_count s"
  "length (g_selector_state (sel_put i sl s)) = length (g_selector_state s)"
  by (simp_all add: sel_put_def split: option.splits)

lemma put_dev_simps [simp]:
  "vdevs (put_dev d dv s) = (vdevs s)(d := dv)" "vvms (put_dev d dv s) = vvms s"
  "g_registered_devices (put_dev d dv s) = g_registered_devices s"
  "g_registered_count (put_dev d dv s) = g_registered_count s"
  "g_selector_state (put_dev d dv s) = g_selector_state s" "sel_dummy (put_dev d dv s) = sel_dummy s"
  by (simp_all add: put_dev_def)

lemma access_rise:
  assumes "queues_ok (vdevs s dev)" "callbacks_ok ops"
  shows "rise_ok (vdevs s dev) (vdevs (snd (snd (relm_virtio_mmio_register_access ops dev off w v irq s))) dev)"
  using rise_dispatch [of "(v, vdevs s dev, sel_get (selector_state_for dev s) s, irq)" ops off w] assms
  by (simp add: access_state Let_def)

section \<open>The registry\<close>

definition registered :: "virtio_state \<Rightarrow> nat list" where
  "registered s = take (g_registered_count s) (g_registered_devices s)"

definition window_reserved :: "virtio_state \<Rightarrow> nat \<Rightarrow> bool" where
  "window_reserved s d \<longleftrightarrow> (\<exists>w\<in>set (live (vvms s (dev_vm (vdevs s d)))).
     mr_gpa_start w = mmio_base_gpa (vdevs s d) \<and> mr_size w = RELM_VIRTIO_MMIO_REGION_SIZE)"

definition unwrapped :: "relm_vm_memory \<Rightarrow> bool" where
  "unwrapped mm \<longleftrightarrow> (\<forall>w\<in>set (live mm). mr_gpa_start w < mr_gpa_start w + mr_size w)"

text \<open>The invariant of the registry: each registered device owns a reserved window of its VM, no two of them the same.\<close>

definition virtio_inv :: "virtio_state \<Rightarrow> bool" where
  "virtio_inv s \<longleftrightarrow>
     length (g_registered_devices s) = RELM_VIRTIO_MMIO_MAX_DEVICES \<and>
     length (g_selector_state s) = RELM_VIRTIO_MMIO_MAX_DEVICES \<and>
     g_registered_count s \<le> RELM_VIRTIO_MMIO_MAX_DEVICES \<and> distinct (registered s) \<and>
     (\<forall>vm. mmio_inv (vvms s vm) \<and> unwrapped (vvms s vm)) \<and>
     (\<forall>d. queues_ok (vdevs s d)) \<and>
     (\<forall>d\<in>set (registered s). window_reserved s d) \<and>
     (\<forall>d\<in>set (registered s). \<forall>e\<in>set (registered s).
        dev_vm (vdevs s d) = dev_vm (vdevs s e) \<and> mmio_base_gpa (vdevs s d) = mmio_base_gpa (vdevs s e) \<longrightarrow> d = e)"

text \<open>Steps of the module: a device that is not registered is registered (or refused) at a window
  below the top of the address space, a device is unregistered, a guest accesses a register.\<close>

inductive virtio_step :: "virtio_state \<Rightarrow> virtio_state \<Rightarrow> bool" where
  register: "d \<notin> set (registered s) \<Longrightarrow> base < base + RELM_VIRTIO_MMIO_REGION_SIZE \<Longrightarrow>
     virtio_step s (snd (relm_virtio_mmio_register_device (Some d) base irq s))"
| unregister: "virtio_step s (relm_virtio_mmio_unregister_device (Some d) s)"
| access: "callbacks_ok ops \<Longrightarrow>
     virtio_step s (snd (snd (relm_virtio_mmio_register_access ops d off w v irq s)))"

lemma register_cases:
  assumes "virtio_inv s"
  obtains (refused) e where "relm_virtio_mmio_register_device (Some d) base irq s = (Inl e, s)"
  | (fine) s' mm' nm where "relm_virtio_mmio_register_device (Some d) base irq s = (Inr (), s')"
      "g_registered_count s < RELM_VIRTIO_MMIO_MAX_DEVICES"
      "relm_vm_reserve_mmio_region base RELM_VIRTIO_MMIO_REGION_SIZE (Some nm) (Some (vvms s (dev_vm (vdevs s d)))) = (Inr (), Some mm')"
      "s' = s\<lparr>vvms := (vvms s)(dev_vm (vdevs s d) := mm'),
              vdevs := (vdevs s)(d := (vdevs s d)\<lparr>mmio_base_gpa := base, dev_irq := irq\<rparr>),
              g_registered_devices := (g_registered_devices s)[g_registered_count s := d],
              g_registered_count := g_registered_count s + 1\<rparr>"
proof -
  let ?mm = "vvms s (dev_vm (vdevs s d))" and ?nm = "dev_name (vdevs s d)"
  obtain r vm' where rv: "relm_vm_reserve_mmio_region base RELM_VIRTIO_MMIO_REGION_SIZE (Some ?nm) (Some ?mm) = (r, vm')"
    by (metis surj_pair)
  have inv: "mmio_inv ?mm" using assms by (simp add: virtio_inv_def)
  show ?thesis
  proof (cases "dev_has_ops (vdevs s d) \<and> g_registered_count s < RELM_VIRTIO_MMIO_MAX_DEVICES \<and> r = Inr ()")
    case True
    with rv have rv: "relm_vm_reserve_mmio_region base RELM_VIRTIO_MMIO_REGION_SIZE (Some ?nm) (Some ?mm) = (Inr (), vm')"
      by simp
    then obtain mm' where "vm' = Some mm'" using reserve_Inr [OF _ inv] by metis
    with rv True fine show ?thesis by (simp add: relm_virtio_mmio_register_device_def)
  next
    case False
    with rv have "\<exists>e. relm_virtio_mmio_register_device (Some d) base irq s = (Inl e, s)"
      by (cases r) (auto simp: relm_virtio_mmio_register_device_def)
    with refused show ?thesis by blast
  qed
qed

lemma register_inv:
  assumes inv: "virtio_inv s" and new: "d \<notin> set (registered s)"
    and base: "base < base + RELM_VIRTIO_MMIO_REGION_SIZE"
  shows "virtio_inv (snd (relm_virtio_mmio_register_device (Some d) base irq s))"
using inv
proof (cases rule: register_cases [where d = d and base = base and irq = irq])
  case (refused e)
  with inv show ?thesis by simp
next
  case (fine s' mm' nm)
  let ?vm = "dev_vm (vdevs s d)"
  have mi: "mmio_inv (vvms s ?vm)" and mu: "unwrapped (vvms s ?vm)" using inv by (simp_all add: virtio_inv_def)
  from reserve_Inr [OF fine(3) mi] obtain
    l: "live mm' = live (vvms s ?vm) @ [\<lparr>mr_gpa_start = base, mr_size = RELM_VIRTIO_MMIO_REGION_SIZE, mr_name = strscpy 32 nm\<rparr>]"
    and apart: "\<forall>w\<in>set (live (vvms s ?vm)). \<not> ranges_overlap base RELM_VIRTIO_MMIO_REGION_SIZE (mr_gpa_start w) (mr_size w)"
    by (metis option.inject)
  have mi': "mmio_inv mm'" by (rule reserve_inv [OF mi fine(3)])
  have mu': "unwrapped mm'" using mu base by (simp add: unwrapped_def l)
  have reg: "registered s' = registered s @ [d]"
    using inv fine(2,4) by (simp add: registered_def virtio_inv_def take_list_update_self)
  have old: "vdevs s' e = vdevs s e" if "e \<in> set (registered s)" for e using that new fine(4) by auto
  have res: "window_reserved s' e" if "e \<in> set (registered s)" for e
    using inv that old [OF that] unfolding virtio_inv_def window_reserved_def by (auto simp: fine(4) l)
  have fresh: "mmio_base_gpa (vdevs s e) \<noteq> base" if e: "e \<in> set (registered s)" "dev_vm (vdevs s e) = ?vm" for e
  proof
    assume b: "mmio_base_gpa (vdevs s e) = base"
    obtain w where "w \<in> set (live (vvms s ?vm))" "mr_gpa_start w = base" "mr_size w = RELM_VIRTIO_MMIO_REGION_SIZE"
      using inv e b unfolding virtio_inv_def window_reserved_def by metis
    with apart base show False by (auto simp: ranges_overlap_def)
  qed
  have uniq: "\<forall>d\<in>set (registered s). \<forall>e\<in>set (registered s). dev_vm (vdevs s d) = dev_vm (vdevs s e) \<and>
      mmio_base_gpa (vdevs s d) = mmio_base_gpa (vdevs s e) \<longrightarrow> d = e" using inv unfolding virtio_inv_def by blast
  have here: "dev_vm (vdevs s' d) = ?vm" "mmio_base_gpa (vdevs s' d) = base" by (simp_all add: fine(4))
  have "virtio_inv s'"
    unfolding virtio_inv_def reg
  proof (intro conjI)
    show "\<forall>vm. mmio_inv (vvms s' vm) \<and> unwrapped (vvms s' vm)" using inv mi' mu' fine(4) by (simp add: virtio_inv_def)
    show "\<forall>d. queues_ok (vdevs s' d)" using inv fine(4) by (simp add: virtio_inv_def queues_ok_def)
    have "window_reserved s' d" by (simp add: window_reserved_def fine(4) l)
    with res show "\<forall>e\<in>set (registered s @ [d]). window_reserved s' e" by auto
    show "\<forall>d'\<in>set (registered s @ [d]). \<forall>e\<in>set (registered s @ [d]).
       dev_vm (vdevs s' d') = dev_vm (vdevs s' e) \<and> mmio_base_gpa (vdevs s' d') = mmio_base_gpa (vdevs s' e) \<longrightarrow> d' = e"
      using uniq fresh old here by (simp add: ball_Un) metis
  qed (use inv new fine(2,4) in \<open>auto simp: virtio_inv_def\<close>)
  with fine(1) show ?thesis by simp
qed

definition unregistered_at :: "nat \<Rightarrow> nat \<Rightarrow> virtio_state \<Rightarrow> virtio_state" where
  "unregistered_at i d s = s\<lparr>g_registered_devices := shift_down i (g_registered_count s) (g_registered_devices s),
     g_registered_count := g_registered_count s - 1,
     vvms := (vvms s)(dev_vm (vdevs s d) :=
       release_from (mmio_region_count (vvms s (dev_vm (vdevs s d)))) 0 (mmio_base_gpa (vdevs s d))
         (vvms s (dev_vm (vdevs s d))))\<rparr>"

lemma unregister_from_cases:
  "i + k = g_registered_count s \<Longrightarrow>
     (\<forall>j<g_registered_count s. i \<le> j \<longrightarrow> g_registered_devices s ! j \<noteq> d) \<and> unregister_from k i d s = s \<or>
     (\<exists>j<g_registered_count s. i \<le> j \<and> g_registered_devices s ! j = d \<and> unregister_from k i d s = unregistered_at j d s)"
proof (induction k arbitrary: i)
  case (Suc k)
  show ?case
  proof (cases "g_registered_devices s ! i = d")
    case True
    with Suc.prems have "unregister_from (Suc k) i d s = unregistered_at i d s" "i < g_registered_count s"
      by (simp_all add: unregistered_at_def relm_vm_release_mmio_region_def)
    with True show ?thesis by blast
  next
    case False
    have "j = i \<or> i + 1 \<le> j" if "i \<le> j" for j using that by auto
    with False Suc.IH [of "i + 1"] Suc.prems show ?thesis by (simp del: One_nat_def) (metis add_leD1)
  qed
qed auto

lemma registered_nth: "virtio_inv s \<Longrightarrow> i < g_registered_count s \<Longrightarrow>
    i < length (registered s) \<and> registered s ! i = g_registered_devices s ! i"
  by (simp add: registered_def virtio_inv_def)

lemma unregister_cases:
  assumes inv: "virtio_inv s"
  obtains (absent) "d \<notin> set (registered s)" "relm_virtio_mmio_unregister_device (Some d) s = s"
  | (removed) i where "i < g_registered_count s" "registered s ! i = d" "i < length (registered s)"
      "relm_virtio_mmio_unregister_device (Some d) s = unregistered_at i d s"
proof -
  have len: "length (registered s) = g_registered_count s"
    using inv by (simp add: registered_def virtio_inv_def)
  consider "\<forall>j<g_registered_count s. g_registered_devices s ! j \<noteq> d" "unregister_from (g_registered_count s) 0 d s = s"
    | i where "i < g_registered_count s" "g_registered_devices s ! i = d"
        "unregister_from (g_registered_count s) 0 d s = unregistered_at i d s"
    using unregister_from_cases [of 0 "g_registered_count s" s d] by auto
  then show ?thesis
  proof cases
    case 1
    then have "d \<notin> set (registered s)" using registered_nth [OF inv] len by (auto simp: in_set_conv_nth)
    with 1 absent show ?thesis by (simp add: relm_virtio_mmio_unregister_device_def)
  next
    case (2 i)
    with registered_nth [OF inv, of i] removed show ?thesis
      by (simp add: relm_virtio_mmio_unregister_device_def)
  qed
qed

lemma registered_unregistered_at:
  assumes inv: "virtio_inv s" and i: "i < g_registered_count s"
  shows "registered (unregistered_at i d s) = take i (registered s) @ drop (i + 1) (registered s)"
proof -
  have "registered (unregistered_at i d s) = take i (g_registered_devices s) @ drop (i + 1) (take (g_registered_count s) (g_registered_devices s))"
    unfolding registered_def
    using shift_down_deletes [OF i, of "g_registered_devices s"] inv i
    by (simp add: unregistered_at_def virtio_inv_def)
  with i show ?thesis by (simp add: registered_def min_def)
qed

lemma set_delete_nth:
  assumes "distinct xs" "i < length xs"
  shows "set (take i xs @ drop (i + 1) xs) = set xs - {xs ! i}" "distinct (take i xs @ drop (i + 1) xs)"
proof -
  have "xs = take i xs @ xs ! i # drop (i + 1) xs" using assms(2) by (simp add: id_take_nth_drop)
  with assms(1) have d: "distinct (take i xs @ xs ! i # drop (i + 1) xs)" by simp
  then show "distinct (take i xs @ drop (i + 1) xs)" by simp
  have "set xs = set (take i xs @ xs ! i # drop (i + 1) xs)" using \<open>xs = _\<close> by metis
  with d show "set (take i xs @ drop (i + 1) xs) = set xs - {xs ! i}" by auto
qed

lemma release_keeps_window:
  assumes inv: "mmio_inv mm" and nw: "unwrapped mm" and w: "w \<in> set (live mm)" and g: "mr_gpa_start w \<noteq> g"
  shows "w \<in> set (drop_first (\<lambda>v. mr_gpa_start v = g) (live mm))"
proof (cases "\<exists>v\<in>set (live mm). mr_gpa_start v = g")
  case True
  then obtain v where v: "v \<in> set (live mm)" "mr_gpa_start v = g" by blast
  have "u \<in> set (live mm) \<Longrightarrow> mr_gpa_start u = g \<longleftrightarrow> u = v" for u
    using live_unwrapped [OF inv nw [unfolded unwrapped_def] v(1), of u g] v nw
    by (force simp: in_range_def unwrapped_def)
  with drop_first_unique [OF live_distinct [OF inv nw [unfolded unwrapped_def]] v(1)] w g v show ?thesis by auto
next
  case False
  with w show ?thesis by (simp add: drop_first_id)
qed

lemma unregister_inv:
  assumes inv: "virtio_inv s"
  shows "virtio_inv (relm_virtio_mmio_unregister_device (Some d) s)"
  using inv
proof (cases rule: unregister_cases [where d = d])
  case absent
  with inv show ?thesis by simp
next
  case (removed i)
  let ?s = "unregistered_at i d s" and ?vm = "dev_vm (vdevs s d)"
  have mi: "mmio_inv (vvms s vm)" and mu: "unwrapped (vvms s vm)" for vm using inv by (simp_all add: virtio_inv_def)
  have dist: "distinct (registered s)" using inv by (simp add: virtio_inv_def)
  have reg: "set (registered ?s) = set (registered s) - {d}" "distinct (registered ?s)"
    using set_delete_nth [OF dist removed(3)] removed(2)
    by (simp_all only: registered_unregistered_at [OF inv removed(1)])
  have v: "vvms ?s = (vvms s)(?vm := release_from (mmio_region_count (vvms s ?vm)) 0 (mmio_base_gpa (vdevs s d)) (vvms s ?vm))"
    "vdevs ?s = vdevs s"
    by (simp_all add: unregistered_at_def)
  have "mmio_inv (vvms ?s vm)" for vm using mi release_inv [OF mi] by (simp add: v)
  moreover have "unwrapped (vvms ?s vm)" for vm
    using mu subsetD [OF set_drop_first] by (fastforce simp: v unwrapped_def live_release [OF mi])
  moreover have "window_reserved ?s e" if e: "e \<in> set (registered s)" "e \<noteq> d" for e
  proof -
    obtain w where w: "w \<in> set (live (vvms s (dev_vm (vdevs s e))))" "mr_gpa_start w = mmio_base_gpa (vdevs s e)"
        "mr_size w = RELM_VIRTIO_MMIO_REGION_SIZE"
      using inv e unfolding virtio_inv_def window_reserved_def by metis
    have "d \<in> set (registered s)" using removed by (metis nth_mem)
    then have "dev_vm (vdevs s e) = ?vm \<Longrightarrow> mr_gpa_start w \<noteq> mmio_base_gpa (vdevs s d)"
      using inv e w(2) unfolding virtio_inv_def by metis
    then have "w \<in> set (live (vvms ?s (dev_vm (vdevs s e))))"
      using release_keeps_window [OF mi mu w(1)] w(1)
      by (cases "dev_vm (vdevs s e) = ?vm") (simp_all add: v live_release [OF mi])
    with w show ?thesis by (auto simp: window_reserved_def v)
  qed
  ultimately have "virtio_inv ?s"
    using inv reg unfolding virtio_inv_def v(2)
    by (auto simp: unregistered_at_def)
  with removed show ?thesis by simp
qed

lemma access_inv:
  assumes inv: "virtio_inv s" and ops: "callbacks_ok ops"
  shows "virtio_inv (snd (snd (relm_virtio_mmio_register_access ops d off w v irq s)))" (is "virtio_inv ?s")
proof -
  have rise: "rise_ok (vdevs s d) (vdevs ?s d)" using access_rise [OF _ ops] inv by (simp add: virtio_inv_def)
  have same: "vvms ?s = vvms s" "registered ?s = registered s" "g_registered_devices ?s = g_registered_devices s"
    "g_registered_count ?s = g_registered_count s" "length (g_selector_state ?s) = length (g_selector_state s)"
    and other: "e \<noteq> d \<Longrightarrow> vdevs ?s e = vdevs s e" for e
    by (simp_all add: access_state Let_def registered_def)
  have wires: "dev_vm (vdevs ?s e) = dev_vm (vdevs s e) \<and> mmio_base_gpa (vdevs ?s e) = mmio_base_gpa (vdevs s e)
      \<and> queues_ok (vdevs ?s e)" for e
    using rise other [of e] inv by (cases "e = d") (simp_all add: rise_ok_def virtio_inv_def)
  show ?thesis
    using inv unfolding virtio_inv_def same window_reserved_def by (simp add: wires)
qed

lemma virtio_step_inv: "virtio_step s t \<Longrightarrow> virtio_inv s \<Longrightarrow> virtio_inv t"
  by (erule virtio_step.cases) (simp_all add: register_inv unregister_inv access_inv)

interpretation virtio_run: step_invariant virtio_step virtio_inv
  by unfold_locales (rule virtio_step_inv)

section \<open>Sequences of accesses\<close>

lemma selector_slot_cong:
  "g_registered_devices s = g_registered_devices t \<Longrightarrow> selector_slot_from k i d s = selector_slot_from k i d t"
  by (induction k arbitrary: i) simp_all

lemma selector_state_for_cong [simp]:
  "selector_state_for d (sel_put i sl s) = selector_state_for d s"
  "selector_state_for d (put_dev e dv s) = selector_state_for d s"
  unfolding selector_state_for_def
  by (simp_all add: selector_slot_cong [of "sel_put i sl s" s] selector_slot_cong [of "put_dev e dv s" s])

lemma selector_slot_bound: "selector_slot_from k i d s = Some j \<Longrightarrow> i \<le> j \<and> j < i + k \<and> g_registered_devices s ! j = d"
  by (induction k arbitrary: i) (fastforce split: if_splits)+

lemma selector_slot_hit:
  "i \<le> j \<Longrightarrow> j < i + k \<Longrightarrow> g_registered_devices s ! j = d \<Longrightarrow>
     (\<And>m. i \<le> m \<Longrightarrow> m < j \<Longrightarrow> g_registered_devices s ! m \<noteq> d) \<Longrightarrow> selector_slot_from k i d s = Some j"
proof (induction k arbitrary: i)
  case (Suc k)
  show ?case
  proof (cases "i = j")
    case False
    then have "i + 1 \<le> j" using Suc.prems(1) by simp
    moreover have "g_registered_devices s ! i \<noteq> d" using Suc.prems(1,4) False by simp
    ultimately show ?thesis using Suc by simp
  qed (use Suc.prems in simp)
qed simp

lemma selector_state_for_nth:
  assumes inv: "virtio_inv s" and j: "j < g_registered_count s"
  shows "selector_state_for (registered s ! j) s = Some j"
  unfolding selector_state_for_def
proof (rule selector_slot_hit)
  have d: "distinct (registered s)" using inv by (simp add: virtio_inv_def)
  fix m assume "m < j"
  with registered_nth [OF inv, of m] registered_nth [OF inv j] j d
  show "g_registered_devices s ! m \<noteq> registered s ! j" by (metis nat_neq_iff nth_eq_iff_index_eq order.strict_trans)
qed (use registered_nth [OF inv j] j in simp_all)

definition sel_ok :: "nat \<Rightarrow> virtio_state \<Rightarrow> bool" where
  "sel_ok d s \<longleftrightarrow> (\<forall>i. selector_state_for d s = Some i \<longrightarrow> i < length (g_selector_state s))"

lemma sel_ok_inv: "virtio_inv s \<Longrightarrow> sel_ok d s"
  unfolding sel_ok_def selector_state_for_def virtio_inv_def by (metis add_0 order.strict_trans2 selector_slot_bound)

lemma sel_get_put: "sel_ok d s \<Longrightarrow> sel_get (selector_state_for d s) (sel_put (selector_state_for d s) sl s) = sl"
  by (auto simp: sel_get_def sel_put_def sel_ok_def split: option.splits)

lemma sel_get_put_dev [simp]: "sel_get i (put_dev d dv s) = sel_get i s"
  by (simp add: sel_get_def split: option.splits)

text \<open>A driver's writes to a device, and their effect on the device and its own selectors.\<close>

type_synonym reg_write = "nat \<times> u32"

definition driver_write :: "relm_virtio_device_ops \<Rightarrow> nat \<Rightarrow> reg_write \<Rightarrow> virtio_state \<Rightarrow> virtio_state" where
  "driver_write ops d rw s = snd (snd (relm_virtio_mmio_register_access ops d (fst rw) True (snd rw) False s))"

definition dev_write :: "relm_virtio_device_ops \<Rightarrow> reg_write \<Rightarrow> relm_virtio_device \<times> mmio_selector_state \<Rightarrow>
    relm_virtio_device \<times> mmio_selector_state" where
  "dev_write ops rw p = (case reg_dispatch ops (fst rw) True (snd rw, fst p, snd p, False) of (_, dv, sl, _) \<Rightarrow> (dv, sl))"

definition dev_regs :: "nat \<Rightarrow> virtio_state \<Rightarrow> relm_virtio_device \<times> mmio_selector_state" where
  "dev_regs d s = (vdevs s d, sel_get (selector_state_for d s) s)"

lemma driver_write_regs:
  assumes "sel_ok d s"
  shows "sel_ok d (driver_write ops d rw s)" "dev_regs d (driver_write ops d rw s) = dev_write ops rw (dev_regs d s)"
proof -
  have "sel_ok d (put_dev d dv s)" for dv using assms by (simp add: sel_ok_def)
  from sel_get_put [OF this] show "dev_regs d (driver_write ops d rw s) = dev_write ops rw (dev_regs d s)"
    by (simp add: dev_regs_def driver_write_def access_state Let_def dev_write_def split: prod.splits)
  show "sel_ok d (driver_write ops d rw s)"
    using assms by (simp add: sel_ok_def driver_write_def access_state Let_def)
qed

lemma driver_writes_regs:
  "sel_ok d s \<Longrightarrow> dev_regs d (fold (driver_write ops d) ws s) = fold (dev_write ops) ws (dev_regs d s)"
  by (induction ws arbitrary: s) (simp_all add: driver_write_regs)

lemma half_masks:
  "x AND 0x00000000FFFFFFFF = take_bit 32 (x :: u64)"
  "x AND 0xFFFFFFFF00000000 = push_bit 32 (drop_bit 32 (x :: u64))"
proof -
  show "x AND 0x00000000FFFFFFFF = take_bit 32 x" by (simp add: take_bit_eq_mask mask_eq_exp_minus_1)
  have "(0xFFFFFFFF00000000 :: u64) = NOT (mask 32)" by (simp add: mask_eq_exp_minus_1)
  then show "x AND 0xFFFFFFFF00000000 = push_bit 32 (drop_bit 32 x)" by (simp only: and_not_mask)
qed

lemma halves:
  "hi_half (lo_half x lo) hi = push_bit 32 (ucast hi) OR ucast lo"
  "lo_half (hi_half x hi) lo = push_bit 32 (ucast hi) OR ucast lo"
  unfolding lo_half_def hi_half_def half_masks
  by (rule bit_word_eqI, use bit_imp_le_length [of lo] in \<open>auto simp: bit_simps\<close>)+

section \<open>Properties\<close>

lemma find_unique:
  "x \<in> set xs \<Longrightarrow> P x \<Longrightarrow> (\<And>y. y \<in> set xs \<Longrightarrow> P y \<Longrightarrow> y = x) \<Longrightarrow> find P xs = Some x"
proof (induction xs)
  case (Cons y xs)
  show ?case
  proof (cases "P y")
    case True
    with Cons.prems(3) [of y] show ?thesis by simp
  next
    case False
    with Cons.prems(1,2) have "x \<in> set xs" by auto
    from Cons.IH [OF this Cons.prems(2) Cons.prems(3)] False show ?thesis by simp
  qed
qed simp

lemma find_device:
  assumes inv: "virtio_inv s" and d: "d \<in> set (registered s)"
    and a: "in_range a (mmio_base_gpa (vdevs s d)) RELM_VIRTIO_MMIO_REGION_SIZE"
  shows "relm_virtio_find_device_for_gpa (dev_vm (vdevs s d)) a s = Some d"
  unfolding relm_virtio_find_device_for_gpa_def registered_def [symmetric]
proof (rule find_unique)
  let ?mm = "vvms s (dev_vm (vdevs s d))"
  have mi: "mmio_inv ?mm" and mu: "unwrapped ?mm" using inv by (simp_all add: virtio_inv_def)
  have win: "\<exists>w\<in>set (live ?mm). mr_gpa_start w = mmio_base_gpa (vdevs s e) \<and> mr_size w = RELM_VIRTIO_MMIO_REGION_SIZE"
    if "e \<in> set (registered s)" "dev_vm (vdevs s e) = dev_vm (vdevs s d)" for e
    using inv that unfolding virtio_inv_def window_reserved_def by metis
  fix e assume e: "e \<in> set (registered s)"
    "dev_vm (vdevs s e) = dev_vm (vdevs s d) \<and> mmio_base_gpa (vdevs s e) \<le> a \<and>
     a < mmio_base_gpa (vdevs s e) + RELM_VIRTIO_MMIO_REGION_SIZE"
  obtain w w' where ww: "w \<in> set (live ?mm)" "mr_gpa_start w = mmio_base_gpa (vdevs s d)" "mr_size w = RELM_VIRTIO_MMIO_REGION_SIZE"
      "w' \<in> set (live ?mm)" "mr_gpa_start w' = mmio_base_gpa (vdevs s e)" "mr_size w' = RELM_VIRTIO_MMIO_REGION_SIZE"
    using win [OF d] win [OF e(1)] e(2) by auto
  with a e(2) have "w' = w"
    using live_unwrapped [OF mi mu [unfolded unwrapped_def] ww(1) ww(4), of a] by (simp add: in_range_def)
  with ww have "mmio_base_gpa (vdevs s e) = mmio_base_gpa (vdevs s d)" by simp
  with inv d e show "e = d" unfolding virtio_inv_def by metis
qed (use d a in \<open>auto simp: in_range_def\<close>)


text \<open>A concrete registry: two devices of the VM of \<open>mmio_two\<close>, which has their windows reserved.\<close>

definition demo_queue :: relm_virtqueue where
  "demo_queue = \<lparr>queue_size = 0, desc_gpa = 0, avail_gpa = 0, used_gpa = 0, last_avail_idx = 0, ready = False\<rparr>"

definition demo_dev :: "u64 \<Rightarrow> string \<Rightarrow> relm_virtio_device" where
  "demo_dev base nm = \<lparr>device_id = 2, mmio_base_gpa = base, dev_irq = 5, dev_vm = 0, status = 0, guest_features = 0,
     isr = 0, queues = replicate 8 demo_queue, queue_count = 1, dev_has_ops = True, dev_name = nm\<rparr>"

definition demo_virtio :: virtio_state where
  "demo_virtio = \<lparr>vdevs = (\<lambda>d. if d = 0 then demo_dev 0xD0000000 ''blk'' else demo_dev 0xD0001000 ''net''),
     vvms = (\<lambda>_. mmio_two), g_registered_devices = [0, 1, 0, 0], g_registered_count = 2,
     g_selector_state = [\<lparr>device_features_sel = 0, driver_features_sel = 0, queue_sel = 0\<rparr>,
        \<lparr>device_features_sel = 1, driver_features_sel = 1, queue_sel = 1\<rparr>,
        \<lparr>device_features_sel = 0, driver_features_sel = 0, queue_sel = 0\<rparr>,
        \<lparr>device_features_sel = 0, driver_features_sel = 0, queue_sel = 0\<rparr>],
     sel_dummy = \<lparr>device_features_sel = 0, driver_features_sel = 0, queue_sel = 0\<rparr>\<rparr>"

definition demo_ops :: relm_virtio_device_ops where
  "demo_ops = \<lparr>op_device_features = (\<lambda>_ sl. if sl = 1 then 1 else 0), op_driver_features_ack = (\<lambda>dv _ _. dv),
     op_queue_num_max = (\<lambda>_ _. 64), op_config_read = (\<lambda>_ _. 0), op_queue_notify = (\<lambda>dv _. (1, dv)),
     op_status_changed = None\<rparr>"

lemma demo_ops_ok: "callbacks_ok demo_ops"
  by (simp add: callbacks_ok_def demo_ops_def)

lemma demo_virtio_inv: "virtio_inv demo_virtio"
  using mmio_two_inv
  by (simp add: virtio_inv_def demo_virtio_def registered_def unwrapped_def live_mmio_two window_reserved_def
      queues_ok_def demo_dev_def)


text \<open>A virtqueue turns ready only with all three ring addresses programmed and only under a
  driver that has set DRIVER_OK, whichever register the guest writes (QueueReady or Status).\<close>

theorem queue_ready_rise:
  assumes "queues_ok (vdevs s dev)" "callbacks_ok ops" "i < 8"
    and "relm_virtio_mmio_register_access ops dev off is_write v irq s = (v', irq', s')"
    and "\<not> ready (queues (vdevs s dev) ! i)" "ready (queues (vdevs s' dev) ! i)"
  shows "ring_set (queues (vdevs s' dev) ! i) \<and> status (vdevs s' dev) AND VIRTIO_CONFIG_S_DRIVER_OK \<noteq> 0"
  using access_rise [OF assms(1,2), of off is_write v irq] assms(3-6) by (simp add: rise_ok_def)

definition demo_armed :: virtio_state where
  "demo_armed = put_dev 0 (upd_queue 0 (\<lambda>q. q\<lparr>desc_gpa := 0x1000, avail_gpa := 0x2000, used_gpa := 0x3000\<rparr>)
     (demo_dev 0xD0000000 ''blk'')) demo_virtio"

theorem queue_ready_rise_witness:
  "status (vdevs (snd (snd (relm_virtio_mmio_register_access demo_ops 0 0x070 True 7 False demo_armed))) 0)
     AND VIRTIO_CONFIG_S_DRIVER_OK \<noteq> 0"
proof -
  let ?r = "relm_virtio_mmio_register_access demo_ops 0 0x070 True 7 False demo_armed"
  have q: "queues_ok (vdevs demo_armed 0)"
    by (simp add: demo_armed_def queues_ok_def upd_queue_def demo_dev_def)
  have "\<not> ready (queues (vdevs demo_armed 0) ! 0)" "ready (queues (vdevs (snd (snd ?r)) 0) ! 0)"
    using each_queue_nth [of "(vdevs demo_armed 0)\<lparr>status := 7\<rparr>" 0] q
    by (simp_all add: access_state reg_dispatch_def reg_status_def Let_def demo_ops_def queues_ok_def activate_queue_def
        demo_armed_def upd_queue_def demo_dev_def demo_queue_def)
  with queue_ready_rise [OF q demo_ops_ok, of 0 "0x070" True 7 False "fst ?r" "fst (snd ?r)" "snd (snd ?r)"]
  show ?thesis by simp
qed

text \<open>The writes with which a modern driver brings up queue \<open>q\<close>: select it, program the three ring
  addresses, each in two halves, and set the status.\<close>

definition ring_writes :: "u32 \<Rightarrow> u32 \<Rightarrow> u32 \<Rightarrow> u32 \<Rightarrow> u32 \<Rightarrow> u32 \<Rightarrow> u32 \<Rightarrow> reg_write list" where
  "ring_writes q dl dh al ah ul uh =
     [(0x030, q), (0x080, dl), (0x084, dh), (0x090, al), (0x094, ah), (0x0a0, ul), (0x0a4, uh)]"

abbreviation join64 :: "u32 \<Rightarrow> u32 \<Rightarrow> u64" where "join64 hi lo \<equiv> push_bit 32 (ucast hi) OR ucast lo"

lemma upd_queue_twice: "i < length (queues dv) \<Longrightarrow> upd_queue i g (upd_queue i f dv) = upd_queue i (g \<circ> f) dv"
  by (simp add: upd_queue_def)

lemma ring_writes_regs:
  assumes "unat q < queue_count dv" "queues_ok dv"
  shows "fold (dev_write ops) (ring_writes q dl dh al ah ul uh) (dv, sl) =
    (upd_queue (unat q) (\<lambda>vq. vq\<lparr>desc_gpa := join64 dh dl, avail_gpa := join64 ah al, used_gpa := join64 uh ul\<rparr>) dv,
     sl\<lparr>queue_sel := q\<rparr>)"
  using assms
  by (simp add: ring_writes_def dev_write_def reg_dispatch_def reg_queue_setup_def reg_queue_addr_def Let_def
      upd_queue_twice queues_ok_def halves comp_def)

lemma status_write_queue:
  assumes "queues_ok dv" "callbacks_ok ops" "i < queue_count dv" "st \<noteq> 0" "st AND 0x80 = 0" "st AND 4 \<noteq> 0"
  shows "queue_view (queues (fst (dev_write ops (0x070, st) (dv, sl))) ! i) = queue_view (activate_queue (queues dv ! i))"
proof -
  let ?dv = "each_queue activate_queue (dv\<lparr>status := ucast st\<rparr>)"
  have i: "i < 8" using assms(1,3) by (simp add: queues_ok_def)
  have q: "queues ?dv ! i = activate_queue (queues dv ! i)"
    using each_queue_nth [of "dv\<lparr>status := ucast st\<rparr>" i] assms(1,3) i by (simp add: queues_ok_def)
  have len: "length (queues ?dv) = 8" using assms(1) by (subst each_queue_eq) (simp_all add: queues_ok_def)
  have "transport_view (fst (dev_write ops (0x070, st) (dv, sl))) = transport_view ?dv"
    using assms(2,4-6) by (simp add: dev_write_def reg_dispatch_def reg_status_def Let_def callbacks_ok_def split: option.splits)
  from transport_view_queue [OF this, of i] show ?thesis by (simp add: len i q)
qed

text \<open>A driver that selects a queue of the device, programs the two halves of the three ring
  addresses and then sets a status with DRIVER_OK (not FAILED) gets a ready queue with exactly the
  64-bit addresses it programmed, whatever the state of the transport before.\<close>

theorem driver_init_ready:
  assumes "virtio_inv s" "callbacks_ok ops" "unat q < queue_count (vdevs s d)"
    and "st AND 0x80 = 0" "st AND 4 \<noteq> 0"
    and "join64 dh dl \<noteq> 0" "join64 ah al \<noteq> 0" "join64 uh ul \<noteq> 0"
  shows "let vq = queues (vdevs (fold (driver_write ops d) (ring_writes q dl dh al ah ul uh @ [(0x070, st)]) s) d) ! unat q
    in ready vq \<and> desc_gpa vq = join64 dh dl \<and> avail_gpa vq = join64 ah al \<and> used_gpa vq = join64 uh ul"
proof -
  let ?dv = "vdevs s d" and ?sl = "sel_get (selector_state_for d s) s"
  let ?f = "\<lambda>vq. vq\<lparr>desc_gpa := join64 dh dl, avail_gpa := join64 ah al, used_gpa := join64 uh ul\<rparr>"
  have q: "queues_ok ?dv" using assms(1) by (simp add: virtio_inv_def)
  have "dev_regs d (fold (driver_write ops d) (ring_writes q dl dh al ah ul uh @ [(0x070, st)]) s) =
      dev_write ops (0x070, st) (upd_queue (unat q) ?f ?dv, ?sl\<lparr>queue_sel := q\<rparr>)"
    by (subst driver_writes_regs [OF sel_ok_inv [OF assms(1)]])
      (simp add: dev_regs_def ring_writes_regs [OF assms(3) q])
  then have dv: "vdevs (fold (driver_write ops d) (ring_writes q dl dh al ah ul uh @ [(0x070, st)]) s) d =
      fst (dev_write ops (0x070, st) (upd_queue (unat q) ?f ?dv, ?sl\<lparr>queue_sel := q\<rparr>))"
    unfolding dev_regs_def by (metis fst_conv)
  have qn: "queues (upd_queue (unat q) ?f ?dv) ! unat q = ?f (queues ?dv ! unat q)"
    using q assms(3) by (simp add: upd_queue_def queues_ok_def)
  have "queue_view (queues (fst (dev_write ops (0x070, st) (upd_queue (unat q) ?f ?dv, ?sl\<lparr>queue_sel := q\<rparr>))) ! unat q) =
      queue_view (activate_queue (?f (queues ?dv ! unat q)))"
    unfolding qn [symmetric]
    by (rule status_write_queue) (use q assms in \<open>auto simp: queues_ok_def\<close>)
  with assms(6-8) show ?thesis unfolding dv Let_def queue_view_iff by (simp add: activate_queue_def)
qed

theorem driver_init_ready_witness:
  "desc_gpa (queues (vdevs (fold (driver_write demo_ops 1)
      (ring_writes 0 0x1000 1 0x2000 0 0x3000 0 @ [(0x070, 15)]) demo_virtio) 1) ! 0) = 0x100001000"
proof -
  have "unat (0 :: u32) < queue_count (vdevs demo_virtio 1)" by (simp add: demo_virtio_def demo_dev_def)
  from driver_init_ready [OF demo_virtio_inv demo_ops_ok this, of 15 1 "0x1000" 0 "0x2000" 0 "0x3000"]
  show ?thesis by (simp add: Let_def push_bit_eq_mult)
qed

text \<open>Writing zero to Status, or a value with FAILED, takes every queue of the device out of
  service: not ready, ring addresses and read position cleared.\<close>

theorem status_reset_clears_queues:
  assumes "queues_ok (vdevs s d)" "callbacks_ok ops" "v = 0 \<or> v AND 0x80 \<noteq> 0" "i < queue_count (vdevs s d)"
  shows "queue_view (queues (vdevs (driver_write ops d (0x070, v) s) d) ! i) =
    (queue_size (queues (vdevs s d) ! i), 0, 0, 0, False)"
proof -
  let ?dv = "each_queue reset_queue ((vdevs s d)\<lparr>status := ucast v\<rparr>)"
  have i: "i < 8" using assms(1,4) by (simp add: queues_ok_def)
  have q: "queues ?dv ! i = reset_queue (queues (vdevs s d) ! i)"
    using each_queue_nth [of "(vdevs s d)\<lparr>status := ucast v\<rparr>" i] assms(1,4) i by (simp add: queues_ok_def)
  have len: "length (queues ?dv) = 8" using assms(1) by (subst each_queue_eq) (simp_all add: queues_ok_def)
  have "transport_view (vdevs (driver_write ops d (0x070, v) s) d) = transport_view ?dv"
    using assms(2,3) by (auto simp: driver_write_def access_state reg_dispatch_def reg_status_def Let_def callbacks_ok_def
        split: option.splits)
  from transport_view_queue [OF this, of i] show ?thesis
    by (simp add: len i q reset_queue_def queue_view_def)
qed

theorem status_reset_clears_queues_witness:
  "queue_view (queues (vdevs (driver_write demo_ops 0 (0x070, 0) demo_armed) 0) ! 0) = (0, 0, 0, 0, False)"
proof -
  have "queues_ok (vdevs demo_armed 0)" "0 < queue_count (vdevs demo_armed 0)"
    by (simp_all add: demo_armed_def queues_ok_def upd_queue_def demo_dev_def)
  from status_reset_clears_queues [OF this(1) demo_ops_ok _ this(2), of 0] show ?thesis
    by (simp add: demo_armed_def upd_queue_def demo_dev_def demo_queue_def)
qed

text \<open>A guest's access to one device changes no other device, no VM's memory map, not the
  registry, and no selector register but the device's own.\<close>

theorem access_isolated:
  assumes "virtio_inv s" "relm_virtio_mmio_register_access ops d off is_write v irq s = (v', irq', s')"
  shows "vvms s' = vvms s \<and> registered s' = registered s \<and>
    (\<forall>e. e \<noteq> d \<longrightarrow> vdevs s' e = vdevs s e) \<and>
    (\<forall>i < g_registered_count s. registered s ! i \<noteq> d \<longrightarrow> g_selector_state s' ! i = g_selector_state s ! i)"
proof -
  have s': "s' = snd (snd (relm_virtio_mmio_register_access ops d off is_write v irq s))" using assms(2) by simp
  have "g_selector_state s' ! i = g_selector_state s ! i"
    if "i < g_registered_count s" "registered s ! i \<noteq> d" for i
  proof -
    have "selector_state_for d s \<noteq> Some i"
    proof
      assume "selector_state_for d s = Some i"
      from selector_slot_bound [OF this [unfolded selector_state_for_def]] that registered_nth [OF assms(1), of i]
      show False by simp
    qed
    then show ?thesis by (auto simp: s' access_state Let_def sel_put_def split: option.splits)
  qed
  then show ?thesis by (simp add: s' access_state Let_def registered_def)
qed

theorem access_isolated_witness:
  "g_selector_state (driver_write demo_ops 0 (0x030, 5) demo_virtio) ! 1 =
     \<lparr>device_features_sel = 1, driver_features_sel = 1, queue_sel = 1\<rparr>"
  using access_isolated [OF demo_virtio_inv, of demo_ops 0 "0x030" True 5 False
      "fst (relm_virtio_mmio_register_access demo_ops 0 0x030 True 5 False demo_virtio)"
      "fst (snd (relm_virtio_mmio_register_access demo_ops 0 0x030 True 5 False demo_virtio))"
      "driver_write demo_ops 0 (0x030, 5) demo_virtio"]
  by (simp add: driver_write_def) (simp add: demo_virtio_def registered_def less_2_cases_iff)

text \<open>Unregistering a device moves the devices registered after it down one slot but not the
  selector registers: each of them then operates on the selectors of the slot before its own, that
  is on those left by another device.\<close>

theorem unregister_misplaces_selectors:
  assumes inv: "virtio_inv s" and ik: "i < k" "k < g_registered_count s"
    and s': "s' = relm_virtio_mmio_unregister_device (Some (registered s ! i)) s"
  shows "sel_get (selector_state_for (registered s ! k) s') s' = g_selector_state s ! (k - 1)"
  using inv
proof (cases rule: unregister_cases [where d = "registered s ! i"])
  case absent
  with ik registered_nth [OF inv, of i] show ?thesis by (metis nth_mem order.strict_trans)
next
  case (removed j)
  have "distinct (registered s)" using inv by (simp add: virtio_inv_def)
  then have j: "j = i" using removed ik registered_nth [OF inv, of i]
    by (metis nth_eq_iff_index_eq order.strict_trans)
  have inv': "virtio_inv s'" unfolding s' by (rule unregister_inv [OF inv])
  have s'e: "s' = unregistered_at i (registered s ! i) s" using removed(4) j s' by simp
  have reg: "registered s' = take i (registered s) @ drop (i + 1) (registered s)"
    unfolding s'e by (rule registered_unregistered_at [OF inv]) (use ik in simp)
  have "registered s' ! (k - 1) = registered s ! k"
  proof -
    have "\<not> k - 1 < i" "Suc (i + (k - 1 - i)) = k" using ik by simp_all
    with ik registered_nth [OF inv, of k] show ?thesis unfolding reg by (simp add: nth_append)
  qed
  moreover have "k - 1 < g_registered_count s'" using ik by (simp add: s'e unregistered_at_def)
  ultimately have "selector_state_for (registered s ! k) s' = Some (k - 1)"
    using selector_state_for_nth [OF inv', of "k - 1"] by simp
  then show ?thesis by (simp add: sel_get_def s'e unregistered_at_def)
qed

theorem unregister_misplaces_selectors_witness:
  "queue_sel (sel_get (selector_state_for 1 demo_virtio) demo_virtio) = 1 \<and>
   queue_sel (sel_get (selector_state_for 1 (relm_virtio_mmio_unregister_device (Some 0) demo_virtio))
      (relm_virtio_mmio_unregister_device (Some 0) demo_virtio)) = 0"
  using unregister_misplaces_selectors [OF demo_virtio_inv, of 0 1 "relm_virtio_mmio_unregister_device (Some 0) demo_virtio"]
  by (simp add: demo_virtio_def registered_def numeral_2_eq_2 selector_state_for_def sel_get_def)

end
