(* ===== verification/Relm_Vcpu.thy ===== *)
theory Relm_Vcpu
  imports Relm_Prelude
begin

text \<open>
  The virtual CPU as a data structure (include/relm/vcpu.h, include/arch/x86/vmx/vcpu_arch.h,
  include/arch/x86/vmx/apic.h): the guest registers and their accessors by encoding number, the local
  APIC of a vCPU, the generic life-cycle fields, and the VMCS as the map from field encodings to
  values that VMREAD and VMWRITE operate on. The virtual-APIC page is the map from byte offsets to
  the 32-bit words at them: the code only ever accesses it in aligned 32-bit words.
\<close>

section \<open>Guest registers\<close>

record guest_regs =
  reg_rax :: u64
  reg_rbx :: u64
  reg_rcx :: u64
  reg_rdx :: u64
  reg_rsi :: u64
  reg_rdi :: u64
  reg_rbp :: u64
  reg_rsp :: u64
  reg_r8 :: u64
  reg_r9 :: u64
  reg_r10 :: u64
  reg_r11 :: u64
  reg_r12 :: u64
  reg_r13 :: u64
  reg_r14 :: u64
  reg_r15 :: u64
  reg_rip :: u64
  reg_rflags :: u64

text \<open>The accessors by the register number of the instruction encoding; the pointer of the C code is
  split into its two uses.\<close>

definition guest_reg_read :: "guest_regs \<Rightarrow> int \<Rightarrow> u64" where
  "guest_reg_read r i =
     (if i = 0 then reg_rax r else if i = 1 then reg_rcx r else if i = 2 then reg_rdx r
      else if i = 3 then reg_rbx r else if i = 4 then reg_rsp r else if i = 5 then reg_rbp r
      else if i = 6 then reg_rsi r else if i = 7 then reg_rdi r else if i = 8 then reg_r8 r
      else if i = 9 then reg_r9 r else if i = 10 then reg_r10 r else if i = 11 then reg_r11 r
      else if i = 12 then reg_r12 r else if i = 13 then reg_r13 r else if i = 14 then reg_r14 r
      else if i = 15 then reg_r15 r else 0)"

definition guest_reg_write :: "guest_regs \<Rightarrow> int \<Rightarrow> u64 \<Rightarrow> guest_regs" where
  "guest_reg_write r i v =
     (if i = 0 then r\<lparr>reg_rax := v\<rparr> else if i = 1 then r\<lparr>reg_rcx := v\<rparr> else if i = 2 then r\<lparr>reg_rdx := v\<rparr>
      else if i = 3 then r\<lparr>reg_rbx := v\<rparr> else if i = 4 then r\<lparr>reg_rsp := v\<rparr> else if i = 5 then r\<lparr>reg_rbp := v\<rparr>
      else if i = 6 then r\<lparr>reg_rsi := v\<rparr> else if i = 7 then r\<lparr>reg_rdi := v\<rparr> else if i = 8 then r\<lparr>reg_r8 := v\<rparr>
      else if i = 9 then r\<lparr>reg_r9 := v\<rparr> else if i = 10 then r\<lparr>reg_r10 := v\<rparr> else if i = 11 then r\<lparr>reg_r11 := v\<rparr>
      else if i = 12 then r\<lparr>reg_r12 := v\<rparr> else if i = 13 then r\<lparr>reg_r13 := v\<rparr> else if i = 14 then r\<lparr>reg_r14 := v\<rparr>
      else if i = 15 then r\<lparr>reg_r15 := v\<rparr> else r)"

lemma guest_reg_write_out: "\<not> (0 \<le> i \<and> i < 16) \<Longrightarrow> guest_reg_write r i v = r"
proof -
  assume "\<not> (0 \<le> i \<and> i < 16)"
  then have "i \<noteq> 0" "i \<noteq> 1" "i \<noteq> 2" "i \<noteq> 3" "i \<noteq> 4" "i \<noteq> 5" "i \<noteq> 6" "i \<noteq> 7" "i \<noteq> 8" "i \<noteq> 9" "i \<noteq> 10"
    "i \<noteq> 11" "i \<noteq> 12" "i \<noteq> 13" "i \<noteq> 14" "i \<noteq> 15" by auto
  then show ?thesis by (simp add: guest_reg_write_def)
qed

lemma reg_index_cases:
  "0 \<le> (i :: int) \<Longrightarrow> i < 16 \<Longrightarrow> i = 0 \<or> i = 1 \<or> i = 2 \<or> i = 3 \<or> i = 4 \<or> i = 5 \<or> i = 6 \<or> i = 7
     \<or> i = 8 \<or> i = 9 \<or> i = 10 \<or> i = 11 \<or> i = 12 \<or> i = 13 \<or> i = 14 \<or> i = 15"
  by presburger

lemma guest_reg_read_write_same [simp]:
  "0 \<le> i \<Longrightarrow> i < 16 \<Longrightarrow> guest_reg_read (guest_reg_write r i v) i = v"
  by (drule (1) reg_index_cases, elim disjE) (simp_all add: guest_reg_read_def guest_reg_write_def)

lemma guest_reg_read_write_other [simp]:
  assumes "i \<noteq> j"
  shows "guest_reg_read (guest_reg_write r i v) j = guest_reg_read r j"
proof (cases "0 \<le> i \<and> i < 16")
  case True
  with reg_index_cases [of i] have "i = 0 \<or> i = 1 \<or> i = 2 \<or> i = 3 \<or> i = 4 \<or> i = 5 \<or> i = 6 \<or> i = 7
     \<or> i = 8 \<or> i = 9 \<or> i = 10 \<or> i = 11 \<or> i = 12 \<or> i = 13 \<or> i = 14 \<or> i = 15" by blast
  with assms show ?thesis
    by (elim disjE) (simp_all add: guest_reg_write_def guest_reg_read_def)
next
  case False
  then show ?thesis by (simp add: guest_reg_write_out)
qed

lemma guest_reg_write_rip [simp]: "reg_rip (guest_reg_write r i v) = reg_rip r"
  by (simp add: guest_reg_write_def)

section \<open>The local APIC\<close>

datatype virt_apic_timer_mode = APIC_TIMER_MODE_ONESHOT | APIC_TIMER_MODE_PERIODIC
  | APIC_TIMER_MODE_TSC_DEADLINE | APIC_TIMER_MODE_RESERVED

record virt_apic =
  vapic_page :: "(u32 \<Rightarrow> u32) option"
  vapic_page_pa :: u64
  apic_access_page :: bool
  apic_access_page_pa :: u64
  apic_id :: u32
  apic_version :: u32
  tpr :: u32
  ppr :: u32
  svr :: u32
  ldr :: u32
  dfr :: u32
  esr :: u32
  esr_pending :: u32
  irr_words :: "u32 list"
  isr_words :: "u32 list"
  tmr_words :: "u32 list"
  icr_low :: u32
  icr_high :: u32
  lvt_timer :: u32
  lvt_thermal :: u32
  lvt_pmc :: u32
  lvt_lint0 :: u32
  lvt_lint1 :: u32
  lvt_error :: u32
  timer_icr :: u32
  timer_dcr :: u32
  timer_mode :: virt_apic_timer_mode
  timer_start_ns :: u64
  timer_deadline_tsc :: u64
  is_enabled :: bool
  apic_reg_virt_supported :: bool

section \<open>The vCPU\<close>

datatype vcpu_state = VCPU_STATE_UNINITIALIZED | VCPU_STATE_INITIALIZED | VCPU_STATE_RUNNING
  | VCPU_STATE_HALTED | VCPU_STATE_STOPPED | VCPU_STATE_SHUTDOWN | VCPU_STATE_ERROR

record vcpu_stats =
  total_exits :: u64
  hypercalls :: u64
  hlt_exits :: u64
  cpuid_exits :: u64
  io_exits :: u64
  mmio_exits :: u64
  start_time_ns :: u64
  end_time_ns :: u64

text \<open>The VMX-specific part of a vCPU that is set up once: the VMCS region, the host stack pointer, the
  requested execution controls, the bitmaps and the MSR areas. A pointer to a page is the frame it
  points to; its physical address is zero when it is null.\<close>

record vmx_exec_ctrls =
  pin_based :: u32
  primary_proc :: u32
  secondary_proc :: u32
  vm_entry :: u32
  vm_exit :: u32

record vcpu_arch =
  va_vmcs :: "u64 option"
  va_host_stack :: "u64 option"
  va_host_rsp :: u64
  va_controls :: vmx_exec_ctrls
  va_msr_bitmap :: "u64 option"
  va_io_bitmap :: "u64 option"
  va_exception_bitmap :: u32
  va_vmexit_store_area :: "u64 option"
  va_vmexit_load_area :: "u64 option"
  va_vmentry_load_area :: "u64 option"
  va_vmexit_count :: nat
  va_vmentry_count :: nat
  va_msr_indices :: "u32 list"
  va_cr3 :: u64
  va_gdtr_base :: u64
  va_gdtr_limit :: u16
  va_idtr_base :: u64
  va_idtr_limit :: u16

definition pa_of :: "u64 option \<Rightarrow> u64" where
  "pa_of p = (case p of None \<Rightarrow> 0 | Some f \<Rightarrow> f)"

text \<open>\<open>vmcs\<close> holds the fields of the current VMCS by encoding; \<open>vmcs_rejects\<close> are the encodings for
  which the processor's VMWRITE fails.\<close>

record vcpu =
  vpid :: u16
  target_cpu_id :: int
  vc_state :: vcpu_state
  halted :: bool
  launched :: int
  host_task :: bool
  stats :: vcpu_stats
  regs :: guest_regs
  apic :: virt_apic
  vmentry_host_rsp :: u64
  arch_cr0 :: u64
  arch_cr4 :: u64
  arch_efer :: u64
  arch_xcr0 :: u64
  va :: vcpu_arch
  vmcs :: "nat \<Rightarrow> u64"
  vmcs_rejects :: "nat \<Rightarrow> bool"

definition vmread :: "vcpu \<Rightarrow> nat \<Rightarrow> u64" where
  "vmread vc enc = vmcs vc enc"

definition vmwrite :: "nat \<Rightarrow> u64 \<Rightarrow> vcpu \<Rightarrow> bool \<times> vcpu" where
  "vmwrite enc v vc = (if vmcs_rejects vc enc then (False, vc) else (True, vc\<lparr>vmcs := (vmcs vc)(enc := v)\<rparr>))"

lemma vmread_vmwrite:
  "vmread (snd (vmwrite enc v vc)) e = (if e = enc \<and> \<not> vmcs_rejects vc enc then v else vmread vc e)"
  by (simp add: vmread_def vmwrite_def)

lemma vmwrite_keeps [simp]:
  "vpid (snd (vmwrite enc v vc)) = vpid vc" "vc_state (snd (vmwrite enc v vc)) = vc_state vc"
  "halted (snd (vmwrite enc v vc)) = halted vc" "launched (snd (vmwrite enc v vc)) = launched vc"
  "stats (snd (vmwrite enc v vc)) = stats vc" "regs (snd (vmwrite enc v vc)) = regs vc"
  "apic (snd (vmwrite enc v vc)) = apic vc" "vmcs_rejects (snd (vmwrite enc v vc)) = vmcs_rejects vc"
  "arch_cr0 (snd (vmwrite enc v vc)) = arch_cr0 vc" "arch_cr4 (snd (vmwrite enc v vc)) = arch_cr4 vc"
  "arch_efer (snd (vmwrite enc v vc)) = arch_efer vc" "arch_xcr0 (snd (vmwrite enc v vc)) = arch_xcr0 vc"
  "host_task (snd (vmwrite enc v vc)) = host_task vc" "target_cpu_id (snd (vmwrite enc v vc)) = target_cpu_id vc"
  "vmentry_host_rsp (snd (vmwrite enc v vc)) = vmentry_host_rsp vc" "va (snd (vmwrite enc v vc)) = va vc"
  by (simp_all add: vmwrite_def)

abbreviation (input) ENC_GUEST_CR0 :: nat where "ENC_GUEST_CR0 \<equiv> 0x6800"
abbreviation (input) ENC_GUEST_CR3 :: nat where "ENC_GUEST_CR3 \<equiv> 0x6802"
abbreviation (input) ENC_GUEST_CR4 :: nat where "ENC_GUEST_CR4 \<equiv> 0x6804"
abbreviation (input) ENC_GUEST_CS_BASE :: nat where "ENC_GUEST_CS_BASE \<equiv> 0x6808"
abbreviation (input) ENC_GUEST_CS_AR_BYTES :: nat where "ENC_GUEST_CS_AR_BYTES \<equiv> 0x4816"
abbreviation (input) ENC_GUEST_IA32_EFER :: nat where "ENC_GUEST_IA32_EFER \<equiv> 0x2806"
abbreviation (input) ENC_GUEST_PHYSICAL_ADDRESS :: nat where "ENC_GUEST_PHYSICAL_ADDRESS \<equiv> 0x2400"
abbreviation (input) ENC_ENTRY_CONTROLS :: nat where "ENC_ENTRY_CONTROLS \<equiv> 0x4012"
abbreviation (input) ENC_EXIT_REASON :: nat where "ENC_EXIT_REASON \<equiv> 0x4402"
abbreviation (input) ENC_EXIT_INTR_INFO :: nat where "ENC_EXIT_INTR_INFO \<equiv> 0x4404"
abbreviation (input) ENC_CR0_READ_SHADOW :: nat where "ENC_CR0_READ_SHADOW \<equiv> 0x6004"
abbreviation (input) ENC_CR4_READ_SHADOW :: nat where "ENC_CR4_READ_SHADOW \<equiv> 0x6006"
abbreviation (input) ENC_GUEST_RSP :: nat where "ENC_GUEST_RSP \<equiv> 0x681c"
abbreviation (input) ENC_GUEST_RIP :: nat where "ENC_GUEST_RIP \<equiv> 0x681e"
abbreviation (input) ENC_EXIT_QUALIFICATION :: nat where "ENC_EXIT_QUALIFICATION \<equiv> 0x6400"
abbreviation (input) ENC_EXIT_INSTRUCTION_LEN :: nat where "ENC_EXIT_INSTRUCTION_LEN \<equiv> 0x440c"
abbreviation (input) ENC_SECONDARY_CONTROLS :: nat where "ENC_SECONDARY_CONTROLS \<equiv> 0x401e"
abbreviation (input) ENC_VIRTUAL_APIC_PAGE_ADDR :: nat where "ENC_VIRTUAL_APIC_PAGE_ADDR \<equiv> 0x2012"
abbreviation (input) ENC_APIC_ACCESS_ADDR :: nat where "ENC_APIC_ACCESS_ADDR \<equiv> 0x2014"
abbreviation (input) ENC_TPR_THRESHOLD :: nat where "ENC_TPR_THRESHOLD \<equiv> 0x401c"

end
