(* ===== verification/Relm_Apic.thy ===== *)
theory Relm_Apic
  imports Relm_Vcpu Relm_Ept
begin

text \<open>
  The local APIC (src/arch/x86/vmx/apic.c, include/arch/x86/vmx/apic.h): allocation and reset, the
  register file with its mirror in the virtual-APIC page, interrupt acceptance, end of interrupt,
  processor priority, the timer's current count and interprocessor interrupts. A vCPU is named by
  a number into a store of vCPUs; the vCPU array of a VM is a list of such names. The clock
  (\<open>ktime_get_ns\<close>) is an argument.
\<close>

section \<open>Registers and pages\<close>

abbreviation (input) APIC_REG_ID :: u32 where "APIC_REG_ID \<equiv> 0x020"
abbreviation (input) APIC_REG_VERSION :: u32 where "APIC_REG_VERSION \<equiv> 0x030"
abbreviation (input) APIC_REG_TPR :: u32 where "APIC_REG_TPR \<equiv> 0x080"
abbreviation (input) APIC_REG_APR :: u32 where "APIC_REG_APR \<equiv> 0x090"
abbreviation (input) APIC_REG_PPR :: u32 where "APIC_REG_PPR \<equiv> 0x0A0"
abbreviation (input) APIC_REG_EOI :: u32 where "APIC_REG_EOI \<equiv> 0x0B0"
abbreviation (input) APIC_REG_RRD :: u32 where "APIC_REG_RRD \<equiv> 0x0C0"
abbreviation (input) APIC_REG_LDR :: u32 where "APIC_REG_LDR \<equiv> 0x0D0"
abbreviation (input) APIC_REG_DFR :: u32 where "APIC_REG_DFR \<equiv> 0x0E0"
abbreviation (input) APIC_REG_SVR :: u32 where "APIC_REG_SVR \<equiv> 0x0F0"
abbreviation (input) APIC_REG_ISR :: "nat \<Rightarrow> u32" where "APIC_REG_ISR n \<equiv> 0x100 + word_of_nat n * 0x10"
abbreviation (input) APIC_REG_TMR :: "nat \<Rightarrow> u32" where "APIC_REG_TMR n \<equiv> 0x180 + word_of_nat n * 0x10"
abbreviation (input) APIC_REG_IRR :: "nat \<Rightarrow> u32" where "APIC_REG_IRR n \<equiv> 0x200 + word_of_nat n * 0x10"
abbreviation (input) APIC_REG_ESR :: u32 where "APIC_REG_ESR \<equiv> 0x280"
abbreviation (input) APIC_REG_LVT_CMCI :: u32 where "APIC_REG_LVT_CMCI \<equiv> 0x2F0"
abbreviation (input) APIC_REG_ICR_LOW :: u32 where "APIC_REG_ICR_LOW \<equiv> 0x300"
abbreviation (input) APIC_REG_ICR_HIGH :: u32 where "APIC_REG_ICR_HIGH \<equiv> 0x310"
abbreviation (input) APIC_REG_LVT_TIMER :: u32 where "APIC_REG_LVT_TIMER \<equiv> 0x320"
abbreviation (input) APIC_REG_LVT_THERMAL :: u32 where "APIC_REG_LVT_THERMAL \<equiv> 0x330"
abbreviation (input) APIC_REG_LVT_PMC :: u32 where "APIC_REG_LVT_PMC \<equiv> 0x340"
abbreviation (input) APIC_REG_LVT_LINT0 :: u32 where "APIC_REG_LVT_LINT0 \<equiv> 0x350"
abbreviation (input) APIC_REG_LVT_LINT1 :: u32 where "APIC_REG_LVT_LINT1 \<equiv> 0x360"
abbreviation (input) APIC_REG_LVT_ERROR :: u32 where "APIC_REG_LVT_ERROR \<equiv> 0x370"
abbreviation (input) APIC_REG_TIMER_ICR :: u32 where "APIC_REG_TIMER_ICR \<equiv> 0x380"
abbreviation (input) APIC_REG_TIMER_CCR :: u32 where "APIC_REG_TIMER_CCR \<equiv> 0x390"
abbreviation (input) APIC_REG_TIMER_DCR :: u32 where "APIC_REG_TIMER_DCR \<equiv> 0x3E0"
abbreviation (input) APIC_LVT_MASKED :: u32 where "APIC_LVT_MASKED \<equiv> 0x10000"
abbreviation (input) APIC_ICR_SEND_PENDING :: u32 where "APIC_ICR_SEND_PENDING \<equiv> 0x1000"

definition relm_vapic_sync_reg :: "u32 \<Rightarrow> u32 \<Rightarrow> virt_apic \<Rightarrow> virt_apic" where
  "relm_vapic_sync_reg off v a =
     (case vapic_page a of None \<Rightarrow> a
      | Some pg \<Rightarrow> if off < 0x1000 then a\<lparr>vapic_page := Some (pg(off := v))\<rparr> else a)"

definition relm_vapic_read_reg :: "virt_apic \<Rightarrow> u32 \<Rightarrow> u32" where
  "relm_vapic_read_reg a off = (case vapic_page a of None \<Rightarrow> 0 | Some pg \<Rightarrow> if off < 0x1000 then pg off else 0)"

definition relm_apic_alloc :: "virt_apic \<Rightarrow> host \<Rightarrow> unit res \<times> virt_apic \<times> host" where
  "relm_apic_alloc a h =
     (case get_zeroed_page h of
        (None, h) \<Rightarrow> (Inl ENOMEM, a\<lparr>vapic_page := None\<rparr>, h)
      | (Some p, h) \<Rightarrow>
          let a = a\<lparr>vapic_page := Some (\<lambda>_. 0), vapic_page_pa := p\<rparr> in
          (case get_zeroed_page h of
             (None, h) \<Rightarrow> (Inl ENOMEM, a\<lparr>apic_access_page := False, vapic_page := None, vapic_page_pa := 0\<rparr>, free_page p h)
           | (Some q, h) \<Rightarrow> (Inr (), a\<lparr>apic_access_page := True, apic_access_page_pa := q\<rparr>, h)))"

definition relm_apic_free :: "virt_apic \<Rightarrow> host \<Rightarrow> virt_apic \<times> host" where
  "relm_apic_free a h =
     (let (a, h) = (if vapic_page a \<noteq> None
                    then (a\<lparr>vapic_page := None, vapic_page_pa := 0\<rparr>, free_page (vapic_page_pa a) h) else (a, h))
      in if apic_access_page a
         then (a\<lparr>apic_access_page := False, apic_access_page_pa := 0\<rparr>, free_page (apic_access_page_pa a) h) else (a, h))"

text \<open>The reset: the software model, then the mirror.\<close>

definition apic_reset_regs :: "u8 \<Rightarrow> virt_apic \<Rightarrow> virt_apic" where
  "apic_reset_regs i a = a\<lparr>apic_id := push_bit 24 (ucast i), apic_version := 0x00050014, svr := 0xFF, dfr := 0xFFFFFFFF,
     lvt_timer := APIC_LVT_MASKED, lvt_thermal := APIC_LVT_MASKED, lvt_pmc := APIC_LVT_MASKED,
     lvt_lint0 := APIC_LVT_MASKED, lvt_lint1 := APIC_LVT_MASKED, lvt_error := APIC_LVT_MASKED,
     irr_words := replicate 8 0, isr_words := replicate 8 0, tmr_words := replicate 8 0,
     tpr := 0, ppr := 0, esr := 0, ldr := 0, icr_low := 0, icr_high := 0, timer_icr := 0,
     timer_mode := APIC_TIMER_MODE_ONESHOT, timer_start_ns := 0, timer_deadline_tsc := 0, is_enabled := False,
     timer_dcr := 0x0B\<rparr>"

definition apic_reset_mirror :: "virt_apic \<Rightarrow> virt_apic" where
  "apic_reset_mirror a =
     fold (\<lambda>(off, v). relm_vapic_sync_reg off v)
       ([(APIC_REG_ID, apic_id a), (APIC_REG_VERSION, apic_version a), (APIC_REG_TPR, tpr a), (APIC_REG_PPR, ppr a),
         (APIC_REG_LDR, ldr a), (APIC_REG_DFR, dfr a), (APIC_REG_SVR, svr a), (APIC_REG_ESR, esr a),
         (APIC_REG_ICR_HIGH, icr_high a), (APIC_REG_LVT_TIMER, lvt_timer a), (APIC_REG_LVT_THERMAL, lvt_thermal a),
         (APIC_REG_LVT_PMC, lvt_pmc a), (APIC_REG_LVT_LINT0, lvt_lint0 a), (APIC_REG_LVT_LINT1, lvt_lint1 a),
         (APIC_REG_LVT_ERROR, lvt_error a), (APIC_REG_TIMER_ICR, timer_icr a), (APIC_REG_TIMER_DCR, timer_dcr a)] @
        concat (map (\<lambda>i. [(APIC_REG_ISR i, 0), (APIC_REG_TMR i, 0), (APIC_REG_IRR i, 0)]) [0..<8])) a"

definition relm_apic_init :: "u8 \<Rightarrow> virt_apic \<Rightarrow> virt_apic" where
  "relm_apic_init i a =
     (let a = apic_reset_regs i a in if vapic_page a \<noteq> None then apic_reset_mirror a else a)"

definition relm_apic_vmcs_setup :: "u64 \<Rightarrow> vcpu \<Rightarrow> unit res \<times> vcpu" where
  "relm_apic_vmcs_setup ctls2 vc =
     (if vapic_page_pa (apic vc) = 0 \<or> apic_access_page_pa (apic vc) = 0 then (Inl EINVAL, vc)
      else case vmwrite ENC_VIRTUAL_APIC_PAGE_ADDR (vapic_page_pa (apic vc)) vc of
        (False, vc) \<Rightarrow> (Inl EIO, vc)
      | (True, vc) \<Rightarrow>
        (case vmwrite ENC_APIC_ACCESS_ADDR (apic_access_page_pa (apic vc)) vc of
          (False, vc) \<Rightarrow> (Inl EIO, vc)
        | (True, vc) \<Rightarrow>
          (case vmwrite ENC_TPR_THRESHOLD 0 vc of
            (False, vc) \<Rightarrow> (Inl EIO, vc)
          | (True, vc) \<Rightarrow>
            (let allowed1 = ucast (drop_bit 32 ctls2) :: u32 in
             if allowed1 AND 0x1 = 0
             then (Inr (), vc\<lparr>apic := (apic vc)\<lparr>apic_reg_virt_supported := False\<rparr>\<rparr>)
             else let current_sec = ucast (vmread vc ENC_SECONDARY_CONTROLS) :: u32;
                      apic_reg_virt_ok = (allowed1 AND 0x100 \<noteq> 0);
                      new_sec = (current_sec OR 0x1) OR (if apic_reg_virt_ok then 0x100 else 0)
                  in (case vmwrite ENC_SECONDARY_CONTROLS (ucast new_sec) vc of
                        (False, vc) \<Rightarrow> (Inl EIO, vc)
                      | (True, vc) \<Rightarrow> (Inr (), vc\<lparr>apic := (apic vc)\<lparr>apic_reg_virt_supported := apic_reg_virt_ok\<rparr>\<rparr>))))))"

definition relm_apic_ept_setup :: "virt_apic \<Rightarrow> ept_context option option \<Rightarrow> host \<Rightarrow> unit res \<times> ept_context option option \<times> host" where
  "relm_apic_ept_setup a vm h =
     (case vm of None \<Rightarrow> (Inl EINVAL, vm, h)
      | Some None \<Rightarrow> (Inl EINVAL, vm, h)
      | Some (Some ept) \<Rightarrow>
        if apic_access_page_pa a = 0 then (Inl EINVAL, vm, h)
        else (case relm_ept_map_page 0xFEE00000 (apic_access_page_pa a) 0x3 (Some ept) h of
          (r, ctx, h) \<Rightarrow> (r, Some ctx, h)))"

section \<open>Interrupt acceptance and priority\<close>

definition relm_apic_inject_interrupt :: "u8 \<Rightarrow> bool \<Rightarrow> vcpu \<Rightarrow> vcpu" where
  "relm_apic_inject_interrupt vector level vc =
     (let w = unat (drop_bit 5 vector); m = push_bit (unat (vector AND 0x1F)) 1 :: u32;
          a = apic vc;
          a = a\<lparr>irr_words := (irr_words a)[w := irr_words a ! w OR m]\<rparr>;
          a = a\<lparr>tmr_words := (tmr_words a)[w := if level then tmr_words a ! w OR m else tmr_words a ! w AND NOT m]\<rparr>;
          a = relm_vapic_sync_reg (APIC_REG_IRR w) (irr_words a ! w) a;
          a = relm_vapic_sync_reg (APIC_REG_TMR w) (tmr_words a ! w) a
      in vc\<lparr>apic := a, halted := False\<rparr>)"

definition relm_apic_set_error :: "u32 \<Rightarrow> vcpu \<Rightarrow> vcpu" where
  "relm_apic_set_error error_bit vc =
     (let error_bit = error_bit AND 0xFF in
      if error_bit = 0 then vc
      else let vc = vc\<lparr>apic := (apic vc)\<lparr>esr_pending := esr_pending (apic vc) OR error_bit\<rparr>\<rparr> in
      if is_enabled (apic vc) \<and> lvt_error (apic vc) AND APIC_LVT_MASKED = 0 then
        (let error_vector = ucast (lvt_error (apic vc) AND 0xFF) :: u8 in
         if error_vector \<ge> 16 then relm_apic_inject_interrupt error_vector False vc else vc)
      else vc)"

text \<open>\<open>31 - __builtin_clz(x)\<close> for \<open>x \<noteq> 0\<close>: scan down from bit 31.\<close>

fun top_bit_from :: "nat \<Rightarrow> u32 \<Rightarrow> nat" where
  "top_bit_from 0 x = 0"
| "top_bit_from (Suc n) x = (if bit x n then n else top_bit_from n x)"

definition top_bit :: "u32 \<Rightarrow> nat" where
  "top_bit x = top_bit_from 32 x"

text \<open>The scan of the in-service words from word 7 down.\<close>

fun top_word :: "nat \<Rightarrow> u32 list \<Rightarrow> nat option" where
  "top_word 0 ws = None"
| "top_word (Suc n) ws = (if ws ! n \<noteq> 0 then Some n else top_word n ws)"

definition relm_apic_ppr_update :: "virt_apic \<Rightarrow> virt_apic" where
  "relm_apic_ppr_update a =
     (let isrv = (case top_word 8 (isr_words a) of None \<Rightarrow> 0
                  | Some w \<Rightarrow> word_of_nat (w * 32 + top_bit (isr_words a ! w))) :: u32;
          tpr_class = tpr a AND 0xF0;
          a = (if isrv > 0
               then let isr_class = isrv AND 0xF0 in a\<lparr>ppr := if isr_class > tpr_class then isr_class else tpr_class\<rparr>
               else a\<lparr>ppr := tpr_class\<rparr>)
      in relm_vapic_sync_reg APIC_REG_PPR (ppr a) a)"

definition relm_apic_eoi :: "virt_apic \<Rightarrow> virt_apic" where
  "relm_apic_eoi a =
     (case top_word 8 (isr_words a) of None \<Rightarrow> a
      | Some w \<Rightarrow>
        let b = top_bit (isr_words a ! w); vector = word_of_nat (w * 32 + b) :: u8;
            a = a\<lparr>isr_words := (isr_words a)[w := isr_words a ! w AND NOT (push_bit b 1)]\<rparr>;
            a = relm_vapic_sync_reg (APIC_REG_ISR w) (isr_words a ! w) a;
            vw = unat (drop_bit 5 vector); vm = push_bit (unat (vector AND 0x1F)) 1 :: u32;
            a = (if tmr_words a ! vw AND vm \<noteq> 0
                 then let a = a\<lparr>tmr_words := (tmr_words a)[vw := tmr_words a ! vw AND NOT vm]\<rparr>
                      in relm_vapic_sync_reg (APIC_REG_TMR vw) (tmr_words a ! vw) a
                 else a)
        in relm_apic_ppr_update a)"

section \<open>Interprocessor interrupts\<close>

definition ipi_matches :: "nat \<Rightarrow> u32 \<Rightarrow> u32 \<Rightarrow> nat \<Rightarrow> vcpu \<Rightarrow> bool" where
  "ipi_matches sender low high cand vc =
     (let shorthand = low AND 0xC0000; dest_field = ucast (drop_bit 24 high) :: u8 in
      if shorthand = 0x40000 then cand = sender
      else if shorthand = 0x80000 then True
      else if shorthand = 0xC0000 then cand \<noteq> sender
      else if low AND 0x800 = 0 then ucast (drop_bit 24 (apic_id (apic vc))) = dest_field
      else (ucast (drop_bit 24 (ldr (apic vc))) :: u8) AND dest_field \<noteq> 0)"

text \<open>The loop over the vCPU array: \<open>room\<close> is what is left of the target array.\<close>

fun ipi_targets :: "nat option list \<Rightarrow> nat \<Rightarrow> (nat \<Rightarrow> vcpu) \<Rightarrow> nat \<Rightarrow> u32 \<Rightarrow> u32 \<Rightarrow> nat list" where
  "ipi_targets [] room S sender low high = []"
| "ipi_targets (c # cs) room S sender low high =
     (if room = 0 then []
      else case c of None \<Rightarrow> ipi_targets cs room S sender low high
       | Some cand \<Rightarrow>
           if ipi_matches sender low high cand (S cand)
           then cand # ipi_targets cs (room - 1) S sender low high
           else ipi_targets cs room S sender low high)"

definition relm_apic_ipi_resolve_targets :: "nat option list option \<Rightarrow> nat \<Rightarrow> (nat \<Rightarrow> vcpu) \<Rightarrow> nat \<Rightarrow> u32 \<Rightarrow> u32 \<Rightarrow> nat list" where
  "relm_apic_ipi_resolve_targets vcpus max_targets S sender low high =
     (case vcpus of None \<Rightarrow> [] | Some arr \<Rightarrow> ipi_targets arr max_targets S sender low high)"

text \<open>Only fixed delivery has an effect; the other modes are logged.\<close>

definition relm_apic_ipi_deliver :: "u32 \<Rightarrow> u32 \<Rightarrow> bool \<Rightarrow> nat \<Rightarrow> (nat \<Rightarrow> vcpu) \<Rightarrow> nat \<Rightarrow> vcpu" where
  "relm_apic_ipi_deliver delivery_mode vector level target S =
     (if delivery_mode = 0 then S(target := relm_apic_inject_interrupt (ucast vector) level (S target)) else S)"

abbreviation (input) RELM_MAX_VCPUS :: nat where "RELM_MAX_VCPUS \<equiv> 1"

definition relm_apic_handle_icr_write :: "nat option list option \<Rightarrow> nat \<Rightarrow> u32 \<Rightarrow> (nat \<Rightarrow> vcpu) \<Rightarrow> nat \<Rightarrow> vcpu" where
  "relm_apic_handle_icr_write vcpus sender v S =
     (let delivery_mode = v AND 0x700; vector = v AND 0xFF; level = (v AND 0x8000 \<noteq> 0);
          a = (apic (S sender))\<lparr>icr_low := v\<rparr>;
          a = relm_vapic_sync_reg APIC_REG_ICR_LOW (v AND NOT APIC_ICR_SEND_PENDING) a;
          S = S(sender := (S sender)\<lparr>apic := a\<rparr>)
      in fold (relm_apic_ipi_deliver delivery_mode vector level)
           (relm_apic_ipi_resolve_targets vcpus RELM_MAX_VCPUS S sender v (icr_high a)) S)"

section \<open>Timer\<close>

definition timer_divisor :: "u32 \<Rightarrow> u64" where
  "timer_divisor dcr =
     (let d = dcr AND 0x0F in
      if d = 0x00 then 2 else if d = 0x01 then 4 else if d = 0x02 then 8 else if d = 0x03 then 16
      else if d = 0x08 then 32 else if d = 0x09 then 64 else if d = 0x0A then 128 else 1)"

definition relm_apic_get_timer_ccr :: "u64 \<Rightarrow> virt_apic \<Rightarrow> u32" where
  "relm_apic_get_timer_ccr now a =
     (if timer_icr a = 0 \<or> timer_start_ns a = 0 then 0
      else let elapsed_ns = now - timer_start_ns a;
               ticks = elapsed_ns div (10 * timer_divisor (timer_dcr a))
           in if timer_mode a = APIC_TIMER_MODE_PERIODIC
              then timer_icr a - ucast (ticks mod ucast (timer_icr a))
              else if ticks \<ge> ucast (timer_icr a) then 0 else ucast (ucast (timer_icr a) - ticks))"

section \<open>Register reads and writes\<close>

text \<open>A read: the result code, the value stored through the out pointer and the APIC afterwards.\<close>

definition relm_apic_read :: "u64 \<Rightarrow> u32 \<Rightarrow> virt_apic \<Rightarrow> unit res \<times> u32 \<times> virt_apic" where
  "relm_apic_read now off a =
     (if off AND 0x3 \<noteq> 0 then (Inr (), 0, a)
      else if off = APIC_REG_ID then (Inr (), apic_id a, a)
      else if off = APIC_REG_VERSION then (Inr (), apic_version a, a)
      else if off = APIC_REG_TPR then
        (let a = a\<lparr>tpr := relm_vapic_read_reg a APIC_REG_TPR\<rparr> in (Inr (), tpr a, a))
      else if off = APIC_REG_APR \<or> off = APIC_REG_PPR then
        (let a = relm_apic_ppr_update a in (Inr (), ppr a, a))
      else if off = APIC_REG_EOI then (Inr (), 0, a)
      else if off = APIC_REG_RRD then (Inr (), 0, a)
      else if off = APIC_REG_LDR then (Inr (), ldr a, a)
      else if off = APIC_REG_DFR then (Inr (), dfr a, a)
      else if off = APIC_REG_SVR then (Inr (), svr a, a)
      else if off = APIC_REG_ESR then (Inr (), esr a, a)
      else if off = APIC_REG_LVT_CMCI then (Inr (), APIC_LVT_MASKED, a)
      else if off = APIC_REG_ICR_LOW then (Inr (), icr_low a AND NOT APIC_ICR_SEND_PENDING, a)
      else if off = APIC_REG_ICR_HIGH then (Inr (), icr_high a, a)
      else if off = APIC_REG_LVT_TIMER then (Inr (), lvt_timer a, a)
      else if off = APIC_REG_LVT_THERMAL then (Inr (), lvt_thermal a, a)
      else if off = APIC_REG_LVT_PMC then (Inr (), lvt_pmc a, a)
      else if off = APIC_REG_LVT_LINT0 then (Inr (), lvt_lint0 a, a)
      else if off = APIC_REG_LVT_LINT1 then (Inr (), lvt_lint1 a, a)
      else if off = APIC_REG_LVT_ERROR then (Inr (), lvt_error a, a)
      else if off = APIC_REG_TIMER_ICR then (Inr (), timer_icr a, a)
      else if off = APIC_REG_TIMER_DCR then (Inr (), timer_dcr a, a)
      else if off = APIC_REG_TIMER_CCR then
        (let v = relm_apic_get_timer_ccr now a in (Inr (), v, relm_vapic_sync_reg APIC_REG_TIMER_CCR v a))
      else if off \<ge> 0x100 \<and> off \<le> 0x170 then (Inr (), isr_words a ! unat ((off - 0x100) div 0x10), a)
      else if off \<ge> 0x180 \<and> off \<le> 0x1F0 then (Inr (), tmr_words a ! unat ((off - 0x180) div 0x10), a)
      else if off \<ge> 0x200 \<and> off \<le> 0x270 then (Inr (), irr_words a ! unat ((off - 0x200) div 0x10), a)
      else (Inl EINVAL, 0, a))"

definition timer_mode_of :: "u32 \<Rightarrow> virt_apic_timer_mode" where
  "timer_mode_of v =
     (let m = drop_bit 17 v AND 0x3 in
      if m = 0 then APIC_TIMER_MODE_ONESHOT else if m = 1 then APIC_TIMER_MODE_PERIODIC
      else if m = 2 then APIC_TIMER_MODE_TSC_DEADLINE else APIC_TIMER_MODE_RESERVED)"

text \<open>The offsets of the read-only bitmaps.\<close>

definition bitmap_offset :: "u32 \<Rightarrow> bool" where
  "bitmap_offset off \<longleftrightarrow> off \<in> set (map (\<lambda>i. 0x100 + word_of_nat i * 0x10) [0..<24])"

text \<open>A write to a register of the vCPU's own APIC, everything but the interrupt command; \<open>None\<close> is a
  reserved offset.\<close>

definition apic_write_reg :: "u64 \<Rightarrow> u32 \<Rightarrow> u32 \<Rightarrow> virt_apic \<Rightarrow> virt_apic option" where
  "apic_write_reg now off v a =
     (if off = APIC_REG_ID then
        (let a = a\<lparr>apic_id := v AND 0xFF000000\<rparr> in Some (relm_vapic_sync_reg APIC_REG_ID (apic_id a) a))
      else if off = APIC_REG_VERSION then Some a
      else if off = APIC_REG_TPR then
        (let a = a\<lparr>tpr := v AND 0xFF\<rparr>
         in Some (relm_apic_ppr_update (relm_vapic_sync_reg APIC_REG_TPR (tpr a) a)))
      else if off = APIC_REG_EOI then Some (relm_vapic_sync_reg APIC_REG_EOI 0 (relm_apic_eoi a))
      else if off = APIC_REG_LDR then
        (let a = a\<lparr>ldr := v AND 0xFF000000\<rparr> in Some (relm_vapic_sync_reg APIC_REG_LDR (ldr a) a))
      else if off = APIC_REG_DFR then
        (let a = a\<lparr>dfr := v OR 0x0FFFFFFF\<rparr> in Some (relm_vapic_sync_reg APIC_REG_DFR (dfr a) a))
      else if off = APIC_REG_SVR then
        (let a = a\<lparr>svr := v, is_enabled := (v AND 0x100 \<noteq> 0)\<rparr> in Some (relm_vapic_sync_reg APIC_REG_SVR (svr a) a))
      else if bitmap_offset off then Some a
      else if off = APIC_REG_ESR then
        (let a = a\<lparr>esr := esr_pending a AND 0xFF, esr_pending := 0\<rparr> in Some (relm_vapic_sync_reg APIC_REG_ESR (esr a) a))
      else if off = APIC_REG_LVT_CMCI then Some a
      else if off = APIC_REG_ICR_HIGH then Some (relm_vapic_sync_reg APIC_REG_ICR_HIGH v (a\<lparr>icr_high := v\<rparr>))
      else if off = APIC_REG_LVT_TIMER then
        Some (relm_vapic_sync_reg APIC_REG_LVT_TIMER v (a\<lparr>lvt_timer := v, timer_mode := timer_mode_of v\<rparr>))
      else if off = APIC_REG_LVT_THERMAL then Some (relm_vapic_sync_reg APIC_REG_LVT_THERMAL v (a\<lparr>lvt_thermal := v\<rparr>))
      else if off = APIC_REG_LVT_PMC then Some (relm_vapic_sync_reg APIC_REG_LVT_PMC v (a\<lparr>lvt_pmc := v\<rparr>))
      else if off = APIC_REG_LVT_LINT0 then Some (relm_vapic_sync_reg APIC_REG_LVT_LINT0 v (a\<lparr>lvt_lint0 := v\<rparr>))
      else if off = APIC_REG_LVT_LINT1 then Some (relm_vapic_sync_reg APIC_REG_LVT_LINT1 v (a\<lparr>lvt_lint1 := v\<rparr>))
      else if off = APIC_REG_LVT_ERROR then Some (relm_vapic_sync_reg APIC_REG_LVT_ERROR v (a\<lparr>lvt_error := v\<rparr>))
      else if off = APIC_REG_TIMER_ICR then
        (let a = relm_vapic_sync_reg APIC_REG_TIMER_ICR v (a\<lparr>timer_icr := v\<rparr>)
         in Some (a\<lparr>timer_start_ns := if v \<noteq> 0 then now else 0\<rparr>))
      else if off = APIC_REG_TIMER_CCR then Some a
      else if off = APIC_REG_TIMER_DCR then
        (let a = a\<lparr>timer_dcr := v AND 0x0B\<rparr> in Some (relm_vapic_sync_reg APIC_REG_TIMER_DCR (timer_dcr a) a))
      else None)"

definition relm_apic_write :: "u64 \<Rightarrow> nat option list option \<Rightarrow> nat \<Rightarrow> u32 \<Rightarrow> u32 \<Rightarrow> (nat \<Rightarrow> vcpu)
    \<Rightarrow> unit res \<times> (nat \<Rightarrow> vcpu)" where
  "relm_apic_write now vcpus me off v S =
     (if off AND 0x3 \<noteq> 0 then (Inr (), S)
      else if off = APIC_REG_ICR_LOW then (Inr (), relm_apic_handle_icr_write vcpus me v S)
      else case apic_write_reg now off v (apic (S me)) of
        None \<Rightarrow> (Inl EINVAL, S)
      | Some a \<Rightarrow> (Inr (), S(me := (S me)\<lparr>apic := a\<rparr>)))"

section \<open>Bitmaps as sets of vectors\<close>

definition vecs :: "u32 list \<Rightarrow> nat set" where
  "vecs ws = {v. v < 256 \<and> bit (ws ! (v div 32)) (v mod 32)}"

definition words_ok :: "virt_apic \<Rightarrow> bool" where
  "words_ok a \<longleftrightarrow> length (irr_words a) = 8 \<and> length (isr_words a) = 8 \<and> length (tmr_words a) = 8"

lemma finite_vecs [simp]: "finite (vecs ws)"
  by (rule finite_subset [of _ "{..<256}"]) (auto simp: vecs_def)

lemma vec_word: "unat (drop_bit 5 (v :: u8)) = unat v div 32"
  by (simp add: drop_bit_eq_div unat_div)

lemma vec_bit: "unat ((v :: u8) AND 0x1F) = unat v mod 32"
proof -
  have "v AND 0x1F = take_bit 5 v" by (simp add: take_bit_eq_mask mask_eq_exp_minus_1)
  then show ?thesis by (simp add: take_bit_eq_mod unat_mod)
qed

lemma vec_lt [simp]: "unat (v :: u8) < 256"
  using unsigned_less [of v] by simp

lemma div_mod_32_eq: "(a :: nat) div 32 = b div 32 \<Longrightarrow> a mod 32 = b mod 32 \<Longrightarrow> a = b"
  by (metis div_mult_mod_eq)

lemma vecs_set:
  assumes "length ws = 8" "v < 256"
  shows "vecs (ws[v div 32 := ws ! (v div 32) OR push_bit (v mod 32) 1]) = insert v (vecs ws)"
proof -
  have "v div 32 < 8" using assms(2) by auto
  then show ?thesis
    using assms by (auto simp: vecs_def nth_list_update bit_simps dest: div_mod_32_eq)
qed

lemma vecs_clear:
  assumes "length ws = 8" "v < 256"
  shows "vecs (ws[v div 32 := ws ! (v div 32) AND NOT (push_bit (v mod 32) 1)]) = vecs ws - {v}"
proof -
  have "v div 32 < 8" using assms(2) by auto
  then show ?thesis
    using assms by (auto simp: vecs_def nth_list_update bit_simps dest: div_mod_32_eq)
qed

lemma vecs_member: "length ws = 8 \<Longrightarrow> v < 256 \<Longrightarrow> ws ! (v div 32) AND push_bit (v mod 32) 1 \<noteq> 0 \<longleftrightarrow> v \<in> vecs ws"
  using and_exp_eq_0_iff_not_bit [of "ws ! (v div 32)" "v mod 32"] by (simp add: vecs_def push_bit_eq_mult)

lemma top_bit_from_top:
  "(\<And>i. n \<le> i \<Longrightarrow> \<not> bit x i) \<Longrightarrow> x \<noteq> 0 \<Longrightarrow>
     bit x (top_bit_from n x) \<and> top_bit_from n x < n \<and> (\<forall>i. bit x i \<longrightarrow> i \<le> top_bit_from n x)"
proof (induction n)
  case 0
  then have "x = 0" by (intro bit_word_eqI) simp
  with 0 show ?case by simp
next
  case (Suc n)
  show ?case
  proof (cases "bit x n")
    case True
    have "i \<le> n" if "bit x i" for i using Suc.prems(1) that by (metis not_less_eq_eq)
    with True show ?thesis by simp
  next
    case False
    have "\<not> bit x i" if "n \<le> i" for i
      using Suc.prems(1) [of i] False that by (cases "i = n") auto
    from Suc.IH [OF this Suc.prems(2)] False show ?thesis by (simp add: less_SucI)
  qed
qed

lemma top_bit_top:
  assumes "x \<noteq> 0"
  shows "bit x (top_bit x)" "top_bit x < 32" "bit x i \<Longrightarrow> i \<le> top_bit x"
proof -
  have "\<not> bit x i" if "32 \<le> i" for i using that bit_imp_le_length [of x i] by auto
  from top_bit_from_top [OF this assms] show "bit x (top_bit x)" "top_bit x < 32" "bit x i \<Longrightarrow> i \<le> top_bit x"
    by (simp_all add: top_bit_def)
qed

lemma top_word_None: "top_word n ws = None \<longleftrightarrow> (\<forall>i<n. ws ! i = 0)"
  by (induction n) (auto simp: less_Suc_eq)

lemma top_word_Some: "top_word n ws = Some w \<Longrightarrow> w < n \<and> ws ! w \<noteq> 0 \<and> (\<forall>i<n. w < i \<longrightarrow> ws ! i = 0)"
  by (induction n) (auto simp: less_Suc_eq split: if_splits)

lemma vecs_empty_iff: "top_word 8 ws = None \<longleftrightarrow> vecs ws = {}"
proof
  assume "top_word 8 ws = None"
  then show "vecs ws = {}" by (auto simp: top_word_None vecs_def)
next
  assume e: "vecs ws = {}"
  have "ws ! i = 0" if "i < 8" for i
  proof (rule bit_word_eqI)
    fix n assume "n < LENGTH(32)"
    moreover from this that have "i * 32 + n \<notin> vecs ws" "i * 32 + n < 256" using e by auto
    ultimately show "bit (ws ! i) n = bit (0 :: u32) n" by (simp add: vecs_def)
  qed
  then show "top_word 8 ws = None" by (simp add: top_word_None)
qed

lemma top_vector:
  assumes "top_word 8 ws = Some w"
  shows "w * 32 + top_bit (ws ! w) = Max (vecs ws)" "w < 8" "top_bit (ws ! w) < 32"
proof -
  from top_word_Some [OF assms] have w: "w < 8" "ws ! w \<noteq> 0" and above: "\<And>i. i < 8 \<Longrightarrow> w < i \<Longrightarrow> ws ! i = 0" by auto
  note t = top_bit_top [OF w(2)]
  show "w < 8" "top_bit (ws ! w) < 32" by (rule w(1), rule t(2))
  have "w * 32 + top_bit (ws ! w) \<in> vecs ws" using w(1) t(1,2) by (simp add: vecs_def)
  moreover have "v \<le> w * 32 + top_bit (ws ! w)" if v: "v \<in> vecs ws" for v
  proof -
    have vb: "v div 32 < 8" "bit (ws ! (v div 32)) (v mod 32)" using v by (auto simp: vecs_def)
    with above [of "v div 32"] have "v div 32 \<le> w" by fastforce
    then show ?thesis
    proof (cases "v div 32 = w")
      case True
      with t(3) [of "v mod 32"] vb(2) have "v mod 32 \<le> top_bit (ws ! w)" by simp
      then show ?thesis using True div_mult_mod_eq [of v 32] by linarith
    qed linarith
  qed
  ultimately show "w * 32 + top_bit (ws ! w) = Max (vecs ws)" by (intro Max_eqI [symmetric]) auto
qed

text \<open>The mirror is the only field a synchronisation changes.\<close>

definition sync_page :: "u32 \<Rightarrow> u32 \<Rightarrow> (u32 \<Rightarrow> u32) option \<Rightarrow> (u32 \<Rightarrow> u32) option" where
  "sync_page off v p = (if off < 0x1000 then map_option (\<lambda>pg. pg(off := v)) p else p)"

lemma sync_eq: "relm_vapic_sync_reg off v a = a\<lparr>vapic_page := sync_page off v (vapic_page a)\<rparr>"
  by (simp add: relm_vapic_sync_reg_def sync_page_def split: option.split)

definition isr_class :: "virt_apic \<Rightarrow> u32" where
  "isr_class a = word_of_nat (Max (insert 0 (vecs (isr_words a)))) AND 0xF0"

text \<open>The processor priority the architecture prescribes.\<close>

definition arch_ppr :: "virt_apic \<Rightarrow> u32" where
  "arch_ppr a = max (tpr a AND 0xF0) (isr_class a)"

lemma ppr_update_eq:
  "relm_apic_ppr_update a = a\<lparr>ppr := arch_ppr a, vapic_page := sync_page APIC_REG_PPR (arch_ppr a) (vapic_page a)\<rparr>"
proof -
  define isrv :: u32 where "isrv = (case top_word 8 (isr_words a) of None \<Rightarrow> 0
                  | Some w \<Rightarrow> word_of_nat (w * 32 + top_bit (isr_words a ! w)))"
  have "isrv = word_of_nat (Max (insert 0 (vecs (isr_words a))))"
  proof (cases "top_word 8 (isr_words a)")
    case None
    then show ?thesis using vecs_empty_iff [of "isr_words a"] by (simp add: isrv_def)
  next
    case (Some w)
    then have "vecs (isr_words a) \<noteq> {}" using vecs_empty_iff [of "isr_words a"] by simp
    then have "Max (insert 0 (vecs (isr_words a))) = Max (vecs (isr_words a))" by (simp add: max_def)
    then show ?thesis using Some top_vector(1) [OF Some] by (simp add: isrv_def)
  qed
  then have c: "isrv AND 0xF0 = isr_class a" by (simp add: isr_class_def)
  have z: "\<not> isrv > 0 \<Longrightarrow> isr_class a = 0" using c by (simp add: word_gt_0)
  have "relm_apic_ppr_update a = (let a = a\<lparr>ppr := arch_ppr a\<rparr> in relm_vapic_sync_reg APIC_REG_PPR (ppr a) a)"
    unfolding relm_apic_ppr_update_def isrv_def [symmetric] Let_def c
    using z by (auto simp: arch_ppr_def max_def)
  then show ?thesis by (simp add: sync_eq)
qed

lemma arch_ppr_cong: "tpr a = tpr b \<Longrightarrow> isr_words a = isr_words b \<Longrightarrow> arch_ppr a = arch_ppr b"
  by (simp add: arch_ppr_def isr_class_def)

lemma eoi_none: "vecs (isr_words a) = {} \<Longrightarrow> relm_apic_eoi a = a"
  using vecs_empty_iff [of "isr_words a"] by (simp add: relm_apic_eoi_def)

text \<open>What an EOI does to the in-service vector \<open>v\<close>.\<close>

definition retire :: "nat \<Rightarrow> virt_apic \<Rightarrow> virt_apic" where
  "retire v a =
     (let w = v div 32; m = push_bit (v mod 32) 1 :: u32;
          a = a\<lparr>isr_words := (isr_words a)[w := isr_words a ! w AND NOT m],
                 vapic_page := sync_page (APIC_REG_ISR w) (isr_words a ! w AND NOT m) (vapic_page a)\<rparr>
      in if v \<in> vecs (tmr_words a)
         then a\<lparr>tmr_words := (tmr_words a)[w := tmr_words a ! w AND NOT m],
                vapic_page := sync_page (APIC_REG_TMR w) (tmr_words a ! w AND NOT m) (vapic_page a)\<rparr>
         else a)"

lemma eoi_eq:
  assumes "words_ok a" "vecs (isr_words a) \<noteq> {}"
  shows "relm_apic_eoi a = relm_apic_ppr_update (retire (Max (vecs (isr_words a))) a)"
proof -
  obtain w where w: "top_word 8 (isr_words a) = Some w" using assms(2) vecs_empty_iff [of "isr_words a"] by auto
  let ?v = "Max (vecs (isr_words a))" and ?b = "top_bit (isr_words a ! w)"
  note t = top_vector [OF w]
  have dm: "?v div 32 = w" "?v mod 32 = ?b" using t(3) by (simp_all add: t(1) [symmetric])
  have lt: "?v < 256" using t by linarith
  then have v8: "unat (word_of_nat ?v :: u8) = ?v" by (simp add: unat_of_nat)
  have len: "length (isr_words a) = 8" "length (tmr_words a) = 8" using assms(1) by (simp_all add: words_ok_def)
  have mem: "tmr_words a ! w AND push_bit ?b 1 \<noteq> 0 \<longleftrightarrow> ?v \<in> vecs (tmr_words a)"
    using vecs_member [OF len(2) lt] by (simp only: dm)
  have vw: "unat (drop_bit 5 (word_of_nat ?v :: u8)) = w" "unat ((word_of_nat ?v :: u8) AND 0x1F) = ?b"
    by (simp_all only: vec_word vec_bit v8 dm)
  show ?thesis
    unfolding relm_apic_eoi_def w option.case t(1) Let_def vw retire_def dm sync_eq
    using t(2) mem by (simp add: len)
qed

lemma retire_sets:
  assumes "words_ok a" "v < 256"
  shows "vecs (isr_words (retire v a)) = vecs (isr_words a) - {v}"
    "vecs (tmr_words (retire v a)) = vecs (tmr_words a) - {v}"
    "irr_words (retire v a) = irr_words a" "tpr (retire v a) = tpr a" "words_ok (retire v a)"
  using assms vecs_clear [of _ v] by (auto simp: retire_def Let_def words_ok_def)

section \<open>The mirror in the virtual-APIC page\<close>

text \<open>What a read of a mirrored register is to return. Not mirrored are the arbitration priority,
  the LVT entry for corrected machine checks and the current count.\<close>

definition reg_view :: "virt_apic \<Rightarrow> u32 \<Rightarrow> u32 option" where
  "reg_view a off =
     (if bitmap_offset off then Some ((isr_words a @ tmr_words a @ irr_words a) ! unat ((off - 0x100) div 0x10))
      else if off = APIC_REG_ID then Some (apic_id a)
      else if off = APIC_REG_VERSION then Some (apic_version a)
      else if off = APIC_REG_TPR then Some (tpr a)
      else if off = APIC_REG_PPR then Some (ppr a)
      else if off = APIC_REG_EOI then Some 0
      else if off = APIC_REG_RRD then Some 0
      else if off = APIC_REG_LDR then Some (ldr a)
      else if off = APIC_REG_DFR then Some (dfr a)
      else if off = APIC_REG_SVR then Some (svr a)
      else if off = APIC_REG_ESR then Some (esr a)
      else if off = APIC_REG_ICR_LOW then Some (icr_low a AND NOT APIC_ICR_SEND_PENDING)
      else if off = APIC_REG_ICR_HIGH then Some (icr_high a)
      else if off = APIC_REG_LVT_TIMER then Some (lvt_timer a)
      else if off = APIC_REG_LVT_THERMAL then Some (lvt_thermal a)
      else if off = APIC_REG_LVT_PMC then Some (lvt_pmc a)
      else if off = APIC_REG_LVT_LINT0 then Some (lvt_lint0 a)
      else if off = APIC_REG_LVT_LINT1 then Some (lvt_lint1 a)
      else if off = APIC_REG_LVT_ERROR then Some (lvt_error a)
      else if off = APIC_REG_TIMER_ICR then Some (timer_icr a)
      else if off = APIC_REG_TIMER_DCR then Some (timer_dcr a)
      else None)"

definition mirror_ok :: "virt_apic \<Rightarrow> bool" where
  "mirror_ok a \<longleftrightarrow> (\<exists>pg. vapic_page a = Some pg \<and> (\<forall>off v. reg_view a off = Some v \<longrightarrow> pg off = v))"

lemma bitmap_offset_simps:
  "bitmap_offset off \<longleftrightarrow> off \<in> {0x100, 0x110, 0x120, 0x130, 0x140, 0x150, 0x160, 0x170, 0x180, 0x190, 0x1A0, 0x1B0,
     0x1C0, 0x1D0, 0x1E0, 0x1F0, 0x200, 0x210, 0x220, 0x230, 0x240, 0x250, 0x260, 0x270}"
  by (simp add: bitmap_offset_def upt_rec)

lemma not_bitmap [simp]:
  "\<not> bitmap_offset APIC_REG_ID" "\<not> bitmap_offset APIC_REG_VERSION" "\<not> bitmap_offset APIC_REG_TPR"
  "\<not> bitmap_offset APIC_REG_PPR" "\<not> bitmap_offset APIC_REG_EOI" "\<not> bitmap_offset APIC_REG_RRD"
  "\<not> bitmap_offset APIC_REG_LDR" "\<not> bitmap_offset APIC_REG_DFR" "\<not> bitmap_offset APIC_REG_SVR"
  "\<not> bitmap_offset APIC_REG_ESR" "\<not> bitmap_offset APIC_REG_ICR_LOW" "\<not> bitmap_offset APIC_REG_ICR_HIGH"
  "\<not> bitmap_offset APIC_REG_LVT_TIMER" "\<not> bitmap_offset APIC_REG_LVT_THERMAL" "\<not> bitmap_offset APIC_REG_LVT_PMC"
  "\<not> bitmap_offset APIC_REG_LVT_LINT0" "\<not> bitmap_offset APIC_REG_LVT_LINT1" "\<not> bitmap_offset APIC_REG_LVT_ERROR"
  "\<not> bitmap_offset APIC_REG_TIMER_ICR" "\<not> bitmap_offset APIC_REG_TIMER_DCR"
  by (simp_all add: bitmap_offset_simps)

lemma reg_view_scalar:
  "reg_view (a\<lparr>apic_id := x\<rparr>) = (reg_view a)(APIC_REG_ID \<mapsto> x)"
  "reg_view (a\<lparr>tpr := x\<rparr>) = (reg_view a)(APIC_REG_TPR \<mapsto> x)"
  "reg_view (a\<lparr>ppr := x\<rparr>) = (reg_view a)(APIC_REG_PPR \<mapsto> x)"
  "reg_view (a\<lparr>ldr := x\<rparr>) = (reg_view a)(APIC_REG_LDR \<mapsto> x)"
  "reg_view (a\<lparr>dfr := x\<rparr>) = (reg_view a)(APIC_REG_DFR \<mapsto> x)"
  "reg_view (a\<lparr>svr := x\<rparr>) = (reg_view a)(APIC_REG_SVR \<mapsto> x)"
  "reg_view (a\<lparr>esr := x\<rparr>) = (reg_view a)(APIC_REG_ESR \<mapsto> x)"
  "reg_view (a\<lparr>icr_low := x\<rparr>) = (reg_view a)(APIC_REG_ICR_LOW \<mapsto> x AND NOT APIC_ICR_SEND_PENDING)"
  "reg_view (a\<lparr>icr_high := x\<rparr>) = (reg_view a)(APIC_REG_ICR_HIGH \<mapsto> x)"
  "reg_view (a\<lparr>lvt_timer := x\<rparr>) = (reg_view a)(APIC_REG_LVT_TIMER \<mapsto> x)"
  "reg_view (a\<lparr>lvt_thermal := x\<rparr>) = (reg_view a)(APIC_REG_LVT_THERMAL \<mapsto> x)"
  "reg_view (a\<lparr>lvt_pmc := x\<rparr>) = (reg_view a)(APIC_REG_LVT_PMC \<mapsto> x)"
  "reg_view (a\<lparr>lvt_lint0 := x\<rparr>) = (reg_view a)(APIC_REG_LVT_LINT0 \<mapsto> x)"
  "reg_view (a\<lparr>lvt_lint1 := x\<rparr>) = (reg_view a)(APIC_REG_LVT_LINT1 \<mapsto> x)"
  "reg_view (a\<lparr>lvt_error := x\<rparr>) = (reg_view a)(APIC_REG_LVT_ERROR \<mapsto> x)"
  "reg_view (a\<lparr>timer_icr := x\<rparr>) = (reg_view a)(APIC_REG_TIMER_ICR \<mapsto> x)"
  "reg_view (a\<lparr>timer_dcr := x\<rparr>) = (reg_view a)(APIC_REG_TIMER_DCR \<mapsto> x)"
  by (rule ext, simp add: reg_view_def)+

lemma reg_view_other [simp]:
  "reg_view (a\<lparr>vapic_page := p\<rparr>) = reg_view a" "reg_view (a\<lparr>is_enabled := b\<rparr>) = reg_view a"
  "reg_view (a\<lparr>timer_mode := m\<rparr>) = reg_view a" "reg_view (a\<lparr>timer_start_ns := t\<rparr>) = reg_view a"
  "reg_view (a\<lparr>esr_pending := e\<rparr>) = reg_view a"
  by (rule ext, simp add: reg_view_def)+

lemma bitmap_index:
  assumes "i < 24"
  shows "unat ((0x100 + word_of_nat i * 0x10 - 0x100 :: u32) div 0x10) = i"
proof -
  have "(word_of_nat i * 0x10 :: u32) = word_of_nat (i * 16)" by simp
  moreover have "unat (word_of_nat (i * 16) :: u32) = i * 16" using assms by (simp add: unat_of_nat del: of_nat_mult)
  ultimately show ?thesis by (simp add: unat_div)
qed

lemma bitmap_offset_iff: "bitmap_offset off \<longleftrightarrow> (\<exists>i<24. off = 0x100 + word_of_nat i * 0x10)"
  by (auto simp: bitmap_offset_def)

lemma reg_view_bitmap:
  assumes "i < 24"
  shows "reg_view a (0x100 + word_of_nat i * 0x10) = Some ((isr_words a @ tmr_words a @ irr_words a) ! i)"
proof -
  have "bitmap_offset (0x100 + word_of_nat i * 0x10)" unfolding bitmap_offset_iff using assms by blast
  then show ?thesis unfolding reg_view_def by (simp only: if_True bitmap_index [OF assms])
qed

lemma reg_view_words:
  assumes same: "\<And>off. \<not> bitmap_offset off \<Longrightarrow> reg_view b off = reg_view a off"
    and upd: "isr_words b @ tmr_words b @ irr_words b = (isr_words a @ tmr_words a @ irr_words a)[k := x]"
    and k: "k < 24" "length (isr_words a @ tmr_words a @ irr_words a) = 24"
  shows "reg_view b = (reg_view a)(0x100 + word_of_nat k * 0x10 \<mapsto> x)"
proof
  fix off
  show "reg_view b off = ((reg_view a)(0x100 + word_of_nat k * 0x10 \<mapsto> x)) off"
  proof (cases "bitmap_offset off")
    case True
    then obtain i where i: "i < 24" "off = 0x100 + word_of_nat i * 0x10" by (auto simp: bitmap_offset_iff)
    then have "off = 0x100 + word_of_nat k * 0x10 \<longleftrightarrow> i = k" using bitmap_index k(1) by metis
    with i k show ?thesis by (simp add: reg_view_bitmap upd del: append_assoc)
  next
    case False
    then have "off \<noteq> 0x100 + word_of_nat k * 0x10" using k(1) by (auto simp: bitmap_offset_iff)
    with same [OF False] show ?thesis by simp
  qed
qed

lemma word_offsets:
  "APIC_REG_TMR w = 0x100 + word_of_nat (w + 8) * 0x10" "APIC_REG_IRR w = 0x100 + word_of_nat (w + 16) * 0x10"
  by (simp_all add: algebra_simps)

lemma reg_view_isr:
  assumes "words_ok a" "w < 8"
  shows "reg_view (a\<lparr>isr_words := (isr_words a)[w := x]\<rparr>) = (reg_view a)(APIC_REG_ISR w \<mapsto> x)"
  by (rule reg_view_words) (use assms in \<open>auto simp: words_ok_def reg_view_def list_update_append\<close>)

lemma reg_view_tmr:
  assumes "words_ok a" "w < 8"
  shows "reg_view (a\<lparr>tmr_words := (tmr_words a)[w := x]\<rparr>) = (reg_view a)(APIC_REG_TMR w \<mapsto> x)"
  unfolding word_offsets
  by (rule reg_view_words) (use assms in \<open>auto simp: words_ok_def reg_view_def list_update_append\<close>)

lemma reg_view_irr:
  assumes "words_ok a" "w < 8"
  shows "reg_view (a\<lparr>irr_words := (irr_words a)[w := x]\<rparr>) = (reg_view a)(APIC_REG_IRR w \<mapsto> x)"
  unfolding word_offsets
  by (rule reg_view_words) (use assms in \<open>auto simp: words_ok_def reg_view_def list_update_append\<close>)

lemma mirror_sync:
  assumes "mirror_ok a" "reg_view b = (reg_view a)(off \<mapsto> v)" "vapic_page b = sync_page off v (vapic_page a)" "off < 0x1000"
  shows "mirror_ok b"
  using assms by (auto simp: mirror_ok_def sync_page_def)

lemma bitmap_low:
  assumes "i < 24"
  shows "(0x100 + word_of_nat i * 0x10 :: u32) < 0x1000"
proof -
  have eq: "(0x100 + word_of_nat i * 0x10 :: u32) = word_of_nat (256 + i * 16)" by simp
  have "256 + i * 16 < 2 ^ LENGTH(32)" "256 + i * 16 < 4096" using assms by simp_all
  then have "unat (0x100 + word_of_nat i * 0x10 :: u32) < unat (0x1000 :: u32)"
    unfolding eq unat_of_nat by simp
  then show ?thesis by (simp only: word_less_nat_alt)
qed

lemma word_low: "w < 8 \<Longrightarrow> APIC_REG_ISR w < 0x1000" "w < 8 \<Longrightarrow> APIC_REG_TMR w < 0x1000" "w < 8 \<Longrightarrow> APIC_REG_IRR w < 0x1000"
  using bitmap_low [of w] bitmap_low [of "w + 8"] bitmap_low [of "w + 16"] unfolding word_offsets by simp_all

text \<open>The invariant of an APIC: bitmaps of eight words, the mirror up to date, the priority current.\<close>

definition apic_inv :: "virt_apic \<Rightarrow> bool" where
  "apic_inv a \<longleftrightarrow> words_ok a \<and> mirror_ok a \<and> ppr a = arch_ppr a"

lemma ppr_update_inv: "words_ok a \<Longrightarrow> mirror_ok a \<Longrightarrow> apic_inv (relm_apic_ppr_update a)"
  unfolding apic_inv_def ppr_update_eq
  by (auto simp: words_ok_def reg_view_scalar arch_ppr_def isr_class_def intro: mirror_sync)

lemma word_write_mirror:
  assumes "words_ok a" "mirror_ok a" "w < 8"
  shows "mirror_ok (a\<lparr>isr_words := (isr_words a)[w := x], vapic_page := sync_page (APIC_REG_ISR w) x (vapic_page a)\<rparr>)"
    "mirror_ok (a\<lparr>tmr_words := (tmr_words a)[w := x], vapic_page := sync_page (APIC_REG_TMR w) x (vapic_page a)\<rparr>)"
    "mirror_ok (a\<lparr>irr_words := (irr_words a)[w := x], vapic_page := sync_page (APIC_REG_IRR w) x (vapic_page a)\<rparr>)"
proof -
  show "mirror_ok (a\<lparr>isr_words := (isr_words a)[w := x], vapic_page := sync_page (APIC_REG_ISR w) x (vapic_page a)\<rparr>)"
    by (rule mirror_sync [OF assms(2) _ _ word_low(1) [OF assms(3)]]) (simp_all add: reg_view_isr [OF assms(1,3)])
  show "mirror_ok (a\<lparr>tmr_words := (tmr_words a)[w := x], vapic_page := sync_page (APIC_REG_TMR w) x (vapic_page a)\<rparr>)"
    by (rule mirror_sync [OF assms(2) _ _ word_low(2) [OF assms(3)]]) (simp_all add: reg_view_tmr [OF assms(1,3)])
  show "mirror_ok (a\<lparr>irr_words := (irr_words a)[w := x], vapic_page := sync_page (APIC_REG_IRR w) x (vapic_page a)\<rparr>)"
    by (rule mirror_sync [OF assms(2) _ _ word_low(3) [OF assms(3)]]) (simp_all add: reg_view_irr [OF assms(1,3)])
qed

lemma retire_mirror:
  assumes "words_ok a" "mirror_ok a" "v < 256"
  shows "mirror_ok (retire v a)"
proof -
  have w: "v div 32 < 8" using assms(3) by auto
  define b where "b = a\<lparr>isr_words := (isr_words a)[v div 32 := isr_words a ! (v div 32) AND NOT (push_bit (v mod 32) 1)],
    vapic_page := sync_page (APIC_REG_ISR (v div 32)) (isr_words a ! (v div 32) AND NOT (push_bit (v mod 32) 1)) (vapic_page a)\<rparr>"
  have b: "mirror_ok b" "words_ok b" "tmr_words b = tmr_words a"
    unfolding b_def by (rule word_write_mirror(1) [OF assms(1,2) w]) (use assms(1) in \<open>simp_all add: words_ok_def\<close>)
  have "retire v a = (if v \<in> vecs (tmr_words a)
      then b\<lparr>tmr_words := (tmr_words b)[v div 32 := tmr_words b ! (v div 32) AND NOT (push_bit (v mod 32) 1)],
        vapic_page := sync_page (APIC_REG_TMR (v div 32)) (tmr_words b ! (v div 32) AND NOT (push_bit (v mod 32) 1)) (vapic_page b)\<rparr>
      else b)" by (simp add: retire_def Let_def b_def)
  with word_write_mirror(2) [OF b(2,1) w] b(1) show ?thesis by simp
qed

lemma eoi_inv: "apic_inv a \<Longrightarrow> apic_inv (relm_apic_eoi a)"
proof (cases "vecs (isr_words a) = {}")
  case False
  assume inv: "apic_inv a"
  have "Max (vecs (isr_words a)) \<in> vecs (isr_words a)" using False by simp
  then have lt: "Max (vecs (isr_words a)) < 256" by (simp add: vecs_def)
  with inv show ?thesis
    unfolding eoi_eq [OF inv [unfolded apic_inv_def, THEN conjunct1] False]
    by (intro ppr_update_inv retire_mirror retire_sets) (simp_all add: apic_inv_def)
qed (simp add: eoi_none)

text \<open>A register with no effect on priorities.\<close>

lemma plain_write_inv:
  assumes "apic_inv a" "reg_view b = (reg_view a)(off \<mapsto> v)" "vapic_page b = sync_page off v (vapic_page a)"
    "off < 0x1000" "words_ok b" "tpr b = tpr a" "isr_words b = isr_words a" "ppr b = ppr a"
  shows "apic_inv b"
  using assms mirror_sync [of a b off v] arch_ppr_cong [of b a] by (simp add: apic_inv_def)

lemma tpr_write_inv:
  assumes "apic_inv a"
  shows "apic_inv (relm_apic_ppr_update (relm_vapic_sync_reg APIC_REG_TPR x (a\<lparr>tpr := x\<rparr>)))"
  by (rule ppr_update_inv)
    (use assms in \<open>auto simp: apic_inv_def words_ok_def sync_eq reg_view_scalar intro: mirror_sync\<close>)

lemma eoi_write_inv:
  assumes "apic_inv a"
  shows "apic_inv (relm_vapic_sync_reg APIC_REG_EOI 0 (relm_apic_eoi a))"
proof -
  have view: "reg_view (relm_apic_eoi a) = (reg_view (relm_apic_eoi a))(APIC_REG_EOI \<mapsto> 0)"
    by (rule ext) (simp add: reg_view_def)
  show ?thesis
    by (rule plain_write_inv [OF eoi_inv [OF assms], where off = APIC_REG_EOI and v = 0])
      (use view eoi_inv [OF assms] in \<open>simp_all add: sync_eq apic_inv_def words_ok_def\<close>)
qed

lemma apic_write_reg_inv:
  assumes inv: "apic_inv a" and w: "apic_write_reg now off v a = Some b"
  shows "apic_inv b"
proof -
  have words: "words_ok a" using inv by (simp add: apic_inv_def)
  note p = plain_write_inv [OF inv]
  have cases: "apic_inv (relm_vapic_sync_reg APIC_REG_ID x (a\<lparr>apic_id := x\<rparr>))"
    "apic_inv (relm_vapic_sync_reg APIC_REG_LDR x (a\<lparr>ldr := x\<rparr>))"
    "apic_inv (relm_vapic_sync_reg APIC_REG_DFR x (a\<lparr>dfr := x\<rparr>))"
    "apic_inv (relm_vapic_sync_reg APIC_REG_SVR x (a\<lparr>svr := x, is_enabled := e\<rparr>))"
    "apic_inv (relm_vapic_sync_reg APIC_REG_ESR x (a\<lparr>esr := x, esr_pending := y\<rparr>))"
    "apic_inv (relm_vapic_sync_reg APIC_REG_ICR_HIGH x (a\<lparr>icr_high := x\<rparr>))"
    "apic_inv (relm_vapic_sync_reg APIC_REG_LVT_TIMER x (a\<lparr>lvt_timer := x, timer_mode := m\<rparr>))"
    "apic_inv (relm_vapic_sync_reg APIC_REG_LVT_THERMAL x (a\<lparr>lvt_thermal := x\<rparr>))"
    "apic_inv (relm_vapic_sync_reg APIC_REG_LVT_PMC x (a\<lparr>lvt_pmc := x\<rparr>))"
    "apic_inv (relm_vapic_sync_reg APIC_REG_LVT_LINT0 x (a\<lparr>lvt_lint0 := x\<rparr>))"
    "apic_inv (relm_vapic_sync_reg APIC_REG_LVT_LINT1 x (a\<lparr>lvt_lint1 := x\<rparr>))"
    "apic_inv (relm_vapic_sync_reg APIC_REG_LVT_ERROR x (a\<lparr>lvt_error := x\<rparr>))"
    "apic_inv ((relm_vapic_sync_reg APIC_REG_TIMER_ICR x (a\<lparr>timer_icr := x\<rparr>))\<lparr>timer_start_ns := t\<rparr>)"
    "apic_inv (relm_vapic_sync_reg APIC_REG_TIMER_DCR x (a\<lparr>timer_dcr := x\<rparr>))" for x y e m t
    using words by (auto simp: sync_eq reg_view_scalar words_ok_def intro!: p)
  from w inv show ?thesis
    unfolding apic_write_reg_def Let_def
    by (auto simp: cases tpr_write_inv eoi_write_inv split: if_splits)
qed

text \<open>Acceptance of an interrupt, in terms of the vector number.\<close>

definition accept :: "nat \<Rightarrow> bool \<Rightarrow> virt_apic \<Rightarrow> virt_apic" where
  "accept v level a =
     (let w = v div 32; m = push_bit (v mod 32) 1 :: u32; i = irr_words a ! w OR m;
          t = (if level then tmr_words a ! w OR m else tmr_words a ! w AND NOT m);
          a = a\<lparr>irr_words := (irr_words a)[w := i], vapic_page := sync_page (APIC_REG_IRR w) i (vapic_page a)\<rparr>
      in a\<lparr>tmr_words := (tmr_words a)[w := t], vapic_page := sync_page (APIC_REG_TMR w) t (vapic_page a)\<rparr>)"

lemma inject_eq:
  assumes "words_ok (apic vc)"
  shows "relm_apic_inject_interrupt v level vc = vc\<lparr>apic := accept (unat v) level (apic vc), halted := False\<rparr>"
proof -
  have "unat v div 32 < 8" using vec_lt [of v] by linarith
  with assms show ?thesis
    unfolding relm_apic_inject_interrupt_def Let_def vec_word vec_bit accept_def sync_eq
    by (simp add: words_ok_def)
qed

lemma accept_sets:
  assumes "words_ok a" "v < 256"
  shows "vecs (irr_words (accept v level a)) = insert v (vecs (irr_words a))"
    "vecs (tmr_words (accept v level a)) = (if level then insert v (vecs (tmr_words a)) else vecs (tmr_words a) - {v})"
    "isr_words (accept v level a) = isr_words a" "tpr (accept v level a) = tpr a" "ppr (accept v level a) = ppr a"
    "words_ok (accept v level a)"
  using assms vecs_set [of _ v] vecs_clear [of _ v] by (auto simp: accept_def Let_def words_ok_def)

lemma accept_inv:
  assumes "apic_inv a" "v < 256"
  shows "apic_inv (accept v level a)"
proof -
  have w: "v div 32 < 8" using assms(2) by auto
  have a: "words_ok a" "mirror_ok a" using assms(1) by (simp_all add: apic_inv_def)
  define x where "x = irr_words a ! (v div 32) OR push_bit (v mod 32) 1"
  define b where "b = a\<lparr>irr_words := (irr_words a)[v div 32 := x], vapic_page := sync_page (APIC_REG_IRR (v div 32)) x (vapic_page a)\<rparr>"
  have b: "mirror_ok b" "words_ok b"
    unfolding b_def by (rule word_write_mirror(3) [OF a w]) (use a in \<open>simp add: words_ok_def\<close>)
  have "mirror_ok (accept v level a)"
    using word_write_mirror(2) [OF b(2,1) w] by (simp add: accept_def Let_def b_def x_def)
  then show ?thesis
    using assms accept_sets [OF a(1) assms(2)] arch_ppr_cong [of "accept v level a" a] by (simp add: apic_inv_def)
qed

lemma inject_inv: "apic_inv (apic vc) \<Longrightarrow> apic_inv (apic (relm_apic_inject_interrupt v level vc))"
  by (simp add: inject_eq accept_inv apic_inv_def [THEN iffD1, THEN conjunct1])

lemma set_error_inv:
  assumes "apic_inv (apic vc)"
  shows "apic_inv (apic (relm_apic_set_error e vc))"
proof -
  have "apic_inv ((apic vc)\<lparr>esr_pending := x\<rparr>)" for x
    using assms arch_ppr_cong [of "(apic vc)\<lparr>esr_pending := x\<rparr>" "apic vc"]
    by (simp add: apic_inv_def words_ok_def mirror_ok_def)
  with assms show ?thesis by (simp add: relm_apic_set_error_def Let_def inject_inv)
qed

lemma deliver_inv:
  "(\<And>c. apic_inv (apic (S c))) \<Longrightarrow> apic_inv (apic (fold (relm_apic_ipi_deliver dm vec lvl) ts S c))"
  by (induction ts arbitrary: S) (auto simp: relm_apic_ipi_deliver_def inject_inv)

lemma icr_write_inv:
  assumes "\<And>c. apic_inv (apic (S c))"
  shows "apic_inv (apic (relm_apic_handle_icr_write arr me v S c))"
proof -
  have "apic_inv (relm_vapic_sync_reg APIC_REG_ICR_LOW (v AND NOT APIC_ICR_SEND_PENDING) ((apic (S me))\<lparr>icr_low := v\<rparr>))"
    using assms [of me]
    by (intro plain_write_inv [OF assms [of me], where off = APIC_REG_ICR_LOW and v = "v AND NOT APIC_ICR_SEND_PENDING"])
      (auto simp: sync_eq reg_view_scalar apic_inv_def words_ok_def)
  with assms show ?thesis
    unfolding relm_apic_handle_icr_write_def Let_def by (intro deliver_inv) simp
qed

lemma apic_write_inv:
  assumes "\<And>c. apic_inv (apic (S c))"
  shows "apic_inv (apic (snd (relm_apic_write now arr me off v S) c))"
  using assms icr_write_inv [OF assms, of arr me v] apic_write_reg_inv [OF assms [of me]]
  by (auto simp: relm_apic_write_def split: option.split)

lemma reg_view_tpr: "reg_view a APIC_REG_TPR = Some (tpr a)"
  by (simp add: reg_view_def)

lemma apic_read_tpr:
  assumes "apic_inv a"
  shows "relm_vapic_read_reg a APIC_REG_TPR = tpr a"
  using assms reg_view_tpr [of a] by (auto simp: apic_inv_def mirror_ok_def relm_vapic_read_reg_def)

lemma ppr_update_same:
  assumes "apic_inv a"
  shows "apic_inv (relm_apic_ppr_update a)" "ppr (relm_apic_ppr_update a) = ppr a"
  using assms ppr_update_inv [of a] by (simp_all add: apic_inv_def ppr_update_eq)

lemma ccr_sync_inv:
  assumes "apic_inv a"
  shows "apic_inv (relm_vapic_sync_reg APIC_REG_TIMER_CCR x a)"
proof -
  have "reg_view a APIC_REG_TIMER_CCR = None" by (simp add: reg_view_def bitmap_offset_simps)
  then have "mirror_ok (relm_vapic_sync_reg APIC_REG_TIMER_CCR x a)"
    using assms by (auto simp: apic_inv_def mirror_ok_def sync_eq sync_page_def)
  then show ?thesis
    using assms arch_ppr_cong [of "relm_vapic_sync_reg APIC_REG_TIMER_CCR x a" a] by (simp add: apic_inv_def words_ok_def sync_eq)
qed

lemma apic_read_inv:
  assumes "apic_inv a"
  shows "apic_inv (snd (snd (relm_apic_read now off a)))"
proof -
  have "a\<lparr>tpr := relm_vapic_read_reg a APIC_REG_TPR\<rparr> = a" using apic_read_tpr [OF assms] by simp
  with assms show ?thesis
    unfolding relm_apic_read_def Let_def by (simp add: ppr_update_same ccr_sync_inv)
qed

section \<open>Runs\<close>

text \<open>What can happen to the APICs of a VM: a vCPU writes or reads a register (exit 44), a device or
  another vCPU injects a vector, the hypervisor records an error.\<close>

inductive apic_step :: "nat option list option \<Rightarrow> (nat \<Rightarrow> vcpu) \<Rightarrow> (nat \<Rightarrow> vcpu) \<Rightarrow> bool" for arr where
  reg_write: "apic_step arr S (snd (relm_apic_write now arr me off v S))"
| reg_read: "apic_step arr S (S(me := (S me)\<lparr>apic := snd (snd (relm_apic_read now off (apic (S me))))\<rparr>))"
| inject: "apic_step arr S (S(me := relm_apic_inject_interrupt vec level (S me)))"
| set_error: "apic_step arr S (S(me := relm_apic_set_error e (S me)))"

definition apics_ok :: "(nat \<Rightarrow> vcpu) \<Rightarrow> bool" where
  "apics_ok S \<longleftrightarrow> (\<forall>c. apic_inv (apic (S c)))"

lemma apic_step_inv: "apic_step arr S T \<Longrightarrow> apics_ok S \<Longrightarrow> apics_ok T"
  by (erule apic_step.cases) (auto simp: apics_ok_def apic_write_inv apic_read_inv inject_inv set_error_inv)

interpretation apic_run: step_invariant "apic_step arr" apics_ok
  by unfold_locales (rule apic_step_inv)

text \<open>Reset of a fresh APIC.\<close>

lemma fold_sync:
  "fold (\<lambda>(off, v). relm_vapic_sync_reg off v) ws a = a\<lparr>vapic_page := fold (\<lambda>(off, v). sync_page off v) ws (vapic_page a)\<rparr>"
  by (induction ws arbitrary: a) (auto simp: sync_eq)

lemma fold_sync_keeps:
  "fold (\<lambda>(off, v). relm_vapic_sync_reg off v) ws a =
     a\<lparr>vapic_page := vapic_page (fold (\<lambda>(off, v). relm_vapic_sync_reg off v) ws a)\<rparr>"
  by (simp add: fold_sync)

lemma reset_mirror_keeps: "apic_reset_mirror a = a\<lparr>vapic_page := vapic_page (apic_reset_mirror a)\<rparr>"
  unfolding apic_reset_mirror_def by (rule fold_sync_keeps)

lemma reset_page:
  "vapic_page (apic_reset_mirror (apic_reset_regs i (a\<lparr>vapic_page := Some (\<lambda>_. 0)\<rparr>))) =
     Some ((\<lambda>_. 0)(APIC_REG_ID := push_bit 24 (ucast i), APIC_REG_VERSION := 0x00050014, APIC_REG_DFR := 0xFFFFFFFF,
       APIC_REG_SVR := 0xFF, APIC_REG_LVT_TIMER := APIC_LVT_MASKED, APIC_REG_LVT_THERMAL := APIC_LVT_MASKED,
       APIC_REG_LVT_PMC := APIC_LVT_MASKED, APIC_REG_LVT_LINT0 := APIC_LVT_MASKED, APIC_REG_LVT_LINT1 := APIC_LVT_MASKED,
       APIC_REG_LVT_ERROR := APIC_LVT_MASKED, APIC_REG_TIMER_DCR := 0x0B))"
  unfolding apic_reset_mirror_def fold_sync
  by (simp add: apic_reset_regs_def upt_rec sync_page_def fun_eq_iff)

lemma init_inv: "apic_inv (relm_apic_init i (a\<lparr>vapic_page := Some (\<lambda>_. 0)\<rparr>))"
proof -
  let ?r = "apic_reset_regs i (a\<lparr>vapic_page := Some (\<lambda>_. 0)\<rparr>)"
  have init: "relm_apic_init i (a\<lparr>vapic_page := Some (\<lambda>_. 0)\<rparr>) = ?r\<lparr>vapic_page := vapic_page (apic_reset_mirror ?r)\<rparr>"
    using reset_mirror_keeps [of ?r] by (simp add: relm_apic_init_def Let_def apic_reset_regs_def)
  have words: "words_ok ?r" by (simp add: words_ok_def apic_reset_regs_def)
  have zeros: "(replicate 8 0 @ replicate 8 0 @ replicate 8 (0 :: u32)) ! k = 0" if "k < 24" for k
    using that by (simp add: nth_append)
  have "mirror_ok (relm_apic_init i (a\<lparr>vapic_page := Some (\<lambda>_. 0)\<rparr>))"
    unfolding init mirror_ok_def
  proof (intro exI [of _ "the (vapic_page (apic_reset_mirror ?r))"] conjI allI impI)
    show "vapic_page (?r\<lparr>vapic_page := vapic_page (apic_reset_mirror ?r)\<rparr>) = Some (the (vapic_page (apic_reset_mirror ?r)))"
      by (simp add: reset_page)
    fix off v assume "reg_view (?r\<lparr>vapic_page := vapic_page (apic_reset_mirror ?r)\<rparr>) off = Some v"
    then have rv: "reg_view ?r off = Some v" by simp
    show "the (vapic_page (apic_reset_mirror ?r)) off = v"
    proof (cases "bitmap_offset off")
      case True
      then obtain k where "k < 24" "off = 0x100 + word_of_nat k * 0x10" by (auto simp: bitmap_offset_iff)
      with rv have "v = 0" using zeros by (simp only: reg_view_bitmap) (simp add: apic_reset_regs_def)
      with True show ?thesis unfolding reset_page by auto
    next
      case False
      with rv show ?thesis
        unfolding reset_page reg_view_def by (auto simp: apic_reset_regs_def split: if_splits)
    qed
  qed
  moreover have "vecs (replicate 8 0) = {}" by (auto simp: vecs_def)
  ultimately show ?thesis
    using words by (simp add: apic_inv_def init arch_ppr_def isr_class_def words_ok_def) (simp add: apic_reset_regs_def)
qed

lemma apic_read_view:
  assumes inv: "apic_inv a" and v: "reg_view a off = Some v"
  shows "fst (relm_apic_read now off a) = Inr () \<and> fst (snd (relm_apic_read now off a)) = v"
proof (cases "bitmap_offset off")
  case True
  have "length (isr_words a) = 8" "length (tmr_words a) = 8" using inv by (simp_all add: apic_inv_def words_ok_def)
  with True v show ?thesis
    unfolding bitmap_offset_simps relm_apic_read_def reg_view_def
    by (elim insertE emptyE) (simp_all add: nth_append)
next
  case False
  with v inv apic_read_tpr [OF inv] ppr_update_same [OF inv] show ?thesis
    unfolding reg_view_def by (auto simp: relm_apic_read_def Let_def split: if_splits)
qed

end
