(* ===== verification/Relm_Apic_Props.thy ===== *)
theory Relm_Apic_Props
  imports Relm_Apic
begin

text \<open>
  What the local APIC promises: acceptance, retirement and priority of interrupts as operations on
  sets of vectors, the agreement of the virtual-APIC page with the register file over every run,
  the timer's current count against a specification on natural numbers, and the targets of an
  interprocessor interrupt.
\<close>

section \<open>Interrupts\<close>

text \<open>Injecting a vector makes exactly that vector pending in addition to those that were, records
  its trigger mode, leaves the in-service set alone and wakes the vCPU.\<close>

theorem inject_pends_vector:
  assumes "words_ok (apic vc)"
  shows "let vc' = relm_apic_inject_interrupt v level vc in
    vecs (irr_words (apic vc')) = insert (unat v) (vecs (irr_words (apic vc))) \<and>
    vecs (tmr_words (apic vc')) = (if level then insert (unat v) (vecs (tmr_words (apic vc)))
                                   else vecs (tmr_words (apic vc)) - {unat v}) \<and>
    vecs (isr_words (apic vc')) = vecs (isr_words (apic vc)) \<and> \<not> halted vc'"
  using accept_sets [OF assms, of "unat v" level] by (simp add: inject_eq [OF assms] Let_def)

definition blank_apic :: virt_apic where
  "blank_apic = \<lparr>vapic_page = None, vapic_page_pa = 0x5000, apic_access_page = True,
     apic_access_page_pa = 0x6000, apic_id = 0, apic_version = 0, tpr = 0, ppr = 0, svr = 0, ldr = 0, dfr = 0, esr = 0,
     esr_pending = 0, irr_words = [], isr_words = [], tmr_words = [], icr_low = 0, icr_high = 0, lvt_timer = 0,
     lvt_thermal = 0, lvt_pmc = 0, lvt_lint0 = 0, lvt_lint1 = 0, lvt_error = 0, timer_icr = 0, timer_dcr = 0,
     timer_mode = APIC_TIMER_MODE_ONESHOT, timer_start_ns = 0, timer_deadline_tsc = 0, is_enabled = False,
     apic_reg_virt_supported = False\<rparr>"

definition demo_apic :: virt_apic where
  "demo_apic = relm_apic_init 3 (blank_apic\<lparr>vapic_page := Some (\<lambda>_. 0)\<rparr>)"

lemma demo_apic_inv: "apic_inv demo_apic"
  using init_inv [of 3 blank_apic]
  by (simp add: demo_apic_def)

definition demo_regs :: guest_regs where
  "demo_regs = \<lparr>reg_rax = 0, reg_rbx = 0, reg_rcx = 0, reg_rdx = 0, reg_rsi = 0, reg_rdi = 0, reg_rbp = 0, reg_rsp = 0,
     reg_r8 = 0, reg_r9 = 0, reg_r10 = 0, reg_r11 = 0, reg_r12 = 0, reg_r13 = 0, reg_r14 = 0, reg_r15 = 0,
     reg_rip = 0x1000, reg_rflags = 2\<rparr>"

definition blank_arch :: vcpu_arch where
  "blank_arch = \<lparr>va_vmcs = None, va_host_stack = None, va_host_rsp = 0,
     va_controls = \<lparr>pin_based = 0, primary_proc = 0, secondary_proc = 0, vm_entry = 0, vm_exit = 0\<rparr>,
     va_msr_bitmap = None, va_io_bitmap = None, va_exception_bitmap = 0, va_vmexit_store_area = None,
     va_vmexit_load_area = None, va_vmentry_load_area = None, va_vmexit_count = 0, va_vmentry_count = 0,
     va_msr_indices = replicate 16 0, va_cr3 = 0, va_gdtr_base = 0, va_gdtr_limit = 0, va_idtr_base = 0, va_idtr_limit = 0\<rparr>"

definition demo_vcpu :: vcpu where
  "demo_vcpu = \<lparr>vpid = 1, target_cpu_id = 1, vc_state = VCPU_STATE_RUNNING, halted = True, launched = 1, host_task = True,
     stats = \<lparr>total_exits = 0, hypercalls = 0, hlt_exits = 0, cpuid_exits = 0, io_exits = 0, mmio_exits = 0,
       start_time_ns = 0, end_time_ns = 0\<rparr>,
     regs = demo_regs, apic = demo_apic, vmentry_host_rsp = 0, arch_cr0 = 0, arch_cr4 = 0,
     arch_efer = 0, arch_xcr0 = 1, va = blank_arch, vmcs = (\<lambda>_. 0), vmcs_rejects = (\<lambda>_. False)\<rparr>"

lemma demo_vcpu_words: "words_ok (apic demo_vcpu)"
  using demo_apic_inv by (simp add: demo_vcpu_def apic_inv_def)

theorem inject_pends_vector_witness:
  "0x25 \<in> vecs (irr_words (apic (relm_apic_inject_interrupt 0x25 False demo_vcpu)))"
  using inject_pends_vector [OF demo_vcpu_words, of "0x25" False] by (simp add: Let_def)

text \<open>End of interrupt retires exactly the highest vector in service, clears its level-trigger
  bit, leaves pending interrupts alone, and recomputes the processor priority as the architecture
  prescribes; with nothing in service it does nothing.\<close>

theorem eoi_retires_highest:
  assumes "words_ok a"
  shows "if vecs (isr_words a) = {} then relm_apic_eoi a = a
    else vecs (isr_words (relm_apic_eoi a)) = vecs (isr_words a) - {Max (vecs (isr_words a))} \<and>
         vecs (tmr_words (relm_apic_eoi a)) = vecs (tmr_words a) - {Max (vecs (isr_words a))} \<and>
         irr_words (relm_apic_eoi a) = irr_words a \<and>
         ppr (relm_apic_eoi a) = max (tpr a AND 0xF0)
           (word_of_nat (Max (insert 0 (vecs (isr_words a) - {Max (vecs (isr_words a))}))) AND 0xF0)"
proof (cases "vecs (isr_words a) = {}")
  case True
  then show ?thesis by (simp add: eoi_none)
next
  case False
  let ?v = "Max (vecs (isr_words a))"
  have "?v \<in> vecs (isr_words a)" using False by simp
  then have "?v < 256" by (simp add: vecs_def)
  note r = retire_sets [OF assms this]
  from False show ?thesis
    unfolding eoi_eq [OF assms False] ppr_update_eq by (simp add: r arch_ppr_def isr_class_def)
qed

theorem eoi_retires_highest_witness:
  "vecs (isr_words (relm_apic_eoi (demo_apic\<lparr>isr_words := [0, 0x20, 0, 4, 0, 0, 0, 0]\<rparr>))) =
     vecs [0, 0x20, 0, 4, 0, 0, 0, 0] - {Max (vecs [0, 0x20, 0, 4, 0, 0, 0, 0])}"
proof -
  have w: "words_ok (demo_apic\<lparr>isr_words := [0, 0x20, 0, 4, 0, 0, 0, 0]\<rparr>)"
    using demo_apic_inv by (simp add: apic_inv_def words_ok_def)
  have "37 \<in> vecs [0, 0x20, 0, 4, 0, 0, 0, 0]" by (simp add: vecs_def)
  then have "vecs [0, 0x20, 0, 4, 0, 0, 0, 0] \<noteq> {}" by blast
  with eoi_retires_highest [OF w] show ?thesis by simp
qed

section \<open>The virtual-APIC page\<close>



text \<open>Two registers escape the mirror: right after reset the exit path reports the LVT entry for
  corrected machine checks as masked while the page holds zero there, and after the guest raises
  its task priority the arbitration priority differs between the two paths.\<close>

theorem unmirrored_registers:
  "fst (snd (relm_apic_read now 0x2F0 demo_apic)) = APIC_LVT_MASKED \<and>
   relm_vapic_read_reg demo_apic 0x2F0 = 0 \<and>
   (let a = the (apic_write_reg now 0x080 0x20 demo_apic) in
      fst (snd (relm_apic_read now 0x090 a)) = 0x20 \<and> relm_vapic_read_reg a 0x090 = 0)"
proof -
  have p: "vapic_page demo_apic = Some ((\<lambda>_. 0)(0x020 := push_bit 24 3, 0x030 := 0x00050014, 0x0E0 := 0xFFFFFFFF,
       0x0F0 := 0xFF, 0x320 := APIC_LVT_MASKED, 0x330 := APIC_LVT_MASKED, 0x340 := APIC_LVT_MASKED,
       0x350 := APIC_LVT_MASKED, 0x360 := APIC_LVT_MASKED, 0x370 := APIC_LVT_MASKED, 0x3E0 := 0x0B))"
    (is "_ = Some ?pg")
    using reset_page [of 3 blank_apic]
    by (simp add: demo_apic_def relm_apic_init_def Let_def) (simp add: apic_reset_regs_def)
  have isr: "isr_words demo_apic = replicate 8 0"
    unfolding demo_apic_def relm_apic_init_def Let_def
    by (subst reset_mirror_keeps) (simp add: apic_reset_regs_def)
  have "vecs (replicate 8 0) = {}" by (auto simp: vecs_def)
  then have "arch_ppr (relm_vapic_sync_reg 0x080 0x20 (demo_apic\<lparr>tpr := 0x20\<rparr>)) = 0x20"
    by (simp add: arch_ppr_def isr_class_def sync_eq isr)
  then show ?thesis
    by (simp add: relm_apic_read_def relm_vapic_read_reg_def apic_write_reg_def Let_def ppr_update_eq)
      (simp add: p sync_eq sync_page_def arch_ppr_def isr_class_def isr)
qed

section \<open>The timer\<close>

lemma timer_divisor_bounds: "1 \<le> unat (timer_divisor d) \<and> unat (timer_divisor d) \<le> 128"
  by (simp add: timer_divisor_def Let_def)

lemma unat_10_divisor: "unat (10 * timer_divisor d) = 10 * unat (timer_divisor d)"
  using timer_divisor_bounds [of d] by (simp add: unat_word_ariths)

lemma unat_ucast_32_64 [simp]: "unat (ucast (x :: u32) :: u64) = unat x"
  by (simp add: unsigned_ucast_eq take_bit_nat_eq_self_iff order.strict_trans [OF unsigned_less])

lemma unat_ucast_64_32: "unat (x :: u64) < 2 ^ 32 \<Longrightarrow> unat (ucast x :: u32) = unat x"
  by (simp add: unsigned_ucast_eq take_bit_nat_eq_self_iff)

text \<open>The current count of an armed timer is the initial count less the ticks elapsed (one per
  ten nanoseconds times the divisor): clamped at zero in one-shot mode, reloading in periodic mode.
  So it never exceeds the initial count, and in periodic mode never reads zero.\<close>

theorem timer_count_spec:
  assumes armed: "timer_icr a \<noteq> 0" "timer_start_ns a \<noteq> 0" and time: "timer_start_ns a \<le> now"
  defines "ticks \<equiv> (unat now - unat (timer_start_ns a)) div (10 * unat (timer_divisor (timer_dcr a)))"
  shows "unat (relm_apic_get_timer_ccr now a) =
    (if timer_mode a = APIC_TIMER_MODE_PERIODIC then unat (timer_icr a) - ticks mod unat (timer_icr a)
     else unat (timer_icr a) - ticks)"
proof -
  define t where "t = (now - timer_start_ns a) div (10 * timer_divisor (timer_dcr a))"
  have t: "unat t = ticks"
    unfolding t_def ticks_def unat_div unat_10_divisor using time by (simp add: unat_sub)
  have icr: "unat (timer_icr a) \<noteq> 0" using armed(1) by (simp add: unat_eq_0)
  have small: "unat (timer_icr a) < 2 ^ 32" using unsigned_less [of "timer_icr a"] by simp
  have m: "unat (ucast (t mod ucast (timer_icr a)) :: u32) = ticks mod unat (timer_icr a)"
  proof -
    have "unat (t mod ucast (timer_icr a)) = ticks mod unat (timer_icr a)" by (simp add: unat_mod t)
    moreover have "ticks mod unat (timer_icr a) < 2 ^ 32"
      using icr small by (meson mod_less_divisor order.strict_trans neq0_conv)
    ultimately show ?thesis by (simp add: unat_ucast_64_32)
  qed
  have p: "unat (timer_icr a - ucast (t mod ucast (timer_icr a))) = unat (timer_icr a) - ticks mod unat (timer_icr a)"
  proof -
    have "unat (ucast (t mod ucast (timer_icr a)) :: u32) \<le> unat (timer_icr a)" unfolding m using icr by (simp add: less_imp_le)
    then show ?thesis by (simp add: unat_sub word_le_nat_alt m)
  qed
  have o: "unat (ucast (ucast (timer_icr a) - t) :: u32) = unat (timer_icr a) - ticks" if "\<not> ucast (timer_icr a) \<le> t"
  proof -
    have "unat t \<le> unat (ucast (timer_icr a) :: u64)" using that by (simp add: word_le_nat_alt)
    then have "unat (ucast (timer_icr a) - t :: u64) = unat (timer_icr a) - ticks"
      by (subst unat_sub) (simp_all add: word_le_nat_alt t)
    with small show ?thesis by (simp add: unat_ucast_64_32)
  qed
  have z: "unat (timer_icr a) - ticks = 0" if "ucast (timer_icr a) \<le> t" using that by (simp add: word_le_nat_alt t)
  show ?thesis
    unfolding relm_apic_get_timer_ccr_def Let_def t_def [symmetric] using armed p o z by simp
qed

theorem timer_count_spec_witness:
  "unat (relm_apic_get_timer_ccr 1500 (demo_apic\<lparr>timer_icr := 100, timer_start_ns := 500, timer_dcr := 0,
     timer_mode := APIC_TIMER_MODE_ONESHOT\<rparr>)) = 50"
  using timer_count_spec [of "demo_apic\<lparr>timer_icr := 100, timer_start_ns := 500, timer_dcr := 0,
     timer_mode := APIC_TIMER_MODE_ONESHOT\<rparr>" 1500]
  by (simp add: timer_divisor_def)

section \<open>Interprocessor interrupts\<close>

definition present :: "nat option list \<Rightarrow> nat list" where
  "present arr = map the (filter (\<lambda>c. c \<noteq> None) arr)"

lemma ipi_targets_filter:
  "length (present arr) \<le> room \<Longrightarrow>
     ipi_targets arr room S me low high = filter (\<lambda>c. ipi_matches me low high c (S c)) (present arr)"
proof (induction arr arbitrary: room)
  case (Cons c cs)
  then show ?case by (cases c; cases room) (simp_all add: present_def)
qed (simp add: present_def)

lemma ipi_matches_cong:
  "apic_id (apic x) = apic_id (apic y) \<Longrightarrow> ldr (apic x) = ldr (apic y) \<Longrightarrow>
     ipi_matches me low high c x = ipi_matches me low high c y"
  by (simp add: ipi_matches_def)

lemma deliver_fixed:
  assumes "distinct ts" "\<And>c. words_ok (apic (S c))"
  shows "vecs (irr_words (apic (fold (relm_apic_ipi_deliver 0 vec lvl) ts S c))) =
    (if c \<in> set ts then insert (unat (ucast vec :: u8)) (vecs (irr_words (apic (S c)))) else vecs (irr_words (apic (S c))))"
  using assms
proof (induction ts arbitrary: S)
  case (Cons t ts)
  define U where "U = S(t := relm_apic_inject_interrupt (ucast vec) lvl (S t))"
  have w: "words_ok (apic (U c))" for c
    using Cons.prems(2) by (simp add: U_def inject_eq accept_sets)
  have irr: "vecs (irr_words (apic (U c))) = (if c = t then insert (unat (ucast vec :: u8)) (vecs (irr_words (apic (S t))))
      else vecs (irr_words (apic (S c))))"
    using accept_sets(1) [OF Cons.prems(2) [of t], of "unat (ucast vec :: u8)" lvl] Cons.prems(2)
    by (simp add: U_def inject_eq)
  have "fold (relm_apic_ipi_deliver 0 vec lvl) (t # ts) S = fold (relm_apic_ipi_deliver 0 vec lvl) ts U"
    by (simp add: relm_apic_ipi_deliver_def U_def)
  then have "vecs (irr_words (apic (fold (relm_apic_ipi_deliver 0 vec lvl) (t # ts) S c))) =
      (if c \<in> set ts then insert (unat (ucast vec :: u8)) (vecs (irr_words (apic (U c)))) else vecs (irr_words (apic (U c))))"
    using Cons.IH [of U, OF _ w] Cons.prems(1) by (simp only: distinct.simps)
  then show ?case using Cons.prems(1) unfolding irr by auto
qed simp

text \<open>Who an interrupt command addresses, by the fields of the architecture: bits 19:18 the shorthand,
  bit 11 the destination mode, bits 31:24 of the high word the destination.\<close>

definition ipi_addressed :: "nat \<Rightarrow> u32 \<Rightarrow> u32 \<Rightarrow> nat \<Rightarrow> virt_apic \<Rightarrow> bool" where
  "ipi_addressed me low high c a \<longleftrightarrow>
     (case (bit low 19, bit low 18) of (False, True) \<Rightarrow> c = me | (True, False) \<Rightarrow> True | (True, True) \<Rightarrow> c \<noteq> me
      | (False, False) \<Rightarrow> if bit low 11 then \<exists>k<8. bit high (24 + k) \<and> bit (ldr a) (24 + k)
                         else drop_bit 24 (apic_id a) = drop_bit 24 high)"

lemma and_single_bit: "n < 32 \<Longrightarrow> (x :: u32) AND push_bit n 1 = (if bit x n then push_bit n 1 else 0)"
  by (rule bit_word_eqI) (auto simp: bit_exp_iff bit_and_iff)

lemma shorthand_eq: "low AND 0xC0000 = (if bit low 19 then 0x80000 else 0) OR (if bit low 18 then 0x40000 else (0 :: u32))"
proof -
  have "low AND 0xC0000 = (low AND 0x80000) OR (low AND 0x40000)" by (simp flip: bit.conj_disj_distrib)
  then show ?thesis using and_single_bit [of 19 low] and_single_bit [of 18 low] by (simp split: if_splits)
qed

lemma ucast_drop_24: "((ucast (drop_bit 24 (x :: u32)) :: u8) = ucast (drop_bit 24 y)) \<longleftrightarrow> drop_bit 24 x = drop_bit 24 y"
proof -
  have "ucast (ucast (drop_bit 24 w) :: u8) = drop_bit 24 w" for w :: u32
    by (rule bit_word_eqI) (auto simp: bit_simps dest: bit_imp_le_length)
  then show ?thesis by metis
qed

lemma ipi_matches_iff: "ipi_matches me low high c vc = ipi_addressed me low high c (apic vc)"
proof -
  have l: "(ucast (drop_bit 24 (x :: u32)) AND ucast (drop_bit 24 y) = (0 :: u8)) \<longleftrightarrow> \<not> (\<exists>k<8. bit y (24 + k) \<and> bit x (24 + k))"
    for x y by (auto simp: bit_eq_iff bit_simps)
  have m: "(low AND 0x800 = 0) \<longleftrightarrow> \<not> bit low 11" using and_single_bit [of 11 low] by (simp split: if_splits)
  show ?thesis
    unfolding ipi_matches_def ipi_addressed_def Let_def shorthand_eq m l ucast_drop_24 by auto
qed

text \<open>A fixed interprocessor interrupt, sent by writing the interrupt command register, becomes
  pending in exactly the present vCPUs its destination names (self, everyone, everyone else, a
  physical identifier or a logical set) and in no other.\<close>

theorem fixed_ipi_targets:
  assumes words: "\<forall>c. words_ok (apic (S c))" and fixed_mode: "v AND 0x700 = 0"
    and arr: "length (present arr) \<le> RELM_MAX_VCPUS"
    and w: "relm_apic_write now (Some arr) me 0x300 v S = (r, S')"
  shows "vecs (irr_words (apic (S' c))) =
    (if c \<in> set (present arr) \<and> ipi_addressed me v (icr_high (apic (S me))) c (apic (S c))
     then insert (unat (v AND 0xFF)) (vecs (irr_words (apic (S c)))) else vecs (irr_words (apic (S c))))"
proof -
  define a where "a = relm_vapic_sync_reg 0x300 (v AND NOT 0x1000) ((apic (S me))\<lparr>icr_low := v\<rparr>)"
  define T where "T = S(me := (S me)\<lparr>apic := a\<rparr>)"
  have same: "apic_id (apic (T c)) = apic_id (apic (S c))" "ldr (apic (T c)) = ldr (apic (S c))"
    "irr_words (apic (T c)) = irr_words (apic (S c))" "words_ok (apic (T c))" for c
    using words by (simp_all add: T_def a_def sync_eq words_ok_def)
  have hi: "icr_high a = icr_high (apic (S me))" by (simp add: a_def sync_eq)
  have vec: "unat (ucast (v AND 0xFF) :: u8) = unat (v AND 0xFF)"
  proof -
    have "v AND 0xFF \<le> 0xFF" by (rule word_and_le1)
    then have "unat (v AND 0xFF) < 256" by (simp add: word_le_nat_alt)
    then show ?thesis by (simp add: unsigned_ucast_eq take_bit_nat_eq_self_iff)
  qed
  have "relm_apic_handle_icr_write (Some arr) me v S = fold (relm_apic_ipi_deliver (v AND 0x700) (v AND 0xFF) (v AND 0x8000 \<noteq> 0))
      (filter (\<lambda>c. ipi_matches me v (icr_high (apic (S me))) c (T c)) (present arr)) T"
    unfolding relm_apic_handle_icr_write_def Let_def a_def [symmetric] T_def [symmetric]
      relm_apic_ipi_resolve_targets_def option.case ipi_targets_filter [OF arr] hi by (rule refl)
  then have "S' = fold (relm_apic_ipi_deliver 0 (v AND 0xFF) (v AND 0x8000 \<noteq> 0))
      (filter (\<lambda>c. ipi_matches me v (icr_high (apic (S me))) c (T c)) (present arr)) T"
    using w fixed_mode by (simp add: relm_apic_write_def)
  moreover have "distinct (present arr)" using arr by (cases "present arr") (auto simp: le_Suc_eq)
  ultimately show ?thesis
    using deliver_fixed [of "filter (\<lambda>c. ipi_matches me v (icr_high (apic (S me))) c (T c)) (present arr)" T] same
    by (simp add: vec ipi_matches_cong [of "T c" "S c"] ipi_matches_iff [symmetric])
qed

theorem fixed_ipi_targets_witness:
  "0x31 \<in> vecs (irr_words (apic (snd (relm_apic_write 0 (Some [Some 0]) 0 0x300 0x40031 (\<lambda>_. demo_vcpu)) 0)))"
proof -
  let ?r = "relm_apic_write 0 (Some [Some 0]) 0 0x300 0x40031 (\<lambda>_. demo_vcpu)"
  have "vecs (irr_words (apic (snd ?r 0))) = (if 0 \<in> set (present [Some 0]) \<and>
      ipi_addressed 0 0x40031 (icr_high (apic demo_vcpu)) 0 (apic demo_vcpu)
     then insert (unat ((0x40031 :: u32) AND 0xFF)) (vecs (irr_words (apic demo_vcpu)))
     else vecs (irr_words (apic demo_vcpu)))"
    by (rule fixed_ipi_targets [where now = 0 and r = "fst ?r"])
      (simp_all add: demo_vcpu_words present_def)
  then show ?thesis by (simp add: present_def ipi_addressed_def bit_numeral_rec)
qed

end
