(* ===== verification/Relm_E820.thy ===== *)
theory Relm_E820
  imports Relm_Prelude
begin

text \<open>
  The physical memory map handed to the guest firmware (src/firmware/e820.c): the bounded entry
  table, the builder, and the byte image of the table that the firmware-configuration device
  serves. The theorems: within the supported range of RAM sizes the entries are disjoint and mark
  exactly the backed addresses as usable, and what happens to a guest with more RAM.
\<close>

section \<open>Data\<close>

record e820_entry =
  e_addr :: u64
  e_size :: u64
  e_type :: u32

abbreviation (input) E820_TYPE_RAM :: u32 where "E820_TYPE_RAM \<equiv> 1"
abbreviation (input) E820_TYPE_RESERVED :: u32 where "E820_TYPE_RESERVED \<equiv> 2"
abbreviation (input) RELM_E820_MAX_ENTRIES :: nat where "RELM_E820_MAX_ENTRIES \<equiv> 8"
abbreviation (input) RELM_E820_CONV_MEM_END :: u64 where "RELM_E820_CONV_MEM_END \<equiv> 0xA0000"
abbreviation (input) RELM_E820_VGA_RESERVED_BASE :: u64 where "RELM_E820_VGA_RESERVED_BASE \<equiv> 0xA0000"
abbreviation (input) RELM_E820_VGA_RESERVED_END :: u64 where "RELM_E820_VGA_RESERVED_END \<equiv> 0x100000"
abbreviation (input) RELM_E820_EXTENDED_BASE :: u64 where "RELM_E820_EXTENDED_BASE \<equiv> 0x100000"
abbreviation (input) RELM_E820_BIOS_ROM_BASE :: u64 where "RELM_E820_BIOS_ROM_BASE \<equiv> 0xFFFE0000"
abbreviation (input) RELM_E820_BIOS_ROM_SIZE :: u64 where "RELM_E820_BIOS_ROM_SIZE \<equiv> 0x20000"

record relm_e820_map =
  e820_entries :: "e820_entry list"
  e820_count :: nat

definition blank_e820_map :: relm_e820_map where
  "blank_e820_map = \<lparr>e820_entries = replicate RELM_E820_MAX_ENTRIES \<lparr>e_addr = 0, e_size = 0, e_type = 0\<rparr>, e820_count = 0\<rparr>"

section \<open>Operations\<close>

definition relm_e820_add :: "u64 \<Rightarrow> u64 \<Rightarrow> u32 \<Rightarrow> relm_e820_map \<Rightarrow> unit res \<times> relm_e820_map" where
  "relm_e820_add addr sz ty mp =
     (if e820_count mp \<ge> RELM_E820_MAX_ENTRIES then (Inl ENOSPC, mp)
      else (Inr (), mp\<lparr>e820_entries := (e820_entries mp)[e820_count mp := \<lparr>e_addr = addr, e_size = sz, e_type = ty\<rparr>],
                       e820_count := e820_count mp + 1\<rparr>))"

definition relm_e820_build :: "u64 \<Rightarrow> relm_e820_map \<Rightarrow> unit res \<times> relm_e820_map" where
  "relm_e820_build total_ram mp =
     (if total_ram < 2 * 1024 * 1024 then (Inl EINVAL, mp) else
      let mp = blank_e820_map in
      case relm_e820_add 0 RELM_E820_CONV_MEM_END E820_TYPE_RAM mp of
        (Inl e, mp) \<Rightarrow> (Inl e, mp)
      | (Inr _, mp) \<Rightarrow>
       (case relm_e820_add RELM_E820_VGA_RESERVED_BASE (RELM_E820_VGA_RESERVED_END - RELM_E820_VGA_RESERVED_BASE)
               E820_TYPE_RESERVED mp of
          (Inl e, mp) \<Rightarrow> (Inl e, mp)
        | (Inr _, mp) \<Rightarrow>
         (case relm_e820_add RELM_E820_EXTENDED_BASE (total_ram - RELM_E820_EXTENDED_BASE) E820_TYPE_RAM mp of
            (Inl e, mp) \<Rightarrow> (Inl e, mp)
          | (Inr _, mp) \<Rightarrow>
            relm_e820_add RELM_E820_BIOS_ROM_BASE RELM_E820_BIOS_ROM_SIZE E820_TYPE_RESERVED mp)))"

text \<open>The packed entry as it lies in memory: two little-endian 64-bit words and a 32-bit word.\<close>

definition e820_entry_bytes :: "e820_entry \<Rightarrow> u8 list" where
  "e820_entry_bytes e = le_bytes 8 (e_addr e) @ le_bytes 8 (e_size e) @ le_bytes 4 (ucast (e_type e))"

definition e820_bytes :: "relm_e820_map \<Rightarrow> u8 list" where
  "e820_bytes mp = concat (map e820_entry_bytes (take (e820_count mp) (e820_entries mp)))"

section \<open>What the map says\<close>

definition in_entry :: "u64 \<Rightarrow> e820_entry \<Rightarrow> bool" where
  "in_entry x e \<longleftrightarrow> unat (e_addr e) \<le> unat x \<and> unat x < unat (e_addr e) + unat (e_size e)"

definition e820_claims :: "u32 \<Rightarrow> relm_e820_map \<Rightarrow> u64 \<Rightarrow> bool" where
  "e820_claims ty mp x \<longleftrightarrow> (\<exists>e\<in>set (take (e820_count mp) (e820_entries mp)). e_type e = ty \<and> in_entry x e)"

definition e820_layout :: "u64 \<Rightarrow> e820_entry list" where
  "e820_layout ram =
     [\<lparr>e_addr = 0, e_size = 0xA0000, e_type = 1\<rparr>, \<lparr>e_addr = 0xA0000, e_size = 0x60000, e_type = 2\<rparr>,
      \<lparr>e_addr = 0x100000, e_size = ram - 0x100000, e_type = 1\<rparr>, \<lparr>e_addr = 0xFFFE0000, e_size = 0x20000, e_type = 2\<rparr>]"

lemma relm_e820_build_ok:
  assumes "0x200000 \<le> ram"
  shows "fst (relm_e820_build ram mp) = Inr ()"
    and "take (e820_count (snd (relm_e820_build ram mp))) (e820_entries (snd (relm_e820_build ram mp))) = e820_layout ram"
    and "e820_count (snd (relm_e820_build ram mp)) = 4"
proof -
  have "\<not> ram < 0x200000" using assms by simp
  then show "fst (relm_e820_build ram mp) = Inr ()"
    and "take (e820_count (snd (relm_e820_build ram mp))) (e820_entries (snd (relm_e820_build ram mp))) = e820_layout ram"
    and "e820_count (snd (relm_e820_build ram mp)) = 4"
    by (simp_all add: relm_e820_build_def relm_e820_add_def blank_e820_map_def e820_layout_def numeral_eq_Suc)
qed

lemma relm_e820_build_small: "ram < 0x200000 \<Longrightarrow> relm_e820_build ram mp = (Inl EINVAL, mp)"
  by (simp add: relm_e820_build_def)

lemma e820_bytes_build:
  "0x200000 \<le> ram \<Longrightarrow> e820_bytes (snd (relm_e820_build ram mp)) = concat (map e820_entry_bytes (e820_layout ram))"
  by (simp add: e820_bytes_def relm_e820_build_ok(2))

lemma e820_claims_build:
  assumes "0x200000 \<le> ram"
  shows "e820_claims ty (snd (relm_e820_build ram mp)) x \<longleftrightarrow> (\<exists>e\<in>set (e820_layout ram). e_type e = ty \<and> in_entry x e)"
  using assms by (simp add: e820_claims_def relm_e820_build_ok(2))

lemma unat_ext_size: "0x200000 \<le> ram \<Longrightarrow> unat (ram - 0x100000 :: u64) = unat ram - 0x100000"
  by (subst unat_sub) (auto simp: word_le_nat_alt)

text \<open>(C35) For every RAM size from 2 MiB up to the start of the firmware ROM, building the map
  succeeds, an address is marked usable exactly when it is below the RAM size and outside the legacy
  hole from 640 KiB to 1 MiB, it is marked reserved exactly in that hole and in the ROM, and no
  address is marked both.\<close>

theorem e820_map_exact:
  assumes "0x200000 \<le> ram" "ram \<le> 0xFFFE0000"
  shows "case relm_e820_build ram mp of (r, mp') \<Rightarrow> r = Inr () \<and>
      (e820_claims 1 mp' x \<longleftrightarrow> x < ram \<and> \<not> (0xA0000 \<le> x \<and> x < 0x100000)) \<and>
      (e820_claims 2 mp' x \<longleftrightarrow> 0xA0000 \<le> x \<and> x < 0x100000 \<or> 0xFFFE0000 \<le> x \<and> x < 0x100000000) \<and>
      \<not> (e820_claims 1 mp' x \<and> e820_claims 2 mp' x)"
proof -
  let ?mp = "snd (relm_e820_build ram mp)"
  have r: "0x200000 \<le> unat ram" "unat ram \<le> 0xFFFE0000" using assms by (simp_all add: word_le_nat_alt)
  have A: "e820_claims 1 ?mp x \<longleftrightarrow> x < ram \<and> \<not> (0xA0000 \<le> x \<and> x < 0x100000)"
    unfolding e820_claims_build [OF assms(1)] using r
    by (auto simp: e820_layout_def in_entry_def unat_ext_size [OF assms(1)] word_le_nat_alt word_less_nat_alt)
  have B: "e820_claims 2 ?mp x \<longleftrightarrow> 0xA0000 \<le> x \<and> x < 0x100000 \<or> 0xFFFE0000 \<le> x \<and> x < 0x100000000"
    unfolding e820_claims_build [OF assms(1)]
    by (auto simp: e820_layout_def in_entry_def word_le_nat_alt word_less_nat_alt)
  have C: "\<not> (e820_claims 1 ?mp x \<and> e820_claims 2 ?mp x)"
    unfolding A B using r by (auto simp: word_le_nat_alt word_less_nat_alt)
  from relm_e820_build_ok(1) [OF assms(1), of mp] A B C show ?thesis by (simp only: case_prod_unfold simp_thms)
qed

theorem e820_map_exact_witness:
  "fst (relm_e820_build 0x8000000 blank_e820_map) = Inr () \<and>
   e820_claims 1 (snd (relm_e820_build 0x8000000 blank_e820_map)) 0x7FFFFFF \<and>
   \<not> e820_claims 1 (snd (relm_e820_build 0x8000000 blank_e820_map)) 0xB8000"
  using e820_map_exact [of "0x8000000" "0x7FFFFFF" blank_e820_map] e820_map_exact [of "0x8000000" "0xB8000" blank_e820_map]
  by (simp add: case_prod_unfold)

text \<open>A guest with more RAM than fits below the firmware ROM still gets a map, and that map
  marks the first address of the ROM both as usable RAM and as reserved.\<close>

theorem e820_rom_overlap:
  assumes "0xFFFE0000 < ram"
  shows "case relm_e820_build ram mp of (r, mp') \<Rightarrow>
      r = Inr () \<and> e820_claims 1 mp' 0xFFFE0000 \<and> e820_claims 2 mp' 0xFFFE0000"
proof -
  have r: "0x200000 \<le> ram" "0xFFFE0000 < unat ram" using assms by (simp_all add: word_le_nat_alt word_less_nat_alt)
  have "e820_claims 1 (snd (relm_e820_build ram mp)) 0xFFFE0000 \<and> e820_claims 2 (snd (relm_e820_build ram mp)) 0xFFFE0000"
    unfolding e820_claims_build [OF r(1)] using r(2)
    by (auto simp: e820_layout_def in_entry_def unat_ext_size [OF r(1)])
  with relm_e820_build_ok(1) [OF r(1), of mp] show ?thesis by (simp only: case_prod_unfold simp_thms)
qed

theorem e820_rom_overlap_witness:
  "e820_claims 1 (snd (relm_e820_build 0x100000000 blank_e820_map)) 0xFFFE0000 \<and>
   e820_claims 2 (snd (relm_e820_build 0x100000000 blank_e820_map)) 0xFFFE0000"
  using e820_rom_overlap [of "0x100000000" blank_e820_map] by (simp add: case_prod_unfold)

end
