(* ===== verification/Relm_Fw_Cfg.thy ===== *)
theory Relm_Fw_Cfg
  imports Relm_E820 Relm_Host Relm_Mmio
begin

text \<open>
  The firmware-configuration device (src/firmware/fw_cfg.c): the registry of keyed items, the named
  files and their directory, the population of the registry for a VM, and the two-port protocol
  through which the guest firmware reads it. The abstraction \<open>contents\<close> is the finite map from keys
  to byte strings that the device promises; registration refines map update, and selecting a key and
  reading bytes delivers exactly the promised string, followed by zeroes.
\<close>

section \<open>Data\<close>

abbreviation (input) FW_CFG_MAX_ITEMS :: nat where "FW_CFG_MAX_ITEMS \<equiv> 32"
abbreviation (input) FW_CFG_MAX_NAME_LEN :: nat where "FW_CFG_MAX_NAME_LEN \<equiv> 55"
abbreviation (input) FW_CFG_MAX_ITEM_SIZE :: u32 where "FW_CFG_MAX_ITEM_SIZE \<equiv> 4096"
abbreviation (input) FW_CFG_FILE_DIR :: u16 where "FW_CFG_FILE_DIR \<equiv> 0x19"
abbreviation (input) FW_CFG_FILE_FIRST :: u16 where "FW_CFG_FILE_FIRST \<equiv> 0x8000"
abbreviation (input) FW_CFG_PORT_SEL :: u16 where "FW_CFG_PORT_SEL \<equiv> 0x510"
abbreviation (input) FW_CFG_PORT_DATA :: u16 where "FW_CFG_PORT_DATA \<equiv> 0x511"

text \<open>\<open>fi_data\<close> is the private copy of the payload, \<open>None\<close> the null pointer.\<close>

record fw_cfg_item =
  fi_key :: u16
  fi_name :: string
  fi_data :: "u8 list option"
  fi_size :: u32
  fi_cursor :: u32
  fi_in_use :: bool

text \<open>\<open>fw_selected\<close> is the index of the selected item: the C pointer only ever points into \<open>items\<close>.\<close>

record fw_cfg_device =
  fw_items :: "fw_cfg_item list"
  item_count :: nat
  fw_selected :: "nat option"
  next_file_key :: u16
  fw_e820 :: relm_e820_map
  fw_initialized :: bool

definition blank_item :: fw_cfg_item where
  "blank_item = \<lparr>fi_key = 0, fi_name = [], fi_data = None, fi_size = 0, fi_cursor = 0, fi_in_use = False\<rparr>"

section \<open>Operations\<close>

definition relm_fw_cfg_init :: fw_cfg_device where
  "relm_fw_cfg_init = \<lparr>fw_items = replicate FW_CFG_MAX_ITEMS blank_item, item_count = 0, fw_selected = None,
     next_file_key = FW_CFG_FILE_FIRST, fw_e820 = blank_e820_map, fw_initialized = True\<rparr>"

definition relm_fw_cfg_destroy :: "fw_cfg_device \<Rightarrow> fw_cfg_device" where
  "relm_fw_cfg_destroy fw = fw\<lparr>
     fw_items := map (\<lambda>it. if fi_in_use it \<and> fi_data it \<noteq> None then it\<lparr>fi_data := None\<rparr> else it) (fw_items fw),
     item_count := 0, fw_selected := None, fw_initialized := False\<rparr>"

text \<open>The device pointer is the address of a member of a live structure, so the null test has no
  counterpart. The payload is the byte string \<open>data\<close> of which the first \<open>sz\<close> bytes are copied.\<close>

definition relm_fw_cfg_register ::
    "u16 \<Rightarrow> string option \<Rightarrow> u8 list option \<Rightarrow> u32 \<Rightarrow> fw_cfg_device \<Rightarrow> host \<Rightarrow> unit res \<times> fw_cfg_device \<times> host" where
  "relm_fw_cfg_register key name data sz fw h =
     (if \<not> fw_initialized fw then (Inl EINVAL, fw, h)
      else if sz > FW_CFG_MAX_ITEM_SIZE then (Inl EINVAL, fw, h)
      else if item_count fw \<ge> FW_CFG_MAX_ITEMS then (Inl ENOSPC, fw, h)
      else if \<exists>it\<in>set (take (item_count fw) (fw_items fw)). fi_in_use it \<and> fi_key it = key then (Inl EEXIST, fw, h)
      else let i = item_count fw;
               (ok, payload, h) = (case data of None \<Rightarrow> (True, None, h)
                 | Some bs \<Rightarrow> if sz > 0 then (case kzalloc h of (ok, h) \<Rightarrow> (ok, Some (take (unat sz) bs), h))
                             else (True, None, h))
           in if \<not> ok then (Inl ENOMEM, fw\<lparr>fw_items := (fw_items fw)[i := (fw_items fw ! i)\<lparr>fi_data := None\<rparr>]\<rparr>, h)
              else (Inr (), fw\<lparr>
                fw_items := (fw_items fw)[i := \<lparr>fi_key = key,
                   fi_name = (case name of None \<Rightarrow> [] | Some nm \<Rightarrow> take FW_CFG_MAX_NAME_LEN nm),
                   fi_data = payload, fi_size = sz, fi_cursor = 0, fi_in_use = True\<rparr>],
                item_count := i + 1\<rparr>, h))"

definition relm_fw_cfg_register_file ::
    "string option \<Rightarrow> u8 list option \<Rightarrow> u32 \<Rightarrow> fw_cfg_device \<Rightarrow> host \<Rightarrow> u16 res \<times> fw_cfg_device \<times> host" where
  "relm_fw_cfg_register_file name data sz fw h =
     (case name of None \<Rightarrow> (Inl EINVAL, fw, h)
      | Some nm \<Rightarrow>
        if nm = [] then (Inl EINVAL, fw, h)
        else if length nm > FW_CFG_MAX_NAME_LEN then (Inl EINVAL, fw, h)
        else let key = next_file_key fw; fw = fw\<lparr>next_file_key := key + 1\<rparr> in
          case relm_fw_cfg_register key (Some nm) data sz fw h of
            (Inl e, fw, h) \<Rightarrow> (Inl e, fw, h)
          | (Inr _, fw, h) \<Rightarrow> (Inr key, fw, h))"

definition be_bytes :: "nat \<Rightarrow> u64 \<Rightarrow> u8 list" where
  "be_bytes n v = rev (le_bytes n v)"

text \<open>A packed \<open>struct fw_cfg_file\<close>: big-endian size and key, and the zero-padded name.\<close>

definition file_entry_bytes :: "fw_cfg_item \<Rightarrow> u8 list" where
  "file_entry_bytes it = be_bytes 4 (ucast (fi_size it)) @ be_bytes 2 (ucast (fi_key it)) @ be_bytes 2 0
     @ map of_char (strscpy 56 (fi_name it)) @ replicate (56 - length (strscpy 56 (fi_name it))) 0"

definition is_file :: "fw_cfg_item \<Rightarrow> bool" where
  "is_file it \<longleftrightarrow> fi_in_use it \<and> fi_key it \<ge> FW_CFG_FILE_FIRST"

definition file_dir_bytes :: "fw_cfg_item list \<Rightarrow> u8 list" where
  "file_dir_bytes its = be_bytes 4 (word_of_nat (length (filter is_file its))) @ concat (map file_entry_bytes (filter is_file its))"

definition relm_fw_cfg_build_file_dir :: "fw_cfg_device \<Rightarrow> host \<Rightarrow> unit res \<times> fw_cfg_device \<times> host" where
  "relm_fw_cfg_build_file_dir fw h =
     (let its = take (item_count fw) (fw_items fw);
          dir_size = 4 + word_of_nat (length (filter is_file its)) * 64;
          (ok, h) = kzalloc h
      in if \<not> ok then (Inl ENOMEM, fw, h)
         else case relm_fw_cfg_register FW_CFG_FILE_DIR None (Some (file_dir_bytes its)) dir_size fw h of
           (Inl e, fw, h) \<Rightarrow> if e = EEXIST then (Inr (), fw, h) else (Inl e, fw, h)
         | (Inr _, fw, h) \<Rightarrow> (Inr (), fw, h))"

text \<open>A sequence of registrations of unnamed items that stops at the first failure.\<close>

fun register_items :: "(u16 \<times> u8 list option) list \<Rightarrow> fw_cfg_device \<Rightarrow> host \<Rightarrow> unit res \<times> fw_cfg_device \<times> host" where
  "register_items [] fw h = (Inr (), fw, h)"
| "register_items ((key, data) # its) fw h =
     (case relm_fw_cfg_register key None data (case data of None \<Rightarrow> 0 | Some bs \<Rightarrow> word_of_nat (length bs)) fw h of
        (Inl e, fw, h) \<Rightarrow> (Inl e, fw, h)
      | (Inr _, fw, h) \<Rightarrow> register_items its fw h)"

text \<open>The well-known items in the order of the code: signature, interface id, UUID, RAM size,
  no-graphic flag, CPU count, machine id, the five direct-boot items, boot device, NUMA, boot menu
  and the CPU limit.\<close>

definition setup_items :: "u64 \<Rightarrow> u32 \<Rightarrow> (u16 \<times> u8 list option) list" where
  "setup_items total_ram online =
     (let ram_size_le = (ucast total_ram :: u32);
          nb_cpus_le = (if (ucast online :: u16) = 0 then 1 else ucast online) :: u16;
          zero32 = replicate 4 0
      in [(0x00, Some [0x51, 0x45, 0x4D, 0x55]), (0x01, Some (le_bytes 4 1)), (0x02, Some (replicate 16 0)),
          (0x03, Some (le_bytes 4 (ucast ram_size_le))), (0x04, Some (le_bytes 2 1)),
          (0x05, Some (le_bytes 2 (ucast nb_cpus_le))), (0x06, Some (le_bytes 2 1)),
          (0x07, Some zero32), (0x08, Some zero32), (0x09, Some zero32), (0x0A, Some zero32), (0x0B, Some zero32),
          (0x0C, Some [0x63]), (0x0D, None), (0x0E, Some (le_bytes 2 0)), (0x0F, Some (le_bytes 2 (ucast nb_cpus_le)))])"

definition relm_fw_cfg_setup :: "u64 \<Rightarrow> u32 \<Rightarrow> fw_cfg_device \<Rightarrow> host \<Rightarrow> unit res \<times> fw_cfg_device \<times> host" where
  "relm_fw_cfg_setup total_ram online fw h =
     (if \<not> fw_initialized fw then (Inl EINVAL, fw, h)
      else case register_items (setup_items total_ram online) fw h of
        (Inl e, fw, h) \<Rightarrow> (Inl e, fw, h)
      | (Inr _, fw, h) \<Rightarrow>
       (case relm_e820_build total_ram (fw_e820 fw) of
          (Inl e, mp) \<Rightarrow> (Inl e, fw\<lparr>fw_e820 := mp\<rparr>, h)
        | (Inr _, mp) \<Rightarrow>
         (case relm_fw_cfg_register_file (Some ''etc/e820'') (Some (e820_bytes mp)) (word_of_nat (e820_count mp * 20))
                 (fw\<lparr>fw_e820 := mp\<rparr>) h of
            (Inl e, fw, h) \<Rightarrow> (Inl e, fw, h)
          | (Inr _, fw, h) \<Rightarrow>
           (case relm_fw_cfg_register_file (Some ''etc/boot-fail-wait'') (Some (replicate 4 0)) 4 fw h of
              (Inl e, fw, h) \<Rightarrow> (Inl e, fw, h)
            | (Inr _, fw, h) \<Rightarrow> relm_fw_cfg_build_file_dir fw h))))"

text \<open>The first live item with the key is selected and rewound.\<close>

definition item_index :: "u16 \<Rightarrow> fw_cfg_device \<Rightarrow> nat option" where
  "item_index key fw = find (\<lambda>i. fi_in_use (fw_items fw ! i) \<and> fi_key (fw_items fw ! i) = key) [0..<item_count fw]"

definition relm_fw_cfg_select :: "u16 \<Rightarrow> fw_cfg_device \<Rightarrow> fw_cfg_device" where
  "relm_fw_cfg_select key fw =
     (case item_index key fw of None \<Rightarrow> fw\<lparr>fw_selected := None\<rparr>
      | Some i \<Rightarrow> fw\<lparr>fw_selected := Some i, fw_items := (fw_items fw)[i := (fw_items fw ! i)\<lparr>fi_cursor := 0\<rparr>]\<rparr>)"

definition relm_fw_cfg_read :: "fw_cfg_device \<Rightarrow> u8 \<times> fw_cfg_device" where
  "relm_fw_cfg_read fw =
     (case fw_selected fw of None \<Rightarrow> (0, fw)
      | Some i \<Rightarrow> let it = fw_items fw ! i in
         case fi_data it of None \<Rightarrow> (0, fw)
         | Some bs \<Rightarrow> if fi_cursor it < fi_size it
                     then (bs ! unat (fi_cursor it),
                           fw\<lparr>fw_items := (fw_items fw)[i := it\<lparr>fi_cursor := fi_cursor it + 1\<rparr>]\<rparr>)
                     else (0, fw))"

text \<open>The byte loop of a data-port read: byte \<open>b\<close> goes to bits \<open>8 * b\<close> and up.\<close>

fun read_loop :: "nat \<Rightarrow> nat \<Rightarrow> u32 \<Rightarrow> fw_cfg_device \<Rightarrow> u32 \<times> fw_cfg_device" where
  "read_loop b 0 result fw = (result, fw)"
| "read_loop b (Suc n) result fw =
     (case relm_fw_cfg_read fw of (byte, fw) \<Rightarrow> read_loop (b + 1) n (result OR push_bit (b * 8) (ucast byte)) fw)"

definition relm_fw_cfg_handle_io :: "u16 \<Rightarrow> bool \<Rightarrow> nat \<Rightarrow> u32 \<Rightarrow> fw_cfg_device \<Rightarrow> int \<times> u32 \<times> fw_cfg_device" where
  "relm_fw_cfg_handle_io port is_write sz value fw =
     (if port = FW_CFG_PORT_SEL then
        (if is_write then (1, value, relm_fw_cfg_select (ucast (value AND 0xFFFF)) fw) else (1, 0, fw))
      else if port = FW_CFG_PORT_DATA then
        (if \<not> is_write then (case read_loop 0 sz 0 fw of (result, fw) \<Rightarrow> (1, result, fw)) else (1, value, fw))
      else (1, value, fw))"


section \<open>The registry as a map from keys to byte strings\<close>

abbreviation live_items :: "fw_cfg_device \<Rightarrow> fw_cfg_item list" where
  "live_items fw \<equiv> take (item_count fw) (fw_items fw)"

definition payload :: "fw_cfg_item \<Rightarrow> u8 list" where
  "payload it = (case fi_data it of None \<Rightarrow> [] | Some bs \<Rightarrow> bs)"

definition contents :: "fw_cfg_device \<Rightarrow> u16 \<rightharpoonup> u8 list" where
  "contents fw = map_of (map (\<lambda>it. (fi_key it, payload it)) (live_items fw))"

definition item_ok :: "fw_cfg_item \<Rightarrow> bool" where
  "item_ok it \<longleftrightarrow> fi_in_use it \<and> fi_size it \<le> FW_CFG_MAX_ITEM_SIZE \<and>
     (case fi_data it of None \<Rightarrow> True | Some bs \<Rightarrow> length bs = unat (fi_size it))"

definition fw_inv :: "fw_cfg_device \<Rightarrow> bool" where
  "fw_inv fw \<longleftrightarrow> length (fw_items fw) = FW_CFG_MAX_ITEMS \<and> item_count fw \<le> FW_CFG_MAX_ITEMS \<and>
     (\<forall>it\<in>set (live_items fw). item_ok it) \<and> distinct (map fi_key (live_items fw)) \<and>
     (\<forall>i. fw_selected fw = Some i \<longrightarrow> i < item_count fw)"

definition new_item :: "u16 \<Rightarrow> string option \<Rightarrow> u8 list option \<Rightarrow> u32 \<Rightarrow> fw_cfg_item" where
  "new_item key name data sz = \<lparr>fi_key = key,
     fi_name = (case name of None \<Rightarrow> [] | Some nm \<Rightarrow> take FW_CFG_MAX_NAME_LEN nm),
     fi_data = (case data of None \<Rightarrow> None | Some bs \<Rightarrow> if sz > 0 then Some (take (unat sz) bs) else None),
     fi_size = sz, fi_cursor = 0, fi_in_use = True\<rparr>"

definition bytes_of :: "u8 list option \<Rightarrow> u32 \<Rightarrow> u8 list" where
  "bytes_of data sz = (case data of None \<Rightarrow> [] | Some bs \<Rightarrow> take (unat sz) bs)"

definition data_ok :: "u8 list option \<Rightarrow> u32 \<Rightarrow> bool" where
  "data_ok data sz \<longleftrightarrow> (case data of None \<Rightarrow> True | Some bs \<Rightarrow> unat sz \<le> length bs)"

lemma new_item_simps [simp]:
  "fi_key (new_item k nm d sz) = k" "fi_in_use (new_item k nm d sz)" "fi_size (new_item k nm d sz) = sz"
  "payload (new_item k nm d sz) = bytes_of d sz"
  by (auto simp: new_item_def payload_def bytes_of_def word_greater_zero_iff split: option.split)

lemma item_ok_new: "sz \<le> FW_CFG_MAX_ITEM_SIZE \<Longrightarrow> data_ok d sz \<Longrightarrow> item_ok (new_item k nm d sz)"
  by (auto simp: item_ok_def new_item_def data_ok_def split: option.splits)

lemma contents_dom: "dom (contents fw) = fi_key ` set (live_items fw)"
  by (simp add: contents_def dom_map_of_conv_image_fst image_image)

text \<open>The two outcomes of a registration: refused, with the registry as it was, or appended.\<close>

lemma fw_register_cases:
  assumes r: "relm_fw_cfg_register key name data sz fw h = (res, fw', h')" and inv: "fw_inv fw" and d: "data_ok data sz"
  obtains e where "res = Inl e" "live_items fw' = live_items fw" "fw_inv fw'" "next_file_key fw' = next_file_key fw"
      "fw_initialized fw' = fw_initialized fw" "fw_selected fw' = fw_selected fw"
  | "res = Inr ()" "live_items fw' = live_items fw @ [new_item key name data sz]" "fw_inv fw'"
      "key \<notin> fi_key ` set (live_items fw)" "item_count fw' = item_count fw + 1"
      "next_file_key fw' = next_file_key fw" "fw_initialized fw' = fw_initialized fw" "fw_selected fw' = fw_selected fw"
proof (cases "fw_initialized fw \<and> sz \<le> FW_CFG_MAX_ITEM_SIZE \<and> item_count fw < FW_CFG_MAX_ITEMS \<and>
    \<not> (\<exists>it\<in>set (live_items fw). fi_in_use it \<and> fi_key it = key)")
  case False
  then have "\<exists>e. relm_fw_cfg_register key name data sz fw h = (Inl e, fw, h)"
    by (auto simp: relm_fw_cfg_register_def not_less not_le)
  then obtain e where "relm_fw_cfg_register key name data sz fw h = (Inl e, fw, h)" ..
  with r inv show ?thesis by (intro that(1) [of e]) auto
next
  case True
  have use: "fi_in_use it" if "it \<in> set (live_items fw)" for it using inv that by (auto simp: fw_inv_def item_ok_def)
  have k: "key \<notin> fi_key ` set (live_items fw)" using True use by auto
  have len: "item_count fw < length (fw_items fw)" using inv True by (simp add: fw_inv_def)
  have guards: "fw_initialized fw" "\<not> sz > FW_CFG_MAX_ITEM_SIZE" "\<not> FW_CFG_MAX_ITEMS \<le> item_count fw"
    "\<not> (\<exists>it\<in>set (live_items fw). fi_in_use it \<and> fi_key it = key)" using True by auto
  obtain ok h1 where kz: "kzalloc h = (ok, h1)" by (metis surj_pair)
  consider (fail) "data \<noteq> None" "sz > 0" "\<not> ok"
    | (okay) "fw' = fw\<lparr>fw_items := (fw_items fw)[item_count fw := new_item key name data sz], item_count := item_count fw + 1\<rparr>"
        "res = Inr ()"
    using r guards kz unfolding relm_fw_cfg_register_def new_item_def
    by (auto simp: Let_def split: option.splits if_splits)
  then show ?thesis
  proof cases
    case fail
    then have "fw' = fw\<lparr>fw_items := (fw_items fw)[item_count fw := (fw_items fw ! item_count fw)\<lparr>fi_data := None\<rparr>]\<rparr>"
      "res = Inl ENOMEM"
      using r guards kz unfolding relm_fw_cfg_register_def by (auto simp: Let_def split: option.splits if_splits)
    then show ?thesis using inv by (intro that(1)) (auto simp: fw_inv_def)
  next
    case okay
    have l: "live_items fw' = live_items fw @ [new_item key name data sz]"
      using okay(1) len by (simp add: take_Suc_conv_app_nth)
    moreover have "fw_inv fw'"
      using inv k True item_ok_new [OF _ d, of key name] unfolding fw_inv_def l by (auto simp: okay(1) less_Suc_eq)
    ultimately show ?thesis using okay k by (intro that(2)) auto
  qed
qed

lemma contents_append: "live_items fw' = live_items fw @ [it] \<Longrightarrow> fi_key it \<notin> fi_key ` set (live_items fw) \<Longrightarrow>
  contents fw' = (contents fw)(fi_key it \<mapsto> payload it)"
proof (rule ext)
  fix k assume l: "live_items fw' = live_items fw @ [it]" and n: "fi_key it \<notin> fi_key ` set (live_items fw)"
  have none: "contents fw (fi_key it) = None" using n contents_dom [of fw] by blast
  have "contents fw' k = (map_of [(fi_key it, payload it)] ++ contents fw) k"
    by (simp add: contents_def l)
  also have "\<dots> = ((contents fw)(fi_key it \<mapsto> payload it)) k"
    using none by (auto simp: map_add_def split: option.split)
  finally show "contents fw' k = ((contents fw)(fi_key it \<mapsto> payload it)) k" .
qed


section \<open>Reading: the stream of the selected item\<close>

text \<open>\<open>served bs j\<close> is byte \<open>j\<close> of what the data port delivers for the string \<open>bs\<close>, and \<open>stream\<close>
  the bytes the device is about to deliver.\<close>

definition served :: "u8 list \<Rightarrow> nat \<Rightarrow> u8" where
  "served bs j = (if j < length bs then bs ! j else 0)"

definition stream :: "fw_cfg_device \<Rightarrow> nat \<Rightarrow> u8" where
  "stream fw j = (case fw_selected fw of None \<Rightarrow> 0
     | Some i \<Rightarrow> served (payload (fw_items fw ! i)) (unat (fi_cursor (fw_items fw ! i)) + j))"

lemma live_nth: "fw_inv fw \<Longrightarrow> i < item_count fw \<Longrightarrow> fw_items fw ! i \<in> set (live_items fw)"
  by (metis fw_inv_def le_trans length_take min.absorb2 nth_mem nth_take)

text \<open>Moving the cursor of an item changes neither the promise nor the invariant.\<close>

lemma cursor_update:
  assumes inv: "fw_inv fw" and i: "i < item_count fw"
    and fw': "fw' = fw\<lparr>fw_selected := Some i, fw_items := (fw_items fw)[i := (fw_items fw ! i)\<lparr>fi_cursor := c\<rparr>]\<rparr>"
  shows "fw_inv fw'" "contents fw' = contents fw"
    "stream fw' j = served (payload (fw_items fw ! i)) (unat c + j)"
proof -
  have n: "i < length (fw_items fw)" using inv i by (simp add: fw_inv_def)
  have l: "live_items fw' = (live_items fw)[i := (live_items fw ! i)\<lparr>fi_cursor := c\<rparr>]"
    using i by (simp add: fw' take_update_swap)
  have keys: "map fi_key (live_items fw') = map fi_key (live_items fw)"
    and pl: "map payload (live_items fw') = map payload (live_items fw)"
    unfolding l by (simp_all add: map_update list_update_same_conv payload_def n i)
  have "item_ok (live_items fw ! i)" using inv i live_nth [OF inv i] by (simp add: fw_inv_def)
  then have ok: "item_ok ((live_items fw ! i)\<lparr>fi_cursor := c\<rparr>)" by (simp add: item_ok_def split: option.splits)
  have "\<forall>it\<in>set (live_items fw'). item_ok it"
    unfolding l using inv ok by (auto simp: fw_inv_def dest!: set_update_subset_insert [THEN subsetD])
  with inv i keys show "fw_inv fw'" by (auto simp: fw_inv_def fw')
  have "map (\<lambda>it. (fi_key it, payload it)) its = zip (map fi_key its) (map payload its)" for its
    by (simp add: zip_map_map zip_same_conv_map)
  then show "contents fw' = contents fw" by (simp only: contents_def keys pl)
  show "stream fw' j = served (payload (fw_items fw ! i)) (unat c + j)"
    by (simp add: stream_def fw' n payload_def)
qed

lemma item_index_live:
  assumes "fw_inv fw"
  shows "item_index key fw = Some i \<Longrightarrow> i < item_count fw \<and> contents fw key = Some (payload (fw_items fw ! i))"
    and "item_index key fw = None \<Longrightarrow> contents fw key = None"
proof -
  have n: "item_count fw \<le> length (fw_items fw)" using assms by (simp add: fw_inv_def)
  have keys: "distinct (map fst (map (\<lambda>it. (fi_key it, payload it)) (live_items fw)))"
    using assms by (simp add: fw_inv_def comp_def)
  { assume "item_index key fw = Some i"
    then have i: "i < item_count fw" "fi_key (fw_items fw ! i) = key"
      unfolding item_index_def by (auto simp: find_Some_iff)
    have "(key, payload (fw_items fw ! i)) \<in> set (map (\<lambda>it. (fi_key it, payload it)) (live_items fw))"
      using live_nth [OF assms i(1)] i(2) by force
    with keys i(1) show "i < item_count fw \<and> contents fw key = Some (payload (fw_items fw ! i))"
      unfolding contents_def by (simp only: map_of_eq_Some_iff simp_thms) }
  { assume none: "item_index key fw = None"
    have "fi_key it \<noteq> key" if it: "it \<in> set (live_items fw)" for it
    proof -
      from it obtain j where j: "j < item_count fw" "it = fw_items fw ! j"
        by (metis in_set_conv_nth length_take min_less_iff_conj nth_take)
      from it assms have use: "fi_in_use it" by (auto simp: fw_inv_def item_ok_def)
      have "j \<in> set [0..<item_count fw]" using j(1) by simp
      then have "\<not> (fi_in_use (fw_items fw ! j) \<and> fi_key (fw_items fw ! j) = key)"
        using none unfolding item_index_def find_None_iff by blast
      with use j(2) show ?thesis by blast
    qed
    then have "key \<notin> dom (contents fw)" unfolding contents_dom by (metis imageE)
    then show "contents fw key = None" by (simp add: domIff) }
qed

lemma select_spec:
  assumes "fw_inv fw"
  shows "fw_inv (relm_fw_cfg_select key fw)" "contents (relm_fw_cfg_select key fw) = contents fw"
    "stream (relm_fw_cfg_select key fw) j = served (case contents fw key of None \<Rightarrow> [] | Some bs \<Rightarrow> bs) j"
proof -
  have "fw_inv (relm_fw_cfg_select key fw) \<and> contents (relm_fw_cfg_select key fw) = contents fw \<and>
    stream (relm_fw_cfg_select key fw) j = served (case contents fw key of None \<Rightarrow> [] | Some bs \<Rightarrow> bs) j"
  proof (cases "item_index key fw")
    case None
    with assms item_index_live(2) [OF assms None] show ?thesis
      by (auto simp: relm_fw_cfg_select_def fw_inv_def contents_def stream_def served_def)
  next
    case (Some i)
    note at = item_index_live(1) [OF assms Some]
    show ?thesis using cursor_update(1,2) [OF assms _ refl, of i 0] cursor_update(3) [OF assms _ refl, of i 0 j] at Some
      by (simp add: relm_fw_cfg_select_def)
  qed
  then show "fw_inv (relm_fw_cfg_select key fw)" "contents (relm_fw_cfg_select key fw) = contents fw"
    "stream (relm_fw_cfg_select key fw) j = served (case contents fw key of None \<Rightarrow> [] | Some bs \<Rightarrow> bs) j" by auto
qed

lemma read_spec:
  assumes inv: "fw_inv fw" and r: "relm_fw_cfg_read fw = (b, fw')"
  shows "b = stream fw 0" "stream fw' j = stream fw (Suc j)" "fw_inv fw'" "contents fw' = contents fw"
proof -
  have "b = stream fw 0 \<and> stream fw' j = stream fw (Suc j) \<and> fw_inv fw' \<and> contents fw' = contents fw"
  proof (cases "fw_selected fw")
    case None
    with r inv show ?thesis by (auto simp: relm_fw_cfg_read_def stream_def)
  next
    case (Some i)
    let ?it = "fw_items fw ! i"
    have i: "i < item_count fw" "i < length (fw_items fw)" using inv Some by (auto simp: fw_inv_def)
    have ok: "item_ok ?it" using inv live_nth [OF inv i(1)] by (simp add: fw_inv_def)
    show ?thesis
    proof (cases "fi_data ?it \<noteq> None \<and> fi_cursor ?it < fi_size ?it")
      case True
      then obtain bs where bs: "fi_data ?it = Some bs" "length bs = unat (fi_size ?it)" using ok by (auto simp: item_ok_def)
      have c: "unat (fi_cursor ?it) < length bs" using True bs(2) by (simp add: word_less_nat_alt)
      have "unat (fi_cursor ?it) < 4096" using True ok by (simp add: item_ok_def word_less_nat_alt word_le_nat_alt)
      then have suc: "unat (fi_cursor ?it + 1) = Suc (unat (fi_cursor ?it))" by (simp add: unat_word_ariths)
      have fw': "fw' = fw\<lparr>fw_selected := Some i, fw_items := (fw_items fw)[i := ?it\<lparr>fi_cursor := fi_cursor ?it + 1\<rparr>]\<rparr>"
        and b: "b = bs ! unat (fi_cursor ?it)"
        using r Some True bs by (auto simp: relm_fw_cfg_read_def Let_def)
      show ?thesis using cursor_update(1,2) [OF inv i(1) fw'] cursor_update(3) [OF inv i(1) fw', of j] b c suc Some bs(1)
        by (simp add: stream_def served_def payload_def)
    next
      case False
      then have "b = 0" "fw' = fw" using r Some by (auto simp: relm_fw_cfg_read_def Let_def split: option.splits if_splits)
      moreover have "length (payload ?it) \<le> unat (fi_cursor ?it)"
        using False ok by (auto simp: payload_def item_ok_def word_less_nat_alt split: option.splits)
      ultimately show ?thesis using inv Some by (simp add: stream_def served_def)
    qed
  qed
  then show "b = stream fw 0" "stream fw' j = stream fw (Suc j)" "fw_inv fw'" "contents fw' = contents fw" by auto
qed

lemma read_loop_spec:
  assumes "fw_inv fw" "read_loop b n r fw = (v, fw')"
  shows "v = r OR push_bit (8 * b) (ucast (le_word (map (stream fw) [0..<n])))"
    "stream fw' j = stream fw (n + j)" "fw_inv fw'" "contents fw' = contents fw"
proof -
  have "v = r OR push_bit (8 * b) (ucast (le_word (map (stream fw) [0..<n]))) \<and>
    (\<forall>j. stream fw' j = stream fw (n + j)) \<and> fw_inv fw' \<and> contents fw' = contents fw"
    using assms
  proof (induction n arbitrary: b r fw)
    case 0
    then show ?case by simp
  next
    case (Suc n)
    obtain x f where rd: "relm_fw_cfg_read fw = (x, f)" by (metis surj_pair)
    note s = read_spec [OF Suc.prems(1) rd]
    have "read_loop (b + 1) n (r OR push_bit (b * 8) (ucast x)) f = (v, fw')" using Suc.prems(2) rd by simp
    note ih = Suc.IH [OF s(3) this]
    have m: "map (stream fw) [0..<Suc n] = stream fw 0 # map (stream f) [0..<n]"
      by (simp add: upt_conv_Cons map_Suc_upt [symmetric] s(2) comp_def del: upt_Suc)
    have "ucast x OR push_bit 8 (ucast w) = (ucast (ucast x OR push_bit 8 w :: u64) :: u32)" for w :: u64
      by (rule bit_word_eqI) (auto simp: bit_simps)
    moreover have "push_bit (b * 8) y OR push_bit (8 * (b + 1)) z = push_bit (8 * b) (y OR push_bit 8 z)" for y z :: u32
      by (simp add: push_bit_or push_bit_push_bit algebra_simps)
    ultimately have "push_bit (b * 8) (ucast x) OR push_bit (8 * (b + 1)) (ucast (le_word (map (stream f) [0..<n])))
        = (push_bit (8 * b) (ucast (le_word (map (stream fw) [0..<Suc n]))) :: u32)"
      unfolding m s(1) le_word.simps by (simp only:)
    with ih have "v = r OR push_bit (8 * b) (ucast (le_word (map (stream fw) [0..<Suc n])))" by (simp only: or.assoc)
    with ih s(2,4) show ?case by simp
  qed
  then show "v = r OR push_bit (8 * b) (ucast (le_word (map (stream fw) [0..<n])))"
    "stream fw' j = stream fw (n + j)" "fw_inv fw'" "contents fw' = contents fw" by auto
qed


section \<open>The port protocol\<close>

text \<open>Successive reads of the data port with the given operand sizes.\<close>

fun data_reads :: "nat list \<Rightarrow> fw_cfg_device \<Rightarrow> u32 list \<times> fw_cfg_device" where
  "data_reads [] fw = ([], fw)"
| "data_reads (n # ns) fw = (case relm_fw_cfg_handle_io FW_CFG_PORT_DATA False n 0 fw of (_, v, fw) \<Rightarrow>
     (case data_reads ns fw of (vs, fw) \<Rightarrow> (v # vs, fw)))"

text \<open>The bytes a guest stores from these values, each operand in its own size.\<close>

definition operand_bytes :: "nat list \<Rightarrow> u32 list \<Rightarrow> u8 list" where
  "operand_bytes ns vs = concat (map2 (\<lambda>n v. le_bytes n (ucast v)) ns vs)"

lemma le_bytes_or_push: "le_bytes n (ucast (b :: u8) OR push_bit 8 w) = (case n of 0 \<Rightarrow> [] | Suc m \<Rightarrow> b # le_bytes m w)"
  if "take_bit 56 w = w" for w :: u64
proof (cases n)
  case (Suc m)
  have "drop_bit 8 (ucast b OR push_bit 8 w) = w"
  proof (rule bit_word_eqI)
    fix k assume "k < LENGTH(64)"
    moreover have "bit w k \<Longrightarrow> k < 56" using that by (metis bit_take_bit_iff)
    ultimately show "bit (drop_bit 8 (ucast b OR push_bit 8 w)) k = bit w k"
      by (auto simp: bit_simps dest: bit_imp_le_length)
  qed
  moreover have "ucast (ucast b OR push_bit 8 w) = b" by (rule bit_word_eqI) (auto simp: bit_simps)
  ultimately show ?thesis using Suc by simp
qed simp

lemma take_bit_le_word: "take_bit (8 * length bs) (le_word bs) = le_word bs"
proof (induction bs)
  case (Cons b bs)
  have "bit (le_word bs) k \<Longrightarrow> k < 8 * length bs" for k using Cons by (metis bit_take_bit_iff)
  then have "bit (le_word bs) (k - 8) \<Longrightarrow> 8 \<le> k \<Longrightarrow> k < 8 + 8 * length bs" for k by fastforce
  then show ?case by (intro bit_word_eqI) (auto simp: bit_simps dest: bit_imp_le_length)
qed simp

lemma le_bytes_le_word: "length bs \<le> 8 \<Longrightarrow> le_bytes (length bs) (le_word bs) = bs"
proof (induction bs)
  case (Cons b bs)
  have "take_bit 56 (le_word bs) = take_bit (min 56 (8 * length bs)) (le_word bs)"
    by (metis take_bit_le_word take_bit_take_bit)
  also have "min 56 (8 * length bs) = 8 * length bs" using Cons.prems by simp
  finally have "take_bit 56 (le_word bs) = le_word bs" by (simp add: take_bit_le_word)
  from le_bytes_or_push [OF this, of "Suc (length bs)" b] Cons show ?case by simp
qed simp

lemma le_bytes_le_word_32:
  assumes "length bs \<le> 4"
  shows "le_bytes (length bs) (ucast (ucast (le_word bs) :: u32)) = bs"
proof -
  have "ucast (ucast (le_word bs) :: u32) = take_bit 32 (le_word bs)"
    by (rule bit_word_eqI) (auto simp: bit_simps)
  also have "\<dots> = take_bit (min 32 (8 * length bs)) (le_word bs)" by (metis take_bit_le_word take_bit_take_bit)
  also have "min 32 (8 * length bs) = 8 * length bs" using assms by simp
  finally show ?thesis using assms by (simp add: take_bit_le_word le_bytes_le_word)
qed

lemma data_reads_spec:
  assumes "fw_inv fw" "\<forall>n\<in>set ns. n \<le> 4" "data_reads ns fw = (vs, fw')"
  shows "operand_bytes ns vs = map (stream fw) [0..<sum_list ns] \<and> contents fw' = contents fw \<and> fw_inv fw'"
  using assms
proof (induction ns arbitrary: fw vs)
  case Nil
  then show ?case by (simp add: operand_bytes_def)
next
  case (Cons n ns)
  obtain v f where l: "read_loop 0 n 0 fw = (v, f)" by (metis surj_pair)
  obtain ws g where d: "data_reads ns f = (ws, g)" by (metis surj_pair)
  note s = read_loop_spec [OF Cons.prems(1) l]
  have vs: "vs = v # ws" "fw' = g" using Cons.prems(3) l d by (auto simp: relm_fw_cfg_handle_io_def)
  have ih: "operand_bytes ns ws = map (stream f) [0..<sum_list ns] \<and> contents fw' = contents f \<and> fw_inv fw'"
    using Cons.IH [OF s(3), of ws] Cons.prems(2) d vs by simp
  have "le_bytes n (ucast v) = map (stream fw) [0..<n]"
    using le_bytes_le_word_32 [of "map (stream fw) [0..<n]"] Cons.prems(2) s(1) by simp
  moreover have "map (stream f) [0..<sum_list ns] = map (stream fw) [n..<n + sum_list ns]"
    by (rule nth_equalityI) (simp_all add: s(2))
  moreover have "map (stream fw) [0..<n + sum_list ns] = map (stream fw) [0..<n] @ map (stream fw) [n..<n + sum_list ns]"
    using upt_add_eq_append [of 0 n "sum_list ns"] by simp
  ultimately show ?case using ih s(4) vs(1) by (simp add: operand_bytes_def)
qed

section \<open>Populating the device\<close>

definition kmem_ok :: "nat \<Rightarrow> host \<Rightarrow> bool" where
  "kmem_ok n h \<longleftrightarrow> n \<le> length (kmem h) \<and> set (kmem h) \<subseteq> {True}"

lemma kzalloc_ok: "kmem_ok (Suc n) h \<Longrightarrow> \<exists>h'. kzalloc h = (True, h') \<and> kmem_ok n h'"
  by (cases "kmem h") (auto simp: kmem_ok_def kzalloc_def)

lemma kmem_ok_mono: "kmem_ok n h \<Longrightarrow> m \<le> n \<Longrightarrow> kmem_ok m h"
  by (simp add: kmem_ok_def)

lemma register_ok:
  assumes "fw_inv fw" "fw_initialized fw" "item_count fw < FW_CFG_MAX_ITEMS" "sz \<le> FW_CFG_MAX_ITEM_SIZE" "data_ok data sz"
    "key \<notin> fi_key ` set (live_items fw)" "kmem_ok (Suc n) h"
  obtains fw' h' where "relm_fw_cfg_register key name data sz fw h = (Inr (), fw', h')"
    "live_items fw' = live_items fw @ [new_item key name data sz]" "fw_inv fw'" "fw_initialized fw'"
    "item_count fw' = item_count fw + 1" "next_file_key fw' = next_file_key fw" "kmem_ok n h'"
proof -
  obtain h1 where k: "kzalloc h = (True, h1)" "kmem_ok n h1" using kzalloc_ok [OF assms(7)] by blast
  have "\<not> (\<exists>it\<in>set (live_items fw). fi_in_use it \<and> fi_key it = key)" using assms(6) by auto
  then have "\<exists>fw' h'. relm_fw_cfg_register key name data sz fw h = (Inr (), fw', h') \<and> (h' = h \<or> h' = h1)"
    using assms(2-4) k(1) by (auto simp: relm_fw_cfg_register_def Let_def not_less [symmetric] split: option.split)
  then obtain fw' h' where r: "relm_fw_cfg_register key name data sz fw h = (Inr (), fw', h')" "h' = h \<or> h' = h1" by blast
  have "kmem_ok n h'" using r(2) k(2) kmem_ok_mono [OF assms(7), of n] by auto
  note k' = this
  show ?thesis by (rule fw_register_cases [OF r(1) assms(1,5)]) (use r(1) k' assms(2) in \<open>auto intro: that\<close>)
qed


text \<open>A run of registrations of unnamed items with fresh keys appends them all.\<close>

abbreviation plain_item :: "u16 \<times> u8 list option \<Rightarrow> fw_cfg_item" where
  "plain_item kd \<equiv> new_item (fst kd) None (snd kd) (case snd kd of None \<Rightarrow> 0 | Some bs \<Rightarrow> word_of_nat (length bs))"

lemma register_items_ok:
  assumes "fw_inv fw" "fw_initialized fw" "item_count fw + length its \<le> FW_CFG_MAX_ITEMS"
    "\<forall>(k, d)\<in>set its. case d of None \<Rightarrow> True | Some bs \<Rightarrow> length bs \<le> 4096"
    "distinct (map fst its)" "fst ` set its \<inter> fi_key ` set (live_items fw) = {}" "kmem_ok (length its + n) h"
  shows "\<exists>fw' h'. register_items its fw h = (Inr (), fw', h') \<and> live_items fw' = live_items fw @ map plain_item its \<and>
    fw_inv fw' \<and> fw_initialized fw' \<and> item_count fw' = item_count fw + length its \<and>
    next_file_key fw' = next_file_key fw \<and> kmem_ok n h'"
  using assms
proof (induction its arbitrary: fw h)
  case (Cons kd its)
  obtain k d where kd: "kd = (k, d)" by (metis surj_pair)
  let ?sz = "case d of None \<Rightarrow> (0 :: u32) | Some bs \<Rightarrow> word_of_nat (length bs)"
  have len: "unat (word_of_nat m :: u32) = m" if "m \<le> 4096" for m
    using that by (simp add: unat_of_nat)
  have d: "?sz \<le> FW_CFG_MAX_ITEM_SIZE" "data_ok d ?sz"
    using Cons.prems(4) by (auto simp: kd data_ok_def len word_le_nat_alt split: option.splits)
  have "item_count fw < FW_CFG_MAX_ITEMS" "k \<notin> fi_key ` set (live_items fw)" "kmem_ok (Suc (length its + n)) h"
    using Cons.prems(3,6,7) by (auto simp: kd)
  from register_ok [OF Cons.prems(1,2) this(1) d this(2,3)] obtain f g where
    r: "relm_fw_cfg_register k None d ?sz fw h = (Inr (), f, g)"
    and f: "live_items f = live_items fw @ [new_item k None d ?sz]" "fw_inv f" "fw_initialized f"
      "item_count f = item_count fw + 1" "next_file_key f = next_file_key fw" "kmem_ok (length its + n) g" .
  have "\<exists>fw' h'. register_items its f g = (Inr (), fw', h') \<and> live_items fw' = live_items f @ map plain_item its \<and>
    fw_inv fw' \<and> fw_initialized fw' \<and> item_count fw' = item_count f + length its \<and>
    next_file_key fw' = next_file_key f \<and> kmem_ok n h'"
    by (rule Cons.IH) (use Cons.prems f in \<open>auto simp: kd\<close>)
  with r f show ?case by (auto simp: kd)
qed auto

definition fw_table :: "u64 \<Rightarrow> u32 \<Rightarrow> (u16 \<times> u8 list) list" where
  "fw_table ram online =
     map (\<lambda>(k, d). (k, case d of None \<Rightarrow> [] | Some bs \<Rightarrow> bs)) (setup_items ram online) @
     [(0x8000, concat (map e820_entry_bytes (e820_layout ram))), (0x8001, [0, 0, 0, 0]),
      (0x19, [0, 0, 0, 2] @
             [0, 0, 0, 80, 0x80, 0x00, 0, 0] @ map of_char ''etc/e820'' @ replicate 48 0 @
             [0, 0, 0, 4, 0x80, 0x01, 0, 0] @ map of_char ''etc/boot-fail-wait'' @ replicate 38 0)]"

lemma setup_items_sizes: "\<forall>(k, d)\<in>set (setup_items ram online). case d of None \<Rightarrow> True | Some bs \<Rightarrow> length bs \<le> 4096"
  by (simp add: setup_items_def Let_def)

lemma setup_items_keys: "map fst (setup_items ram online) = map word_of_nat [0..<16]"
  by (simp add: setup_items_def Let_def upt_rec)

lemma fw_init [simp]: "fw_inv relm_fw_cfg_init" "live_items relm_fw_cfg_init = []" "fw_initialized relm_fw_cfg_init"
  "item_count relm_fw_cfg_init = 0" "next_file_key relm_fw_cfg_init = 0x8000"
  by (simp_all add: relm_fw_cfg_init_def fw_inv_def)

lemma register_file_ok:
  assumes "fw_inv fw" "fw_initialized fw" "item_count fw < FW_CFG_MAX_ITEMS" "sz \<le> FW_CFG_MAX_ITEM_SIZE" "data_ok data sz"
    "next_file_key fw \<notin> fi_key ` set (live_items fw)" "kmem_ok (Suc n) h" "nm \<noteq> []" "length nm \<le> FW_CFG_MAX_NAME_LEN"
  obtains fw' h' where "relm_fw_cfg_register_file (Some nm) data sz fw h = (Inr (next_file_key fw), fw', h')"
    "live_items fw' = live_items fw @ [new_item (next_file_key fw) (Some nm) data sz]" "fw_inv fw'" "fw_initialized fw'"
    "item_count fw' = item_count fw + 1" "next_file_key fw' = next_file_key fw + 1" "kmem_ok n h'"
proof -
  let ?f = "fw\<lparr>next_file_key := next_file_key fw + 1\<rparr>"
  have f: "fw_inv ?f" "fw_initialized ?f" "item_count ?f < FW_CFG_MAX_ITEMS" "next_file_key fw \<notin> fi_key ` set (live_items ?f)"
    using assms(1-3,6) by (simp_all add: fw_inv_def)
  obtain fw' h' where "relm_fw_cfg_register (next_file_key fw) (Some nm) data sz ?f h = (Inr (), fw', h')"
    "live_items fw' = live_items ?f @ [new_item (next_file_key fw) (Some nm) data sz]" "fw_inv fw'" "fw_initialized fw'"
    "item_count fw' = item_count ?f + 1" "next_file_key fw' = next_file_key ?f" "kmem_ok n h'"
    by (rule register_ok [OF f(1-3) assms(4,5) f(4) assms(7), where name = "Some nm"])
  then show ?thesis using assms(8,9) by (intro that) (simp_all add: relm_fw_cfg_register_file_def Let_def)
qed


lemma build_file_dir_ok:
  assumes "fw_inv fw" "fw_initialized fw" "item_count fw < FW_CFG_MAX_ITEMS" "FW_CFG_FILE_DIR \<notin> fi_key ` set (live_items fw)"
    "kmem_ok (Suc (Suc n)) h" "length (filter is_file (live_items fw)) \<le> 60"
  obtains fw' h' where "relm_fw_cfg_build_file_dir fw h = (Inr (), fw', h')"
    "live_items fw' = live_items fw @ [new_item FW_CFG_FILE_DIR None (Some (file_dir_bytes (live_items fw)))
       (4 + word_of_nat (length (filter is_file (live_items fw))) * 64)]" "fw_inv fw'"
proof -
  obtain h1 where k: "kzalloc h = (True, h1)" "kmem_ok (Suc n) h1" using kzalloc_ok [OF assms(5)] by blast
  let ?n = "length (filter is_file (live_items fw))" and ?b = "file_dir_bytes (live_items fw)"
  have sz: "unat (4 + word_of_nat ?n * 64 :: u32) = 4 + ?n * 64" using assms(6) by (simp add: unat_word_ariths unat_of_nat)
  have e: "length (file_entry_bytes it) = 64" for it
    by (simp add: file_entry_bytes_def be_bytes_def strscpy_def)
  have "length ?b = 4 + ?n * 64" by (simp add: file_dir_bytes_def be_bytes_def length_concat comp_def e sum_list_triv)
  then have "4 + word_of_nat ?n * 64 \<le> FW_CFG_MAX_ITEM_SIZE" "data_ok (Some ?b) (4 + word_of_nat ?n * 64)"
    using sz assms(6) by (simp_all add: data_ok_def word_le_nat_alt)
  from register_ok [OF assms(1-3) this assms(4) k(2), where name = None] obtain fw' h' where
    "relm_fw_cfg_register FW_CFG_FILE_DIR None (Some ?b) (4 + word_of_nat ?n * 64) fw h1 = (Inr (), fw', h')"
    "live_items fw' = live_items fw @ [new_item FW_CFG_FILE_DIR None (Some ?b) (4 + word_of_nat ?n * 64)]" "fw_inv fw'" .
  then show ?thesis using k(1) by (intro that) (simp_all add: relm_fw_cfg_build_file_dir_def Let_def)
qed

lemma contents_live: "live_items fw = its \<Longrightarrow> contents fw = map_of (map (\<lambda>it. (fi_key it, payload it)) its)"
  by (simp add: contents_def)

text \<open>The items after setup: the well-known ones, the two files and the directory.\<close>

definition e820_item :: "u64 \<Rightarrow> fw_cfg_item" where
  "e820_item ram = new_item 0x8000 (Some ''etc/e820'') (Some (concat (map e820_entry_bytes (e820_layout ram)))) 80"

definition wait_item :: fw_cfg_item where
  "wait_item = new_item 0x8001 (Some ''etc/boot-fail-wait'') (Some (replicate 4 0)) 4"

lemma file_items: "filter is_file (map plain_item (setup_items ram online) @ [e820_item ram, wait_item]) = [e820_item ram, wait_item]"
  by (simp add: is_file_def setup_items_def Let_def e820_item_def wait_item_def word_le_nat_alt)

lemma e820_length: "length (concat (map e820_entry_bytes (e820_layout ram))) = 80"
  by (simp add: e820_layout_def e820_entry_bytes_def)

lemma setup_live:
  assumes ram: "0x200000 \<le> ram" and mem: "kmem_ok 20 h"
  shows "\<exists>fw h'. relm_fw_cfg_setup ram online relm_fw_cfg_init h = (Inr (), fw, h') \<and> fw_inv fw \<and>
    live_items fw = map plain_item (setup_items ram online) @ [e820_item ram, wait_item,
      new_item 0x19 None (Some (file_dir_bytes (map plain_item (setup_items ram online) @ [e820_item ram, wait_item]))) 132]"
proof -
  let ?its = "setup_items ram online" and ?e = "concat (map e820_entry_bytes (e820_layout ram))"
  have n: "length ?its = 16" using arg_cong [OF setup_items_keys, of length] by simp
  have "distinct (map fst ?its)" by (simp add: setup_items_keys upt_rec)
  from register_items_ok [OF fw_init(1,3) _ setup_items_sizes this, where n = 4 and h = h] n mem obtain f1 h1 where
    1: "register_items ?its relm_fw_cfg_init h = (Inr (), f1, h1)" "live_items f1 = map plain_item ?its" "fw_inv f1"
      "fw_initialized f1" "item_count f1 = 16" "next_file_key f1 = 0x8000" "kmem_ok 4 h1" by auto
  have fresh: "k \<notin> fi_key ` set (live_items f1)" if "16 \<le> unat k" for k
  proof
    assume "k \<in> fi_key ` set (live_items f1)"
    then have "k \<in> set (map fst ?its)" by (force simp: 1(2))
    then show False using that by (auto simp: setup_items_keys unat_of_nat)
  qed
  obtain mp where b: "relm_e820_build ram (fw_e820 f1) = (Inr (), mp)" "e820_count mp = 4" "e820_bytes mp = ?e"
    using relm_e820_build_ok(1,3) [OF ram, of "fw_e820 f1"] e820_bytes_build [OF ram, of "fw_e820 f1"] by (metis prod.collapse)
  let ?f = "f1\<lparr>fw_e820 := mp\<rparr>"
  have w: "word_of_nat (e820_count mp * 20) = (80 :: u32)" by (simp add: b(2))
  have f: "fw_inv ?f" "fw_initialized ?f" "item_count ?f = 16" "next_file_key ?f = 0x8000" "live_items ?f = live_items f1"
    using 1 by (simp_all add: fw_inv_def)
  obtain f2 h2 where
    2: "relm_fw_cfg_register_file (Some ''etc/e820'') (Some ?e) 80 ?f h1 = (Inr 0x8000, f2, h2)"
      "live_items f2 = live_items f1 @ [new_item 0x8000 (Some ''etc/e820'') (Some ?e) 80]" "fw_inv f2"
      "fw_initialized f2" "item_count f2 = 17" "next_file_key f2 = 0x8001" "kmem_ok 3 h2"
    by (rule register_file_ok [OF f(1,2), where nm = "''etc/e820''" and data = "Some ?e" and sz = 80 and n = 3 and h = h1])
      (use f 1(7) fresh [of "0x8000"] e820_length in \<open>auto simp: data_ok_def\<close>)
  obtain f3 h3 where
    3: "relm_fw_cfg_register_file (Some ''etc/boot-fail-wait'') (Some (replicate 4 0)) 4 f2 h2 = (Inr 0x8001, f3, h3)"
      "live_items f3 = live_items f2 @ [new_item 0x8001 (Some ''etc/boot-fail-wait'') (Some (replicate 4 0)) 4]" "fw_inv f3"
      "fw_initialized f3" "item_count f3 = 18" "kmem_ok 2 h3"
    by (rule register_file_ok [OF 2(3,4), where nm = "''etc/boot-fail-wait''" and data = "Some (replicate 4 0)" and sz = 4
        and n = 2 and h = h2])
      (use 2 fresh [of "0x8001"] in \<open>auto simp: data_ok_def\<close>)
  have l3: "live_items f3 = map plain_item ?its @ [e820_item ram, wait_item]"
    by (simp only: 3(2) 2(2) 1(2) e820_item_def wait_item_def append.assoc append.simps)
  have files: "length (filter is_file (live_items f3)) = 2" unfolding l3 file_items by simp
  have "0x19 \<notin> fi_key ` set (live_items f3)" unfolding 3(2) 2(2) using fresh [of "0x19"] by simp
  moreover have "kmem_ok (Suc (Suc 0)) h3" "item_count f3 < FW_CFG_MAX_ITEMS" using 3(5,6) by (simp_all add: numeral_2_eq_2)
  ultimately have k3: "0x19 \<notin> fi_key ` set (live_items f3)" "kmem_ok (Suc (Suc 0)) h3" "item_count f3 < FW_CFG_MAX_ITEMS" .
  obtain fw h' where
    4: "relm_fw_cfg_build_file_dir f3 h3 = (Inr (), fw, h')"
      "live_items fw = live_items f3 @ [new_item 0x19 None (Some (file_dir_bytes (live_items f3))) 132]" "fw_inv fw"
    by (rule build_file_dir_ok [OF 3(3,4) k3(3,1,2)]) (simp_all add: files)
  have "relm_fw_cfg_setup ram online relm_fw_cfg_init h = (Inr (), fw, h')"
    by (simp only: relm_fw_cfg_setup_def fw_init(3) not_True_eq_False if_False 1(1) prod.case sum.case b(1,3) w 2(1) 3(1) 4(1))
  moreover have "live_items fw = map plain_item ?its @ [e820_item ram, wait_item,
      new_item 0x19 None (Some (file_dir_bytes (map plain_item ?its @ [e820_item ram, wait_item]))) 132]"
    using 4(2) unfolding l3 by simp
  ultimately show ?thesis using 4(3) by blast
qed

lemma le_bytes_2: "le_bytes 2 v = [ucast v, ucast (drop_bit 8 v)]"
  by (simp add: numeral_2_eq_2)

lemma le_bytes_4: "le_bytes 4 v = [ucast v, ucast (drop_bit 8 v), ucast (drop_bit 16 v), ucast (drop_bit 24 v)]"
  by (simp add: eval_nat_numeral)

lemma file_dir_setup:
  "file_dir_bytes (map plain_item (setup_items ram online) @ [e820_item ram, wait_item]) =
   [0, 0, 0, 2] @ [0, 0, 0, 80, 0x80, 0x00, 0, 0] @ map of_char ''etc/e820'' @ replicate 48 0 @
   [0, 0, 0, 4, 0x80, 0x01, 0, 0] @ map of_char ''etc/boot-fail-wait'' @ replicate 38 0"
proof -
  have e: "file_entry_bytes (e820_item ram) = [0, 0, 0, 80, 0x80, 0x00, 0, 0] @ map of_char ''etc/e820'' @ replicate 48 0"
    by (simp add: file_entry_bytes_def e820_item_def new_item_def strscpy_def be_bytes_def le_bytes_4 le_bytes_2)
  have w: "file_entry_bytes wait_item = [0, 0, 0, 4, 0x80, 0x01, 0, 0] @ map of_char ''etc/boot-fail-wait'' @ replicate 38 0"
    by (simp add: file_entry_bytes_def wait_item_def new_item_def strscpy_def be_bytes_def le_bytes_4 le_bytes_2)
  have n: "be_bytes 4 (word_of_nat (length [e820_item ram, wait_item])) = [0, 0, 0, 2]"
    by (simp add: be_bytes_def le_bytes_4 le_bytes_2)
  show ?thesis unfolding file_dir_bytes_def file_items n by (simp add: e w)
qed

lemma replicate_4: "replicate 4 x = [x, x, x, x]"
  by (simp add: eval_nat_numeral)

lemma payload_plain:
  assumes "case d of None \<Rightarrow> True | Some bs \<Rightarrow> length bs \<le> 4096"
  shows "payload (plain_item (k, d)) = (case d of None \<Rightarrow> [] | Some bs \<Rightarrow> bs)"
  using assms by (auto simp: bytes_of_def unat_of_nat split: option.splits)

lemma setup_spec:
  assumes ram: "0x200000 \<le> ram" and mem: "kmem_ok 20 h"
  shows "\<exists>fw h'. relm_fw_cfg_setup ram online relm_fw_cfg_init h = (Inr (), fw, h') \<and> fw_inv fw \<and>
    contents fw = map_of (fw_table ram online)"
proof -
  have p: "map (\<lambda>it. (fi_key it, payload it)) (map plain_item (setup_items ram online)) =
      map (\<lambda>(k, d). (k, case d of None \<Rightarrow> [] | Some bs \<Rightarrow> bs)) (setup_items ram online)"
    using setup_items_sizes [of ram online] by (fastforce simp: payload_plain [unfolded fst_conv snd_conv] simp del: new_item_simps(4))
  have q: "(fi_key (e820_item ram), payload (e820_item ram)) = (0x8000, concat (map e820_entry_bytes (e820_layout ram)))"
    "(fi_key wait_item, payload wait_item) = (0x8001, [0, 0, 0, 0])"
    by (simp add: e820_item_def bytes_of_def e820_length)
      (simp add: wait_item_def bytes_of_def replicate_4)
  obtain fw h' where s: "relm_fw_cfg_setup ram online relm_fw_cfg_init h = (Inr (), fw, h')" "fw_inv fw"
    and l: "live_items fw = map plain_item (setup_items ram online) @ [e820_item ram, wait_item,
      new_item 0x19 None (Some (file_dir_bytes (map plain_item (setup_items ram online) @ [e820_item ram, wait_item]))) 132]"
    using setup_live [OF ram mem, of online] by blast
  have len: "bytes_of (Some (file_dir_bytes (map plain_item (setup_items ram online) @ [e820_item ram, wait_item]))) 132 =
      file_dir_bytes (map plain_item (setup_items ram online) @ [e820_item ram, wait_item])"
    unfolding file_dir_setup by (simp add: bytes_of_def)
  have "contents fw = map_of (fw_table ram online)"
    unfolding contents_def l map_append p list.map q new_item_simps len fw_table_def
    by (simp only: file_dir_setup append.simps list.map)
  with s show ?thesis by blast
qed


section \<open>Runs of the device\<close>

text \<open>What the hypervisor and the guest can do to a device: registrations, the directory, and port
  accesses (which select and read).\<close>

inductive guest_io :: "fw_cfg_device \<Rightarrow> fw_cfg_device \<Rightarrow> bool" where
  io: "relm_fw_cfg_handle_io port is_write sz value fw = (r, value', fw') \<Longrightarrow> guest_io fw fw'"

inductive fw_step :: "fw_cfg_device \<Rightarrow> fw_cfg_device \<Rightarrow> bool" where
  reg: "data_ok data sz \<Longrightarrow> relm_fw_cfg_register key name data sz fw h = (r, fw', h') \<Longrightarrow> fw_step fw fw'"
| named: "data_ok data sz \<Longrightarrow> relm_fw_cfg_register_file name data sz fw h = (r', fw', h') \<Longrightarrow> fw_step fw fw'"
| guest: "guest_io fw fw' \<Longrightarrow> fw_step fw fw'"

lemma handle_io_spec:
  assumes "fw_inv fw" "relm_fw_cfg_handle_io port is_write sz value fw = (r, value', fw')"
  shows "fw_inv fw' \<and> contents fw' = contents fw"
proof -
  obtain v f where "read_loop 0 sz 0 fw = (v, f)" by (metis surj_pair)
  from read_loop_spec(3,4) [OF assms(1) this] this assms select_spec(1,2) [OF assms(1)] show ?thesis
    by (auto simp: relm_fw_cfg_handle_io_def split: if_splits)
qed

interpretation guest_run: step_invariant guest_io "\<lambda>fw. fw_inv fw \<and> contents fw = m" for m
  by unfold_locales (metis guest_io.cases handle_io_spec)

lemma fw_register_inv: "fw_inv fw \<Longrightarrow> data_ok data sz \<Longrightarrow> relm_fw_cfg_register key name data sz fw h = (r, fw', h') \<Longrightarrow> fw_inv fw'"
  by (erule fw_register_cases)

lemma register_file_inv:
  assumes "fw_inv fw" "data_ok data sz" "relm_fw_cfg_register_file name data sz fw h = (r, fw', h')"
  shows "fw_inv fw'"
proof -
  have "fw_inv (fw\<lparr>next_file_key := k\<rparr>)" for k using assms(1) by (simp add: fw_inv_def)
  from fw_register_inv [OF this assms(2)] assms(1,3) show ?thesis
    by (fastforce simp: relm_fw_cfg_register_file_def Let_def split: option.splits if_splits prod.splits sum.splits)
qed

interpretation fw_run: step_invariant fw_step fw_inv
  by unfold_locales
    (erule fw_step.cases; metis guest_io.cases handle_io_spec fw_register_inv register_file_inv)

text \<open>Over every history of registrations and guest accesses of a fresh device, a registration
  refines the update of a finite map from keys to byte strings: it succeeds only for a key that is
  not in the map and then adds exactly the given bytes, and a refused registration (uninitialised
  device, oversized item, full table, duplicate key, failed allocation) changes nothing.\<close>

theorem fw_cfg_register_refines:
  assumes run: "fw_step\<^sup>*\<^sup>* relm_fw_cfg_init fw" and d: "data_ok data sz"
    and r: "relm_fw_cfg_register key name data sz fw h = (res, fw', h')"
  shows "case res of
      Inl e \<Rightarrow> contents fw' = contents fw
    | Inr _ \<Rightarrow> contents fw key = None \<and> contents fw' = (contents fw)(key \<mapsto> bytes_of data sz)"
proof -
  have inv: "fw_inv fw" by (rule fw_run.run_inv [OF run]) simp
  show ?thesis
  proof (rule fw_register_cases [OF r inv d], goal_cases)
    case 1
    then show ?case by (simp add: contents_def)
  next
    case 2
    have "contents fw key = None" using 2(4) contents_dom [of fw] by blast
    then show ?case using contents_append [OF 2(2)] 2(1,4) by simp
  qed
qed

theorem fw_cfg_register_refines_witness:
  "\<exists>fw h. relm_fw_cfg_register 5 None (Some [2, 0]) 2 relm_fw_cfg_init \<lparr>pool = [], kmem = [True], pmem = \<lambda>_. 0\<rparr> = (Inr (), fw, h)
     \<and> contents fw = [5 \<mapsto> [2, 0]]"
proof -
  obtain fw h where r: "relm_fw_cfg_register 5 None (Some [2, 0]) 2 relm_fw_cfg_init
      \<lparr>pool = [], kmem = [True], pmem = \<lambda>_. 0\<rparr> = (Inr (), fw, h)"
    by (simp add: relm_fw_cfg_register_def relm_fw_cfg_init_def kzalloc_def)
  have "contents fw = (contents relm_fw_cfg_init)(5 \<mapsto> [2, 0])"
    using fw_cfg_register_refines [OF rtranclp.rtrancl_refl _ r] by (simp add: data_ok_def bytes_of_def)
  with r show ?thesis by (simp add: contents_def)
qed

text \<open>(C25) End to end: once the device has been populated for a VM with at least 2 MiB of RAM, then
  after any port accesses by the guest, selecting a key and reading the data port with operands of up
  to four bytes delivers, byte for byte, the string the configuration table has for that key (the
  signature, the RAM size, the CPU count, the memory map, the file directory, ...), followed by
  zeroes; an unknown key reads as zeroes.\<close>

theorem firmware_reads_config:
  assumes ram: "0x200000 \<le> ram" and mem: "kmem_ok 20 h"
    and set: "relm_fw_cfg_setup ram online relm_fw_cfg_init h = (r, fw, h')"
    and run: "guest_io\<^sup>*\<^sup>* fw fw1"
    and sel: "relm_fw_cfg_handle_io FW_CFG_PORT_SEL True 2 (ucast key) fw1 = (r2, v, fw2)"
    and reads: "data_reads ns fw2 = (vs, fw3)" "\<forall>n\<in>set ns. n \<le> 4"
  shows "r = Inr () \<and> operand_bytes ns vs =
    map (served (case map_of (fw_table ram online) key of None \<Rightarrow> [] | Some bs \<Rightarrow> bs)) [0..<sum_list ns]"
proof -
  from setup_spec [OF ram mem, of online] set
  have s: "r = Inr ()" "fw_inv fw" "contents fw = map_of (fw_table ram online)" by auto
  have inv: "fw_inv fw1 \<and> contents fw1 = map_of (fw_table ram online)"
    by (rule guest_run.run_inv [OF run]) (use s in auto)
  have k: "ucast ((ucast key :: u32) AND 0xFFFF) = key"
  proof -
    have "ucast ((ucast key :: u32) AND mask 16) = key" by (rule bit_word_eqI) (auto simp: bit_simps)
    then show ?thesis by (simp add: mask_eq_exp_minus_1)
  qed
  have "fw2 = relm_fw_cfg_select key fw1" using sel by (simp add: relm_fw_cfg_handle_io_def k)
  with select_spec [OF conjunct1 [OF inv], of key] inv have
    2: "fw_inv fw2" "stream fw2 = served (case map_of (fw_table ram online) key of None \<Rightarrow> [] | Some bs \<Rightarrow> bs)" by auto
  from data_reads_spec [OF 2(1) reads(2,1)] s(1) show ?thesis by (simp add: 2(2))
qed

theorem firmware_reads_config_witness:
  "let h = \<lparr>pool = [], kmem = replicate 20 True, pmem = \<lambda>_. 0\<rparr>;
       fw = fst (snd (relm_fw_cfg_setup 0x8000000 1 relm_fw_cfg_init h));
       fw2 = snd (snd (relm_fw_cfg_handle_io FW_CFG_PORT_SEL True 2 3 fw))
   in operand_bytes [4, 1] (fst (data_reads [4, 1] fw2)) = [0, 0, 0, 8, 0]"
proof -
  let ?h = "\<lparr>pool = [], kmem = replicate 20 True, pmem = \<lambda>_. 0\<rparr>"
  let ?s = "relm_fw_cfg_setup 0x8000000 1 relm_fw_cfg_init ?h"
  let ?fw = "fst (snd ?s)" let ?io = "relm_fw_cfg_handle_io FW_CFG_PORT_SEL True 2 (ucast (3 :: u16)) ?fw"
  have "operand_bytes [4, 1] (fst (data_reads [4, 1] (snd (snd ?io)))) =
      map (served (case map_of (fw_table 0x8000000 1) 3 of None \<Rightarrow> [] | Some bs \<Rightarrow> bs)) [0..<sum_list [4, 1]]"
    by (rule conjunct2 [OF firmware_reads_config [where h = ?h and r = "fst ?s" and h' = "snd (snd ?s)" and ?r2.0 = "fst ?io"
        and v = "fst (snd ?io)" and ?fw3.0 = "snd (data_reads [4, 1] (snd (snd ?io)))" and ram = "0x8000000" and online = 1
        and fw = ?fw and ?fw1.0 = ?fw]])
      (simp_all add: kmem_ok_def)
  also have "map_of (fw_table 0x8000000 1) 3 = Some [0, 0, 0, 8]"
    by (simp add: fw_table_def setup_items_def le_bytes_4 le_bytes_2 Let_def)
  finally show ?thesis by (simp add: served_def upt_rec)
qed

end
