(* ===== verification/Relm_Emulate.thy ===== *)
theory Relm_Emulate
  imports Relm_Mmu Relm_Decoder Relm_Virtio Relm_Apic_Props Relm_Fw_Cfg
begin

text \<open>
  Instruction emulation: the handler of APIC-access exits (\<open>relm_apic_handle_access\<close>,
  src/arch/x86/vmx/apic.c) and the handler of EPT violations in a device window
  (\<open>relm_virtio_mmio_handle_ept_violation\<close>, src/virtio/mmio.c, with \<open>vmx_inject_irq\<close> of
  src/arch/x86/vmx/vmx.c). Both fetch the guest instruction through the guest page tables, decode
  it, move a value between a register and the device model, and step the guest past the
  instruction. The theorems: an access is emulated completely or not at all, and what a completed
  store or load does.
\<close>

section \<open>The state and its surroundings\<close>

text \<open>What the handlers get from outside the repository or from the hardware: the disassembler, the
  callbacks of each virtio device, the clock, the former contents of the stack, the CPUID
  instruction and the VMX capability registers for CR0 and CR4.\<close>

record platform =
  pf_zydis :: zydis
  pf_ops :: "nat \<Rightarrow> relm_virtio_device_ops"
  pf_now :: u64
  pf_stack :: "u8 list"
  pf_cpuid :: "u32 \<Rightarrow> u32 \<Rightarrow> u32 \<times> u32 \<times> u32 \<times> u32"
  pf_cr0_fixed0 :: u64
  pf_cr0_fixed1 :: u64
  pf_cr4_fixed0 :: u64
  pf_cr4_fixed1 :: u64

text \<open>A VM and its vCPUs: the vCPU objects, the array of the VM (slots hold vCPU objects), the
  transport (which holds the memory of every VM), the number of this VM in it, host memory, and the
  firmware device of the VM (\<open>None\<close>: the pointer \<open>fw_data\<close> is null).\<close>

record machine =
  mc_vcpus :: "nat \<Rightarrow> vcpu"
  mc_array :: "nat option list"
  mc_virtio :: virtio_state
  mc_vm :: nat
  mc_host :: host
  mc_fw :: "fw_cfg_device option"

abbreviation vm_memory :: "machine \<Rightarrow> relm_vm_memory" where
  "vm_memory m \<equiv> vvms (mc_virtio m) (mc_vm m)"

definition put_vcpu :: "nat \<Rightarrow> vcpu \<Rightarrow> machine \<Rightarrow> machine" where
  "put_vcpu me vc m = m\<lparr>mc_vcpus := (mc_vcpus m)(me := vc)\<rparr>"

text \<open>The VMCS fields the page-table walker reads.\<close>

definition ctl_of :: "vcpu \<Rightarrow> guest_ctl" where
  "ctl_of vc = \<lparr>GUEST_CR0 = vmread vc ENC_GUEST_CR0, GUEST_CR3 = vmread vc ENC_GUEST_CR3, GUEST_CR4 = vmread vc ENC_GUEST_CR4,
     GUEST_IA32_EFER = vmread vc ENC_GUEST_IA32_EFER, GUEST_CS_AR_BYTES = vmread vc ENC_GUEST_CS_AR_BYTES,
     GUEST_CS_BASE = vmread vc ENC_GUEST_CS_BASE\<rparr>"

section \<open>APIC accesses\<close>

abbreviation (input) APIC_ACCESS_TYPE_LINEAR_READ :: u32 where "APIC_ACCESS_TYPE_LINEAR_READ \<equiv> 0"
abbreviation (input) APIC_ACCESS_TYPE_LINEAR_WRITE :: u32 where "APIC_ACCESS_TYPE_LINEAR_WRITE \<equiv> 1"
abbreviation (input) APIC_ACCESS_TYPE_LINEAR_FETCH :: u32 where "APIC_ACCESS_TYPE_LINEAR_FETCH \<equiv> 2"
abbreviation (input) APIC_ACCESS_TYPE_EVENT_DELIVERY :: u32 where "APIC_ACCESS_TYPE_EVENT_DELIVERY \<equiv> 3"

definition apic_store_type :: "u32 \<Rightarrow> bool" where
  "apic_store_type t \<longleftrightarrow> t = APIC_ACCESS_TYPE_LINEAR_WRITE \<or> t = APIC_ACCESS_TYPE_EVENT_DELIVERY"

text \<open>Fetch, decode and the checks on the decoded instruction. \<open>None\<close> is an invalid host pointer. The
  count of a fetch of at most 15 bytes is never negative, so a count other than the length is a short fetch.\<close>

definition apic_fetch :: "platform \<Rightarrow> relm_vm_memory option \<Rightarrow> host \<Rightarrow> vcpu \<Rightarrow> u64 \<Rightarrow> nat \<Rightarrow> u32 \<Rightarrow> u32 \<Rightarrow> relm_decoded_insn res option" where
  "apic_fetch pf vm h vc guest_rip instr_len off access_type =
     (let guest_linear = relm_mmu_rip_to_linear (ctl_of vc) guest_rip in
      case relm_mmu_copy_from_guest_virt vm h (ctl_of vc) guest_linear (Some (take 15 (pf_stack pf))) instr_len of
        (None, _) \<Rightarrow> None
      | (Some (Inl e), _) \<Rightarrow> Some (Inl e)
      | (Some (Inr ret), buf) \<Rightarrow>
        if ret \<noteq> int instr_len then Some (Inl EFAULT)
        else case relm_decode_instruction (pf_zydis pf) buf (int instr_len) of
          Inl e \<Rightarrow> Some (Inl e)
        | Inr d \<Rightarrow>
          if di_length d \<noteq> instr_len then Some (Inl EINVAL)
          else if di_memory_width d \<noteq> 4 \<or> off AND 3 \<noteq> 0 then Some (Inl EOPNOTSUPP)
          else if (apic_store_type access_type \<and> di_memory_access d \<noteq> RELM_MEMORY_ACCESS_WRITE) \<or>
                  (\<not> apic_store_type access_type \<and> di_memory_access d \<noteq> RELM_MEMORY_ACCESS_READ) then Some (Inl EINVAL)
          else if di_operand_kind d = RELM_OPERAND_GPR \<and> \<not> relm_decoded_has_valid_gpr (Some d) then Some (Inl EINVAL)
          else Some (Inr d))"

text \<open>The value a store moves: the encoded immediate or the decoded register lane.\<close>

definition store_value :: "relm_decoded_insn \<Rightarrow> guest_regs \<Rightarrow> u32 option" where
  "store_value d r =
     (if di_operand_kind d = RELM_OPERAND_IMMEDIATE then Some (ucast (di_immediate d AND relm_width_mask (di_memory_width d)))
      else if di_operand_kind d = RELM_OPERAND_GPR then Some (ucast (relm_decoded_gpr_extract d (guest_reg_read r (di_gpr_index d))))
      else None)"

text \<open>The register a load writes.\<close>

definition load_commit :: "relm_decoded_insn \<Rightarrow> u32 \<Rightarrow> guest_regs \<Rightarrow> guest_regs" where
  "load_commit d v r = guest_reg_write r (di_gpr_index d)
     (relm_decoded_gpr_commit d (guest_reg_read r (di_gpr_index d)) (ucast v))"

definition apic_perform :: "platform \<Rightarrow> nat option list \<Rightarrow> nat \<Rightarrow> u32 \<Rightarrow> u32 \<Rightarrow> relm_decoded_insn \<Rightarrow> (nat \<Rightarrow> vcpu)
    \<Rightarrow> unit res \<times> (nat \<Rightarrow> vcpu)" where
  "apic_perform pf arr me off access_type d S =
     (if apic_store_type access_type then
        (case store_value d (regs (S me)) of None \<Rightarrow> (Inl EINVAL, S)
         | Some v \<Rightarrow> (Inr (), snd (relm_apic_write (pf_now pf) (Some arr) me off v S)))
      else if access_type = APIC_ACCESS_TYPE_LINEAR_READ then
        (if di_operand_kind d \<noteq> RELM_OPERAND_GPR then (Inl EINVAL, S)
         else case relm_apic_read (pf_now pf) off (apic (S me)) of (ret, v, a) \<Rightarrow>
           let v = (if failed ret then 0 else v); vc = (S me)\<lparr>apic := a\<rparr>
           in (Inr (), S(me := vc\<lparr>regs := load_commit d v (regs vc)\<rparr>)))
      else
        (if di_operand_kind d \<noteq> RELM_OPERAND_GPR then (Inl EINVAL, S)
         else case relm_apic_read (pf_now pf) off (apic (S me)) of (ret, v, a) \<Rightarrow>
           let vc = (S me)\<lparr>apic := a\<rparr>
           in (Inr (), S(me := if failed ret then vc else vc\<lparr>regs := load_commit d v (regs vc)\<rparr>))))"

text \<open>Stepping the guest past an instruction of \<open>n\<close> bytes in the software registers and the VMCS; the
  flag is whether the VMWRITE succeeded.\<close>

definition step_past :: "u64 \<Rightarrow> nat \<Rightarrow> vcpu \<Rightarrow> bool \<times> vcpu" where
  "step_past guest_rip n vc = vmwrite ENC_GUEST_RIP (guest_rip + word_of_nat n)
     (vc\<lparr>regs := (regs vc)\<lparr>reg_rip := guest_rip + word_of_nat n\<rparr>\<rparr>)"

definition relm_apic_handle_access :: "platform \<Rightarrow> nat \<Rightarrow> machine \<Rightarrow> int res option \<times> machine" where
  "relm_apic_handle_access pf me m =
     (let vc = mc_vcpus m me; qual = vmread vc ENC_EXIT_QUALIFICATION;
          off = ucast (qual AND 0xFFF); access_type = ucast (drop_bit 12 (qual AND 0xF000));
          guest_rip = vmread vc ENC_GUEST_RIP; instr_len = vmread vc ENC_EXIT_INSTRUCTION_LEN
      in if access_type = APIC_ACCESS_TYPE_LINEAR_FETCH then (Some (Inr 0), put_vcpu me (vc\<lparr>vc_state := VCPU_STATE_STOPPED\<rparr>) m)
         else if instr_len = 0 \<or> instr_len > 15 then (Some (Inl EINVAL), m)
         else case apic_fetch pf (Some (vm_memory m)) (mc_host m) vc guest_rip (unat instr_len) off access_type of
           None \<Rightarrow> (None, m)
         | Some (Inl e) \<Rightarrow> (Some (Inl e), m)
         | Some (Inr d) \<Rightarrow>
           (case apic_perform pf (mc_array m) me off access_type d (mc_vcpus m) of
              (Inl e, _) \<Rightarrow> (Some (Inl e), m)
            | (Inr _, S) \<Rightarrow>
                (Some (Inr 1), m\<lparr>mc_vcpus := S(me := snd (step_past guest_rip (di_length d) (S me)))\<rparr>)))"

section \<open>Device windows\<close>

abbreviation (input) RELM_IRQ_VECTOR_BASE :: u32 where "RELM_IRQ_VECTOR_BASE \<equiv> 0x20"

definition vmx_inject_irq :: "u32 \<Rightarrow> vcpu \<Rightarrow> unit res \<times> vcpu" where
  "vmx_inject_irq irq vc =
     (let vector = RELM_IRQ_VECTOR_BASE + irq in
      if vector > 255 then (Inl EINVAL, vc) else (Inr (), relm_apic_inject_interrupt (ucast vector) False vc))"

text \<open>The instruction fetch in two parts, the second from the next page when the first reaches the end of its page.\<close>

definition mmio_fetch :: "platform \<Rightarrow> relm_vm_memory option \<Rightarrow> host \<Rightarrow> vcpu \<Rightarrow> u64 \<Rightarrow> int res option \<times> u8 list option" where
  "mmio_fetch pf vm h vc guest_linear =
     (let first = min 16 (4096 - unat (guest_linear AND 0xFFF)); ctl = ctl_of vc in
      case relm_mmu_copy_from_guest_virt vm h ctl guest_linear (Some (take 16 (pf_stack pf))) first of
        (Some (Inr n), Some buf) \<Rightarrow>
          if n > 0 \<and> first < 16 then
            (case relm_mmu_copy_from_guest_virt vm h ctl (guest_linear + word_of_nat first) (Some (drop first buf)) (16 - first) of
               (None, _) \<Rightarrow> (None, Some buf)
             | (Some (Inl e), d) \<Rightarrow> (Some (Inr n), Some (take first buf @ the d))
             | (Some (Inr n2), d) \<Rightarrow> (Some (Inr (if n2 > 0 then n + n2 else n)), Some (take first buf @ the d)))
          else (Some (Inr n), Some buf)
      | r \<Rightarrow> r)"

text \<open>The access itself, once the instruction is known to be a dword access: the device, the vCPU and
  whether an interrupt is due; \<open>None\<close> is an operand the handler rejects.\<close>

definition mmio_perform :: "platform \<Rightarrow> nat \<Rightarrow> nat \<Rightarrow> relm_decoded_insn \<Rightarrow> virtio_state \<Rightarrow> vcpu \<Rightarrow> (bool \<times> virtio_state \<times> vcpu) option" where
  "mmio_perform pf dev off d s vc =
     (case di_memory_access d of
        RELM_MEMORY_ACCESS_WRITE \<Rightarrow>
          (case store_value d (regs vc) of None \<Rightarrow> None
           | Some v \<Rightarrow> (case relm_virtio_mmio_register_access (pf_ops pf dev) dev off True v False s of
               (_, irq, s) \<Rightarrow> Some (irq, s, vc)))
      | RELM_MEMORY_ACCESS_READ \<Rightarrow>
          if di_operand_kind d \<noteq> RELM_OPERAND_GPR then None
          else (case relm_virtio_mmio_register_access (pf_ops pf dev) dev off False 0 False s of
            (v, irq, s) \<Rightarrow> Some (irq, s, vc\<lparr>regs := load_commit d v (regs vc)\<rparr>))
      | RELM_MEMORY_ACCESS_INVALID \<Rightarrow> None)"

text \<open>The C function returns \<open>bool\<close>; the early return of the checked VMWRITE is the non-zero error code
  and therefore true as well.\<close>

definition relm_virtio_mmio_handle_ept_violation :: "platform \<Rightarrow> nat \<Rightarrow> u64 \<Rightarrow> machine \<Rightarrow> bool option \<times> machine" where
  "relm_virtio_mmio_handle_ept_violation pf me fault_gpa m =
     (case relm_virtio_find_device_for_gpa (mc_vm m) fault_gpa (mc_virtio m) of
        None \<Rightarrow> (Some False, m)
      | Some dev \<Rightarrow>
        let vc = mc_vcpus m me; off = ucast (fault_gpa - mmio_base_gpa (vdevs (mc_virtio m) dev)) :: u32;
            guest_rip = reg_rip (regs vc); guest_linear = relm_mmu_rip_to_linear (ctl_of vc) guest_rip
        in case mmio_fetch pf (Some (vm_memory m)) (mc_host m) vc guest_linear of
             (None, _) \<Rightarrow> (None, m)
           | (Some (Inl e), _) \<Rightarrow> (Some False, m)
           | (Some (Inr n), buf) \<Rightarrow>
             if n < 0 then (Some False, m)
             else case relm_decode_instruction (pf_zydis pf) buf n of
               Inl e \<Rightarrow> (Some False, m)
             | Inr d \<Rightarrow>
               if di_memory_width d \<noteq> 4 \<or> off AND 3 \<noteq> 0 then (Some False, m)
               else if di_operand_kind d = RELM_OPERAND_GPR \<and> \<not> relm_decoded_has_valid_gpr (Some d) then (Some False, m)
               else case mmio_perform pf dev (unat off) d (mc_virtio m) vc of
                 None \<Rightarrow> (Some False, m)
               | Some (needs_irq, s, vc) \<Rightarrow>
                 (let vc = (if needs_irq then snd (vmx_inject_irq (dev_irq (vdevs s dev)) vc) else vc);
                      vc = snd (step_past guest_rip (di_length d) vc)
                  in (Some True, put_vcpu me vc (m\<lparr>mc_virtio := s\<rparr>))))"

section \<open>Completed accesses\<close>

text \<open>A dword load writes the value, zero-extended, to the decoded register.\<close>

lemma load_commit_dword:
  assumes "insn_contract len d" "di_memory_width d = 4" "di_operand_kind d = RELM_OPERAND_GPR"
    "di_memory_access d = RELM_MEMORY_ACCESS_READ"
  shows "load_commit d v r = guest_reg_write r (di_gpr_index d) (ucast v)" "0 \<le> di_gpr_index d" "di_gpr_index d < 16"
proof -
  have v: "relm_decoded_has_valid_gpr (Some d)" and g: "di_gpr_width d = 4" "di_gpr_write_semantics d = RELM_GPR_WRITE_ZERO_EXTEND"
    using assms by (auto simp: insn_contract_def)
  have "(ucast v :: u64) AND mask 32 = ucast v" by (rule bit_word_eqI) (auto simp: bit_simps dest: bit_imp_le_length)
  then have "(ucast v :: u64) AND 0xFFFFFFFF = ucast v" by (simp add: mask_eq_exp_minus_1)
  with v g show "load_commit d v r = guest_reg_write r (di_gpr_index d) (ucast v)"
    by (simp add: load_commit_def relm_decoded_gpr_commit_def relm_width_mask_def)
  show "0 \<le> di_gpr_index d" "di_gpr_index d < 16"
    using v assms(3) by (auto simp: relm_decoded_has_valid_gpr_def split: if_splits)
qed

lemma step_past_simps [simp]:
  "apic (snd (step_past rip n vc)) = apic vc" "reg_rip (regs (snd (step_past rip n vc))) = rip + word_of_nat n"
  "guest_reg_read (regs (snd (step_past rip n vc))) i = guest_reg_read (regs vc) i"
  "vc_state (snd (step_past rip n vc)) = vc_state vc" "halted (snd (step_past rip n vc)) = halted vc"
  by (simp_all add: step_past_def guest_reg_read_def)

lemma step_past_rip: "\<not> vmcs_rejects vc ENC_GUEST_RIP \<Longrightarrow> vmread (snd (step_past rip n vc)) ENC_GUEST_RIP = rip + word_of_nat n"
  by (simp add: step_past_def vmread_vmwrite)

text \<open>What a successful fetch of the APIC handler guarantees.\<close>

lemma apic_fetch_Inr:
  assumes "apic_fetch pf vm h vc rip n off t = Some (Inr d)"
  shows "insn_contract (int n) d \<and> di_length d = n \<and> di_memory_width d = 4 \<and> off AND 3 = 0 \<and>
    di_memory_access d = (if apic_store_type t then RELM_MEMORY_ACCESS_WRITE else RELM_MEMORY_ACCESS_READ)"
  using assms decode_instruction_contract [of "pf_zydis pf" _ "int n" d]
  by (auto simp: apic_fetch_def Let_def split: option.splits sum.splits prod.splits if_splits)

text \<open>Register writes leave the registers, the VMCS and the identity of every vCPU alone.\<close>

definition outside_apic :: "vcpu \<Rightarrow> vcpu \<Rightarrow> bool" where
  "outside_apic vc vc' \<longleftrightarrow> (\<exists>a b. vc' = vc\<lparr>apic := a, halted := b\<rparr>)"

lemma outside_apic_refl: "outside_apic vc vc"
  unfolding outside_apic_def by (intro exI [of _ "apic vc"] exI [of _ "halted vc"]) simp

lemma outside_apic_apic: "outside_apic vc (vc\<lparr>apic := a\<rparr>)"
  unfolding outside_apic_def by (intro exI [of _ a] exI [of _ "halted vc"]) simp

lemma outside_apic_trans: "outside_apic x y \<Longrightarrow> outside_apic y z \<Longrightarrow> outside_apic x z"
proof -
  assume "outside_apic x y" "outside_apic y z"
  then obtain a b c d where "y = x\<lparr>apic := a, halted := b\<rparr>" "z = y\<lparr>apic := c, halted := d\<rparr>"
    by (auto simp: outside_apic_def)
  then have "z = x\<lparr>apic := c, halted := d\<rparr>" by simp
  then show ?thesis unfolding outside_apic_def by blast
qed

lemma outside_apic_keeps:
  "outside_apic vc vc' \<Longrightarrow> regs vc' = regs vc \<and> vmcs vc' = vmcs vc \<and> vmcs_rejects vc' = vmcs_rejects vc \<and> vc_state vc' = vc_state vc"
  by (auto simp: outside_apic_def)

lemma inject_outside: "outside_apic vc (relm_apic_inject_interrupt v l vc)"
  unfolding outside_apic_def by (auto simp: relm_apic_inject_interrupt_def Let_def)

lemma deliver_outside: "outside_apic (S c) (fold (relm_apic_ipi_deliver dm vec lvl) ts S c)"
proof (induction ts arbitrary: S)
  case (Cons t ts)
  have "outside_apic (S c) (relm_apic_ipi_deliver dm vec lvl t S c)"
    by (simp add: relm_apic_ipi_deliver_def outside_apic_refl inject_outside)
  with Cons show ?case by (auto intro: outside_apic_trans)
qed (simp add: outside_apic_refl)

lemma apic_write_outside: "outside_apic (S c) (snd (relm_apic_write now arr me off v S) c)"
proof -
  have own: "outside_apic (S c) ((S(me := (S me)\<lparr>apic := a\<rparr>)) c)" for a by (simp add: outside_apic_refl outside_apic_apic)
  have "outside_apic (S c) (relm_apic_handle_icr_write arr me v S c)"
    unfolding relm_apic_handle_icr_write_def Let_def by (rule outside_apic_trans [OF own]) (rule deliver_outside)
  with own show ?thesis by (simp add: relm_apic_write_def outside_apic_refl split: option.split)
qed

section \<open>Properties\<close>

abbreviation apic_off :: "vcpu \<Rightarrow> u32" where
  "apic_off vc \<equiv> ucast (vmread vc ENC_EXIT_QUALIFICATION AND 0xFFF)"

abbreviation apic_acc :: "vcpu \<Rightarrow> u32" where
  "apic_acc vc \<equiv> ucast (drop_bit 12 (vmread vc ENC_EXIT_QUALIFICATION AND 0xF000))"

lemma apic_handle_cases:
  assumes "relm_apic_handle_access pf me m = (r, m')"
  obtains "apic_acc (mc_vcpus m me) = APIC_ACCESS_TYPE_LINEAR_FETCH" "r = Some (Inr 0)"
      "m' = put_vcpu me ((mc_vcpus m me)\<lparr>vc_state := VCPU_STATE_STOPPED\<rparr>) m"
  | "\<forall>i. r \<noteq> Some (Inr i)" "m' = m"
  | d S where "r = Some (Inr 1)"
      "apic_fetch pf (Some (vm_memory m)) (mc_host m) (mc_vcpus m me) (vmread (mc_vcpus m me) ENC_GUEST_RIP)
         (unat (vmread (mc_vcpus m me) ENC_EXIT_INSTRUCTION_LEN)) (apic_off (mc_vcpus m me)) (apic_acc (mc_vcpus m me)) = Some (Inr d)"
      "apic_perform pf (mc_array m) me (apic_off (mc_vcpus m me)) (apic_acc (mc_vcpus m me)) d (mc_vcpus m) = (Inr (), S)"
      "m' = m\<lparr>mc_vcpus := S(me := snd (step_past (vmread (mc_vcpus m me) ENC_GUEST_RIP) (di_length d) (S me)))\<rparr>"
proof -
  let ?vc = "mc_vcpus m me"
  let ?len = "vmread ?vc ENC_EXIT_INSTRUCTION_LEN" and ?rip = "vmread ?vc ENC_GUEST_RIP"
  let ?f = "apic_fetch pf (Some (vm_memory m)) (mc_host m) ?vc ?rip (unat ?len) (apic_off ?vc) (apic_acc ?vc)"
  let ?p = "apic_perform pf (mc_array m) me (apic_off ?vc) (apic_acc ?vc)"
  note d = assms [unfolded relm_apic_handle_access_def Let_def]
  show ?thesis
  proof (cases "apic_acc ?vc = APIC_ACCESS_TYPE_LINEAR_FETCH")
    case True
    then show ?thesis using d by (intro that(1)) simp_all
  next
    case acc: False
    show ?thesis
    proof (cases "?len = 0 \<or> ?len > 15")
      case True
      then show ?thesis using d acc by (intro that(2)) auto
    next
      case len: False
      note d = d [simplified acc len if_False]
      consider (bad) "?f = None \<or> (\<exists>e. ?f = Some (Inl e))" | (ok) x where "?f = Some (Inr x)" by (metis not_None_eq sum.exhaust)
      then show ?thesis
      proof cases
        case bad
        then show ?thesis using d by (intro that(2)) auto
      next
        case (ok x)
        obtain res S where p: "?p x (mc_vcpus m) = (res, S)" by (metis surj_pair)
        show ?thesis
        proof (cases res)
          case (Inl e)
          then show ?thesis using d ok p by (intro that(2)) auto
        next
          case (Inr u)
          then show ?thesis using d ok p by (intro that(3) [of x S]) auto
        qed
      qed
    qed
  qed
qed


lemma mmio_handle_cases:
  assumes "relm_virtio_mmio_handle_ept_violation pf me gpa m = (r, m')"
  obtains "r \<noteq> Some True" "m' = m"
  | dev n buf d irq s vc where "r = Some True"
      "mmio_fetch pf (Some (vm_memory m)) (mc_host m) (mc_vcpus m me)
         (relm_mmu_rip_to_linear (ctl_of (mc_vcpus m me)) (reg_rip (regs (mc_vcpus m me)))) = (Some (Inr n), buf)"
      "relm_virtio_find_device_for_gpa (mc_vm m) gpa (mc_virtio m) = Some dev"
      "relm_decode_instruction (pf_zydis pf) buf n = Inr d" "di_memory_width d = 4"
      "(ucast (gpa - mmio_base_gpa (vdevs (mc_virtio m) dev)) :: u32) AND 3 = 0"
      "mmio_perform pf dev (unat (ucast (gpa - mmio_base_gpa (vdevs (mc_virtio m) dev)) :: u32)) d (mc_virtio m) (mc_vcpus m me) = Some (irq, s, vc)"
      "m' = put_vcpu me (snd (step_past (reg_rip (regs (mc_vcpus m me))) (di_length d)
              (if irq then snd (vmx_inject_irq (dev_irq (vdevs s dev)) vc) else vc))) (m\<lparr>mc_virtio := s\<rparr>)"
proof (cases "relm_virtio_find_device_for_gpa (mc_vm m) gpa (mc_virtio m)")
  case None
  then show ?thesis using assms by (intro that(1)) (auto simp: relm_virtio_mmio_handle_ept_violation_def)
next
  case (Some dev)
  let ?vc = "mc_vcpus m me" and ?off = "ucast (gpa - mmio_base_gpa (vdevs (mc_virtio m) dev)) :: u32"
  obtain fr buf where f: "mmio_fetch pf (Some (vm_memory m)) (mc_host m) ?vc (relm_mmu_rip_to_linear (ctl_of ?vc) (reg_rip (regs ?vc))) = (fr, buf)"
    by (metis surj_pair)
  note d = assms [unfolded relm_virtio_mmio_handle_ept_violation_def Some option.case Let_def f prod.case]
  consider (bad) "fr = None \<or> (\<exists>e. fr = Some (Inl e))" | (got) n where "fr = Some (Inr n)" by (metis not_None_eq sum.exhaust)
  then show ?thesis
  proof cases
    case bad
    then show ?thesis using d by (intro that(1)) auto
  next
    case (got n)
    show ?thesis
    proof (cases "n < 0 \<or> (\<exists>e. relm_decode_instruction (pf_zydis pf) buf n = Inl e)")
      case True
      then show ?thesis using d got by (intro that(1)) (auto split: if_splits)
    next
      case False
      then obtain i where i: "relm_decode_instruction (pf_zydis pf) buf n = Inr i" "\<not> n < 0" by (metis sum.exhaust)
      let ?p = "mmio_perform pf dev (unat ?off) i (mc_virtio m) ?vc"
      show ?thesis
      proof (cases "di_memory_width i \<noteq> 4 \<or> ?off AND 3 \<noteq> 0 \<or>
          di_operand_kind i = RELM_OPERAND_GPR \<and> \<not> relm_decoded_has_valid_gpr (Some i) \<or> ?p = None")
        case True
        then show ?thesis using d got i by (intro that(1)) (auto split: if_splits)
      next
        case ok: False
        then obtain irq s vc where "?p = Some (irq, s, vc)" by (metis not_None_eq surj_pair)
        then show ?thesis using d got i ok f by (intro that(2) [OF _ _ Some i(1)]) auto
      qed
    qed
  qed
qed


section \<open>A machine to try it on\<close>

text \<open>One vCPU in 64-bit mode without paging, two pages of RAM, two device windows; the instruction at
  the instruction pointer stores EAX.\<close>

definition demo_pf :: platform where
  "demo_pf = \<lparr>pf_zydis = demo_zydis, pf_ops = (\<lambda>_. demo_ops), pf_now = 0, pf_stack = replicate 16 0,
     pf_cpuid = (\<lambda>leaf sub. (leaf, sub, 0, 0)), pf_cr0_fixed0 = 0x80000021, pf_cr0_fixed1 = 0xFFFFFFFF,
     pf_cr4_fixed0 = 0x2000, pf_cr4_fixed1 = 0x3767FF\<rparr>"

definition demo_guest :: vcpu where
  "demo_guest = demo_vcpu\<lparr>halted := False, regs := demo_regs\<lparr>reg_rax := 7\<rparr>,
     vmcs := (\<lambda>_. 0)(ENC_GUEST_IA32_EFER := 0x400, ENC_GUEST_CS_AR_BYTES := 0x2000, ENC_EXIT_INSTRUCTION_LEN := 2,
       ENC_EXIT_QUALIFICATION := 0x1080, ENC_GUEST_RIP := 0x1000)\<rparr>"

definition demo_machine :: machine where
  "demo_machine = \<lparr>mc_vcpus = (\<lambda>_. demo_guest), mc_array = [Some 0],
     mc_virtio = demo_virtio\<lparr>vvms := (\<lambda>_. mmio_two\<lparr>mem_regions := mem_regions demo_mm\<rparr>)\<rparr>, mc_vm = 0,
     mc_host = \<lparr>pool = [], kmem = [], pmem = (\<lambda>_. 0)\<rparr>, mc_fw = None\<rparr>"

lemma demo_copy_ram:
  assumes "0 < sz" "sz \<le> n" "n \<le> 16"
  shows "copy_from_loop (mem_regions demo_mm) sz None 0x1000 0 (replicate n 0) \<lparr>pool = [], kmem = [], pmem = (\<lambda>_. 0)\<rparr> =
    (Ret (Inr (int sz)), replicate n 0)"
proof -
  have "unat (word_of_nat sz :: u64) = sz" using assms by (intro unat_word_of_nat_small) simp
  moreover have "rd_bytes (\<lambda>_. 0) b sz @ replicate (n - sz) 0 = replicate n 0" for b
    using assms by (intro nth_equalityI) (auto simp: nth_append)
  moreover have "copy_from_loop regs sz region a sz dst h = (Ret (Inr (c_int sz)), dst)" for regs region a dst h
    by (simp add: copy_from_loop.simps)
  ultimately show ?thesis using assms
    by (subst copy_from_loop.simps) (simp add: demo_mm_def pick_region_def covers_def page_at_def Let_def c_int_small)
qed

lemma demo_fetch:
  assumes "0 < sz" "sz \<le> n" "n \<le> 16"
  shows "relm_mmu_copy_from_guest_virt (Some (vm_memory demo_machine)) (mc_host demo_machine) (ctl_of demo_guest) 0x1000
    (Some (replicate n 0)) sz = (Some (Inr (int sz)), Some (replicate n 0))"
proof -
  have g: "relm_mmu_gva_to_gpa vm h (ctl_of demo_guest) x = Some (Inr x)" for vm h x
    by (simp add: relm_mmu_gva_to_gpa_def ctl_of_def demo_guest_def vmread_def)
  have "\<not> copied < sz \<Longrightarrow> copy_virt_loop vm h ctl gva sz copied dst = (Some (Inr (c_int copied)), dst)" for vm h ctl gva copied dst
    by (simp add: copy_virt_loop.simps)
  then show ?thesis using assms demo_copy_ram [OF assms]
    by (simp add: relm_mmu_copy_from_guest_virt_def copy_virt_loop.simps [of _ _ _ _ _ 0] g relm_vm_copy_from_guest_def
        demo_machine_def c_int_small)
qed

lemma demo_accepts: "\<not> vmcs_rejects (mc_vcpus demo_machine 0) ENC_GUEST_RIP"
  by (simp add: demo_machine_def demo_guest_def demo_vcpu_def)



end
