(* ===== verification/Relm_Vmexit.thy ===== *)
theory Relm_Vmexit
  imports Relm_Emulate
begin

text \<open>
  The VM-exit handlers (src/arch/x86/vmx/vmexit.c) and the control-register handlers they call
  (src/arch/x86/vmx/vmx.c). Every handler takes the machine to a return code and a machine; a return
  code that is absent stands for an invalid host pointer. The return code of \<open>handle_vmexit\<close> goes to
  the assembly stub, which re-enters the guest when it is non-zero and unwinds to the run loop when it
  is zero. The theorems: the register contract of the dispatcher, progress of emulated instructions,
  consistency of long-mode state, the containment of unknown exits, and the places where the code does
  not do what it means to.
\<close>

section \<open>Return codes\<close>

fun errno_code :: "errno \<Rightarrow> int" where
  "errno_code ENOENT = 2" | "errno_code EIO = 5" | "errno_code E2BIG = 7" | "errno_code ENOMEM = 12"
| "errno_code EFAULT = 14" | "errno_code EBUSY = 16" | "errno_code EEXIST = 17" | "errno_code ENODEV = 19"
| "errno_code EINVAL = 22" | "errno_code ENOSPC = 28" | "errno_code ENOSYS = 38" | "errno_code EOPNOTSUPP = 95"
| "errno_code ENAVAIL = 119" | "errno_code ENOTSUPP = 524" | "errno_code EACCES = 13" | "errno_code ERANGE = 34"

definition ret_code :: "int res \<Rightarrow> int" where
  "ret_code r = (case r of Inl e \<Rightarrow> - errno_code e | Inr i \<Rightarrow> i)"

lemma errno_code_pos [simp]: "errno_code e > 0" "errno_code e \<noteq> 0"
  by (cases e, simp_all)+

type_synonym handler = "machine \<Rightarrow> int option \<times> machine"

definition upd_vcpu :: "nat \<Rightarrow> (vcpu \<Rightarrow> vcpu) \<Rightarrow> machine \<Rightarrow> machine" where
  "upd_vcpu me f m = put_vcpu me (f (mc_vcpus m me)) m"

text \<open>\<open>vcpu->state = s; return 0;\<close>\<close>

definition stop_with :: "vcpu_state \<Rightarrow> nat \<Rightarrow> handler" where
  "stop_with st me m = (Some 0, upd_vcpu me (\<lambda>vc. vc\<lparr>vc_state := st\<rparr>) m)"

text \<open>\<open>_vmwrite(GUEST_RIP, guest_rip + __vmread(VM_EXIT_INSTRUCTION_LEN))\<close>.\<close>

definition advance :: "u64 \<Rightarrow> vcpu \<Rightarrow> vcpu" where
  "advance guest_rip vc = snd (vmwrite ENC_GUEST_RIP (guest_rip + vmread vc ENC_EXIT_INSTRUCTION_LEN) vc)"

section \<open>Control registers\<close>

definition cr_source :: "u64 \<Rightarrow> nat" where
  "cr_source exit_qual = unat (drop_bit 8 (exit_qual AND 0xF00))"

definition relm_cr0_write_handle_exit :: "platform \<Rightarrow> u64 \<Rightarrow> vcpu \<Rightarrow> int \<times> vcpu" where
  "relm_cr0_write_handle_exit pf exit_qual vc =
     (let src_reg = cr_source exit_qual in
      if src_reg > 15 then (1, advance (vmread vc ENC_GUEST_RIP) vc)
      else let requested_cr0 = guest_reg_read (regs vc) (int src_reg);
               vc = vc\<lparr>arch_cr0 := (requested_cr0 OR pf_cr0_fixed0 pf) AND pf_cr0_fixed1 pf\<rparr>;
               vc = snd (vmwrite ENC_GUEST_CR0 (arch_cr0 vc) vc);
               (ok, vc) = vmwrite ENC_CR0_READ_SHADOW (arch_cr0 vc) vc
           in if \<not> ok then (- errno_code EIO, vc) else (1, advance (vmread vc ENC_GUEST_RIP) vc))"

abbreviation (input) X86_CR4_VMXE :: u64 where "X86_CR4_VMXE \<equiv> 0x2000"

definition relm_cr4_write_handle_exit :: "platform \<Rightarrow> u64 \<Rightarrow> vcpu \<Rightarrow> int \<times> vcpu" where
  "relm_cr4_write_handle_exit pf exit_qual vc =
     (let src_reg = cr_source exit_qual in
      if src_reg > 15 then (1, advance (vmread vc ENC_GUEST_RIP) vc)
      else let requested_cr4 = guest_reg_read (regs vc) (int src_reg);
               vc = vc\<lparr>arch_cr4 := (requested_cr4 OR pf_cr4_fixed0 pf) AND pf_cr4_fixed1 pf\<rparr>;
               vc = snd (vmwrite ENC_GUEST_CR4 (arch_cr4 vc) vc);
               (ok, vc) = vmwrite ENC_CR4_READ_SHADOW (arch_cr4 vc AND NOT X86_CR4_VMXE) vc
           in if \<not> ok then (- errno_code EIO, vc) else (1, advance (vmread vc ENC_GUEST_RIP) vc))"

definition relm_cr3_passthrough_handle_exit :: "u64 \<Rightarrow> u32 \<Rightarrow> vcpu \<Rightarrow> int \<times> vcpu" where
  "relm_cr3_passthrough_handle_exit exit_qual acc_type vc =
     (let reg = cr_source exit_qual;
          vc = (if reg > 15 then vc
                else if acc_type = 0
                then snd (vmwrite ENC_GUEST_CR3 (guest_reg_read (regs vc) (int reg) AND NOT (push_bit 63 1)) vc)
                else vc\<lparr>regs := guest_reg_write (regs vc) (int reg) (vmread vc ENC_GUEST_CR3)\<rparr>)
      in (1, advance (vmread vc ENC_GUEST_RIP) vc))"

definition on_vcpu :: "nat \<Rightarrow> (vcpu \<Rightarrow> int \<times> vcpu) \<Rightarrow> handler" where
  "on_vcpu me f m = (case f (mc_vcpus m me) of (r, vc) \<Rightarrow> (Some r, put_vcpu me vc m))"

definition handle_cr_access :: "platform \<Rightarrow> nat \<Rightarrow> u64 \<Rightarrow> handler" where
  "handle_cr_access pf me exit_qual m =
     (let cr_num = ucast (exit_qual AND 0xF) :: u32; acc_type = ucast (exit_qual AND 0x30) :: u32 in
      if cr_num = 0 \<and> acc_type = 0 then on_vcpu me (relm_cr0_write_handle_exit pf exit_qual) m
      else if cr_num = 3 then on_vcpu me (relm_cr3_passthrough_handle_exit exit_qual acc_type) m
      else if cr_num = 4 \<and> acc_type = 0 then on_vcpu me (relm_cr4_write_handle_exit pf exit_qual) m
      else stop_with VCPU_STATE_STOPPED me m)"

section \<open>CPUID\<close>

definition relm_handle_kvm_cpuid_leaf :: "u32 \<Rightarrow> u32 \<times> u32 \<times> u32 \<times> u32 \<Rightarrow> u32 \<times> u32 \<times> u32 \<times> u32" where
  "relm_handle_kvm_cpuid_leaf lf r =
     (if lf = 0x40000000 then (0x40000001, 0x4b4d564b, 0x564b4d56, 0x4d)
      else if lf = 0x40000001 then (0, 0, 0, 0) else r)"

definition emulate_cpuid :: "platform \<Rightarrow> guest_regs \<Rightarrow> guest_regs" where
  "emulate_cpuid pf r =
     (let lf = ucast (reg_rax r); subleaf = ucast (reg_rcx r) in
      case relm_handle_kvm_cpuid_leaf lf (pf_cpuid pf lf subleaf) of
        (eax, ebx, ecx, edx) \<Rightarrow> r\<lparr>reg_rax := ucast eax, reg_rbx := ucast ebx, reg_rcx := ucast ecx, reg_rdx := ucast edx\<rparr>)"

section \<open>Handlers\<close>

definition handle_exception_nmi :: "nat \<Rightarrow> handler" where
  "handle_exception_nmi me m =
     (let intr_info = ucast (vmread (mc_vcpus m me) ENC_EXIT_INTR_INFO) :: u32;
          vector = intr_info AND 0xFF; intr_type = drop_bit 8 intr_info AND 0x7; valid = (intr_info AND 0x80000000 \<noteq> 0)
      in if valid \<and> intr_type = 2 \<and> vector = 2 then (Some 1, m) else stop_with VCPU_STATE_STOPPED me m)"

definition handle_external_interrupt :: handler where
  "handle_external_interrupt m = (Some 1, m)"

definition handle_triple_fault :: "nat \<Rightarrow> handler" where
  "handle_triple_fault me m = stop_with VCPU_STATE_STOPPED me m"

definition handle_apic_access :: "platform \<Rightarrow> nat \<Rightarrow> handler" where
  "handle_apic_access pf me m = (case relm_apic_handle_access pf me m of (r, m) \<Rightarrow> (map_option ret_code r, m))"

definition handle_init_signal :: "nat \<Rightarrow> handler" where
  "handle_init_signal me m = stop_with VCPU_STATE_STOPPED me m"

definition handle_hlt :: "nat \<Rightarrow> u64 \<Rightarrow> handler" where
  "handle_hlt me guest_rip m = (Some 0, upd_vcpu me (\<lambda>vc. advance guest_rip (vc\<lparr>halted := True\<rparr>)) m)"

definition handle_cpuid :: "platform \<Rightarrow> nat \<Rightarrow> u64 \<Rightarrow> handler" where
  "handle_cpuid pf me guest_rip m =
     (Some 1, upd_vcpu me (\<lambda>vc. advance guest_rip (vc\<lparr>regs := emulate_cpuid pf (regs vc)\<rparr>)) m)"

text \<open>Whether the firmware device is dereferenced: only by a write to the selector or a read of the data
  port. A null \<open>fw_data\<close> is harmless otherwise, and the device argument is then irrelevant.\<close>

definition fw_touched :: "u16 \<Rightarrow> bool \<Rightarrow> bool" where
  "fw_touched port is_in \<longleftrightarrow> port = FW_CFG_PORT_SEL \<and> \<not> is_in \<or> port = FW_CFG_PORT_DATA \<and> is_in"

definition handle_io_instruction :: "nat \<Rightarrow> u64 \<Rightarrow> u64 \<Rightarrow> handler" where
  "handle_io_instruction me guest_rip qual m =
     (let sz = unat (qual AND 0x7) + 1; is_in = (qual AND 0x8 \<noteq> 0); is_str = (qual AND 0x10 \<noteq> 0);
          is_rep = (qual AND 0x20 \<noteq> 0); port = ucast (drop_bit 16 qual AND 0xFFFF) :: u16 in
      if (port = FW_CFG_PORT_SEL \<or> port = FW_CFG_PORT_DATA) \<and> \<not> is_str \<and> \<not> is_rep then
        let size_mask = (if sz = 1 then 0xFF else if sz = 2 then 0xFFFF else 0xFFFFFFFF) :: u64;
            io_val = (if is_in then 0 else ucast (reg_rax (regs (mc_vcpus m me)) AND size_mask)) :: u32 in
        if mc_fw m = None \<and> fw_touched port is_in then (None, m)
        else case relm_fw_cfg_handle_io port (\<not> is_in) sz io_val (case mc_fw m of None \<Rightarrow> relm_fw_cfg_init | Some fw \<Rightarrow> fw) of
          (ret, io_val, fw) \<Rightarrow>
            (Some ret, upd_vcpu me (\<lambda>vc. advance guest_rip
                (if is_in then vc\<lparr>regs := (regs vc)\<lparr>reg_rax := ucast io_val\<rparr>\<rparr> else vc))
              (m\<lparr>mc_fw := map_option (\<lambda>_. fw) (mc_fw m)\<rparr>))
      else (Some 1, upd_vcpu me (advance guest_rip) m))"

abbreviation (input) RELM_GUEST_IDT_STUBS_GPA :: u64 where "RELM_GUEST_IDT_STUBS_GPA \<equiv> 0x6000"
abbreviation (input) RELM_GUEST_IDT_STUBS_SIZE :: u64 where "RELM_GUEST_IDT_STUBS_SIZE \<equiv> 0x1000"

definition handle_vmcall :: "nat \<Rightarrow> u64 \<Rightarrow> handler" where
  "handle_vmcall me guest_rip m =
     (let rax = reg_rax (regs (mc_vcpus m me)); stubs_lo = RELM_GUEST_IDT_STUBS_GPA; stubs_hi = stubs_lo + RELM_GUEST_IDT_STUBS_SIZE;
          from_diag_stub = (guest_rip \<ge> stubs_lo \<and> guest_rip < stubs_hi \<and> rax < 256)
      in if from_diag_stub then (Some 0, m) else (Some 1, upd_vcpu me (advance guest_rip) m))"

abbreviation (input) MSR_IA32_APIC_BASE :: u32 where "MSR_IA32_APIC_BASE \<equiv> 0x1B"
abbreviation (input) MSR_IA32_EFER :: u32 where "MSR_IA32_EFER \<equiv> 0xC0000080"

definition handle_msr_read :: "nat \<Rightarrow> u64 \<Rightarrow> handler" where
  "handle_msr_read me guest_rip m =
     (Some 1, upd_vcpu me (\<lambda>vc.
        let msr = ucast (reg_rcx (regs vc) AND 0xFFFFFFFF) :: u32;
            v = (if msr = MSR_IA32_APIC_BASE then 0xfee00000 OR push_bit 11 1 OR push_bit 8 1 else 0) :: u64;
            vc = vc\<lparr>regs := (regs vc)\<lparr>reg_rax := ucast (ucast v :: u32), reg_rdx := ucast (ucast (drop_bit 32 v) :: u32)\<rparr>\<rparr>
        in advance guest_rip vc) m)"

text \<open>The write of IA32_EFER: reserved bits and the read-only LMA bit are dropped, LMA is recomputed from
  LME and CR0.PG, and the IA-32e entry control follows it.\<close>

definition write_efer :: "u64 \<Rightarrow> vcpu \<Rightarrow> vcpu" where
  "write_efer v vc =
     (let v = v AND 0xD01; v = v AND NOT 0x400;
          lme = (v AND 0x100 \<noteq> 0); pg = (vmread vc ENC_GUEST_CR0 AND 0x80000000 \<noteq> 0); lma = (lme \<and> pg);
          v = (if lma then v OR 0x400 else v);
          vc = (snd (vmwrite ENC_GUEST_IA32_EFER v vc))\<lparr>arch_efer := v\<rparr>;
          entry_ctrl = ucast (vmread vc ENC_ENTRY_CONTROLS) :: u32;
          entry_ctrl = (if lma then entry_ctrl OR 0x200 else entry_ctrl AND NOT 0x200)
      in snd (vmwrite ENC_ENTRY_CONTROLS (ucast entry_ctrl) vc))"

definition handle_msr_write :: "nat \<Rightarrow> u64 \<Rightarrow> handler" where
  "handle_msr_write me guest_rip m =
     (Some 1, upd_vcpu me (\<lambda>vc.
        let msr = ucast (reg_rcx (regs vc) AND 0xFFFFFFFF) :: u32;
            v = push_bit 32 (reg_rdx (regs vc)) OR (reg_rax (regs vc) AND 0xFFFFFFFF);
            vc = (if msr = MSR_IA32_EFER then write_efer v vc else vc)
        in advance guest_rip vc) m)"

definition handle_ept_violation :: "platform \<Rightarrow> nat \<Rightarrow> u64 \<Rightarrow> handler" where
  "handle_ept_violation pf me qual m =
     (let gpa = vmread (mc_vcpus m me) ENC_GUEST_PHYSICAL_ADDRESS;
          was_present = (qual AND 0x8 \<noteq> 0 \<or> qual AND 0x10 \<noteq> 0 \<or> qual AND 0x20 \<noteq> 0) in
      if \<not> was_present \<and> relm_vm_gpa_is_mmio_region (Some (vm_memory m)) gpa then
        (case relm_virtio_mmio_handle_ept_violation pf me gpa m of
           (None, m) \<Rightarrow> (None, m)
         | (Some True, m) \<Rightarrow> (Some 1, m)
         | (Some False, m) \<Rightarrow> stop_with VCPU_STATE_ERROR me m)
      else stop_with VCPU_STATE_STOPPED me m)"

definition handle_invalid_guest_state :: "nat \<Rightarrow> handler" where
  "handle_invalid_guest_state me m = stop_with VCPU_STATE_STOPPED me m"

definition handle_preemption_timer_expired :: "nat \<Rightarrow> handler" where
  "handle_preemption_timer_expired me m = stop_with VCPU_STATE_STOPPED me m"

text \<open>The result of \<open>relm_vcpu_handle_ept_misconfig\<close>, which only reports, is not used.\<close>

definition handle_ept_misconfig :: "nat \<Rightarrow> handler" where
  "handle_ept_misconfig me m = stop_with VCPU_STATE_ERROR me m"

definition handle_xsetbv :: "nat \<Rightarrow> u64 \<Rightarrow> handler" where
  "handle_xsetbv me guest_rip m =
     (let r = regs (mc_vcpus m me); xcr = ucast (reg_rcx r) :: u32;
          v = push_bit 32 (ucast (ucast (reg_rdx r) :: u32)) OR ucast (ucast (reg_rax r) :: u32) :: u64 in
      if xcr \<noteq> 0 then stop_with VCPU_STATE_STOPPED me m
      else if v AND 1 = 0 then stop_with VCPU_STATE_STOPPED me m
      else (Some 1, upd_vcpu me (\<lambda>vc. advance guest_rip (vc\<lparr>arch_xcr0 := v\<rparr>)) m))"

section \<open>The dispatcher\<close>

text \<open>The block the assembly stub pushes, and the copies between it and the register model.\<close>

record stack_guest_gprs =
  sg_r15 :: u64  sg_r14 :: u64  sg_r13 :: u64  sg_r12 :: u64  sg_r11 :: u64  sg_r10 :: u64  sg_r9 :: u64  sg_r8 :: u64
  sg_rbp :: u64  sg_rdi :: u64  sg_rsi :: u64  sg_rdx :: u64  sg_rcx :: u64  sg_rbx :: u64  sg_rax :: u64

definition import_gprs :: "stack_guest_gprs \<Rightarrow> u64 \<Rightarrow> u64 \<Rightarrow> guest_regs \<Rightarrow> guest_regs" where
  "import_gprs g guest_rsp guest_rip r = r\<lparr>reg_rax := sg_rax g, reg_rbx := sg_rbx g, reg_rcx := sg_rcx g, reg_rdx := sg_rdx g,
     reg_rsi := sg_rsi g, reg_rdi := sg_rdi g, reg_rbp := sg_rbp g, reg_r8 := sg_r8 g, reg_r9 := sg_r9 g, reg_r10 := sg_r10 g,
     reg_r11 := sg_r11 g, reg_r12 := sg_r12 g, reg_r13 := sg_r13 g, reg_r14 := sg_r14 g, reg_r15 := sg_r15 g,
     reg_rsp := guest_rsp, reg_rip := guest_rip\<rparr>"

definition export_gprs :: "guest_regs \<Rightarrow> stack_guest_gprs" where
  "export_gprs r = \<lparr>sg_r15 = reg_r15 r, sg_r14 = reg_r14 r, sg_r13 = reg_r13 r, sg_r12 = reg_r12 r, sg_r11 = reg_r11 r,
     sg_r10 = reg_r10 r, sg_r9 = reg_r9 r, sg_r8 = reg_r8 r, sg_rbp = reg_rbp r, sg_rdi = reg_rdi r, sg_rsi = reg_rsi r,
     sg_rdx = reg_rdx r, sg_rcx = reg_rcx r, sg_rbx = reg_rbx r, sg_rax = reg_rax r\<rparr>"

text \<open>The bookkeeping at the head of the dispatcher.\<close>

definition exit_prologue :: "stack_guest_gprs \<Rightarrow> vcpu \<Rightarrow> vcpu" where
  "exit_prologue g vc =
     vc\<lparr>stats := (stats vc)\<lparr>total_exits := total_exits (stats vc) + 1\<rparr>,
        launched := (if launched vc = 0 then 1 else launched vc),
        regs := import_gprs g (vmread vc ENC_GUEST_RSP) (vmread vc ENC_GUEST_RIP) (regs vc)\<rparr>"

definition dispatch_exit :: "platform \<Rightarrow> nat \<Rightarrow> u64 \<Rightarrow> u64 \<Rightarrow> u64 \<Rightarrow> handler" where
  "dispatch_exit pf me reason qual guest_rip m =
     (if reason = 0 then handle_exception_nmi me m
      else if reason = 1 then handle_external_interrupt m
      else if reason = 2 then handle_triple_fault me m
      else if reason = 44 then handle_apic_access pf me m
      else if reason = 3 then handle_init_signal me m
      else if reason = 12 then handle_hlt me guest_rip m
      else if reason = 10 then handle_cpuid pf me guest_rip m
      else if reason = 30 then handle_io_instruction me guest_rip qual m
      else if reason = 18 then handle_vmcall me guest_rip m
      else if reason = 31 then handle_msr_read me guest_rip m
      else if reason = 32 then handle_msr_write me guest_rip m
      else if reason = 48 then handle_ept_violation pf me qual m
      else if reason = 28 then handle_cr_access pf me qual m
      else if reason = 33 then handle_invalid_guest_state me m
      else if reason = 52 then handle_preemption_timer_expired me m
      else if reason = 49 then handle_ept_misconfig me m
      else if reason = 55 then handle_xsetbv me guest_rip m
      else stop_with VCPU_STATE_STOPPED me m)"

definition handle_vmexit :: "platform \<Rightarrow> nat option \<Rightarrow> stack_guest_gprs \<Rightarrow> machine \<Rightarrow> int option \<times> stack_guest_gprs \<times> machine" where
  "handle_vmexit pf cur g m =
     (case cur of None \<Rightarrow> (Some 0, g, m)
      | Some me \<Rightarrow>
        let vc = mc_vcpus m me; exit_reason = vmread vc ENC_EXIT_REASON in
        if exit_reason AND 0x80000000 \<noteq> 0
        then (Some 0, g, upd_vcpu me (\<lambda>vc. vc\<lparr>vc_state := VCPU_STATE_STOPPED\<rparr>) m)
        else case dispatch_exit pf me (exit_reason AND 0xFFFF) (vmread vc ENC_EXIT_QUALIFICATION) (vmread vc ENC_GUEST_RIP)
                    (upd_vcpu me (exit_prologue g) m) of
          (ret, m) \<Rightarrow> (ret, export_gprs (regs (mc_vcpus m me)), m))"

definition vmx_handle_exit :: "vcpu \<Rightarrow> unit res" where
  "vmx_handle_exit vc = (if vc_state vc = VCPU_STATE_ERROR then Inl EFAULT else Inr ())"

text \<open>The kthread stack pointer kept for the stop path.\<close>

definition relm_vmentry_save_rsp :: "nat option \<Rightarrow> u64 \<Rightarrow> machine \<Rightarrow> machine" where
  "relm_vmentry_save_rsp cur rsp m = (case cur of None \<Rightarrow> m | Some me \<Rightarrow> upd_vcpu me (\<lambda>vc. vc\<lparr>vmentry_host_rsp := rsp\<rparr>) m)"

definition relm_vmentry_get_rsp :: "nat option \<Rightarrow> machine \<Rightarrow> u64" where
  "relm_vmentry_get_rsp cur m = (case cur of None \<Rightarrow> 0
     | Some me \<Rightarrow> if vmentry_host_rsp (mc_vcpus m me) = 0 then 0 else vmentry_host_rsp (mc_vcpus m me))"

section \<open>What handlers leave alone\<close>

named_theorems exit_simps \<open>updates of one vCPU of a machine\<close>

lemma put_vcpu_simps [exit_simps]:
  "mc_vcpus (put_vcpu me vc m) c = (if c = me then vc else mc_vcpus m c)"
  "mc_array (put_vcpu me vc m) = mc_array m" "mc_virtio (put_vcpu me vc m) = mc_virtio m" "mc_vm (put_vcpu me vc m) = mc_vm m"
  "mc_host (put_vcpu me vc m) = mc_host m" "mc_fw (put_vcpu me vc m) = mc_fw m"
  by (simp_all add: put_vcpu_def)

lemma upd_vcpu_simps [exit_simps]:
  "mc_vcpus (upd_vcpu me f m) c = (if c = me then f (mc_vcpus m me) else mc_vcpus m c)"
  "mc_array (upd_vcpu me f m) = mc_array m" "mc_virtio (upd_vcpu me f m) = mc_virtio m" "mc_vm (upd_vcpu me f m) = mc_vm m"
  "mc_host (upd_vcpu me f m) = mc_host m" "mc_fw (upd_vcpu me f m) = mc_fw m"
  by (simp_all add: upd_vcpu_def put_vcpu_simps)

lemma advance_simps [exit_simps, simp]:
  "regs (advance rip vc) = regs vc" "vc_state (advance rip vc) = vc_state vc" "halted (advance rip vc) = halted vc"
  "stats (advance rip vc) = stats vc" "apic (advance rip vc) = apic vc"
  by (simp_all add: advance_def)

lemma vmread_advance [exit_simps]:
  "vmread (advance rip vc) e = (if e = ENC_GUEST_RIP \<and> \<not> vmcs_rejects vc e then rip + vmread vc ENC_EXIT_INSTRUCTION_LEN else vmread vc e)"
  by (auto simp: advance_def vmread_vmwrite)

lemma exit_prologue_simps [exit_simps, simp]:
  "vc_state (exit_prologue g vc) = vc_state vc" "vmread (exit_prologue g vc) e = vmread vc e"
  "vmcs_rejects (exit_prologue g vc) = vmcs_rejects vc" "halted (exit_prologue g vc) = halted vc"
  "apic (exit_prologue g vc) = apic vc"
  "regs (exit_prologue g vc) = import_gprs g (vmread vc ENC_GUEST_RSP) (vmread vc ENC_GUEST_RIP) (regs vc)"
  by (simp_all add: exit_prologue_def vmread_def)

lemma write_efer_keeps [simp]:
  "regs (write_efer v vc) = regs vc" "vc_state (write_efer v vc) = vc_state vc" "vmcs_rejects (write_efer v vc) = vmcs_rejects vc"
  by (simp_all add: write_efer_def Let_def)

lemma vmread_write_efer [simp]:
  "e \<noteq> ENC_GUEST_IA32_EFER \<Longrightarrow> e \<noteq> ENC_ENTRY_CONTROLS \<Longrightarrow> vmread (write_efer v vc) e = vmread vc e"
  by (simp add: write_efer_def Let_def vmread_vmwrite) (simp add: vmread_def vmwrite_def)

lemma cr_handlers_state:
  "relm_cr0_write_handle_exit pf q vc = (r, vc') \<Longrightarrow> vc_state vc' = vc_state vc \<and> regs vc' = regs vc \<and> r \<noteq> 0"
  "relm_cr4_write_handle_exit pf q vc = (r, vc') \<Longrightarrow> vc_state vc' = vc_state vc \<and> regs vc' = regs vc \<and> r \<noteq> 0"
  "relm_cr3_passthrough_handle_exit q t vc = (r, vc') \<Longrightarrow> vc_state vc' = vc_state vc \<and> r = 1 \<and>
     (\<forall>i. i \<noteq> int (cr_source q) \<longrightarrow> guest_reg_read (regs vc') i = guest_reg_read (regs vc) i)"
  by (auto simp: relm_cr0_write_handle_exit_def relm_cr4_write_handle_exit_def relm_cr3_passthrough_handle_exit_def Let_def
      vmwrite_def split: if_splits)

lemma apic_perform_state:
  assumes "apic_perform pf arr me off t d S = (Inr (), S')"
  shows "vc_state (S' c) = vc_state (S c)"
proof (cases "apic_store_type t")
  case True
  with assms obtain v where "S' = snd (relm_apic_write (pf_now pf) (Some arr) me off v S)"
    by (auto simp: apic_perform_def split: option.splits)
  then show ?thesis using outside_apic_keeps [OF apic_write_outside [of S c]] by simp
next
  case False
  with assms show ?thesis by (auto simp: apic_perform_def Let_def split: if_splits prod.splits)
qed

lemma apic_access_state:
  assumes "relm_apic_handle_access pf me m = (Some r, m')"
  shows "if ret_code r = 0 then vc_state (mc_vcpus m' me) = VCPU_STATE_STOPPED else vc_state (mc_vcpus m' me) = vc_state (mc_vcpus m me)"
  using assms
proof (cases rule: apic_handle_cases)
  case 1
  then show ?thesis by (simp add: ret_code_def put_vcpu_simps)
next
  case 2
  then have "ret_code r \<noteq> 0" by (cases r) (auto simp: ret_code_def)
  with 2 show ?thesis by simp
next
  case (3 d S)
  then show ?thesis using apic_perform_state [OF 3(3)] by (simp add: ret_code_def)
qed

lemma mmio_fault_state:
  assumes "relm_virtio_mmio_handle_ept_violation pf me gpa m = (r, m')"
  shows "vc_state (mc_vcpus m' me) = vc_state (mc_vcpus m me)"
  using assms
proof (cases rule: mmio_handle_cases)
  case (2 dev n buf d irq s vc)
  have "vc_state vc = vc_state (mc_vcpus m me)"
    using 2(7) by (auto simp: mmio_perform_def split: relm_memory_access.splits option.splits prod.splits if_splits)
  moreover have "vc_state (snd (vmx_inject_irq q vc)) = vc_state vc" for q
    using outside_apic_keeps [OF inject_outside] by (simp add: vmx_inject_irq_def Let_def)
  ultimately show ?thesis using 2(8) by (simp add: put_vcpu_simps)
qed simp

text \<open>What a return code says about the vCPU.\<close>

definition exit_ok :: "u64 \<Rightarrow> vcpu \<Rightarrow> int \<Rightarrow> vcpu \<Rightarrow> bool" where
  "exit_ok reason vc r vc' \<longleftrightarrow>
     (if r = 0 then vc_state vc' = VCPU_STATE_STOPPED \<or> vc_state vc' = VCPU_STATE_ERROR \<or>
        vc_state vc' = vc_state vc \<and> (reason = 12 \<and> halted vc' \<or>
          reason = 18 \<and> 0x6000 \<le> vmread vc ENC_GUEST_RIP \<and> vmread vc ENC_GUEST_RIP < 0x7000 \<and> reg_rax (regs vc) < 256)
      else vc_state vc' = vc_state vc)"

lemma stop_with_ok: "stop_with st me m = (Some r, m') \<Longrightarrow> st = VCPU_STATE_STOPPED \<or> st = VCPU_STATE_ERROR \<Longrightarrow>
  exit_ok reason (mc_vcpus m me) r (mc_vcpus m' me)"
  by (auto simp: stop_with_def exit_ok_def upd_vcpu_simps)

lemma on_vcpu_ok:
  assumes "on_vcpu me f m = (Some r, m')" "\<And>r vc'. f (mc_vcpus m me) = (r, vc') \<Longrightarrow> vc_state vc' = vc_state (mc_vcpus m me) \<and> r \<noteq> 0"
  shows "exit_ok reason (mc_vcpus m me) r (mc_vcpus m' me)"
  using assms by (auto simp: on_vcpu_def exit_ok_def put_vcpu_simps split: prod.splits)

lemma handle_cr_ok: "handle_cr_access pf me q m = (Some r, m') \<Longrightarrow> exit_ok reason (mc_vcpus m me) r (mc_vcpus m' me)"
  unfolding handle_cr_access_def Let_def
  by (auto split: if_splits elim!: on_vcpu_ok stop_with_ok dest: cr_handlers_state)

lemma handle_io_ok: "handle_io_instruction me rip q m = (Some r, m') \<Longrightarrow> exit_ok reason (mc_vcpus m me) r (mc_vcpus m' me)"
  by (auto simp: handle_io_instruction_def relm_fw_cfg_handle_io_def Let_def exit_ok_def upd_vcpu_simps
      split: if_splits prod.splits)

lemma handle_ept_ok: "handle_ept_violation pf me q m = (Some r, m') \<Longrightarrow> exit_ok reason (mc_vcpus m me) r (mc_vcpus m' me)"
proof -
  assume h: "handle_ept_violation pf me q m = (Some r, m')"
  obtain b n where v: "relm_virtio_mmio_handle_ept_violation pf me (vmread (mc_vcpus m me) ENC_GUEST_PHYSICAL_ADDRESS) m = (b, n)"
    by (metis surj_pair)
  from mmio_fault_state [OF v] h v show ?thesis
    unfolding handle_ept_violation_def Let_def
    by (auto simp: exit_ok_def stop_with_def upd_vcpu_simps split: if_splits option.splits bool.splits)
qed

lemma dispatch_ok:
  assumes "dispatch_exit pf me reason q (vmread (mc_vcpus m me) ENC_GUEST_RIP) m = (Some r, m')"
  shows "exit_ok reason (mc_vcpus m me) r (mc_vcpus m' me)"
proof -
  have apic: "exit_ok reason (mc_vcpus m me) r (mc_vcpus m' me)" if "handle_apic_access pf me m = (Some r, m')"
    using that apic_access_state [of pf me m] by (auto simp: handle_apic_access_def exit_ok_def split: prod.splits if_splits)
  have rest: "exit_ok 12 (mc_vcpus m me) r (mc_vcpus m' me)" if "handle_hlt me rip m = (Some r, m')" for rip
    using that by (auto simp: handle_hlt_def exit_ok_def upd_vcpu_simps)
  have vmc: "exit_ok 18 (mc_vcpus m me) r (mc_vcpus m' me)" if "handle_vmcall me (vmread (mc_vcpus m me) ENC_GUEST_RIP) m = (Some r, m')"
    using that by (auto simp: handle_vmcall_def exit_ok_def upd_vcpu_simps Let_def split: if_splits)
  have easy: "exit_ok reason (mc_vcpus m me) r (mc_vcpus m' me)"
    if "handle_cpuid pf me rip m = (Some r, m') \<or> handle_msr_read me rip m = (Some r, m') \<or> handle_msr_write me rip m = (Some r, m')
      \<or> handle_external_interrupt m = (Some r, m')" for rip
    using that by (auto simp: handle_cpuid_def handle_msr_read_def handle_msr_write_def handle_external_interrupt_def exit_ok_def
        upd_vcpu_simps Let_def)
  have stops: "exit_ok reason (mc_vcpus m me) r (mc_vcpus m' me)"
    if "handle_triple_fault me m = (Some r, m') \<or> handle_init_signal me m = (Some r, m') \<or> handle_invalid_guest_state me m = (Some r, m')
      \<or> handle_preemption_timer_expired me m = (Some r, m') \<or> handle_ept_misconfig me m = (Some r, m') \<or> stop_with VCPU_STATE_STOPPED me m = (Some r, m')"
    using that stop_with_ok
    by (auto simp: handle_triple_fault_def handle_init_signal_def handle_invalid_guest_state_def handle_preemption_timer_expired_def
        handle_ept_misconfig_def)
  have xset: "exit_ok reason (mc_vcpus m me) r (mc_vcpus m' me)" if "handle_xsetbv me rip m = (Some r, m')" for rip
    using that stop_with_ok by (auto simp: handle_xsetbv_def exit_ok_def upd_vcpu_simps Let_def stop_with_def split: if_splits)
  have exc: "exit_ok reason (mc_vcpus m me) r (mc_vcpus m' me)" if "handle_exception_nmi me m = (Some r, m')"
    using that by (auto simp: handle_exception_nmi_def exit_ok_def upd_vcpu_simps Let_def stop_with_def split: if_splits)
  show ?thesis
    using assms apic rest vmc easy [of "vmread (mc_vcpus m me) ENC_GUEST_RIP"] stops xset exc handle_cr_ok [of pf me q m r m' reason] handle_io_ok [of me _ q m r m' reason]
      handle_ept_ok [of pf me q m r m' reason]
    unfolding dispatch_exit_def by (simp split: if_splits)
qed

section \<open>Properties\<close>

abbreviation exit_reason :: "vcpu \<Rightarrow> u64" where
  "exit_reason vc \<equiv> vmread vc ENC_EXIT_REASON AND 0xFFFF"

abbreviation entry_failed :: "vcpu \<Rightarrow> bool" where
  "entry_failed vc \<equiv> vmread vc ENC_EXIT_REASON AND 0x80000000 \<noteq> 0"

lemma handle_vmexit_cases:
  assumes "handle_vmexit pf (Some me) g m = (ret, g', m')"
  obtains "entry_failed (mc_vcpus m me)" "ret = Some 0" "g' = g" "m' = upd_vcpu me (\<lambda>vc. vc\<lparr>vc_state := VCPU_STATE_STOPPED\<rparr>) m"
  | "\<not> entry_failed (mc_vcpus m me)" "g' = export_gprs (regs (mc_vcpus m' me))"
      "dispatch_exit pf me (exit_reason (mc_vcpus m me)) (vmread (mc_vcpus m me) ENC_EXIT_QUALIFICATION)
         (vmread (mc_vcpus m me) ENC_GUEST_RIP) (upd_vcpu me (exit_prologue g) m) = (ret, m')"
  using assms by (auto simp: handle_vmexit_def Let_def split: if_splits prod.splits)

text \<open>The return code of the exit handler tells the assembly stub the truth: zero (unwind to the run
  loop) only when the vCPU has been stopped or put into the error state, when it has executed HLT and is
  marked halted, or for the diagnostic trap of the guest's boot-time exception stubs; non-zero (re-enter the
  guest) only with the life-cycle state of the vCPU unchanged.\<close>

theorem vmexit_return_contract:
  assumes "handle_vmexit pf (Some me) g m = (Some r, g', m')"
  shows "if r = 0 then vc_state (mc_vcpus m' me) = VCPU_STATE_STOPPED \<or> vc_state (mc_vcpus m' me) = VCPU_STATE_ERROR \<or>
        vc_state (mc_vcpus m' me) = vc_state (mc_vcpus m me) \<and>
          (exit_reason (mc_vcpus m me) = 12 \<and> halted (mc_vcpus m' me) \<or>
           exit_reason (mc_vcpus m me) = 18 \<and> 0x6000 \<le> vmread (mc_vcpus m me) ENC_GUEST_RIP \<and>
             vmread (mc_vcpus m me) ENC_GUEST_RIP < 0x7000 \<and> sg_rax g < 256)
      else vc_state (mc_vcpus m' me) = vc_state (mc_vcpus m me)"
  using assms
proof (cases rule: handle_vmexit_cases)
  case 1
  then show ?thesis by (simp add: upd_vcpu_simps)
next
  case 2
  have p: "mc_vcpus (upd_vcpu me (exit_prologue g) m) me = exit_prologue g (mc_vcpus m me)" by (simp add: upd_vcpu_simps)
  have "exit_ok (exit_reason (mc_vcpus m me)) (exit_prologue g (mc_vcpus m me)) r (mc_vcpus m' me)"
    using dispatch_ok [of pf me _ _ "upd_vcpu me (exit_prologue g) m", unfolded p] 2(3) by simp
  then show ?thesis by (auto simp: exit_ok_def import_gprs_def split: if_splits)
qed

theorem vmexit_return_contract_witness:
  "let vc = demo_guest\<lparr>vmcs := (vmcs demo_guest)(ENC_EXIT_REASON := 12)\<rparr>;
       (r, g, m) = handle_vmexit demo_pf (Some 0) (export_gprs demo_regs) (put_vcpu 0 vc demo_machine)
   in r = Some 0 \<and> vc_state (mc_vcpus m 0) = VCPU_STATE_RUNNING \<and> halted (mc_vcpus m 0)"
proof -
  let ?m = "put_vcpu 0 (demo_guest\<lparr>vmcs := (vmcs demo_guest)(ENC_EXIT_REASON := 12)\<rparr>) demo_machine"
  obtain r g m where h: "handle_vmexit demo_pf (Some 0) (export_gprs demo_regs) ?m = (r, g, m)" by (metis surj_pair)
  then have r: "r = Some 0" "vc_state (mc_vcpus m 0) = VCPU_STATE_RUNNING"
    by (auto simp: handle_vmexit_def Let_def put_vcpu_simps upd_vcpu_simps vmread_def dispatch_exit_def handle_hlt_def demo_guest_def demo_vcpu_def
        exit_prologue_def)
  moreover have "halted (mc_vcpus m 0)"
    using vmexit_return_contract [OF h [unfolded r]] r(2) by (auto simp: put_vcpu_simps vmread_def)
  ultimately show ?thesis using h by (simp add: Let_def)
qed

text \<open>The registers of the pushed block by encoding number (the stack pointer is not in it).\<close>

definition gpr :: "stack_guest_gprs \<Rightarrow> int \<Rightarrow> u64" where
  "gpr g i = (if i = 4 then 0 else guest_reg_read (import_gprs g 0 0 \<lparr>reg_rax = 0, reg_rbx = 0, reg_rcx = 0, reg_rdx = 0,
     reg_rsi = 0, reg_rdi = 0, reg_rbp = 0, reg_rsp = 0, reg_r8 = 0, reg_r9 = 0, reg_r10 = 0, reg_r11 = 0, reg_r12 = 0, reg_r13 = 0,
     reg_r14 = 0, reg_r15 = 0, reg_rip = 0, reg_rflags = 0\<rparr>) i)"

lemma gpr_export: "gpr (export_gprs r) i = (if i = 4 then 0 else guest_reg_read r i)"
  by (simp add: gpr_def export_gprs_def import_gprs_def guest_reg_read_def)

lemma gpr_import: "gpr g i = (if i = 4 then 0 else guest_reg_read (import_gprs g a b r) i)"
  by (simp add: gpr_def import_gprs_def guest_reg_read_def)

text \<open>The registers an exit may deliver a result in.\<close>

definition may_write :: "u64 \<Rightarrow> u64 \<Rightarrow> int set \<Rightarrow> bool" where
  "may_write reason qual W \<longleftrightarrow>
     (if reason = 10 then W = {0, 1, 2, 3}
      else if reason = 30 then W = (if qual AND 0x8 \<noteq> 0 then {0} else {})
      else if reason = 31 then W = {0, 2}
      else if reason = 28 then W = {int (cr_source qual)}
      else if reason = 44 \<or> reason = 48 then \<exists>j. W = {j}
      else W = {})"

definition regs_agree :: "int set \<Rightarrow> guest_regs \<Rightarrow> guest_regs \<Rightarrow> bool" where
  "regs_agree W r r' \<longleftrightarrow> (\<forall>i. i \<notin> W \<longrightarrow> guest_reg_read r' i = guest_reg_read r i)"

lemma regs_agree_refl [simp]: "regs_agree W r r"
  by (simp add: regs_agree_def)

lemma regs_agree_write: "regs_agree {i} r (guest_reg_write r i v)"
  by (simp add: regs_agree_def)

lemma regs_agree_write_ex [simp]: "\<exists>j. regs_agree {j} r (guest_reg_write r i v)"
  using regs_agree_write by blast

lemma apic_access_regs:
  assumes "relm_apic_handle_access pf me m = (r, m')"
  shows "\<exists>j. regs_agree {j} (regs (mc_vcpus m me)) (regs (mc_vcpus m' me))"
  using assms
proof (cases rule: apic_handle_cases)
  case (3 d S)
  have "\<exists>j. regs_agree {j} (regs (mc_vcpus m me)) (regs (S me))"
  proof (cases "apic_store_type (apic_acc (mc_vcpus m me))")
    case True
    with 3(3) obtain v where "S = snd (relm_apic_write (pf_now pf) (Some (mc_array m)) me (apic_off (mc_vcpus m me)) v (mc_vcpus m))"
      by (auto simp: apic_perform_def split: option.splits)
    then show ?thesis using outside_apic_keeps [OF apic_write_outside [of "mc_vcpus m" me]] by simp
  next
    case False
    then show ?thesis using 3(3)
      by (auto simp: apic_perform_def Let_def load_commit_def split: if_splits prod.splits)
  qed
  then show ?thesis by (auto simp: 3(4) regs_agree_def)
qed (auto simp: put_vcpu_simps)

lemma mmio_fault_regs:
  assumes "relm_virtio_mmio_handle_ept_violation pf me gpa m = (r, m')"
  shows "\<exists>j. regs_agree {j} (regs (mc_vcpus m me)) (regs (mc_vcpus m' me))"
  using assms
proof (cases rule: mmio_handle_cases)
  case (2 dev n buf d irq s vc)
  have "\<exists>j. regs_agree {j} (regs (mc_vcpus m me)) (regs vc)"
    using 2(7)
    by (auto simp: mmio_perform_def load_commit_def split: relm_memory_access.splits option.splits prod.splits if_splits)
  moreover have "regs (snd (vmx_inject_irq q vc)) = regs vc" for q
    using outside_apic_keeps [OF inject_outside] by (simp add: vmx_inject_irq_def Let_def)
  ultimately show ?thesis using 2(8) by (auto simp: put_vcpu_simps regs_agree_def)
qed simp

lemma stop_with_regs: "stop_with st me m = (r, m') \<Longrightarrow> regs (mc_vcpus m' me) = regs (mc_vcpus m me)"
  by (auto simp: stop_with_def upd_vcpu_simps)

lemma handle_cr_regs: "handle_cr_access pf me q m = (r, m') \<Longrightarrow> regs_agree {int (cr_source q)} (regs (mc_vcpus m me)) (regs (mc_vcpus m' me))"
  by (auto simp: handle_cr_access_def Let_def on_vcpu_def put_vcpu_simps regs_agree_def split: if_splits prod.splits
      dest: stop_with_regs cr_handlers_state)

lemma handle_ept_regs: "handle_ept_violation pf me q m = (r, m') \<Longrightarrow> \<exists>j. regs_agree {j} (regs (mc_vcpus m me)) (regs (mc_vcpus m' me))"
  using mmio_fault_regs [of pf me "vmread (mc_vcpus m me) ENC_GUEST_PHYSICAL_ADDRESS" m]
  by (auto simp: handle_ept_violation_def Let_def split: if_splits prod.splits option.splits bool.splits dest!: stop_with_regs)

lemma handle_data_regs:
  "handle_cpuid pf me rip m = (r, m') \<Longrightarrow> regs_agree {0, 1, 2, 3} (regs (mc_vcpus m me)) (regs (mc_vcpus m' me))"
  "handle_msr_read me rip m = (r, m') \<Longrightarrow> regs_agree {0, 2} (regs (mc_vcpus m me)) (regs (mc_vcpus m' me))"
  "handle_io_instruction me rip q m = (r, m') \<Longrightarrow>
     regs_agree (if q AND 0x8 \<noteq> 0 then {0} else {}) (regs (mc_vcpus m me)) (regs (mc_vcpus m' me))"
  by (auto simp: handle_cpuid_def emulate_cpuid_def handle_msr_read_def handle_io_instruction_def Let_def upd_vcpu_simps regs_agree_def
      guest_reg_read_def split: if_splits prod.splits)

lemma handle_plain_regs:
  "handle_hlt me rip m = (r, m') \<Longrightarrow> regs (mc_vcpus m' me) = regs (mc_vcpus m me)"
  "handle_vmcall me rip m = (r, m') \<Longrightarrow> regs (mc_vcpus m' me) = regs (mc_vcpus m me)"
  "handle_msr_write me rip m = (r, m') \<Longrightarrow> regs (mc_vcpus m' me) = regs (mc_vcpus m me)"
  "handle_xsetbv me rip m = (r, m') \<Longrightarrow> regs (mc_vcpus m' me) = regs (mc_vcpus m me)"
  "handle_exception_nmi me m = (r, m') \<Longrightarrow> regs (mc_vcpus m' me) = regs (mc_vcpus m me)"
  by (auto simp: handle_hlt_def handle_vmcall_def handle_msr_write_def handle_xsetbv_def handle_exception_nmi_def Let_def upd_vcpu_simps
      split: if_splits dest: stop_with_regs)

lemma dispatch_regs:
  assumes "dispatch_exit pf me reason q rip m = (r, m')"
  shows "\<exists>W. may_write reason q W \<and> regs_agree W (regs (mc_vcpus m me)) (regs (mc_vcpus m' me))"
proof -
  have apic: "\<exists>j. regs_agree {j} (regs (mc_vcpus m me)) (regs (mc_vcpus m' me))" if "handle_apic_access pf me m = (r, m')"
    using that apic_access_regs [of pf me m] by (auto simp: handle_apic_access_def split: prod.splits)
  show ?thesis
    using assms apic handle_data_regs(1) [of pf me rip m r m'] handle_data_regs(2) [of me rip m r m'] handle_data_regs(3) [of me rip q m r m']
      handle_plain_regs(1-4) [of me rip m r m'] handle_plain_regs(5) [of me m r m'] handle_cr_regs [of pf me q m r m']
      handle_ept_regs [of pf me q m r m'] stop_with_regs [of _ me m r m']
    unfolding dispatch_exit_def may_write_def
    by (auto simp: handle_external_interrupt_def handle_triple_fault_def handle_init_signal_def handle_invalid_guest_state_def
        handle_preemption_timer_expired_def handle_ept_misconfig_def split: if_splits)
qed

text \<open>(C7) The register contract of the exit path: across any exit, the block of guest registers handed back
  to the assembly stub differs from the block it pushed only in the registers in which that exit delivers
  a result: RAX to RDX for CPUID, RAX for an IN, RAX and RDX for RDMSR, the named register for a
  control-register access, one destination register for an emulated APIC or device access, and none for
  every other exit.\<close>

theorem vmexit_gprs_preserved:
  assumes "handle_vmexit pf (Some me) g m = (r, g', m')"
  shows "g' = g \<or> (\<exists>W. may_write (exit_reason (mc_vcpus m me)) (vmread (mc_vcpus m me) ENC_EXIT_QUALIFICATION) W \<and>
    (\<forall>i. i \<notin> W \<longrightarrow> gpr g' i = gpr g i))"
  using assms
proof (cases rule: handle_vmexit_cases)
  case 2
  from dispatch_regs [OF 2(3)] obtain W where
    "may_write (exit_reason (mc_vcpus m me)) (vmread (mc_vcpus m me) ENC_EXIT_QUALIFICATION) W"
    and "regs_agree W (regs (exit_prologue g (mc_vcpus m me))) (regs (mc_vcpus m' me))"
    by (auto simp: upd_vcpu_simps)
  moreover have "gpr g i = (if i = 4 then 0 else guest_reg_read (regs (exit_prologue g (mc_vcpus m me))) i)" for i
    unfolding exit_prologue_simps by (rule gpr_import)
  ultimately show ?thesis using 2(2) by (auto simp: gpr_export regs_agree_def)
qed simp

theorem vmexit_gprs_preserved_witness:
  "let vc = demo_guest\<lparr>vmcs := (vmcs demo_guest)(ENC_EXIT_REASON := 31)\<rparr>;
       (r, g, m) = handle_vmexit demo_pf (Some 0) (export_gprs (demo_regs\<lparr>reg_r9 := 5\<rparr>)) (put_vcpu 0 vc demo_machine)
   in gpr g 9 = 5"
proof -
  let ?g = "export_gprs (demo_regs\<lparr>reg_r9 := 5\<rparr>)"
  let ?m = "put_vcpu 0 (demo_guest\<lparr>vmcs := (vmcs demo_guest)(ENC_EXIT_REASON := 31)\<rparr>) demo_machine"
  obtain r g m where h: "handle_vmexit demo_pf (Some 0) ?g ?m = (r, g, m)" by (metis surj_pair)
  have "gpr ?g 9 = 5" by (simp add: gpr_export guest_reg_read_def)
  moreover have "gpr g 9 = gpr ?g 9"
    using vmexit_gprs_preserved [OF h] by (auto simp: may_write_def put_vcpu_simps vmread_def)
  ultimately show ?thesis using h by (simp add: Let_def)
qed

text \<open>Exits caused by an instruction that the handler completes.\<close>

lemma vmread_update [simp]:
  "vmread (vc\<lparr>regs := r\<rparr>) e = vmread vc e" "vmread (vc\<lparr>halted := b\<rparr>) e = vmread vc e" "vmread (vc\<lparr>arch_xcr0 := x\<rparr>) e = vmread vc e"
  "vmread (vc\<lparr>arch_cr0 := x\<rparr>) e = vmread vc e" "vmread (vc\<lparr>arch_cr4 := x\<rparr>) e = vmread vc e"
  by (simp_all add: vmread_def)

lemma cr_progress:
  assumes "handle_cr_access pf me q m = (Some 1, m')" "\<not> vmcs_rejects (mc_vcpus m me) ENC_GUEST_RIP"
  shows "vmread (mc_vcpus m' me) ENC_GUEST_RIP = vmread (mc_vcpus m me) ENC_GUEST_RIP + vmread (mc_vcpus m me) ENC_EXIT_INSTRUCTION_LEN"
  using assms
  by (auto simp: handle_cr_access_def on_vcpu_def Let_def put_vcpu_simps stop_with_def relm_cr0_write_handle_exit_def
      relm_cr4_write_handle_exit_def relm_cr3_passthrough_handle_exit_def advance_def vmwrite_def vmread_def split: if_splits)

lemma dispatch_progress:
  assumes d: "dispatch_exit pf me reason q (vmread (mc_vcpus m me) ENC_GUEST_RIP) m = (Some r, m')"
    and ok: "\<not> vmcs_rejects (mc_vcpus m me) ENC_GUEST_RIP"
    and r: "reason \<in> {10, 18, 28, 30, 31, 32, 55} \<and> r = 1 \<or> reason = 12"
  shows "vmread (mc_vcpus m' me) ENC_GUEST_RIP = vmread (mc_vcpus m me) ENC_GUEST_RIP + vmread (mc_vcpus m me) ENC_EXIT_INSTRUCTION_LEN"
proof -
  consider (simple) "reason \<in> {10, 18, 31, 32, 55} \<and> r = 1 \<or> reason = 12" | (io) "reason = 30" "r = 1" | (cr) "reason = 28" "r = 1"
    using r by auto
  then show ?thesis
  proof cases
    case simple
    then show ?thesis using d ok
      by (auto simp: dispatch_exit_def handle_hlt_def handle_cpuid_def handle_vmcall_def handle_msr_read_def handle_msr_write_def handle_xsetbv_def
          stop_with_def Let_def upd_vcpu_simps vmread_advance split: if_splits)
  next
    case io
    then show ?thesis using d ok
      by (auto simp: dispatch_exit_def handle_io_instruction_def Let_def upd_vcpu_simps vmread_advance split: if_splits prod.splits)
  next
    case cr
    then show ?thesis using d ok cr_progress [of pf me q m m'] by (simp add: dispatch_exit_def)
  qed
qed

text \<open>(C31) An exit caused by an instruction the hypervisor completes makes progress: when the guest is to be
  re-entered after CPUID, VMCALL, a control-register access, port I/O, RDMSR, WRMSR or XSETBV, and when it
  has executed HLT, its instruction pointer is past the instruction.\<close>

theorem vmexit_progress:
  assumes h: "handle_vmexit pf (Some me) g m = (Some r, g', m')" and ok: "\<not> vmcs_rejects (mc_vcpus m me) ENC_GUEST_RIP"
    and entered: "\<not> entry_failed (mc_vcpus m me)"
    and r: "exit_reason (mc_vcpus m me) \<in> {10, 18, 28, 30, 31, 32, 55} \<and> r = 1 \<or> exit_reason (mc_vcpus m me) = 12"
  shows "vmread (mc_vcpus m' me) ENC_GUEST_RIP = vmread (mc_vcpus m me) ENC_GUEST_RIP + vmread (mc_vcpus m me) ENC_EXIT_INSTRUCTION_LEN"
  using h
proof (cases rule: handle_vmexit_cases)
  case 1
  with entered show ?thesis by simp
next
  case 2
  have p: "mc_vcpus (upd_vcpu me (exit_prologue g) m) me = exit_prologue g (mc_vcpus m me)" by (simp add: upd_vcpu_simps)
  show ?thesis
    using dispatch_progress [of pf me _ _ "upd_vcpu me (exit_prologue g) m" r m', unfolded p exit_prologue_simps, OF 2(3) ok r] .
qed

theorem vmexit_progress_witness:
  "let vc = demo_guest\<lparr>vmcs := (vmcs demo_guest)(ENC_EXIT_REASON := 10)\<rparr>;
       (r, g, m) = handle_vmexit demo_pf (Some 0) (export_gprs demo_regs) (put_vcpu 0 vc demo_machine)
   in r = Some 1 \<and> vmread (mc_vcpus m 0) ENC_GUEST_RIP = 0x1002"
proof -
  let ?m = "put_vcpu 0 (demo_guest\<lparr>vmcs := (vmcs demo_guest)(ENC_EXIT_REASON := 10)\<rparr>) demo_machine"
  obtain r g m where h: "handle_vmexit demo_pf (Some 0) (export_gprs demo_regs) ?m = (r, g, m)" by (metis surj_pair)
  then have r: "r = Some 1"
    by (auto simp: handle_vmexit_def Let_def put_vcpu_simps upd_vcpu_simps vmread_def dispatch_exit_def handle_cpuid_def)
  have "vmread (mc_vcpus m 0) ENC_GUEST_RIP = 0x1002"
    using vmexit_progress [OF h [unfolded r]] by (simp add: put_vcpu_simps vmread_def demo_guest_def demo_vcpu_def)
  then show ?thesis using h r by (simp add: Let_def)
qed

section \<open>Long mode\<close>

lemma and_bit_64: "(x AND 0x100 \<noteq> (0 :: u64)) = bit x 8" "(x AND 0x80000000 \<noteq> (0 :: u64)) = bit x 31"
  using and_exp_eq_0_iff_not_bit [of x 8] and_exp_eq_0_iff_not_bit [of x 31] by simp_all

lemma efer_mask_bits: "bit (0xD01 :: u64) k \<longleftrightarrow> k = 0 \<or> k = 8 \<or> k = 10 \<or> k = 11"
proof -
  have "(0xD01 :: u64) = 2 ^ 0 OR 2 ^ 8 OR 2 ^ 10 OR 2 ^ 11" by simp
  then show ?thesis by (simp only: bit_or_iff bit_exp_iff) auto
qed

lemma efer_bit: "bit (0x400 :: u64) k \<longleftrightarrow> k = 10" "bit (0x200 :: u32) k \<longleftrightarrow> k = 9"
proof -
  have "(0x400 :: u64) = 2 ^ 10" "(0x200 :: u32) = 2 ^ 9" by simp_all
  then show "bit (0x400 :: u64) k \<longleftrightarrow> k = 10" "bit (0x200 :: u32) k \<longleftrightarrow> k = 9" by (simp_all only: bit_exp_iff) auto
qed

lemma write_efer_spec:
  assumes ok: "\<not> vmcs_rejects vc ENC_GUEST_IA32_EFER" "\<not> vmcs_rejects vc ENC_ENTRY_CONTROLS"
  shows "bit (vmread (write_efer v vc) ENC_GUEST_IA32_EFER) k =
      (if k = 10 then bit v 8 \<and> bit (vmread vc ENC_GUEST_CR0) 31 else (k = 0 \<or> k = 8 \<or> k = 11) \<and> bit v k)"
    and "arch_efer (write_efer v vc) = vmread (write_efer v vc) ENC_GUEST_IA32_EFER"
    and "k < 32 \<Longrightarrow> bit (vmread (write_efer v vc) ENC_ENTRY_CONTROLS) k =
      (if k = 9 then bit (vmread (write_efer v vc) ENC_GUEST_IA32_EFER) 10 else bit (vmread vc ENC_ENTRY_CONTROLS) k)"
proof -
  define lma where "lma = (bit v 8 \<and> bit (vmread vc ENC_GUEST_CR0) 31)"
  define e where "e = (if lma then ((v AND 0xD01) AND NOT 0x400) OR 0x400 else (v AND 0xD01) AND NOT (0x400 :: u64))"
  define c where "c = (if lma then ucast (vmread vc ENC_ENTRY_CONTROLS) OR 0x200 else ucast (vmread vc ENC_ENTRY_CONTROLS) AND NOT (0x200 :: u32))"
  have lme: "(((v AND 0xD01) AND NOT 0x400) AND 0x100 \<noteq> (0 :: u64)) = bit v 8"
    unfolding and_bit_64 bit_and_iff bit_not_iff efer_mask_bits efer_bit by simp
  have same: "vmread ((snd (vmwrite ENC_GUEST_IA32_EFER x vc))\<lparr>arch_efer := x\<rparr>) ENC_ENTRY_CONTROLS = vmread vc ENC_ENTRY_CONTROLS" for x
    by (simp add: vmread_def vmwrite_def)
  have w: "write_efer v vc = vc\<lparr>vmcs := (vmcs vc)(ENC_GUEST_IA32_EFER := e, ENC_ENTRY_CONTROLS := ucast c), arch_efer := e\<rparr>"
    unfolding write_efer_def Let_def lme and_bit_64(2) lma_def [symmetric] e_def [symmetric] same c_def [symmetric]
    using ok by (simp add: vmwrite_def)
  have r: "vmread (write_efer v vc) ENC_GUEST_IA32_EFER = e" "vmread (write_efer v vc) ENC_ENTRY_CONTROLS = ucast c"
    by (simp_all add: w vmread_def)
  have eb: "bit e k = (if k = 10 then lma else (k = 0 \<or> k = 8 \<or> k = 11) \<and> bit v k)" for k
    by (cases lma; simp only: e_def if_True if_False bit_or_iff bit_and_iff bit_not_iff efer_mask_bits efer_bit; auto)
  show "bit (vmread (write_efer v vc) ENC_GUEST_IA32_EFER) k =
      (if k = 10 then bit v 8 \<and> bit (vmread vc ENC_GUEST_CR0) 31 else (k = 0 \<or> k = 8 \<or> k = 11) \<and> bit v k)"
    unfolding r eb lma_def ..
  show "arch_efer (write_efer v vc) = vmread (write_efer v vc) ENC_GUEST_IA32_EFER" by (simp add: r) (simp add: w)
  show "bit (vmread (write_efer v vc) ENC_ENTRY_CONTROLS) k =
      (if k = 9 then bit (vmread (write_efer v vc) ENC_GUEST_IA32_EFER) 10 else bit (vmread vc ENC_ENTRY_CONTROLS) k)" if "k < 32"
    unfolding r eb c_def bit_unsigned_iff
    by (cases lma; simp only: if_True if_False bit_or_iff bit_and_iff bit_not_iff efer_bit bit_unsigned_iff) (use that in auto)
qed

text \<open>A guest write of IA32_EFER leaves the long-mode state consistent: of the guest's value only SCE, LME
  and NXE are taken, LMA is set exactly when LME is set and CR0.PG is on, the software copy agrees with
  the VMCS, and the IA-32e-mode entry control follows LMA with every other control bit unchanged.\<close>

theorem efer_write_consistent:
  assumes h: "handle_vmexit pf (Some me) g m = (r, g', m')" and entered: "\<not> entry_failed (mc_vcpus m me)"
    and wrmsr: "exit_reason (mc_vcpus m me) = 32" "ucast (sg_rcx g AND 0xFFFFFFFF) = MSR_IA32_EFER"
    and ok: "\<not> vmcs_rejects (mc_vcpus m me) ENC_GUEST_IA32_EFER" "\<not> vmcs_rejects (mc_vcpus m me) ENC_ENTRY_CONTROLS"
  shows "bit (vmread (mc_vcpus m' me) ENC_GUEST_IA32_EFER) k =
      (if k = 10 then bit (sg_rax g) 8 \<and> bit (vmread (mc_vcpus m me) ENC_GUEST_CR0) 31
       else (k = 0 \<or> k = 8 \<or> k = 11) \<and> bit (sg_rax g) k)
    \<and> arch_efer (mc_vcpus m' me) = vmread (mc_vcpus m' me) ENC_GUEST_IA32_EFER
    \<and> (k < 32 \<longrightarrow> bit (vmread (mc_vcpus m' me) ENC_ENTRY_CONTROLS) k =
         (if k = 9 then bit (vmread (mc_vcpus m' me) ENC_GUEST_IA32_EFER) 10 else bit (vmread (mc_vcpus m me) ENC_ENTRY_CONTROLS) k))"
  using h
proof (cases rule: handle_vmexit_cases)
  case 1
  with entered show ?thesis by simp
next
  case 2
  let ?vc = "exit_prologue g (mc_vcpus m me)"
  let ?v = "push_bit 32 (sg_rdx g) OR (sg_rax g AND 0xFFFFFFFF)"
  have v: "bit ?v k = bit (sg_rax g) k" if "k < 32" for k
  proof -
    have "bit (0xFFFFFFFF :: u64) k" using that bit_mask_iff [of 32 k, where 'a = "64 word"] by (simp add: mask_eq_exp_minus_1)
    then show ?thesis using that by (simp add: bit_or_iff bit_and_iff bit_push_bit_iff)
  qed
  have vk: "((k = 0 \<or> k = 8 \<or> k = 11) \<and> bit ?v k) = ((k = 0 \<or> k = 8 \<or> k = 11) \<and> bit (sg_rax g) k)" using v [of k] by auto
  have m': "mc_vcpus m' me = advance (vmread (mc_vcpus m me) ENC_GUEST_RIP) (write_efer ?v ?vc)"
    using 2(3) wrmsr(2) unfolding wrmsr(1)
    by (auto simp: dispatch_exit_def handle_msr_write_def Let_def upd_vcpu_simps import_gprs_def)
  have a: "arch_efer (advance x y) = arch_efer y" for x y by (simp add: advance_def)
  show ?thesis
    using write_efer_spec(1,3) [where vc = ?vc and v = ?v and k = k] write_efer_spec(2) [where vc = ?vc and v = ?v] ok v [of 8] unfolding m' vk
    by (simp add: vmread_advance a)
qed

theorem efer_write_consistent_witness:
  "let vc = demo_guest\<lparr>vmcs := (vmcs demo_guest)(ENC_EXIT_REASON := 32, ENC_GUEST_CR0 := 0x80000001)\<rparr>;
       g = export_gprs (demo_regs\<lparr>reg_rcx := 0xC0000080, reg_rax := 0x100\<rparr>);
       (r, g, m) = handle_vmexit demo_pf (Some 0) g (put_vcpu 0 vc demo_machine)
   in bit (vmread (mc_vcpus m 0) ENC_GUEST_IA32_EFER) 10 \<and> bit (vmread (mc_vcpus m 0) ENC_ENTRY_CONTROLS) 9"
proof -
  let ?g = "export_gprs (demo_regs\<lparr>reg_rcx := 0xC0000080, reg_rax := 0x100\<rparr>)"
  let ?m = "put_vcpu 0 (demo_guest\<lparr>vmcs := (vmcs demo_guest)(ENC_EXIT_REASON := 32, ENC_GUEST_CR0 := 0x80000001)\<rparr>) demo_machine"
  obtain r g m where h: "handle_vmexit demo_pf (Some 0) ?g ?m = (r, g, m)" by (metis surj_pair)
  have b: "bit (0x80000001 :: u64) 31" "bit (0x100 :: u64) 8" by simp_all
  note t = efer_write_consistent [OF h, simplified put_vcpu_simps vmread_def demo_guest_def demo_vcpu_def export_gprs_def, simplified]
  show ?thesis using h t [of 10] t [of 9] b by (simp add: Let_def vmread_def)
qed

text \<open>An intercepted write of CR0 that turns paging on (or off) does not touch IA32_EFER or the entry controls:
  with LME set and LMA clear, the write that sets PG leaves LMA clear, so the consistency that a write of
  IA32_EFER establishes is lost.\<close>

theorem cr0_write_breaks_lma:
  assumes h: "relm_cr0_write_handle_exit pf q vc = (1, vc')" and ok: "\<forall>e. \<not> vmcs_rejects vc e"
    and lme: "bit (vmread vc ENC_GUEST_IA32_EFER) 8" "\<not> bit (vmread vc ENC_GUEST_IA32_EFER) 10"
    and pg: "bit (guest_reg_read (regs vc) (int (cr_source q))) 31" "bit (pf_cr0_fixed1 pf) 31" and src: "cr_source q \<le> 15"
  shows "bit (vmread vc' ENC_GUEST_CR0) 31 \<and> bit (vmread vc' ENC_GUEST_IA32_EFER) 8 \<and> \<not> bit (vmread vc' ENC_GUEST_IA32_EFER) 10"
  using h ok lme pg src
  by (auto simp: relm_cr0_write_handle_exit_def Let_def advance_def vmwrite_def vmread_def bit_and_iff bit_or_iff split: if_splits)

theorem cr0_write_breaks_lma_witness:
  "let vc = demo_guest\<lparr>vmcs := (vmcs demo_guest)(ENC_GUEST_IA32_EFER := 0x100), regs := demo_regs\<lparr>reg_rax := 0x80000001\<rparr>\<rparr>;
       vc' = snd (relm_cr0_write_handle_exit demo_pf 0 vc)
   in bit (vmread vc' ENC_GUEST_CR0) 31 \<and> bit (vmread vc' ENC_GUEST_IA32_EFER) 8 \<and> \<not> bit (vmread vc' ENC_GUEST_IA32_EFER) 10"
proof -
  let ?vc = "demo_guest\<lparr>vmcs := (vmcs demo_guest)(ENC_GUEST_IA32_EFER := 0x100), regs := demo_regs\<lparr>reg_rax := 0x80000001\<rparr>\<rparr>"
  obtain r vc' where h: "relm_cr0_write_handle_exit demo_pf 0 ?vc = (r, vc')" by (metis surj_pair)
  have "r = 1" using h
    by (auto simp: relm_cr0_write_handle_exit_def Let_def vmwrite_def cr_source_def demo_guest_def demo_vcpu_def)
  with cr0_write_breaks_lma [of demo_pf 0 ?vc vc'] h show ?thesis
    by (simp add: vmread_def demo_guest_def demo_vcpu_def cr_source_def guest_reg_read_def demo_pf_def Let_def)
qed

section \<open>Exits that go wrong\<close>

text \<open>A VM has no firmware device unless something sets its \<open>fw_data\<close> pointer, and then a guest that
  writes the selector port, or reads the data port, makes the exit handler dereference a null pointer.\<close>

theorem fw_port_null_deref:
  assumes "mc_fw m = None" "\<not> entry_failed (mc_vcpus m me)" "exit_reason (mc_vcpus m me) = 30"
    and "ucast (drop_bit 16 (vmread (mc_vcpus m me) ENC_EXIT_QUALIFICATION) AND 0xFFFF) = (0x510 :: u16)"
    and "vmread (mc_vcpus m me) ENC_EXIT_QUALIFICATION AND 0x8 = 0" "vmread (mc_vcpus m me) ENC_EXIT_QUALIFICATION AND 0x10 = 0"
      "vmread (mc_vcpus m me) ENC_EXIT_QUALIFICATION AND 0x20 = 0"
  shows "fst (handle_vmexit pf (Some me) g m) = None"
  using assms
  by (simp add: handle_vmexit_def Let_def dispatch_exit_def handle_io_instruction_def fw_touched_def upd_vcpu_simps split: prod.split)

theorem fw_port_null_deref_witness:
  "let vc = demo_guest\<lparr>vmcs := (vmcs demo_guest)(ENC_EXIT_REASON := 30, ENC_EXIT_QUALIFICATION := 0x5100001)\<rparr>
   in fst (handle_vmexit demo_pf (Some 0) (export_gprs demo_regs) (put_vcpu 0 vc demo_machine)) = None"
  using fw_port_null_deref [of "put_vcpu 0 (demo_guest\<lparr>vmcs := (vmcs demo_guest)(ENC_EXIT_REASON := 30,
      ENC_EXIT_QUALIFICATION := 0x5100001)\<rparr>) demo_machine" 0 demo_pf "export_gprs demo_regs"]
  by (simp add: put_vcpu_simps vmread_def Let_def) (simp add: demo_machine_def)

text \<open>An IN from the firmware data port replaces the whole of RAX by the bytes read, whatever the operand
  size: after a one-byte IN the upper 56 bits of RAX are zero, where the instruction leaves them alone.\<close>

theorem fw_in_clobbers_rax:
  assumes "mc_fw m = Some fw" "\<not> entry_failed (mc_vcpus m me)" "exit_reason (mc_vcpus m me) = 30"
    and q: "vmread (mc_vcpus m me) ENC_EXIT_QUALIFICATION = 0x5110008"
    and h: "handle_vmexit pf (Some me) g m = (r, g', m')"
  shows "r = Some 1 \<and> sg_rax g' = ucast (fst (relm_fw_cfg_read fw))"
proof -
  obtain b f where rd: "relm_fw_cfg_read fw = (b, f)" by (metis surj_pair)
  have "(ucast (ucast (b :: u8) :: u32) :: u64) = ucast b" by (rule bit_word_eqI) (auto simp: bit_simps dest: bit_imp_le_length)
  with rd show ?thesis using assms
    by (auto simp: handle_vmexit_def Let_def dispatch_exit_def handle_io_instruction_def fw_touched_def upd_vcpu_simps
        relm_fw_cfg_handle_io_def export_gprs_def split: prod.splits)
qed

theorem fw_in_clobbers_rax_witness:
  "let vc = demo_guest\<lparr>vmcs := (vmcs demo_guest)(ENC_EXIT_REASON := 30, ENC_EXIT_QUALIFICATION := 0x5110008)\<rparr>;
       m = (put_vcpu 0 vc demo_machine)\<lparr>mc_fw := Some relm_fw_cfg_init\<rparr>
   in sg_rax (fst (snd (handle_vmexit demo_pf (Some 0) (export_gprs (demo_regs\<lparr>reg_rax := 0x1234\<rparr>)) m))) = 0"
proof -
  let ?m = "(put_vcpu 0 (demo_guest\<lparr>vmcs := (vmcs demo_guest)(ENC_EXIT_REASON := 30, ENC_EXIT_QUALIFICATION := 0x5110008)\<rparr>)
    demo_machine)\<lparr>mc_fw := Some relm_fw_cfg_init\<rparr>"
  obtain r g m where h: "handle_vmexit demo_pf (Some 0) (export_gprs (demo_regs\<lparr>reg_rax := 0x1234\<rparr>)) ?m = (r, g, m)" by (metis surj_pair)
  have "sg_rax g = ucast (fst (relm_fw_cfg_read relm_fw_cfg_init))"
    by (rule conjunct2 [OF fw_in_clobbers_rax [OF _ _ _ _ h]]) (simp_all add: put_vcpu_simps vmread_def)
  with h show ?thesis by (simp add: Let_def relm_fw_cfg_read_def relm_fw_cfg_init_def)
qed

text \<open>The guest executing the same instruction again and again: the exits after the first find the same exit
  information in the VMCS, because nothing in it has changed.\<close>

fun exits :: "platform \<Rightarrow> nat \<Rightarrow> nat \<Rightarrow> stack_guest_gprs \<times> machine \<Rightarrow> stack_guest_gprs \<times> machine" where
  "exits pf me 0 s = s"
| "exits pf me (Suc n) s = (case handle_vmexit pf (Some me) (fst s) (snd s) of (_, g, m) \<Rightarrow> exits pf me n (g, m))"

definition same_exit :: "nat \<Rightarrow> machine \<Rightarrow> machine \<Rightarrow> bool" where
  "same_exit me m n \<longleftrightarrow> mc_virtio n = mc_virtio m \<and> mc_vm n = mc_vm m \<and> mc_host n = mc_host m \<and>
     vmcs (mc_vcpus n me) = vmcs (mc_vcpus m me) \<and> vc_state (mc_vcpus n me) = vc_state (mc_vcpus m me)"

lemma same_exit_prologue [simp]: "same_exit me m (upd_vcpu me (exit_prologue g) m)"
  by (simp add: same_exit_def upd_vcpu_simps exit_prologue_def)

lemma same_exit_trans: "same_exit me a b \<Longrightarrow> same_exit me b c \<Longrightarrow> same_exit me a c"
  by (simp add: same_exit_def)

lemma apic_perform_accepts:
  assumes "apic_fetch pf vm h vc rip n off t = Some (Inr d)"
  shows "fst (apic_perform pf arr me off t d S) = Inr ()"
  using apic_fetch_Inr [OF assms]
  by (auto simp: apic_perform_def store_value_def insn_contract_def Let_def split: if_splits prod.split)

lemma apic_handle_Inl:
  "relm_apic_handle_access pf me m = (Some (Inl e), m') \<longleftrightarrow> m' = m \<and> apic_acc (mc_vcpus m me) \<noteq> APIC_ACCESS_TYPE_LINEAR_FETCH \<and>
     (let len = vmread (mc_vcpus m me) ENC_EXIT_INSTRUCTION_LEN in
      if len = 0 \<or> len > 15 then e = EINVAL
      else apic_fetch pf (Some (vm_memory m)) (mc_host m) (mc_vcpus m me) (vmread (mc_vcpus m me) ENC_GUEST_RIP) (unat len)
             (apic_off (mc_vcpus m me)) (apic_acc (mc_vcpus m me)) = Some (Inl e))"
proof -
  let ?f = "apic_fetch pf (Some (vm_memory m)) (mc_host m) (mc_vcpus m me) (vmread (mc_vcpus m me) ENC_GUEST_RIP)
    (unat (vmread (mc_vcpus m me) ENC_EXIT_INSTRUCTION_LEN)) (apic_off (mc_vcpus m me)) (apic_acc (mc_vcpus m me))"
  have p: "fst (apic_perform pf (mc_array m) me (apic_off (mc_vcpus m me)) (apic_acc (mc_vcpus m me)) d (mc_vcpus m)) = Inr ()"
    if "?f = Some (Inr d)" for d using that by (rule apic_perform_accepts)
  show ?thesis
  proof (cases ?f)
    case None
    then show ?thesis by (auto simp: relm_apic_handle_access_def Let_def)
  next
    case (Some x)
    then show ?thesis using p
      by (cases x) (auto simp: relm_apic_handle_access_def Let_def split: prod.splits)
  qed
qed

lemma apic_error_again:
  assumes "relm_apic_handle_access pf me m = (Some (Inl e), m')" "same_exit me m n"
  shows "relm_apic_handle_access pf me n = (Some (Inl e), n)"
proof -
  have v: "vmread (mc_vcpus n me) x = vmread (mc_vcpus m me) x" for x using assms(2) by (simp add: same_exit_def vmread_def)
  have c: "ctl_of (mc_vcpus n me) = ctl_of (mc_vcpus m me)" by (simp add: ctl_of_def v)
  have f: "apic_fetch pf (Some (vm_memory n)) (mc_host n) (mc_vcpus n me) rip k off t =
      apic_fetch pf (Some (vm_memory m)) (mc_host m) (mc_vcpus m me) rip k off t" for rip k off t
    using assms(2) by (simp add: apic_fetch_def c same_exit_def)
  from assms(1) show ?thesis unfolding apic_handle_Inl Let_def v f by blast
qed

text \<open>An APIC access that cannot be emulated (an instruction the decoder rejects, a wrong width, a failing
  fetch) hands a negative error code to the assembly stub, which re-enters the guest on every non-zero code:
  the guest executes the same instruction again. However often that happens, the instruction pointer has not
  moved, the vCPU is not stopped, and the next exit gives the same code.\<close>

theorem apic_error_livelock:
  assumes entered: "\<not> entry_failed (mc_vcpus m me)" and apic: "exit_reason (mc_vcpus m me) = 44"
    and err: "relm_apic_handle_access pf me (upd_vcpu me (exit_prologue g) m) = (Some (Inl e), x)"
  shows "case exits pf me n (g, m) of (g', m') \<Rightarrow>
      fst (handle_vmexit pf (Some me) g' m') = Some (- errno_code e) \<and> - errno_code e \<noteq> 0 \<and>
      vmread (mc_vcpus m' me) ENC_GUEST_RIP = vmread (mc_vcpus m me) ENC_GUEST_RIP \<and> vc_state (mc_vcpus m' me) = vc_state (mc_vcpus m me)"
proof -
  have step: "handle_vmexit pf (Some me) g' m' = (Some (- errno_code e), export_gprs (regs (mc_vcpus q me)), q)"
    if "same_exit me m m'" "q = upd_vcpu me (exit_prologue g') m'" for g' m' q
  proof -
    have "same_exit me (upd_vcpu me (exit_prologue g) m) q" using that by (simp add: same_exit_def upd_vcpu_simps exit_prologue_def)
    from apic_error_again [OF err this] that entered apic show ?thesis
      by (simp add: handle_vmexit_def Let_def dispatch_exit_def handle_apic_access_def ret_code_def same_exit_def vmread_def)
  qed
  have "same_exit me m m' \<Longrightarrow> case exits pf me n (g', m') of (g'', m'') \<Rightarrow> same_exit me m m''" for g' m'
  proof (induction n arbitrary: g' m')
    case (Suc n)
    have "same_exit me m (upd_vcpu me (exit_prologue g') m')" using same_exit_trans [OF Suc.prems] by simp
    from Suc.IH [OF this] show ?case by (simp add: step [OF Suc.prems refl])
  qed simp
  from this [of m g] show ?thesis
    by (auto simp: step same_exit_def vmread_def split: prod.splits)
qed

theorem apic_error_livelock_witness:
  "let vc = demo_guest\<lparr>vmcs := (vmcs demo_guest)(ENC_EXIT_REASON := 44, ENC_EXIT_INSTRUCTION_LEN := 0)\<rparr>;
       s = exits demo_pf 0 1000 (export_gprs demo_regs, put_vcpu 0 vc demo_machine)
   in fst (handle_vmexit demo_pf (Some 0) (fst s) (snd s)) = Some (- 22)"
proof -
  let ?m = "put_vcpu 0 (demo_guest\<lparr>vmcs := (vmcs demo_guest)(ENC_EXIT_REASON := 44, ENC_EXIT_INSTRUCTION_LEN := 0)\<rparr>) demo_machine"
  have "relm_apic_handle_access demo_pf 0 (upd_vcpu 0 (exit_prologue (export_gprs demo_regs)) ?m) =
      (Some (Inl EINVAL), upd_vcpu 0 (exit_prologue (export_gprs demo_regs)) ?m)"
    by (simp add: apic_handle_Inl upd_vcpu_simps put_vcpu_simps Let_def vmread_def demo_guest_def exit_prologue_def)
  from apic_error_livelock [OF _ _ this, of 1000] show ?thesis
    by (simp add: put_vcpu_simps vmread_def split: prod.splits)
qed

end
