(* ===== verification/Relm_Vmx_Setup.thy ===== *)
theory Relm_Vmx_Setup
  imports Relm_Apic_Props
begin

text \<open>
  Setting up a VMX vCPU (src/arch/x86/vmx/vmx.c, include/arch/x86/vmx/vmcs.h, vmcs_state.h): the
  execution controls and their capability registers, the control registers, the host state, the
  guest state in its three variants, and the second phase \<open>vmx_vcpu_init\<close>. A run of checked VMWRITEs
  is a list of fields and values. The theorems: the controls respect the capabilities, phase 2 leaves
  a guest state that satisfies the long-mode entry conditions, and the places where the code does not
  do what it means to.
\<close>

section \<open>Fields and checked writes\<close>

abbreviation (input) ENC_VMCS_VPID :: nat where "ENC_VMCS_VPID \<equiv> 0x0"
abbreviation (input) ENC_GUEST_ES_SELECTOR :: nat where "ENC_GUEST_ES_SELECTOR \<equiv> 0x800"
abbreviation (input) ENC_GUEST_CS_SELECTOR :: nat where "ENC_GUEST_CS_SELECTOR \<equiv> 0x802"
abbreviation (input) ENC_GUEST_SS_SELECTOR :: nat where "ENC_GUEST_SS_SELECTOR \<equiv> 0x804"
abbreviation (input) ENC_GUEST_DS_SELECTOR :: nat where "ENC_GUEST_DS_SELECTOR \<equiv> 0x806"
abbreviation (input) ENC_GUEST_FS_SELECTOR :: nat where "ENC_GUEST_FS_SELECTOR \<equiv> 0x808"
abbreviation (input) ENC_GUEST_GS_SELECTOR :: nat where "ENC_GUEST_GS_SELECTOR \<equiv> 0x80a"
abbreviation (input) ENC_GUEST_LDTR_SELECTOR :: nat where "ENC_GUEST_LDTR_SELECTOR \<equiv> 0x80c"
abbreviation (input) ENC_GUEST_TR_SELECTOR :: nat where "ENC_GUEST_TR_SELECTOR \<equiv> 0x80e"
abbreviation (input) ENC_HOST_ES_SELECTOR :: nat where "ENC_HOST_ES_SELECTOR \<equiv> 0xc00"
abbreviation (input) ENC_HOST_CS_SELECTOR :: nat where "ENC_HOST_CS_SELECTOR \<equiv> 0xc02"
abbreviation (input) ENC_HOST_SS_SELECTOR :: nat where "ENC_HOST_SS_SELECTOR \<equiv> 0xc04"
abbreviation (input) ENC_HOST_DS_SELECTOR :: nat where "ENC_HOST_DS_SELECTOR \<equiv> 0xc06"
abbreviation (input) ENC_HOST_FS_SELECTOR :: nat where "ENC_HOST_FS_SELECTOR \<equiv> 0xc08"
abbreviation (input) ENC_HOST_GS_SELECTOR :: nat where "ENC_HOST_GS_SELECTOR \<equiv> 0xc0a"
abbreviation (input) ENC_HOST_TR_SELECTOR :: nat where "ENC_HOST_TR_SELECTOR \<equiv> 0xc0c"
abbreviation (input) ENC_VMCS_IO_BITMAP_A :: nat where "ENC_VMCS_IO_BITMAP_A \<equiv> 0x2000"
abbreviation (input) ENC_VMCS_IO_BITMAP_B :: nat where "ENC_VMCS_IO_BITMAP_B \<equiv> 0x2002"
abbreviation (input) ENC_VMCS_MSR_BITMAP :: nat where "ENC_VMCS_MSR_BITMAP \<equiv> 0x2004"
abbreviation (input) ENC_VMCS_EXIT_MSR_STORE_ADDR :: nat where "ENC_VMCS_EXIT_MSR_STORE_ADDR \<equiv> 0x2006"
abbreviation (input) ENC_VMCS_EXIT_MSR_STORE_COUNT :: nat where "ENC_VMCS_EXIT_MSR_STORE_COUNT \<equiv> 0x2007"
abbreviation (input) ENC_VMCS_EXIT_MSR_LOAD_ADDR :: nat where "ENC_VMCS_EXIT_MSR_LOAD_ADDR \<equiv> 0x2008"
abbreviation (input) ENC_VMCS_EXIT_MSR_LOAD_COUNT :: nat where "ENC_VMCS_EXIT_MSR_LOAD_COUNT \<equiv> 0x2009"
abbreviation (input) ENC_VMCS_ENTRY_MSR_LOAD_ADDR :: nat where "ENC_VMCS_ENTRY_MSR_LOAD_ADDR \<equiv> 0x200a"
abbreviation (input) ENC_VMCS_ENTRY_MSR_LOAD_COUNT :: nat where "ENC_VMCS_ENTRY_MSR_LOAD_COUNT \<equiv> 0x200b"
abbreviation (input) ENC_EPT_POINTER :: nat where "ENC_EPT_POINTER \<equiv> 0x201a"
abbreviation (input) ENC_VMCS_LINK_POINTER :: nat where "ENC_VMCS_LINK_POINTER \<equiv> 0x2800"
abbreviation (input) ENC_GUEST_IA32_PAT :: nat where "ENC_GUEST_IA32_PAT \<equiv> 0x2804"
abbreviation (input) ENC_HOST_IA32_PAT :: nat where "ENC_HOST_IA32_PAT \<equiv> 0x2c00"
abbreviation (input) ENC_HOST_IA32_EFER :: nat where "ENC_HOST_IA32_EFER \<equiv> 0x2c02"
abbreviation (input) ENC_PIN_CONTROLS :: nat where "ENC_PIN_CONTROLS \<equiv> 0x4000"
abbreviation (input) ENC_PRIMARY_CONTROLS :: nat where "ENC_PRIMARY_CONTROLS \<equiv> 0x4002"
abbreviation (input) ENC_VMCS_EXCEPTION_BITMAP :: nat where "ENC_VMCS_EXCEPTION_BITMAP \<equiv> 0x4004"
abbreviation (input) ENC_CR3_TARGET_COUNT :: nat where "ENC_CR3_TARGET_COUNT \<equiv> 0x400a"
abbreviation (input) ENC_EXIT_CONTROLS :: nat where "ENC_EXIT_CONTROLS \<equiv> 0x400c"
abbreviation (input) ENC_GUEST_ES_LIMIT :: nat where "ENC_GUEST_ES_LIMIT \<equiv> 0x4800"
abbreviation (input) ENC_GUEST_CS_LIMIT :: nat where "ENC_GUEST_CS_LIMIT \<equiv> 0x4802"
abbreviation (input) ENC_GUEST_SS_LIMIT :: nat where "ENC_GUEST_SS_LIMIT \<equiv> 0x4804"
abbreviation (input) ENC_GUEST_DS_LIMIT :: nat where "ENC_GUEST_DS_LIMIT \<equiv> 0x4806"
abbreviation (input) ENC_GUEST_FS_LIMIT :: nat where "ENC_GUEST_FS_LIMIT \<equiv> 0x4808"
abbreviation (input) ENC_GUEST_GS_LIMIT :: nat where "ENC_GUEST_GS_LIMIT \<equiv> 0x480a"
abbreviation (input) ENC_GUEST_LDTR_LIMIT :: nat where "ENC_GUEST_LDTR_LIMIT \<equiv> 0x480c"
abbreviation (input) ENC_GUEST_TR_LIMIT :: nat where "ENC_GUEST_TR_LIMIT \<equiv> 0x480e"
abbreviation (input) ENC_GUEST_GDTR_LIMIT :: nat where "ENC_GUEST_GDTR_LIMIT \<equiv> 0x4810"
abbreviation (input) ENC_GUEST_IDTR_LIMIT :: nat where "ENC_GUEST_IDTR_LIMIT \<equiv> 0x4812"
abbreviation (input) ENC_GUEST_ES_AR_BYTES :: nat where "ENC_GUEST_ES_AR_BYTES \<equiv> 0x4814"
abbreviation (input) ENC_GUEST_SS_AR_BYTES :: nat where "ENC_GUEST_SS_AR_BYTES \<equiv> 0x4818"
abbreviation (input) ENC_GUEST_DS_AR_BYTES :: nat where "ENC_GUEST_DS_AR_BYTES \<equiv> 0x481a"
abbreviation (input) ENC_GUEST_FS_AR_BYTES :: nat where "ENC_GUEST_FS_AR_BYTES \<equiv> 0x481c"
abbreviation (input) ENC_GUEST_GS_AR_BYTES :: nat where "ENC_GUEST_GS_AR_BYTES \<equiv> 0x481e"
abbreviation (input) ENC_GUEST_LDTR_AR_BYTES :: nat where "ENC_GUEST_LDTR_AR_BYTES \<equiv> 0x4820"
abbreviation (input) ENC_GUEST_TR_AR_BYTES :: nat where "ENC_GUEST_TR_AR_BYTES \<equiv> 0x4822"
abbreviation (input) ENC_GUEST_INTERRUPTIBILITY_INFO :: nat where "ENC_GUEST_INTERRUPTIBILITY_INFO \<equiv> 0x4824"
abbreviation (input) ENC_GUEST_ACTIVITY_STATE :: nat where "ENC_GUEST_ACTIVITY_STATE \<equiv> 0x4826"
abbreviation (input) ENC_CR0_GUEST_HOST_MASK :: nat where "ENC_CR0_GUEST_HOST_MASK \<equiv> 0x6000"
abbreviation (input) ENC_CR4_GUEST_HOST_MASK :: nat where "ENC_CR4_GUEST_HOST_MASK \<equiv> 0x6002"
abbreviation (input) ENC_CR3_TARGET_VALUE0 :: nat where "ENC_CR3_TARGET_VALUE0 \<equiv> 0x6008"
abbreviation (input) ENC_CR3_TARGET_VALUE1 :: nat where "ENC_CR3_TARGET_VALUE1 \<equiv> 0x600a"
abbreviation (input) ENC_CR3_TARGET_VALUE2 :: nat where "ENC_CR3_TARGET_VALUE2 \<equiv> 0x600c"
abbreviation (input) ENC_CR3_TARGET_VALUE3 :: nat where "ENC_CR3_TARGET_VALUE3 \<equiv> 0x600e"
abbreviation (input) ENC_GUEST_ES_BASE :: nat where "ENC_GUEST_ES_BASE \<equiv> 0x6806"
abbreviation (input) ENC_GUEST_SS_BASE :: nat where "ENC_GUEST_SS_BASE \<equiv> 0x680a"
abbreviation (input) ENC_GUEST_DS_BASE :: nat where "ENC_GUEST_DS_BASE \<equiv> 0x680c"
abbreviation (input) ENC_GUEST_FS_BASE :: nat where "ENC_GUEST_FS_BASE \<equiv> 0x680e"
abbreviation (input) ENC_GUEST_GS_BASE :: nat where "ENC_GUEST_GS_BASE \<equiv> 0x6810"
abbreviation (input) ENC_GUEST_LDTR_BASE :: nat where "ENC_GUEST_LDTR_BASE \<equiv> 0x6812"
abbreviation (input) ENC_GUEST_TR_BASE :: nat where "ENC_GUEST_TR_BASE \<equiv> 0x6814"
abbreviation (input) ENC_GUEST_GDTR_BASE :: nat where "ENC_GUEST_GDTR_BASE \<equiv> 0x6816"
abbreviation (input) ENC_GUEST_IDTR_BASE :: nat where "ENC_GUEST_IDTR_BASE \<equiv> 0x6818"
abbreviation (input) ENC_GUEST_RFLAGS :: nat where "ENC_GUEST_RFLAGS \<equiv> 0x6820"
abbreviation (input) ENC_GUEST_PENDING_DBG_EXCEPTIONS :: nat where "ENC_GUEST_PENDING_DBG_EXCEPTIONS \<equiv> 0x6822"
abbreviation (input) ENC_HOST_CR0 :: nat where "ENC_HOST_CR0 \<equiv> 0x6c00"
abbreviation (input) ENC_HOST_CR3 :: nat where "ENC_HOST_CR3 \<equiv> 0x6c02"
abbreviation (input) ENC_HOST_CR4 :: nat where "ENC_HOST_CR4 \<equiv> 0x6c04"
abbreviation (input) ENC_HOST_FS_BASE :: nat where "ENC_HOST_FS_BASE \<equiv> 0x6c06"
abbreviation (input) ENC_HOST_GS_BASE :: nat where "ENC_HOST_GS_BASE \<equiv> 0x6c08"
abbreviation (input) ENC_HOST_TR_BASE :: nat where "ENC_HOST_TR_BASE \<equiv> 0x6c0a"
abbreviation (input) ENC_HOST_SYSENTER_CS :: nat where "ENC_HOST_SYSENTER_CS \<equiv> 0x6c0c"
abbreviation (input) ENC_HOST_GDTR_BASE :: nat where "ENC_HOST_GDTR_BASE \<equiv> 0x6c0c"
abbreviation (input) ENC_HOST_IDTR_BASE :: nat where "ENC_HOST_IDTR_BASE \<equiv> 0x6c0e"
abbreviation (input) ENC_HOST_SYSENTER_ESP :: nat where "ENC_HOST_SYSENTER_ESP \<equiv> 0x6c0e"
abbreviation (input) ENC_HOST_SYSENTER_EIP :: nat where "ENC_HOST_SYSENTER_EIP \<equiv> 0x6c10"
abbreviation (input) ENC_HOST_RSP :: nat where "ENC_HOST_RSP \<equiv> 0x6c14"
abbreviation (input) ENC_HOST_RIP :: nat where "ENC_HOST_RIP \<equiv> 0x6c16"

text \<open>What the code reads from the processor: the MSRs, whether VMCLEAR and VMPTRLD succeed, the fields
  VMWRITE rejects, the control and descriptor-table registers of the host, the descriptors of its
  GDT, the selectors of the kernel and the address of the exit stub.\<close>

record hw =
  rdmsr :: "u32 \<Rightarrow> u64"
  vmclear_ok :: bool
  vmptrld_ok :: bool
  hw_rejects :: "nat \<Rightarrow> bool"
  hw_cr0 :: u64
  hw_cr3 :: u64
  hw_cr4 :: u64
  hw_tr :: u16
  hw_gdt_address :: u64
  hw_gdt_size :: u16
  hw_gdt_desc :: "nat \<Rightarrow> u64"
  hw_idt_address :: u64
  hw_kernel_cs :: u64
  hw_kernel_ds :: u64
  hw_vmexit_handler :: u64

text \<open>A run of \<open>CHECK_VMWRITE\<close>: the first rejected write ends the function with \<open>-EIO\<close>.\<close>

fun check_vmwrites :: "(nat \<times> u64) list \<Rightarrow> vcpu \<Rightarrow> unit res \<times> vcpu" where
  "check_vmwrites [] vc = (Inr (), vc)"
| "check_vmwrites ((enc, v) # ws) vc =
     (case vmwrite enc v vc of (False, vc) \<Rightarrow> (Inl EIO, vc) | (True, vc) \<Rightarrow> check_vmwrites ws vc)"

text \<open>Statements that may return early, in sequence; an update of the vCPU; a check.\<close>

type_synonym setup_step = "vcpu \<Rightarrow> unit res \<times> vcpu"

fun run_steps :: "setup_step list \<Rightarrow> setup_step" where
  "run_steps [] vc = (Inr (), vc)"
| "run_steps (f # fs) vc = (case f vc of (Inl e, vc) \<Rightarrow> (Inl e, vc) | (Inr _, vc) \<Rightarrow> run_steps fs vc)"

definition writes :: "(vcpu \<Rightarrow> (nat \<times> u64) list) \<Rightarrow> setup_step" where
  "writes ws vc = check_vmwrites (ws vc) vc"

definition assign :: "(vcpu \<Rightarrow> vcpu) \<Rightarrow> setup_step" where
  "assign f vc = (Inr (), f vc)"

definition require :: "(vcpu \<Rightarrow> bool) \<Rightarrow> errno \<Rightarrow> setup_step" where
  "require P e vc = (if P vc then (Inr (), vc) else (Inl e, vc))"

definition as_eio :: "setup_step \<Rightarrow> setup_step" where
  "as_eio f vc = (case f vc of (Inl e, vc) \<Rightarrow> (Inl EIO, vc) | r \<Rightarrow> r)"

section \<open>Execution controls\<close>

abbreviation (input) MSR_VMX_PINBASED_CTLS :: u32 where "MSR_VMX_PINBASED_CTLS \<equiv> 0x481"
abbreviation (input) MSR_VMX_PROCBASED_CTLS :: u32 where "MSR_VMX_PROCBASED_CTLS \<equiv> 0x482"
abbreviation (input) MSR_VMX_EXIT_CTLS :: u32 where "MSR_VMX_EXIT_CTLS \<equiv> 0x483"
abbreviation (input) MSR_VMX_ENTRY_CTLS :: u32 where "MSR_VMX_ENTRY_CTLS \<equiv> 0x484"
abbreviation (input) MSR_VMX_MISC :: u32 where "MSR_VMX_MISC \<equiv> 0x485"
abbreviation (input) MSR_VMX_CR0_FIXED0 :: u32 where "MSR_VMX_CR0_FIXED0 \<equiv> 0x486"
abbreviation (input) MSR_VMX_CR0_FIXED1 :: u32 where "MSR_VMX_CR0_FIXED1 \<equiv> 0x487"
abbreviation (input) MSR_VMX_CR4_FIXED0 :: u32 where "MSR_VMX_CR4_FIXED0 \<equiv> 0x488"
abbreviation (input) MSR_VMX_CR4_FIXED1 :: u32 where "MSR_VMX_CR4_FIXED1 \<equiv> 0x489"
abbreviation (input) MSR_VMX_PROCBASED_CTLS2 :: u32 where "MSR_VMX_PROCBASED_CTLS2 \<equiv> 0x48B"

definition cpu_has_vpid :: "hw \<Rightarrow> bool" where
  "cpu_has_vpid w \<longleftrightarrow> (ucast (drop_bit 32 (rdmsr w MSR_VMX_PROCBASED_CTLS)) :: u32) AND 0x80000000 \<noteq> 0 \<and>
     (ucast (drop_bit 32 (rdmsr w MSR_VMX_PROCBASED_CTLS2)) :: u32) AND 0x20 \<noteq> 0"

definition relm_init_exec_controls :: "hw \<Rightarrow> vcpu \<Rightarrow> vcpu" where
  "relm_init_exec_controls w vc = vc\<lparr>va := (va vc)\<lparr>va_controls :=
     \<lparr>pin_based = 0x1 OR 0x8 OR 0x20,
      primary_proc = 0x10000000 OR 0x80000000 OR 0x80 OR 0x80000 OR 0x100000 OR 0x200000 OR 0x1000000 OR 0x2000000,
      secondary_proc = (0x2 OR 0x8 OR 0x1000 OR 0x80 OR 0x2000) OR (if cpu_has_vpid w then 0x20 else 0),
      vm_entry = 0x200 OR 0x4000 OR 0x8000 OR 0x4,
      vm_exit = 0x200 OR 0x40000 OR 0x80000 OR 0x100000 OR 0x200000 OR 0x8000\<rparr>\<rparr>\<rparr>"

definition vmx_adjust :: "u32 \<Rightarrow> u32 \<Rightarrow> u32 \<Rightarrow> u32" where
  "vmx_adjust req allowed0 allowed1 = (req OR allowed0) AND allowed1"

definition allowed0 :: "hw \<Rightarrow> u32 \<Rightarrow> u32" where "allowed0 w msr = ucast (rdmsr w msr)"
definition allowed1 :: "hw \<Rightarrow> u32 \<Rightarrow> u32" where "allowed1 w msr = ucast (drop_bit 32 (rdmsr w msr))"

definition adjusted :: "hw \<Rightarrow> u32 \<Rightarrow> u32 \<Rightarrow> u64" where
  "adjusted w msr req = ucast (vmx_adjust req (allowed0 w msr) (allowed1 w msr))"

definition exec_control_writes :: "hw \<Rightarrow> vmx_exec_ctrls \<Rightarrow> (nat \<times> u64) list" where
  "exec_control_writes w c =
     [(ENC_PIN_CONTROLS, adjusted w MSR_VMX_PINBASED_CTLS (pin_based c)),
      (ENC_PRIMARY_CONTROLS, adjusted w MSR_VMX_PROCBASED_CTLS (primary_proc c)),
      (ENC_SECONDARY_CONTROLS, adjusted w MSR_VMX_PROCBASED_CTLS2 (secondary_proc c)),
      (ENC_ENTRY_CONTROLS, adjusted w MSR_VMX_ENTRY_CTLS (vm_entry c)),
      (ENC_EXIT_CONTROLS, adjusted w MSR_VMX_EXIT_CTLS (vm_exit c))]"

definition relm_apply_exec_controls :: "hw \<Rightarrow> setup_step" where
  "relm_apply_exec_controls w = writes (\<lambda>vc. exec_control_writes w (va_controls (va vc)))"

text \<open>The wrapper returns -1, which is not an error number the code names; only whether it failed is used.\<close>

definition relm_setup_exec_controls :: "hw \<Rightarrow> vcpu \<Rightarrow> bool \<times> vcpu" where
  "relm_setup_exec_controls w vc = (case relm_apply_exec_controls w (relm_init_exec_controls w vc) of
     (r, vc) \<Rightarrow> (\<not> failed r, vc))"

definition relm_vcpu_io_bitmap_enabled :: "vcpu \<Rightarrow> bool" where
  "relm_vcpu_io_bitmap_enabled vc \<longleftrightarrow> primary_proc (va_controls (va vc)) AND 0x2000000 \<noteq> 0"

definition relm_vcpu_msr_bitmap_enabled :: "vcpu \<Rightarrow> bool" where
  "relm_vcpu_msr_bitmap_enabled vc \<longleftrightarrow> primary_proc (va_controls (va vc)) AND 0x10000000 \<noteq> 0"

section \<open>Control registers\<close>

abbreviation (input) X86_CR0_PE :: u64 where "X86_CR0_PE \<equiv> 0x1"
abbreviation (input) X86_CR0_NE :: u64 where "X86_CR0_NE \<equiv> 0x20"
abbreviation (input) X86_CR0_WP :: u64 where "X86_CR0_WP \<equiv> 0x10000"
abbreviation (input) X86_CR0_NW :: u64 where "X86_CR0_NW \<equiv> 0x20000000"
abbreviation (input) X86_CR0_CD :: u64 where "X86_CR0_CD \<equiv> 0x40000000"
abbreviation (input) X86_CR0_PG :: u64 where "X86_CR0_PG \<equiv> 0x80000000"
abbreviation (input) X86_CR4_PSE :: u64 where "X86_CR4_PSE \<equiv> 0x10"
abbreviation (input) X86_CR4_PAE :: u64 where "X86_CR4_PAE \<equiv> 0x20"

definition fix_cr0 :: "hw \<Rightarrow> u64 \<Rightarrow> u64" where
  "fix_cr0 w x = (x OR rdmsr w MSR_VMX_CR0_FIXED0) AND rdmsr w MSR_VMX_CR0_FIXED1"

definition fix_cr4 :: "hw \<Rightarrow> u64 \<Rightarrow> u64" where
  "fix_cr4 w x = (x OR rdmsr w MSR_VMX_CR4_FIXED0) AND rdmsr w MSR_VMX_CR4_FIXED1"

definition initial_cr0 :: "hw \<Rightarrow> u64" where
  "initial_cr0 w = fix_cr0 w (X86_CR0_PG OR X86_CR0_PE OR X86_CR0_NE OR X86_CR0_WP)"

definition initial_cr4 :: "hw \<Rightarrow> u64" where
  "initial_cr4 w = fix_cr4 w X86_CR4_PAE"

definition relm_setup_cr_controls :: "hw \<Rightarrow> setup_step" where
  "relm_setup_cr_controls w = run_steps
     [assign (\<lambda>vc. vc\<lparr>arch_cr0 := initial_cr0 w, arch_cr4 := initial_cr4 w\<rparr>),
      writes (\<lambda>vc.
        [(ENC_GUEST_CR0, arch_cr0 vc), (ENC_GUEST_CR4, arch_cr4 vc), (ENC_GUEST_CR3, va_cr3 (va vc)),
         (ENC_CR0_READ_SHADOW, arch_cr0 vc), (ENC_CR4_READ_SHADOW, arch_cr4 vc AND NOT 0x2000),
         (ENC_CR0_GUEST_HOST_MASK, X86_CR0_PE OR X86_CR0_NE OR X86_CR0_CD OR X86_CR0_NW),
         (ENC_CR4_GUEST_HOST_MASK, X86_CR4_PAE OR X86_CR4_PSE OR 0x2000)])]"

definition relm_get_max_cr3_targets :: "hw \<Rightarrow> u32" where
  "relm_get_max_cr3_targets w = ucast (drop_bit 16 (rdmsr w MSR_VMX_MISC) AND 0x1FF)"

definition relm_set_cr3_target_value :: "hw \<Rightarrow> u32 \<Rightarrow> u64 \<Rightarrow> setup_step" where
  "relm_set_cr3_target_value w idx target_gpa vc =
     (if idx \<ge> relm_get_max_cr3_targets w then (Inl EINVAL, vc)
      else if idx = 0 then check_vmwrites [(ENC_CR3_TARGET_VALUE0, target_gpa)] vc
      else if idx = 1 then check_vmwrites [(ENC_CR3_TARGET_VALUE1, target_gpa)] vc
      else if idx = 2 then check_vmwrites [(ENC_CR3_TARGET_VALUE2, target_gpa)] vc
      else if idx = 3 then check_vmwrites [(ENC_CR3_TARGET_VALUE3, target_gpa)] vc
      else (Inl ENOTSUPP, vc))"

definition relm_set_cr3_target_count :: "u32 \<Rightarrow> setup_step" where
  "relm_set_cr3_target_count count = writes (\<lambda>_. [(ENC_CR3_TARGET_COUNT, ucast count)])"

definition relm_init_cr3_targets :: "hw \<Rightarrow> vcpu \<Rightarrow> bool \<times> vcpu" where
  "relm_init_cr3_targets w vc = (case relm_set_cr3_target_count 0 vc of
     (Inl e, vc) \<Rightarrow> (False, vc)
   | (Inr _, vc) \<Rightarrow> (True, fold (\<lambda>i vc. snd (relm_set_cr3_target_value w i 0 vc)) [0, 1, 2, 3] vc))"

definition relm_update_exception_bitmap :: setup_step where
  "relm_update_exception_bitmap = writes (\<lambda>vc. [(ENC_VMCS_EXCEPTION_BITMAP, ucast (va_exception_bitmap (va vc)))])"

text \<open>A vector above 31 is not refused: the error value is overwritten. The shift count is taken modulo
  32, as the processor does.\<close>

definition relm_set_exception_intercept :: "nat \<Rightarrow> setup_step" where
  "relm_set_exception_intercept vector vc = relm_update_exception_bitmap
     (vc\<lparr>va := (va vc)\<lparr>va_exception_bitmap := va_exception_bitmap (va vc) OR push_bit (vector mod 32) 1\<rparr>\<rparr>)"

definition relm_clear_exception_intercept :: "nat \<Rightarrow> setup_step" where
  "relm_clear_exception_intercept vector vc = relm_update_exception_bitmap
     (vc\<lparr>va := (va vc)\<lparr>va_exception_bitmap := va_exception_bitmap (va vc) AND NOT (push_bit (vector mod 32) 1)\<rparr>\<rparr>)"

definition relm_disable_page_fault_intercept :: "vcpu \<Rightarrow> vcpu" where
  "relm_disable_page_fault_intercept vc = snd (relm_clear_exception_intercept 14 vc)"

definition relm_disable_ud_intercept :: "vcpu \<Rightarrow> vcpu" where
  "relm_disable_ud_intercept vc = snd (relm_clear_exception_intercept 16 vc)"

section \<open>Host state\<close>

text \<open>The base of the task state segment from its descriptor. The low half is assembled in a signed 32-bit
  \<open>int\<close> and converted to 64 bits, which copies its sign bit into the high half.\<close>

definition tr_base_of :: "hw \<Rightarrow> u64" where
  "tr_base_of w =
     (let index = unat (hw_tr w) div 8; d = hw_gdt_desc w index;
          base0 = drop_bit 16 d AND 0xFFFF; base1 = drop_bit 32 d AND 0xFF; base2 = drop_bit 56 d AND 0xFF;
          low = ucast (base0 OR push_bit 16 base1 OR push_bit 24 base2) :: u32; tr_base = scast low :: u64
      in if index + 1 < (unat (hw_gdt_size w) + 1) div 8 then tr_base OR push_bit 32 (hw_gdt_desc w (index + 1)) else tr_base)"

definition relm_setup_host_state :: "hw \<Rightarrow> setup_step" where
  "relm_setup_host_state w = run_steps
     [writes (\<lambda>vc.
        [(ENC_HOST_CR0, hw_cr0 w), (ENC_HOST_CR3, hw_cr3 w), (ENC_HOST_CR4, hw_cr4 w),
         (ENC_HOST_RSP, va_host_rsp (va vc)), (ENC_HOST_RIP, hw_vmexit_handler w),
         (ENC_HOST_CS_SELECTOR, hw_kernel_cs w AND 0xFFF8), (ENC_HOST_SS_SELECTOR, hw_kernel_ds w AND 0xFFF8),
         (ENC_HOST_DS_SELECTOR, hw_kernel_ds w AND 0xFFF8), (ENC_HOST_ES_SELECTOR, hw_kernel_ds w AND 0xFFF8),
         (ENC_HOST_FS_SELECTOR, 0), (ENC_HOST_GS_SELECTOR, 0)]),
      require (\<lambda>_. hw_tr w \<noteq> 0) EINVAL,
      writes (\<lambda>_.
        [(ENC_HOST_TR_SELECTOR, ucast (hw_tr w) AND 0xFFF8), (ENC_HOST_TR_BASE, tr_base_of w),
         (ENC_HOST_GDTR_BASE, hw_gdt_address w), (ENC_HOST_IDTR_BASE, hw_idt_address w),
         (ENC_VMCS_LINK_POINTER, 0xFFFFFFFFFFFFFFFF),
         (ENC_HOST_FS_BASE, rdmsr w 0xC0000100), (ENC_HOST_GS_BASE, rdmsr w 0xC0000101),
         (ENC_HOST_SYSENTER_CS, rdmsr w 0x174), (ENC_HOST_SYSENTER_ESP, rdmsr w 0x175),
         (ENC_HOST_SYSENTER_EIP, rdmsr w 0x176),
         (ENC_HOST_IA32_EFER, rdmsr w 0xC0000080), (ENC_HOST_IA32_PAT, rdmsr w 0x277)])]"

section \<open>Guest state\<close>

text \<open>The four fields of a segment register.\<close>

definition seg_writes :: "nat \<Rightarrow> nat \<Rightarrow> nat \<Rightarrow> nat \<Rightarrow> u64 \<Rightarrow> u64 \<Rightarrow> u64 \<Rightarrow> u64 \<Rightarrow> (nat \<times> u64) list" where
  "seg_writes esel ebase elimit ear sel base limit ar = [(esel, sel), (ebase, base), (elimit, limit), (ear, ar)]"

abbreviation (input) CS_WRITES where "CS_WRITES \<equiv> seg_writes ENC_GUEST_CS_SELECTOR ENC_GUEST_CS_BASE ENC_GUEST_CS_LIMIT ENC_GUEST_CS_AR_BYTES"
abbreviation (input) DS_WRITES where "DS_WRITES \<equiv> seg_writes ENC_GUEST_DS_SELECTOR ENC_GUEST_DS_BASE ENC_GUEST_DS_LIMIT ENC_GUEST_DS_AR_BYTES"
abbreviation (input) ES_WRITES where "ES_WRITES \<equiv> seg_writes ENC_GUEST_ES_SELECTOR ENC_GUEST_ES_BASE ENC_GUEST_ES_LIMIT ENC_GUEST_ES_AR_BYTES"
abbreviation (input) SS_WRITES where "SS_WRITES \<equiv> seg_writes ENC_GUEST_SS_SELECTOR ENC_GUEST_SS_BASE ENC_GUEST_SS_LIMIT ENC_GUEST_SS_AR_BYTES"
abbreviation (input) FS_WRITES where "FS_WRITES \<equiv> seg_writes ENC_GUEST_FS_SELECTOR ENC_GUEST_FS_BASE ENC_GUEST_FS_LIMIT ENC_GUEST_FS_AR_BYTES"
abbreviation (input) GS_WRITES where "GS_WRITES \<equiv> seg_writes ENC_GUEST_GS_SELECTOR ENC_GUEST_GS_BASE ENC_GUEST_GS_LIMIT ENC_GUEST_GS_AR_BYTES"
abbreviation (input) LDTR_WRITES where "LDTR_WRITES \<equiv> seg_writes ENC_GUEST_LDTR_SELECTOR ENC_GUEST_LDTR_BASE ENC_GUEST_LDTR_LIMIT ENC_GUEST_LDTR_AR_BYTES"
abbreviation (input) TR_WRITES where "TR_WRITES \<equiv> seg_writes ENC_GUEST_TR_SELECTOR ENC_GUEST_TR_BASE ENC_GUEST_TR_LIMIT ENC_GUEST_TR_AR_BYTES"

definition non_register_writes :: "(nat \<times> u64) list" where
  "non_register_writes = [(ENC_GUEST_ACTIVITY_STATE, 0), (ENC_GUEST_INTERRUPTIBILITY_INFO, 0),
     (ENC_GUEST_PENDING_DBG_EXCEPTIONS, 0), (ENC_VMCS_LINK_POINTER, 0xFFFFFFFFFFFFFFFF)]"

definition relm_setup_guest_state :: setup_step where
  "relm_setup_guest_state = writes (\<lambda>vc.
     [(ENC_GUEST_CR0, arch_cr0 vc), (ENC_GUEST_CR3, va_cr3 (va vc)), (ENC_GUEST_CR4, arch_cr4 vc),
      (ENC_GUEST_RIP, reg_rip (regs vc)), (ENC_GUEST_RSP, reg_rsp (regs vc)), (ENC_GUEST_RFLAGS, 0x2),
      (ENC_GUEST_CS_SELECTOR, 0x8), (ENC_GUEST_DS_SELECTOR, 0x10), (ENC_GUEST_ES_SELECTOR, 0x10),
      (ENC_GUEST_SS_SELECTOR, 0x10), (ENC_GUEST_FS_SELECTOR, 0), (ENC_GUEST_GS_SELECTOR, 0),
      (ENC_GUEST_CS_BASE, 0), (ENC_GUEST_DS_BASE, 0), (ENC_GUEST_ES_BASE, 0), (ENC_GUEST_SS_BASE, 0),
      (ENC_GUEST_FS_BASE, 0), (ENC_GUEST_GS_BASE, 0),
      (ENC_GUEST_CS_LIMIT, 0xFFFFFFFF), (ENC_GUEST_DS_LIMIT, 0xFFFFFFFF), (ENC_GUEST_ES_LIMIT, 0xFFFFFFFF),
      (ENC_GUEST_SS_LIMIT, 0xFFFFFFFF),
      (ENC_GUEST_CS_AR_BYTES, 0xA09B), (ENC_GUEST_DS_AR_BYTES, 0xC093), (ENC_GUEST_ES_AR_BYTES, 0xC093),
      (ENC_GUEST_SS_AR_BYTES, 0xC093), (ENC_GUEST_FS_AR_BYTES, 0x10000), (ENC_GUEST_GS_AR_BYTES, 0x10000)] @
     LDTR_WRITES 0 0 0 0x10000 @ TR_WRITES 0 0 0x67 0x008B @
     [(ENC_GUEST_GDTR_BASE, va_gdtr_base (va vc)), (ENC_GUEST_GDTR_LIMIT, ucast (va_gdtr_limit (va vc))),
      (ENC_GUEST_IDTR_BASE, va_idtr_base (va vc)), (ENC_GUEST_IDTR_LIMIT, ucast (va_idtr_limit (va vc))),
      (ENC_GUEST_IA32_EFER, arch_efer vc)] @ non_register_writes)"

definition relm_setup_guest_state_firmware :: setup_step where
  "relm_setup_guest_state_firmware = run_steps
     [writes (\<lambda>vc. [(ENC_ENTRY_CONTROLS, ucast ((ucast (vmread vc ENC_ENTRY_CONTROLS) :: u32) AND NOT 0x200))]),
      assign (\<lambda>vc. vc\<lparr>arch_efer := 0\<rparr>),
      writes (\<lambda>vc. (ENC_GUEST_IA32_EFER, 0) # CS_WRITES 0xF000 0xFFFF0000 0xFFFF 0x9B @
        DS_WRITES 0 0 0xFFFF 0x93 @ ES_WRITES 0 0 0xFFFF 0x93 @ FS_WRITES 0 0 0xFFFF 0x93 @ GS_WRITES 0 0 0xFFFF 0x93 @
        SS_WRITES 0 0 0xFFFF 0x93 @ LDTR_WRITES 0 0 0xFFFF 0x82 @ TR_WRITES 0 0 0x67 0x8B @
        [(ENC_GUEST_GDTR_BASE, 0), (ENC_GUEST_GDTR_LIMIT, 0xFFFF), (ENC_GUEST_IDTR_BASE, 0), (ENC_GUEST_IDTR_LIMIT, 0x3FF),
         (ENC_GUEST_RIP, 0xFFF0), (ENC_GUEST_RSP, 0), (ENC_GUEST_RFLAGS, 0x2)]),
      assign (\<lambda>vc. vc\<lparr>regs := (regs vc)\<lparr>reg_rip := 0xFFF0, reg_rsp := 0, reg_rflags := 0x2\<rparr>\<rparr>),
      writes (\<lambda>_. non_register_writes)]"

text \<open>What the guest state takes from the VM.\<close>

record vm_boot =
  vb_ept :: "ept_context option"
  vb_pml4_gpa :: u64
  vb_kernel_entry_gpa :: u64
  vb_boot_params_gpa :: u64
  vb_total_guest_ram :: u64

definition relm_setup_guest_state_longmode :: "hw \<Rightarrow> vm_boot option \<Rightarrow> setup_step" where
  "relm_setup_guest_state_longmode w vm = (case vm of None \<Rightarrow> (\<lambda>vc. (Inl EINVAL, vc)) | Some b \<Rightarrow> run_steps
     [writes (\<lambda>vc. [(ENC_ENTRY_CONTROLS, ucast ((ucast (vmread vc ENC_ENTRY_CONTROLS) :: u32) OR 0x200))]),
      require (\<lambda>_. vb_pml4_gpa b \<noteq> 0) EINVAL,
      writes (\<lambda>_. [(ENC_GUEST_CR3, vb_pml4_gpa b)]),
      assign (\<lambda>vc. vc\<lparr>va := (va vc)\<lparr>va_cr3 := vb_pml4_gpa b\<rparr>\<rparr>),
      writes (\<lambda>_. [(ENC_GUEST_IA32_EFER, 0x100 OR 0x400 OR 0x1)]),
      assign (\<lambda>vc. vc\<lparr>arch_efer := 0x100 OR 0x400 OR 0x1\<rparr>),
      writes (\<lambda>_. [(ENC_GUEST_CR0, initial_cr0 w), (ENC_GUEST_CR4, initial_cr4 w)]),
      assign (\<lambda>vc. vc\<lparr>arch_cr0 := initial_cr0 w, arch_cr4 := initial_cr4 w, arch_xcr0 := 0\<rparr>),
      writes (\<lambda>_. (ENC_GUEST_IA32_PAT, rdmsr w 0x277) # CS_WRITES 0x8 0 0xFFFFFFFF 0xA09B @
        DS_WRITES 0x10 0 0xFFFFFFFF 0xC093 @ ES_WRITES 0x10 0 0xFFFFFFFF 0xC093 @ SS_WRITES 0x10 0 0xFFFFFFFF 0xC093 @
        FS_WRITES 0x10 0 0xFFFFFFFF 0xC093 @ GS_WRITES 0x10 0 0xFFFFFFFF 0xC093 @
        LDTR_WRITES 0 0 0 0x10000 @ TR_WRITES 0 0 0x67 0x008B @
        [(ENC_GUEST_GDTR_BASE, 0x4000), (ENC_GUEST_GDTR_LIMIT, 24 - 1), (ENC_GUEST_IDTR_BASE, 0x5000),
         (ENC_GUEST_IDTR_LIMIT, 256 * 16 - 1)]),
      require (\<lambda>_. vb_kernel_entry_gpa b \<noteq> 0) EINVAL,
      writes (\<lambda>_. [(ENC_GUEST_RIP, vb_kernel_entry_gpa b)]),
      require (\<lambda>_. vb_boot_params_gpa b \<noteq> 0) EINVAL,
      writes (\<lambda>_. [(ENC_GUEST_RSP, (vb_total_guest_ram b - 3 * 0x1000) AND NOT 0xF), (ENC_GUEST_RFLAGS, 0x2)]),
      assign (\<lambda>vc. vc\<lparr>regs := (regs vc)\<lparr>reg_rip := vb_kernel_entry_gpa b, reg_rsi := vb_boot_params_gpa b,
        reg_rsp := vmread vc ENC_GUEST_RSP, reg_rflags := 0x2\<rparr>\<rparr>),
      writes (\<lambda>_. non_register_writes)])"

section \<open>Phase 2\<close>

definition relm_vmclear :: "hw \<Rightarrow> vcpu \<Rightarrow> unit res" where
  "relm_vmclear w vc = (if pa_of (va_vmcs (va vc)) = 0 then Inl EINVAL else if vmclear_ok w then Inr () else Inl EIO)"

definition relm_vmptrld :: "hw \<Rightarrow> setup_step" where
  "relm_vmptrld w vc = (if pa_of (va_vmcs (va vc)) = 0 then (Inl EINVAL, vc)
     else if vmptrld_ok w then (Inr (), vc\<lparr>vmcs_rejects := hw_rejects w\<rparr>) else (Inl EIO, vc))"

text \<open>The addresses and counts of an MSR area, when it exists.\<close>

definition area_writes :: "nat \<Rightarrow> nat \<Rightarrow> u64 option \<Rightarrow> nat \<Rightarrow> (nat \<times> u64) list" where
  "area_writes eaddr ecount area n = (if pa_of area \<noteq> 0 \<and> n > 0 then [(eaddr, pa_of area), (ecount, word_of_nat n)] else [])"

definition init_field_writes :: "hw \<Rightarrow> vcpu \<Rightarrow> (nat \<times> u64) list" where
  "init_field_writes w vc =
     (if cpu_has_vpid w then [(ENC_VMCS_VPID, ucast (vpid vc))] else []) @
     (if relm_vcpu_io_bitmap_enabled vc \<and> pa_of (va_io_bitmap (va vc)) \<noteq> 0
      then [(ENC_VMCS_IO_BITMAP_A, pa_of (va_io_bitmap (va vc))), (ENC_VMCS_IO_BITMAP_B, pa_of (va_io_bitmap (va vc)) + 4096)] else []) @
     (if relm_vcpu_msr_bitmap_enabled vc \<and> pa_of (va_msr_bitmap (va vc)) \<noteq> 0
      then [(ENC_VMCS_MSR_BITMAP, pa_of (va_msr_bitmap (va vc)))] else []) @
     area_writes ENC_VMCS_EXIT_MSR_STORE_ADDR ENC_VMCS_EXIT_MSR_STORE_COUNT (va_vmexit_store_area (va vc)) (va_vmexit_count (va vc)) @
     area_writes ENC_VMCS_EXIT_MSR_LOAD_ADDR ENC_VMCS_EXIT_MSR_LOAD_COUNT (va_vmexit_load_area (va vc)) (va_vmentry_count (va vc)) @
     area_writes ENC_VMCS_ENTRY_MSR_LOAD_ADDR ENC_VMCS_ENTRY_MSR_LOAD_COUNT (va_vmentry_load_area (va vc)) (va_vmentry_count (va vc)) @
     [(ENC_VMCS_EXCEPTION_BITMAP, ucast (va_exception_bitmap (va vc))), (ENC_CR3_TARGET_COUNT, 0)]"

definition vmx_init_controls :: "hw \<Rightarrow> setup_step" where
  "vmx_init_controls w = run_steps [as_eio (relm_apply_exec_controls w), writes (init_field_writes w)]"

definition vmx_vcpu_init :: "hw \<Rightarrow> vm_boot \<Rightarrow> vcpu \<Rightarrow> host \<Rightarrow> unit res \<times> vm_boot \<times> vcpu \<times> host" where
  "vmx_vcpu_init w b vc h =
     (case relm_vmclear w vc of Inl e \<Rightarrow> (Inl e, b, vc, h)
      | Inr _ \<Rightarrow>
      (case relm_vmptrld w vc of (Inl e, vc) \<Rightarrow> (Inl e, b, vc, h)
      | (Inr _, vc) \<Rightarrow>
      (case vb_ept b of None \<Rightarrow> (Inl EINVAL, b, vc, h)
      | Some ept \<Rightarrow>
      (case run_steps [writes (\<lambda>_. [(ENC_EPT_POINTER, eptp ept)]), vmx_init_controls w,
                       as_eio (relm_apic_vmcs_setup (rdmsr w MSR_VMX_PROCBASED_CTLS2))] vc of
         (Inl e, vc) \<Rightarrow> (Inl e, b, vc, h)
       | (Inr _, vc) \<Rightarrow>
       (case relm_apic_ept_setup (apic vc) (Some (Some ept)) h of
          (Inl e, ctx, h) \<Rightarrow> (Inl EIO, (case ctx of Some c \<Rightarrow> b\<lparr>vb_ept := c\<rparr> | None \<Rightarrow> b), vc, h)
        | (Inr _, ctx, h) \<Rightarrow>
          let b = (case ctx of Some c \<Rightarrow> b\<lparr>vb_ept := c\<rparr> | None \<Rightarrow> b) in
          (case run_steps [as_eio (relm_setup_cr_controls w), as_eio (relm_setup_host_state w),
                           as_eio (relm_setup_guest_state_longmode w (Some b))] vc of
             (r, vc) \<Rightarrow> (r, b, vc, h)))))))"

section \<open>Sequences of writes\<close>

text \<open>The VMCS after a list of accepted writes.\<close>

fun wrote :: "(nat \<times> u64) list \<Rightarrow> (nat \<Rightarrow> u64) \<Rightarrow> nat \<Rightarrow> u64" where
  "wrote [] m = m"
| "wrote ((e, v) # ws) m = wrote ws (m(e := v))"

definition accepted :: "(nat \<times> u64) list \<Rightarrow> vcpu \<Rightarrow> bool" where
  "accepted ws vc \<longleftrightarrow> (\<forall>(e, v)\<in>set ws. \<not> vmcs_rejects vc e)"

lemma wrote_append: "wrote (xs @ ys) m = wrote ys (wrote xs m)"
  by (induction xs arbitrary: m) auto

lemma wrote_other: "e \<notin> fst ` set ws \<Longrightarrow> wrote ws m e = m e"
  by (induction ws arbitrary: m) auto

lemma check_vmwrites_ok:
  "check_vmwrites ws vc = (Inr (), vc') \<longleftrightarrow> accepted ws vc \<and> vc' = vc\<lparr>vmcs := wrote ws (vmcs vc)\<rparr>"
  by (induction ws arbitrary: vc) (auto simp: accepted_def vmwrite_def split: if_splits)

named_theorems step_simps \<open>successful runs of setup steps\<close>

lemma run_steps_ok [step_simps]:
  "run_steps [] vc = (Inr (), vc') \<longleftrightarrow> vc' = vc"
  "run_steps (f # fs) vc = (Inr (), vc') \<longleftrightarrow> (\<exists>vc1. f vc = (Inr (), vc1) \<and> run_steps fs vc1 = (Inr (), vc'))"
  by (auto split: prod.split sum.split)

declare run_steps.simps [simp del]

lemma step_ok [step_simps]:
  "writes ws vc = (Inr (), vc') \<longleftrightarrow> accepted (ws vc) vc \<and> vc' = vc\<lparr>vmcs := wrote (ws vc) (vmcs vc)\<rparr>"
  "assign f vc = (Inr (), vc') \<longleftrightarrow> vc' = f vc"
  "require P e vc = (Inr (), vc') \<longleftrightarrow> P vc \<and> vc' = vc"
  "as_eio g vc = (Inr (), vc') \<longleftrightarrow> g vc = (Inr (), vc')"
  by (auto simp: writes_def check_vmwrites_ok assign_def require_def as_eio_def split: prod.split sum.split)

section \<open>What the stages of phase 2 leave\<close>

lemma init_field_encodings:
  "fst ` set (init_field_writes w vc) \<subseteq> {ENC_VMCS_VPID, ENC_VMCS_IO_BITMAP_A, ENC_VMCS_IO_BITMAP_B, ENC_VMCS_MSR_BITMAP,
     ENC_VMCS_EXIT_MSR_STORE_ADDR, ENC_VMCS_EXIT_MSR_STORE_COUNT, ENC_VMCS_EXIT_MSR_LOAD_ADDR, ENC_VMCS_EXIT_MSR_LOAD_COUNT,
     ENC_VMCS_ENTRY_MSR_LOAD_ADDR, ENC_VMCS_ENTRY_MSR_LOAD_COUNT, ENC_VMCS_EXCEPTION_BITMAP, ENC_CR3_TARGET_COUNT}"
  unfolding init_field_writes_def area_writes_def by (simp split del: if_split) auto

lemma init_field_writes_vmcs [simp]: "init_field_writes w (vc\<lparr>vmcs := m\<rparr>) = init_field_writes w vc"
  by (simp add: init_field_writes_def relm_vcpu_io_bitmap_enabled_def relm_vcpu_msr_bitmap_enabled_def)

lemma init_controls_ok:
  "vmx_init_controls w vc = (Inr (), vc') \<Longrightarrow>
     vc' = vc\<lparr>vmcs := wrote (init_field_writes w vc) (wrote (exec_control_writes w (va_controls (va vc))) (vmcs vc))\<rparr>"
  by (simp add: vmx_init_controls_def relm_apply_exec_controls_def step_simps)

text \<open>The fields of the five controls.\<close>

lemma init_controls_fields:
  assumes "vmx_init_controls w vc = (Inr (), vc')" "c = va_controls (va vc)"
  shows "vmread vc' ENC_PIN_CONTROLS = adjusted w MSR_VMX_PINBASED_CTLS (pin_based c)"
    "vmread vc' ENC_PRIMARY_CONTROLS = adjusted w MSR_VMX_PROCBASED_CTLS (primary_proc c)"
    "vmread vc' ENC_SECONDARY_CONTROLS = adjusted w MSR_VMX_PROCBASED_CTLS2 (secondary_proc c)"
    "vmread vc' ENC_ENTRY_CONTROLS = adjusted w MSR_VMX_ENTRY_CTLS (vm_entry c)"
    "vmread vc' ENC_EXIT_CONTROLS = adjusted w MSR_VMX_EXIT_CTLS (vm_exit c)"
proof -
  have n: "e \<in> {ENC_PIN_CONTROLS, ENC_PRIMARY_CONTROLS, ENC_SECONDARY_CONTROLS, ENC_ENTRY_CONTROLS, ENC_EXIT_CONTROLS} \<Longrightarrow>
      wrote (init_field_writes w vc) m e = m e" for e m
    by (rule wrote_other) (use init_field_encodings [of w vc] in auto)
  show "vmread vc' ENC_PIN_CONTROLS = adjusted w MSR_VMX_PINBASED_CTLS (pin_based c)"
    "vmread vc' ENC_PRIMARY_CONTROLS = adjusted w MSR_VMX_PROCBASED_CTLS (primary_proc c)"
    "vmread vc' ENC_SECONDARY_CONTROLS = adjusted w MSR_VMX_PROCBASED_CTLS2 (secondary_proc c)"
    "vmread vc' ENC_ENTRY_CONTROLS = adjusted w MSR_VMX_ENTRY_CTLS (vm_entry c)"
    "vmread vc' ENC_EXIT_CONTROLS = adjusted w MSR_VMX_EXIT_CTLS (vm_exit c)"
    using init_controls_ok [OF assms(1)] assms(2) by (simp_all add: vmread_def n exec_control_writes_def)
qed

lemma apic_setup_ok:
  assumes "relm_apic_vmcs_setup c vc = (Inr (), vc')"
  shows "e \<noteq> ENC_SECONDARY_CONTROLS \<Longrightarrow> e \<noteq> ENC_VIRTUAL_APIC_PAGE_ADDR \<Longrightarrow> e \<noteq> ENC_APIC_ACCESS_ADDR \<Longrightarrow> e \<noteq> ENC_TPR_THRESHOLD \<Longrightarrow>
      vmread vc' e = vmread vc e"
    "vmread vc' ENC_SECONDARY_CONTROLS = (let a = ucast (drop_bit 32 c) :: u32 in
      if a AND 0x1 = 0 then vmread vc ENC_SECONDARY_CONTROLS
      else ucast (((ucast (vmread vc ENC_SECONDARY_CONTROLS) :: u32) OR 0x1) OR (if a AND 0x100 \<noteq> 0 then 0x100 else 0)))"
    "\<exists>m a. vc' = vc\<lparr>vmcs := m, apic := a\<rparr>"
  using assms
  by (auto simp: relm_apic_vmcs_setup_def vmread_def vmwrite_def Let_def split: if_splits prod.splits)

lemma vmx_vcpu_init_stages:
  assumes "vmx_vcpu_init w b vc h = (Inr (), b', vc', h')"
  obtains ept vc1 vc2 vc3 vc4 where "vb_ept b = Some ept"
    "vmx_init_controls w (vc\<lparr>vmcs_rejects := hw_rejects w, vmcs := (vmcs vc)(ENC_EPT_POINTER := eptp ept)\<rparr>) = (Inr (), vc1)"
    "relm_apic_vmcs_setup (rdmsr w MSR_VMX_PROCBASED_CTLS2) vc1 = (Inr (), vc2)"
    "relm_setup_cr_controls w vc2 = (Inr (), vc3)" "relm_setup_host_state w vc3 = (Inr (), vc4)"
    "relm_setup_guest_state_longmode w (Some b') vc4 = (Inr (), vc')"
    "b'\<lparr>vb_ept := vb_ept b\<rparr> = b"
  using assms
  by (auto simp: vmx_vcpu_init_def relm_vmptrld_def step_simps Let_def
      split: sum.splits prod.splits option.splits if_splits)

text \<open>Each later stage writes only its own fields.\<close>

lemma cr_controls_ok:
  assumes "relm_setup_cr_controls w vc = (Inr (), vc')"
  shows "vmread vc' ENC_CR0_READ_SHADOW = initial_cr0 w" "vmread vc' ENC_CR4_READ_SHADOW = initial_cr4 w AND NOT 0x2000"
    "vmread vc' ENC_CR0_GUEST_HOST_MASK = X86_CR0_PE OR X86_CR0_NE OR X86_CR0_CD OR X86_CR0_NW"
    "vmread vc' ENC_CR4_GUEST_HOST_MASK = X86_CR4_PAE OR X86_CR4_PSE OR 0x2000"
    "e \<notin> {ENC_GUEST_CR0, ENC_GUEST_CR4, ENC_GUEST_CR3, ENC_CR0_READ_SHADOW, ENC_CR4_READ_SHADOW, ENC_CR0_GUEST_HOST_MASK,
       ENC_CR4_GUEST_HOST_MASK} \<Longrightarrow> vmread vc' e = vmread vc e"
  using assms by (simp_all add: relm_setup_cr_controls_def step_simps vmread_def)

lemma host_state_ok:
  assumes "relm_setup_host_state w vc = (Inr (), vc')"
  shows "vc' = vc\<lparr>vmcs := wrote
     [(ENC_HOST_CR0, hw_cr0 w), (ENC_HOST_CR3, hw_cr3 w), (ENC_HOST_CR4, hw_cr4 w),
      (ENC_HOST_RSP, va_host_rsp (va vc)), (ENC_HOST_RIP, hw_vmexit_handler w),
      (ENC_HOST_CS_SELECTOR, hw_kernel_cs w AND 0xFFF8), (ENC_HOST_SS_SELECTOR, hw_kernel_ds w AND 0xFFF8),
      (ENC_HOST_DS_SELECTOR, hw_kernel_ds w AND 0xFFF8), (ENC_HOST_ES_SELECTOR, hw_kernel_ds w AND 0xFFF8),
      (ENC_HOST_FS_SELECTOR, 0), (ENC_HOST_GS_SELECTOR, 0),
      (ENC_HOST_TR_SELECTOR, ucast (hw_tr w) AND 0xFFF8), (ENC_HOST_TR_BASE, tr_base_of w),
      (ENC_HOST_GDTR_BASE, hw_gdt_address w), (ENC_HOST_IDTR_BASE, hw_idt_address w),
      (ENC_VMCS_LINK_POINTER, 0xFFFFFFFFFFFFFFFF),
      (ENC_HOST_FS_BASE, rdmsr w 0xC0000100), (ENC_HOST_GS_BASE, rdmsr w 0xC0000101),
      (ENC_HOST_SYSENTER_CS, rdmsr w 0x174), (ENC_HOST_SYSENTER_ESP, rdmsr w 0x175),
      (ENC_HOST_SYSENTER_EIP, rdmsr w 0x176),
      (ENC_HOST_IA32_EFER, rdmsr w 0xC0000080), (ENC_HOST_IA32_PAT, rdmsr w 0x277)] (vmcs vc)\<rparr>"
    and "hw_tr w \<noteq> 0"
  using assms by (simp_all add: relm_setup_host_state_def step_simps)

lemma host_state_frame:
  assumes "relm_setup_host_state w vc = (Inr (), vc')" "0x4000 \<le> e" "e < 0x6c00"
  shows "vmread vc' e = vmread vc e"
  unfolding host_state_ok(1) [OF assms(1)] vmread_def using assms(2,3) by (simp del: wrote.simps) (rule wrote_other, auto)

lemma longmode_ok:
  assumes "relm_setup_guest_state_longmode w (Some b) vc = (Inr (), vc')"
  shows "vmread vc' ENC_ENTRY_CONTROLS = ucast ((ucast (vmread vc ENC_ENTRY_CONTROLS) :: u32) OR 0x200)"
    "vmread vc' ENC_GUEST_CR0 = initial_cr0 w" "vmread vc' ENC_GUEST_CR4 = initial_cr4 w" "vmread vc' ENC_GUEST_CR3 = vb_pml4_gpa b"
    "vmread vc' ENC_GUEST_IA32_EFER = 0x501" "vmread vc' ENC_GUEST_CS_AR_BYTES = 0xA09B" "vmread vc' ENC_GUEST_SS_AR_BYTES = 0xC093"
    "vmread vc' ENC_GUEST_TR_AR_BYTES = 0x8B" "vmread vc' ENC_GUEST_TR_BASE = 0" "vmread vc' ENC_GUEST_LDTR_AR_BYTES = 0x10000"
    "vmread vc' ENC_GUEST_GDTR_LIMIT = 23" "vmread vc' ENC_GUEST_IDTR_LIMIT = 4095"
    "vmread vc' ENC_GUEST_RIP = vb_kernel_entry_gpa b" "vmread vc' ENC_GUEST_RFLAGS = 2"
    "vmread vc' ENC_GUEST_ACTIVITY_STATE = 0" "vmread vc' ENC_GUEST_INTERRUPTIBILITY_INFO = 0"
    "vmread vc' ENC_VMCS_LINK_POINTER = 0xFFFFFFFFFFFFFFFF"
    "reg_rsi (regs vc') = vb_boot_params_gpa b" "reg_rip (regs vc') = vb_kernel_entry_gpa b"
    "reg_rsp (regs vc') = vmread vc' ENC_GUEST_RSP" "arch_efer vc' = 0x501" "arch_cr0 vc' = initial_cr0 w"
    "vb_pml4_gpa b \<noteq> 0 \<and> vb_kernel_entry_gpa b \<noteq> 0 \<and> vb_boot_params_gpa b \<noteq> 0"
  using assms by (simp_all add: relm_setup_guest_state_longmode_def step_simps vmread_def seg_writes_def non_register_writes_def)

lemma longmode_frame:
  assumes "relm_setup_guest_state_longmode w (Some b) vc = (Inr (), vc')"
    and "e \<in> {ENC_PIN_CONTROLS, ENC_PRIMARY_CONTROLS, ENC_SECONDARY_CONTROLS, ENC_EXIT_CONTROLS, ENC_CR0_READ_SHADOW,
      ENC_CR4_READ_SHADOW, ENC_HOST_GDTR_BASE, ENC_HOST_IDTR_BASE, ENC_HOST_TR_BASE, ENC_HOST_RSP, ENC_HOST_RIP}"
  shows "vmread vc' e = vmread vc e"
  using assms(2,1)
  by (elim insertE emptyE)
    (simp_all add: relm_setup_guest_state_longmode_def step_simps vmread_def seg_writes_def non_register_writes_def)

section \<open>The controls respect the capabilities of the processor\<close>

text \<open>A control is legal when it has every bit that must be one and none that must be zero.\<close>

definition legal_control :: "hw \<Rightarrow> u32 \<Rightarrow> u64 \<Rightarrow> bool" where
  "legal_control w msr v \<longleftrightarrow> (ucast v AND allowed0 w msr) = allowed0 w msr \<and> (ucast v AND NOT (allowed1 w msr)) = 0"

lemma legal_control_iff:
  "legal_control w msr v \<longleftrightarrow> (\<forall>n<32. (bit (allowed0 w msr) n \<longrightarrow> bit v n) \<and> (bit v n \<longrightarrow> bit (allowed1 w msr) n))"
proof -
  have "x AND a = a \<longleftrightarrow> (\<forall>n<32. bit a n \<longrightarrow> bit x n)" for x a :: u32
    by (auto simp: bit_eq_iff bit_simps)
  moreover have "x AND NOT a = 0 \<longleftrightarrow> (\<forall>n<32. bit x n \<longrightarrow> bit a n)" for x a :: u32
    by (auto simp: bit_eq_iff bit_simps)
  ultimately show ?thesis unfolding legal_control_def by (auto simp: bit_simps)
qed

lemma bit_imp_32: "bit (a :: u32) n \<Longrightarrow> n < 32"
  using bit_imp_le_length [of a n] by simp

lemma ucast_narrow: "ucast (ucast x :: u64) = (x :: u32)"
  by (rule bit_word_eqI) (simp add: bit_simps)

lemma legal_control_adjusted:
  assumes "allowed0 w msr AND NOT (allowed1 w msr) = 0"
  shows "legal_control w msr (adjusted w msr req)"
proof -
  have "bit (allowed0 w msr) n \<Longrightarrow> bit (allowed1 w msr) n" for n
    using assms bit_imp_32 [of "allowed0 w msr" n] by (auto simp: bit_eq_iff bit_simps)
  then show ?thesis by (auto simp: legal_control_iff adjusted_def vmx_adjust_def bit_simps)
qed

lemma legal_control_or:
  assumes "legal_control w msr v" "x AND NOT (allowed1 w msr) = 0"
  shows "legal_control w msr (ucast ((ucast v :: u32) OR x))"
proof -
  have "bit x n \<Longrightarrow> bit (allowed1 w msr) n" for n
    using assms(2) bit_imp_32 [of x n] by (auto simp: bit_eq_iff bit_simps)
  with assms(1) show ?thesis by (auto simp: legal_control_iff bit_simps)
qed

text \<open>The control fields after phase 2.\<close>

lemma init_control_fields:
  assumes "vmx_vcpu_init w b vc h = (Inr (), b', vc', h')" "c = va_controls (va vc)"
  shows "vmread vc' ENC_PIN_CONTROLS = adjusted w MSR_VMX_PINBASED_CTLS (pin_based c)"
    "vmread vc' ENC_PRIMARY_CONTROLS = adjusted w MSR_VMX_PROCBASED_CTLS (primary_proc c)"
    "vmread vc' ENC_EXIT_CONTROLS = adjusted w MSR_VMX_EXIT_CTLS (vm_exit c)"
    "vmread vc' ENC_ENTRY_CONTROLS = ucast ((ucast (adjusted w MSR_VMX_ENTRY_CTLS (vm_entry c)) :: u32) OR 0x200)"
    "vmread vc' ENC_SECONDARY_CONTROLS = (let s = adjusted w MSR_VMX_PROCBASED_CTLS2 (secondary_proc c); a = allowed1 w MSR_VMX_PROCBASED_CTLS2 in
       if a AND 0x1 = 0 then s else ucast (((ucast s :: u32) OR 0x1) OR (if a AND 0x100 \<noteq> 0 then 0x100 else 0)))"
proof -
  from assms(1) obtain ept vc1 vc2 vc3 vc4 where
    st0: "vb_ept b = Some ept" and st: "vmx_init_controls w (vc\<lparr>vmcs_rejects := hw_rejects w, vmcs := (vmcs vc)(ENC_EPT_POINTER := eptp ept)\<rparr>) = (Inr (), vc1)"
      "relm_apic_vmcs_setup (rdmsr w MSR_VMX_PROCBASED_CTLS2) vc1 = (Inr (), vc2)"
      "relm_setup_cr_controls w vc2 = (Inr (), vc3)" "relm_setup_host_state w vc3 = (Inr (), vc4)"
      "relm_setup_guest_state_longmode w (Some b') vc4 = (Inr (), vc')" and "b'\<lparr>vb_ept := vb_ept b\<rparr> = b"
    by (rule vmx_vcpu_init_stages)
  have v4: "vmread vc4 e = vmread vc2 e" if "e \<in> {ENC_PIN_CONTROLS, ENC_PRIMARY_CONTROLS, ENC_SECONDARY_CONTROLS, ENC_EXIT_CONTROLS, ENC_ENTRY_CONTROLS}" for e
    using that host_state_frame [OF st(4), of e] cr_controls_ok(5) [OF st(3), of e] by auto
  note f = init_controls_fields [OF st(1) refl, simplified] and k = apic_setup_ok(1) [OF st(2)] and l = longmode_frame [OF st(5)]
  show "vmread vc' ENC_PIN_CONTROLS = adjusted w MSR_VMX_PINBASED_CTLS (pin_based c)"
    "vmread vc' ENC_PRIMARY_CONTROLS = adjusted w MSR_VMX_PROCBASED_CTLS (primary_proc c)"
    "vmread vc' ENC_EXIT_CONTROLS = adjusted w MSR_VMX_EXIT_CTLS (vm_exit c)"
    by (simp_all add: l v4 k f assms(2))
  show "vmread vc' ENC_ENTRY_CONTROLS = ucast ((ucast (adjusted w MSR_VMX_ENTRY_CTLS (vm_entry c)) :: u32) OR 0x200)"
    by (simp add: longmode_ok(1) [OF st(5)] v4 k f assms(2))
  show "vmread vc' ENC_SECONDARY_CONTROLS = (let s = adjusted w MSR_VMX_PROCBASED_CTLS2 (secondary_proc c); a = allowed1 w MSR_VMX_PROCBASED_CTLS2 in
       if a AND 0x1 = 0 then s else ucast (((ucast s :: u32) OR 0x1) OR (if a AND 0x100 \<noteq> 0 then 0x100 else 0)))"
    by (simp add: l v4 apic_setup_ok(2) [OF st(2)] f assms(2) allowed1_def Let_def)
qed

lemma and_bit_zero:
  fixes a :: u32
  shows "a AND 0x1 \<noteq> 0 \<Longrightarrow> 0x1 AND NOT a = 0" "a AND 0x100 \<noteq> 0 \<Longrightarrow> 0x100 AND NOT a = 0" "a AND 0x200 \<noteq> 0 \<Longrightarrow> 0x200 AND NOT a = 0"
proof -
  have e: "(0x1 :: u32) = push_bit 0 1" "(0x100 :: u32) = push_bit 8 1" "(0x200 :: u32) = push_bit 9 1" by (simp_all add: push_bit_eq_mult)
  have "push_bit n 1 AND NOT a = 0 \<or> a AND push_bit n 1 = 0" for n
    by (cases "bit a n") (auto intro!: bit_eqI simp: bit_simps)
  then show "a AND 0x1 \<noteq> 0 \<Longrightarrow> 0x1 AND NOT a = 0" "a AND 0x100 \<noteq> 0 \<Longrightarrow> 0x100 AND NOT a = 0" "a AND 0x200 \<noteq> 0 \<Longrightarrow> 0x200 AND NOT a = 0"
    by (metis e)+
qed

text \<open>(C28) Phase 2 writes legal execution controls: on a processor whose capability registers are
  consistent (a bit that must be one may be one) and which supports IA-32e guests, each of the five
  control fields has every bit the processor requires and none it forbids, also after the later stages
  have added the virtual-APIC and IA-32e bits.\<close>

theorem init_controls_legal:
  assumes init: "vmx_vcpu_init w b vc h = (Inr (), b', vc', h')"
    and caps: "\<forall>msr\<in>{MSR_VMX_PINBASED_CTLS, MSR_VMX_PROCBASED_CTLS, MSR_VMX_PROCBASED_CTLS2, MSR_VMX_EXIT_CTLS, MSR_VMX_ENTRY_CTLS}.
      allowed0 w msr AND NOT (allowed1 w msr) = 0"
    and ia32e: "allowed1 w MSR_VMX_ENTRY_CTLS AND 0x200 \<noteq> 0"
  shows "legal_control w MSR_VMX_PINBASED_CTLS (vmread vc' ENC_PIN_CONTROLS) \<and>
    legal_control w MSR_VMX_PROCBASED_CTLS (vmread vc' ENC_PRIMARY_CONTROLS) \<and>
    legal_control w MSR_VMX_PROCBASED_CTLS2 (vmread vc' ENC_SECONDARY_CONTROLS) \<and>
    legal_control w MSR_VMX_EXIT_CTLS (vmread vc' ENC_EXIT_CONTROLS) \<and>
    legal_control w MSR_VMX_ENTRY_CTLS (vmread vc' ENC_ENTRY_CONTROLS)"
proof -
  note f = init_control_fields [OF init refl]
  have c: "legal_control w msr (adjusted w msr x)" if "msr \<in> {MSR_VMX_PINBASED_CTLS, MSR_VMX_PROCBASED_CTLS, MSR_VMX_PROCBASED_CTLS2,
      MSR_VMX_EXIT_CTLS, MSR_VMX_ENTRY_CTLS}" for msr x
    using that caps by (blast intro: legal_control_adjusted)
  have o1: "legal_control w MSR_VMX_PROCBASED_CTLS2 (ucast ((ucast v :: u32) OR 0x1))"
    if "allowed1 w MSR_VMX_PROCBASED_CTLS2 AND 0x1 \<noteq> 0" "legal_control w MSR_VMX_PROCBASED_CTLS2 v" for v
    using legal_control_or [OF that(2) and_bit_zero(1) [OF that(1)]] .
  have o2: "legal_control w MSR_VMX_PROCBASED_CTLS2 (ucast (x OR 0x100))"
    if "allowed1 w MSR_VMX_PROCBASED_CTLS2 AND 0x100 \<noteq> 0" "legal_control w MSR_VMX_PROCBASED_CTLS2 (ucast x)" for x :: u32
    using legal_control_or [OF that(2) and_bit_zero(2) [OF that(1)]] by (simp only: ucast_narrow)
  have "legal_control w MSR_VMX_PROCBASED_CTLS2 (vmread vc' ENC_SECONDARY_CONTROLS)"
    unfolding f(5) Let_def using o1 [OF _ c] o2 [OF _ o1 [OF _ c]] by (auto simp: c)
  then show ?thesis
    unfolding f(1-4) using legal_control_or [OF c and_bit_zero(3) [OF ia32e]] by (simp add: c)
qed

section \<open>The guest state phase 2 leaves\<close>

text \<open>The conditions on control registers, EFER, segments, descriptor tables and flags under which a
  processor enters a 64-bit guest (read off the VMCS fields).\<close>

definition fixed_ok :: "u64 \<Rightarrow> u64 \<Rightarrow> u64 \<Rightarrow> bool" where
  "fixed_ok f0 f1 v \<longleftrightarrow> v AND f0 = f0 \<and> v AND NOT f1 = 0"

definition longmode_entry_ok :: "hw \<Rightarrow> vcpu \<Rightarrow> bool" where
  "longmode_entry_ok w vc \<longleftrightarrow>
     fixed_ok (rdmsr w MSR_VMX_CR0_FIXED0) (rdmsr w MSR_VMX_CR0_FIXED1) (vmread vc ENC_GUEST_CR0) \<and>
     fixed_ok (rdmsr w MSR_VMX_CR4_FIXED0) (rdmsr w MSR_VMX_CR4_FIXED1) (vmread vc ENC_GUEST_CR4) \<and>
     bit (vmread vc ENC_ENTRY_CONTROLS) 9 \<and>
     bit (vmread vc ENC_GUEST_CR0) 0 \<and> bit (vmread vc ENC_GUEST_CR0) 31 \<and> bit (vmread vc ENC_GUEST_CR4) 5 \<and>
     bit (vmread vc ENC_GUEST_IA32_EFER) 8 \<and> bit (vmread vc ENC_GUEST_IA32_EFER) 10 \<and>
     bit (vmread vc ENC_GUEST_CS_AR_BYTES) 13 \<and> \<not> bit (vmread vc ENC_GUEST_CS_AR_BYTES) 14 \<and> bit (vmread vc ENC_GUEST_CS_AR_BYTES) 7 \<and>
     vmread vc ENC_GUEST_TR_AR_BYTES AND 0xF = 0xB \<and> \<not> bit (vmread vc ENC_GUEST_TR_AR_BYTES) 16 \<and>
     bit (vmread vc ENC_GUEST_LDTR_AR_BYTES) 16 \<and>
     vmread vc ENC_GUEST_GDTR_LIMIT \<le> 0xFFFF \<and> vmread vc ENC_GUEST_IDTR_LIMIT \<le> 0xFFFF \<and>
     bit (vmread vc ENC_GUEST_RFLAGS) 1 \<and> \<not> bit (vmread vc ENC_GUEST_RFLAGS) 17 \<and>
     vmread vc ENC_GUEST_ACTIVITY_STATE = 0 \<and> vmread vc ENC_VMCS_LINK_POINTER = 0xFFFFFFFFFFFFFFFF"

lemma fixed_ok_fix:
  assumes "f0 AND NOT f1 = 0" shows "fixed_ok f0 f1 ((x OR f0) AND f1)"
proof -
  have "bit f0 n \<Longrightarrow> bit f1 n" for n
    using assms bit_imp_le_length [of f0 n] by (auto simp: bit_eq_iff bit_simps)
  then show ?thesis by (auto simp: fixed_ok_def bit_eq_iff bit_simps)
qed

lemma bit_fix: "bit x n \<Longrightarrow> bit f1 n \<Longrightarrow> bit ((x OR f0) AND f1 :: u64) n"
  by (simp add: bit_simps)

text \<open>(C6) On a processor whose fixed-bit registers are consistent and allow paging, protected mode and
  PAE, a successful phase 2 leaves a VMCS that satisfies the conditions for entering a 64-bit guest. The
  guest starts at the kernel entry point with the boot parameters in RSI and the page tables of the VM, and
  the shadow of CR0 agrees with CR0.\<close>

theorem init_longmode_entry:
  assumes init: "vmx_vcpu_init w b vc h = (Inr (), b', vc', h')"
    and cr0: "rdmsr w MSR_VMX_CR0_FIXED0 AND NOT (rdmsr w MSR_VMX_CR0_FIXED1) = 0"
      "bit (rdmsr w MSR_VMX_CR0_FIXED1) 0" "bit (rdmsr w MSR_VMX_CR0_FIXED1) 31"
    and cr4: "rdmsr w MSR_VMX_CR4_FIXED0 AND NOT (rdmsr w MSR_VMX_CR4_FIXED1) = 0" "bit (rdmsr w MSR_VMX_CR4_FIXED1) 5"
  shows "longmode_entry_ok w vc' \<and> vmread vc' ENC_GUEST_RIP = vb_kernel_entry_gpa b \<and> reg_rip (regs vc') = vb_kernel_entry_gpa b \<and>
    reg_rsi (regs vc') = vb_boot_params_gpa b \<and> vmread vc' ENC_GUEST_CR3 = vb_pml4_gpa b \<and> reg_rsp (regs vc') = vmread vc' ENC_GUEST_RSP \<and>
    vmread vc' ENC_CR0_READ_SHADOW = vmread vc' ENC_GUEST_CR0"
proof -
  from init obtain ept vc1 vc2 vc3 vc4 where
    st0: "vb_ept b = Some ept" and st: "vmx_init_controls w (vc\<lparr>vmcs_rejects := hw_rejects w, vmcs := (vmcs vc)(ENC_EPT_POINTER := eptp ept)\<rparr>) = (Inr (), vc1)"
      "relm_apic_vmcs_setup (rdmsr w MSR_VMX_PROCBASED_CTLS2) vc1 = (Inr (), vc2)"
      "relm_setup_cr_controls w vc2 = (Inr (), vc3)" "relm_setup_host_state w vc3 = (Inr (), vc4)"
      "relm_setup_guest_state_longmode w (Some b') vc4 = (Inr (), vc')" and b: "b'\<lparr>vb_ept := vb_ept b\<rparr> = b"
    by (rule vmx_vcpu_init_stages)
  have vb: "vb_pml4_gpa b' = vb_pml4_gpa b" "vb_kernel_entry_gpa b' = vb_kernel_entry_gpa b" "vb_boot_params_gpa b' = vb_boot_params_gpa b"
    using b by (metis vm_boot.select_convs(2-4) vm_boot.surjective vm_boot.update_convs(1))+
  note l = longmode_ok [OF st(5)]
  have sh: "vmread vc' ENC_CR0_READ_SHADOW = initial_cr0 w"
    using longmode_frame [OF st(5), of ENC_CR0_READ_SHADOW] host_state_frame [OF st(4), of ENC_CR0_READ_SHADOW] cr_controls_ok(1) [OF st(3)] by simp
  have bits: "bit (initial_cr0 w) 0" "bit (initial_cr0 w) 31" "bit (initial_cr4 w) 5"
    using cr0 cr4 by (simp_all add: initial_cr0_def initial_cr4_def fix_cr0_def fix_cr4_def bit_fix)
  have "bit (vmread vc' ENC_ENTRY_CONTROLS) 9" unfolding l(1) by (simp add: bit_simps)
  moreover have "fixed_ok (rdmsr w MSR_VMX_CR0_FIXED0) (rdmsr w MSR_VMX_CR0_FIXED1) (initial_cr0 w)"
    "fixed_ok (rdmsr w MSR_VMX_CR4_FIXED0) (rdmsr w MSR_VMX_CR4_FIXED1) (initial_cr4 w)"
    using cr0(1) cr4(1) by (simp_all add: initial_cr0_def initial_cr4_def fix_cr0_def fix_cr4_def fixed_ok_fix)
  ultimately have "longmode_entry_ok w vc'"
    unfolding longmode_entry_ok_def l(2-17) using bits by simp
  with l sh vb show ?thesis by simp
qed

section \<open>The host tables are overwritten\<close>

text \<open>The host GDT and IDT base fields do not keep the addresses the code reads with SGDT and SIDT: the
  encodings it uses for the SYSENTER registers of the host are those of the two base fields, and it writes
  them later. After a successful phase 2 the processor would load the SYSENTER code segment as GDT base
  and the SYSENTER stack pointer as IDT base on every exit.\<close>

theorem host_tables_overwritten:
  assumes "vmx_vcpu_init w b vc h = (Inr (), b', vc', h')"
  shows "vmread vc' ENC_HOST_GDTR_BASE = rdmsr w 0x174 \<and> vmread vc' ENC_HOST_IDTR_BASE = rdmsr w 0x175"
proof -
  from assms obtain ept vc1 vc2 vc3 vc4 where "vb_ept b = Some ept"
      "vmx_init_controls w (vc\<lparr>vmcs_rejects := hw_rejects w, vmcs := (vmcs vc)(ENC_EPT_POINTER := eptp ept)\<rparr>) = (Inr (), vc1)"
      "relm_apic_vmcs_setup (rdmsr w MSR_VMX_PROCBASED_CTLS2) vc1 = (Inr (), vc2)"
      "relm_setup_cr_controls w vc2 = (Inr (), vc3)" and hs: "relm_setup_host_state w vc3 = (Inr (), vc4)"
      and lm: "relm_setup_guest_state_longmode w (Some b') vc4 = (Inr (), vc')" and "b'\<lparr>vb_ept := vb_ept b\<rparr> = b"
    by (rule vmx_vcpu_init_stages)
  show ?thesis
    using longmode_frame [OF lm, of ENC_HOST_GDTR_BASE] longmode_frame [OF lm, of ENC_HOST_IDTR_BASE]
    by (simp add: host_state_ok(1) [OF hs] vmread_def)
qed

section \<open>A processor and a vCPU on which phase 2 succeeds\<close>

definition demo_hw :: hw where
  "demo_hw = \<lparr>rdmsr = (\<lambda>m. if m \<in> {0x481, 0x482, 0x483, 0x484, 0x48B} then 0xFFFFFFFF00000016
       else if m = 0x486 then 0x80000021 else if m = 0x487 then 0xFFFFFFFF else if m = 0x488 then 0x2000
       else if m = 0x489 then 0x7FFFFF else if m = 0x174 then 0x10 else if m = 0x175 then 0xFFFFFE0000002000
       else if m = 0x480 then 0x100000000012 else 0),
     vmclear_ok = True, vmptrld_ok = True, hw_rejects = (\<lambda>_. False), hw_cr0 = 0x80050033, hw_cr3 = 0x1000, hw_cr4 = 0x3626F0,
     hw_tr = 0x40, hw_gdt_address = 0xFFFFFE0000001000, hw_gdt_size = 0x7F, hw_gdt_desc = (\<lambda>_. 0), hw_idt_address = 0xFFFFFE0000000000,
     hw_kernel_cs = 0x10, hw_kernel_ds = 0x18, hw_vmexit_handler = 0xFFFFFFFFC0001000\<rparr>"

definition demo_boot :: vm_boot where
  "demo_boot = \<lparr>vb_ept = Some demo_ept, vb_pml4_gpa = 0x7FFD000, vb_kernel_entry_gpa = 0x100200, vb_boot_params_gpa = 0x10000,
     vb_total_guest_ram = 0x8000000\<rparr>"

definition demo_new_vcpu :: vcpu where
  "demo_new_vcpu = relm_init_exec_controls demo_hw (demo_vcpu\<lparr>apic := blank_apic, va := blank_arch\<lparr>va_vmcs := Some 0x20000\<rparr>\<rparr>)"

text \<open>Phase 2 succeeds on a processor that rejects no field, for a vCPU whose regions are allocated and a VM
  that is loaded. A step passes when it succeeds on every vCPU whose fields are all accepted.\<close>

definition passes :: "setup_step \<Rightarrow> bool" where
  "passes f \<longleftrightarrow> (\<forall>vc. vmcs_rejects vc = (\<lambda>_. False) \<longrightarrow>
     (\<exists>vc'. f vc = (Inr (), vc') \<and> vmcs_rejects vc' = (\<lambda>_. False) \<and> apic vc' = apic vc))"

lemma passesD:
  "passes f \<Longrightarrow> vmcs_rejects vc = (\<lambda>_. False) \<Longrightarrow> \<exists>vc'. f vc = (Inr (), vc') \<and> vmcs_rejects vc' = (\<lambda>_. False) \<and> apic vc' = apic vc"
  by (simp add: passes_def)

lemma passes_writes: "passes (writes ws)"
  by (auto simp: passes_def step_simps accepted_def)

lemma passes_assign: "(\<And>vc. vmcs_rejects (f vc) = vmcs_rejects vc \<and> apic (f vc) = apic vc) \<Longrightarrow> passes (assign f)"
  by (auto simp: passes_def step_simps)

lemma passes_require: "(\<And>vc. P vc) \<Longrightarrow> passes (require P e)"
  by (auto simp: passes_def step_simps)

lemma passes_as_eio: "passes f \<Longrightarrow> passes (as_eio f)"
  by (fastforce simp: passes_def step_simps)

lemma passes_run_steps: "\<forall>f\<in>set fs. passes f \<Longrightarrow> passes (run_steps fs)"
proof (induction fs)
  case Nil
  then show ?case by (auto simp: passes_def step_simps)
next
  case (Cons f fs)
  then have f: "passes f" and fs: "passes (run_steps fs)" by auto
  show ?case unfolding passes_def step_simps
  proof (intro allI impI)
    fix vc :: vcpu assume "vmcs_rejects vc = (\<lambda>_. False)"
    with f obtain v1 where 1: "f vc = (Inr (), v1)" "vmcs_rejects v1 = (\<lambda>_. False)" "apic v1 = apic vc" unfolding passes_def by blast
    with fs obtain v2 where "run_steps fs v1 = (Inr (), v2)" "vmcs_rejects v2 = (\<lambda>_. False)" "apic v2 = apic v1" unfolding passes_def by blast
    with 1 show "\<exists>vc'. (\<exists>vc1. f vc = (Inr (), vc1) \<and> run_steps fs vc1 = (Inr (), vc')) \<and> vmcs_rejects vc' = (\<lambda>_. False) \<and> apic vc' = apic vc"
      by auto
  qed
qed

lemmas passes_intros = passes_run_steps passes_as_eio passes_writes passes_assign passes_require

lemma passes_stages:
  "passes (vmx_init_controls w)" "passes (relm_setup_cr_controls w)" "hw_tr w \<noteq> 0 \<Longrightarrow> passes (relm_setup_host_state w)"
  "vb_pml4_gpa b \<noteq> 0 \<Longrightarrow> vb_kernel_entry_gpa b \<noteq> 0 \<Longrightarrow> vb_boot_params_gpa b \<noteq> 0 \<Longrightarrow> passes (relm_setup_guest_state_longmode w (Some b))"
  unfolding vmx_init_controls_def relm_apply_exec_controls_def relm_setup_cr_controls_def relm_setup_host_state_def relm_setup_guest_state_longmode_def
  by (auto intro!: passes_intros)

lemma apic_vmcs_setup_passes:
  assumes "vmcs_rejects vc = (\<lambda>_. False)" "vapic_page_pa (apic vc) \<noteq> 0" "apic_access_page_pa (apic vc) \<noteq> 0"
  shows "\<exists>vc'. relm_apic_vmcs_setup c vc = (Inr (), vc') \<and> vmcs_rejects vc' = (\<lambda>_. False) \<and>
     apic_access_page_pa (apic vc') = apic_access_page_pa (apic vc)"
  using assms by (auto simp: relm_apic_vmcs_setup_def vmwrite_def Let_def)

lemma vmx_vcpu_init_succeeds:
  assumes vm: "vb_ept b = Some ept" "pml4 ept = Some r" "vb_pml4_gpa b \<noteq> 0" "vb_kernel_entry_gpa b \<noteq> 0" "vb_boot_params_gpa b \<noteq> 0"
    and cpu: "vmclear_ok w" "vmptrld_ok w" "hw_rejects w = (\<lambda>_. False)" "hw_tr w \<noteq> 0"
    and vc: "pa_of (va_vmcs (va vc)) \<noteq> 0" "vapic_page_pa (apic vc) \<noteq> 0" "apic_access_page_pa (apic vc) \<noteq> 0"
      "PAGE_ALIGNED (apic_access_page_pa (apic vc))" and h: "3 \<le> length (pool h)"
  shows "\<exists>b' vc' h'. vmx_vcpu_init w b vc h = (Inr (), b', vc', h')"
proof -
  let ?vc = "vc\<lparr>vmcs_rejects := hw_rejects w\<rparr>"
  have "passes (run_steps [writes (\<lambda>_. [(ENC_EPT_POINTER, eptp ept)]), vmx_init_controls w])"
    by (auto intro!: passes_intros passes_stages)
  then obtain v1 where 1: "run_steps [writes (\<lambda>_. [(ENC_EPT_POINTER, eptp ept)]), vmx_init_controls w] ?vc = (Inr (), v1)"
    "vmcs_rejects v1 = (\<lambda>_. False)" "apic v1 = apic vc" using passesD [of _ ?vc] cpu(3) by fastforce
  obtain v2 where 2: "relm_apic_vmcs_setup (rdmsr w MSR_VMX_PROCBASED_CTLS2) v1 = (Inr (), v2)" "vmcs_rejects v2 = (\<lambda>_. False)"
    "apic_access_page_pa (apic v2) = apic_access_page_pa (apic vc)"
    using apic_vmcs_setup_passes [OF 1(2)] vc 1(3) by auto
  have 12: "run_steps [writes (\<lambda>_. [(ENC_EPT_POINTER, eptp ept)]), vmx_init_controls w,
      as_eio (relm_apic_vmcs_setup (rdmsr w MSR_VMX_PROCBASED_CTLS2))] ?vc = (Inr (), v2)"
    using 1(1) 2(1) unfolding step_simps by blast
  obtain ctx h1 where 3: "relm_ept_map_page 0xFEE00000 (apic_access_page_pa (apic vc)) 0x3 (Some ept) h = (Inr (), ctx, h1)"
    using ept_map_page_succeeds [OF vm(2) _ vc(4) _ h, of "0xFEE00000" "0x3"] by (auto simp: PAGE_ALIGNED_def)
  have "passes (run_steps [as_eio (relm_setup_cr_controls w), as_eio (relm_setup_host_state w),
      as_eio (relm_setup_guest_state_longmode w (Some (b\<lparr>vb_ept := ctx\<rparr>)))])"
    using vm cpu(4) by (auto intro!: passes_intros passes_stages)
  then obtain v3 where "run_steps [as_eio (relm_setup_cr_controls w), as_eio (relm_setup_host_state w),
      as_eio (relm_setup_guest_state_longmode w (Some (b\<lparr>vb_ept := ctx\<rparr>)))] v2 = (Inr (), v3)"
    unfolding passes_def using 2(2) by blast
  with vm(1) cpu vc 12 2(3) 3 show ?thesis
    by (simp add: vmx_vcpu_init_def relm_vmclear_def relm_vmptrld_def relm_apic_ept_setup_def)
qed

lemma demo_init: "\<exists>b' vc' h'. vmx_vcpu_init demo_hw demo_boot demo_new_vcpu demo_host1 = (Inr (), b', vc', h')"
  by (rule vmx_vcpu_init_succeeds [of _ demo_ept "0x1000"])
    (simp_all add: demo_boot_def demo_ept_def demo_hw_def demo_new_vcpu_def relm_init_exec_controls_def
      blank_apic_def pa_of_def demo_host1_def PAGE_ALIGNED_def)

theorem init_controls_legal_witness:
  "\<exists>b' vc' h'. vmx_vcpu_init demo_hw demo_boot demo_new_vcpu demo_host1 = (Inr (), b', vc', h') \<and>
     legal_control demo_hw 0x484 (vmread vc' ENC_ENTRY_CONTROLS)"
proof -
  obtain b' vc' h' where i: "vmx_vcpu_init demo_hw demo_boot demo_new_vcpu demo_host1 = (Inr (), b', vc', h')" using demo_init by blast
  have "\<forall>msr\<in>{0x481, 0x482, 0x48B, 0x483, 0x484}. allowed0 demo_hw msr AND NOT (allowed1 demo_hw msr) = 0"
    "allowed1 demo_hw 0x484 AND 0x200 \<noteq> 0"
    by (simp_all add: allowed0_def allowed1_def demo_hw_def)
  from init_controls_legal [OF i this] i show ?thesis by blast
qed

theorem init_longmode_entry_witness:
  "\<exists>b' vc' h'. vmx_vcpu_init demo_hw demo_boot demo_new_vcpu demo_host1 = (Inr (), b', vc', h') \<and>
     longmode_entry_ok demo_hw vc' \<and> vmread vc' ENC_GUEST_RIP = 0x100200 \<and> reg_rsi (regs vc') = 0x10000"
proof -
  obtain b' vc' h' where i: "vmx_vcpu_init demo_hw demo_boot demo_new_vcpu demo_host1 = (Inr (), b', vc', h')" using demo_init by blast
  from init_longmode_entry [OF i] i show ?thesis by (auto simp: demo_hw_def demo_boot_def)
qed

theorem host_tables_overwritten_witness:
  "\<exists>b' vc' h'. vmx_vcpu_init demo_hw demo_boot demo_new_vcpu demo_host1 = (Inr (), b', vc', h') \<and>
     vmread vc' ENC_HOST_GDTR_BASE = 0x10 \<and> hw_gdt_address demo_hw = 0xFFFFFE0000001000"
proof -
  obtain b' vc' h' where i: "vmx_vcpu_init demo_hw demo_boot demo_new_vcpu demo_host1 = (Inr (), b', vc', h')" using demo_init by blast
  from host_tables_overwritten [OF i] i show ?thesis by (auto simp: demo_hw_def)
qed

end
