(* ===== verification/Relm_Vmx_Alloc.thy ===== *)
theory Relm_Vmx_Alloc
  imports Relm_Vmx_Setup "HOL-Library.Multiset"
begin

text \<open>
  Phase 1 of a VMX vCPU (src/arch/x86/vmx/vmx.c, src/core/vcpu.c): the host stack, the VMCS region, the
  I/O and MSR bitmaps, the MSR areas, the virtual-APIC pages, and their release. Pages come from and go
  back to the pool of the host. The theorems: an allocation that fails anywhere leaves no page behind,
  releasing a vCPU returns exactly the pages it took, which MSR accesses of the guest exit, and that no
  port access exits.
\<close>

section \<open>Blocks of pages\<close>

text \<open>\<open>get_order\<close>: the smallest order whose block holds the given number of bytes; the kernel computes 52
  for zero bytes, where it subtracts one first.\<close>

function get_order :: "nat \<Rightarrow> nat" where
  "get_order n = (if n = 0 then 52 else if n \<le> 4096 then 0 else Suc (get_order ((n + 1) div 2)))"
  by auto
termination by (relation "measure id") auto

declare get_order.simps [simp del]

lemma get_order_small [simp]: "0 < n \<Longrightarrow> n \<le> 4096 \<Longrightarrow> get_order n = 0"
  by (simp add: get_order.simps)

definition block :: "u64 \<Rightarrow> nat \<Rightarrow> u64 list" where
  "block f k = map (\<lambda>i. f + word_of_nat i * 0x1000) [0..<k]"

text \<open>\<open>__get_free_pages(.. | __GFP_ZERO, order)\<close>: the first run of consecutive free frames, or nothing.
  The kernel refuses an order above \<open>MAX_PAGE_ORDER\<close>, which is 10.\<close>

definition get_free_pages :: "nat \<Rightarrow> host \<Rightarrow> u64 option \<times> host" where
  "get_free_pages order h =
     (case (if 10 < order then None else find (\<lambda>f. set (block f (2 ^ order)) \<subseteq> set (pool h)) (pool h)) of
        None \<Rightarrow> (None, h)
      | Some f \<Rightarrow> (Some f, h\<lparr>pool := filter (\<lambda>x. x \<notin> set (block f (2 ^ order))) (pool h),
                             pmem := fold (\<lambda>p m. zero_page m p) (block f (2 ^ order)) (pmem h)\<rparr>))"

definition free_pages :: "u64 \<Rightarrow> nat \<Rightarrow> host \<Rightarrow> host" where
  "free_pages f order h = h\<lparr>pool := pool h @ block f (2 ^ order)\<rparr>"

section \<open>The VMCS region and the bitmaps\<close>

text \<open>\<open>_get_vmcs_size\<close>: -1 when the processor reports no size.\<close>

definition get_vmcs_size :: "hw \<Rightarrow> int" where
  "get_vmcs_size w = (let s = uint (drop_bit 32 (rdmsr w 0x480) AND 0x1FFF) in if s = 0 then - 1 else s)"

text \<open>The order the allocation uses: the size as an unsigned 32-bit integer, rounded up to pages in 32
  bits; and the order the release uses: the size converted to 64 bits.\<close>

definition vmcs_alloc_order :: "hw \<Rightarrow> nat" where
  "vmcs_alloc_order w =
     (let s = word_of_int (get_vmcs_size w) :: u32
      in get_order (if s \<le> 4096 then 4096 else unat ((s + 0xFFF) AND NOT 0xFFF)))"

definition vmcs_free_order :: "hw \<Rightarrow> nat" where
  "vmcs_free_order w = get_order (unat (word_of_int (get_vmcs_size w) :: u64))"

definition relm_setup_vmcs_region :: "hw \<Rightarrow> vcpu \<Rightarrow> host \<Rightarrow> unit res \<times> vcpu \<times> host" where
  "relm_setup_vmcs_region w vc h =
     (case get_free_pages (vmcs_alloc_order w) h of
        (None, h) \<Rightarrow> (Inl ENOMEM, vc\<lparr>va := (va vc)\<lparr>va_vmcs := None\<rparr>\<rparr>, h)
      | (Some p, h) \<Rightarrow> (Inr (), vc\<lparr>va := (va vc)\<lparr>va_vmcs := Some p\<rparr>\<rparr>,
          h\<lparr>pmem := wr_bytes (pmem h) p (le_bytes 4 (ucast (ucast (rdmsr w 0x480) :: u32)))\<rparr>))"

definition relm_free_vmcs_region :: "hw \<Rightarrow> vcpu \<Rightarrow> host \<Rightarrow> vcpu \<times> host" where
  "relm_free_vmcs_region w vc h =
     (case va_vmcs (va vc) of None \<Rightarrow> (vc, h)
      | Some p \<Rightarrow> (vc\<lparr>va := (va vc)\<lparr>va_vmcs := None\<rparr>\<rparr>,
          free_pages p (vmcs_free_order w) h))"

definition relm_setup_io_bitmap :: "vcpu \<Rightarrow> host \<Rightarrow> unit res \<times> vcpu \<times> host" where
  "relm_setup_io_bitmap vc h =
     (case get_free_pages (get_order (2 * 4096)) h of
        (None, h) \<Rightarrow> (Inl ENOMEM, vc\<lparr>va := (va vc)\<lparr>va_io_bitmap := None\<rparr>\<rparr>, h)
      | (Some p, h) \<Rightarrow> (Inr (), vc\<lparr>va := (va vc)\<lparr>va_io_bitmap := Some p\<rparr>\<rparr>, h))"

definition relm_free_io_bitmap :: "vcpu \<Rightarrow> host \<Rightarrow> vcpu \<times> host" where
  "relm_free_io_bitmap vc h =
     (case va_io_bitmap (va vc) of None \<Rightarrow> (vc, h)
      | Some p \<Rightarrow> (vc\<lparr>va := (va vc)\<lparr>va_io_bitmap := None\<rparr>\<rparr>, free_pages p 1 h))"

abbreviation (input) RELM_MSR_READ :: nat where "RELM_MSR_READ \<equiv> 1"
abbreviation (input) RELM_MSR_WRITE :: nat where "RELM_MSR_WRITE \<equiv> 2"

definition or_byte :: "u64 \<Rightarrow> u8 \<Rightarrow> mem \<Rightarrow> mem" where
  "or_byte a v m = m(a := m a OR v)"

text \<open>The access mask as the two flags it holds.\<close>

definition relm_msr_bitmap_set :: "u64 \<Rightarrow> u32 \<Rightarrow> bool \<Rightarrow> bool \<Rightarrow> mem \<Rightarrow> mem" where
  "relm_msr_bitmap_set bitmap msr rd wr m =
     (if msr \<le> 0x1FFF \<or> msr \<ge> 0xC0000000 \<and> msr \<le> 0xC0001FFF then
        let off = (if msr \<le> 0x1FFF then 0 else 0x400) :: u32;
            byte = off + (msr AND 0x1FFF) div 8; b = unat ((msr AND 0x1FFF) mod 8);
            m = (if rd then or_byte (bitmap + ucast byte) (push_bit b 1) m else m)
        in if wr then or_byte (bitmap + ucast (byte + 0x800)) (push_bit b 1) m else m
      else m)"

definition relm_intercept_sysenter_cs :: "u64 \<Rightarrow> mem \<Rightarrow> mem" where
  "relm_intercept_sysenter_cs bitmap m = relm_msr_bitmap_set bitmap 0x174 True False m"

definition relm_intercept_apic_base :: "u64 \<Rightarrow> mem \<Rightarrow> mem" where
  "relm_intercept_apic_base bitmap m = relm_msr_bitmap_set bitmap 0x1B True False m"

definition relm_setup_msr_bitmap :: "vcpu \<Rightarrow> host \<Rightarrow> unit res \<times> vcpu \<times> host" where
  "relm_setup_msr_bitmap vc h =
     (case get_zeroed_page h of
        (None, h) \<Rightarrow> (Inl ENOMEM, vc\<lparr>va := (va vc)\<lparr>va_msr_bitmap := None\<rparr>\<rparr>, h)
      | (Some p, h) \<Rightarrow> (Inr (), vc\<lparr>va := (va vc)\<lparr>va_msr_bitmap := Some p\<rparr>\<rparr>,
          h\<lparr>pmem := relm_intercept_apic_base p (relm_intercept_sysenter_cs p (pmem h))\<rparr>))"

definition relm_free_msr_bitmap :: "vcpu \<Rightarrow> host \<Rightarrow> vcpu \<times> host" where
  "relm_free_msr_bitmap vc h =
     (case va_msr_bitmap (va vc) of None \<Rightarrow> (vc, h)
      | Some p \<Rightarrow> (vc\<lparr>va := (va vc)\<lparr>va_msr_bitmap := None\<rparr>\<rparr>, free_page p h))"

section \<open>MSR areas\<close>

definition msr_area_order :: "nat \<Rightarrow> nat" where
  "msr_area_order bytes = get_order ((bytes + 4095) div 4096 * 4096)"

definition alloc_msr_entry :: "nat \<Rightarrow> host \<Rightarrow> u64 option \<times> host" where
  "alloc_msr_entry n h = get_free_pages (msr_area_order (n * 16)) h"

definition free_msr_area :: "u64 option \<Rightarrow> nat \<Rightarrow> host \<Rightarrow> host" where
  "free_msr_area area n h = (case area of None \<Rightarrow> h | Some p \<Rightarrow> free_pages p (msr_area_order (n * 16)) h)"

text \<open>An entry is the index, a reserved dword that is zero, and the value.\<close>

fun populate_msr_area :: "u64 \<Rightarrow> (u32 \<times> u64) list \<Rightarrow> mem \<Rightarrow> mem" where
  "populate_msr_area a [] m = m"
| "populate_msr_area a ((i, v) # es) m = populate_msr_area (a + 16) es (wr64 (wr64 m a (ucast i)) (a + 8) v)"

definition populate_msr_load_area :: "u64 \<Rightarrow> u32 list \<Rightarrow> u64 list \<Rightarrow> mem \<Rightarrow> mem" where
  "populate_msr_load_area a indices values m = populate_msr_area a (zip indices values) m"

definition populate_msr_store_area :: "u64 \<Rightarrow> u32 list \<Rightarrow> mem \<Rightarrow> mem" where
  "populate_msr_store_area a indices m = populate_msr_area a (map (\<lambda>i. (i, 0)) indices) m"

definition relm_setup_msr_areas :: "u32 list \<Rightarrow> u32 list \<Rightarrow> u64 list \<Rightarrow> vcpu \<Rightarrow> host \<Rightarrow> unit res \<times> vcpu \<times> host" where
  "relm_setup_msr_areas vmexit_list vmentry_list vmentry_values vc h =
     (let vmexit_count = length vmexit_list; vmentry_count = length vmentry_list in
      if vmexit_count > 65535 \<or> vmentry_count > 65535 then (Inl EINVAL, vc, h)
      else case alloc_msr_entry vmexit_count h of
        (None, h) \<Rightarrow> (Inl ENOMEM, vc\<lparr>va := (va vc)\<lparr>va_vmexit_store_area := None\<rparr>\<rparr>, h)
      | (Some store, h) \<Rightarrow>
        (case alloc_msr_entry vmentry_count h of
           (None, h) \<Rightarrow> (Inl ENOMEM, vc\<lparr>va := (va vc)\<lparr>va_vmexit_load_area := None, va_vmexit_store_area := None\<rparr>\<rparr>,
                         free_msr_area (Some store) vmexit_count h)
         | (Some xload, h) \<Rightarrow>
           (case alloc_msr_entry vmentry_count h of
              (None, h) \<Rightarrow> (Inl ENOMEM, vc\<lparr>va := (va vc)\<lparr>va_vmentry_load_area := None, va_vmexit_load_area := None, va_vmexit_store_area := None\<rparr>\<rparr>,
                            free_msr_area (Some store) vmexit_count (free_msr_area (Some xload) vmentry_count h))
            | (Some nload, h) \<Rightarrow>
              (Inr (), vc\<lparr>va := (va vc)\<lparr>va_vmexit_store_area := Some store, va_vmexit_load_area := Some xload, va_vmentry_load_area := Some nload,
                 va_vmexit_count := vmexit_count, va_vmentry_count := vmentry_count\<rparr>\<rparr>,
               h\<lparr>pmem := populate_msr_load_area nload vmentry_list vmentry_values
                  (populate_msr_area xload (zip vmentry_list vmentry_values) (populate_msr_store_area store vmexit_list (pmem h)))\<rparr>))))"

definition relm_free_all_msr_areas :: "vcpu \<Rightarrow> host \<Rightarrow> vcpu \<times> host" where
  "relm_free_all_msr_areas vc h =
     (let a = va vc;
          h = free_msr_area (va_vmexit_store_area a) (va_vmexit_count a) h;
          h = free_msr_area (va_vmexit_load_area a) (va_vmentry_count a) h;
          h = free_msr_area (va_vmentry_load_area a) (va_vmentry_count a) h
      in (vc\<lparr>va := a\<lparr>va_vmexit_store_area := None, va_vmexit_load_area := None, va_vmentry_load_area := None,
            va_vmexit_count := 0, va_vmentry_count := 0\<rparr>\<rparr>, h))"

definition managed_msrs :: "u32 list" where
  "managed_msrs = [0xC0000080, 0xC0000081, 0xC0000082, 0xC0000083, 0xC0000084, 0xC0000100, 0xC0000101]"

text \<open>The FS and GS bases of the register file are never assigned, so they are zero.\<close>

definition relm_vcpu_setup_msr_state :: "vcpu \<Rightarrow> host \<Rightarrow> unit res \<times> vcpu \<times> host" where
  "relm_vcpu_setup_msr_state vc h =
     (let vc = vc\<lparr>va := (va vc)\<lparr>va_msr_indices := managed_msrs @ drop 7 (va_msr_indices (va vc))\<rparr>, arch_efer := 0x100 OR 0x400 OR 0x1\<rparr>;
          vmentry_values = [arch_efer vc, 0, 0, 0, 0, 0, 0]
      in relm_setup_msr_areas managed_msrs managed_msrs vmentry_values vc h)"

section \<open>Phase 1\<close>

text \<open>The exception bitmap is written with VMWRITE although this VMCS is not current yet: the instruction
  fails, or reaches the VMCS that happens to be current on the processor, and its result is ignored. The
  fields of this VMCS stay as they are.\<close>

text \<open>The error labels, each falling through to the next.\<close>

definition out_free_apic :: "vcpu \<Rightarrow> host \<Rightarrow> unit res \<times> vcpu \<times> host" where
  "out_free_apic vc h = (case relm_apic_free (apic vc) h of (a, h) \<Rightarrow> (Inl ENOMEM, vc\<lparr>apic := a\<rparr>, h))"

definition out_free_vmcs :: "hw \<Rightarrow> vcpu \<Rightarrow> host \<Rightarrow> unit res \<times> vcpu \<times> host" where
  "out_free_vmcs w vc h = (case relm_free_vmcs_region w vc h of (vc, h) \<Rightarrow> out_free_apic vc h)"

definition out_free_io_bitmap :: "hw \<Rightarrow> vcpu \<Rightarrow> host \<Rightarrow> unit res \<times> vcpu \<times> host" where
  "out_free_io_bitmap w vc h = (case relm_free_io_bitmap vc h of (vc, h) \<Rightarrow> out_free_vmcs w vc h)"

definition out_free_msr_bitmap :: "hw \<Rightarrow> vcpu \<Rightarrow> host \<Rightarrow> unit res \<times> vcpu \<times> host" where
  "out_free_msr_bitmap w vc h = (case relm_free_msr_bitmap vc h of (vc, h) \<Rightarrow> out_free_io_bitmap w vc h)"

text \<open>\<open>vmx_vcpu_alloc\<close> in three parts: from the MSR bitmap on, from the I/O bitmap on, and the whole.\<close>

definition vmx_alloc_msrs :: "hw \<Rightarrow> vcpu \<Rightarrow> host \<Rightarrow> unit res \<times> vcpu \<times> host" where
  "vmx_alloc_msrs w vc h =
     (case (if relm_vcpu_msr_bitmap_enabled vc then relm_setup_msr_bitmap vc h else (Inr (), vc, h)) of
        (Inl e, vc, h) \<Rightarrow> out_free_io_bitmap w vc h
      | (Inr _, vc, h) \<Rightarrow>
        (case relm_vcpu_setup_msr_state vc h of
           (Inl e, vc, h) \<Rightarrow> out_free_msr_bitmap w vc h
         | (Inr _, vc, h) \<Rightarrow> (Inr (), vc\<lparr>apic := relm_apic_init (ucast (vpid vc - 1)) (apic vc)\<rparr>, h)))"

definition vmx_alloc_bitmaps :: "hw \<Rightarrow> vcpu \<Rightarrow> host \<Rightarrow> unit res \<times> vcpu \<times> host" where
  "vmx_alloc_bitmaps w vc h =
     (case (if relm_vcpu_io_bitmap_enabled vc then relm_setup_io_bitmap vc h else (Inr (), vc, h)) of
        (Inl e, vc, h) \<Rightarrow> out_free_vmcs w vc h
      | (Inr _, vc, h) \<Rightarrow>
        let vc = vc\<lparr>va := (va vc)\<lparr>va_exception_bitmap := 0\<rparr>\<rparr>;
            vc = (relm_disable_ud_intercept (relm_disable_page_fault_intercept vc))\<lparr>vmcs := vmcs vc\<rparr>
        in vmx_alloc_msrs w vc h)"

definition vmx_vcpu_alloc :: "hw \<Rightarrow> u64 \<Rightarrow> vcpu \<Rightarrow> host \<Rightarrow> unit res \<times> vcpu \<times> host" where
  "vmx_vcpu_alloc w pml4_gpa vc h =
     (case relm_apic_alloc (apic vc) h of
        (Inl e, a, h) \<Rightarrow> (Inl ENOMEM, vc\<lparr>apic := a\<rparr>, h)
      | (Inr _, a, h) \<Rightarrow>
        let vc = vc\<lparr>apic := a, launched := 0, regs := (regs vc)\<lparr>reg_rflags := 0x2, reg_rip := 0\<rparr>,
              va := (va vc)\<lparr>va_cr3 := pml4_gpa, va_host_rsp := (pa_of (va_host_stack (va vc)) + 0x4000 - 0x100) AND NOT 0xF\<rparr>\<rparr>
        in case relm_setup_vmcs_region w vc h of
             (Inl e, vc, h) \<Rightarrow> out_free_apic vc h
           | (Inr _, vc, h) \<Rightarrow> vmx_alloc_bitmaps w (relm_init_exec_controls w vc) h)"

definition vmx_vcpu_free :: "hw \<Rightarrow> vcpu \<Rightarrow> host \<Rightarrow> vcpu \<times> host" where
  "vmx_vcpu_free w vc h =
     (case relm_apic_free (apic vc) h of (a, h) \<Rightarrow>
      case relm_free_all_msr_areas (vc\<lparr>apic := a\<rparr>) h of (vc, h) \<Rightarrow>
      case relm_free_msr_bitmap vc h of (vc, h) \<Rightarrow>
      case relm_free_io_bitmap vc h of (vc, h) \<Rightarrow> relm_free_vmcs_region w vc h)"

section \<open>The generic vCPU\<close>

text \<open>\<open>relm_vcpu_create\<close> with the operations of VMX: \<open>z\<close> is the zeroed structure that kzalloc returns.\<close>

definition relm_vcpu_create :: "hw \<Rightarrow> u64 \<Rightarrow> u16 \<Rightarrow> vcpu \<Rightarrow> host \<Rightarrow> vcpu res \<times> host" where
  "relm_vcpu_create w pml4_gpa vp z h =
     (case kzalloc h of
        (False, h) \<Rightarrow> (Inl ENOMEM, h)
      | (True, h) \<Rightarrow>
        let vc = z\<lparr>vpid := vp, vc_state := VCPU_STATE_UNINITIALIZED\<rparr> in
        (case get_free_pages 2 h of
           (None, h) \<Rightarrow> (Inl ENOMEM, h)
         | (Some stack, h) \<Rightarrow>
           (case vmx_vcpu_alloc w pml4_gpa (vc\<lparr>va := (va vc)\<lparr>va_host_stack := Some stack\<rparr>\<rparr>) h of
              (Inl e, vc, h) \<Rightarrow> (Inl e, free_pages stack 2 h)
            | (Inr _, vc, h) \<Rightarrow> (Inr (vc\<lparr>vc_state := VCPU_STATE_INITIALIZED\<rparr>), h))))"

definition relm_vcpu_free :: "hw \<Rightarrow> vcpu \<Rightarrow> host \<Rightarrow> host" where
  "relm_vcpu_free w vc h =
     (case vmx_vcpu_free w vc h of (vc, h) \<Rightarrow>
      case va_host_stack (va vc) of None \<Rightarrow> h | Some p \<Rightarrow> free_pages p 2 h)"

section \<open>Accounting for the pages\<close>

text \<open>The frames a vCPU holds, with multiplicity: a frame freed twice, or freed with the wrong order,
  shows up as a difference.\<close>

definition opt_block :: "u64 option \<Rightarrow> nat \<Rightarrow> u64 multiset" where
  "opt_block p order = (case p of None \<Rightarrow> {#} | Some f \<Rightarrow> mset (block f (2 ^ order)))"

definition apic_pages :: "virt_apic \<Rightarrow> u64 multiset" where
  "apic_pages a = (if vapic_page a \<noteq> None then {#vapic_page_pa a#} else {#}) +
                  (if apic_access_page a then {#apic_access_page_pa a#} else {#})"

definition owned :: "hw \<Rightarrow> vcpu \<Rightarrow> u64 multiset" where
  "owned w vc = apic_pages (apic vc) + opt_block (va_vmcs (va vc)) (vmcs_free_order w) +
     opt_block (va_io_bitmap (va vc)) 1 + opt_block (va_msr_bitmap (va vc)) 0 +
     opt_block (va_vmexit_store_area (va vc)) (msr_area_order (va_vmexit_count (va vc) * 16)) +
     opt_block (va_vmexit_load_area (va vc)) (msr_area_order (va_vmentry_count (va vc) * 16)) +
     opt_block (va_vmentry_load_area (va vc)) (msr_area_order (va_vmentry_count (va vc) * 16))"

definition took :: "host \<Rightarrow> u64 multiset \<Rightarrow> host \<Rightarrow> bool" where
  "took h b h' \<longleftrightarrow> distinct (pool h') \<and> mset (pool h) = b + mset (pool h')"

lemma tookD: "took h b h' \<Longrightarrow> distinct (pool h')" "took h b h' \<Longrightarrow> mset (pool h) = b + mset (pool h')"
  by (simp_all add: took_def)

lemma block_distinct: "k \<le> 2 ^ 52 \<Longrightarrow> distinct (block f k)"
proof -
  assume k: "k \<le> 2 ^ 52"
  have "i = j" if "i < k" "j < k" "f + word_of_nat i * 0x1000 = f + word_of_nat j * 0x1000" for i j
  proof -
    have u: "unat (word_of_nat n * 0x1000 :: u64) = n * 0x1000" if "n < k" for n
      using that k by (simp add: unat_word_ariths unat_of_nat)
    from that(3) have "unat (word_of_nat i * 0x1000 :: u64) = unat (word_of_nat j * 0x1000 :: u64)" by simp
    then show ?thesis unfolding u [OF that(1)] u [OF that(2)] by simp
  qed
  then show ?thesis by (auto simp: block_def distinct_map inj_on_def)
qed

lemma get_free_pages_cases:
  assumes d: "distinct (pool h)" and g: "get_free_pages k h = (r, h')"
  obtains "r = None" "h' = h" | f where "r = Some f" "took h (mset (block f (2 ^ k))) h'"
proof (cases "if 10 < k then None else find (\<lambda>f. set (block f (2 ^ k)) \<subseteq> set (pool h)) (pool h)")
  case None
  with g that(1) show ?thesis by (simp add: get_free_pages_def)
next
  case (Some f)
  let ?b = "block f (2 ^ k)"
  from Some have k: "k \<le> 10" and sub: "set ?b \<subseteq> set (pool h)" by (auto simp: find_Some_iff split: if_splits)
  have "(2 :: nat) ^ k \<le> 2 ^ 52" using k by (intro power_increasing) simp_all
  then have db: "distinct ?b" by (rule block_distinct)
  have i: "mset (filter (\<lambda>x. x \<in> set ?b) (pool h)) = mset ?b"
    using d db sub by (subst set_eq_iff_mset_eq_distinct [symmetric]) auto
  have p: "mset (pool h) = mset (filter (\<lambda>x. x \<in> set ?b) (pool h)) + mset (filter (\<lambda>x. x \<notin> set ?b) (pool h))"
    unfolding mset_filter by (rule multiset_partition)
  have r: "r = Some f" "pool h' = filter (\<lambda>x. x \<notin> set ?b) (pool h)"
    using g unfolding get_free_pages_def Some option.case by auto
  have "mset (pool h) = mset ?b + mset (pool h')" using p unfolding i r(2) .
  moreover have "distinct (pool h')" using d unfolding r(2) by simp
  ultimately show ?thesis by (intro that(2) [OF r(1)]) (simp add: took_def)
qed

lemma get_zeroed_page_took:
  assumes "distinct (pool h)" "get_zeroed_page h = (Some f, h')"
  shows "took h {#f#} h'"
  using assms by (auto simp: took_def elim!: get_zeroed_page_cases)

lemma block_1 [simp]: "block f (Suc 0) = [f]"
  by (simp add: block_def)

lemma opt_block_simps [simp]:
  "opt_block None k = {#}" "opt_block (Some f) k = mset (block f (2 ^ k))"
  by (simp_all add: opt_block_def)

lemma and_not_mask_u32: "(x :: u32) AND NOT 0xFFF = push_bit 12 (drop_bit 12 x)"
proof -
  have m: "(0xFFF :: u32) = mask 12" by (simp add: mask_eq_exp_minus_1)
  show ?thesis unfolding m by (rule bit_word_eqI) (auto simp: bit_simps)
qed

lemma vmcs_orders: "vmcs_alloc_order w = vmcs_free_order w"
proof (cases "drop_bit 32 (rdmsr w 0x480) AND 0x1FFF = 0")
  case True
  then have m: "get_vmcs_size w = - 1" by (simp add: get_vmcs_size_def)
  have "\<not> (- 1 :: u32) \<le> 4096" by code_simp
  moreover have "unat ((- 1 + 0xFFF :: u32) AND NOT 0xFFF) = 0" by (simp add: and_not_mask_u32)
  ultimately have "vmcs_alloc_order w = get_order 0"
    unfolding vmcs_alloc_order_def Let_def m of_int_minus of_int_1 by (simp only: if_False)
  also have "\<dots> = get_order 0xFFFFFFFFFFFFFFFF" by (simp add: get_order.simps)
  also have "\<dots> = vmcs_free_order w"
  proof -
    have "unat (- 1 :: u64) = 0xFFFFFFFFFFFFFFFF" by (simp add: unsigned_minus_1_eq_mask mask_eq_exp_minus_1)
    then show ?thesis unfolding vmcs_free_order_def m of_int_minus of_int_1 by (simp only:)
  qed
  finally show ?thesis .
next
  case False
  define n where "n = unat (drop_bit 32 (rdmsr w 0x480) AND 0x1FFF :: u64)"
  have "drop_bit 32 (rdmsr w 0x480) AND 0x1FFF \<le> (0x1FFF :: u64)" by (rule word_and_le1)
  then have n: "n \<le> 0x1FFF" "0 < n" using False by (simp_all add: n_def word_le_nat_alt unat_gt_0)
  have i: "get_vmcs_size w = int n" using False by (simp add: get_vmcs_size_def n_def Let_def uint_0_iff)
  have u: "unat (word_of_nat n :: u32) = n" "unat (word_of_nat n :: u64) = n" using n by (simp_all add: unat_of_nat)
  show ?thesis
  proof (cases "n \<le> 4096")
    case True
    then show ?thesis using n u i by (simp add: vmcs_alloc_order_def vmcs_free_order_def word_le_nat_alt)
  next
    case False
    have "drop_bit 12 (word_of_nat n + 0xFFF :: u32) = 2"
    proof (rule word_unat_eq_iff [THEN iffD2])
      show "unat (drop_bit 12 (word_of_nat n + 0xFFF :: u32)) = unat (2 :: u32)"
        using n u False by (simp add: unat_drop_bit_eq unat_word_ariths drop_bit_eq_div)
    qed
    then have "(word_of_nat n + 0xFFF :: u32) AND NOT 0xFFF = 0x2000"
      using and_not_mask_u32 [of "word_of_nat n + 0xFFF"] by simp
    then show ?thesis using n u i False
      by (simp add: vmcs_alloc_order_def vmcs_free_order_def word_le_nat_alt get_order.simps [of n] get_order.simps [of 8192])
  qed
qed

subsection \<open>Each allocation takes what it records\<close>

lemma apic_alloc_took:
  assumes "distinct (pool h)" "apic_pages a = {#}" "relm_apic_alloc a h = (r, a', h')"
  shows "took h (apic_pages a') h'" "r = Inl e \<Longrightarrow> apic_pages a' = {#}"
  using assms
  by (auto simp: relm_apic_alloc_def Let_def took_def apic_pages_def free_page_def split: prod.splits option.splits if_splits
      elim!: get_zeroed_page_cases)

lemma vmcs_region_cases:
  assumes d: "distinct (pool h)" and s: "relm_setup_vmcs_region w vc h = (r, vc', h')"
  obtains "r = Inl ENOMEM" "vc' = vc\<lparr>va := (va vc)\<lparr>va_vmcs := None\<rparr>\<rparr>" "h' = h"
  | p where "r = Inr ()" "vc' = vc\<lparr>va := (va vc)\<lparr>va_vmcs := Some p\<rparr>\<rparr>" "took h (opt_block (Some p) (vmcs_free_order w)) h'"
proof (cases "get_free_pages (vmcs_alloc_order w) h")
  case (Pair q h1)
  from d Pair show ?thesis
  proof (cases rule: get_free_pages_cases)
    case 1
    with s Pair show ?thesis by (intro that(1)) (simp_all add: relm_setup_vmcs_region_def)
  next
    case (2 p)
    with s d Pair show ?thesis by (intro that(2) [of p]) (auto simp: relm_setup_vmcs_region_def took_def vmcs_orders)
  qed
qed

lemma io_bitmap_cases:
  assumes d: "distinct (pool h)" and s: "relm_setup_io_bitmap vc h = (r, vc', h')"
  obtains "r = Inl ENOMEM" "vc' = vc\<lparr>va := (va vc)\<lparr>va_io_bitmap := None\<rparr>\<rparr>" "h' = h"
  | p where "r = Inr ()" "vc' = vc\<lparr>va := (va vc)\<lparr>va_io_bitmap := Some p\<rparr>\<rparr>" "took h (opt_block (Some p) 1) h'"
proof (cases "get_free_pages 1 h")
  case (Pair q h1)
  have o: "get_order (2 * 4096) = 1" by (simp add: get_order.simps)
  with s Pair have s: "(case (q, h1) of (None, h) \<Rightarrow> (Inl ENOMEM, vc\<lparr>va := (va vc)\<lparr>va_io_bitmap := None\<rparr>\<rparr>, h)
      | (Some p, h) \<Rightarrow> (Inr (), vc\<lparr>va := (va vc)\<lparr>va_io_bitmap := Some p\<rparr>\<rparr>, h)) = (r, vc', h')"
    by (simp add: relm_setup_io_bitmap_def)
  from d Pair show ?thesis
  proof (cases rule: get_free_pages_cases)
    case 1
    with s Pair show ?thesis by (intro that(1)) (simp_all add: relm_setup_io_bitmap_def)
  next
    case (2 p)
    with s d Pair show ?thesis by (intro that(2) [of p]) (auto simp: relm_setup_io_bitmap_def)
  qed
qed

lemma msr_bitmap_cases:
  assumes d: "distinct (pool h)" and s: "relm_setup_msr_bitmap vc h = (r, vc', h')"
  obtains "r = Inl ENOMEM" "vc' = vc\<lparr>va := (va vc)\<lparr>va_msr_bitmap := None\<rparr>\<rparr>" "h' = h"
  | p where "r = Inr ()" "vc' = vc\<lparr>va := (va vc)\<lparr>va_msr_bitmap := Some p\<rparr>\<rparr>" "took h (opt_block (Some p) 0) h'"
proof (cases "get_zeroed_page h")
  case (Pair q h1)
  then show ?thesis
  proof (cases rule: get_zeroed_page_cases)
    case 1
    with s Pair show ?thesis by (intro that(1)) (simp_all add: relm_setup_msr_bitmap_def)
  next
    case (2 p fs)
    with s d Pair show ?thesis by (intro that(2) [of p]) (auto simp: relm_setup_msr_bitmap_def took_def)
  qed
qed

lemma free_msr_area_pool: "mset (pool (free_msr_area a n h)) = opt_block a (msr_area_order (n * 16)) + mset (pool h)"
  by (simp add: free_msr_area_def free_pages_def split: option.split)

lemma took_trans: "took h b h1 \<Longrightarrow> took h1 c h2 \<Longrightarrow> took h (b + c) h2"
  by (simp add: took_def)

lemma took_free:
  assumes "took h b h1" "mset (pool h2) = b + mset (pool h1)" "distinct (pool h)"
  shows "took h {#} h2"
  using assms mset_eq_imp_distinct_iff [of "pool h2" "pool h"] by (simp add: took_def)

text \<open>The areas are taken together or not at all.\<close>

definition no_areas :: "vcpu \<Rightarrow> bool" where
  "no_areas vc \<longleftrightarrow> va_vmexit_store_area (va vc) = None \<and> va_vmexit_load_area (va vc) = None \<and> va_vmentry_load_area (va vc) = None"

definition areas :: "vcpu \<Rightarrow> u64 multiset" where
  "areas vc = opt_block (va_vmexit_store_area (va vc)) (msr_area_order (va_vmexit_count (va vc) * 16)) +
     opt_block (va_vmexit_load_area (va vc)) (msr_area_order (va_vmentry_count (va vc) * 16)) +
     opt_block (va_vmentry_load_area (va vc)) (msr_area_order (va_vmentry_count (va vc) * 16))"

definition same_but_areas :: "vcpu \<Rightarrow> vcpu \<Rightarrow> bool" where
  "same_but_areas vc vc' \<longleftrightarrow> apic vc' = apic vc \<and> va_vmcs (va vc') = va_vmcs (va vc) \<and> va_io_bitmap (va vc') = va_io_bitmap (va vc) \<and>
     va_msr_bitmap (va vc') = va_msr_bitmap (va vc) \<and> va_host_stack (va vc') = va_host_stack (va vc)"

lemma msr_areas_took:
  assumes d: "distinct (pool h)" and z: "no_areas vc" and s: "relm_setup_msr_areas xs ns vs vc h = (r, vc', h')"
  shows "took h (areas vc') h' \<and> same_but_areas vc vc' \<and> (\<forall>e. r = Inl e \<longrightarrow> no_areas vc')"
proof (cases "length xs > 65535 \<or> length ns > 65535")
  case True
  with s d z show ?thesis
    by (auto simp: relm_setup_msr_areas_def took_def no_areas_def areas_def same_but_areas_def)
next
  case False
  note s = s [unfolded relm_setup_msr_areas_def Let_def if_not_P [OF False] alloc_msr_entry_def]
  note sums = no_areas_def areas_def same_but_areas_def
  obtain q1 h1 where g1: "get_free_pages (msr_area_order (length xs * 16)) h = (q1, h1)" by fastforce
  obtain q2 h2 where g2: "get_free_pages (msr_area_order (length ns * 16)) h1 = (q2, h2)" by fastforce
  obtain q3 h3 where g3: "get_free_pages (msr_area_order (length ns * 16)) h2 = (q3, h3)" by fastforce
  note s = s [unfolded g1 prod.case]
  from d g1 show ?thesis
  proof (cases rule: get_free_pages_cases)
    case 1
    with s d z show ?thesis by (auto simp: took_def sums)
  next
    case (2 p1)
    note t1 = 2 and s = s [unfolded 2(1) option.case g2 prod.case]
    from tookD(1) [OF 2(2)] g2 show ?thesis
    proof (cases rule: get_free_pages_cases)
      case 1
      with s d z have "took h {#} h'" by (intro took_free [OF t1(2) _ d]) (auto simp: free_msr_area_pool)
      with 1 s z show ?thesis by (auto simp: sums)
    next
      case (2 p2)
      note t2 = 2 and s = s [unfolded 2(1) option.case g3 prod.case]
      from tookD(1) [OF 2(2)] g3 show ?thesis
      proof (cases rule: get_free_pages_cases)
        case 1
        with s d z have "took h {#} h'"
          by (intro took_free [OF took_trans [OF t1(2) t2(2)] _ d]) (auto simp: free_msr_area_pool)
        with 1 s z show ?thesis by (auto simp: sums)
      next
        case (2 p3)
        with s have "took h (areas vc') h'"
          using took_trans [OF t1(2) took_trans [OF t2(2) 2(2)]] by (auto simp: areas_def took_def ac_simps)
        with 2 s show ?thesis by (auto simp: sums)
      qed
    qed
  qed
qed

lemma owned_split:
  "owned w vc = apic_pages (apic vc) + opt_block (va_vmcs (va vc)) (vmcs_free_order w) +
     opt_block (va_io_bitmap (va vc)) 1 + opt_block (va_msr_bitmap (va vc)) 0 + areas vc"
  by (simp add: owned_def areas_def ac_simps)

subsection \<open>Phase 1 conserves the frames\<close>

lemma opt_block_none: "opt_block p k = {#} \<longleftrightarrow> p = None"
proof (cases p)
  case (Some f)
  have "length (block f (2 ^ k)) \<noteq> 0" by (simp add: block_def)
  then show ?thesis using Some by auto
qed simp

lemma owned_none:
  "owned w vc = {#} \<longleftrightarrow> apic_pages (apic vc) = {#} \<and> va_vmcs (va vc) = None \<and> va_io_bitmap (va vc) = None \<and>
     va_msr_bitmap (va vc) = None \<and> no_areas vc"
  by (auto simp: owned_def no_areas_def opt_block_none)

lemma exception_bitmap_keeps:
  "\<exists>b. va (relm_disable_ud_intercept (relm_disable_page_fault_intercept vc)) = (va vc)\<lparr>va_exception_bitmap := b\<rparr>"
  "apic (relm_disable_ud_intercept (relm_disable_page_fault_intercept vc)) = apic vc"
proof -
  have "\<exists>b. va (snd (relm_clear_exception_intercept k v)) = (va v)\<lparr>va_exception_bitmap := b\<rparr>"
    and k: "apic (snd (relm_clear_exception_intercept k v)) = apic v" for k v
    by (auto simp: relm_clear_exception_intercept_def relm_update_exception_bitmap_def writes_def vmwrite_def)
  then obtain f where f: "va (snd (relm_clear_exception_intercept k v)) = (va v)\<lparr>va_exception_bitmap := f k v\<rparr>" for k v by metis
  show "\<exists>b. va (relm_disable_ud_intercept (relm_disable_page_fault_intercept vc)) = (va vc)\<lparr>va_exception_bitmap := b\<rparr>"
    unfolding relm_disable_ud_intercept_def relm_disable_page_fault_intercept_def f by auto
  show "apic (relm_disable_ud_intercept (relm_disable_page_fault_intercept vc)) = apic vc"
    unfolding relm_disable_ud_intercept_def relm_disable_page_fault_intercept_def k ..
qed

lemma init_exec_controls_keeps:
  "apic (relm_init_exec_controls w vc) = apic vc"
  "relm_vcpu_io_bitmap_enabled (relm_init_exec_controls w vc)" "relm_vcpu_msr_bitmap_enabled (relm_init_exec_controls w vc)"
  by (simp_all add: relm_init_exec_controls_def relm_vcpu_io_bitmap_enabled_def relm_vcpu_msr_bitmap_enabled_def)

text \<open>Each release clears its pointer and returns its block.\<close>

lemma clear_field:
  "va_vmcs (va vc) = None \<Longrightarrow> vc\<lparr>va := (va vc)\<lparr>va_vmcs := None\<rparr>\<rparr> = vc"
  "va_io_bitmap (va vc) = None \<Longrightarrow> vc\<lparr>va := (va vc)\<lparr>va_io_bitmap := None\<rparr>\<rparr> = vc"
  "va_msr_bitmap (va vc) = None \<Longrightarrow> vc\<lparr>va := (va vc)\<lparr>va_msr_bitmap := None\<rparr>\<rparr> = vc"
  by (cases vc; cases "va vc"; simp)+

lemma free_fst [simp]:
  "fst (relm_free_vmcs_region w vc h) = vc\<lparr>va := (va vc)\<lparr>va_vmcs := None\<rparr>\<rparr>"
  "fst (relm_free_io_bitmap vc h) = vc\<lparr>va := (va vc)\<lparr>va_io_bitmap := None\<rparr>\<rparr>"
  "fst (relm_free_msr_bitmap vc h) = vc\<lparr>va := (va vc)\<lparr>va_msr_bitmap := None\<rparr>\<rparr>"
  by (simp_all add: relm_free_vmcs_region_def relm_free_io_bitmap_def relm_free_msr_bitmap_def clear_field split: option.split)

lemma free_pool [simp]:
  "mset (pool (snd (relm_free_vmcs_region w vc h))) = opt_block (va_vmcs (va vc)) (vmcs_free_order w) + mset (pool h)"
  "mset (pool (snd (relm_free_io_bitmap vc h))) = opt_block (va_io_bitmap (va vc)) 1 + mset (pool h)"
  "mset (pool (snd (relm_free_msr_bitmap vc h))) = opt_block (va_msr_bitmap (va vc)) 0 + mset (pool h)"
  "mset (pool (snd (relm_apic_free a h))) = apic_pages a + mset (pool h)"
  "mset (pool (snd (relm_free_all_msr_areas vc h))) = areas vc + mset (pool h)"
  by (simp_all add: relm_free_vmcs_region_def relm_free_io_bitmap_def relm_free_msr_bitmap_def relm_apic_free_def free_pages_def
      free_page_def apic_pages_def Let_def case_prod_unfold relm_free_all_msr_areas_def free_msr_area_pool areas_def split: option.split)

lemma free_areas_keeps [simp]:
  "va_vmcs (va (fst (relm_free_all_msr_areas vc h))) = va_vmcs (va vc)"
  "va_io_bitmap (va (fst (relm_free_all_msr_areas vc h))) = va_io_bitmap (va vc)"
  "va_msr_bitmap (va (fst (relm_free_all_msr_areas vc h))) = va_msr_bitmap (va vc)"
  "va_host_stack (va (fst (relm_free_all_msr_areas vc h))) = va_host_stack (va vc)"
  by (simp_all add: relm_free_all_msr_areas_def Let_def)

lemma areas_apic [simp]: "areas (vc\<lparr>apic := a\<rparr>) = areas vc"
  by (simp add: areas_def)

lemma vmx_vcpu_free_pool:
  "mset (pool (snd (vmx_vcpu_free w vc h))) = owned w vc + mset (pool h)"
  "va_host_stack (va (fst (vmx_vcpu_free w vc h))) = va_host_stack (va vc)"
  by (simp_all add: vmx_vcpu_free_def case_prod_unfold owned_split ac_simps)

lemma apic_pages_init: "apic_pages (relm_apic_init i a) = apic_pages a"
proof -
  have sync: "apic_pages (relm_vapic_sync_reg off v b) = apic_pages b" for off v b
    by (simp add: relm_vapic_sync_reg_def apic_pages_def split: option.split)
  have f: "apic_pages (fold (\<lambda>(off, v). relm_vapic_sync_reg off v) xs b) = apic_pages b" for xs b
    by (induction xs arbitrary: b) (auto simp: sync)
  have "apic_pages (relm_apic_init i a) = apic_pages (apic_reset_regs i a)"
    unfolding relm_apic_init_def Let_def apic_reset_mirror_def by (simp only: f split: if_split) blast
  then show ?thesis by (simp add: apic_reset_regs_def apic_pages_def)
qed

text \<open>What the last step, the MSR areas, adds; then the steps before it, from the end.\<close>

lemma setup_msr_state_took:
  assumes "distinct (pool h)" "no_areas vc" "relm_vcpu_setup_msr_state vc h = (r, vc', h')"
  shows "took h (areas vc') h' \<and> same_but_areas vc vc' \<and> (\<forall>e. r = Inl e \<longrightarrow> no_areas vc')"
proof -
  let ?v = "vc\<lparr>va := (va vc)\<lparr>va_msr_indices := managed_msrs @ drop 7 (va_msr_indices (va vc))\<rparr>, arch_efer := 0x501\<rparr>"
  have "no_areas ?v" using assms(2) by (simp add: no_areas_def)
  from msr_areas_took [OF assms(1) this] assms(3) show ?thesis
    by (simp add: relm_vcpu_setup_msr_state_def same_but_areas_def)
qed

lemma no_areas_empty: "no_areas vc \<Longrightarrow> areas vc = {#}"
  by (simp add: no_areas_def areas_def)

text \<open>From each error label the frames come back.\<close>

definition outcome :: "hw \<Rightarrow> host \<Rightarrow> vcpu \<Rightarrow> unit res \<times> vcpu \<times> host \<Rightarrow> bool" where
  "outcome w h vc x \<longleftrightarrow> (case x of (Inl _, _, h') \<Rightarrow> took h {#} h'
     | (Inr _, vc', h') \<Rightarrow> took h (owned w vc') h' \<and> va_host_stack (va vc') = va_host_stack (va vc))"

lemma outcome_cong: "va_host_stack (va u) = va_host_stack (va vc) \<Longrightarrow> outcome w h u = outcome w h vc"
  by (simp add: outcome_def fun_eq_iff split: sum.split)

lemma labels_took:
  assumes d: "distinct (pool h)"
  shows "took h (apic_pages (apic vc)) h' \<Longrightarrow> outcome w h v (out_free_apic vc h')"
    "took h (apic_pages (apic vc) + opt_block (va_vmcs (va vc)) (vmcs_free_order w)) h' \<Longrightarrow> outcome w h v (out_free_vmcs w vc h')"
    "took h (apic_pages (apic vc) + opt_block (va_vmcs (va vc)) (vmcs_free_order w) + opt_block (va_io_bitmap (va vc)) 1) h'
       \<Longrightarrow> outcome w h v (out_free_io_bitmap w vc h')"
    "took h (apic_pages (apic vc) + opt_block (va_vmcs (va vc)) (vmcs_free_order w) + opt_block (va_io_bitmap (va vc)) 1 +
       opt_block (va_msr_bitmap (va vc)) 0) h' \<Longrightarrow> outcome w h v (out_free_msr_bitmap w vc h')"
  by (auto simp: outcome_def out_free_apic_def out_free_vmcs_def out_free_io_bitmap_def out_free_msr_bitmap_def case_prod_unfold
      ac_simps intro: took_free [OF _ _ d])

lemma alloc_msrs_took:
  assumes d: "distinct (pool h)" and z: "va_msr_bitmap (va vc) = None" "no_areas vc" and e: "relm_vcpu_msr_bitmap_enabled vc"
    and t: "took h (apic_pages (apic vc) + opt_block (va_vmcs (va vc)) (vmcs_free_order w) + opt_block (va_io_bitmap (va vc)) 1) h1"
  shows "outcome w h vc (vmx_alloc_msrs w vc h1)"
proof -
  obtain r v h2 where g: "relm_setup_msr_bitmap vc h1 = (r, v, h2)" by (rule prod_cases3)
  from tookD(1) [OF t] g show ?thesis
  proof (cases rule: msr_bitmap_cases)
    case 1
    with t show ?thesis by (simp add: vmx_alloc_msrs_def e g labels_took [OF d])
  next
    case (2 p)
    note t2 = took_trans [OF t 2(3)]
    obtain r' v' h3 where g': "relm_vcpu_setup_msr_state v h2 = (r', v', h3)" by (rule prod_cases3)
    have "no_areas v" using 2 z by (simp add: no_areas_def)
    note a = setup_msr_state_took [OF tookD(1) [OF t2] this g']
    then have t3: "took h (apic_pages (apic vc) + opt_block (va_vmcs (va vc)) (vmcs_free_order w) + opt_block (va_io_bitmap (va vc)) 1 +
       opt_block (Some p) 0 + areas v') h3" by (blast intro: took_trans [OF t2])
    show ?thesis
    proof (cases r')
      case (Inl e')
      with a t3 2 have "outcome w h vc (out_free_msr_bitmap w v' h3)"
        by (intro labels_took [OF d]) (auto simp: same_but_areas_def no_areas_empty)
      with Inl show ?thesis by (simp add: vmx_alloc_msrs_def e g g' 2(1))
    next
      case (Inr u)
      then have "vmx_alloc_msrs w vc h1 = (Inr (), v'\<lparr>apic := relm_apic_init (ucast (vpid v' - 1)) (apic v')\<rparr>, h3)"
        by (simp add: vmx_alloc_msrs_def e g g' 2(1))
      with a t3 2(2) show ?thesis by (simp add: outcome_def owned_split apic_pages_init same_but_areas_def)
    qed
  qed
qed

lemma alloc_bitmaps_took:
  assumes d: "distinct (pool h)" and z: "va_io_bitmap (va vc) = None" "va_msr_bitmap (va vc) = None" "no_areas vc"
    and e: "relm_vcpu_io_bitmap_enabled vc" "relm_vcpu_msr_bitmap_enabled vc"
    and t: "took h (apic_pages (apic vc) + opt_block (va_vmcs (va vc)) (vmcs_free_order w)) h1"
  shows "outcome w h vc (vmx_alloc_bitmaps w vc h1)"
proof -
  obtain r v h2 where g: "relm_setup_io_bitmap vc h1 = (r, v, h2)" by (rule prod_cases3)
  from tookD(1) [OF t] g show ?thesis
  proof (cases rule: io_bitmap_cases)
    case 1
    with t e show ?thesis by (simp add: vmx_alloc_bitmaps_def g labels_took [OF d])
  next
    case (2 p)
    note t2 = took_trans [OF t 2(3)]
    define v1 where "v1 = v\<lparr>va := (va v)\<lparr>va_exception_bitmap := 0\<rparr>\<rparr>"
    define u where "u = (relm_disable_ud_intercept (relm_disable_page_fault_intercept v1))\<lparr>vmcs := vmcs v1\<rparr>"
    obtain b where "va u = (va v1)\<lparr>va_exception_bitmap := b\<rparr>" using exception_bitmap_keeps(1) [of v1] by (auto simp: u_def)
    then have u: "va u = (va vc)\<lparr>va_io_bitmap := Some p, va_exception_bitmap := b\<rparr>" using 2 by (simp add: v1_def)
    have u2: "apic u = apic vc" using 2 by (simp add: u_def v1_def exception_bitmap_keeps)
    have "va_msr_bitmap (va u) = None" "no_areas u" "relm_vcpu_msr_bitmap_enabled u"
      "took h (apic_pages (apic u) + opt_block (va_vmcs (va u)) (vmcs_free_order w) + opt_block (va_io_bitmap (va u)) 1) h2"
      using t2 z e by (simp_all add: u u2 no_areas_def relm_vcpu_msr_bitmap_enabled_def)
    then have "outcome w h u (vmx_alloc_msrs w u h2)" by (intro alloc_msrs_took [OF d])
    moreover have "va_host_stack (va u) = va_host_stack (va vc)" by (simp add: u)
    ultimately have "outcome w h vc (vmx_alloc_msrs w u h2)" by (simp add: outcome_cong [of u vc])
    then show ?thesis using e 2 by (simp add: vmx_alloc_bitmaps_def g u_def v1_def Let_def)
  qed
qed

lemma vmx_vcpu_alloc_took:
  assumes d: "distinct (pool h)" and z: "owned w vc = {#}"
  shows "outcome w h vc (vmx_vcpu_alloc w g vc h)"
proof -
  note z = z [unfolded owned_none]
  obtain r1 a1 h1 where g1: "relm_apic_alloc (apic vc) h = (r1, a1, h1)" by (rule prod_cases3)
  note t1 = apic_alloc_took [OF d conjunct1 [OF z] g1]
  show ?thesis
  proof (cases r1)
    case (Inl e)
    with g1 t1 show ?thesis by (auto simp: vmx_vcpu_alloc_def outcome_def)
  next
    case (Inr u)
    define v1 where "v1 = vc\<lparr>apic := a1, launched := 0, regs := (regs vc)\<lparr>reg_rflags := 0x2, reg_rip := 0\<rparr>,
      va := (va vc)\<lparr>va_cr3 := g, va_host_rsp := (pa_of (va_host_stack (va vc)) + 0x4000 - 0x100) AND NOT 0xF\<rparr>\<rparr>"
    have v1: "apic v1 = a1" "va_vmcs (va v1) = None" "va_io_bitmap (va v1) = None" "va_msr_bitmap (va v1) = None" "no_areas v1"
      "va_host_stack (va v1) = va_host_stack (va vc)"
      using z by (simp_all add: v1_def no_areas_def)
    obtain r2 v2 h2 where g2: "relm_setup_vmcs_region w v1 h1 = (r2, v2, h2)" by (rule prod_cases3)
    from tookD(1) [OF t1(1)] g2 show ?thesis
    proof (cases rule: vmcs_region_cases)
      case 1
      with v1 t1 have "outcome w h vc (out_free_apic v2 h2)" by (intro labels_took [OF d]) simp
      then show ?thesis
        unfolding vmx_vcpu_alloc_def g1 Inr prod.case sum.case Let_def v1_def [symmetric] g2 1(1) .
    next
      case (2 p)
      let ?v = "relm_init_exec_controls w v2"
      have keep: "apic ?v = a1" "va_vmcs (va ?v) = Some p" "va_io_bitmap (va ?v) = None" "va_msr_bitmap (va ?v) = None"
        "no_areas ?v" "va_host_stack (va ?v) = va_host_stack (va vc)"
        using v1 2 by (simp_all add: relm_init_exec_controls_def no_areas_def)
      have "outcome w h ?v (vmx_alloc_bitmaps w ?v h2)"
        using took_trans [OF t1(1) 2(3)] by (intro alloc_bitmaps_took [OF d]) (simp_all add: keep init_exec_controls_keeps(2,3))
      then have "outcome w h vc (vmx_alloc_bitmaps w ?v h2)" by (simp add: outcome_cong [OF keep(6)])
      then show ?thesis
        unfolding vmx_vcpu_alloc_def g1 Inr prod.case sum.case Let_def v1_def [symmetric] g2 2(1) .
    qed
  qed
qed

text \<open>Creating a vCPU takes the frames of its structures and of its stack, or none.\<close>

definition vcpu_frames :: "hw \<Rightarrow> vcpu \<Rightarrow> u64 multiset" where
  "vcpu_frames w vc = owned w vc + opt_block (va_host_stack (va vc)) 2"

lemma vcpu_free_pool: "mset (pool (relm_vcpu_free w vc h)) = vcpu_frames w vc + mset (pool h)"
  by (simp add: relm_vcpu_free_def vcpu_frames_def vmx_vcpu_free_pool case_prod_unfold free_pages_def ac_simps split: option.split)

lemma vcpu_create_took:
  assumes "host_ok h" and z: "owned w z = {#}" and c: "relm_vcpu_create w g vp z h = (r, h')"
  shows "took h (case r of Inl e \<Rightarrow> {#} | Inr vc \<Rightarrow> vcpu_frames w vc) h'"
proof -
  obtain b h1 where k: "kzalloc h = (b, h1)" by fastforce
  then have p: "pool h1 = pool h" by (metis kzalloc_simps(1) snd_conv)
  then have d: "distinct (pool h1)" using assms(1) by (simp add: host_ok_def)
  obtain q h2 where q: "get_free_pages 2 h1 = (q, h2)" by fastforce
  from d q show ?thesis
  proof (cases rule: get_free_pages_cases)
    case 1
    with p d c show ?thesis by (cases b) (auto simp: relm_vcpu_create_def k q took_def)
  next
    case (2 s)
    let ?v = "z\<lparr>vpid := vp, vc_state := VCPU_STATE_UNINITIALIZED, va := (va z)\<lparr>va_host_stack := Some s\<rparr>\<rparr>"
    obtain r1 vc' h3 where a: "vmx_vcpu_alloc w g ?v h2 = (r1, vc', h3)" by (rule prod_cases3)
    have "owned w ?v = {#}" using z by (simp add: owned_def)
    from vmx_vcpu_alloc_took [OF tookD(1) [OF 2(2)] this, of g] a have o: "outcome w h2 ?v (r1, vc', h3)" by simp
    show ?thesis
    proof (cases b)
      case True
      show ?thesis
      proof (cases r1)
        case (Inl e)
        have t: "took h1 (mset (block s (2 ^ 2))) h3" using took_trans [OF 2(2), of "{#}" h3] o Inl by (simp add: outcome_def)
        have "took h1 {#} (free_pages s 2 h3)" by (rule took_free [OF t _ d]) (simp add: free_pages_def)
        with True Inl c p 2 show ?thesis by (auto simp: relm_vcpu_create_def k q a took_def)
      next
        case (Inr u)
        with True c 2 have "r = Inr (vc'\<lparr>vc_state := VCPU_STATE_INITIALIZED\<rparr>)" "h' = h3" by (auto simp: relm_vcpu_create_def k q a)
        moreover have "took h1 (mset (block s (2 ^ 2)) + owned w vc') h3" "va_host_stack (va vc') = Some s"
          using took_trans [OF 2(2), of "owned w vc'" h3] o Inr by (simp_all add: outcome_def)
        ultimately show ?thesis using p by (simp add: took_def vcpu_frames_def owned_def ac_simps)
      qed
    qed (use c p d in \<open>auto simp: relm_vcpu_create_def k took_def\<close>)
  qed
qed

text \<open>(C26) A vCPU accounts for every page it is given. When its creation fails, wherever it fails, the free
  pool holds the same frames as before, each once; when it succeeds, destroying the vCPU returns to the
  pool exactly the frames that its creation took.\<close>

theorem vcpu_pages_conserved:
  assumes "host_ok h" and z: "owned w z = {#}"
  shows "case relm_vcpu_create w g vp z h of
      (Inl e, h') \<Rightarrow> mset (pool h') = mset (pool h)
    | (Inr vc, h') \<Rightarrow> mset (pool (relm_vcpu_free w vc h')) = mset (pool h)"
proof (cases "relm_vcpu_create w g vp z h")
  case (Pair r h')
  from vcpu_create_took [OF assms Pair] Pair show ?thesis by (cases r) (simp_all add: took_def vcpu_free_pool)
qed

definition demo_pages :: host where
  "demo_pages = \<lparr>pool = [0x1000, 0x2000, 0x3000, 0x4000, 0x5000, 0x6000, 0x7000, 0x8000, 0x9000, 0xA000, 0xB000, 0xC000, 0xD000], kmem = [True], pmem = (\<lambda>_. 0)\<rparr>"

lemma demo_pages_ok: "host_ok demo_pages"
  by (simp add: demo_pages_def host_ok_def frame_ok_def PAGE_ALIGNED_def)

theorem vcpu_pages_conserved_witness:
  "case relm_vcpu_create demo_hw 0x5000 1 (demo_vcpu\<lparr>apic := blank_apic\<lparr>apic_access_page := False\<rparr>\<rparr>) demo_pages of
      (Inl e, h') \<Rightarrow> mset (pool h') = mset (pool demo_pages)
    | (Inr vc, h') \<Rightarrow> mset (pool (relm_vcpu_free demo_hw vc h')) = mset (pool demo_pages)"
  by (rule vcpu_pages_conserved [OF demo_pages_ok])
     (simp add: owned_def apic_pages_def demo_vcpu_def blank_apic_def blank_arch_def)

section \<open>What the bitmaps intercept\<close>

text \<open>The processor's reading of the bitmaps: a RDMSR or WRMSR exits when the MSR lies outside both ranges
  or its bit is set in the quarter for the access; a port access when the bit of the port is set, the
  second page following the first.\<close>

definition msr_in_bitmap :: "u32 \<Rightarrow> bool" where
  "msr_in_bitmap msr \<longleftrightarrow> msr \<le> 0x1FFF \<or> 0xC0000000 \<le> msr \<and> msr \<le> 0xC0001FFF"

definition msr_bitmap_offset :: "bool \<Rightarrow> u32 \<Rightarrow> u64" where
  "msr_bitmap_offset wr msr =
     (if wr then 0x800 else 0) + (if msr \<le> 0x1FFF then 0 else 0x400) + ucast ((msr AND 0x1FFF) div 8)"

definition msr_exits :: "mem \<Rightarrow> u64 \<Rightarrow> bool \<Rightarrow> u32 \<Rightarrow> bool" where
  "msr_exits m bm wr msr \<longleftrightarrow>
     \<not> msr_in_bitmap msr \<or> bit (m (bm + msr_bitmap_offset wr msr)) (unat ((msr AND 0x1FFF) mod 8))"

definition io_exits :: "mem \<Rightarrow> u64 \<Rightarrow> u16 \<Rightarrow> bool" where
  "io_exits m bm port \<longleftrightarrow> bit (m (bm + ucast (port div 8))) (unat (port mod 8))"

lemma and_1FFF: "unat ((x :: u32) AND 0x1FFF) = unat x mod 8192"
proof -
  have "x AND 0x1FFF = take_bit 13 x" by (simp add: take_bit_eq_mask mask_eq_exp_minus_1)
  then show ?thesis by (simp add: unat_mod take_bit_eq_mod)
qed

lemma unat_msr_offset:
  "unat (msr_bitmap_offset wr msr) = (if wr then 2048 else 0) + (if unat msr \<le> 8191 then 0 else 1024) + unat msr mod 8192 div 8"
proof -
  have u: "unat (ucast ((msr AND 0x1FFF) div 8) :: u64) = unat msr mod 8192 div 8"
    by (simp add: unat_div and_1FFF unsigned_ucast_eq take_bit_nat_eq_self_iff)
  have "unat msr mod 8192 div 8 \<le> 1023" by simp
  then show ?thesis
    unfolding msr_bitmap_offset_def by (auto simp: unat_word_ariths u word_le_nat_alt and_1FFF)
qed

lemma bit_16_8: "bit (0x10 :: u8) k \<longleftrightarrow> k = 4" "bit (8 :: u8) k \<longleftrightarrow> k = 3"
  using bit_exp_iff [where 'a = "8 word", of 4 k] bit_exp_iff [where 'a = "8 word", of 3 k] by auto

lemma msr_offset_arith:
  fixes n :: nat
  shows "(if wr then 2048 else 0) + (if n \<le> 8191 then 0 else 1024) + n mod 8192 div 8 = 46 \<and> n mod 8 = 4 \<or>
     (if wr then 2048 else 0) + (if n \<le> 8191 then 0 else 1024) + n mod 8192 div 8 = 3 \<and> n mod 8 = 3
     \<longleftrightarrow> \<not> wr \<and> (n = 0x174 \<or> n = 0x1B)"
proof -
  have "n div 8 = 46 \<and> n mod 8 = 4 \<or> n div 8 = 3 \<and> n mod 8 = 3 \<longleftrightarrow> n = 372 \<or> n = 27" by presburger
  then show ?thesis by (cases wr; cases "n \<le> 8191") auto
qed

lemma setup_msr_bitmap_byte:
  assumes h: "host_ok h" and s: "relm_setup_msr_bitmap vc h = (Inr (), vc', h')" and p: "va_msr_bitmap (va vc') = Some p"
    and o: "unat x < 4096"
  shows "pmem h' (p + x) = (if x = 0x2E then 0x10 else if x = 3 then 8 else 0)"
proof -
  obtain q h1 where g: "get_zeroed_page h = (q, h1)" by fastforce
  then show ?thesis
  proof (cases rule: get_zeroed_page_cases)
    case 1
    with s g show ?thesis by (simp add: relm_setup_msr_bitmap_def)
  next
    case (2 f fs)
    with s g p have p: "f = p" and m: "pmem h' = relm_intercept_apic_base p (relm_intercept_sysenter_cs p (zero_page (pmem h) p))"
      by (auto simp: relm_setup_msr_bitmap_def)
    have "PAGE_ALIGNED p" using h 2 p by (auto simp: host_ok_def frame_ok_def)
    then have "page_base (p + y) = p" if "unat y < 4096" for y using that by (rule page_base_add)
    from this [OF o] this [of "0x2E"] this [of 3] show ?thesis
      unfolding m by (simp add: relm_intercept_apic_base_def relm_intercept_sysenter_cs_def relm_msr_bitmap_set_def or_byte_def zero_page_def)
  qed
qed

text \<open>The MSR bitmap that the vCPU gets intercepts exactly the reads of \<open>IA32_SYSENTER_CS\<close> and of
  \<open>IA32_APIC_BASE\<close> and, as the processor always does, the accesses outside both ranges. In particular no
  WRMSR of an ordinary MSR exits.\<close>

theorem msr_intercepts_exact:
  assumes h: "host_ok h" and s: "relm_setup_msr_bitmap vc h = (Inr (), vc', h')" and p: "va_msr_bitmap (va vc') = Some p"
  shows "msr_exits (pmem h') p wr msr \<longleftrightarrow> \<not> msr_in_bitmap msr \<or> \<not> wr \<and> (msr = 0x174 \<or> msr = 0x1B)"
proof -
  let ?x = "msr_bitmap_offset wr msr" and ?n = "unat msr"
  have u: "unat ?x = (if wr then 2048 else 0) + (if ?n \<le> 8191 then 0 else 1024) + ?n mod 8192 div 8" by (rule unat_msr_offset)
  then have "unat ?x < 4096" by auto
  note byte = setup_msr_bitmap_byte [OF h s p this]
  have b: "unat ((msr AND 0x1FFF) mod 8) = ?n mod 8"
    by (simp add: unat_mod and_1FFF mod_mod_cancel)
  have x: "?x = 0x2E \<longleftrightarrow> unat ?x = 46" "?x = 3 \<longleftrightarrow> unat ?x = 3" by (simp_all add: word_unat_eq_iff)
  have "bit (pmem h' (p + ?x)) (?n mod 8) \<longleftrightarrow> unat ?x = 46 \<and> ?n mod 8 = 4 \<or> unat ?x = 3 \<and> ?n mod 8 = 3"
    unfolding byte x by (simp only: bit_16_8 if_distrib [of "\<lambda>v. bit v k" for k] bit_0_eq split: if_split) auto
  also have "\<dots> \<longleftrightarrow> \<not> wr \<and> (?n = 0x174 \<or> ?n = 0x1B)" unfolding u by (rule msr_offset_arith)
  also have "\<dots> \<longleftrightarrow> \<not> wr \<and> (msr = 0x174 \<or> msr = 0x1B)" by (simp add: word_unat_eq_iff)
  finally show ?thesis by (simp add: msr_exits_def b)
qed

theorem msr_intercepts_exact_witness:
  "\<not> msr_exits (relm_intercept_apic_base 0x1000 (relm_intercept_sysenter_cs 0x1000 (zero_page (pmem demo_pages) 0x1000))) 0x1000 True 0xC0000080"
proof -
  have "relm_setup_msr_bitmap demo_vcpu demo_pages = (Inr (), demo_vcpu\<lparr>va := (va demo_vcpu)\<lparr>va_msr_bitmap := Some 0x1000\<rparr>\<rparr>,
      demo_pages\<lparr>pool := tl (pool demo_pages),
        pmem := relm_intercept_apic_base 0x1000 (relm_intercept_sysenter_cs 0x1000 (zero_page (pmem demo_pages) 0x1000))\<rparr>)"
    by (simp add: relm_setup_msr_bitmap_def get_zeroed_page_def demo_pages_def)
  from msr_intercepts_exact [OF demo_pages_ok this, of "0x1000" True "0xC0000080"] show ?thesis by (simp add: msr_in_bitmap_def)
qed

lemma fold_zero_page: "fold (\<lambda>p m. zero_page m p) ps m x = (if page_base x \<in> set ps then 0 else m x)"
  by (induction ps arbitrary: m) (auto simp: zero_page_def)

text \<open>The I/O bitmaps that the vCPU gets are all zero: no port access of the guest exits, so every IN
  and OUT reaches the devices of the host.\<close>

theorem io_ports_not_intercepted:
  assumes h: "host_ok h" and s: "relm_setup_io_bitmap vc h = (Inr (), vc', h')" and p: "va_io_bitmap (va vc') = Some p"
  shows "\<not> io_exits (pmem h') p port"
proof -
  have o: "get_order (2 * 4096) = 1" by (simp add: get_order.simps)
  obtain q h1 where g: "get_free_pages 1 h = (q, h1)" by fastforce
  with s p o have h': "q = Some p" "h' = h1" by (auto simp: relm_setup_io_bitmap_def split: option.splits)
  from g h' have f: "find (\<lambda>f. set (block f 2) \<subseteq> set (pool h)) (pool h) = Some p"
    and m: "pmem h' = fold (\<lambda>p m. zero_page m p) (block p 2) (pmem h)"
    by (auto simp: get_free_pages_def split: option.splits)
  have b: "block p 2 = [p, p + 0x1000]" by (simp add: block_def upt_rec)
  from f have "set (block p 2) \<subseteq> set (pool h)" by (auto simp: find_Some_iff)
  then have al: "PAGE_ALIGNED p" "PAGE_ALIGNED (p + 0x1000)" using h by (auto simp: b host_ok_def frame_ok_def)
  let ?x = "ucast (port div 8) :: u64"
  have l: "unat port div 8 < 8192" using unsigned_less [where 'a = nat, of port] by simp
  have "unat ?x = take_bit 64 (unat port div 8)" by (simp add: unat_div unsigned_ucast_eq)
  with l have u: "unat ?x = unat port div 8" by (simp add: take_bit_eq_mod)
  have "page_base (p + ?x) \<in> set (block p 2)"
  proof (cases "unat ?x < 4096")
    case True
    with al show ?thesis by (simp add: b page_base_add)
  next
    case False
    with u l have "unat (?x - 0x1000) < 4096" by (simp add: unat_sub word_le_nat_alt)
    with al have "page_base (p + 0x1000 + (?x - 0x1000)) = p + 0x1000" by (intro page_base_add)
    then show ?thesis by (simp add: b)
  qed
  then have "pmem h' (p + ?x) = 0" by (simp add: m fold_zero_page)
  then show ?thesis by (simp add: io_exits_def)
qed

theorem io_ports_not_intercepted_witness:
  "\<not> io_exits (pmem (snd (snd (relm_setup_io_bitmap demo_vcpu demo_pages)))) 0x1000 0x510"
proof -
  have f: "find (\<lambda>f. set (block f 2) \<subseteq> set (pool demo_pages)) (pool demo_pages) = Some 0x1000"
    by (simp add: demo_pages_def block_def upt_rec)
  have "get_order (2 * 4096) = 1" by (simp add: get_order.simps)
  with f have s: "relm_setup_io_bitmap demo_vcpu demo_pages = (Inr (), demo_vcpu\<lparr>va := (va demo_vcpu)\<lparr>va_io_bitmap := Some 0x1000\<rparr>\<rparr>,
      snd (snd (relm_setup_io_bitmap demo_vcpu demo_pages)))"
    by (simp add: relm_setup_io_bitmap_def get_free_pages_def)
  from io_ports_not_intercepted [OF demo_pages_ok s, of "0x1000"] show ?thesis by simp
qed

end
