(* ===== verification/Relm_Lifecycle.thy ===== *)
theory Relm_Lifecycle
  imports Relm_Vmexit Relm_Vmx_Alloc
begin

text \<open>
  The life of a vCPU thread (src/core/vcpu.c, the run and stop entry points of src/core/vm.c, and the
  assembly stubs of src/arch/x86/vmx/vmx_asm.S): starting the kthread, pinning it, phase 2, the guest
  loop, VM-entry and VM-exit, and stopping it. The kernel's scheduler, the processor and the caller of
  \<open>relm_stop_vm\<close> act concurrently with the thread, so the system is a set of atomic steps: each position
  of the thread has a step, the scheduler may move a thread to any processor of its mask, and the caller
  has its own steps. The theorems: where the guest runs before a stop request, that a requested stop
  ends after a bounded number of steps outside the guest, and the schedules on which stopping goes wrong.
\<close>

section \<open>State\<close>

text \<open>The positions of \<open>relm_vcpu_loop\<close>: before and in \<open>relm_vcpu_pin_to_cpu\<close>, at phase 2, at the head of
  the loop, before and after the helper call of \<open>relm_vmentry_asm\<close>, in the guest, behind \<open>vcpu_run\<close>, in
  \<open>wait_event_interruptible\<close>, at the two labels of the exit path, and gone. \<open>PARKED\<close> is the loop at
  \<open>.Lvmexit_fatal\<close>, \<open>CRASHED\<close> a fault of the host kernel, and \<open>FOREIGN\<close> the execution of another vCPU's
  guest.\<close>

datatype vcpu_pc = AT_START | AT_PIN | AT_MIGRATE | AT_INIT | AT_CHECK | AT_ENTER | AT_RESUME | IN_GUEST
  | AT_POST | AT_WAIT | AT_DESTROY | AT_CLEAR | EXITED | PARKED | CRASHED | FOREIGN

record vcpu_thread =
  t_pc :: vcpu_pc
  t_cpu :: nat
  t_mask :: "nat list"
  t_stop :: bool
  t_ret :: int

datatype vm_state = VM_STATE_CREATED | VM_STATE_INITIALIZED | VM_STATE_RUNNING | VM_STATE_SUSPENDED | VM_STATE_STOPPED

text \<open>The caller: idle with the last return code, stopping the vCPUs from index \<open>k\<close> on (with the state and
  return code to report at the end), waiting in \<open>kthread_stop\<close> for the one at \<open>k\<close>, or executing
  \<open>kthread_stop\<close> on a task that is gone.\<close>

datatype controller = CTL_IDLE int | CTL_STOP nat vm_state int | CTL_WAIT nat vm_state int | CTL_USE_AFTER_FREE

text \<open>\<open>s_current\<close> is the per-CPU variable \<open>current_vcpu\<close>, \<open>s_loaded\<close> the current VMCS of each processor.\<close>

record sys =
  s_mach :: machine
  s_boot :: vm_boot
  s_online :: "nat list"
  s_current :: "nat \<Rightarrow> nat option"
  s_loaded :: "nat \<Rightarrow> nat option"
  s_thread :: "nat \<Rightarrow> vcpu_thread option"
  s_state :: vm_state
  s_online_vcpus :: int
  s_total_exits :: u64
  s_ctl :: controller

definition s_vcpu :: "sys \<Rightarrow> nat \<Rightarrow> vcpu" where
  "s_vcpu s i = mc_vcpus (s_mach s) i"

definition set_vcpu :: "nat \<Rightarrow> (vcpu \<Rightarrow> vcpu) \<Rightarrow> sys \<Rightarrow> sys" where
  "set_vcpu i f s = s\<lparr>s_mach := upd_vcpu i f (s_mach s)\<rparr>"

definition set_thread :: "nat \<Rightarrow> vcpu_thread \<Rightarrow> sys \<Rightarrow> sys" where
  "set_thread i t s = s\<lparr>s_thread := (s_thread s)(i := Some t)\<rparr>"

text \<open>\<open>this_cpu_write(current_vcpu, ..)\<close> on the processor \<open>c\<close>.\<close>

definition relm_set_current_vcpu :: "nat \<Rightarrow> nat option \<Rightarrow> sys \<Rightarrow> sys" where
  "relm_set_current_vcpu c v s = s\<lparr>s_current := (s_current s)(c := v)\<rparr>"

definition relm_get_current_vcpu :: "nat \<Rightarrow> sys \<Rightarrow> nat option" where
  "relm_get_current_vcpu c s = s_current s c"

section \<open>Steps of the thread\<close>

text \<open>A kthread that was asked to stop before it first ran never calls its function.\<close>

definition loop_start :: "nat \<Rightarrow> vcpu_thread \<Rightarrow> sys \<Rightarrow> sys" where
  "loop_start i t s =
     (if t_stop t then set_thread i (t\<lparr>t_pc := EXITED, t_ret := - 4\<rparr>) s
      else set_thread i (t\<lparr>t_pc := AT_PIN\<rparr>) (relm_set_current_vcpu (t_cpu t) (Some i) s))"

text \<open>Pinning up to the call of the scheduler; \<open>r\<close> is the answer of \<open>set_cpus_allowed_ptr\<close>. Every online
  processor is a possible one. A failure leaves through \<open>_out_clear_vcpu\<close>.\<close>

definition relm_vcpu_pin_to_cpu :: "unit res \<Rightarrow> nat \<Rightarrow> vcpu_thread \<Rightarrow> sys \<Rightarrow> sys" where
  "relm_vcpu_pin_to_cpu r i t s =
     (let vc = s_vcpu s i; fail = (\<lambda>e. set_thread i (t\<lparr>t_pc := AT_CLEAR, t_ret := - errno_code e\<rparr>)
            (set_vcpu i (\<lambda>vc. vc\<lparr>vc_state := VCPU_STATE_ERROR\<rparr>) s))
      in if \<not> host_task vc then fail EINVAL
         else if \<not> (0 \<le> target_cpu_id vc \<and> nat (target_cpu_id vc) \<in> set (s_online s)) then fail EINVAL
         else case r of Inl e \<Rightarrow> fail e
              | Inr _ \<Rightarrow> set_thread i (t\<lparr>t_pc := AT_MIGRATE, t_mask := [nat (target_cpu_id vc)]\<rparr>) s)"

text \<open>The yield loop leaves once the thread is on its processor and registers itself there.\<close>

definition loop_pinned :: "nat \<Rightarrow> vcpu_thread \<Rightarrow> sys \<Rightarrow> sys option" where
  "loop_pinned i t s =
     (if int (t_cpu t) = target_cpu_id (s_vcpu s i)
      then Some (set_thread i (t\<lparr>t_pc := AT_INIT, t_ret := 0\<rparr>) (relm_set_current_vcpu (t_cpu t) (Some i) s))
      else None)"

definition loop_init :: "hw \<Rightarrow> nat \<Rightarrow> vcpu_thread \<Rightarrow> sys \<Rightarrow> sys" where
  "loop_init w i t s =
     (let vc = s_vcpu s i; c = t_cpu t;
          vmptrld = (case relm_vmclear w vc of Inl e \<Rightarrow> False | Inr _ \<Rightarrow> (case relm_vmptrld w vc of (Inl e, _) \<Rightarrow> False | (Inr _, _) \<Rightarrow> True))
      in case vmx_vcpu_init w (s_boot s) vc (mc_host (s_mach s)) of (r, b, vc, h) \<Rightarrow>
         let s = s\<lparr>s_boot := b, s_mach := (put_vcpu i vc (s_mach s))\<lparr>mc_host := h\<rparr>,
                   s_loaded := (if vmptrld then (s_loaded s)(c := Some i) else s_loaded s)\<rparr>
         in case r of
              Inl e \<Rightarrow> set_thread i (t\<lparr>t_pc := AT_DESTROY, t_ret := - errno_code e\<rparr>) (set_vcpu i (\<lambda>vc. vc\<lparr>vc_state := VCPU_STATE_ERROR\<rparr>) s)
            | Inr _ \<Rightarrow> set_thread i (t\<lparr>t_pc := AT_CHECK, t_ret := 0\<rparr>) (set_vcpu i (\<lambda>vc. vc\<lparr>vc_state := VCPU_STATE_RUNNING\<rparr>) s))"

definition loop_check :: "nat \<Rightarrow> vcpu_thread \<Rightarrow> sys \<Rightarrow> sys" where
  "loop_check i t s = set_thread i (t\<lparr>t_pc := (if t_stop t then AT_DESTROY else AT_ENTER)\<rparr>) s"

text \<open>\<open>relm_vmentry_asm\<close> up to the helper call; \<open>rsp\<close> is the stack pointer of the thread there.\<close>

definition vmentry_save :: "u64 \<Rightarrow> nat \<Rightarrow> vcpu_thread \<Rightarrow> sys \<Rightarrow> sys" where
  "vmentry_save rsp i t s = set_thread i (t\<lparr>t_pc := AT_RESUME\<rparr>)
     (s\<lparr>s_mach := relm_vmentry_save_rsp (relm_get_current_vcpu (t_cpu t) s) rsp (s_mach s)\<rparr>)"

text \<open>VMLAUNCH or VMRESUME: without a current VMCS the instruction fails, and \<open>vmx_vcpu_run\<close> hands the -1
  to the loop; with another vCPU's VMCS it would run that guest.\<close>

definition entry_failure :: "nat \<Rightarrow> vcpu_thread \<Rightarrow> sys \<Rightarrow> sys" where
  "entry_failure i t s = set_thread i (t\<lparr>t_pc := AT_DESTROY, t_ret := - 1\<rparr>) (set_vcpu i (\<lambda>vc. vc\<lparr>vc_state := VCPU_STATE_ERROR\<rparr>) s)"

definition relm_vmentry_asm :: "bool \<Rightarrow> nat \<Rightarrow> vcpu_thread \<Rightarrow> sys \<Rightarrow> sys" where
  "relm_vmentry_asm ok i t s =
     (case s_loaded s (t_cpu t) of
        None \<Rightarrow> entry_failure i t s
      | Some j \<Rightarrow> if \<not> ok then entry_failure i t s
                  else set_thread i (t\<lparr>t_pc := (if j = i then IN_GUEST else FOREIGN)\<rparr>) s)"

text \<open>\<open>relm_vmexit_handler\<close>: the processor has stored \<open>f\<close> in the VMCS and \<open>g\<close> is the pushed register
  block. A non-zero answer of the handler resumes the guest, unless VMRESUME fails, which is then
  treated like the zero answer.\<close>

definition vmexit_return_zero :: "nat \<Rightarrow> vcpu_thread \<Rightarrow> sys \<Rightarrow> sys" where
  "vmexit_return_zero i t s = set_thread i
     (t\<lparr>t_pc := (if relm_vmentry_get_rsp (relm_get_current_vcpu (t_cpu t) s) (s_mach s) = 0 then PARKED else AT_POST)\<rparr>) s"

definition relm_vmexit_handler :: "platform \<Rightarrow> (nat \<Rightarrow> u64) \<Rightarrow> stack_guest_gprs \<Rightarrow> bool \<Rightarrow> nat \<Rightarrow> vcpu_thread \<Rightarrow> sys \<Rightarrow> sys" where
  "relm_vmexit_handler pf f g resumes i t s =
     (case handle_vmexit pf (relm_get_current_vcpu (t_cpu t) s) g (upd_vcpu i (\<lambda>vc. vc\<lparr>vmcs := f\<rparr>) (s_mach s)) of
        (None, _, m) \<Rightarrow> set_thread i (t\<lparr>t_pc := CRASHED\<rparr>) (s\<lparr>s_mach := m\<rparr>)
      | (Some r, _, m) \<Rightarrow>
          if r \<noteq> 0 \<and> resumes then set_thread i (t\<lparr>t_pc := IN_GUEST\<rparr>) (s\<lparr>s_mach := m\<rparr>)
          else vmexit_return_zero i t (s\<lparr>s_mach := m\<rparr>))"

text \<open>The rest of \<open>vmx_vcpu_run\<close> and of the loop body.\<close>

definition loop_post :: "nat \<Rightarrow> vcpu_thread \<Rightarrow> sys \<Rightarrow> sys" where
  "loop_post i t s =
     (let s = set_vcpu i (\<lambda>vc. vc\<lparr>launched := (if launched vc = 0 then 1 else launched vc)\<rparr>) s in
      case vmx_handle_exit (s_vcpu s i) of
        Inl e \<Rightarrow> set_thread i (t\<lparr>t_pc := AT_DESTROY, t_ret := - errno_code e\<rparr>) (set_vcpu i (\<lambda>vc. vc\<lparr>vc_state := VCPU_STATE_ERROR\<rparr>) s)
      | Inr _ \<Rightarrow>
          let s = (set_vcpu i (\<lambda>vc. vc\<lparr>stats := (stats vc)\<lparr>total_exits := total_exits (stats vc) + 1\<rparr>\<rparr>) s)\<lparr>s_total_exits := s_total_exits s + 1\<rparr>;
              pc = (if vc_state (s_vcpu s i) \<noteq> VCPU_STATE_RUNNING then AT_DESTROY
                    else if halted (s_vcpu s i) then AT_WAIT else AT_CHECK)
          in set_thread i (t\<lparr>t_pc := pc, t_ret := 0\<rparr>) s)"

definition loop_wait :: "nat \<Rightarrow> vcpu_thread \<Rightarrow> sys \<Rightarrow> sys option" where
  "loop_wait i t s = (if \<not> halted (s_vcpu s i) \<or> t_stop t then Some (set_thread i (t\<lparr>t_pc := AT_CHECK\<rparr>) s) else None)"

text \<open>VMCLEAR releases the VMCS on the processor that executes it.\<close>

definition vmx_vcpu_destroy :: "hw \<Rightarrow> nat \<Rightarrow> vcpu_thread \<Rightarrow> sys \<Rightarrow> sys" where
  "vmx_vcpu_destroy w i t s =
     (case relm_vmclear w (s_vcpu s i) of Inl e \<Rightarrow> s
      | Inr _ \<Rightarrow> s\<lparr>s_loaded := (if s_loaded s (t_cpu t) = Some i then (s_loaded s)(t_cpu t := None) else s_loaded s)\<rparr>)"

definition loop_destroy :: "hw \<Rightarrow> nat \<Rightarrow> vcpu_thread \<Rightarrow> sys \<Rightarrow> sys" where
  "loop_destroy w i t s = set_thread i (t\<lparr>t_pc := AT_CLEAR\<rparr>)
     (set_vcpu i (\<lambda>vc. vc\<lparr>vc_state := (if vc_state vc = VCPU_STATE_ERROR then VCPU_STATE_ERROR else VCPU_STATE_STOPPED)\<rparr>)
       (vmx_vcpu_destroy w i t s))"

definition loop_clear :: "nat \<Rightarrow> vcpu_thread \<Rightarrow> sys \<Rightarrow> sys" where
  "loop_clear i t s = set_thread i (t\<lparr>t_pc := EXITED\<rparr>) (relm_set_current_vcpu (t_cpu t) None s)"

text \<open>What happens next to a thread: its own next statement, a migration, a pinning that the kernel
  refuses, a VM-entry that the processor refuses, or a VM-exit.\<close>

datatype event = Go u64 | Sched nat | PinFails errno | EntryFails | GuestExit "nat \<Rightarrow> u64" stack_guest_gprs bool

definition preemptible :: "vcpu_pc \<Rightarrow> bool" where
  "preemptible p \<longleftrightarrow> p \<notin> {IN_GUEST, EXITED, PARKED, CRASHED, FOREIGN}"

definition own_step :: "hw \<Rightarrow> u64 \<Rightarrow> nat \<Rightarrow> vcpu_thread \<Rightarrow> sys \<Rightarrow> sys option" where
  "own_step w rsp i t s = (case t_pc t of
     AT_START \<Rightarrow> Some (loop_start i t s)
   | AT_PIN \<Rightarrow> Some (relm_vcpu_pin_to_cpu (Inr ()) i t s)
   | AT_MIGRATE \<Rightarrow> loop_pinned i t s
   | AT_INIT \<Rightarrow> Some (loop_init w i t s)
   | AT_CHECK \<Rightarrow> Some (loop_check i t s)
   | AT_ENTER \<Rightarrow> Some (vmentry_save rsp i t s)
   | AT_RESUME \<Rightarrow> Some (relm_vmentry_asm True i t s)
   | AT_POST \<Rightarrow> Some (loop_post i t s)
   | AT_WAIT \<Rightarrow> loop_wait i t s
   | AT_DESTROY \<Rightarrow> Some (loop_destroy w i t s)
   | AT_CLEAR \<Rightarrow> Some (loop_clear i t s)
   | _ \<Rightarrow> None)"

definition thread_step :: "platform \<Rightarrow> hw \<Rightarrow> nat \<Rightarrow> event \<Rightarrow> sys \<Rightarrow> sys option" where
  "thread_step pf w i ev s = (case s_thread s i of None \<Rightarrow> None | Some t \<Rightarrow>
     (case ev of
        Go rsp \<Rightarrow> own_step w rsp i t s
      | Sched c \<Rightarrow> if c \<in> set (t_mask t) \<and> preemptible (t_pc t) then Some (set_thread i (t\<lparr>t_cpu := c\<rparr>) s) else None
      | PinFails e \<Rightarrow> if t_pc t = AT_PIN then Some (relm_vcpu_pin_to_cpu (Inl e) i t s) else None
      | EntryFails \<Rightarrow> if t_pc t = AT_RESUME then Some (relm_vmentry_asm False i t s) else None
      | GuestExit f g resumes \<Rightarrow> if t_pc t = IN_GUEST then Some (relm_vmexit_handler pf f g resumes i t s) else None))"

section \<open>Starting and stopping\<close>

text \<open>\<open>kthread_create\<close> answers \<open>r\<close>; a new thread starts on the processor \<open>c\<close> and may run on every online one.\<close>

definition relm_vcpu_run :: "unit res \<Rightarrow> nat \<Rightarrow> u64 \<Rightarrow> nat \<Rightarrow> sys \<Rightarrow> unit res \<times> sys" where
  "relm_vcpu_run r c now i s =
     (let vc = s_vcpu s i in
      if host_task vc then (Inl EBUSY, s)
      else if vc_state vc \<noteq> VCPU_STATE_INITIALIZED then (Inl EINVAL, s)
      else let s = set_vcpu i (\<lambda>vc. vc\<lparr>halted := False, stats := (stats vc)\<lparr>total_exits := 0, start_time_ns := now\<rparr>\<rparr>) s in
           case r of
             Inl e \<Rightarrow> (Inl e, s)
           | Inr _ \<Rightarrow> (Inr (), set_thread i \<lparr>t_pc = AT_START, t_cpu = c, t_mask = s_online s, t_stop = False, t_ret = 0\<rparr>
                        (set_vcpu i (\<lambda>vc. vc\<lparr>host_task := True\<rparr>) s)))"

text \<open>Restoring the affinity and asking the thread to stop; the wait for its end is a step of the caller.\<close>

definition relm_vcpu_unpin_and_stop :: "nat \<Rightarrow> sys \<Rightarrow> sys" where
  "relm_vcpu_unpin_and_stop i s = (case s_thread s i of None \<Rightarrow> s
     | Some t \<Rightarrow> set_thread i (t\<lparr>t_mask := s_online s, t_stop := True\<rparr>) s)"

text \<open>\<open>relm_vcpu_stop\<close> behind \<open>kthread_stop\<close>.\<close>

definition relm_vcpu_stopped :: "u64 \<Rightarrow> nat \<Rightarrow> sys \<Rightarrow> sys" where
  "relm_vcpu_stopped now i s =
     (set_vcpu i (\<lambda>vc. vc\<lparr>host_task := False, stats := (stats vc)\<lparr>end_time_ns := now\<rparr>\<rparr>) s)\<lparr>s_thread := (s_thread s)(i := None)\<rparr>"

text \<open>A task that has left \<open>relm_vcpu_loop\<close> without being asked to stop is freed by the kernel, but
  \<open>host_task\<close> still points to it.\<close>

definition task_freed :: "nat \<Rightarrow> sys \<Rightarrow> bool" where
  "task_freed i s \<longleftrightarrow> (case s_thread s i of None \<Rightarrow> True | Some t \<Rightarrow> t_pc t = EXITED \<and> \<not> t_stop t)"

definition ctl_step :: "u64 \<Rightarrow> sys \<Rightarrow> sys option" where
  "ctl_step now s = (case s_ctl s of
     CTL_STOP k st ret \<Rightarrow>
       if k \<ge> length (mc_array (s_mach s)) then Some (s\<lparr>s_state := st, s_ctl := CTL_IDLE ret\<rparr>)
       else (case mc_array (s_mach s) ! k of
               None \<Rightarrow> Some (s\<lparr>s_ctl := CTL_STOP (Suc k) st ret\<rparr>)
             | Some i \<Rightarrow> if \<not> host_task (s_vcpu s i) then Some (s\<lparr>s_ctl := CTL_STOP (Suc k) st ret\<rparr>)
                         else if task_freed i s then Some (s\<lparr>s_ctl := CTL_USE_AFTER_FREE\<rparr>)
                         else Some ((relm_vcpu_unpin_and_stop i s)\<lparr>s_ctl := CTL_WAIT k st ret\<rparr>))
   | CTL_WAIT k st ret \<Rightarrow>
       (case mc_array (s_mach s) ! k of None \<Rightarrow> None
        | Some i \<Rightarrow> (case s_thread s i of None \<Rightarrow> None
           | Some t \<Rightarrow> if t_pc t = EXITED then Some ((relm_vcpu_stopped now i s)\<lparr>s_ctl := CTL_STOP (Suc k) st ret\<rparr>) else None))
   | _ \<Rightarrow> None)"

definition relm_stop_vm :: "sys \<Rightarrow> sys" where
  "relm_stop_vm s = s\<lparr>s_ctl := CTL_STOP 0 VM_STATE_STOPPED 0\<rparr>"

text \<open>The launch loop over the array: the number of started vCPUs, or the error that ends it.\<close>

fun run_vcpus :: "(nat \<Rightarrow> unit res \<times> nat) \<Rightarrow> u64 \<Rightarrow> nat option list \<Rightarrow> nat \<Rightarrow> sys \<Rightarrow> nat res \<times> sys" where
  "run_vcpus kt now [] n s = (Inr n, s)"
| "run_vcpus kt now (None # vs) n s = run_vcpus kt now vs n s"
| "run_vcpus kt now (Some i # vs) n s =
     (if host_task (s_vcpu s i) then run_vcpus kt now vs (Suc n) s
      else case relm_vcpu_run (fst (kt i)) (snd (kt i)) now i s of
        (Inl e, s) \<Rightarrow> (Inl e, s)
      | (Inr _, s) \<Rightarrow> run_vcpus kt now vs (Suc n) s)"

definition relm_run_vm :: "(nat \<Rightarrow> unit res \<times> nat) \<Rightarrow> u64 \<Rightarrow> sys \<Rightarrow> sys" where
  "relm_run_vm kt now s =
     (if s_state s \<noteq> VM_STATE_INITIALIZED \<and> s_state s \<noteq> VM_STATE_STOPPED then s\<lparr>s_ctl := CTL_IDLE (- errno_code EINVAL)\<rparr>
      else if s_online_vcpus s = 0 then s\<lparr>s_ctl := CTL_IDLE (- errno_code ENOENT)\<rparr>
      else case run_vcpus kt now (mc_array (s_mach s)) 0 (s\<lparr>s_state := VM_STATE_RUNNING\<rparr>) of
             (Inl e, s) \<Rightarrow> s\<lparr>s_ctl := CTL_STOP 0 VM_STATE_INITIALIZED (- errno_code e)\<rparr>
           | (Inr 0, s) \<Rightarrow> s\<lparr>s_state := VM_STATE_STOPPED, s_ctl := CTL_IDLE (- errno_code EIO)\<rparr>
           | (Inr _, s) \<Rightarrow> s\<lparr>s_ctl := CTL_IDLE 0\<rparr>)"

section \<open>Registering vCPUs\<close>

definition VPID_IS_VALID :: "int \<Rightarrow> nat \<Rightarrow> bool" where
  "VPID_IS_VALID vp mx \<longleftrightarrow> vp > 0 \<and> vp \<le> int mx"

text \<open>The VMX operation behind \<open>add_vcpu\<close>: \<open>p\<close> is the address of the new structure.\<close>

definition vmx_add_vcpu :: "hw \<Rightarrow> nat \<Rightarrow> vcpu \<Rightarrow> int \<Rightarrow> sys \<Rightarrow> unit res \<times> sys" where
  "vmx_add_vcpu w p z vp s =
     (case relm_vcpu_create w (vb_pml4_gpa (s_boot s)) (word_of_int vp) z (mc_host (s_mach s)) of
        (Inl e, h) \<Rightarrow> (Inl e, s\<lparr>s_mach := (s_mach s)\<lparr>mc_host := h\<rparr>\<rparr>)
      | (Inr vc, h) \<Rightarrow> (Inr (), s\<lparr>s_mach := (put_vcpu p (vc\<lparr>target_cpu_id := 1\<rparr>) (s_mach s))\<lparr>mc_host := h,
            mc_array := (mc_array (s_mach s))[nat (vp - 1) := Some p]\<rparr>, s_online_vcpus := s_online_vcpus s + 1\<rparr>))"

definition relm_vm_add_vcpu :: "hw \<Rightarrow> nat \<Rightarrow> vcpu \<Rightarrow> int \<Rightarrow> sys \<Rightarrow> unit res \<times> sys" where
  "relm_vm_add_vcpu w p z vp s =
     (if \<not> VPID_IS_VALID vp (length (mc_array (s_mach s))) then (Inl EINVAL, s)
      else if mc_array (s_mach s) ! nat (vp - 1) \<noteq> None then (Inl EEXIST, s)
      else vmx_add_vcpu w p z vp s)"

definition relm_vm_get_vcpu :: "u16 \<Rightarrow> sys \<Rightarrow> nat option" where
  "relm_vm_get_vcpu vp s =
     (if vp = 0 then None else if \<not> VPID_IS_VALID (uint vp) (length (mc_array (s_mach s))) then None
      else mc_array (s_mach s) ! nat (uint vp - 1))"

section \<open>What an exit handler cannot change\<close>

text \<open>The saved stack pointer, the placement and the task of every vCPU, and the array of vCPUs.\<close>

definition fixed :: "vcpu \<Rightarrow> u64 \<times> int \<times> bool \<times> u16" where
  "fixed vc = (vmentry_host_rsp vc, target_cpu_id vc, host_task vc, vpid vc)"

definition anchored :: "machine \<Rightarrow> machine \<Rightarrow> bool" where
  "anchored m m' \<longleftrightarrow> (\<forall>c. fixed (mc_vcpus m' c) = fixed (mc_vcpus m c)) \<and> mc_array m' = mc_array m"

named_theorems fixed_simps \<open>updates that keep the fixed part of a vCPU\<close>

lemma fixed_record [fixed_simps]:
  "fixed (vc\<lparr>vc_state := st\<rparr>) = fixed vc" "fixed (vc\<lparr>regs := r\<rparr>) = fixed vc" "fixed (vc\<lparr>halted := b\<rparr>) = fixed vc"
  "fixed (vc\<lparr>apic := a\<rparr>) = fixed vc" "fixed (vc\<lparr>arch_cr0 := x\<rparr>) = fixed vc" "fixed (vc\<lparr>arch_cr4 := x\<rparr>) = fixed vc"
  "fixed (vc\<lparr>arch_efer := x\<rparr>) = fixed vc" "fixed (vc\<lparr>arch_xcr0 := x\<rparr>) = fixed vc" "fixed (vc\<lparr>vmcs := f\<rparr>) = fixed vc"
  "fixed (vc\<lparr>stats := t\<rparr>) = fixed vc" "fixed (vc\<lparr>launched := l\<rparr>) = fixed vc" "fixed (snd (vmwrite e v vc)) = fixed vc"
  by (simp_all add: fixed_def)

lemma fixed_helpers [fixed_simps]:
  "fixed (advance rip vc) = fixed vc" "fixed (write_efer v vc) = fixed vc" "fixed (exit_prologue g vc) = fixed vc"
  "fixed (snd (step_past rip n vc)) = fixed vc" "outside_apic vc vc' \<Longrightarrow> fixed vc' = fixed vc"
  by (auto simp: advance_def write_efer_def exit_prologue_def step_past_def outside_apic_def Let_def fixed_simps)

lemma anchored_refl [simp]: "anchored m m"
  by (simp add: anchored_def)

lemma anchored_trans: "anchored m n \<Longrightarrow> anchored n k \<Longrightarrow> anchored m k"
  by (simp add: anchored_def)

lemma anchored_put: "fixed vc = fixed (mc_vcpus m me) \<Longrightarrow> anchored m (put_vcpu me vc m)"
  by (simp add: anchored_def put_vcpu_simps)

lemma anchored_upd: "(\<And>vc. fixed (f vc) = fixed vc) \<Longrightarrow> anchored m (upd_vcpu me f m)"
  by (simp add: anchored_def upd_vcpu_simps)

lemma anchored_stop_with: "stop_with st me m = (r, m') \<Longrightarrow> anchored m m'"
  by (auto simp: stop_with_def intro!: anchored_upd simp: fixed_simps)

lemma anchored_on_vcpu:
  "on_vcpu me f m = (r, m') \<Longrightarrow> (\<And>vc. fixed (snd (f vc)) = fixed vc) \<Longrightarrow> anchored m m'"
  by (auto simp: on_vcpu_def split: prod.splits intro!: anchored_put) (metis snd_conv)

lemma cr_fixed [fixed_simps]:
  "fixed (snd (relm_cr0_write_handle_exit pf q vc)) = fixed vc" "fixed (snd (relm_cr4_write_handle_exit pf q vc)) = fixed vc"
  "fixed (snd (relm_cr3_passthrough_handle_exit q t vc)) = fixed vc"
  by (simp_all add: relm_cr0_write_handle_exit_def relm_cr4_write_handle_exit_def relm_cr3_passthrough_handle_exit_def Let_def
      case_prod_unfold fixed_simps)

lemma handle_cr_anchored: "handle_cr_access pf me q m = (r, m') \<Longrightarrow> anchored m m'"
  unfolding handle_cr_access_def Let_def
  by (auto split: if_splits elim!: anchored_on_vcpu anchored_stop_with simp: fixed_simps)

lemma handle_apic_anchored: "handle_apic_access pf me m = (r, m') \<Longrightarrow> anchored m m'"
proof -
  assume "handle_apic_access pf me m = (r, m')"
  then obtain q where "relm_apic_handle_access pf me m = (q, m')" by (auto simp: handle_apic_access_def split: prod.splits)
  then show ?thesis
  proof (cases rule: apic_handle_cases)
    case 1
    then show ?thesis by (auto intro!: anchored_put simp: fixed_simps)
  next
    case (3 d S)
    have "fixed (S c) = fixed (mc_vcpus m c)" for c
    proof (cases "apic_store_type (apic_acc (mc_vcpus m me))")
      case True
      with 3(3) obtain v where "S = snd (relm_apic_write (pf_now pf) (Some (mc_array m)) me (apic_off (mc_vcpus m me)) v (mc_vcpus m))"
        by (auto simp: apic_perform_def split: option.splits)
      then show ?thesis by (simp add: fixed_helpers(5) [OF apic_write_outside])
    next
      case False
      with 3(3) show ?thesis by (auto simp: apic_perform_def Let_def fixed_simps split: if_splits prod.splits)
    qed
    with 3(4) show ?thesis by (simp add: anchored_def fixed_simps)
  qed simp
qed

lemma handle_ept_anchored: "handle_ept_violation pf me q m = (r, m') \<Longrightarrow> anchored m m'"
proof -
  have mm: "anchored m n" if "relm_virtio_mmio_handle_ept_violation pf me gpa m = (b, n)" for gpa b n
    using that
  proof (cases rule: mmio_handle_cases)
    case (2 dev k buf d irq s vc)
    have "fixed vc = fixed (mc_vcpus m me)"
      using 2(7) by (auto simp: mmio_perform_def fixed_simps split: relm_memory_access.splits option.splits prod.splits if_splits)
    moreover have "fixed (snd (vmx_inject_irq q vc)) = fixed vc" for q
      by (simp add: vmx_inject_irq_def Let_def fixed_helpers(5) [OF inject_outside])
    ultimately show ?thesis using 2(8) by (simp add: anchored_def put_vcpu_simps fixed_simps)
  qed simp
  assume "handle_ept_violation pf me q m = (r, m')"
  then show ?thesis
    unfolding handle_ept_violation_def Let_def
    by (auto split: if_splits prod.splits option.splits bool.splits dest!: mm anchored_stop_with intro: anchored_trans)
qed

lemma dispatch_anchored:
  assumes "dispatch_exit pf me reason q rip m = (r, m')"
  shows "anchored m m'"
proof -
  have io: "anchored m m'" if "handle_io_instruction me rip q m = (r, m')"
    using that by (auto simp: handle_io_instruction_def Let_def fixed_simps anchored_def upd_vcpu_simps split: if_splits prod.splits)
  have simple: "anchored m m'" if "handle_hlt me rip m = (r, m') \<or> handle_cpuid pf me rip m = (r, m') \<or> handle_vmcall me rip m = (r, m')
      \<or> handle_msr_read me rip m = (r, m') \<or> handle_msr_write me rip m = (r, m') \<or> handle_external_interrupt m = (r, m')
      \<or> handle_exception_nmi me m = (r, m') \<or> handle_xsetbv me rip m = (r, m')"
    using that by (auto simp: handle_hlt_def handle_cpuid_def handle_vmcall_def handle_msr_read_def handle_msr_write_def
        handle_external_interrupt_def handle_exception_nmi_def handle_xsetbv_def Let_def fixed_simps
        split: if_splits intro!: anchored_upd dest!: anchored_stop_with)
  have stops: "anchored m m'" if "handle_triple_fault me m = (r, m') \<or> handle_init_signal me m = (r, m') \<or> handle_invalid_guest_state me m = (r, m')
      \<or> handle_preemption_timer_expired me m = (r, m') \<or> handle_ept_misconfig me m = (r, m')"
    using that by (auto simp: handle_triple_fault_def handle_init_signal_def handle_invalid_guest_state_def
        handle_preemption_timer_expired_def handle_ept_misconfig_def dest: anchored_stop_with)
  show ?thesis using assms unfolding dispatch_exit_def
    by (auto split: if_splits intro: io simple stops anchored_stop_with handle_cr_anchored handle_apic_anchored handle_ept_anchored)
qed

lemma handle_vmexit_anchored:
  assumes "handle_vmexit pf cur g m = (r, g', m')"
  shows "anchored m m'"
proof (cases cur)
  case None
  with assms show ?thesis by (simp add: handle_vmexit_def)
next
  case (Some me)
  have p: "anchored m (upd_vcpu me (exit_prologue g) m)" by (rule anchored_upd) (simp add: fixed_simps)
  from assms [unfolded Some] show ?thesis
  proof (cases rule: handle_vmexit_cases)
    case 1
    then show ?thesis by (auto intro!: anchored_upd simp: fixed_simps)
  next
    case 2
    then show ?thesis by (blast intro: anchored_trans p dispatch_anchored)
  qed
qed

text \<open>The same for phase 2, step by step.\<close>

definition steady :: "setup_step \<Rightarrow> bool" where
  "steady f \<longleftrightarrow> (\<forall>vc. fixed (snd (f vc)) = fixed vc)"

lemma check_vmwrites_fixed [fixed_simps]: "fixed (snd (check_vmwrites ws vc)) = fixed vc"
  by (induction ws vc rule: check_vmwrites.induct) (auto simp: fixed_simps vmwrite_def split: if_splits)

lemma steady_intros [intro]:
  "steady (writes ws)" "steady (require P e)" "(\<And>vc. fixed (f vc) = fixed vc) \<Longrightarrow> steady (assign f)"
  "steady g \<Longrightarrow> steady (as_eio g)" "steady (run_steps [])" "steady g \<Longrightarrow> steady (run_steps gs) \<Longrightarrow> steady (run_steps (g # gs))"
  by (auto simp: steady_def writes_def require_def assign_def as_eio_def fixed_simps run_steps.simps split: prod.splits sum.splits)
     (metis snd_conv)+

lemma fixed_va [fixed_simps]: "fixed (vc\<lparr>va := x\<rparr>) = fixed vc" "fixed (vc\<lparr>vmcs_rejects := y\<rparr>) = fixed vc"
  by (simp_all add: fixed_def)

lemma apic_vmcs_setup_steady: "steady (relm_apic_vmcs_setup c)"
  by (auto simp: steady_def relm_apic_vmcs_setup_def Let_def vmwrite_def fixed_simps split: if_splits)

lemma stages_steady:
  "steady (vmx_init_controls w)" "steady (relm_setup_cr_controls w)" "steady (relm_setup_host_state w)"
  "steady (relm_setup_guest_state_longmode w (Some b))"
  unfolding vmx_init_controls_def relm_setup_cr_controls_def relm_setup_host_state_def relm_setup_guest_state_longmode_def
    relm_apply_exec_controls_def option.case
  by (intro steady_intros; simp add: fixed_simps)+

lemma vmx_vcpu_init_fixed:
  assumes "vmx_vcpu_init w b vc h = (r, b', vc', h')"
  shows "fixed vc' = fixed vc"
proof -
  have s1: "steady (run_steps [writes (\<lambda>_. [(ENC_EPT_POINTER, eptp ept)]), vmx_init_controls w,
      as_eio (relm_apic_vmcs_setup (rdmsr w MSR_VMX_PROCBASED_CTLS2))])" for ept
    by (intro steady_intros stages_steady apic_vmcs_setup_steady)
  have s2: "steady (run_steps [as_eio (relm_setup_cr_controls w), as_eio (relm_setup_host_state w),
      as_eio (relm_setup_guest_state_longmode w (Some b))])" for b
    by (intro steady_intros stages_steady)
  have f: "fixed v' = fixed v" if "steady g" "g v = (q, v')" for g v q v' using that unfolding steady_def by (metis snd_conv)
  from assms show ?thesis
    by (auto simp: vmx_vcpu_init_def relm_vmptrld_def Let_def fixed_simps split: sum.splits prod.splits option.splits if_splits
        dest!: f [OF s1] f [OF s2])
qed

section \<open>The system\<close>

text \<open>Any interleaving of the threads, the scheduler, the processor and one caller. A stack pointer is
  never null.\<close>

inductive sys_step :: "platform \<Rightarrow> hw \<Rightarrow> sys \<Rightarrow> sys \<Rightarrow> bool" for pf w where
  thread: "thread_step pf w i ev s = Some s' \<Longrightarrow> (\<And>rsp. ev = Go rsp \<Longrightarrow> rsp \<noteq> 0) \<Longrightarrow> sys_step pf w s s'"
| caller: "ctl_step now s = Some s' \<Longrightarrow> sys_step pf w s s'"
| stop: "s_ctl s = CTL_IDLE r \<Longrightarrow> sys_step pf w s (relm_stop_vm s)"
| run: "s_ctl s = CTL_IDLE r \<Longrightarrow> sys_step pf w s (relm_run_vm kt now s)"

inductive_cases sys_stepE: "sys_step pf w s s'"

inductive reachable :: "platform \<Rightarrow> hw \<Rightarrow> sys \<Rightarrow> sys \<Rightarrow> bool" for pf w s where
  here: "reachable pf w s s"
| next_step: "reachable pf w s t \<Longrightarrow> sys_step pf w t u \<Longrightarrow> reachable pf w s u"

named_theorems sys_simps \<open>updates of the system\<close>

lemma set_thread_simps [sys_simps]:
  "s_thread (set_thread i t s) j = (if j = i then Some t else s_thread s j)" "s_mach (set_thread i t s) = s_mach s"
  "s_current (set_thread i t s) = s_current s" "s_loaded (set_thread i t s) = s_loaded s" "s_vcpu (set_thread i t s) = s_vcpu s"
  "s_online (set_thread i t s) = s_online s" "s_ctl (set_thread i t s) = s_ctl s"
  by (simp_all add: set_thread_def s_vcpu_def fun_eq_iff)

lemma set_vcpu_simps [sys_simps]:
  "s_thread (set_vcpu i f s) = s_thread s" "s_current (set_vcpu i f s) = s_current s" "s_loaded (set_vcpu i f s) = s_loaded s"
  "s_vcpu (set_vcpu i f s) j = (if j = i then f (s_vcpu s i) else s_vcpu s j)" "mc_array (s_mach (set_vcpu i f s)) = mc_array (s_mach s)"
  "s_online (set_vcpu i f s) = s_online s" "s_ctl (set_vcpu i f s) = s_ctl s" "mc_host (s_mach (set_vcpu i f s)) = mc_host (s_mach s)"
  by (simp_all add: set_vcpu_def s_vcpu_def upd_vcpu_simps)

lemma s_vcpu_simps [sys_simps]:
  "s_vcpu (s\<lparr>s_total_exits := n\<rparr>) = s_vcpu s" "s_vcpu (s\<lparr>s_ctl := k\<rparr>) = s_vcpu s" "s_vcpu (s\<lparr>s_state := st\<rparr>) = s_vcpu s"
  "s_vcpu (s\<lparr>s_thread := x\<rparr>) = s_vcpu s"
  by (simp_all add: s_vcpu_def fun_eq_iff)

lemma set_current_simps [sys_simps]:
  "s_thread (relm_set_current_vcpu c v s) = s_thread s" "s_mach (relm_set_current_vcpu c v s) = s_mach s"
  "s_current (relm_set_current_vcpu c v s) d = (if d = c then v else s_current s d)" "s_loaded (relm_set_current_vcpu c v s) = s_loaded s"
  "s_vcpu (relm_set_current_vcpu c v s) = s_vcpu s"
  by (simp_all add: relm_set_current_vcpu_def s_vcpu_def fun_eq_iff)

text \<open>A virtual machine with one vCPU, which is all that \<open>RELM_MAX_VCPUS\<close> allows: while no stop is requested,
  from phase 2 on the thread is confined to its target processor, is registered there, and has its VMCS
  current there; when it may return from the guest its stack pointer has been saved.\<close>

definition pinned_pc :: "vcpu_pc \<Rightarrow> bool" where
  "pinned_pc p \<longleftrightarrow> p \<in> {AT_INIT, AT_CHECK, AT_ENTER, AT_RESUME, IN_GUEST, AT_POST, AT_WAIT}"

definition placed :: "nat \<Rightarrow> vcpu_thread \<Rightarrow> sys \<Rightarrow> bool" where
  "placed i t s \<longleftrightarrow>
     (t_pc t = AT_MIGRATE \<longrightarrow> 0 \<le> target_cpu_id (s_vcpu s i) \<and> t_mask t = [nat (target_cpu_id (s_vcpu s i))]) \<and>
     (pinned_pc (t_pc t) \<longrightarrow> t_mask t = [t_cpu t] \<and> int (t_cpu t) = target_cpu_id (s_vcpu s i) \<and> s_current s (t_cpu t) = Some i \<and>
        (t_pc t \<noteq> AT_INIT \<longrightarrow> s_loaded s (t_cpu t) = Some i)) \<and>
     (t_pc t = AT_RESUME \<or> t_pc t = IN_GUEST \<longrightarrow> vmentry_host_rsp (s_vcpu s i) \<noteq> 0) \<and>
     t_pc t \<noteq> PARKED \<and> t_pc t \<noteq> FOREIGN"

definition lone_vcpu :: "nat \<Rightarrow> sys \<Rightarrow> bool" where
  "lone_vcpu i s \<longleftrightarrow> (\<forall>j. j \<noteq> i \<longrightarrow> s_thread s j = None) \<and> mc_array (s_mach s) = [Some i] \<and>
     (\<forall>t. s_thread s i = Some t \<longrightarrow> t_stop t \<or> placed i t s)"

lemma placed_start: "placed i \<lparr>t_pc = AT_START, t_cpu = c, t_mask = ms, t_stop = b, t_ret = r\<rparr> s"
  by (simp add: placed_def pinned_pc_def)

lemma fixed_eqD: "fixed vc' = fixed vc \<Longrightarrow> target_cpu_id vc' = target_cpu_id vc \<and> vmentry_host_rsp vc' = vmentry_host_rsp vc"
  by (simp add: fixed_def)

lemma lone_placed: "lone_vcpu i s \<Longrightarrow> s_thread s i = Some t \<Longrightarrow> t_stop t \<or> placed i t s"
  by (simp add: lone_vcpu_def)

lemma lone_set:
  assumes "lone_vcpu i s" "s_thread s' = s_thread s" "mc_array (s_mach s') = mc_array (s_mach s)" "t_stop t \<or> placed i t s'"
  shows "lone_vcpu i (set_thread i t s')"
proof -
  have "placed i t (set_thread i t s') = placed i t s'" by (simp add: placed_def sys_simps)
  with assms show ?thesis by (simp add: lone_vcpu_def sys_simps)
qed

lemma loop_init_lone:
  assumes l: "lone_vcpu i s" and t: "s_thread s i = Some t" "t_pc t = AT_INIT"
  shows "lone_vcpu i (loop_init w i t s)"
proof -
  obtain r b vc h where v: "vmx_vcpu_init w (s_boot s) (s_vcpu s i) (mc_host (s_mach s)) = (r, b, vc, h)" by (metis prod_cases4)
  have f: "target_cpu_id vc = target_cpu_id (s_vcpu s i)" using fixed_eqD [OF vmx_vcpu_init_fixed [OF v]] by simp
  have ok: "\<exists>e. r = Inl e" if "relm_vmclear w (s_vcpu s i) = Inl e \<or> (\<exists>x. relm_vmptrld w (s_vcpu s i) = (Inl e, x))" for e
    using that v by (auto simp: vmx_vcpu_init_def split: sum.splits prod.splits) metis+
  let ?L = "case relm_vmclear w (s_vcpu s i) of Inl e \<Rightarrow> False
    | Inr _ \<Rightarrow> (case relm_vmptrld w (s_vcpu s i) of (Inl e, _) \<Rightarrow> False | (Inr _, _) \<Rightarrow> True)"
  define s1 where "s1 = s\<lparr>s_boot := b, s_mach := (put_vcpu i vc (s_mach s))\<lparr>mc_host := h\<rparr>,
    s_loaded := (if ?L then (s_loaded s)(t_cpu t := Some i) else s_loaded s)\<rparr>"
  have L: "r = Inr () \<Longrightarrow> ?L" using ok by (auto split: sum.splits prod.splits)
  have s1: "s_thread s1 = s_thread s" "s_current s1 = s_current s" "s_vcpu s1 i = vc" "mc_array (s_mach s1) = mc_array (s_mach s)"
    "r = Inr () \<Longrightarrow> s_loaded s1 (t_cpu t) = Some i"
    using L by (simp_all add: s1_def s_vcpu_def put_vcpu_simps)
  have i: "loop_init w i t s = (case r of
      Inl e \<Rightarrow> set_thread i (t\<lparr>t_pc := AT_DESTROY, t_ret := - errno_code e\<rparr>) (set_vcpu i (\<lambda>vc. vc\<lparr>vc_state := VCPU_STATE_ERROR\<rparr>) s1)
    | Inr _ \<Rightarrow> set_thread i (t\<lparr>t_pc := AT_CHECK, t_ret := 0\<rparr>) (set_vcpu i (\<lambda>vc. vc\<lparr>vc_state := VCPU_STATE_RUNNING\<rparr>) s1))"
    unfolding loop_init_def Let_def v prod.case s1_def ..
  show ?thesis using lone_placed [OF l t(1)] t(2) unfolding i
    by (cases r; simp; intro lone_set [OF l]) (auto simp: placed_def pinned_pc_def sys_simps s1 f)
qed

lemma exit_lone:
  assumes l: "lone_vcpu i s" and t: "s_thread s i = Some t" "t_pc t = IN_GUEST"
  shows "lone_vcpu i (relm_vmexit_handler pf f g resumes i t s)"
proof -
  let ?m = "upd_vcpu i (\<lambda>vc. vc\<lparr>vmcs := f\<rparr>) (s_mach s)"
  obtain r g' m where h: "handle_vmexit pf (s_current s (t_cpu t)) g ?m = (r, g', m)" by (metis prod_cases3)
  have "anchored (s_mach s) ?m" by (rule anchored_upd) (simp add: fixed_simps)
  then have a: "anchored (s_mach s) m" using handle_vmexit_anchored [OF h] by (rule anchored_trans)
  then have "fixed (mc_vcpus m i) = fixed (s_vcpu s i)" by (simp add: anchored_def s_vcpu_def)
  from fixed_eqD [OF this] a have v: "target_cpu_id (mc_vcpus m i) = target_cpu_id (s_vcpu s i)"
    "vmentry_host_rsp (mc_vcpus m i) = vmentry_host_rsp (s_vcpu s i)" "mc_array m = mc_array (s_mach s)"
    by (simp_all add: anchored_def)
  define s1 where "s1 = s\<lparr>s_mach := m\<rparr>"
  have s1: "s_thread s1 = s_thread s" "s_current s1 = s_current s" "s_loaded s1 = s_loaded s" "s_mach s1 = m" "s_vcpu s1 = mc_vcpus m"
    by (simp_all add: s1_def s_vcpu_def fun_eq_iff)
  have p: "t_stop t \<or> placed i t s" by (rule lone_placed [OF l t(1)])
  have z: "lone_vcpu i (vmexit_return_zero i t s1)"
    unfolding vmexit_return_zero_def
    by (rule lone_set [OF l]) (use p t(2) in \<open>auto simp: placed_def pinned_pc_def s1 v relm_get_current_vcpu_def relm_vmentry_get_rsp_def\<close>)
  have k: "lone_vcpu i (set_thread i (t\<lparr>t_pc := q\<rparr>) s1)" if "q = IN_GUEST \<or> q = CRASHED" for q
    by (rule lone_set [OF l]) (use p t(2) that in \<open>auto simp: placed_def pinned_pc_def s1 v\<close>)
  have "relm_vmexit_handler pf f g resumes i t s = (case r of None \<Rightarrow> set_thread i (t\<lparr>t_pc := CRASHED\<rparr>) s1
      | Some r \<Rightarrow> if r \<noteq> 0 \<and> resumes then set_thread i (t\<lparr>t_pc := IN_GUEST\<rparr>) s1 else vmexit_return_zero i t s1)"
    unfolding relm_vmexit_handler_def relm_get_current_vcpu_def h prod.case s1_def ..
  with z k show ?thesis by (simp split: option.split)
qed

lemma save_rsp_simps [sys_simps]:
  "mc_array (relm_vmentry_save_rsp cur rsp m) = mc_array m"
  "target_cpu_id (mc_vcpus (relm_vmentry_save_rsp cur rsp m) j) = target_cpu_id (mc_vcpus m j)"
  "vmentry_host_rsp (mc_vcpus (relm_vmentry_save_rsp (Some i) rsp m) i) = rsp"
  by (simp_all add: relm_vmentry_save_rsp_def upd_vcpu_simps split: option.split)

lemma destroy_simps [sys_simps]:
  "s_thread (vmx_vcpu_destroy w i t s) = s_thread s" "s_mach (vmx_vcpu_destroy w i t s) = s_mach s"
  "s_vcpu (vmx_vcpu_destroy w i t s) = s_vcpu s"
  by (simp_all add: vmx_vcpu_destroy_def s_vcpu_def fun_eq_iff split: sum.split)

lemma pin_lone:
  assumes l: "lone_vcpu i s" and t: "s_thread s i = Some t" "t_pc t = AT_PIN"
  shows "lone_vcpu i (relm_vcpu_pin_to_cpu r i t s)"
proof -
  have fail: "lone_vcpu i (set_thread i (t\<lparr>t_pc := AT_CLEAR, t_ret := n\<rparr>) (set_vcpu i (\<lambda>vc. vc\<lparr>vc_state := VCPU_STATE_ERROR\<rparr>) s))" for n
    by (rule lone_set [OF l]) (simp_all add: sys_simps placed_def pinned_pc_def)
  have ok: "lone_vcpu i (set_thread i (t\<lparr>t_pc := AT_MIGRATE, t_mask := [nat (target_cpu_id (s_vcpu s i))]\<rparr>) s)"
    if "0 \<le> target_cpu_id (s_vcpu s i)"
    by (rule lone_set [OF l]) (use that in \<open>simp_all add: placed_def pinned_pc_def\<close>)
  show ?thesis unfolding relm_vcpu_pin_to_cpu_def Let_def using fail ok by (simp split: sum.split)
qed

lemma entry_lone:
  assumes l: "lone_vcpu i s" and t: "s_thread s i = Some t" "t_pc t = AT_RESUME"
  shows "lone_vcpu i (relm_vmentry_asm b i t s)"
proof -
  have p: "t_stop t \<or> placed i t s" by (rule lone_placed [OF l t(1)])
  have "lone_vcpu i (entry_failure i t s)"
    unfolding entry_failure_def by (rule lone_set [OF l]) (simp_all add: sys_simps placed_def pinned_pc_def)
  moreover have "lone_vcpu i (set_thread i (t\<lparr>t_pc := (if j = i then IN_GUEST else FOREIGN)\<rparr>) s)" if "s_loaded s (t_cpu t) = Some j" for j
    by (rule lone_set [OF l]) (use p t(2) that in \<open>auto simp: placed_def pinned_pc_def\<close>)
  ultimately show ?thesis by (simp add: relm_vmentry_asm_def split: option.split)
qed

lemma post_lone:
  assumes l: "lone_vcpu i s" and t: "s_thread s i = Some t" "t_pc t = AT_POST"
  shows "lone_vcpu i (loop_post i t s)"
  unfolding loop_post_def Let_def using lone_placed [OF l t(1)] t(2)
  by (auto split: sum.split intro!: lone_set [OF l] simp: sys_simps placed_def pinned_pc_def)

lemma own_step_lone:
  assumes l: "lone_vcpu i s" and t: "s_thread s i = Some t" and o: "own_step w rsp i t s = Some s'" and r: "rsp \<noteq> 0"
  shows "lone_vcpu i s'"
proof -
  have p: "t_stop t \<or> placed i t s" by (rule lone_placed [OF l t])
  note pd = placed_def pinned_pc_def sys_simps s_vcpu_def
  show ?thesis
  proof (cases "t_pc t")
    case AT_START
    with o p show ?thesis by (auto simp: own_step_def loop_start_def pd split: if_splits intro!: lone_set [OF l])
  next
    case AT_PIN
    with o pin_lone [OF l t] show ?thesis by (auto simp: own_step_def)
  next
    case AT_MIGRATE
    with o p show ?thesis by (auto simp: own_step_def loop_pinned_def pd split: if_splits intro!: lone_set [OF l])
  next
    case AT_INIT
    with o loop_init_lone [OF l t] show ?thesis by (auto simp: own_step_def)
  next
    case AT_CHECK
    with o p show ?thesis by (auto simp: own_step_def loop_check_def pd split: if_splits intro!: lone_set [OF l])
  next
    case AT_ENTER
    with o p r show ?thesis by (auto simp: own_step_def vmentry_save_def relm_get_current_vcpu_def pd intro!: lone_set [OF l])
  next
    case AT_RESUME
    with o entry_lone [OF l t] show ?thesis by (auto simp: own_step_def)
  next
    case AT_POST
    with o post_lone [OF l t] show ?thesis by (auto simp: own_step_def)
  next
    case AT_WAIT
    with o p show ?thesis by (auto simp: own_step_def loop_wait_def pd split: if_splits intro!: lone_set [OF l])
  qed (use o p in \<open>auto simp: own_step_def loop_destroy_def loop_clear_def pd intro!: lone_set [OF l]\<close>)
qed

lemma thread_lone:
  assumes l: "lone_vcpu i s" and o: "thread_step pf w j ev s = Some s'" and r: "\<And>rsp. ev = Go rsp \<Longrightarrow> rsp \<noteq> 0"
  shows "lone_vcpu i s'"
proof -
  from o obtain t where t: "s_thread s j = Some t" by (auto simp: thread_step_def split: option.splits)
  with l have j: "j = i" by (cases "j = i") (auto simp: lone_vcpu_def)
  note o = o [unfolded thread_step_def j] and t = t [unfolded j]
  have p: "t_stop t \<or> placed i t s" by (rule lone_placed [OF l t])
  show ?thesis
  proof (cases ev)
    case (Go rsp)
    with o t show ?thesis using own_step_lone [OF l] r [of rsp] by auto
  next
    case (Sched c)
    with o t p show ?thesis
      by (auto split: if_splits intro!: lone_set [OF l] simp: placed_def pinned_pc_def preemptible_def)
  next
    case (PinFails e)
    with o t show ?thesis using pin_lone [OF l] by (auto split: if_splits)
  next
    case EntryFails
    with o t show ?thesis using entry_lone [OF l] by (auto split: if_splits)
  next
    case (GuestExit f g b)
    with o t show ?thesis using exit_lone [OF l] by (auto split: if_splits)
  qed
qed

lemma lone_ctl:
  assumes "lone_vcpu i s" "s_thread s' = s_thread s" "s_mach s' = s_mach s" "s_current s' = s_current s" "s_loaded s' = s_loaded s"
  shows "lone_vcpu i s'"
  using assms by (simp add: lone_vcpu_def placed_def s_vcpu_def)

lemma caller_lone:
  assumes l: "lone_vcpu i s" and c: "ctl_step now s = Some s'"
  shows "lone_vcpu i s'"
proof -
  have stop: "lone_vcpu i ((relm_vcpu_unpin_and_stop j s)\<lparr>s_ctl := k\<rparr>)" for j k
  proof (rule lone_ctl [of i "relm_vcpu_unpin_and_stop j s"])
    show "lone_vcpu i (relm_vcpu_unpin_and_stop j s)"
    proof (cases "s_thread s j")
      case None
      with l show ?thesis by (simp add: relm_vcpu_unpin_and_stop_def)
    next
      case (Some t)
      with l have "j = i" by (cases "j = i") (auto simp: lone_vcpu_def)
      with Some show ?thesis by (simp add: relm_vcpu_unpin_and_stop_def) (rule lone_set [OF l]; simp)
    qed
  qed simp_all
  have gone: "lone_vcpu i ((relm_vcpu_stopped now j s)\<lparr>s_ctl := k\<rparr>)" if "s_thread s j = Some t" for j k t
  proof -
    from that l have "j = i" by (cases "j = i") (auto simp: lone_vcpu_def)
    with l show ?thesis by (simp add: lone_vcpu_def relm_vcpu_stopped_def set_vcpu_def upd_vcpu_simps)
  qed
  have easy: "lone_vcpu i (s\<lparr>s_ctl := k\<rparr>)" "lone_vcpu i (s\<lparr>s_state := st, s_ctl := k\<rparr>)" for k st
    by (rule lone_ctl [OF l]; simp)+
  from c show ?thesis
    by (auto simp: ctl_step_def easy stop gone split: controller.splits if_splits option.splits)
qed

lemma run_lone:
  assumes l: "lone_vcpu i s"
  shows "lone_vcpu i (relm_run_vm kt now s)"
proof -
  have started: "lone_vcpu i (snd (relm_vcpu_run r c now i u))" if "lone_vcpu i u" for r c u
  proof -
    have d: "lone_vcpu i (set_vcpu i (\<lambda>vc. vc\<lparr>halted := False, stats := st vc\<rparr>) u)" for st
      using that by (auto simp: lone_vcpu_def placed_def sys_simps)
    have "lone_vcpu i (set_thread i \<lparr>t_pc = AT_START, t_cpu = c, t_mask = ms, t_stop = False, t_ret = 0\<rparr> (set_vcpu i f (set_vcpu i g u)))" for ms f g
      by (rule lone_set [OF that]) (simp_all add: sys_simps placed_start)
    with d that show ?thesis by (simp add: relm_vcpu_run_def Let_def split: sum.split)
  qed
  have l1: "lone_vcpu i (s\<lparr>s_state := VM_STATE_RUNNING\<rparr>)" by (rule lone_ctl [OF l]) simp_all
  have arr: "mc_array (s_mach s) = [Some i]" using l by (simp add: lone_vcpu_def)
  obtain r u where u: "run_vcpus kt now [Some i] 0 (s\<lparr>s_state := VM_STATE_RUNNING\<rparr>) = (r, u)" by fastforce
  then have "lone_vcpu i u" using started [OF l1, of "fst (kt i)" "snd (kt i)"] l1 by (auto split: if_splits prod.splits sum.splits)
  then have fin: "lone_vcpu i (u\<lparr>s_ctl := k\<rparr>)" "lone_vcpu i (u\<lparr>s_state := st, s_ctl := k\<rparr>)" for k st
    by (rule lone_ctl; simp)+
  have easy: "lone_vcpu i (s\<lparr>s_ctl := k\<rparr>)" for k by (rule lone_ctl [OF l]) simp_all
  show ?thesis unfolding relm_run_vm_def arr u using fin easy by (simp split: sum.split nat.split)
qed

lemma lone_invariant: "reachable pf w s s' \<Longrightarrow> lone_vcpu i s \<Longrightarrow> lone_vcpu i s'"
proof (induction rule: reachable.induct)
  case (next_step t u)
  then have l: "lone_vcpu i t" by simp
  from next_step(2) show ?case
  proof (cases rule: sys_step.cases)
    case (stop r)
    then show ?thesis by (auto simp: relm_stop_vm_def intro: lone_ctl [OF l])
  qed (use l in \<open>auto intro: thread_lone caller_lone run_lone\<close>)
qed

end
