(* ===== verification/Relm_Vm.thy ===== *)
theory Relm_Vm
  imports Relm_Npt Relm_Lifecycle
begin

text \<open>
  Creation and destruction of a VM (src/core/vm.c) over a table of memory operations
  (\<open>struct relm_mem_ops\<close>, include/relm/vm.h). The table is a record of functions, built here for VMX
  and for SVM; \<open>relm_create_vm\<close> follows every error label. The locale \<open>vm_backend\<close> states what a
  back end promises about the frames it holds, from set-up to teardown, and accounts once for every
  page of a VM; both back ends interpret it.
\<close>

section \<open>The tables of operations\<close>

text \<open>The \<open>invalidate\<close> slot flushes translation caches and is called from nowhere; it has no field here.\<close>

record 'c relm_mem_ops =
  mo_setup :: "host \<Rightarrow> unit res \<times> 'c option \<times> host"
  mo_map_page :: "u64 \<Rightarrow> u64 \<Rightarrow> u64 \<Rightarrow> 'c option \<times> host \<Rightarrow> unit res \<times> 'c option \<times> host"
  mo_unmap_page :: "u64 \<Rightarrow> 'c option \<times> host \<Rightarrow> 'c option \<times> host"
  mo_create_guest_page_tables :: "relm_vm_memory \<times> 'c option \<Rightarrow> u64 \<Rightarrow> host \<Rightarrow> unit res option \<times> u64 \<times> host"
  mo_destroy :: "'c option \<Rightarrow> host \<Rightarrow> 'c option \<times> host"

definition vmx_mem_ops :: "u64 \<Rightarrow> ept_context relm_mem_ops" where
  "vmx_mem_ops cap = \<lparr>mo_setup = relm_setup_ept cap, mo_map_page = vmx_map_op, mo_unmap_page = vmx_unmap_op,
     mo_create_guest_page_tables = (\<lambda>vm. relm_ept_create_guest_page_tables (Some vm)), mo_destroy = vmx_mem_destroy\<rparr>"

definition svm_mem_ops :: "u32 \<Rightarrow> u32 \<Rightarrow> npt_context relm_mem_ops" where
  "svm_mem_ops ecx edx = \<lparr>mo_setup = relm_setup_npt ecx edx, mo_map_page = svm_map_op, mo_unmap_page = svm_unmap_op,
     mo_create_guest_page_tables = (\<lambda>vm. relm_npt_create_guest_page_tables (Some vm)), mo_destroy = svm_mem_destroy\<rparr>"

text \<open>The VM operations, by the functions in their slots; an empty slot is a null pointer.\<close>

datatype vm_op = FN_vmx_vm_init | FN_vmx_vm_destroy | FN_vmx_add_vcpu | FN_svm_vm_init | FN_svm_vm_destroy | FN_svm_add_vcpu
  | FN_relm_op_get_uptime | FN_relm_op_get_cpu_utilization | FN_relm_op_print_stats | FN_relm_op_dump_regs

record relm_vm_operations =
  op_vm_init :: "vm_op option"
  op_vm_destroy :: "vm_op option"
  op_add_vcpu :: "vm_op option"
  op_get_uptime :: "vm_op option"
  op_get_cpu_utilization :: "vm_op option"
  op_dump_regs :: "vm_op option"
  op_print_stats :: "vm_op option"

definition relm_generic_vm_ops :: relm_vm_operations where
  "relm_generic_vm_ops = \<lparr>op_vm_init = None, op_vm_destroy = None, op_add_vcpu = None,
     op_get_uptime = Some FN_relm_op_get_uptime, op_get_cpu_utilization = Some FN_relm_op_get_cpu_utilization,
     op_dump_regs = Some FN_relm_op_dump_regs, op_print_stats = Some FN_relm_op_print_stats\<rparr>"

definition vmx_vm_ops :: relm_vm_operations where
  "vmx_vm_ops = \<lparr>op_vm_init = Some FN_vmx_vm_init, op_vm_destroy = Some FN_vmx_vm_destroy, op_add_vcpu = Some FN_vmx_add_vcpu,
     op_get_uptime = None, op_get_cpu_utilization = None, op_dump_regs = None, op_print_stats = None\<rparr>"

definition relm_vm_ops_merg :: "relm_vm_operations \<Rightarrow> relm_vm_operations" where
  "relm_vm_ops_merg arch_ops =
     (let m = arch_ops;
          m = (if op_get_uptime m = None then m\<lparr>op_get_uptime := op_get_uptime relm_generic_vm_ops\<rparr> else m);
          m = (if op_get_cpu_utilization m = None
               then m\<lparr>op_get_cpu_utilization := op_get_cpu_utilization relm_generic_vm_ops\<rparr> else m);
          m = (if op_print_stats m = None then m\<lparr>op_print_stats := op_print_stats relm_generic_vm_ops\<rparr> else m)
      in if op_dump_regs m = None then m\<lparr>op_dump_regs := op_dump_regs relm_generic_vm_ops\<rparr> else m)"

section \<open>The VM\<close>

record 'c relm_vm =
  v_id :: int
  v_name :: string
  v_memory :: relm_vm_memory
  v_max_vcpus :: nat
  v_online_vcpus :: nat
  v_vcpus :: "vcpu option list option"
  v_state :: vm_state
  v_ops :: relm_vm_operations
  v_ctx :: "'c option"
  v_pml4_gpa :: u64

abbreviation (input) RELM_VM_NAME_LEN :: nat where "RELM_VM_NAME_LEN \<equiv> 16"
abbreviation (input) RELM_MAX_VCPUS :: nat where "RELM_MAX_VCPUS \<equiv> 1"

fun dec_digits :: "nat \<Rightarrow> string" where
  "dec_digits n = (if n < 10 then [char_of (48 + n)] else dec_digits (n div 10) @ [char_of (48 + n mod 10)])"

declare dec_digits.simps [simp del]

text \<open>\<open>strscpy\<close> and \<open>snprintf(..., "vm-%d", ...)\<close> into the 16-byte name.\<close>

definition vm_name_of :: "int \<Rightarrow> string option \<Rightarrow> string" where
  "vm_name_of vm_id nm =
     take (RELM_VM_NAME_LEN - 1)
       (case nm of Some s \<Rightarrow> s
        | None \<Rightarrow> ''vm-'' @ (if vm_id < 0 then ''-'' else []) @ dec_digits (nat \<bar>vm_id\<bar>))"

definition blank_memory :: relm_vm_memory where
  "blank_memory = \<lparr>mem_regions = [], total_guest_ram = 0,
     mmio_regions = replicate 8 \<lparr>mr_gpa_start = 0, mr_size = 0, mr_name = []\<rparr>, mmio_region_count = 0\<rparr>"

definition relm_vm_create_guest_page_tables :: "'c relm_mem_ops \<Rightarrow> 'c relm_vm option \<Rightarrow> host
    \<Rightarrow> unit res option \<times> 'c relm_vm option \<times> host" where
  "relm_vm_create_guest_page_tables mo vm h =
     (case vm of None \<Rightarrow> (Some (Inl EINVAL), None, h)
      | Some v \<Rightarrow>
        (case mo_create_guest_page_tables mo (v_memory v, v_ctx v) (v_pml4_gpa v) h of
           (r, pml4_gpa, h) \<Rightarrow> (r, Some (v\<lparr>v_pml4_gpa := pml4_gpa\<rparr>), h)))"

text \<open>The labels \<open>_out_free_mmu\<close> and \<open>_out_free_memory\<close>.\<close>

definition out_free_mmu :: "'c relm_mem_ops \<Rightarrow> 'c option \<Rightarrow> host \<Rightarrow> host" where
  "out_free_mmu mo c h = snd (mo_destroy mo c h)"

definition out_free_memory :: "'c relm_mem_ops \<Rightarrow> 'c relm_vm \<Rightarrow> host \<Rightarrow> host" where
  "out_free_memory mo v h = out_free_mmu mo (v_ctx v) (snd (relm_vm_free_guest_mem (Some (v_memory v)) h))"

text \<open>The last step of the creation: the array of vCPUs.\<close>

definition create_vcpu_array :: "'c relm_mem_ops \<Rightarrow> 'c relm_vm \<Rightarrow> host \<Rightarrow> 'c relm_vm option option \<times> host" where
  "create_vcpu_array mo v h =
     (case kzalloc h of
        (False, h) \<Rightarrow> (Some None, out_free_memory mo v h)
      | (True, h) \<Rightarrow>
          (Some (Some (v\<lparr>v_vcpus := Some (replicate (v_max_vcpus v) None), v_state := VM_STATE_INITIALIZED\<rparr>)), h))"

text \<open>The result is \<open>Some None\<close> for a null pointer and \<open>None\<close> when the host dereferences an invalid
  pointer.\<close>

definition relm_create_vm :: "'c relm_mem_ops \<Rightarrow> relm_vm_operations \<Rightarrow> int \<Rightarrow> string option \<Rightarrow> u64 \<Rightarrow> host
    \<Rightarrow> 'c relm_vm option option \<times> host" where
  "relm_create_vm mo arch_ops vm_id nm ram_size h =
     (case kzalloc h of
        (False, h) \<Rightarrow> (Some None, h)
      | (True, h) \<Rightarrow>
        (case mo_setup mo h of
           (Inl e, _, h) \<Rightarrow> (Some None, h)
         | (Inr _, c, h) \<Rightarrow>
           let v = \<lparr>v_id = vm_id, v_name = vm_name_of vm_id nm, v_memory = blank_memory, v_max_vcpus = RELM_MAX_VCPUS,
                    v_online_vcpus = 0, v_vcpus = None, v_state = VM_STATE_CREATED, v_ops = relm_vm_ops_merg arch_ops,
                    v_ctx = c, v_pml4_gpa = 0\<rparr> in
           if 0 < ram_size then
             (case relm_vm_allocate_guest_ram (mo_map_page mo) ram_size 0 (Some (v_memory v)) (c, h) of
                (Inl e, _, c, h) \<Rightarrow> (Some None, out_free_mmu mo c h)
              | (Inr _, None, c, h) \<Rightarrow> (None, h)
              | (Inr _, Some mm, c, h) \<Rightarrow>
                (case relm_vm_create_guest_page_tables mo (Some (v\<lparr>v_memory := mm, v_ctx := c\<rparr>)) h of
                   (Some (Inr _), Some v, h) \<Rightarrow> create_vcpu_array mo v h
                 | (Some (Inl e), _, h) \<Rightarrow> (Some None, out_free_mmu mo c h)
                 | (_, _, h) \<Rightarrow> (None, h)))
           else create_vcpu_array mo v h))"

text \<open>Destruction: threads that still run are stopped (the list of their VPIDs is the first result), each vCPU is
  freed by the routine of the back end, then guest memory and the tables. \<open>vm->ops->vm_destroy\<close> is not
  called.\<close>

definition destroy_vcpu :: "(vcpu \<Rightarrow> host \<Rightarrow> host) \<Rightarrow> vcpu option \<Rightarrow> u16 list \<times> host \<Rightarrow> u16 list \<times> host" where
  "destroy_vcpu fr vc s =
     (case vc of None \<Rightarrow> s
      | Some vc \<Rightarrow> (fst s @ (if host_task vc then [vpid vc] else []), fr vc (snd s)))"

definition relm_destroy_vm :: "'c relm_mem_ops \<Rightarrow> (vcpu \<Rightarrow> host \<Rightarrow> host) \<Rightarrow> 'c relm_vm option \<Rightarrow> host \<Rightarrow> u16 list \<times> host" where
  "relm_destroy_vm mo fr vm h =
     (case vm of None \<Rightarrow> ([], h)
      | Some v \<Rightarrow>
        let (stopped, h) = (case v_vcpus v of None \<Rightarrow> ([], h) | Some vs \<Rightarrow> fold (destroy_vcpu fr) (take (v_max_vcpus v) vs) ([], h));
            (_, h) = relm_vm_free_guest_mem (Some (v_memory v)) h;
            (_, h) = mo_destroy mo (v_ctx v) h
        in (stopped, h))"

section \<open>Copies into guest memory stay in guest memory\<close>

definition ram_frames :: "guest_mem_region list \<Rightarrow> u64 set" where
  "ram_frames rgs = {f. \<exists>r\<in>set rgs. \<exists>ps. gr_pages r = Some ps \<and> Some f \<in> set ps}"

lemma wr_bytes_in_page:
  assumes "PAGE_ALIGNED p" "po + length bs \<le> 4096" "page_base x \<noteq> p"
  shows "wr_bytes m (p + word_of_nat po) bs x = m x"
proof (rule wr_bytes_other, rule ccontr)
  let ?a = "p + word_of_nat po :: u64"
  assume "\<not> length bs \<le> unat (x - ?a)"
  then have l: "po + unat (x - ?a) < 4096" using assms(2) by simp
  have "x = p + word_of_nat (po + unat (x - ?a))" by (simp add: algebra_simps)
  moreover have "unat (word_of_nat (po + unat (x - ?a)) :: u64) = po + unat (x - ?a)"
    by (rule unat_word_of_nat_small) (use l in simp)
  ultimately have "page_base x = p" using page_base_add [OF assms(1)] l by metis
  with assms(3) show False by simp
qed

lemma copy_to_loop_local:
  assumes "copy_to_loop rgs data region a copied h = (r, h')"
    and "\<forall>f\<in>ram_frames rgs. PAGE_ALIGNED f" and "\<forall>r. region = Some r \<longrightarrow> r \<in> set rgs"
  shows "pool h' = pool h \<and> kmem h' = kmem h \<and> (\<forall>x. page_base x \<notin> ram_frames rgs \<longrightarrow> pmem h' x = pmem h x)"
  using assms
proof (induction rgs data region a copied h rule: copy_to_loop.induct)
  case (1 rgs data region a copied h)
  note unf = copy_to_loop.simps [of rgs data region a copied h]
  show ?case
  proof (cases "copied < length data")
    case False
    with "1.prems"(1) unf show ?thesis by auto
  next
    case lt: True
    show ?thesis
    proof (cases "pick_region rgs region a")
      case None
      with lt "1.prems"(1) unf show ?thesis by auto
    next
      case (Some rg)
      have rg: "rg \<in> set rgs"
        using Some "1.prems"(3) by (auto simp: pick_region_def find_Some_iff split: option.splits if_splits)
      define off where "off = a - gr_gpa_start rg"
      define po where "po = unat (off mod 0x1000)"
      define n where "n = min (min (4096 - po) (length data - copied)) (unat (gr_size rg - off))"
      show ?thesis
      proof (cases "page_at rg (unat (off div 0x1000))")
        case None
        with lt Some "1.prems"(1) unf show ?thesis by (auto simp: Let_def off_def)
      next
        case pg: (Some q)
        show ?thesis
        proof (cases q)
          case None
          with lt Some pg "1.prems"(1) unf show ?thesis by (auto simp: Let_def off_def)
        next
          case p: (Some p)
          let ?h = "h\<lparr>pmem := wr_bytes (pmem h) (p + word_of_nat po) (take n (drop copied data))\<rparr>"
          have "p \<in> ram_frames rgs"
            using rg pg p by (auto simp: ram_frames_def page_at_def split: option.splits if_splits) (metis nth_mem)
          moreover from this have "PAGE_ALIGNED p" using "1.prems"(2) by blast
          moreover have "po + length (take n (drop copied data)) \<le> 4096"
            using page_offset_less [of off] by (simp add: n_def po_def)
          ultimately have w: "pmem ?h x = pmem h x" if "page_base x \<notin> ram_frames rgs" for x
            using that wr_bytes_in_page [of p po "take n (drop copied data)" x "pmem h"] by auto
          have rec: "copy_to_loop rgs data (Some rg) (a + word_of_nat n) (copied + n) ?h = (r, h')"
            using "1.prems"(1) lt Some pg p unfolding unf by (simp add: Let_def n_def po_def off_def)
          have "pool h' = pool ?h \<and> kmem h' = kmem ?h \<and> (\<forall>x. page_base x \<notin> ram_frames rgs \<longrightarrow> pmem h' x = pmem ?h x)"
            by (rule "1.IH" [OF lt Some off_def _ po_def n_def pg p rec "1.prems"(2)]) (use rg in auto)
          with w show ?thesis by auto
        qed
      qed
    qed
  qed
qed

lemma copy_to_guest_local:
  assumes "relm_vm_copy_to_guest (Some mm) g (Some bs) h = (r, h')" and "\<forall>f\<in>ram_frames (mem_regions mm). PAGE_ALIGNED f"
  shows "pool h' = pool h \<and> kmem h' = kmem h \<and> (\<forall>x. page_base x \<notin> ram_frames (mem_regions mm) \<longrightarrow> pmem h' x = pmem h x)"
proof (cases "bs = []")
  case True
  with assms(1) show ?thesis by (auto simp: relm_vm_copy_to_guest_def)
next
  case False
  with assms(1) have "copy_to_loop (mem_regions mm) bs None g 0 h = (r, h')" by (simp add: relm_vm_copy_to_guest_def)
  from copy_to_loop_local [OF this assms(2)] show ?thesis by simp
qed

lemma create_tables_local:
  assumes run: "relm_ept_create_guest_page_tables (Some (mm, c)) a h = (r, p, h')"
    and al: "\<forall>f\<in>ram_frames (mem_regions mm). PAGE_ALIGNED f"
  shows "pool h' = pool h \<and> (\<forall>x. page_base x \<notin> ram_frames (mem_regions mm) \<longrightarrow> pmem h' x = pmem h x)"
    and "c \<noteq> None \<Longrightarrow> kmem h' = kmem (snd (kzalloc h))"
proof -
  have "pool h' = pool h \<and> (\<forall>x. page_base x \<notin> ram_frames (mem_regions mm) \<longrightarrow> pmem h' x = pmem h x) \<and>
    (c \<noteq> None \<longrightarrow> kmem h' = kmem (snd (kzalloc h)))"
  proof (cases c)
    case None
    with run show ?thesis by (simp add: relm_ept_create_guest_page_tables_def)
  next
    case (Some ept)
    obtain b h0 where k: "kzalloc h = (b, h0)" by force
    then have k0: "pool h0 = pool h" "pmem h0 = pmem h" using kzalloc_simps [of h] by simp_all
    let ?g = "total_guest_ram mm - 3 * 0x1000"
    obtain r1 h1 where 1: "relm_vm_copy_to_guest (Some mm) (?g + 2 * 0x1000) (Some pd_image) h0 = (r1, h1)" by force
    obtain r2 h2 where 2: "relm_vm_copy_to_guest (Some mm) (?g + 0x1000) (Some (link_image (?g + 2 * 0x1000))) h1 = (r2, h2)" by force
    obtain r3 h3 where 3: "relm_vm_copy_to_guest (Some mm) ?g (Some (link_image (?g + 0x1000))) h2 = (r3, h3)" by force
    note l = copy_to_guest_local [OF 1 al] copy_to_guest_local [OF 2 al] copy_to_guest_local [OF 3 al]
    have "h' = h0 \<or> h' = h1 \<or> h' = h2 \<or> h' = h3"
      using run Some k 1 2 3
      by (auto simp: relm_ept_create_guest_page_tables_def Let_def split: if_splits outcome.splits sum.splits)
    with l k0 k show ?thesis by auto
  qed
  then show "pool h' = pool h \<and> (\<forall>x. page_base x \<notin> ram_frames (mem_regions mm) \<longrightarrow> pmem h' x = pmem h x)"
    and "c \<noteq> None \<Longrightarrow> kmem h' = kmem (snd (kzalloc h))" by auto
qed

section \<open>What a back end promises about frames\<close>

locale vm_backend = paged_backend "mo_map_page mo" "mo_unmap_page mo" entry key ent inv tabs
  for mo :: "'c relm_mem_ops" and entry :: "'c option \<times> host \<Rightarrow> u64 \<Rightarrow> u64 option" and key :: "u64 \<Rightarrow> 'k"
    and ent :: "u64 \<Rightarrow> u64 \<Rightarrow> u64" and inv :: "'c option \<times> host \<Rightarrow> bool" and tabs :: "'c option \<times> host \<Rightarrow> u64 set" +
  assumes setup_ok: "host_ok h \<Longrightarrow> mo_setup mo h = (Inr (), c, h') \<Longrightarrow>
      inv (c, h') \<and> tabs (c, h') \<union> set (pool h') = set (pool h)"
    and setup_fail: "mo_setup mo h = (Inl e, c, h') \<Longrightarrow> pool h' = pool h"
    and kmem_tabs: "tabs (c, h\<lparr>kmem := bs\<rparr>) = tabs (c, h)"
    and free_keeps: "inv (c, h) \<Longrightarrow> frame_ok f \<Longrightarrow> f \<notin> tabs (c, h) \<union> set (pool h) \<Longrightarrow>
      inv (c, free_page f h) \<and> tabs (c, free_page f h) = tabs (c, h)"
    and write_keeps: "inv (c, h) \<Longrightarrow> (\<And>x. page_base x \<in> tabs (c, h) \<Longrightarrow> m x = pmem h x) \<Longrightarrow>
      inv (c, h\<lparr>pmem := m\<rparr>) \<and> tabs (c, h\<lparr>pmem := m\<rparr>) = tabs (c, h) \<and> entry (c, h\<lparr>pmem := m\<rparr>) = entry (c, h)"
    and destroy_frames: "inv (c, h) \<Longrightarrow> mo_destroy mo c h = (c', h') \<Longrightarrow>
      host_ok h' \<and> set (pool h') = tabs (c, h) \<union> set (pool h)"
    and tables_local: "mo_create_guest_page_tables mo (mm, c) a h = (r, p, h') \<Longrightarrow>
      (\<forall>f\<in>ram_frames (mem_regions mm). PAGE_ALIGNED f) \<Longrightarrow>
      pool h' = pool h \<and> (\<forall>x. page_base x \<notin> ram_frames (mem_regions mm) \<longrightarrow> pmem h' x = pmem h x)"
begin

text \<open>The page loop, whatever its outcome: the recorded pages, the tables and the pool share the frames that the
  tables and the pool had.\<close>

lemma alloc_pages_frames:
  assumes "alloc_ram_pages (mo_map_page mo) k i g0 fl pages s = (e, pages', s')" "inv s"
  shows "\<exists>new. pages' = pages @ new \<and> distinct new \<and> inv s' \<and> (\<forall>f\<in>set new. frame_ok f) \<and>
    set new \<union> tabs s' \<union> set (pool (snd s')) = tabs s \<union> set (pool (snd s)) \<and>
    set new \<inter> (tabs s' \<union> set (pool (snd s'))) = {} \<and> (e = None \<longrightarrow> length new = k)"
  using assms
proof (induction k arbitrary: i pages s)
  case 0
  then show ?case by auto
next
  case (Suc k)
  obtain c h where s: "s = (c, h)" by force
  show ?case
  proof (cases "pool h")
    case Nil
    with Suc.prems s show ?thesis by (intro exI [of _ "[]"]) auto
  next
    case p: (Cons f fs)
    define h1 where "h1 = h\<lparr>pool := fs, pmem := zero_page (pmem h) f\<rparr>"
    obtain res s1 where m: "mo_map_page mo (g0 + i * 0x1000) f fl (c, h1) = (res, s1)" by (metis surj_pair)
    have inv0: "inv (c, h)" using Suc.prems(2) s by simp
    have inv1: "inv (c, h1)" "tabs (c, h1) = tabs s" using take_page [OF inv0 p, folded h1_def] s by auto
    have inv2: "inv s1" using map_inv [OF inv1(1) m] .
    have hs: "f \<notin> tabs s" "f \<notin> set fs" "frame_ok f" using inv_host [OF inv0] p s by (auto simp: host_ok_def)
    have un1: "tabs s1 \<union> set (pool (snd s1)) = tabs s \<union> set fs"
      using map_frames [OF inv1(1) m] inv1(2) by (simp add: h1_def)
    have f1: "f \<notin> tabs s1 \<union> set (pool (snd s1))" using un1 hs by simp
    show ?thesis
    proof (cases res)
      case (Inl er)
      then have r: "pages' = pages" "s' = (fst s1, free_page f (snd s1))" "e = Some er"
        using Suc.prems(1) s p m by (auto simp: h1_def)
      have fk: "inv s'" "tabs s' = tabs s1" using free_keeps [of "fst s1" "snd s1" f] inv2 hs(3) f1 r(2) by auto
      have "tabs s' \<union> set (pool (snd s')) = tabs s \<union> set (pool (snd s))"
        using fk(2) un1 r(2) p s by (auto simp: free_page_def)
      with fk r show ?thesis by (intro exI [of _ "[]"]) simp
    next
      case (Inr u)
      then have rec: "alloc_ram_pages (mo_map_page mo) k (i + 1) g0 fl (pages @ [f]) s1 = (e, pages', s')"
        using Suc.prems(1) s p m by (auto simp: h1_def)
      from Suc.IH [OF rec inv2] obtain new where new: "pages' = (pages @ [f]) @ new" "distinct new" "inv s'"
        "\<forall>f\<in>set new. frame_ok f" "set new \<union> tabs s' \<union> set (pool (snd s')) = tabs s1 \<union> set (pool (snd s1))"
        "set new \<inter> (tabs s' \<union> set (pool (snd s'))) = {}" "e = None \<longrightarrow> length new = k" by blast
      have "f \<notin> set new" "f \<notin> tabs s'" "f \<notin> set (pool (snd s'))" using new(5) f1 by auto
      moreover have "set (f # new) \<union> tabs s' \<union> set (pool (snd s')) = tabs s \<union> set (pool (snd s))"
        using new(5) un1 p s by auto
      ultimately show ?thesis using new hs(3) by (intro exI [of _ "f # new"]) auto
    qed
  qed
qed

lemma free_list:
  assumes "inv (c, h)" "distinct fs" "\<forall>f\<in>set fs. frame_ok f" "set fs \<inter> (tabs (c, h) \<union> set (pool h)) = {}"
  shows "inv (c, fold free_page fs h) \<and> tabs (c, fold free_page fs h) = tabs (c, h) \<and>
    set (pool (fold free_page fs h)) = set fs \<union> set (pool h)"
  using assms
proof (induction fs arbitrary: h)
  case (Cons f fs)
  have fk: "inv (c, free_page f h)" "tabs (c, free_page f h) = tabs (c, h)"
    using free_keeps [OF Cons.prems(1), of f] Cons.prems by auto
  have p: "set (pool (free_page f h)) = insert f (set (pool h))" by (simp add: free_page_def)
  have "set fs \<inter> (tabs (c, free_page f h) \<union> set (pool (free_page f h))) = {}"
    unfolding fk(2) p using Cons.prems(2,4) by auto
  from Cons.IH [OF fk(1) _ _ this] Cons.prems(2,3) fk(2) p show ?case by auto
qed simp

text \<open>The one RAM region of a fresh VM is released page by page.\<close>

lemma free_one_region:
  assumes "gr_pages rg = Some (map Some ps)" "unat (gr_nr_pages rg) = length ps"
  shows "free_region rg h = fold free_page ps h"
proof -
  have "fold (\<lambda>i h. case map Some ps ! i of None \<Rightarrow> h | Some page \<Rightarrow> free_page page h) [0..<length ps] h =
      fold (\<lambda>i h. free_page (ps ! i) h) [0..<length ps] h"
    by (rule fold_cong) auto
  also have "\<dots> = fold free_page (map ((!) ps) [0..<length ps]) h" by (simp add: fold_map comp_def)
  finally show ?thesis using assms by (simp add: free_region_def map_nth)
qed

text \<open>What a VM holds: its RAM pages, apart from the tables and the pool, listed by its one region and mapped in
  order from guest address 0 on.\<close>

definition backs :: "'c relm_vm \<Rightarrow> u64 list \<Rightarrow> host \<Rightarrow> bool" where
  "backs v pages h \<longleftrightarrow> (length pages \<le> 2 ^ 36 \<longrightarrow>
     (\<forall>j<length pages. \<forall>g. key g = key (word_of_nat j * 0x1000) \<longrightarrow> entry (v_ctx v, h) g = Some (ent (pages ! j) 7)))"

definition holds :: "'c relm_vm \<Rightarrow> u64 list \<Rightarrow> host \<Rightarrow> bool" where
  "holds v pages h \<longleftrightarrow> backs v pages h \<and> inv (v_ctx v, h) \<and> distinct pages \<and> (\<forall>f\<in>set pages. frame_ok f) \<and>
     set pages \<inter> (tabs (v_ctx v, h) \<union> set (pool h)) = {} \<and>
     (mem_regions (v_memory v) = [] \<and> pages = [] \<and> total_guest_ram (v_memory v) = 0 \<or>
      (\<exists>rg. mem_regions (v_memory v) = [rg] \<and> gr_pages rg = Some (map Some pages) \<and> unat (gr_nr_pages rg) = length pages \<and>
         gr_gpa_start rg = 0 \<and> gr_size rg = total_guest_ram (v_memory v) \<and> unat (gr_size rg) = 4096 * length pages))"

lemma release_all:
  assumes "holds v pages h"
  shows "host_ok (out_free_memory mo v h) \<and>
    set (pool (out_free_memory mo v h)) = set pages \<union> tabs (v_ctx v, h) \<union> set (pool h)"
proof -
  have m: "snd (relm_vm_free_guest_mem (Some (v_memory v)) h) = fold free_page pages h"
    using assms by (auto simp: holds_def relm_vm_free_guest_mem_def free_one_region)
  have f: "inv (v_ctx v, fold free_page pages h)" "tabs (v_ctx v, fold free_page pages h) = tabs (v_ctx v, h)"
    "set (pool (fold free_page pages h)) = set pages \<union> set (pool h)"
    using free_list [of "v_ctx v" h pages] assms by (auto simp: holds_def)
  obtain c' h' where d: "mo_destroy mo (v_ctx v) (fold free_page pages h) = (c', h')" by force
  have "out_free_memory mo v h = h'" by (simp add: out_free_memory_def out_free_mmu_def m d)
  with destroy_frames [OF f(1) d] f(2,3) show ?thesis by auto
qed

lemma kzalloc_keeps:
  assumes "kzalloc h = (b, h')"
  shows "h' = h\<lparr>kmem := kmem h'\<rparr>"
  using assms by (cases "kmem h") (auto simp: kzalloc_def)

lemma holds_kmem: "holds v pages (h\<lparr>kmem := bs\<rparr>) = holds v pages h"
  by (simp add: holds_def backs_def kmem_inv kmem_tabs kmem_entry)

lemma vcpu_array_step:
  assumes v: "holds v pages h" and run: "create_vcpu_array mo v h = (r, h')"
  shows "r = Some None \<and> host_ok h' \<and> set (pool h') = set pages \<union> tabs (v_ctx v, h) \<union> set (pool h) \<or>
    (\<exists>v'. r = Some (Some v') \<and> holds v' pages h' \<and> set pages \<union> tabs (v_ctx v', h') \<union> set (pool h') =
       set pages \<union> tabs (v_ctx v, h) \<union> set (pool h) \<and> v_vcpus v' = Some (replicate (v_max_vcpus v') None) \<and>
       v_state v' = VM_STATE_INITIALIZED)"
proof -
  obtain b h0 where k: "kzalloc h = (b, h0)" by force
  have h0: "h0 = h\<lparr>kmem := kmem h0\<rparr>" by (rule kzalloc_keeps [OF k])
  have v0: "holds v pages h0" and t0: "tabs (v_ctx v, h0) = tabs (v_ctx v, h)" and p0: "pool h0 = pool h"
    using v by (subst h0, simp add: holds_kmem kmem_tabs)+
  show ?thesis
  proof (cases b)
    case True
    with run k v0 t0 p0 show ?thesis by (auto simp: create_vcpu_array_def holds_def backs_def)
  next
    case False
    with run k release_all [OF v0] t0 p0 show ?thesis by (auto simp: create_vcpu_array_def)
  qed
qed

lemma tables_step:
  assumes v: "holds v pages h" and run: "relm_vm_create_guest_page_tables mo (Some v) h = (r, vm', h')"
  shows "\<exists>v'. vm' = Some v' \<and> holds v' pages h' \<and> tabs (v_ctx v', h') = tabs (v_ctx v, h) \<and> pool h' = pool h \<and> v_ctx v' = v_ctx v"
proof -
  obtain p where t: "mo_create_guest_page_tables mo (v_memory v, v_ctx v) (v_pml4_gpa v) h = (r, p, h')"
    and vm': "vm' = Some (v\<lparr>v_pml4_gpa := p\<rparr>)"
    using run by (auto simp: relm_vm_create_guest_page_tables_def split: prod.splits)
  have rf: "ram_frames (mem_regions (v_memory v)) \<subseteq> set pages" using v by (auto simp: holds_def ram_frames_def)
  then have "\<forall>f\<in>ram_frames (mem_regions (v_memory v)). PAGE_ALIGNED f" using v by (auto simp: holds_def)
  from tables_local [OF t this] have l: "pool h' = pool h"
    "\<And>x. page_base x \<notin> set pages \<Longrightarrow> pmem h' x = pmem h x" using rf by auto
  have h': "h' = (h\<lparr>pmem := pmem h'\<rparr>)\<lparr>kmem := kmem h'\<rparr>" using l(1) by simp
  have w: "inv (v_ctx v, h\<lparr>pmem := pmem h'\<rparr>) \<and> tabs (v_ctx v, h\<lparr>pmem := pmem h'\<rparr>) = tabs (v_ctx v, h) \<and>
      entry (v_ctx v, h\<lparr>pmem := pmem h'\<rparr>) = entry (v_ctx v, h)"
    by (rule write_keeps) (use v l(2) in \<open>auto simp: holds_def\<close>)
  have "holds v pages (h\<lparr>pmem := pmem h'\<rparr>)" using v w by (simp add: holds_def backs_def)
  then have "holds v pages h'" "tabs (v_ctx v, h') = tabs (v_ctx v, h)"
    using w by (subst h', simp add: holds_kmem kmem_tabs)+
  with vm' l show ?thesis by (auto simp: holds_def backs_def)
qed

lemma ram_step:
  assumes v: "holds v [] h" and regs0: "mem_regions (v_memory v) = []" "total_guest_ram (v_memory v) = 0"
    and run: "relm_vm_allocate_guest_ram (mo_map_page mo) sz 0 (Some (v_memory v)) (v_ctx v, h) = (r, mm, c', h')"
  shows "(\<exists>e. r = Inl e \<and> inv (c', h') \<and> tabs (c', h') \<union> set (pool h') = tabs (v_ctx v, h) \<union> set (pool h)) \<or>
    (\<exists>mm' pages. r = Inr () \<and> mm = Some mm' \<and> holds (v\<lparr>v_memory := mm', v_ctx := c'\<rparr>) pages h' \<and>
       length pages = unat (PAGE_ALIGN sz div 0x1000) \<and>
       set pages \<union> tabs (c', h') \<union> set (pool h') = tabs (v_ctx v, h) \<union> set (pool h))"
proof -
  obtain b1 h1 b2 h2 where k: "kzalloc h = (b1, h1)" "kzalloc h1 = (b2, h2)" by (metis surj_pair)
  have 1: "h1 = h\<lparr>kmem := kmem h1\<rparr>" by (rule kzalloc_keeps [OF k(1)])
  have 2: "h2 = h1\<lparr>kmem := kmem h2\<rparr>" by (rule kzalloc_keeps [OF k(2)])
  have i: "inv (v_ctx v, h)" using v by (simp add: holds_def)
  have i1: "inv (v_ctx v, h1)" "tabs (v_ctx v, h1) = tabs (v_ctx v, h)" "pool h1 = pool h"
    using i by (subst 1, simp add: kmem_inv kmem_tabs)+
  have i2: "inv (v_ctx v, h2)" "tabs (v_ctx v, h2) = tabs (v_ctx v, h)" "pool h2 = pool h"
    using i1 by (subst 2, simp add: kmem_inv kmem_tabs)+
  let ?n = "unat (PAGE_ALIGN sz div 0x1000)"
  obtain e pages s' where al: "alloc_ram_pages (mo_map_page mo) ?n 0 0 7 [] (v_ctx v, h2) = (e, pages, s')" by (metis prod_cases3)
  from alloc_pages_frames [OF al i2(1)] have a: "distinct pages" "inv s'" "\<forall>f\<in>set pages. frame_ok f"
    "set pages \<union> tabs s' \<union> set (pool (snd s')) = tabs (v_ctx v, h) \<union> set (pool h)"
    "set pages \<inter> (tabs s' \<union> set (pool (snd s'))) = {}" "e = None \<longrightarrow> length pages = ?n"
    using i2 by auto
  have bk: "key g = key (word_of_nat j * 0x1000) \<Longrightarrow> entry s' g = Some (ent (pages ! j) 7)"
    if e: "e = None" and n: "length pages \<le> 2 ^ 36" and j: "j < length pages" for j g
  proof -
    have "alloc_ram_pages (mo_map_page mo) ?n 0 0 7 [] (v_ctx v, h2) = (None, pages, s')" using al e by simp
    from alloc_pages_success [OF this i2(1)] keys_inj [of 0 ?n] n a(6) e j
    show "key g = key (word_of_nat j * 0x1000) \<Longrightarrow> entry s' g = Some (ent (pages ! j) 7)" by (auto simp: PAGE_ALIGNED_def)
  qed
  have szp: "unat (PAGE_ALIGN sz) = 4096 * ?n"
    using page_align_unat [of sz] by (simp add: unat_offset) (metis mult.commute mult_div_mod_eq add.right_neutral)
  consider "\<not> b1" | "b1" "\<not> b2" | er where "b1" "b2" "e = Some er" | "b1" "b2" "e = None" by (cases e) auto
  then show ?thesis
  proof cases
    case 1
    with run k i1 show ?thesis by (auto simp: relm_vm_allocate_guest_ram_def Let_def)
  next
    case 2
    with run k i2 show ?thesis by (auto simp: relm_vm_allocate_guest_ram_def Let_def)
  next
    case 3
    with run k al have r: "r = Inl er" "c' = fst s'" "h' = fold free_page (rev pages) (snd s')"
      by (auto simp: relm_vm_allocate_guest_ram_def Let_def)
    have "inv (c', h') \<and> tabs (c', h') = tabs s' \<and> set (pool h') = set pages \<union> set (pool (snd s'))"
      using free_list [of "fst s'" "snd s'" "rev pages"] a r by simp
    with a(4) r show ?thesis by auto
  next
    case 4
    with run k al have "r = Inr ()" "(c', h') = s'" and mm: "mm = Some ((v_memory v)\<lparr>mem_regions := \<lparr>gr_gpa_start = 0,
        gr_size = PAGE_ALIGN sz, gr_pages = Some (map Some pages), gr_nr_pages = PAGE_ALIGN sz div 0x1000, gr_flags = 7\<rparr>
          # mem_regions (v_memory v), total_guest_ram := total_guest_ram (v_memory v) + PAGE_ALIGN sz\<rparr>)"
      by (auto simp: relm_vm_allocate_guest_ram_def Let_def)
    with a 4(3) regs0 bk szp show ?thesis by (intro disjI2) (auto simp: holds_def backs_def)
  qed
qed

text \<open>Creation: what a new VM holds, and what a failed creation returns. The RAM of a VM whose page tables could
  not be written is not released.\<close>

lemma create_vm_frames:
  assumes h: "host_ok h" and run: "relm_create_vm mo ops vid nm sz h = (Some r, h')"
  shows "case r of
      Some v \<Rightarrow> \<exists>pages. holds v pages h' \<and> set pages \<union> tabs (v_ctx v, h') \<union> set (pool h') = set (pool h) \<and>
        v_vcpus v = Some (replicate (v_max_vcpus v) None) \<and> v_state v = VM_STATE_INITIALIZED
    | None \<Rightarrow> host_ok h' \<and> (\<exists>pages. distinct pages \<and> set pages \<inter> set (pool h') = {} \<and> set pages \<union> set (pool h') = set (pool h) \<and>
        (pages = [] \<or> 0 < sz \<and> length pages = unat (PAGE_ALIGN sz div 0x1000)))"
proof -
  obtain b h0 where k: "kzalloc h = (b, h0)" by force
  have p0: "pool h0 = pool h" using k kzalloc_simps(1) [of h] by simp
  then have hk0: "host_ok h0" using h by (simp add: host_ok_def)
  show ?thesis
  proof (cases b)
    case False
    with run k p0 hk0 show ?thesis by (auto simp: relm_create_vm_def intro: exI [of _ "[]"])
  next
    case b: True
    obtain rs c h1 where st: "mo_setup mo h0 = (rs, c, h1)" by (metis prod_cases3)
    show ?thesis
    proof (cases rs)
      case (Inl e)
      with setup_fail [of h0] st have "pool h1 = pool h0" by auto
      with Inl run k b st p0 hk0 show ?thesis
        by (auto simp: relm_create_vm_def host_ok_def intro: exI [of _ "[]"])
    next
      case (Inr u)
      with setup_ok [OF hk0] st have i1: "inv (c, h1)" "tabs (c, h1) \<union> set (pool h1) = set (pool h)"
        using p0 by auto
      define v where "v = \<lparr>v_id = vid, v_name = vm_name_of vid nm, v_memory = blank_memory, v_max_vcpus = RELM_MAX_VCPUS,
        v_online_vcpus = 0, v_vcpus = None, v_state = VM_STATE_CREATED, v_ops = relm_vm_ops_merg ops, v_ctx = c, v_pml4_gpa = 0\<rparr>"
      have v0: "holds v [] h1" using i1 by (simp add: holds_def backs_def v_def blank_memory_def)
      show ?thesis
      proof (cases "0 < sz")
        case False
        then have "create_vcpu_array mo v h1 = (Some r, h')"
          using run k b st Inr by (simp add: relm_create_vm_def v_def)
        from vcpu_array_step [OF v0 this] i1(2) show ?thesis
          by (auto simp: v_def intro: exI [of _ "[]"] split: option.splits)
      next
        case True
        obtain ra mm c2 h2 where al: "relm_vm_allocate_guest_ram (mo_map_page mo) sz 0 (Some (v_memory v)) (v_ctx v, h1) = (ra, mm, c2, h2)"
          by (metis prod_cases4)
        note unf = relm_create_vm_def [of mo ops vid nm sz h]
        from ram_step [OF v0 _ _ al] consider
          e where "ra = Inl e" "inv (c2, h2)" "tabs (c2, h2) \<union> set (pool h2) = set (pool h)" |
          mm' pages where "ra = Inr ()" "mm = Some mm'" "holds (v\<lparr>v_memory := mm', v_ctx := c2\<rparr>) pages h2"
            "length pages = unat (PAGE_ALIGN sz div 0x1000)" "set pages \<union> tabs (c2, h2) \<union> set (pool h2) = set (pool h)"
          using i1(2) by (auto simp: v_def blank_memory_def)
        then show ?thesis
        proof cases
          case 1
          obtain c3 h3 where d: "mo_destroy mo c2 h2 = (c3, h3)" by force
          have "r = None" "h' = h3"
            using run k b st Inr True al 1(1) d by (auto simp: unf v_def out_free_mmu_def Let_def)
          with destroy_frames [OF 1(2) d] 1(3) show ?thesis by (auto intro: exI [of _ "[]"])
        next
          case 2
          let ?v = "v\<lparr>v_memory := mm', v_ctx := c2\<rparr>"
          obtain rt vm3 h3 where t: "relm_vm_create_guest_page_tables mo (Some ?v) h2 = (rt, vm3, h3)" by (metis prod_cases3)
          from tables_step [OF 2(3) t] obtain v3 where
            v3: "vm3 = Some v3" "holds v3 pages h3" "tabs (v_ctx v3, h3) = tabs (c2, h2)" "pool h3 = pool h2" "v_ctx v3 = c2" by auto
          have fr: "set pages \<union> tabs (v_ctx v3, h3) \<union> set (pool h3) = set (pool h)" using v3 2(5) by simp
          consider "rt = None" | e where "rt = Some (Inl e)" | u where "rt = Some (Inr u)" by (metis not_Some_eq old.sum.exhaust)
          then show ?thesis
          proof cases
            case 1
            with run k b st Inr True al 2(1,2) t v3(1) show ?thesis by (auto simp: unf v_def Let_def)
          next
            case (2 e)
            obtain c4 h4 where d: "mo_destroy mo c2 h3 = (c4, h4)" by force
            have "r = None" "h' = h4"
              using run k b st Inr True al \<open>ra = Inr ()\<close> \<open>mm = Some mm'\<close> t v3(1) 2 d by (auto simp: unf v_def out_free_mmu_def Let_def)
            moreover have "inv (c2, h3)" using v3(2,5) by (simp add: holds_def)
            note df = destroy_frames [OF this d]
            have "set pages \<inter> set (pool h4) = {}" using v3(2,5) df by (simp add: holds_def)
            ultimately show ?thesis
              using df fr v3(2,5) True \<open>length pages = _\<close> by (auto simp: holds_def intro!: exI [of _ pages])
          next
            case (3 u)
            have "create_vcpu_array mo v3 h3 = (Some r, h')"
              using run k b st Inr True al \<open>ra = Inr ()\<close> \<open>mm = Some mm'\<close> t v3(1) 3 by (simp add: unf v_def Let_def)
            from vcpu_array_step [OF v3(2) this] fr show ?thesis
              by (auto intro: exI [of _ pages] exI [of _ "[]"] split: option.splits)
          qed
        qed
      qed
    qed
  qed
qed

lemma create_destroy:
  assumes h: "host_ok h" and c: "relm_create_vm mo ops vid nm sz h = (Some (Some v), h1)"
    and d: "relm_destroy_vm mo fr (Some v) h1 = (st, h2)"
  shows "st = [] \<and> set (pool h2) = set (pool h) \<and> distinct (pool h2)"
proof -
  from create_vm_frames [OF h c] obtain pages where p: "holds v pages h1"
    "set pages \<union> tabs (v_ctx v, h1) \<union> set (pool h1) = set (pool h)" "v_vcpus v = Some (replicate (v_max_vcpus v) None)"
    by auto
  have "fold (destroy_vcpu fr) (replicate n None) s = s" for n s by (induction n) (simp_all add: destroy_vcpu_def)
  then have "st = []" "h2 = out_free_memory mo v h1"
    using d p(3) by (auto simp: relm_destroy_vm_def out_free_memory_def out_free_mmu_def Let_def split: prod.splits)
  with release_all [OF p(1)] p(2) show ?thesis by (simp add: host_ok_def)
qed

lemma create_failure:
  assumes h: "host_ok h" and c: "relm_create_vm mo ops vid nm sz h = (Some None, h')"
  shows "distinct (pool h') \<and> set (pool h') \<subseteq> set (pool h) \<and>
    card (set (pool h) - set (pool h')) \<in> {0, unat (PAGE_ALIGN sz div 0x1000)}"
proof -
  from create_vm_frames [OF h c] obtain pages where p: "host_ok h'" "distinct pages" "set pages \<inter> set (pool h') = {}"
    "set pages \<union> set (pool h') = set (pool h)" "pages = [] \<or> length pages = unat (PAGE_ALIGN sz div 0x1000)" by auto
  have "set (pool h) - set (pool h') = set pages" using p(3,4) by auto
  then have "card (set (pool h) - set (pool h')) = length pages" using p(2) by (simp add: distinct_card)
  with p show ?thesis by (auto simp: host_ok_def)
qed

lemma create_leak:
  assumes h: "host_ok h" and k: "kzalloc h = (True, h0)" and s: "mo_setup mo h0 = (Inr (), c, h1)" and sz: "0 < sz"
    and al: "relm_vm_allocate_guest_ram (mo_map_page mo) sz 0 (Some blank_memory) (c, h1) = (Inr (), Some mm, (c2, h2))"
    and t: "mo_create_guest_page_tables mo (mm, c2) 0 h2 = (Some (Inl e), p, h3)"
  shows "\<exists>h'. relm_create_vm mo ops vid nm sz h = (Some None, h') \<and>
    card (set (pool h) - set (pool h')) = unat (PAGE_ALIGN sz div 0x1000)"
proof -
  have p0: "pool h0 = pool h" using k kzalloc_simps(1) [of h] by simp
  then have hk0: "host_ok h0" using h by (simp add: host_ok_def)
  from setup_ok [OF hk0 s] have i1: "inv (c, h1)" "tabs (c, h1) \<union> set (pool h1) = set (pool h)" using p0 by auto
  define v where "v = \<lparr>v_id = vid, v_name = vm_name_of vid nm, v_memory = blank_memory, v_max_vcpus = RELM_MAX_VCPUS,
    v_online_vcpus = 0, v_vcpus = None, v_state = VM_STATE_CREATED, v_ops = relm_vm_ops_merg ops, v_ctx = c, v_pml4_gpa = 0\<rparr>"
  have v0: "holds v [] h1" using i1 by (simp add: holds_def backs_def v_def blank_memory_def)
  have alv: "relm_vm_allocate_guest_ram (mo_map_page mo) sz 0 (Some (v_memory v)) (v_ctx v, h1) = (Inr (), Some mm, c2, h2)"
    using al by (simp add: v_def)
  from ram_step [OF v0 _ _ alv] obtain pages where r: "holds (v\<lparr>v_memory := mm, v_ctx := c2\<rparr>) pages h2"
    "length pages = unat (PAGE_ALIGN sz div 0x1000)" "set pages \<union> tabs (c2, h2) \<union> set (pool h2) = set (pool h)"
    using i1(2) by (auto simp: v_def blank_memory_def)
  let ?v = "v\<lparr>v_memory := mm, v_ctx := c2\<rparr>"
  have tt: "relm_vm_create_guest_page_tables mo (Some ?v) h2 = (Some (Inl e), Some (?v\<lparr>v_pml4_gpa := p\<rparr>), h3)"
    using t by (simp add: relm_vm_create_guest_page_tables_def v_def)
  from tables_step [OF r(1) tt] have t3: "holds (?v\<lparr>v_pml4_gpa := p\<rparr>) pages h3" "tabs (c2, h3) = tabs (c2, h2)" "pool h3 = pool h2" by auto
  obtain c4 h4 where d: "mo_destroy mo c2 h3 = (c4, h4)" by force
  have "inv (c2, h3)" using t3(1) by (simp add: holds_def)
  note df = destroy_frames [OF this d]
  have "set pages \<inter> set (pool h4) = {}" using df t3(1) by (simp add: holds_def)
  then have "set (pool h) - set (pool h4) = set pages" using df t3(2,3) r(3) by auto
  moreover have "distinct pages" using r(1) by (simp add: holds_def)
  moreover have "relm_create_vm mo ops vid nm sz h = (Some None, h4)"
    using k s sz al tt d by (simp add: relm_create_vm_def v_def out_free_mmu_def)
  ultimately show ?thesis using r(2) by (simp add: distinct_card)
qed

lemma holds_views:
  assumes v: "holds v pages h" and a: "a < total_guest_ram (v_memory v)" and n: "length pages \<le> 2 ^ 36"
  obtains f d where "f \<in> set pages" "frame_ok f" "unat d < 4096" "EPT_PAGE_OFFSET a = d"
    "guest_hpa (mem_regions (v_memory v)) a = Some (f + d)" "entry (v_ctx v, h) a = Some (ent f 7)"
proof -
  have ne: "total_guest_ram (v_memory v) \<noteq> 0" using a by (auto simp: word_less_nat_alt)
  then obtain rg where rg: "mem_regions (v_memory v) = [rg]" "gr_pages rg = Some (map Some pages)" "gr_gpa_start rg = 0"
    "gr_size rg = total_guest_ram (v_memory v)" "unat (gr_size rg) = 4096 * length pages"
    using v by (auto simp: holds_def)
  define j where "j = unat (a div 0x1000)"
  define d where "d = a mod 0x1000"
  have d: "unat d < 4096" unfolding d_def by (rule page_offset_less)
  have j: "j < length pages" using a rg(4,5) by (auto simp: j_def unat_div word_less_nat_alt intro!: less_mult_imp_div_less)
  have aj: "a = 0 + word_of_nat j * 0x1000 + d" using word_div_mod_4096 [of a] by (simp add: j_def d_def)
  have z: "PAGE_ALIGNED 0" by (simp add: PAGE_ALIGNED_def)
  have off: "ept_path a = ept_path (word_of_nat j * 0x1000)" "EPT_PAGE_OFFSET a = d"
    using ept_path_offset [OF aligned_page_plus [OF z] d, of "word_of_nat j"] aj by simp_all
  show ?thesis
  proof (rule that)
    show "pages ! j \<in> set pages" "frame_ok (pages ! j)" using v j by (auto simp: holds_def)
    show "unat d < 4096" by (rule d)
    show "EPT_PAGE_OFFSET a = d" by (rule off(2))
    have "covers a rg" using a rg(3,4) by (simp add: covers_def)
    then show "guest_hpa (mem_regions (v_memory v)) a = Some (pages ! j + d)"
      using rg(1-3) j by (simp add: guest_hpa_def page_at_def flip: j_def d_def)
    have "key a = key (word_of_nat j * 0x1000)"
      using off(1) by (simp add: key_path)
    then show "entry (v_ctx v, h) a = Some (ent (pages ! j) 7)" using v j n by (auto simp: holds_def backs_def)
  qed
qed

lemma holds_length: "holds v pages h \<Longrightarrow> unat (total_guest_ram (v_memory v)) = 4096 * length pages"
  by (auto simp: holds_def)

end

section \<open>The two back ends\<close>

lemma tree_free_page:
  assumes "tree_ok P A L D r h" "frame_ok f" "f \<notin> tables P A D (pmem h) r \<union> set (pool h)"
  shows "tree_ok P A L D r (free_page f h)"
  using assms by (auto simp: tree_ok_def host_ok_def free_page_def radix_wf_def)

lemma rd64_same_page:
  assumes "PAGE_ALIGNED t" "unat i < 512" "\<And>x. page_base x = t \<Longrightarrow> m x = m' x"
  shows "rd64 m (slot t i) = rd64 m' (slot t i)"
  unfolding rd64_def
proof (rule arg_cong [where f = le_word], rule rd_bytes_eqI)
  fix k :: nat assume "k < 8"
  then show "m (slot t i + word_of_nat k) = m' (slot t i + word_of_nat k)"
    using assms page_base_word_byte [of "slot t i" k] by (simp add: frame_simps)
qed

lemma tree_write_outside:
  assumes ok: "tree_ok P A L D r h" and m: "\<And>x. page_base x \<in> tables P A D (pmem h) r \<Longrightarrow> m x = pmem h x" and D: "0 < D"
  shows "tree_ok P A L D r (h\<lparr>pmem := m\<rparr>)" "tables P A D m r = tables P A D (pmem h) r"
    "path_ok q \<Longrightarrow> length q = D \<Longrightarrow> leaf P A m r q = leaf P A (pmem h) r q"
proof -
  have wf: "radix_wf P A D (pmem h) r (set (pool h))" using ok by (simp add: tree_ok_def)
  have same: "rd64 m (slot t i) = rd64 (pmem h) (slot t i)" if "t \<in> tables P A D (pmem h) r" "unat i < 512" for t i
    using that wf m by (intro rd64_same_page) (auto simp: radix_wf_def)
  have w: "walk P A m r q = walk P A (pmem h) r q" if "path_ok q" "length q < D" for q
    using walk_agree [OF wf same, of q] that by simp
  show "tables P A D m r = tables P A D (pmem h) r" by (rule tables_agree) (rule w)
  show "tree_ok P A L D r (h\<lparr>pmem := m\<rparr>)"
    using ok radix_wf_agree [OF wf w] plain_agree [OF _ wf same, of L] by (auto simp: tree_ok_def host_ok_def)
  show "leaf P A m r q = leaf P A (pmem h) r q" if "path_ok q" "length q = D"
    using leaf_agree [OF wf same that D] by simp
qed

lemma ept_free_keeps:
  assumes "ept_state_ok (c, h)" "frame_ok f" "f \<notin> ept_tabs (c, h) \<union> set (pool h)"
  shows "ept_state_ok (c, free_page f h) \<and> ept_tabs (c, free_page f h) = ept_tabs (c, h)"
  using assms(1)
proof (cases rule: ept_state_cases)
  case (1 ept h' r)
  have "ept_tree r (free_page f h)" using tree_free_page [of ept_present ept_addr ept_large 4 r h f] 1 assms by (simp add: ept_ok_iff)
  with 1 show ?thesis by (simp add: ept_state_ok_def ept_tabs_def ept_ok_iff free_page_def)
qed

lemma ept_write_keeps:
  assumes "ept_state_ok (c, h)" "\<And>x. page_base x \<in> ept_tabs (c, h) \<Longrightarrow> m x = pmem h x"
  shows "ept_state_ok (c, h\<lparr>pmem := m\<rparr>) \<and> ept_tabs (c, h\<lparr>pmem := m\<rparr>) = ept_tabs (c, h) \<and>
    ept_state_entry (c, h\<lparr>pmem := m\<rparr>) = ept_state_entry (c, h)"
  using assms(1)
proof (cases rule: ept_state_cases)
  case (1 ept h' r)
  have tr: "ept_tree r h" using 1 by (simp add: ept_ok_iff)
  have m: "m x = pmem h x" if "page_base x \<in> ept_tables (pmem h) r" for x using assms(2) 1 that by simp
  note t = tree_write_outside [OF tr m, simplified]
  have "ept_mapped m r = ept_mapped (pmem h) r" using t(3) by (auto simp: ept_mapped_def)
  with 1 t show ?thesis by (simp add: ept_state_ok_def ept_tabs_def ept_ok_iff ept_state_entry_def ept_entry_Some fun_eq_iff)
qed

lemma ept_setup_frames:
  assumes "host_ok h" "relm_setup_ept cap h = (Inr (), c, h')"
  shows "ept_state_ok (c, h') \<and> ept_tabs (c, h') \<union> set (pool h') = set (pool h)"
proof -
  obtain ept where e: "c = Some ept" "ept_ok ept h'" "\<And>r. pml4 ept = Some r \<Longrightarrow> ept_tables (pmem h') r \<union> set (pool h') = set (pool h)"
    by (rule setup_ept_ok [OF assms]) blast
  moreover from e(2) obtain r where "pml4 ept = Some r" by (auto simp: ept_ok_def)
  ultimately show ?thesis by (simp add: ept_state_ok_def ept_tabs_def)
qed

lemma ept_setup_fails: "relm_setup_ept cap h = (Inl e, c, h') \<Longrightarrow> pool h' = pool h"
proof -
  assume r: "relm_setup_ept cap h = (Inl e, c, h')"
  obtain b h0 where k: "kzalloc h = (b, h0)" by force
  then have "pool h0 = pool h" using kzalloc_simps(1) [of h] by simp
  with r k show ?thesis
    by (auto simp: relm_setup_ept_def relm_ept_context_create_def get_zeroed_page_def split: if_splits list.splits)
qed

lemma ept_destroy_frames:
  assumes "ept_state_ok (c, h)" "vmx_mem_destroy c h = (c', h')"
  shows "host_ok h' \<and> set (pool h') = ept_tabs (c, h) \<union> set (pool h)"
  using assms(1)
proof (cases rule: ept_state_cases)
  case (1 ept h1 r)
  with ept_destroy_spec [OF 1(2,3)] assms(2) show ?thesis by (auto simp: vmx_mem_destroy_def)
qed

lemma ept_kmem_tabs: "ept_tabs (c, h\<lparr>kmem := bs\<rparr>) = ept_tabs (c, h)"
  by (simp add: ept_tabs_def split: option.split)

interpretation vmx_vm: vm_backend "vmx_mem_ops cap" ept_state_entry ept_path ept_mem_entry ept_state_ok ept_tabs for cap
proof (rule vm_backend.intro, goal_cases)
  case 1
  show ?case using vmx_paged.paged_backend_axioms by (simp add: vmx_mem_ops_def)
next
  case 2
  show ?case
    by (rule vm_backend_axioms.intro)
      (simp_all add: vmx_mem_ops_def ept_setup_frames ept_setup_fails ept_kmem_tabs ept_free_keeps ept_write_keeps
        ept_destroy_frames create_tables_local)
qed

lemma npt_setup_frames:
  assumes "host_ok h" "relm_setup_npt ecx edx h = (Inr (), c, h')"
  shows "npt_state_ok (c, h') \<and> npt_tabs (c, h') \<union> set (pool h') = set (pool h)"
proof -
  have "relm_npt_check_support ecx edx" using assms(2) by (auto simp: relm_setup_npt_def split: if_splits)
  from npt_setup_sim [OF this npt_support_pair, of h] assms(2)
  have "relm_setup_ept 0x104040 h = (Inr (), map_option npt_view c, h')" by (simp add: npt_outcome_def)
  from ept_setup_frames [OF assms(1) this] show ?thesis
    unfolding npt_state_view_simps npt_state_view_def by simp
qed

lemma npt_setup_fails: "relm_setup_npt ecx edx h = (Inl e, c, h') \<Longrightarrow> pool h' = pool h"
proof -
  assume r: "relm_setup_npt ecx edx h = (Inl e, c, h')"
  obtain b h0 where k: "kzalloc h = (b, h0)" by force
  then have "pool h0 = pool h" using kzalloc_simps(1) [of h] by simp
  with r k show ?thesis
    by (auto simp: relm_setup_npt_def relm_npt_context_create_def get_zeroed_page_def split: if_splits list.splits)
qed

lemma npt_destroy_frames:
  assumes "npt_state_ok (c, h)" "svm_mem_destroy c h = (c', h')"
  shows "host_ok h' \<and> set (pool h') = npt_tabs (c, h) \<union> set (pool h)"
proof -
  have "vmx_mem_destroy (map_option npt_view c) h = (None, h')"
    using assms(2) by (auto simp: vmx_mem_destroy_def svm_mem_destroy_def relm_npt_context_destroy_def
        relm_ept_context_destroy_def npt_free_table_eq split: option.splits)
  from ept_destroy_frames [OF _ this] assms(1) show ?thesis
    unfolding npt_state_view_simps npt_state_view_def by simp
qed

interpretation svm_vm: vm_backend "svm_mem_ops ecx edx" npt_state_entry ept_path npt_mem_entry npt_state_ok npt_tabs for ecx edx
proof (rule vm_backend.intro, goal_cases)
  case 1
  show ?case using svm_paged.paged_backend_axioms by (simp add: svm_mem_ops_def)
next
  case 2
  show ?case
  proof (rule vm_backend_axioms.intro, goal_cases)
    case (1 h c h')
    then show ?case using npt_setup_frames [of h ecx edx c h'] by (simp add: svm_mem_ops_def)
  next
    case (2 h e c h')
    then show ?case using npt_setup_fails [of ecx edx h e c h'] by (simp add: svm_mem_ops_def)
  next
    case (3 c h bs)
    show ?case unfolding npt_state_view_simps npt_state_view_def fst_conv snd_conv by (rule ept_kmem_tabs)
  next
    case (6 c h c' h')
    then show ?case using npt_destroy_frames [of c h c' h'] by (simp add: svm_mem_ops_def)
  next
    case (4 c h f)
    then show ?case unfolding npt_state_view_simps npt_state_view_def fst_conv snd_conv by (rule ept_free_keeps)
  next
    case (5 c h m)
    then show ?case unfolding npt_state_view_simps npt_state_view_def fst_conv snd_conv by (rule ept_write_keeps)
  next
    case (7 mm c a h r p h')
    then have "relm_ept_create_guest_page_tables (Some (mm, map_option npt_view c)) a h = (r, p, h')"
      by (simp add: svm_mem_ops_def npt_create_tables_eq)
    from create_tables_local(1) [OF this 7(2)] show ?case .
  qed
qed

section \<open>Properties\<close>

text \<open>(C5) Creating a VM and destroying it gives the page allocator back exactly the frames it had, each once: the
  guest RAM, every extended-page-table page and nothing else.\<close>

theorem vm_create_destroy_exact:
  assumes "host_ok h" and "relm_create_vm (vmx_mem_ops cap) ops vid nm sz h = (Some (Some v), h1)"
    and "relm_destroy_vm (vmx_mem_ops cap) fr (Some v) h1 = (st, h2)"
  shows "st = [] \<and> set (pool h2) = set (pool h) \<and> distinct (pool h2)"
  using assms by (rule vmx_vm.create_destroy)

text \<open>The same holds of a VM on nested page tables.\<close>

lemma svm_create_destroy_exact:
  assumes "host_ok h" and "relm_create_vm (svm_mem_ops ecx edx) ops vid nm sz h = (Some (Some v), h1)"
    and "relm_destroy_vm (svm_mem_ops ecx edx) fr (Some v) h1 = (st, h2)"
  shows "st = [] \<and> set (pool h2) = set (pool h) \<and> distinct (pool h2)"
  using assms by (rule svm_vm.create_destroy)

definition demo_bare_host :: host where
  "demo_bare_host = \<lparr>pool = [0x1000, 0x2000, 0x3000, 0x4000, 0x5000], kmem = [True, True, True, True, True], pmem = (\<lambda>_. 0)\<rparr>"

lemma demo_bare_ok: "host_ok demo_bare_host"
  by (simp add: host_ok_def demo_bare_host_def frame_ok_def PAGE_ALIGNED_def)

theorem vm_create_destroy_exact_witness:
  "\<exists>v h1. relm_create_vm (vmx_mem_ops 0x104040) vmx_vm_ops 1 None 0 demo_bare_host = (Some (Some v), h1) \<and>
     set (pool (snd (relm_destroy_vm (vmx_mem_ops 0x104040) (\<lambda>_ h. h) (Some v) h1))) = {0x1000, 0x2000, 0x3000, 0x4000, 0x5000}"
proof -
  have "\<exists>v h1. relm_create_vm (vmx_mem_ops 0x104040) vmx_vm_ops 1 None 0 demo_bare_host = (Some (Some v), h1)"
    by (simp add: relm_create_vm_def demo_bare_host_def vmx_mem_ops_def relm_setup_ept_def relm_ept_check_support_def
        relm_ept_context_create_def kzalloc_def create_vcpu_array_def Let_def)
  then obtain v h1 where c: "relm_create_vm (vmx_mem_ops 0x104040) vmx_vm_ops 1 None 0 demo_bare_host = (Some (Some v), h1)" by blast
  obtain st h2 where d: "relm_destroy_vm (vmx_mem_ops 0x104040) (\<lambda>_ h. h) (Some v) h1 = (st, h2)" by force
  from vm_create_destroy_exact [OF demo_bare_ok c d] c d show ?thesis by (auto simp: demo_bare_host_def)
qed



text \<open>The RAM is lost whenever the guest page tables cannot be written: the error path then goes to the label
  that releases the extended page tables only, and every page of guest RAM leaks.\<close>

theorem vm_create_leaks_ram:
  assumes "host_ok h" and "kzalloc h = (True, h0)" and "relm_setup_ept cap h0 = (Inr (), c, h1)" and "0 < sz"
    and "relm_vm_allocate_guest_ram vmx_map_op sz 0 (Some blank_memory) (c, h1) = (Inr (), Some mm, (c2, h2))"
    and "relm_ept_create_guest_page_tables (Some (mm, c2)) 0 h2 = (Some (Inl e), p, h3)"
  shows "\<exists>h'. relm_create_vm (vmx_mem_ops cap) ops vid nm sz h = (Some None, h') \<and>
    card (set (pool h) - set (pool h')) = unat (PAGE_ALIGN sz div 0x1000)"
  by (rule vmx_vm.create_leak [OF assms(1,2) _ assms(4)]) (use assms in \<open>simp_all add: vmx_mem_ops_def\<close>)

lemma demo_bare_allocate:
  "\<exists>mm c2 h2. relm_vm_allocate_guest_ram vmx_map_op 0x1000 0 (Some blank_memory) demo_state = (Inr (), Some mm, (c2, h2)) \<and> kmem h2 = [] \<and> c2 \<noteq> None"
proof -
  obtain s' where m: "vmx_map_op 0 0x2000 7 (Some demo_ept,
     demo_host1\<lparr>kmem := [], pool := [0x3000, 0x4000, 0x5000], pmem := zero_page (pmem demo_host1) 0x2000\<rparr>) = (Inr (), s')"
    using demo_first_page by blast
  have "ept_ok demo_ept (demo_host1\<lparr>kmem := [], pool := [0x3000, 0x4000, 0x5000], pmem := zero_page (pmem demo_host1) 0x2000\<rparr>)"
    (is "ept_ok _ ?h")
  proof -
    have "ept_state_ok (Some demo_ept, demo_host1\<lparr>kmem := []\<rparr>)"
      using demo_ept_ok vmx_guest.kmem_inv [where c = "Some demo_ept" and h = demo_host1 and bs = "[]"] by (simp add: ept_state_ok_def)
    from vmx_guest.take_page [OF this, of "0x2000" "[0x3000, 0x4000, 0x5000]"] show ?thesis
      by (simp add: ept_state_ok_def demo_host1_def)
  qed
  from ept_map_page_spec [OF this, of 0 "0x2000" "ept_flags_of 7" "Inr ()" "fst s'" "snd s'"] m
  have "kmem (snd s') = []" "fst s' \<noteq> None" by (auto simp: vmx_map_op_def vmx_mem_map_page_def)
  with m show ?thesis
    by (cases s') (simp add: relm_vm_allocate_guest_ram_def demo_state_def kzalloc_def demo_host1_def PAGE_ALIGN_def Let_def)
qed

theorem vm_create_leaks_ram_witness:
  "\<exists>h'. relm_create_vm (vmx_mem_ops 0x104040) vmx_vm_ops 1 None 0x1000 (demo_bare_host\<lparr>kmem := [True, True, True, True]\<rparr>) = (Some None, h') \<and>
     card (set (pool demo_bare_host) - set (pool h')) = 1"
proof -
  let ?h = "demo_bare_host\<lparr>kmem := [True, True, True, True]\<rparr>" and ?hz = "demo_bare_host\<lparr>kmem := [True, True, True]\<rparr>"
  obtain mm c2 h2 where a: "relm_vm_allocate_guest_ram vmx_map_op 0x1000 0 (Some blank_memory) demo_state = (Inr (), Some mm, (c2, h2))"
    and k: "kmem h2 = []" and c: "c2 \<noteq> None" using demo_bare_allocate by blast
  have ok: "host_ok ?h" using demo_bare_ok by (simp add: host_ok_def)
  have kz: "kzalloc ?h = (True, ?hz)" by (simp add: kzalloc_def demo_bare_host_def)
  have st: "relm_setup_ept 0x104040 ?hz = (Inr (), fst demo_state, snd demo_state)"
    by (simp add: relm_setup_ept_def relm_ept_check_support_def relm_ept_context_create_def kzalloc_def
        demo_bare_host_def demo_state_def demo_ept_def demo_host1_def demo_host_def)
  from c obtain ept2 where "c2 = Some ept2" by blast
  then have t: "relm_ept_create_guest_page_tables (Some (mm, c2)) 0 h2 = (Some (Inl ENOMEM), 0, h2)"
    using k by (simp add: relm_ept_create_guest_page_tables_def kzalloc_def Let_def)
  from vm_create_leaks_ram [OF ok kz st _ _ t, of "0x1000" vmx_vm_ops 1 None] a show ?thesis
    by (simp add: PAGE_ALIGN_def)
qed

section \<open>Enough memory is enough\<close>

lemma get_or_create_uses:
  assumes "relm_ept_get_or_create_table a h = (Some t, h')"
  shows "length (pool h) \<le> Suc (length (pool h'))"
  using assms get_or_create_simps [of h a] by (cases "ept_present (rd64 (pmem h) a)"; cases "pool h") auto

lemma ept_map_page_uses:
  assumes "relm_ept_map_page gpa hpa flags (Some ept) h = (Inr (), c', h')"
  shows "length (pool h) \<le> length (pool h') + 3"
proof -
  from assms obtain r t1 h1 t2 h2 t3 h3 where
    1: "relm_ept_get_or_create_table (slot r (EPT_PML4_INDEX gpa)) h = (Some t1, h1)" and
    2: "relm_ept_get_or_create_table (slot t1 (EPT_PDPT_INDEX gpa)) h1 = (Some t2, h2)" and
    3: "relm_ept_get_or_create_table (slot t2 (EPT_PD_INDEX gpa)) h2 = (Some t3, h3)" and p: "pool h' = pool h3"
    by (auto simp: relm_ept_map_page_def Let_def split: option.splits if_splits prod.splits)
  show ?thesis using get_or_create_uses [OF 1] get_or_create_uses [OF 2] get_or_create_uses [OF 3] p by simp
qed

lemma vmx_alloc_succeeds:
  assumes "ept_state_ok (c, h)" "PAGE_ALIGNED g0" "4 * k \<le> length (pool h)"
  shows "\<exists>pages' c' h'. alloc_ram_pages vmx_map_op k i g0 7 pages (c, h) = (None, pages', (c', h')) \<and> kmem h' = kmem h \<and>
    length (pool h) \<le> 4 * k + length (pool h')"
  using assms
proof (induction k arbitrary: i pages c h)
  case (Suc k)
  then obtain f fs where p: "pool h = f # fs" by (cases "pool h") auto
  define h1 where "h1 = h\<lparr>pool := fs, pmem := zero_page (pmem h) f\<rparr>"
  have i1: "ept_state_ok (c, h1)" using vmx_guest.take_page [OF Suc.prems(1) p] by (simp add: h1_def)
  then obtain ept r where e: "c = Some ept" "ept_ok ept h1" "pml4 ept = Some r" by (cases rule: ept_state_cases) auto
  have fr: "frame_ok f" using vmx_guest.inv_host [OF Suc.prems(1)] p by (simp add: host_ok_def)
  have "\<exists>c' h'. relm_ept_map_page (g0 + i * 0x1000) f (ept_flags_of 7) (Some ept) h1 = (Inr (), c', h')"
    by (rule ept_map_page_succeeds [OF e(3)])
      (use Suc.prems(2,3) fr p aligned_page_plus in \<open>auto simp: ept_flags_of_def h1_def\<close>)
  then obtain c2 h2 where m: "relm_ept_map_page (g0 + i * 0x1000) f (ept_flags_of 7) (Some ept) h1 = (Inr (), c2, h2)" by blast
  have k2: "kmem h2 = kmem h" "ept_state_ok (c2, h2)"
    using ept_map_page_spec [OF e(2) m] by (auto simp: h1_def ept_state_ok_def)
  have u: "length (pool h) \<le> 4 + length (pool h2)" using ept_map_page_uses [OF m] p by (simp add: h1_def)
  then have "4 * k \<le> length (pool h2)" using Suc.prems(3) by simp
  from Suc.IH [OF k2(2) Suc.prems(2) this, of "i + 1" "pages @ [f]"] obtain pages' c' h' where
    "alloc_ram_pages vmx_map_op k (i + 1) g0 7 (pages @ [f]) (c2, h2) = (None, pages', (c', h'))" "kmem h' = kmem h"
    "length (pool h2) \<le> 4 * k + length (pool h')" using k2(1) by auto
  moreover have "vmx_map_op (g0 + i * 0x1000) f 7 (c, h1) = (Inr (), c2, h2)" using m e(1) by (simp add: vmx_map_op_def vmx_mem_map_page_def)
  ultimately show ?case using p u by (simp add: h1_def)
qed simp

lemma vmx_ram_backed:
  assumes v: "vmx_vm.holds v pages h" and a: "a < total_guest_ram (v_memory v)"
  shows "guest_hpa (mem_regions (v_memory v)) a \<noteq> None"
proof -
  have ne: "total_guest_ram (v_memory v) \<noteq> 0" using a by (auto simp: word_less_nat_alt)
  then obtain rg where rg: "mem_regions (v_memory v) = [rg]" "gr_pages rg = Some (map Some pages)" "gr_gpa_start rg = 0"
    "gr_size rg = total_guest_ram (v_memory v)" "unat (gr_size rg) = 4096 * length pages"
    using v by (auto simp: vmx_vm.holds_def)
  have j: "unat (a div 0x1000) < length pages"
    using a rg(4,5) by (auto simp: unat_div word_less_nat_alt intro!: less_mult_imp_div_less)
  have "covers a rg" using a rg(3,4) by (simp add: covers_def)
  with rg j show ?thesis by (simp add: guest_hpa_def page_at_def)
qed

lemma vmx_ram_ok: "vmx_vm.holds v pages h \<Longrightarrow> ram_ok (mem_regions (v_memory v))"
  by (auto simp: vmx_vm.holds_def ram_ok_def)

lemma top_pages_backed:
  assumes r: "vmx_vm.holds v pages h" and sz: "0x3000 \<le> total_guest_ram (v_memory v)" and i: "i < 0x3000"
  shows "guest_hpa (mem_regions (v_memory v)) (total_guest_ram (v_memory v) - 0x3000 + word_of_nat i) \<noteq> None"
proof (rule vmx_ram_backed [OF r])
  let ?t = "total_guest_ram (v_memory v)"
  have u: "unat (?t - 0x3000) = unat ?t - 0x3000" "0x3000 \<le> unat ?t"
    using sz by (simp_all add: unat_sub word_le_nat_alt)
  have "unat (?t - 0x3000 + word_of_nat i) \<le> unat (?t - 0x3000) + unat (word_of_nat i :: u64)"
    by (simp only: unat_word_ariths mod_less_eq_dividend)
  with u i show "?t - 0x3000 + word_of_nat i < ?t" by (simp add: unat_word_of_nat_small word_less_nat_alt)
qed

lemma create_vm_enough:
  assumes h: "host_ok h" and km: "kmem h = True # True # True # True # True # True # ks" and cap: "relm_ept_check_support cap"
    and sz: "0x3000 \<le> PAGE_ALIGN sz" and pl: "4 * unat (PAGE_ALIGN sz div 0x1000) + 1 \<le> length (pool h)"
  shows "\<exists>v h1. relm_create_vm (vmx_mem_ops cap) ops vid nm sz h = (Some (Some v), h1) \<and> v_state v = VM_STATE_INITIALIZED \<and>
    total_guest_ram (v_memory v) = PAGE_ALIGN sz \<and> v_pml4_gpa v = PAGE_ALIGN sz - 0x3000 \<and>
    length (pool h) \<le> 4 * unat (PAGE_ALIGN sz div 0x1000) + 1 + length (pool h1)"
proof -
  let ?n = "unat (PAGE_ALIGN sz div 0x1000)"
  have sz0: "0 < sz" using sz by (auto simp: word_gt_0 PAGE_ALIGN_def)
  define ha where "ha = h\<lparr>kmem := True # True # True # True # True # ks\<rparr>"
  have k0: "kzalloc h = (True, ha)" by (simp add: kzalloc_def km ha_def)
  obtain root fs where pr: "pool h = root # fs" using pl by (cases "pool h") auto
  define hb where "hb = h\<lparr>kmem := True # True # True # True # ks, pool := fs, pmem := zero_page (pmem h) root\<rparr>"
  obtain c where st: "relm_setup_ept cap ha = (Inr (), c, hb)"
    using cap pr by (auto simp: relm_setup_ept_def relm_ept_context_create_def kzalloc_def ha_def hb_def)
  have hka: "host_ok ha" using h by (simp add: host_ok_def ha_def)
  note i1 = ept_setup_frames [OF hka st]
  define hd where "hd = hb\<lparr>kmem := True # True # ks\<rparr>"
  have kb: "kzalloc hb = (True, hb\<lparr>kmem := True # True # True # ks\<rparr>)"
    "kzalloc (hb\<lparr>kmem := True # True # True # ks\<rparr>) = (True, hd)" by (simp_all add: kzalloc_def hb_def hd_def)
  have "ept_state_ok (c, hd)" using i1 vmx_guest.kmem_inv by (simp add: hd_def)
  moreover have "4 * ?n \<le> length (pool hd)" using pl pr by (simp add: hd_def hb_def)
  moreover have "PAGE_ALIGNED 0" by (simp add: PAGE_ALIGNED_def)
  ultimately obtain pages c2 h2 where al: "alloc_ram_pages vmx_map_op ?n 0 0 7 [] (c, hd) = (None, pages, (c2, h2))" "kmem h2 = True # True # ks"
      "length (pool hd) \<le> 4 * ?n + length (pool h2)"
    using vmx_alloc_succeeds [of c hd 0 ?n 0 "[]"] by (auto simp: hd_def)
  define mm where "mm = blank_memory\<lparr>mem_regions := [\<lparr>gr_gpa_start = 0, gr_size = PAGE_ALIGN sz, gr_pages = Some (map Some pages),
    gr_nr_pages = PAGE_ALIGN sz div 0x1000, gr_flags = 7\<rparr>], total_guest_ram := PAGE_ALIGN sz\<rparr>"
  have ra: "relm_vm_allocate_guest_ram vmx_map_op sz 0 (Some blank_memory) (c, hb) = (Inr (), Some mm, (c2, h2))"
    using kb al(1) by (simp add: relm_vm_allocate_guest_ram_def mm_def blank_memory_def Let_def)
  define v where "v = \<lparr>v_id = vid, v_name = vm_name_of vid nm, v_memory = blank_memory, v_max_vcpus = RELM_MAX_VCPUS,
    v_online_vcpus = 0, v_vcpus = None, v_state = VM_STATE_CREATED, v_ops = relm_vm_ops_merg ops, v_ctx = c, v_pml4_gpa = 0\<rparr>"
  let ?v = "v\<lparr>v_memory := mm, v_ctx := c2\<rparr>"
  have v0: "vmx_vm.holds v [] hb" using i1 by (simp add: vmx_vm.holds_def vmx_vm.backs_def v_def blank_memory_def)
  have "relm_vm_allocate_guest_ram (mo_map_page (vmx_mem_ops cap)) sz 0 (Some (v_memory v)) (v_ctx v, hb) = (Inr (), Some mm, c2, h2)"
    using ra by (simp add: vmx_mem_ops_def v_def)
  from vmx_vm.ram_step [OF v0 _ _ this] obtain ps where r: "vmx_vm.holds ?v ps h2" by (auto simp: v_def blank_memory_def)
  have "ept_state_ok (c2, h2)" using r by (simp add: vmx_vm.holds_def)
  then obtain ept2 where c2: "c2 = Some ept2" by (auto simp: ept_state_ok_def split: option.splits)
  have bk: "guest_hpa (mem_regions mm) (total_guest_ram mm - 0x3000 + word_of_nat i) \<noteq> None" if "i < 0x3000" for i
    using top_pages_backed [OF r _ that] sz by (simp add: mm_def)
  have k2: "kzalloc h2 = (True, h2\<lparr>kmem := True # ks\<rparr>)" using al(2) by (simp add: kzalloc_def)
  obtain h3 where t: "relm_ept_create_guest_page_tables (Some (mm, Some ept2)) 0 h2 = (Some (Inr ()), total_guest_ram mm - 0x3000, h3)"
    using create_tables_succeeds [OF vmx_ram_ok [OF r, simplified] k2 bk] by auto
  have "\<forall>f\<in>ram_frames (mem_regions mm). PAGE_ALIGNED f" using r by (auto simp: vmx_vm.holds_def ram_frames_def)
  from create_tables_local(2) [OF t this] create_tables_local(1) [OF t this] have "kmem h3 = True # ks" and p3: "pool h3 = pool h2" by (simp_all add: k2)
  then have k3: "kzalloc h3 = (True, h3\<lparr>kmem := ks\<rparr>)" by (simp add: kzalloc_def)
  have "relm_vm_create_guest_page_tables (vmx_mem_ops cap) (Some ?v) h2 =
      (Some (Inr ()), Some (?v\<lparr>v_pml4_gpa := total_guest_ram mm - 0x3000\<rparr>), h3)"
    using t c2 by (simp add: relm_vm_create_guest_page_tables_def vmx_mem_ops_def v_def)
  moreover have "length (pool h) \<le> 4 * ?n + 1 + length (pool h2)" using al(3) pr by (simp add: hd_def hb_def)
  ultimately show ?thesis
    using k0 st sz0 ra k3 p3 by (simp add: relm_create_vm_def vmx_mem_ops_def v_def create_vcpu_array_def) (simp add: mm_def)
qed

text \<open>(C15) With enough free memory the creation of a VM succeeds: four frames per page of RAM and one for the root, and
  six slab allocations, are enough for any RAM of at least three pages. The guest page tables lie in the last three
  pages of RAM.\<close>

theorem vm_create_succeeds:
  assumes h: "host_ok h" and km: "kmem h = True # True # True # True # True # True # ks" and cap: "relm_ept_check_support cap"
    and sz: "0x3000 \<le> PAGE_ALIGN sz" and pl: "4 * unat (PAGE_ALIGN sz div 0x1000) + 1 \<le> length (pool h)"
  shows "\<exists>v h1. relm_create_vm (vmx_mem_ops cap) ops vid nm sz h = (Some (Some v), h1) \<and> v_state v = VM_STATE_INITIALIZED \<and>
    total_guest_ram (v_memory v) = PAGE_ALIGN sz \<and> v_pml4_gpa v = PAGE_ALIGN sz - 0x3000"
  using create_vm_enough [OF assms] by blast

definition demo_vm_host :: host where
  "demo_vm_host = \<lparr>pool = [0x1000, 0x2000, 0x3000, 0x4000, 0x5000, 0x6000, 0x7000, 0x8000, 0x9000, 0xA000, 0xB000, 0xC000, 0xD000],
     kmem = [True, True, True, True, True, True], pmem = (\<lambda>_. 0)\<rparr>"

lemma demo_vm_host_ok: "host_ok demo_vm_host"
  by (simp add: host_ok_def demo_vm_host_def frame_ok_def PAGE_ALIGNED_def)

theorem vm_create_succeeds_witness:
  "\<exists>v h1. relm_create_vm (vmx_mem_ops 0x104040) vmx_vm_ops 1 None 0x3000 demo_vm_host = (Some (Some v), h1) \<and>
     total_guest_ram (v_memory v) = 0x3000 \<and> v_pml4_gpa v = 0"
  using vm_create_succeeds [OF demo_vm_host_ok, of "[]" "0x104040" "0x3000" vmx_vm_ops 1 None]
  by (simp add: demo_vm_host_def relm_ept_check_support_def PAGE_ALIGN_def) blast

end
