(* ===== verification/Relm_Iommu.thy ===== *)
theory Relm_Iommu
  imports Relm_Vm
begin

text \<open>
  The IOMMU domain of a VM (src/core/iommu.c, include/relm/iommu.h): creation, the mirror of guest RAM, single
  mappings with their page counter, passed-through devices with their references, teardown. The
  kernel's IOMMU interface is code outside the repository: its functions are the record \<open>iommu_api\<close>,
  an argument of every definition, over an arbitrary type of domains. What the theorems use of it is
  \<open>iommu_map_spec\<close>, the documented effect of a successful \<open>iommu_map\<close> on the translation of a domain.
\<close>

section \<open>Data\<close>

record 'd iommu_api =
  k_iommu_present :: bool
  k_iommu_domain_alloc :: "'d option"
  k_iommu_map :: "u64 \<Rightarrow> u64 \<Rightarrow> u64 \<Rightarrow> u32 \<Rightarrow> 'd \<Rightarrow> unit res \<times> 'd"
  k_iommu_unmap :: "u64 \<Rightarrow> u64 \<Rightarrow> 'd \<Rightarrow> u64 \<times> 'd"
  k_iommu_attach_device :: "nat \<Rightarrow> 'd \<Rightarrow> unit res \<times> 'd"
  k_iommu_detach_device :: "nat \<Rightarrow> 'd \<Rightarrow> 'd"

record 'd relm_iommu_context =
  io_domain :: "'d option"
  io_devices :: "nat list"
  io_n_devs :: u32
  io_enabled :: bool
  io_n_mapped_pages :: u64
  io_fault_count :: u64

text \<open>PCI devices are numbers; their reference counts are kernel state.\<close>

type_synonym pci_refs = "nat \<Rightarrow> int"

abbreviation (input) IOMMU_READ :: u32 where "IOMMU_READ \<equiv> 1"
abbreviation (input) IOMMU_WRITE :: u32 where "IOMMU_WRITE \<equiv> 2"
abbreviation (input) IOMMU_CACHE :: u32 where "IOMMU_CACHE \<equiv> 4"

definition pci_dev_get :: "nat \<Rightarrow> pci_refs \<Rightarrow> pci_refs" where "pci_dev_get d rf = rf(d := rf d + 1)"
definition pci_dev_put :: "nat \<Rightarrow> pci_refs \<Rightarrow> pci_refs" where "pci_dev_put d rf = rf(d := rf d - 1)"

section \<open>Operations\<close>

definition relm_iommu_fault_handler :: "'d relm_iommu_context \<Rightarrow> unit res \<times> 'd relm_iommu_context" where
  "relm_iommu_fault_handler io = (Inl ENOSYS, io\<lparr>io_fault_count := io_fault_count io + 1\<rparr>)"

definition relm_iommu_init :: "'d iommu_api \<Rightarrow> 'd relm_iommu_context \<Rightarrow> unit res \<times> 'd relm_iommu_context" where
  "relm_iommu_init api io =
     (if \<not> k_iommu_present api then (Inl ENODEV, io)
      else let io = io\<lparr>io_domain := k_iommu_domain_alloc api\<rparr> in
      if io_domain io = None then (Inl ENOMEM, io)
      else (Inr (), io\<lparr>io_devices := [], io_n_devs := 0, io_enabled := True, io_n_mapped_pages := 0, io_fault_count := 0\<rparr>))"

text \<open>Detaching runs over the list; the domain is freed afterwards. The second result is the domain
  as the kernel gets it back.\<close>

definition relm_iommu_destroy :: "'d iommu_api \<Rightarrow> 'd relm_iommu_context \<Rightarrow> pci_refs
    \<Rightarrow> 'd relm_iommu_context \<times> 'd option \<times> pci_refs" where
  "relm_iommu_destroy api io rf =
     (if \<not> io_enabled io then (io, None, rf)
      else case io_domain io of None \<Rightarrow> (io, None, rf)
      | Some d \<Rightarrow>
        let (d, rf) = fold (\<lambda>dev (d, rf). (k_iommu_detach_device api dev d, pci_dev_put dev rf)) (io_devices io) (d, rf)
        in (io\<lparr>io_devices := [], io_n_devs := 0, io_domain := None, io_enabled := False\<rparr>, Some d, rf))"

definition relm_iommu_map :: "'d iommu_api \<Rightarrow> u64 \<Rightarrow> u64 \<Rightarrow> u64 \<Rightarrow> bool \<Rightarrow> 'd relm_iommu_context
    \<Rightarrow> unit res \<times> 'd relm_iommu_context" where
  "relm_iommu_map api gpa hpa sz write io =
     (if \<not> io_enabled io then (Inr (), io)
      else case io_domain io of None \<Rightarrow> (Inr (), io)
      | Some d \<Rightarrow>
        let prot = IOMMU_READ; prot = (if write then prot OR IOMMU_WRITE else prot); prot = prot OR IOMMU_CACHE
        in case k_iommu_map api gpa hpa sz prot d of
             (Inl e, d) \<Rightarrow> (Inl e, io\<lparr>io_domain := Some d\<rparr>)
           | (Inr _, d) \<Rightarrow> (Inr (), io\<lparr>io_domain := Some d, io_n_mapped_pages := io_n_mapped_pages io + sz div 0x1000\<rparr>))"

definition relm_iommu_unmap :: "'d iommu_api \<Rightarrow> u64 \<Rightarrow> u64 \<Rightarrow> 'd relm_iommu_context \<Rightarrow> 'd relm_iommu_context" where
  "relm_iommu_unmap api gpa sz io =
     (if \<not> io_enabled io then io
      else case io_domain io of None \<Rightarrow> io
      | Some d \<Rightarrow>
        let (unmapped, d) = k_iommu_unmap api gpa sz d; pages = unmapped div 0x1000
        in io\<lparr>io_domain := Some d,
              io_n_mapped_pages := (if pages \<le> io_n_mapped_pages io then io_n_mapped_pages io - pages else 0)\<rparr>)"

text \<open>The loop over guest RAM. Its counter is a 64-bit address that may wrap: not returning is \<open>None\<close>.\<close>

partial_function (option) iommu_map_loop :: "'d iommu_api \<Rightarrow> ept_context option \<Rightarrow> host \<Rightarrow> u64 \<Rightarrow> u64 \<Rightarrow> 'd relm_iommu_context
    \<Rightarrow> (unit res \<times> 'd relm_iommu_context) option" where
  "iommu_map_loop api ept h ram_end gpa io =
     (if gpa < ram_end then
        (case relm_ept_get_mapping gpa ept h of
           Inl e \<Rightarrow> iommu_map_loop api ept h ram_end (gpa + 0x1000) io
         | Inr hpa \<Rightarrow>
           (case relm_iommu_map api gpa (hpa AND NOT 0xFFF) 0x1000 True io of
              (Inl e, io) \<Rightarrow> Some (Inl e, io)
            | (Inr _, io) \<Rightarrow> iommu_map_loop api ept h ram_end (gpa + 0x1000) io))
      else Some (Inr (), io))"

definition relm_iommu_map_guest_ram :: "'d iommu_api \<Rightarrow> relm_vm_memory \<Rightarrow> ept_context option \<Rightarrow> host \<Rightarrow> 'd relm_iommu_context
    \<Rightarrow> (unit res \<times> 'd relm_iommu_context) option" where
  "relm_iommu_map_guest_ram api mm ept h io =
     (if \<not> io_enabled io \<or> io_domain io = None then Some (Inl EINVAL, io)
      else iommu_map_loop api ept h (total_guest_ram mm) 0 io)"

text \<open>\<open>alloc\<close> is the outcome of the \<open>kmalloc\<close> of the list entry.\<close>

definition relm_iommu_attach_device :: "'d iommu_api \<Rightarrow> bool \<Rightarrow> nat \<Rightarrow> 'd relm_iommu_context \<Rightarrow> pci_refs
    \<Rightarrow> unit res \<times> 'd relm_iommu_context \<times> pci_refs" where
  "relm_iommu_attach_device api alloc pdev io rf =
     (if \<not> io_enabled io then (Inl EINVAL, io, rf)
      else case io_domain io of None \<Rightarrow> (Inl EINVAL, io, rf)
      | Some d \<Rightarrow>
        if \<not> alloc then (Inl ENOMEM, io, rf)
        else let rf = pci_dev_get pdev rf in
        (case k_iommu_attach_device api pdev d of
           (Inl e, d) \<Rightarrow> (Inl e, io\<lparr>io_domain := Some d\<rparr>, pci_dev_put pdev rf)
         | (Inr _, d) \<Rightarrow> (Inr (), io\<lparr>io_domain := Some d, io_devices := pdev # io_devices io, io_n_devs := io_n_devs io + 1\<rparr>, rf)))"

definition relm_iommu_detach_device :: "'d iommu_api \<Rightarrow> nat \<Rightarrow> 'd relm_iommu_context \<Rightarrow> pci_refs \<Rightarrow> 'd relm_iommu_context \<times> pci_refs" where
  "relm_iommu_detach_device api pdev io rf =
     (if \<not> io_enabled io then (io, rf)
      else case io_domain io of None \<Rightarrow> (io, rf)
      | Some d \<Rightarrow>
        if pdev \<in> set (io_devices io)
        then (io\<lparr>io_domain := Some (k_iommu_detach_device api pdev d), io_devices := remove1 pdev (io_devices io),
                io_n_devs := io_n_devs io - 1\<rparr>, pci_dev_put pdev rf)
        else (io, rf))"

section \<open>The kernel's contract\<close>

text \<open>\<open>look\<close> is the translation of a domain (\<open>iommu_iova_to_phys\<close>). A successful mapping of one page makes that page, and
  no other address, translate into the frame.\<close>

definition iommu_map_spec :: "'d iommu_api \<Rightarrow> ('d \<Rightarrow> u64 \<Rightarrow> u64 option) \<Rightarrow> bool" where
  "iommu_map_spec api look \<longleftrightarrow>
     (\<forall>iova pa prot d d'. PAGE_ALIGNED iova \<and> PAGE_ALIGNED pa \<and> k_iommu_map api iova pa 0x1000 prot d = (Inr (), d') \<longrightarrow>
        (\<forall>x. look d' x = (if page_base x = iova then Some (pa + (x - iova)) else look d x)))"

lemma iommu_map_specD:
  "iommu_map_spec api look \<Longrightarrow> PAGE_ALIGNED iova \<Longrightarrow> PAGE_ALIGNED pa \<Longrightarrow> k_iommu_map api iova pa 0x1000 prot d = (Inr (), d') \<Longrightarrow>
     look d' x = (if page_base x = iova then Some (pa + (x - iova)) else look d x)"
  unfolding iommu_map_spec_def by blast

section \<open>The mirror of guest RAM\<close>

lemma page_base_split: "x = page_base x + EPT_PAGE_OFFSET x"
proof -
  have "x = push_bit 12 (drop_bit 12 x) + take_bit 12 x" by (rule bits_ident [symmetric])
  then show ?thesis by (simp add: page_base_drop EPT_PAGE_OFFSET_def and_masks)
qed

lemma page_base_is_aligned: "PAGE_ALIGNED (page_base x)"
  unfolding PAGE_ALIGNED_iff page_base_drop by (simp only: take_bit_push_bit) simp

lemma ept_offset_less: "unat (EPT_PAGE_OFFSET x) < 4096"
proof -
  have "EPT_PAGE_OFFSET x \<le> 0xFFF" unfolding EPT_PAGE_OFFSET_def by (rule word_and_le1)
  then show ?thesis by (simp add: word_le_nat_alt)
qed

text \<open>The page tables translate by pages: an address goes where its page goes, at the same offset.\<close>

lemma get_mapping_by_page:
  "relm_ept_get_mapping a ctx h =
     (case relm_ept_get_mapping (page_base a) ctx h of Inl e \<Rightarrow> Inl e | Inr b \<Rightarrow> Inr ((b AND NOT 0xFFF) + EPT_PAGE_OFFSET a))"
proof (cases "\<exists>ept r. ctx = Some ept \<and> pml4 ept = Some r")
  case False
  then show ?thesis by (auto simp: relm_ept_get_mapping_def split: option.splits)
next
  case True
  then obtain ept r where c: "ctx = Some ept" "pml4 ept = Some r" by blast
  have p: "ept_path a = ept_path (page_base a)" "EPT_PAGE_OFFSET (page_base a) = 0"
    using ept_path_offset [OF page_base_is_aligned ept_offset_less, of a a] page_base_split [of a]
      ept_path_offset(2) [OF page_base_is_aligned, of 0 a] by simp_all
  have o: "(ept_addr e OR EPT_PAGE_OFFSET a) = ((ept_addr e OR 0) AND NOT 0xFFF) + EPT_PAGE_OFFSET a" for e
  proof -
    have "frame_ok (ept_addr e)"
    proof -
      have "ept_addr e = page_base (take_bit 52 e)"
        unfolding ept_addr_def addr_mask_eq page_base_drop by (rule bit_word_eqI) (auto simp: bit_simps)
      moreover have "ept_addr e \<le> 0x000FFFFFFFFFF000" unfolding ept_addr_def by (rule word_and_le1)
      then have "ept_addr e < 2 ^ 52" by (rule le_less_trans) simp
      ultimately show ?thesis using page_base_is_aligned by (simp add: frame_ok_def)
    qed
    moreover from this have "ept_addr e AND NOT 0xFFF = ept_addr e"
      using page_base_aligned [of "ept_addr e"] by (simp add: page_base_def)
    ultimately show ?thesis
      using page_offset_or [of "ept_addr e" "EPT_PAGE_OFFSET a"] ept_offset_less by simp
  qed
  have e: "ept_entry ept h a = ept_entry ept h (page_base a)" using c p by (simp add: ept_entry_Some)
  show ?thesis unfolding c(1) get_mapping_entry [OF c(2)] e p(2) using o by (auto split: option.split)
qed

lemma page_base_range:
  assumes g: "PAGE_ALIGNED g" and n: "unat g + 4096 < 2 ^ 64"
  shows "page_base x = g \<longleftrightarrow> unat g \<le> unat x \<and> unat x < unat g + 4096"
proof
  assume "page_base x = g"
  then have "unat x = unat (g + EPT_PAGE_OFFSET x)" using page_base_split [of x] by (intro arg_cong [of _ _ unat]) simp
  also have "\<dots> = (unat g + unat (EPT_PAGE_OFFSET x)) mod 2 ^ 64" by (simp add: unat_word_ariths)
  finally show "unat g \<le> unat x \<and> unat x < unat g + 4096" using ept_offset_less [of x] n by simp
next
  assume r: "unat g \<le> unat x \<and> unat x < unat g + 4096"
  then have "unat (x - g) = unat x - unat g" by (simp add: unat_sub word_le_nat_alt)
  then have "unat (x - g) < 4096" using r by linarith
  from page_base_add [OF g this] show "page_base x = g" by simp
qed

lemma iommu_map_enabled:
  assumes "io_enabled io" "io_domain io = Some d" "relm_iommu_map api g p 0x1000 w io = (r, io1)"
  obtains d1 where "io_domain io1 = Some d1" "io_enabled io1" "\<exists>prot. k_iommu_map api g p 0x1000 prot d = (r, d1)"
proof -
  obtain r' d1 where k: "k_iommu_map api g p 0x1000 (if w then 7 else 5) d = (r', d1)" by force
  have "r' = r \<and> io_domain io1 = Some d1 \<and> io_enabled io1"
    using assms k by (cases r'; cases w) (auto simp: relm_iommu_map_def)
  with k that show ?thesis by blast
qed

text \<open>Domain \<open>d'\<close> is domain \<open>d\<close> with the addresses from \<open>lo\<close> below \<open>hi\<close> translated like the extended page tables; those
  that the tables do not map keep their translation.\<close>

definition mirrored :: "('d \<Rightarrow> u64 \<Rightarrow> u64 option) \<Rightarrow> ept_context option \<Rightarrow> host \<Rightarrow> nat \<Rightarrow> nat \<Rightarrow> 'd \<Rightarrow> 'd \<Rightarrow> bool" where
  "mirrored look ept h lo hi d d' \<longleftrightarrow> (\<forall>x. look d' x =
     (if lo \<le> unat x \<and> unat x < hi then case relm_ept_get_mapping x ept h of Inr y \<Rightarrow> Some y | Inl _ \<Rightarrow> look d x else look d x))"

lemma mirrored_trans:
  "mirrored look ept h lo mid d d1 \<Longrightarrow> mirrored look ept h mid hi d1 d' \<Longrightarrow> lo \<le> mid \<Longrightarrow> mid \<le> hi \<Longrightarrow> mirrored look ept h lo hi d d'"
  unfolding mirrored_def by (auto split: sum.splits)

text \<open>One turn of the loop.\<close>

lemma map_loop_step:
  assumes sp: "iommu_map_spec api look" and al: "PAGE_ALIGNED gpa" and n: "unat gpa + 4096 < 2 ^ 64" and lt: "gpa < ram_end"
    and io: "io_enabled io" "io_domain io = Some d"
  obtains (stop) er io1 d1 where "iommu_map_loop api ept h ram_end gpa io = Some (Inl er, io1)" "io_domain io1 = Some d1" "io_enabled io1"
      "\<exists>i p pr dd. fst (k_iommu_map api i p 0x1000 pr dd) = Inl er"
  | (go) io1 d1 where "iommu_map_loop api ept h ram_end gpa io = iommu_map_loop api ept h ram_end (gpa + 0x1000) io1"
      "io_domain io1 = Some d1" "io_enabled io1" "mirrored look ept h (unat gpa) (unat gpa + 4096) d d1"
proof (cases "relm_ept_get_mapping gpa ept h")
  case (Inl er)
  then have st: "iommu_map_loop api ept h ram_end gpa io = iommu_map_loop api ept h ram_end (gpa + 0x1000) io"
    using lt by (subst iommu_map_loop.simps) simp
  have "relm_ept_get_mapping x ept h = Inl er" if "unat gpa \<le> unat x" "unat x < unat gpa + 4096" for x
    using get_mapping_by_page [of x ept h] page_base_range [OF al n, of x] that Inl by simp
  then have "mirrored look ept h (unat gpa) (unat gpa + 4096) d d" by (auto simp: mirrored_def)
  with st io show ?thesis by (intro go)
next
  case (Inr hpa)
  let ?p = "hpa AND NOT 0xFFF"
  obtain r1 io1 where m: "relm_iommu_map api gpa ?p 0x1000 True io = (r1, io1)" by force
  obtain d1 prot where d1: "io_domain io1 = Some d1" "io_enabled io1" "k_iommu_map api gpa ?p 0x1000 prot d = (r1, d1)"
    by (rule iommu_map_enabled [OF io m]) blast
  show ?thesis
  proof (cases r1)
    case (Inl er)
    then have "iommu_map_loop api ept h ram_end gpa io = Some (Inl er, io1)"
      using lt m Inr by (subst iommu_map_loop.simps) simp
    moreover have "\<exists>i p pr dd. fst (k_iommu_map api i p 0x1000 pr dd) = Inl er" using d1(3) Inl by (metis fst_conv)
    ultimately show ?thesis using d1 by (intro stop)
  next
    case r1: (Inr u)
    have st: "iommu_map_loop api ept h ram_end gpa io = iommu_map_loop api ept h ram_end (gpa + 0x1000) io1"
      using lt m Inr r1 by (subst iommu_map_loop.simps) simp
    have pal: "PAGE_ALIGNED ?p" using page_base_is_aligned [of hpa] by (simp add: page_base_def)
    have l1: "look d1 x = (if page_base x = gpa then Some (?p + (x - gpa)) else look d x)" for x
      using iommu_map_specD [OF sp al pal, of prot d d1 x] d1(3) r1 by simp
    have "relm_ept_get_mapping x ept h = Inr (?p + (x - gpa))" if "page_base x = gpa" for x
      using get_mapping_by_page [of x ept h] that Inr page_base_split [of x] by (simp add: algebra_simps)
    then have "mirrored look ept h (unat gpa) (unat gpa + 4096) d d1"
      using page_base_range [OF al n] by (auto simp: mirrored_def l1)
    with st d1 show ?thesis by (intro go)
  qed
qed

text \<open>The loop over the \<open>n\<close> pages from \<open>gpa\<close> to the end of RAM returns, and when it reports success the domain mirrors
  them.\<close>

lemma map_loop_result:
  assumes sp: "iommu_map_spec api look" and al: "PAGE_ALIGNED gpa" and n: "unat gpa + 4096 * n = unat ram_end"
    and io: "io_enabled io" "io_domain io = Some d"
  shows "\<exists>r io' d'. iommu_map_loop api ept h ram_end gpa io = Some (r, io') \<and> io_domain io' = Some d' \<and> io_enabled io' \<and>
    (if r = Inr () then mirrored look ept h (unat gpa) (unat ram_end) d d'
     else \<exists>i p pr dd. fst (k_iommu_map api i p 0x1000 pr dd) = r)"
  using al n io
proof (induction n arbitrary: gpa io d)
  case 0
  then have "\<not> gpa < ram_end" by (simp add: word_less_nat_alt)
  with 0 show ?case by (subst iommu_map_loop.simps) (auto simp: mirrored_def)
next
  case (Suc n)
  have lt: "gpa < ram_end" using Suc.prems(2) by (simp add: word_less_nat_alt)
  have "unat ram_end < 2 ^ 64" using unsigned_less [of ram_end] by simp
  then have e: "unat gpa + 4096 < 2 ^ 64" using Suc.prems(2) by simp
  have nx: "unat (gpa + 0x1000) = unat gpa + 4096" using e by (simp add: unat_word_ariths)
  have al': "PAGE_ALIGNED (gpa + 0x1000)" using aligned_page_plus [OF Suc.prems(1), of 1] by simp
  from sp Suc.prems(1) e lt Suc.prems(3,4) show ?case
  proof (cases rule: map_loop_step [where ept = ept and h = h])
    case (stop er io1 d1)
    then show ?thesis by auto
  next
    case (go io1 d1)
    have "unat (gpa + 0x1000) + 4096 * n = unat ram_end" using nx Suc.prems(2) by simp
    from Suc.IH [OF al' this go(3,2)] obtain r io' d' where
      "iommu_map_loop api ept h ram_end (gpa + 0x1000) io1 = Some (r, io')" "io_domain io' = Some d'" "io_enabled io'"
      "if r = Inr () then mirrored look ept h (unat gpa + 4096) (unat ram_end) d1 d'
       else \<exists>i p pr dd. fst (k_iommu_map api i p 0x1000 pr dd) = r" unfolding nx by blast
    with go mirrored_trans [OF go(4)] Suc.prems(2) show ?thesis by (fastforce split: if_splits)
  qed
qed

lemma map_guest_ram_result:
  assumes "iommu_map_spec api look" and "io_enabled io" and "io_domain io = Some d" and "PAGE_ALIGNED (total_guest_ram mm)"
  obtains r io' d' where "relm_iommu_map_guest_ram api mm ept h io = Some (r, io')" "io_domain io' = Some d'"
    "if r = Inr () then mirrored look ept h 0 (unat (total_guest_ram mm)) d d'
     else \<exists>i p pr dd. fst (k_iommu_map api i p 0x1000 pr dd) = r"
proof -
  have "unat (total_guest_ram mm) mod 4096 = 0" using assms(4) by (simp add: PAGE_ALIGNED_unat)
  then obtain n where "unat (total_guest_ram mm) = 4096 * n" by auto
  then have n: "unat (0 :: u64) + 4096 * n = unat (total_guest_ram mm)" by simp
  have "PAGE_ALIGNED 0" by (simp add: PAGE_ALIGNED_def)
  from map_loop_result [OF assms(1) this n assms(2,3), of ept h, unfolded unsigned_0] obtain r io' d' where
    "iommu_map_loop api ept h (total_guest_ram mm) 0 io = Some (r, io')" "io_domain io' = Some d'"
    "if r = Inr () then mirrored look ept h 0 (unat (total_guest_ram mm)) d d'
     else \<exists>i p pr dd. fst (k_iommu_map api i p 0x1000 pr dd) = r" by blast
  with assms(2,3) show ?thesis by (intro that) (simp_all add: relm_iommu_map_guest_ram_def)
qed

section \<open>Properties\<close>

text \<open>(C9) The mirror terminates and is exact: over guest RAM of whole pages the mapping loop returns, and when it
  reports success every guest address of RAM translates for a device as the extended page tables translate it for the
  processor; an address they do not map, or beyond RAM, translates as before.\<close>

theorem iommu_mirrors_ept:
  assumes "iommu_map_spec api look" and "io_enabled io" and "io_domain io = Some d" and "PAGE_ALIGNED (total_guest_ram mm)"
  shows "\<exists>r io' d'. relm_iommu_map_guest_ram api mm ept h io = Some (r, io') \<and> io_domain io' = Some d' \<and>
    (r = Inr () \<longrightarrow> mirrored look ept h 0 (unat (total_guest_ram mm)) d d')"
  by (rule map_guest_ram_result [OF assms, of ept h]) (metis (full_types))

text \<open>A domain as a finite map from pages to frames, for the concrete case.\<close>

definition demo_api :: "(u64 \<rightharpoonup> u64) iommu_api" where
  "demo_api = \<lparr>k_iommu_present = True, k_iommu_domain_alloc = Some (\<lambda>_. None),
     k_iommu_map = (\<lambda>iova pa sz prot d. (Inr (), d(iova \<mapsto> pa))),
     k_iommu_unmap = (\<lambda>iova sz d. if d iova = None then (0, d) else (0x1000, d(iova := None))),
     k_iommu_attach_device = (\<lambda>_ d. (Inr (), d)), k_iommu_detach_device = (\<lambda>_ d. d)\<rparr>"

definition demo_look :: "(u64 \<rightharpoonup> u64) \<Rightarrow> u64 \<Rightarrow> u64 option" where
  "demo_look d x = map_option (\<lambda>p. p + EPT_PAGE_OFFSET x) (d (page_base x))"

lemma demo_api_spec: "iommu_map_spec demo_api demo_look"
proof -
  have "x - page_base x = EPT_PAGE_OFFSET x" for x using page_base_split [of x] by (metis add_diff_cancel_left')
  then show ?thesis by (auto simp: iommu_map_spec_def demo_api_def demo_look_def split: if_splits)
qed

definition demo_io :: "(u64 \<rightharpoonup> u64) relm_iommu_context" where
  "demo_io = snd (relm_iommu_init demo_api \<lparr>io_domain = None, io_devices = [], io_n_devs = 0, io_enabled = False,
     io_n_mapped_pages = 0, io_fault_count = 0\<rparr>)"

lemma demo_io_simps: "io_enabled demo_io" "io_domain demo_io = Some (\<lambda>_. None)"
  by (simp_all add: demo_io_def relm_iommu_init_def demo_api_def)

theorem iommu_mirrors_ept_witness:
  "\<exists>r io' d'. relm_iommu_map_guest_ram demo_api demo_pt_mm (Some demo_ept) demo_host1 demo_io = Some (r, io') \<and> io_domain io' = Some d' \<and>
     (r \<noteq> Inr () \<or> mirrored demo_look (Some demo_ept) demo_host1 0 0x3000 (\<lambda>_. None) d')"
  using iommu_mirrors_ept [OF demo_api_spec demo_io_simps, of demo_pt_mm "Some demo_ept" demo_host1]
  by (auto simp: demo_pt_mm_def PAGE_ALIGNED_def)

text \<open>(C39) The mirror outlives the VM. Nothing on the path of \<open>relm_destroy_vm\<close> unmaps the domain (\<open>relm_iommu_destroy\<close> has no
  caller), so after the VM is gone a device still reaches, at every former guest RAM address, a frame that the page
  allocator is free to hand out.\<close>

theorem dma_reaches_freed_frames:
  assumes h: "host_ok h" and c: "relm_create_vm (vmx_mem_ops cap) ops vid nm sz h = (Some (Some v), h1)"
    and sp: "iommu_map_spec api look" and io: "io_enabled io" "io_domain io = Some d"
    and m: "relm_iommu_map_guest_ram api (v_memory v) (v_ctx v) h1 io = Some (Inr (), io')"
    and de: "relm_destroy_vm (vmx_mem_ops cap) fr (Some v) h1 = (st, h2)"
    and a: "a < total_guest_ram (v_memory v)" "total_guest_ram (v_memory v) \<le> 2 ^ 48"
  shows "\<exists>d' x. io_domain io' = Some d' \<and> look d' a = Some x \<and> page_base x \<in> set (pool h2)"
proof -
  from vmx_vm.create_vm_frames [OF h c] obtain pages where p: "vmx_vm.holds v pages h1"
    "set pages \<union> ept_tabs (v_ctx v, h1) \<union> set (pool h1) = set (pool h)" by auto
  note len = vmx_vm.holds_length [OF p(1)]
  then have al: "PAGE_ALIGNED (total_guest_ram (v_memory v))" by (simp add: PAGE_ALIGNED_unat)
  have "length pages \<le> 2 ^ 36" using len a(2) by (simp add: word_le_nat_alt)
  then obtain f dd where f: "f \<in> set pages" "frame_ok f" "unat dd < 4096" "EPT_PAGE_OFFSET a = dd"
    "ept_state_entry (v_ctx v, h1) a = Some (ept_mem_entry f 7)"
    by (rule vmx_vm.holds_views [OF p(1) a(1)]) blast
  have "ept_state_ok (v_ctx v, h1)" using p(1) by (simp add: vmx_vm.holds_def)
  then obtain ept r where ctx: "v_ctx v = Some ept" "pml4 ept = Some r" by (cases rule: ept_state_cases) auto
  have g: "relm_ept_get_mapping a (v_ctx v) h1 = Inr (f + dd)"
    using f ctx page_offset_or [OF f(2,3)] ept_mem_entry_ram [OF f(2)] by (simp add: get_mapping_entry ept_state_entry_def)
  obtain d' where d': "io_domain io' = Some d'" "mirrored look (v_ctx v) h1 0 (unat (total_guest_ram (v_memory v))) d d'"
    by (rule map_guest_ram_result [OF sp io al, where ept = "v_ctx v" and h = h1]) (use m in \<open>auto split: if_splits\<close>)
  have "look d' a = Some (f + dd)" using d'(2) a(1) g by (simp add: mirrored_def word_less_nat_alt)
  moreover have "page_base (f + dd) = f" using page_base_add [of f dd] f(2,3) by simp
  moreover have "f \<in> set (pool h2)" using vmx_vm.create_destroy [OF h c de] p(2) f(1) by auto
  ultimately show ?thesis using d'(1) by auto
qed

lemma demo_api_maps: "fst (k_iommu_map demo_api i p n pr d) = Inr ()"
  by (simp add: demo_api_def)

theorem dma_reaches_freed_frames_witness:
  "\<exists>v h1 io' d' x. relm_create_vm (vmx_mem_ops 0x104040) vmx_vm_ops 1 None 0x3000 demo_vm_host = (Some (Some v), h1) \<and>
     relm_iommu_map_guest_ram demo_api (v_memory v) (v_ctx v) h1 demo_io = Some (Inr (), io') \<and> io_domain io' = Some d' \<and>
     demo_look d' 0x1008 = Some x \<and> page_base x \<in> set (pool (snd (relm_destroy_vm (vmx_mem_ops 0x104040) (\<lambda>_ h. h) (Some v) h1)))"
proof -
  obtain v h1 where c: "relm_create_vm (vmx_mem_ops 0x104040) vmx_vm_ops 1 None 0x3000 demo_vm_host = (Some (Some v), h1)"
    and t: "total_guest_ram (v_memory v) = 0x3000"
    using create_vm_enough [OF demo_vm_host_ok, of "[]" "0x104040" "0x3000" vmx_vm_ops 1 None]
    by (auto simp: demo_vm_host_def relm_ept_check_support_def PAGE_ALIGN_def)
  obtain st h2 where de: "relm_destroy_vm (vmx_mem_ops 0x104040) (\<lambda>_ h. h) (Some v) h1 = (st, h2)" by force
  have "PAGE_ALIGNED (total_guest_ram (v_memory v))" by (simp add: t PAGE_ALIGNED_def)
  then obtain io' where m': "relm_iommu_map_guest_ram demo_api (v_memory v) (v_ctx v) h1 demo_io = Some (Inr (), io')"
    by (rule map_guest_ram_result [OF demo_api_spec demo_io_simps, where ept = "v_ctx v" and h = h1])
      (auto simp: demo_api_maps split: if_splits)
  from dma_reaches_freed_frames [OF demo_vm_host_ok c demo_api_spec demo_io_simps m' de, of "0x1008"] c m' de t show ?thesis by auto
qed

section \<open>References to devices\<close>

datatype dev_op = Attach bool nat | Detach nat

fun dev_step :: "'d iommu_api \<Rightarrow> dev_op \<Rightarrow> 'd relm_iommu_context \<times> pci_refs \<Rightarrow> 'd relm_iommu_context \<times> pci_refs" where
  "dev_step api (Attach alloc pdev) (io, rf) = snd (relm_iommu_attach_device api alloc pdev io rf)"
| "dev_step api (Detach pdev) (io, rf) = relm_iommu_detach_device api pdev io rf"

text \<open>Each device carries one reference per entry of the list.\<close>

definition refs_inv :: "pci_refs \<Rightarrow> 'd relm_iommu_context \<times> pci_refs \<Rightarrow> bool" where
  "refs_inv rf0 s \<longleftrightarrow> io_enabled (fst s) \<and> io_domain (fst s) \<noteq> None \<and>
     (\<forall>dev. snd s dev = rf0 dev + int (count_list (io_devices (fst s)) dev)) \<and>
     io_n_devs (fst s) = word_of_nat (length (io_devices (fst s)))"

lemma count_remove1: "x \<in> set xs \<Longrightarrow> count_list (remove1 x xs) y = (if x = y then count_list xs y - 1 else count_list xs y)"
  by (induction xs) auto

lemma count_pos: "x \<in> set xs \<Longrightarrow> 0 < count_list xs x"
  by (induction xs) auto

lemma dev_step_inv: "refs_inv rf0 s \<Longrightarrow> refs_inv rf0 (dev_step api x s)"
proof -
  assume i: "refs_inv rf0 s"
  obtain io rf where s: "s = (io, rf)" by force
  from i obtain d where d: "io_domain io = Some d" "io_enabled io" by (auto simp: refs_inv_def s)
  show ?thesis
  proof (cases x)
    case (Attach alloc pdev)
    obtain r d1 where k: "k_iommu_attach_device api pdev d = (r, d1)" by force
    with Attach i s d show ?thesis
      by (cases r) (auto simp: refs_inv_def relm_iommu_attach_device_def pci_dev_get_def pci_dev_put_def)
  next
    case (Detach pdev)
    have "word_of_nat (length (io_devices io) - 1) = (word_of_nat (length (io_devices io)) - 1 :: u32)" if "pdev \<in> set (io_devices io)"
      using that by (cases "io_devices io") auto
    with Detach i s d count_pos [of pdev "io_devices io"] show ?thesis
      by (auto simp: refs_inv_def relm_iommu_detach_device_def pci_dev_put_def count_remove1 length_remove1 of_nat_diff)
  qed
qed

lemma put_all: "snd (fold (\<lambda>dev (d, rf). (k_iommu_detach_device api dev d, pci_dev_put dev rf)) devs (d, rf)) dev =
    rf dev - int (count_list devs dev)"
  by (induction devs arbitrary: d rf) (auto simp: pci_dev_put_def)

text \<open>(C22) Every reference taken on a passed-through device is given back: after any sequence of attach and detach calls,
  failing ones included, the teardown of the domain leaves the reference counts of all devices as they were before.\<close>

theorem device_refs_balanced:
  assumes "relm_iommu_init api io0 = (Inr (), io)"
    and "fold (dev_step api) ops (io, rf0) = (io1, rf1)" and "relm_iommu_destroy api io1 rf1 = (io2, gone, rf2)"
  shows "rf2 = rf0 \<and> io_domain io2 = None \<and> \<not> io_enabled io2"
proof -
  have "refs_inv rf0 (io, rf0)" using assms(1) by (auto simp: relm_iommu_init_def refs_inv_def Let_def split: if_splits)
  then have "refs_inv rf0 (fold (dev_step api) ops (io, rf0))"
    by (induction ops rule: rev_induct) (simp_all add: dev_step_inv)
  then have i: "refs_inv rf0 (io1, rf1)" using assms(2) by simp
  then obtain d where d: "io_domain io1 = Some d" "io_enabled io1" by (auto simp: refs_inv_def)
  have "rf2 dev = rf0 dev" for dev
    using assms(3) d i put_all [of api "io_devices io1" d rf1 dev]
    by (auto simp: relm_iommu_destroy_def refs_inv_def split: prod.splits)
  then show ?thesis using assms(3) d by (auto simp: relm_iommu_destroy_def split: prod.splits)
qed

theorem device_refs_balanced_witness:
  "snd (snd (relm_iommu_destroy demo_api (fst (fold (dev_step demo_api) [Attach True 7, Attach True 9, Detach 7] (demo_io, \<lambda>_. 1)))
     (snd (fold (dev_step demo_api) [Attach True 7, Attach True 9, Detach 7] (demo_io, \<lambda>_. 1))))) = (\<lambda>_. 1)"
proof -
  have "relm_iommu_init demo_api \<lparr>io_domain = None, io_devices = [], io_n_devs = 0, io_enabled = False,
     io_n_mapped_pages = 0, io_fault_count = 0\<rparr> = (Inr (), demo_io)"
    by (simp add: demo_io_def relm_iommu_init_def demo_api_def)
  from device_refs_balanced [OF this prod.collapse [symmetric], of "[Attach True 7, Attach True 9, Detach 7]" "\<lambda>_. 1"]
  show ?thesis by (metis prod.collapse)
qed

end
