(* ===== verification/Relm_Boot.thy ===== *)
theory Relm_Boot
  imports Relm_Mmu Relm_E820 Relm_Vmx_Setup
begin

text \<open>
  The direct Linux boot loader (src/arch/x86/boot/boot.c, stub.S, include/boot/arch/x86/loader.h):
  the checks on the bzImage setup header, loading of the kernel, the initial RAM disk and the
  command line, the boot parameters page with its e820 table, and the diagnostic GDT, IDT and
  exception stubs. The firmware loader of the kernel (\<open>request_firmware\<close>) is a parameter that gives
  a file or an error. Guest RAM is seen as one byte memory, \<open>ram_view\<close>; a successful load is then a
  fixed sequence of writes to it, from which the theorems read off what the guest finds at its
  entry point.
\<close>

section \<open>Constants and data\<close>

abbreviation (input) RELM_BOOT_PARAMS_GPA :: u64 where "RELM_BOOT_PARAMS_GPA \<equiv> 0x7000"
abbreviation (input) RELM_CMDLINE_GPA :: u64 where "RELM_CMDLINE_GPA \<equiv> 0x20000"
abbreviation (input) RELM_CMDLINE_MAX_LEN :: nat where "RELM_CMDLINE_MAX_LEN \<equiv> 4096"
abbreviation (input) RELM_KERNEL_LOAD_GPA :: u64 where "RELM_KERNEL_LOAD_GPA \<equiv> 0x1000000"
abbreviation (input) RELM_KERNEL_MAX_SIZE :: nat where "RELM_KERNEL_MAX_SIZE \<equiv> 0x4000000"
abbreviation (input) RELM_INITRD_LOAD_GPA :: u64 where "RELM_INITRD_LOAD_GPA \<equiv> 0x4000000"
abbreviation (input) RELM_INITRD_MAX_SIZE :: nat where "RELM_INITRD_MAX_SIZE \<equiv> 0x3C00000"
abbreviation (input) RELM_GUEST_GDT_GPA :: u64 where "RELM_GUEST_GDT_GPA \<equiv> 0x4000"
abbreviation (input) RELM_GUEST_IDT_GPA :: u64 where "RELM_GUEST_IDT_GPA \<equiv> 0x5000"
abbreviation (input) RELM_GUEST_IDT_STUBS_GPA :: u64 where "RELM_GUEST_IDT_STUBS_GPA \<equiv> 0x6000"
abbreviation (input) RELM_BZIMAGE_HDR_OFFSET :: nat where "RELM_BZIMAGE_HDR_OFFSET \<equiv> 0x1F1"
abbreviation (input) SETUP_HEADER_SIZE :: nat where "SETUP_HEADER_SIZE \<equiv> 123"

definition RELM_KERNEL_FW_NAME :: string where "RELM_KERNEL_FW_NAME = ''relm/vmlinuz''"
definition RELM_INITRD_FW_NAME :: string where "RELM_INITRD_FW_NAME = ''relm/initrd.img''"
definition RELM_DEFAULT_CMDLINE :: string where
  "RELM_DEFAULT_CMDLINE = ''console=ttyS0,115200 earlyprintk=serial nokaslr panic=1''"

text \<open>The packed setup header is its 123 bytes; a field is named by its offset in the boot sector, as in
  the comments of the C structure, and its width.\<close>

type_synonym relm_setup_header = "u8 list"

definition hdr_get :: "nat \<Rightarrow> nat \<Rightarrow> relm_setup_header \<Rightarrow> u64" where
  "hdr_get off n hdr = le_word (take n (drop (off - RELM_BZIMAGE_HDR_OFFSET) hdr))"

definition hdr_set :: "nat \<Rightarrow> nat \<Rightarrow> u64 \<Rightarrow> relm_setup_header \<Rightarrow> relm_setup_header" where
  "hdr_set off n v hdr = (let o' = off - RELM_BZIMAGE_HDR_OFFSET in take o' hdr @ le_bytes n v @ drop (o' + n) hdr)"

definition str_bytes :: "string \<Rightarrow> u8 list" where
  "str_bytes s = map of_char s"

definition strnlen :: "string \<Rightarrow> nat \<Rightarrow> nat" where
  "strnlen s n = min (length (takeWhile (\<lambda>c. c \<noteq> CHR 0x00) s)) n"

text \<open>A result \<open>0\<close> or \<open>-errno\<close>, or a dereference of an invalid host pointer; the code goes on only after \<open>0\<close>.\<close>

type_synonym 'a boot_result = "'a res option \<times> host"

definition and_then :: "'a boot_result \<Rightarrow> ('a \<Rightarrow> host \<Rightarrow> 'b boot_result) \<Rightarrow> 'b boot_result" where
  "and_then r f = (case r of (None, h) \<Rightarrow> (None, h) | (Some (Inl e), h) \<Rightarrow> (Some (Inl e), h) | (Some (Inr x), h) \<Rightarrow> f x h)"

text \<open>\<open>ret < 0\<close> after a copy, and \<open>n == size ? 0 : (n < 0 ? n : -EIO)\<close>. The sizes stay below \<open>2^31\<close>, so a
  count is never negative.\<close>

definition count_result :: "outcome \<times> host \<Rightarrow> unit boot_result" where
  "count_result r = (case r of (Fault, h) \<Rightarrow> (None, h) | (Ret (Inl e), h) \<Rightarrow> (Some (Inl e), h) | (Ret (Inr _), h) \<Rightarrow> (Some (Inr ()), h))"

definition exact_result :: "nat \<Rightarrow> outcome \<times> host \<Rightarrow> unit boot_result" where
  "exact_result n r = (case r of (Fault, h) \<Rightarrow> (None, h) | (Ret (Inl e), h) \<Rightarrow> (Some (Inl e), h)
     | (Ret (Inr k), h) \<Rightarrow> (Some (if k = int n then Inr () else Inl EIO), h))"

definition relm_guest_write_u8 :: "relm_vm_memory option \<Rightarrow> u64 \<Rightarrow> u8 \<Rightarrow> host \<Rightarrow> unit boot_result" where
  "relm_guest_write_u8 vm gpa v h = exact_result 1 (relm_vm_copy_to_guest vm gpa (Some [v]) h)"

definition relm_guest_write_u32 :: "relm_vm_memory option \<Rightarrow> u64 \<Rightarrow> u32 \<Rightarrow> host \<Rightarrow> unit boot_result" where
  "relm_guest_write_u32 vm gpa v h = exact_result 4 (relm_vm_copy_to_guest vm gpa (Some (le_bytes 4 (ucast v))) h)"

section \<open>The kernel image\<close>

definition relm_validate_setup_header :: "relm_setup_header \<Rightarrow> unit res" where
  "relm_validate_setup_header hdr =
     (if hdr_get 0x1FE 2 hdr \<noteq> 0xAA55 then Inl EINVAL
      else if hdr_get 0x202 4 hdr \<noteq> 0x53726448 then Inl EINVAL
      else if hdr_get 0x206 2 hdr < 0x020C then Inl ENOTSUPP
      else if hdr_get 0x236 2 hdr AND 1 = 0 then Inl ENOTSUPP
      else if hdr_get 0x211 1 hdr AND 1 = 0 then Inl ENOTSUPP
      else Inr ())"

definition setup_size_of :: "relm_setup_header \<Rightarrow> nat" where
  "setup_size_of hdr =
     (let setup_sects = hdr_get 0x1F1 1 hdr; sects = (if setup_sects \<noteq> 0 then unat setup_sects else 4) in (sects + 1) * 512)"

definition load_gpa_of :: "relm_setup_header \<Rightarrow> u64" where
  "load_gpa_of hdr = (if hdr_get 0x258 8 hdr \<noteq> 0 then hdr_get 0x258 8 hdr else RELM_KERNEL_LOAD_GPA)"

definition relm_kernel_load :: "(string \<Rightarrow> u8 list res) \<Rightarrow> relm_vm_memory option \<Rightarrow> bool \<Rightarrow> host
    \<Rightarrow> (relm_setup_header \<times> u64) boot_result" where
  "relm_kernel_load request_firmware vm dev h =
     (case vm of None \<Rightarrow> (Some (Inl EINVAL), h)
      | Some mm \<Rightarrow>
        if \<not> dev then (Some (Inl EINVAL), h) else
        (case request_firmware RELM_KERNEL_FW_NAME of
           Inl e \<Rightarrow> (Some (Inl e), h)
         | Inr fw \<Rightarrow>
           if length fw < RELM_BZIMAGE_HDR_OFFSET + SETUP_HEADER_SIZE then (Some (Inl EINVAL), h) else
           let hdr = take SETUP_HEADER_SIZE (drop RELM_BZIMAGE_HDR_OFFSET fw) in
           (case relm_validate_setup_header hdr of
              Inl e \<Rightarrow> (Some (Inl e), h)
            | Inr _ \<Rightarrow>
              let setup_size = setup_size_of hdr in
              if length fw \<le> setup_size then (Some (Inl EINVAL), h) else
              let pm_kernel_size = length fw - setup_size in
              if pm_kernel_size > RELM_KERNEL_MAX_SIZE then (Some (Inl E2BIG), h) else
              let load_gpa = load_gpa_of hdr in
              if load_gpa + word_of_nat pm_kernel_size > total_guest_ram mm then (Some (Inl ENOMEM), h)
              else and_then (count_result (relm_vm_copy_to_guest vm load_gpa (Some (drop setup_size fw)) h))
                (\<lambda>_ h. (Some (Inr (hdr, load_gpa + 0x200)), h)))))"

text \<open>A missing RAM disk is not an error; the result is its size.\<close>

definition relm_initrd_load :: "(string \<Rightarrow> u8 list res) \<Rightarrow> relm_vm_memory option \<Rightarrow> bool \<Rightarrow> host \<Rightarrow> u32 boot_result" where
  "relm_initrd_load request_firmware vm dev h =
     (case vm of None \<Rightarrow> (Some (Inl EINVAL), h)
      | Some mm \<Rightarrow>
        if \<not> dev then (Some (Inl EINVAL), h) else
        (case request_firmware RELM_INITRD_FW_NAME of
           Inl e \<Rightarrow> (Some (Inr 0), h)
         | Inr fw \<Rightarrow>
           if length fw > RELM_INITRD_MAX_SIZE then (Some (Inl E2BIG), h)
           else if RELM_INITRD_LOAD_GPA + word_of_nat (length fw) > total_guest_ram mm then (Some (Inl ENOMEM), h)
           else and_then (count_result (relm_vm_copy_to_guest vm RELM_INITRD_LOAD_GPA (Some fw) h))
             (\<lambda>_ h. (Some (Inr (word_of_nat (length fw))), h))))"

definition relm_cmdline_load :: "relm_vm_memory option \<Rightarrow> string option \<Rightarrow> host \<Rightarrow> unit boot_result" where
  "relm_cmdline_load vm cmdline h =
     (case vm of None \<Rightarrow> (Some (Inl EINVAL), h)
      | Some mm \<Rightarrow>
        let cmdline = (case cmdline of None \<Rightarrow> RELM_DEFAULT_CMDLINE | Some s \<Rightarrow> s);
            len = strnlen cmdline (RELM_CMDLINE_MAX_LEN - 1) in
        and_then (count_result (relm_vm_zero_guest_memory vm RELM_CMDLINE_GPA RELM_CMDLINE_MAX_LEN h)) (\<lambda>_ h.
        and_then (count_result (relm_vm_copy_to_guest vm RELM_CMDLINE_GPA (Some (take len (str_bytes cmdline))) h)) (\<lambda>_ h.
        relm_guest_write_u8 vm (RELM_CMDLINE_GPA + word_of_nat len) 0 h)))"

section \<open>The boot parameters\<close>

definition boot_header :: "relm_setup_header \<Rightarrow> u32 \<Rightarrow> relm_setup_header" where
  "boot_header hdr_in initrd_size =
     (let hdr = hdr_set 0x210 1 0xFF hdr_in;
          hdr = hdr_set 0x228 4 RELM_CMDLINE_GPA hdr;
          hdr = hdr_set 0x238 4 (word_of_nat (RELM_CMDLINE_MAX_LEN - 1)) hdr;
          hdr = hdr_set 0x218 4 (if initrd_size \<noteq> 0 then RELM_INITRD_LOAD_GPA else 0) hdr;
          hdr = hdr_set 0x21C 4 (ucast initrd_size) hdr
      in hdr_set 0x1FA 2 0xFFFF hdr)"

fun write_e820 :: "relm_vm_memory option \<Rightarrow> nat \<Rightarrow> e820_entry list \<Rightarrow> host \<Rightarrow> unit boot_result" where
  "write_e820 vm i [] h = (Some (Inr ()), h)"
| "write_e820 vm i (e # es) h =
     and_then (count_result (relm_vm_copy_to_guest vm (RELM_BOOT_PARAMS_GPA + 0x2D0 + word_of_nat (i * 20)) (Some (e820_entry_bytes e)) h))
       (\<lambda>_ h. write_e820 vm (i + 1) es h)"

text \<open>The result is the value for \<open>vm->arch.boot_params_gpa\<close>.\<close>

definition relm_boot_params_build :: "relm_vm_memory option \<Rightarrow> relm_setup_header option \<Rightarrow> u32 \<Rightarrow> host \<Rightarrow> u64 boot_result" where
  "relm_boot_params_build vm hdr_in initrd_size h =
     (case (vm, hdr_in) of
        (Some mm, Some hdr_in) \<Rightarrow>
          and_then (count_result (relm_vm_zero_guest_memory vm RELM_BOOT_PARAMS_GPA 0x1000 h)) (\<lambda>_ h.
          case relm_e820_build (total_guest_ram mm) blank_e820_map of
            (Inl e, _) \<Rightarrow> (Some (Inl e), h)
          | (Inr _, e820) \<Rightarrow>
            if e820_count e820 > 128 then (Some (Inl E2BIG), h) else
            and_then (count_result (relm_vm_copy_to_guest vm (RELM_BOOT_PARAMS_GPA + 0x1F1) (Some (boot_header hdr_in initrd_size)) h)) (\<lambda>_ h.
            and_then (relm_guest_write_u8 vm (RELM_BOOT_PARAMS_GPA + 0x1E8) (word_of_nat (e820_count e820)) h) (\<lambda>_ h.
            and_then (write_e820 vm 0 (take (e820_count e820) (e820_entries e820)) h) (\<lambda>_ h.
            (Some (Inr RELM_BOOT_PARAMS_GPA), h)))))
      | _ \<Rightarrow> (Some (Inl EINVAL), h))"

section \<open>Diagnostic descriptor tables\<close>

definition relm_write_gdt_entry :: "relm_vm_memory option \<Rightarrow> nat \<Rightarrow> u64 \<Rightarrow> host \<Rightarrow> unit boot_result" where
  "relm_write_gdt_entry vm i entry h =
     exact_result 8 (relm_vm_copy_to_guest vm (RELM_GUEST_GDT_GPA + word_of_nat (i * 8)) (Some (le_bytes 8 entry)) h)"

definition idt_gate :: "u64 \<Rightarrow> u8 list" where
  "idt_gate handler_gpa =
     [ucast handler_gpa, ucast (drop_bit 8 handler_gpa), 0x08, 0x00, 0x00, 0x8E, ucast (drop_bit 16 handler_gpa),
      ucast (drop_bit 24 handler_gpa), ucast (drop_bit 32 handler_gpa), ucast (drop_bit 40 handler_gpa),
      ucast (drop_bit 48 handler_gpa), ucast (drop_bit 56 handler_gpa), 0, 0, 0, 0]"

definition relm_write_idt_gate :: "relm_vm_memory option \<Rightarrow> nat \<Rightarrow> u64 \<Rightarrow> host \<Rightarrow> unit boot_result" where
  "relm_write_idt_gate vm vec handler_gpa h =
     exact_result 16 (relm_vm_copy_to_guest vm (RELM_GUEST_IDT_GPA + word_of_nat (vec * 16)) (Some (idt_gate handler_gpa)) h)"

text \<open>The template of stub.S: \<open>movl $0, %eax\<close>, \<open>vmcall\<close> and halts.\<close>

definition relm_idt_stub_template :: "u8 list" where
  "relm_idt_stub_template = [0xB8, 0, 0, 0, 0, 0x0F, 0x01, 0xC1] @ replicate 24 0xF4"

definition idt_stub :: "nat \<Rightarrow> u8 list" where
  "idt_stub vec = (take 16 relm_idt_stub_template)[1 := word_of_nat vec]"

definition relm_write_idt_stub :: "relm_vm_memory option \<Rightarrow> nat \<Rightarrow> host \<Rightarrow> unit boot_result" where
  "relm_write_idt_stub vm vec h =
     exact_result 16 (relm_vm_copy_to_guest vm (RELM_GUEST_IDT_STUBS_GPA + word_of_nat (vec * 16)) (Some (idt_stub vec)) h)"

fun for_vectors :: "(nat \<Rightarrow> host \<Rightarrow> unit boot_result) \<Rightarrow> nat list \<Rightarrow> host \<Rightarrow> unit boot_result" where
  "for_vectors f [] h = (Some (Inr ()), h)"
| "for_vectors f (v # vs) h = and_then (f v h) (\<lambda>_. for_vectors f vs)"

definition relm_install_diag_idt_gdt :: "relm_vm_memory option \<Rightarrow> host \<Rightarrow> unit boot_result" where
  "relm_install_diag_idt_gdt vm h =
     (case vm of None \<Rightarrow> (Some (Inl EINVAL), h)
      | Some mm \<Rightarrow>
        and_then (count_result (relm_vm_zero_guest_memory vm RELM_GUEST_GDT_GPA 0x1000 h)) (\<lambda>_ h.
        and_then (count_result (relm_vm_zero_guest_memory vm RELM_GUEST_IDT_GPA (256 * 16) h)) (\<lambda>_ h.
        and_then (count_result (relm_vm_zero_guest_memory vm RELM_GUEST_IDT_STUBS_GPA (256 * 16) h)) (\<lambda>_ h.
        and_then (relm_write_gdt_entry vm 0 0 h) (\<lambda>_ h.
        and_then (relm_write_gdt_entry vm 1 0x00AF9B000000FFFF h) (\<lambda>_ h.
        and_then (relm_write_gdt_entry vm 2 0x00CF93000000FFFF h) (\<lambda>_ h.
        and_then (for_vectors (relm_write_idt_stub vm) [0..<256] h) (\<lambda>_ h.
        for_vectors (\<lambda>v. relm_write_idt_gate vm v (RELM_GUEST_IDT_STUBS_GPA + word_of_nat (v * 16))) [0..<256] h))))))))"

section \<open>The whole load\<close>

record relm_boot_config =
  cfg_cmdline :: "string option"
  cfg_initrd_name :: "string option"
  cfg_kernel_name :: "string option"

text \<open>The names in the configuration are only printed: the files loaded are the built-in ones. The two addresses the load
  stores in the VM are part of the result of a successful load; after an error the callers destroy the VM.\<close>

definition relm_boot_load :: "(string \<Rightarrow> u8 list res) \<Rightarrow> (relm_vm_memory \<times> vm_boot) option \<Rightarrow> bool \<Rightarrow> relm_boot_config option \<Rightarrow> host
    \<Rightarrow> vm_boot boot_result" where
  "relm_boot_load request_firmware vm dev cfg h =
     (let cmdline = (case cfg of None \<Rightarrow> None | Some c \<Rightarrow> cfg_cmdline c) in
      case vm of None \<Rightarrow> (Some (Inl EINVAL), h)
      | Some (mm, b) \<Rightarrow>
        if \<not> dev then (Some (Inl EINVAL), h) else
        and_then (relm_kernel_load request_firmware (Some mm) dev h) (\<lambda>(hdr, entry_gpa) h.
        and_then (relm_initrd_load request_firmware (Some mm) dev h) (\<lambda>initrd_size h.
        and_then (relm_cmdline_load (Some mm) cmdline h) (\<lambda>_ h.
        and_then (relm_boot_params_build (Some mm) (Some hdr) initrd_size h) (\<lambda>bp h.
        and_then (relm_install_diag_idt_gdt (Some mm) h) (\<lambda>_ h.
        (Some (Inr (b\<lparr>vb_boot_params_gpa := bp, vb_kernel_entry_gpa := entry_gpa\<rparr>)), h)))))))"

definition relm_linux_loader_entry_gpa :: "vm_boot option \<Rightarrow> u64" where
  "relm_linux_loader_entry_gpa vm = (case vm of None \<Rightarrow> 0 | Some b \<Rightarrow> vb_kernel_entry_gpa b)"


section \<open>Guest RAM as one byte memory\<close>

text \<open>Guest RAM covers the addresses from zero to \<open>total_guest_ram\<close>, as \<open>relm_create_vm\<close> sets it up.\<close>

definition guest_ram_ok :: "relm_vm_memory \<Rightarrow> bool" where
  "guest_ram_ok mm \<longleftrightarrow> ram_ok (mem_regions mm) \<and> frames_ok (mem_regions mm) \<and> total_guest_ram mm \<le> 2 ^ 48 \<and>
     (\<forall>a. guest_hpa (mem_regions mm) a \<noteq> None \<longleftrightarrow> a < total_guest_ram mm)"

definition ram_view :: "relm_vm_memory \<Rightarrow> host \<Rightarrow> mem" where
  "ram_view mm h = (\<lambda>a. if a < total_guest_ram mm then guest_byte (mem_regions mm) (pmem h) a else 0)"

definition put :: "relm_vm_memory \<Rightarrow> u64 \<Rightarrow> u8 list \<Rightarrow> host \<Rightarrow> host" where
  "put mm a bs h = h\<lparr>pmem := guest_write (mem_regions mm) (pmem h) a bs\<rparr>"

definition puts :: "relm_vm_memory \<Rightarrow> (u64 \<times> u8 list) list \<Rightarrow> host \<Rightarrow> host" where
  "puts mm ws h = fold (\<lambda>(a, bs). put mm a bs) ws h"

definition wr_all :: "(u64 \<times> u8 list) list \<Rightarrow> mem \<Rightarrow> mem" where
  "wr_all ws m = fold (\<lambda>(a, bs) m. wr_bytes m a bs) ws m"

definition in_ram :: "relm_vm_memory \<Rightarrow> u64 \<times> u8 list \<Rightarrow> bool" where
  "in_ram mm w \<longleftrightarrow> unat (fst w) + length (snd w) \<le> unat (total_guest_ram mm)"

lemma unat_add_nat: "unat a + i < 2 ^ 64 \<Longrightarrow> unat (a + word_of_nat i :: u64) = unat a + i"
  by (simp add: unat_word_ariths unat_of_nat)

lemma in_ram_backed:
  assumes "guest_ram_ok mm" "in_ram mm (a, bs)" "i < length bs"
  shows "guest_hpa (mem_regions mm) (a + word_of_nat i) \<noteq> None"
proof -
  have t: "unat (total_guest_ram mm) < 2 ^ 64" using unsigned_less [of "total_guest_ram mm"] by simp
  have "unat (a + word_of_nat i) < unat (total_guest_ram mm)"
    using assms(2,3) t by (subst unat_add_nat) (auto simp: in_ram_def)
  with assms(1) show ?thesis by (simp add: guest_ram_ok_def word_less_nat_alt)
qed

lemma copy_in_ram:
  assumes g: "guest_ram_ok mm" and r: "in_ram mm (a, bs)" and "bs \<noteq> []" "length bs < 2 ^ 31"
  shows "relm_vm_copy_to_guest (Some mm) a (Some bs) h = (Ret (Inr (int (length bs))), put mm a bs h)"
proof -
  have "backed_run (mem_regions mm) a (length bs) = length bs" using in_ram_backed [OF g r] by (rule backed_run_full)
  then show ?thesis
    using copy_to_loop_spec [of "mem_regions mm" None 0 bs a h] g assms(3,4) c_int_small [of "length bs"]
    by (simp add: relm_vm_copy_to_guest_def guest_ram_ok_def put_def)
qed

lemma copy_out_of_ram:
  assumes "guest_ram_ok mm" "total_guest_ram mm \<le> a" "bs \<noteq> []" "length bs < 2 ^ 31"
  shows "relm_vm_copy_to_guest (Some mm) a (Some bs) h = (Ret (Inl EFAULT), h)"
proof -
  have "guest_hpa (mem_regions mm) a = None" using assms(1,2) unfolding guest_ram_ok_def by (metis not_le)
  then have "backed_run (mem_regions mm) a (length bs) = 0" by (rule backed_run_zero)
  then show ?thesis
    using copy_to_loop_spec [of "mem_regions mm" None 0 bs a h] assms
    by (simp add: relm_vm_copy_to_guest_def guest_ram_ok_def partial_result_def)
qed

lemma zero_in_ram:
  assumes g: "guest_ram_ok mm" and r: "in_ram mm (a, replicate n 0)" and "0 < n" "n < 2 ^ 31"
  shows "relm_vm_zero_guest_memory (Some mm) a n h = (Ret (Inr (int n)), put mm a (replicate n 0) h)"
proof -
  have "backed_run (mem_regions mm) a n = n" using in_ram_backed [OF g r] by (intro backed_run_full) simp
  then show ?thesis
    using zero_loop_spec [of "mem_regions mm" None 0 n a h] g assms(3,4) c_int_small [of n]
    by (simp add: relm_vm_zero_guest_memory_def guest_ram_ok_def put_def)
qed

lemma ram_view_put:
  assumes g: "guest_ram_ok mm" and r: "in_ram mm (a, bs)"
  shows "ram_view mm (put mm a bs h) = wr_bytes (ram_view mm h) a bs"
proof
  fix x
  have "unat (total_guest_ram mm) < 2 ^ 64" using unsigned_less [of "total_guest_ram mm"] by simp
  then have l: "length bs \<le> 2 ^ 64" using r by (simp add: in_ram_def)
  show "ram_view mm (put mm a bs h) x = wr_bytes (ram_view mm h) a bs x"
  proof (cases "x < total_guest_ram mm")
    case True
    with g have "guest_hpa (mem_regions mm) x \<noteq> None" "frames_ok (mem_regions mm)" by (auto simp: guest_ram_ok_def)
    with guest_byte_write [OF _ l in_ram_backed [OF g r], of x "pmem h"] True
    show ?thesis by (simp add: ram_view_def put_def wr_bytes_def)
  next
    case False
    have "\<not> unat (x - a) < length bs"
    proof
      assume c: "unat (x - a) < length bs"
      have "x = a + word_of_nat (unat (x - a))" by simp
      with in_ram_backed [OF g r c] g have "x < total_guest_ram mm" by (simp add: guest_ram_ok_def)
      with False show False by simp
    qed
    with False show ?thesis by (simp add: ram_view_def wr_bytes_def)
  qed
qed

lemma puts_simps [simp]:
  "puts mm [] h = h" "puts mm (w # ws) h = puts mm ws (put mm (fst w) (snd w) h)" "puts mm (ws @ ws') h = puts mm ws' (puts mm ws h)"
  by (simp_all add: puts_def case_prod_unfold)

lemma wr_all_simps [simp]:
  "wr_all [] m = m" "wr_all (w # ws) m = wr_all ws (wr_bytes m (fst w) (snd w))" "wr_all (ws @ ws') m = wr_all ws' (wr_all ws m)"
  by (simp_all add: wr_all_def case_prod_unfold)

lemma ram_view_puts:
  "guest_ram_ok mm \<Longrightarrow> list_all (in_ram mm) ws \<Longrightarrow> ram_view mm (puts mm ws h) = wr_all ws (ram_view mm h)"
  by (induction ws arbitrary: h) (auto simp: ram_view_put)

lemma puts_frame [simp]: "pool (puts mm ws h) = pool h" "kmem (puts mm ws h) = kmem h"
  by (induction ws arbitrary: h) (auto simp: put_def)

text \<open>Consecutive writes are one write.\<close>

lemma wr_bytes_append:
  assumes "length xs + length ys \<le> 2 ^ 64"
  shows "wr_bytes (wr_bytes m a xs) (a + word_of_nat (length xs)) ys = wr_bytes m a (xs @ ys)"
proof
  fix x
  let ?w = "word_of_nat (length xs) :: u64"
  have e: "x - (a + ?w) = (x - a) - ?w" by simp
  show "wr_bytes (wr_bytes m a xs) (a + ?w) ys x = wr_bytes m a (xs @ ys) x"
  proof (cases "ys = []")
    case False
    then have u: "unat ?w = length xs" using assms by (intro unat_word_of_nat_small) (cases ys; simp)
    show ?thesis
    proof (cases "unat (x - a) < length xs")
      case True
      have "unat ((x - a) - ?w) = unat (x - a) + 2 ^ 64 - length xs"
        using unat_sub_if_size [of "x - a" ?w] True u by (simp add: word_size)
      moreover have "\<not> unat (x - a) + 2 ^ 64 - length xs < length ys" using assms by arith
      ultimately show ?thesis unfolding wr_bytes_def e using True by (simp add: nth_append)
    next
      case F: False
      then have "unat ((x - a) - ?w) = unat (x - a) - length xs" using u by (subst unat_sub) (auto simp: word_le_nat_alt)
      then show ?thesis unfolding wr_bytes_def e using F by (auto simp: nth_append)
    qed
  qed simp
qed

lemma wr_all_blocks:
  assumes "\<And>v. length (g v) = k" "n * k \<le> 2 ^ 64"
  shows "wr_all (map (\<lambda>v. (a + word_of_nat (v * k), g v)) [0..<n]) m = wr_bytes m a (concat (map g [0..<n]))"
  using assms(2)
proof (induction n)
  case (Suc n)
  have l: "length (concat (map g [0..<n])) = n * k" by (simp add: length_concat comp_def assms(1) sum_list_triv)
  with Suc wr_bytes_append [of "concat (map g [0..<n])" "g n" m a] show ?case by (simp add: assms(1))
qed simp

section \<open>The load as a sequence of writes\<close>

text \<open>What the checks on the two files say, and the files' contents.\<close>

definition kernel_image :: "(string \<Rightarrow> u8 list res) \<Rightarrow> u64 \<Rightarrow> (relm_setup_header \<times> u8 list) res" where
  "kernel_image request_firmware ram =
     (case request_firmware RELM_KERNEL_FW_NAME of
        Inl e \<Rightarrow> Inl e
      | Inr fw \<Rightarrow>
        let hdr = take SETUP_HEADER_SIZE (drop RELM_BZIMAGE_HDR_OFFSET fw); payload = drop (setup_size_of hdr) fw in
        if length fw < RELM_BZIMAGE_HDR_OFFSET + SETUP_HEADER_SIZE then Inl EINVAL
        else (case relm_validate_setup_header hdr of
           Inl e \<Rightarrow> Inl e
         | Inr _ \<Rightarrow>
           if payload = [] then Inl EINVAL
           else if length payload > RELM_KERNEL_MAX_SIZE then Inl E2BIG
           else if load_gpa_of hdr + word_of_nat (length payload) > ram then Inl ENOMEM
           else if ram \<le> load_gpa_of hdr then Inl EFAULT
           else Inr (hdr, payload)))"

definition initrd_image :: "(string \<Rightarrow> u8 list res) \<Rightarrow> u64 \<Rightarrow> u8 list res" where
  "initrd_image request_firmware ram =
     (case request_firmware RELM_INITRD_FW_NAME of
        Inl e \<Rightarrow> Inr []
      | Inr fw \<Rightarrow>
        if length fw > RELM_INITRD_MAX_SIZE then Inl E2BIG
        else if RELM_INITRD_LOAD_GPA + word_of_nat (length fw) > ram then Inl ENOMEM
        else if fw = [] then Inl EINVAL
        else Inr fw)"

definition cmdline_of :: "string option \<Rightarrow> u8 list" where
  "cmdline_of cmdline =
     (let s = (case cmdline of None \<Rightarrow> RELM_DEFAULT_CMDLINE | Some s \<Rightarrow> s) in take (strnlen s (RELM_CMDLINE_MAX_LEN - 1)) (str_bytes s))"

definition cmdline_writes :: "u8 list \<Rightarrow> (u64 \<times> u8 list) list" where
  "cmdline_writes cmd = [(RELM_CMDLINE_GPA, replicate RELM_CMDLINE_MAX_LEN 0), (RELM_CMDLINE_GPA, cmd),
     (RELM_CMDLINE_GPA + word_of_nat (length cmd), [0])]"

definition params_writes :: "relm_setup_header \<Rightarrow> u32 \<Rightarrow> u64 \<Rightarrow> (u64 \<times> u8 list) list" where
  "params_writes hdr initrd_size ram =
     [(RELM_BOOT_PARAMS_GPA, replicate 4096 0), (RELM_BOOT_PARAMS_GPA + 0x1F1, boot_header hdr initrd_size), (RELM_BOOT_PARAMS_GPA + 0x1E8, [4])] @
     map (\<lambda>v. (RELM_BOOT_PARAMS_GPA + 0x2D0 + word_of_nat (v * 20), e820_entry_bytes (e820_layout ram ! v))) [0..<4]"

definition table_writes :: "(u64 \<times> u8 list) list" where
  "table_writes =
     [(RELM_GUEST_GDT_GPA, replicate 4096 0), (RELM_GUEST_IDT_GPA, replicate 4096 0), (RELM_GUEST_IDT_STUBS_GPA, replicate 4096 0),
      (RELM_GUEST_GDT_GPA, le_bytes 8 0), (RELM_GUEST_GDT_GPA + 8, le_bytes 8 0x00AF9B000000FFFF),
      (RELM_GUEST_GDT_GPA + 16, le_bytes 8 0x00CF93000000FFFF)] @
     map (\<lambda>v. (RELM_GUEST_IDT_STUBS_GPA + word_of_nat (v * 16), idt_stub v)) [0..<256] @
     map (\<lambda>v. (RELM_GUEST_IDT_GPA + word_of_nat (v * 16), idt_gate (RELM_GUEST_IDT_STUBS_GPA + word_of_nat (v * 16)))) [0..<256]"

lemma and_then_simps [simp]:
  "and_then (None, h) f = (None, h)" "and_then (Some (Inl e), h) f = (Some (Inl e), h)" "and_then (Some (Inr x), h) f = f x h"
  by (simp_all add: and_then_def)

lemma result_simps [simp]:
  "count_result (Fault, h) = (None, h)" "count_result (Ret (Inl e), h) = (Some (Inl e), h)" "count_result (Ret (Inr k), h) = (Some (Inr ()), h)"
  "exact_result n (Ret (Inr k), h) = (Some (if k = int n then Inr () else Inl EIO), h)"
  by (simp_all add: count_result_def exact_result_def)

lemma kernel_load_eq:
  assumes g: "guest_ram_ok mm"
  shows "relm_kernel_load fw (Some mm) True h =
    (case kernel_image fw (total_guest_ram mm) of
       Inl e \<Rightarrow> (Some (Inl e), h)
     | Inr (hdr, payload) \<Rightarrow> (Some (Inr (hdr, load_gpa_of hdr + 0x200)), puts mm [(load_gpa_of hdr, payload)] h))"
proof (cases "fw RELM_KERNEL_FW_NAME")
  case (Inr img)
  define hdr where "hdr = take SETUP_HEADER_SIZE (drop RELM_BZIMAGE_HDR_OFFSET img)"
  define n where "n = setup_size_of hdr"
  define p where "p = drop n img"
  define a where "a = load_gpa_of hdr"
  let ?t = "total_guest_ram mm"
  have pn: "p = [] \<longleftrightarrow> length img \<le> n" "length p = length img - n" by (simp_all add: p_def)
  have cp: "count_result (relm_vm_copy_to_guest (Some mm) a (Some p) h) =
      (if ?t \<le> a then (Some (Inl EFAULT), h) else (Some (Inr ()), puts mm [(a, p)] h))"
    if p: "p \<noteq> []" "length p \<le> RELM_KERNEL_MAX_SIZE" "\<not> a + word_of_nat (length p) > ?t"
  proof (cases "?t \<le> a")
    case True
    then show ?thesis using copy_out_of_ram [OF g True p(1)] p(2) by simp
  next
    case False
    have t: "unat ?t \<le> 2 ^ 48" using g by (simp add: guest_ram_ok_def word_le_nat_alt)
    then have "unat (a + word_of_nat (length p)) = unat a + length p"
      using False p(2) by (intro unat_add_nat) (simp add: word_le_nat_alt)
    then have "in_ram mm (a, p)" using p(3) by (simp add: in_ram_def word_less_nat_alt)
    then show ?thesis using False copy_in_ram [OF g _ p(1)] p(2) by simp
  qed
  show ?thesis
    unfolding relm_kernel_load_def kernel_image_def Inr option.case sum.case Let_def hdr_def [symmetric] n_def [symmetric] p_def [symmetric] a_def [symmetric]
    using pn cp by (cases "relm_validate_setup_header hdr") (auto simp: not_less a_def [symmetric])
qed (simp add: relm_kernel_load_def kernel_image_def)

lemma initrd_load_eq:
  assumes g: "guest_ram_ok mm"
  shows "relm_initrd_load fw (Some mm) True h =
    (case initrd_image fw (total_guest_ram mm) of
       Inl e \<Rightarrow> (Some (Inl e), h)
     | Inr rd \<Rightarrow> (Some (Inr (word_of_nat (length rd))), puts mm (if rd = [] then [] else [(RELM_INITRD_LOAD_GPA, rd)]) h))"
proof (cases "fw RELM_INITRD_FW_NAME")
  case (Inr img)
  have "relm_vm_copy_to_guest (Some mm) RELM_INITRD_LOAD_GPA (Some img) h =
      (if img = [] then (Ret (Inl EINVAL), h) else (Ret (Inr (int (length img))), put mm RELM_INITRD_LOAD_GPA img h))"
    if p: "length img \<le> RELM_INITRD_MAX_SIZE" "\<not> RELM_INITRD_LOAD_GPA + word_of_nat (length img) > total_guest_ram mm"
  proof (cases "img = []")
    case False
    have "unat (RELM_INITRD_LOAD_GPA + word_of_nat (length img)) = unat RELM_INITRD_LOAD_GPA + length img"
      using p(1) by (intro unat_add_nat) simp
    then have "in_ram mm (RELM_INITRD_LOAD_GPA, img)" using p(2) by (simp add: in_ram_def word_less_nat_alt)
    with False p(1) copy_in_ram [OF g] show ?thesis by simp
  qed (simp add: relm_vm_copy_to_guest_def)
  with Inr show ?thesis by (simp add: relm_initrd_load_def initrd_image_def)
qed (simp add: relm_initrd_load_def initrd_image_def)


lemma cmdline_length: "length (cmdline_of c) \<le> 4095"
  by (simp add: cmdline_of_def strnlen_def str_bytes_def Let_def)

lemma in_low_ram:
  "0x200000 \<le> total_guest_ram mm \<Longrightarrow> unat a + length bs \<le> 0x200000 \<Longrightarrow> in_ram mm (a, bs)"
  by (simp add: in_ram_def word_le_nat_alt)

lemmas low_copies = copy_in_ram [OF _ in_low_ram] zero_in_ram [OF _ in_low_ram]

lemma cmdline_load_eq:
  assumes g: "guest_ram_ok mm" and t: "0x200000 \<le> total_guest_ram mm"
  shows "relm_cmdline_load (Some mm) c h =
    (if cmdline_of c = [] then (Some (Inl EINVAL), puts mm [(RELM_CMDLINE_GPA, replicate 4096 0)] h)
     else (Some (Inr ()), puts mm (cmdline_writes (cmdline_of c)) h))"
proof -
  define s where "s = (case c of None \<Rightarrow> RELM_DEFAULT_CMDLINE | Some s \<Rightarrow> s)"
  define n where "n = strnlen s (RELM_CMDLINE_MAX_LEN - 1)"
  have c: "cmdline_of c = take n (str_bytes s)" by (simp add: cmdline_of_def s_def n_def Let_def)
  have "n \<le> length s" using length_takeWhile_le [of "\<lambda>c. c \<noteq> CHR 0x00" s] by (simp add: n_def strnlen_def)
  then have n: "length (cmdline_of c) = n" "n \<le> 4095" by (auto simp: c str_bytes_def n_def strnlen_def)
  have u: "unat (RELM_CMDLINE_GPA + word_of_nat n) = 0x20000 + n" using n(2) by (subst unat_add_nat) auto
  show ?thesis
    unfolding relm_cmdline_load_def option.case s_def [symmetric] Let_def n_def [symmetric] c [symmetric]
    using n u by (simp add: low_copies [OF g t] relm_vm_copy_to_guest_def [of _ _ "Some []"] relm_guest_write_u8_def cmdline_writes_def)
qed

lemma length_entry_bytes [simp]: "length (e820_entry_bytes e) = 20"
  by (simp add: e820_entry_bytes_def)

lemma length_hdr_set [simp]: "off - RELM_BZIMAGE_HDR_OFFSET + n \<le> length hdr \<Longrightarrow> length (hdr_set off n v hdr) = length hdr"
  by (simp add: hdr_set_def Let_def)

lemma length_boot_header [simp]: "length hdr = SETUP_HEADER_SIZE \<Longrightarrow> length (boot_header hdr n) = SETUP_HEADER_SIZE"
  by (simp add: boot_header_def Let_def)

lemma write_e820_eq:
  assumes g: "guest_ram_ok mm" and t: "0x200000 \<le> total_guest_ram mm" and "(i + length es) * 20 \<le> 4096"
  shows "write_e820 (Some mm) i es h =
    (Some (Inr ()), puts mm (map (\<lambda>v. (RELM_BOOT_PARAMS_GPA + 0x2D0 + word_of_nat (v * 20), e820_entry_bytes (es ! (v - i)))) [i..<i + length es]) h)"
  using assms(3)
proof (induction es arbitrary: i h)
  case (Cons e es)
  define a where "a = RELM_BOOT_PARAMS_GPA + 0x2D0 + word_of_nat (i * 20)"
  have "unat a \<le> 0x20000" unfolding a_def using Cons.prems by (subst unat_add_nat) auto
  then have c: "count_result (relm_vm_copy_to_guest (Some mm) a (Some (e820_entry_bytes e)) h) = (Some (Inr ()), put mm a (e820_entry_bytes e) h)"
    by (subst low_copies(1) [OF g t]) (auto simp flip: length_greater_0_conv)
  have u: "[i..<i + length (e # es)] = i # [i + 1..<i + 1 + length es]" using upt_conv_Cons [of i "i + length (e # es)"] by simp
  have m: "map (\<lambda>v. (RELM_BOOT_PARAMS_GPA + 0x2D0 + word_of_nat (v * 20), e820_entry_bytes ((e # es) ! (v - i)))) [i..<i + length (e # es)] =
      (a, e820_entry_bytes e) # map (\<lambda>v. (RELM_BOOT_PARAMS_GPA + 0x2D0 + word_of_nat (v * 20), e820_entry_bytes (es ! (v - (i + 1))))) [i + 1..<i + 1 + length es]"
    unfolding u list.map by (intro arg_cong2 [where f = Cons] map_cong) (auto simp: a_def nth_Cons' simp del: of_nat_mult)
  show ?case
    unfolding write_e820.simps(2) m a_def [symmetric] c and_then_simps puts_simps(2) fst_conv snd_conv
    by (rule Cons.IH) (use Cons.prems in simp)
qed simp


lemma length_layout: "length (e820_layout ram) = 4"
  by (simp add: e820_layout_def)

lemma params_build_eq:
  assumes g: "guest_ram_ok mm" and t: "0x200000 \<le> total_guest_ram mm" and l: "length hdr = SETUP_HEADER_SIZE"
  shows "relm_boot_params_build (Some mm) (Some hdr) n h = (Some (Inr RELM_BOOT_PARAMS_GPA), puts mm (params_writes hdr n (total_guest_ram mm)) h)"
proof -
  obtain e820 where e: "relm_e820_build (total_guest_ram mm) blank_e820_map = (Inr (), e820)"
      "take (e820_count e820) (e820_entries e820) = e820_layout (total_guest_ram mm)" "e820_count e820 = 4"
    using relm_e820_build_ok [OF t, of blank_e820_map] by (metis prod.collapse)
  have w: "write_e820 (Some mm) 0 (e820_layout (total_guest_ram mm)) h = (Some (Inr ()),
      puts mm (map (\<lambda>v. (RELM_BOOT_PARAMS_GPA + 0x2D0 + word_of_nat (v * 20), e820_entry_bytes (e820_layout (total_guest_ram mm) ! v))) [0..<4]) h)" for h
    using write_e820_eq [OF g t, of 0 "e820_layout (total_guest_ram mm)" h] by (simp only: length_layout) simp
  have b: "boot_header hdr n \<noteq> []" using length_boot_header [OF l, of n] by auto
  show ?thesis
    unfolding relm_boot_params_build_def option.case prod.case e(1,2) sum.case params_writes_def puts_simps
    using l b by (simp add: low_copies [OF g t] e(3) w relm_guest_write_u8_def)
qed

lemma for_vectors_eq:
  assumes "\<And>v h. v \<in> set vs \<Longrightarrow> f v h = (Some (Inr ()), put mm (a v) (g v) h)"
  shows "for_vectors f vs h = (Some (Inr ()), puts mm (map (\<lambda>v. (a v, g v)) vs) h)"
  using assms by (induction vs arbitrary: h) auto

lemma length_tables [simp]: "length (idt_gate x) = 16" "length (idt_stub v) = 16"
  by (simp_all add: idt_gate_def idt_stub_def relm_idt_stub_template_def)

lemma write_block_16:
  assumes "guest_ram_ok mm" "0x200000 \<le> total_guest_ram mm" "v < 256" "length bs = 16" "unat a \<le> 0x10000"
  shows "exact_result 16 (relm_vm_copy_to_guest (Some mm) (a + word_of_nat (v * 16)) (Some bs) h) =
    (Some (Inr ()), put mm (a + word_of_nat (v * 16)) bs h)"
proof -
  have "unat (a + word_of_nat (v * 16)) = unat a + v * 16" using assms(3,5) by (intro unat_add_nat) simp
  moreover have "bs \<noteq> []" using assms(4) by auto
  ultimately show ?thesis using assms low_copies(1) [OF assms(1,2), of "a + word_of_nat (v * 16)" bs h] by simp
qed

lemma install_tables_eq:
  assumes g: "guest_ram_ok mm" and t: "0x200000 \<le> total_guest_ram mm"
  shows "relm_install_diag_idt_gdt (Some mm) h = (Some (Inr ()), puts mm table_writes h)"
proof -
  have s: "for_vectors (relm_write_idt_stub (Some mm)) [0..<256] h =
      (Some (Inr ()), puts mm (map (\<lambda>v. (RELM_GUEST_IDT_STUBS_GPA + word_of_nat (v * 16), idt_stub v)) [0..<256]) h)" for h
    by (rule for_vectors_eq) (unfold relm_write_idt_stub_def, rule write_block_16 [OF g t], simp_all)
  have i: "for_vectors (\<lambda>v. relm_write_idt_gate (Some mm) v (RELM_GUEST_IDT_STUBS_GPA + word_of_nat (v * 16))) [0..<256] h =
      (Some (Inr ()), puts mm (map (\<lambda>v. (RELM_GUEST_IDT_GPA + word_of_nat (v * 16), idt_gate (RELM_GUEST_IDT_STUBS_GPA + word_of_nat (v * 16)))) [0..<256]) h)" for h
    by (rule for_vectors_eq) (unfold relm_write_idt_gate_def, rule write_block_16 [OF g t], simp_all)
  have e: "le_bytes 8 v \<noteq> []" for v by (simp add: numeral_eq_Suc)
  show ?thesis
    unfolding relm_install_diag_idt_gdt_def option.case table_writes_def puts_simps
    using e by (simp add: low_copies [OF g t] relm_write_gdt_entry_def s i del: of_nat_mult)
qed


definition boot_writes :: "relm_setup_header \<Rightarrow> u8 list \<Rightarrow> u8 list \<Rightarrow> u8 list \<Rightarrow> u64 \<Rightarrow> (u64 \<times> u8 list) list" where
  "boot_writes hdr payload rd cmd ram = (load_gpa_of hdr, payload) # (if rd = [] then [] else [(RELM_INITRD_LOAD_GPA, rd)]) @
     cmdline_writes cmd @ params_writes hdr (word_of_nat (length rd)) ram @ table_writes"

definition cfg_cmd :: "relm_boot_config option \<Rightarrow> u8 list" where
  "cfg_cmd cfg = cmdline_of (case cfg of None \<Rightarrow> None | Some c \<Rightarrow> cfg_cmdline c)"

lemma kernel_image_facts:
  assumes "kernel_image fw ram = Inr (hdr, payload)"
  shows "length hdr = SETUP_HEADER_SIZE" "payload \<noteq> []" "length payload \<le> RELM_KERNEL_MAX_SIZE"
    "load_gpa_of hdr + word_of_nat (length payload) \<le> ram" "load_gpa_of hdr < ram" "relm_validate_setup_header hdr = Inr ()"
  using assms by (auto simp: kernel_image_def Let_def not_less not_le split: sum.splits if_splits)

lemma initrd_image_facts:
  assumes "initrd_image fw ram = Inr rd" "rd \<noteq> []"
  shows "length rd \<le> RELM_INITRD_MAX_SIZE" "RELM_INITRD_LOAD_GPA + word_of_nat (length rd) \<le> ram"
  using assms by (auto simp: initrd_image_def not_less split: sum.splits if_splits)

text \<open>The load in closed form: which errors it reports, and the writes of a success.\<close>

lemma boot_load_eq:
  assumes g: "guest_ram_ok mm" and t: "0x200000 \<le> total_guest_ram mm"
  shows "relm_boot_load fw (Some (mm, b)) True cfg h =
    (case kernel_image fw (total_guest_ram mm) of
       Inl e \<Rightarrow> (Some (Inl e), h)
     | Inr (hdr, payload) \<Rightarrow>
       (case initrd_image fw (total_guest_ram mm) of
          Inl e \<Rightarrow> (Some (Inl e), puts mm [(load_gpa_of hdr, payload)] h)
        | Inr rd \<Rightarrow>
          if cfg_cmd cfg = [] then (Some (Inl EINVAL), puts mm ((load_gpa_of hdr, payload) # (if rd = [] then [] else [(RELM_INITRD_LOAD_GPA, rd)]) @
            [(RELM_CMDLINE_GPA, replicate 4096 0)]) h)
          else (Some (Inr (b\<lparr>vb_boot_params_gpa := RELM_BOOT_PARAMS_GPA, vb_kernel_entry_gpa := load_gpa_of hdr + 0x200\<rparr>)),
            puts mm (boot_writes hdr payload rd (cfg_cmd cfg) (total_guest_ram mm)) h)))"
proof (cases "kernel_image fw (total_guest_ram mm)")
  case (Inl e)
  then show ?thesis by (simp add: relm_boot_load_def kernel_load_eq [OF g])
next
  case (Inr p)
  obtain hdr payload where p: "p = (hdr, payload)" by (cases p)
  note k = Inr [unfolded p]
  have l: "length hdr = SETUP_HEADER_SIZE" using kernel_image_facts(1) [OF k] .
  show ?thesis
    unfolding relm_boot_load_def Let_def option.case prod.case kernel_load_eq [OF g] initrd_load_eq [OF g] cmdline_load_eq [OF g t] k sum.case
      cfg_cmd_def [symmetric]
    by (cases "initrd_image fw (total_guest_ram mm)")
      (simp_all add: params_build_eq [OF g t l] install_tables_eq [OF g t] boot_writes_def)
qed

lemma boot_writes_in_ram:
  assumes g: "guest_ram_ok mm" and t: "0x200000 \<le> total_guest_ram mm"
    and k: "kernel_image fw (total_guest_ram mm) = Inr (hdr, payload)" and i: "initrd_image fw (total_guest_ram mm) = Inr rd"
    and c: "length cmd \<le> 4095"
  shows "list_all (in_ram mm) (boot_writes hdr payload rd cmd (total_guest_ram mm))"
proof -
  let ?t = "total_guest_ram mm"
  note kf = kernel_image_facts [OF k]
  have u: "unat ?t \<le> 2 ^ 48" using g by (simp add: guest_ram_ok_def word_le_nat_alt)
  have "unat (load_gpa_of hdr + word_of_nat (length payload)) = unat (load_gpa_of hdr) + length payload"
    using kf(3,5) u by (intro unat_add_nat) (simp add: word_less_nat_alt)
  then have a: "in_ram mm (load_gpa_of hdr, payload)" using kf(4) by (simp add: in_ram_def word_le_nat_alt)
  have b: "in_ram mm (RELM_INITRD_LOAD_GPA, rd)" if "rd \<noteq> []"
  proof -
    note f = initrd_image_facts [OF i that]
    have "unat (RELM_INITRD_LOAD_GPA + word_of_nat (length rd)) = unat RELM_INITRD_LOAD_GPA + length rd" using f(1) by (intro unat_add_nat) simp
    with f(2) show ?thesis by (simp add: in_ram_def word_le_nat_alt)
  qed
  have cu: "unat (RELM_CMDLINE_GPA + word_of_nat (length cmd)) = 0x20000 + length cmd" using c by (subst unat_add_nat) auto
  have s: "in_ram mm (w + word_of_nat (v * n), bs)" if "v * n + length bs \<le> 0x10000" "unat w \<le> 0x10000" for v n w and bs :: "u8 list"
  proof -
    have "unat (w + word_of_nat (v * n)) = unat w + v * n" using that by (intro unat_add_nat) simp
    with that show ?thesis by (intro in_low_ram [OF t]) simp
  qed
  show ?thesis
    unfolding boot_writes_def cmdline_writes_def params_writes_def table_writes_def
    using a b c cu kf(1) s
    by (simp add: in_low_ram [OF t] list_all_iff ball_Un del: of_nat_mult)
qed


section \<open>What the guest finds in its RAM\<close>

lemma rd_wr_disjoint:
  assumes "unat a + n \<le> 2 ^ 64" "unat b + length bs \<le> 2 ^ 64" "unat a + n \<le> unat b \<or> unat b + length bs \<le> unat a"
  shows "rd_bytes (wr_bytes m b bs) a n = rd_bytes m a n"
proof (rule rd_bytes_eqI, rule wr_bytes_other)
  fix i assume i: "i < n"
  let ?x = "a + word_of_nat i"
  have x: "unat ?x = unat a + i" using i assms(1) by (intro unat_add_nat) simp
  have "unat (?x - b) = (if unat b \<le> unat ?x then unat ?x - unat b else unat ?x + 2 ^ 64 - unat b)"
    using unat_sub_if_size [of ?x b] by (simp add: word_size)
  then show "length bs \<le> unat (?x - b)" using x i assms by auto
qed

lemma rd_bytes_split: "rd_bytes m a (n + k) = rd_bytes m a n @ rd_bytes m (a + word_of_nat n) k"
  by (rule nth_equalityI) (auto simp: nth_append add.assoc)

text \<open>The writes below 1 MiB, merged: the descriptor tables, the parameter page and the command line.\<close>

definition table_bytes :: "u8 list" where
  "table_bytes = le_bytes 8 0 @ le_bytes 8 0x00AF9B000000FFFF @ le_bytes 8 0x00CF93000000FFFF"

definition stub_bytes :: "u8 list" where
  "stub_bytes = concat (map idt_stub [0..<256])"

definition gate_bytes :: "u8 list" where
  "gate_bytes = concat (map (\<lambda>v. idt_gate (RELM_GUEST_IDT_STUBS_GPA + word_of_nat (v * 16))) [0..<256])"

lemma length_table_bytes [simp]: "length table_bytes = 24" "length stub_bytes = 4096" "length gate_bytes = 4096"
  by (simp_all add: table_bytes_def stub_bytes_def gate_bytes_def length_concat comp_def sum_list_triv)

lemma table_writes_merged:
  "wr_all table_writes m =
     wr_bytes (wr_bytes (wr_bytes (wr_bytes (wr_bytes (wr_bytes m 0x4000 (replicate 4096 0)) 0x5000 (replicate 4096 0)) 0x6000 (replicate 4096 0))
       0x4000 table_bytes) 0x6000 stub_bytes) 0x5000 gate_bytes"
proof -
  have t: "wr_bytes (wr_bytes (wr_bytes m' 0x4000 (le_bytes 8 0)) 0x4008 (le_bytes 8 0x00AF9B000000FFFF)) 0x4010 (le_bytes 8 0x00CF93000000FFFF) =
      wr_bytes m' 0x4000 table_bytes" for m'
    using wr_bytes_append [of "le_bytes 8 0" "le_bytes 8 0x00AF9B000000FFFF" m' "0x4000"]
      wr_bytes_append [of "le_bytes 8 0 @ le_bytes 8 0x00AF9B000000FFFF" "le_bytes 8 0x00CF93000000FFFF" m' "0x4000"]
    by (simp add: table_bytes_def del: le_bytes.simps)
  have s: "wr_all (map (\<lambda>v. (0x6000 + word_of_nat (v * 16), idt_stub v)) [0..<256]) m' = wr_bytes m' 0x6000 stub_bytes" for m'
    unfolding stub_bytes_def by (rule wr_all_blocks) simp_all
  have i: "wr_all (map (\<lambda>v. (0x5000 + word_of_nat (v * 16), idt_gate (0x6000 + word_of_nat (v * 16)))) [0..<256]) m' = wr_bytes m' 0x5000 gate_bytes" for m'
    unfolding gate_bytes_def by (rule wr_all_blocks) simp_all
  show ?thesis by (simp add: table_writes_def s i t del: of_nat_mult)
qed

lemma params_writes_merged:
  "wr_all (params_writes hdr n ram) m =
     wr_bytes (wr_bytes (wr_bytes (wr_bytes m 0x7000 (replicate 4096 0)) 0x71F1 (boot_header hdr n)) 0x71E8 [4])
       0x72D0 (concat (map e820_entry_bytes (e820_layout ram)))"
proof -
  have "map (\<lambda>v. e820_entry_bytes (e820_layout ram ! v)) [0..<4] = map e820_entry_bytes (e820_layout ram)"
    using map_nth [of "e820_layout ram"] by (simp add: length_layout flip: map_map comp_def [of e820_entry_bytes "nth (e820_layout ram)"])
  moreover have "wr_all (map (\<lambda>v. (0x72D0 + word_of_nat (v * 20), e820_entry_bytes (e820_layout ram ! v))) [0..<4]) m' =
      wr_bytes m' 0x72D0 (concat (map (\<lambda>v. e820_entry_bytes (e820_layout ram ! v)) [0..<4]))" for m'
    by (rule wr_all_blocks) simp_all
  ultimately show ?thesis by (simp add: params_writes_def del: of_nat_mult)
qed

lemma length_e820_table [simp]: "length (concat (map e820_entry_bytes (e820_layout ram))) = 80"
  by (simp add: e820_layout_def)

lemma low_writes_keep:
  assumes "unat a + n \<le> 2 ^ 64"
  shows "unat a + n \<le> 0x4000 \<or> 0x7000 \<le> unat a \<Longrightarrow> rd_bytes (wr_all table_writes m) a n = rd_bytes m a n"
    and "unat a + n \<le> 0x7000 \<or> 0x8000 \<le> unat a \<Longrightarrow> length hdr = SETUP_HEADER_SIZE \<Longrightarrow>
      rd_bytes (wr_all (params_writes hdr k ram) m) a n = rd_bytes m a n"
    and "unat a + n \<le> 0x20000 \<or> 0x21000 \<le> unat a \<Longrightarrow> length cmd \<le> 4095 \<Longrightarrow>
      rd_bytes (wr_all (cmdline_writes cmd) m) a n = rd_bytes m a n"
proof -
  show "rd_bytes (wr_all table_writes m) a n = rd_bytes m a n" if "unat a + n \<le> 0x4000 \<or> 0x7000 \<le> unat a"
    unfolding table_writes_merged using that assms by (auto simp: rd_wr_disjoint)
  show "rd_bytes (wr_all (params_writes hdr k ram) m) a n = rd_bytes m a n" if "unat a + n \<le> 0x7000 \<or> 0x8000 \<le> unat a" "length hdr = SETUP_HEADER_SIZE"
    unfolding params_writes_merged using that assms by (auto simp: rd_wr_disjoint)
  assume c: "unat a + n \<le> 0x20000 \<or> 0x21000 \<le> unat a" "length cmd \<le> 4095"
  have "unat (0x20000 + word_of_nat (length cmd) :: u64) = 0x20000 + length cmd" using c(2) by (subst unat_add_nat) auto
  then show "rd_bytes (wr_all (cmdline_writes cmd) m) a n = rd_bytes m a n"
    unfolding cmdline_writes_def using c assms by (auto simp: rd_wr_disjoint)
qed

lemma rd_wr_prefix:
  assumes "n \<le> length bs" "length bs \<le> 2 ^ 64"
  shows "rd_bytes (wr_bytes m a bs) a n = take n bs"
  by (rule nth_equalityI) (use assms in \<open>auto simp: wr_bytes_def unat_word_of_nat_small\<close>)

lemma low_writes_read:
  shows "length cmd \<le> 4095 \<Longrightarrow> rd_bytes (wr_all (cmdline_writes cmd) m) 0x20000 (length cmd + 1) = cmd @ [0]"
    and "length hdr = SETUP_HEADER_SIZE \<Longrightarrow> rd_bytes (wr_all (params_writes hdr k ram) m) 0x71F1 SETUP_HEADER_SIZE = boot_header hdr k"
    and "rd_bytes (wr_all (params_writes hdr k ram) m) 0x71E8 1 = [4]"
    and "rd_bytes (wr_all (params_writes hdr k ram) m) 0x72D0 80 = concat (map e820_entry_bytes (e820_layout ram))"
    and "rd_bytes (wr_all table_writes m) 0x5000 4096 = gate_bytes"
    and "rd_bytes (wr_all table_writes m) 0x6000 4096 = stub_bytes"
    and "rd_bytes (wr_all table_writes m) 0x4000 24 = table_bytes"
proof -
  assume c: "length cmd \<le> 4095"
  have "wr_all (cmdline_writes cmd) m = wr_bytes (wr_bytes m 0x20000 (replicate 4096 0)) 0x20000 (cmd @ [0])"
    using wr_bytes_append [of cmd "[0]" _ "0x20000"] c by (simp add: cmdline_writes_def)
  then show "rd_bytes (wr_all (cmdline_writes cmd) m) 0x20000 (length cmd + 1) = cmd @ [0]" using c by (simp add: rd_wr_prefix)
qed (simp_all add: params_writes_merged table_writes_merged rd_wr_disjoint rd_wr_prefix)


lemma boot_load_success:
  assumes g: "guest_ram_ok mm" and t: "0x200000 \<le> total_guest_ram mm"
    and run: "relm_boot_load fw (Some (mm, b)) True cfg h = (Some (Inr b'), h')"
  obtains hdr payload rd where "kernel_image fw (total_guest_ram mm) = Inr (hdr, payload)" "initrd_image fw (total_guest_ram mm) = Inr rd"
    "cfg_cmd cfg \<noteq> []" "b' = b\<lparr>vb_boot_params_gpa := RELM_BOOT_PARAMS_GPA, vb_kernel_entry_gpa := load_gpa_of hdr + 0x200\<rparr>"
    "h' = puts mm (boot_writes hdr payload rd (cfg_cmd cfg) (total_guest_ram mm)) h"
    "ram_view mm h' = wr_all (boot_writes hdr payload rd (cfg_cmd cfg) (total_guest_ram mm)) (ram_view mm h)"
proof -
  from run obtain hdr payload rd where k: "kernel_image fw (total_guest_ram mm) = Inr (hdr, payload)"
      and i: "initrd_image fw (total_guest_ram mm) = Inr rd" and r: "cfg_cmd cfg \<noteq> []"
      "b' = b\<lparr>vb_boot_params_gpa := RELM_BOOT_PARAMS_GPA, vb_kernel_entry_gpa := load_gpa_of hdr + 0x200\<rparr>"
      "h' = puts mm (boot_writes hdr payload rd (cfg_cmd cfg) (total_guest_ram mm)) h"
    unfolding boot_load_eq [OF g t] by (auto split: sum.splits if_splits)
  have "length (cfg_cmd cfg) \<le> 4095" by (simp add: cfg_cmd_def cmdline_length)
  from ram_view_puts [OF g boot_writes_in_ram [OF g t k i this]] r(3)
  show thesis by (intro that [OF k i r]) simp
qed

definition low_area :: "nat \<Rightarrow> nat \<Rightarrow> bool" where
  "low_area a n \<longleftrightarrow> a + n \<le> 0x4000 \<or> 0x8000 \<le> a \<and> a + n \<le> 0x20000 \<or> 0x21000 \<le> a"

text \<open>Above the parameter area, or in its gaps, only the kernel and the RAM disk are written.\<close>

lemma boot_writes_area:
  assumes "low_area (unat a) n" "unat a + n \<le> 2 ^ 64" "length hdr = SETUP_HEADER_SIZE" "length cmd \<le> 4095"
  shows "rd_bytes (wr_all (boot_writes hdr payload rd cmd ram) m) a n =
    rd_bytes (wr_bytes (wr_bytes m (load_gpa_of hdr) payload) RELM_INITRD_LOAD_GPA rd) a n"
  unfolding boot_writes_def using assms
  by (auto simp: low_area_def low_writes_keep)

lemma boot_writes_low:
  assumes "length hdr = SETUP_HEADER_SIZE" "length cmd \<le> 4095"
  shows "rd_bytes (wr_all (boot_writes hdr payload rd cmd ram) m) 0x20000 (length cmd + 1) = cmd @ [0]"
    and "rd_bytes (wr_all (boot_writes hdr payload rd cmd ram) m) 0x71F1 SETUP_HEADER_SIZE = boot_header hdr (word_of_nat (length rd))"
    and "rd_bytes (wr_all (boot_writes hdr payload rd cmd ram) m) 0x71E8 1 = [4]"
    and "rd_bytes (wr_all (boot_writes hdr payload rd cmd ram) m) 0x72D0 80 = concat (map e820_entry_bytes (e820_layout ram))"
    and "rd_bytes (wr_all (boot_writes hdr payload rd cmd ram) m) 0x5000 4096 = gate_bytes"
    and "rd_bytes (wr_all (boot_writes hdr payload rd cmd ram) m) 0x6000 4096 = stub_bytes"
    and "rd_bytes (wr_all (boot_writes hdr payload rd cmd ram) m) 0x4000 24 = table_bytes"
  unfolding boot_writes_def using assms by (simp_all add: low_writes_keep low_writes_read low_writes_read(1,3) [simplified])



text \<open>The RAM disk is loaded after the kernel and the two are not compared: where their ranges meet above the parameter area,
  the kernel is overwritten, and the load still reports success.\<close>

theorem initrd_overwrites_kernel:
  assumes "guest_ram_ok mm" and "0x200000 \<le> total_guest_ram mm"
    and "relm_boot_load fw (Some (mm, b)) True cfg h = (Some (Inr b'), h')"
    and "kernel_image fw (total_guest_ram mm) = Inr (hdr, payload)" and "initrd_image fw (total_guest_ram mm) = Inr rd"
    and "0x4000000 \<le> a" and "unat a < 0x4000000 + length rd"
  shows "ram_view mm h' a = rd ! (unat a - 0x4000000)"
proof (rule boot_load_success [OF assms(1-3)], goal_cases)
  case (1 hdr' payload' rd')
  have c: "length (cfg_cmd cfg) \<le> 4095" by (simp add: cfg_cmd_def cmdline_length)
  have e: "hdr' = hdr" "rd' = rd" using 1(1,2) assms(4,5) by simp_all
  have u: "0x4000000 \<le> unat a" using assms(6) by (simp add: word_le_nat_alt)
  have "unat a < 2 ^ 64" using unsigned_less [of a] by simp
  then have "rd_bytes (ram_view mm h') a 1 = rd_bytes (wr_bytes (wr_bytes (ram_view mm h) (load_gpa_of hdr) payload') RELM_INITRD_LOAD_GPA rd) a 1"
    unfolding 1(6) e using u kernel_image_facts(1) [OF assms(4)] c by (intro boot_writes_area) (auto simp: low_area_def)
  moreover have "unat (a - 0x4000000) = unat a - 0x4000000" using assms(6) by (simp add: unat_sub)
  moreover have "unat a - 0x4000000 < length rd" using assms(7) u by arith
  ultimately show ?case by (simp add: rd_bytes_def wr_bytes_def)
qed


text \<open>Fields of the setup header.\<close>

lemma hdr_get_set_same:
  "off - RELM_BZIMAGE_HDR_OFFSET + n \<le> length hdr \<Longrightarrow> hdr_get off n (hdr_set off n v hdr) = take_bit (8 * n) v"
  by (simp add: hdr_get_def hdr_set_def Let_def le_word_le_bytes)

lemma hdr_get_set_other:
  assumes "RELM_BZIMAGE_HDR_OFFSET \<le> off" "RELM_BZIMAGE_HDR_OFFSET \<le> off'" "off' - RELM_BZIMAGE_HDR_OFFSET + n' \<le> length hdr"
    and "off + n \<le> off' \<or> off' + n' \<le> off"
  shows "hdr_get off n (hdr_set off' n' v hdr) = hdr_get off n hdr"
proof -
  let ?o = "off - RELM_BZIMAGE_HDR_OFFSET" and ?o' = "off' - RELM_BZIMAGE_HDR_OFFSET" and ?p = "hdr_set off' n' v hdr"
  have l: "length ?p = length hdr" using assms(3) by simp
  have n: "?p ! j = hdr ! j" if "j < length hdr" "j < ?o' \<or> ?o' + n' \<le> j" for j
    using that assms(3) by (auto simp: hdr_set_def Let_def nth_append)
  define j where "j = ?o"
  have "?p ! (j + i) = hdr ! (j + i)" if "i < n" "j + i < length hdr" for i
    using assms that unfolding j_def by (intro n) linarith+
  then have "take n (drop j ?p) = take n (drop j hdr)"
    using l by (intro nth_equalityI) auto
  then show ?thesis by (simp add: hdr_get_def j_def)
qed

text \<open>The header handed to the kernel says where the loader put things: the command line at 0x20000, the RAM disk at 64 MiB with
  its exact size, or neither address nor size when there is none; every field the loader does not own is that of the image.\<close>

theorem boot_header_fields:
  assumes "length hdr = 123"
  shows "hdr_get 0x228 4 (boot_header hdr n) = 0x20000 \<and> hdr_get 0x218 4 (boot_header hdr n) = (if n = 0 then 0 else 0x4000000) \<and>
    hdr_get 0x21C 4 (boot_header hdr n) = ucast n \<and> hdr_get 0x210 1 (boot_header hdr n) = 0xFF \<and>
    (\<forall>(off, k)\<in>{(0x1F1, 1), (0x1FE, 2), (0x202, 4), (0x206, 2), (0x211, 1), (0x236, 2), (0x258, 8)}.
       hdr_get off k (boot_header hdr n) = hdr_get off k hdr)"
proof -
  have "take_bit 32 (ucast n :: u64) = ucast n" by (rule bit_word_eqI) (auto simp: bit_simps dest: bit_imp_le_length)
  then show ?thesis
    unfolding boot_header_def Let_def using assms by (simp add: hdr_get_set_same hdr_get_set_other)
qed


section \<open>A concrete boot\<close>

text \<open>A VM of \<open>n\<close> pages backed by consecutive frames, and a small bzImage with its preferred address as a parameter.\<close>

definition lin_region :: "nat \<Rightarrow> guest_mem_region" where
  "lin_region n = \<lparr>gr_gpa_start = 0, gr_size = word_of_nat (n * 4096), gr_pages = Some (map (\<lambda>i. Some (word_of_nat ((i + 1) * 4096))) [0..<n]),
     gr_nr_pages = word_of_nat n, gr_flags = 7\<rparr>"

definition lin_mm :: "nat \<Rightarrow> relm_vm_memory" where
  "lin_mm n = \<lparr>mem_regions = [lin_region n], total_guest_ram = word_of_nat (n * 4096),
     mmio_regions = replicate 8 \<lparr>mr_gpa_start = 0, mr_size = 0, mr_name = []\<rparr>, mmio_region_count = 0\<rparr>"

lemma lin_page_at: "page_at (lin_region n) i = (if i < n then Some (Some (word_of_nat ((i + 1) * 4096))) else None)"
  by (simp add: page_at_def lin_region_def)

lemma lin_mm_ok:
  assumes "n \<le> 2 ^ 36"
  shows "guest_ram_ok (lin_mm n)"
proof -
  let ?r = "lin_region n"
  have u: "unat (word_of_nat (n * 4096) :: u64) = n * 4096" using assms by (intro unat_word_of_nat_small) simp
  have c: "covers a ?r \<longleftrightarrow> a < word_of_nat (n * 4096)" for a by (simp add: covers_def lin_region_def)
  have f: "unat (word_of_nat ((i + 1) * 4096) :: u64) = (i + 1) * 4096" if "i < n" for i
    using that assms by (intro unat_word_of_nat_small) simp
  have al: "PAGE_ALIGNED (word_of_nat ((i + 1) * 4096))" if "i < n" for i
    unfolding PAGE_ALIGNED_unat f [OF that] by simp
  have inj: "i = j" if "i < n" "j < n" "(word_of_nat ((i + 1) * 4096) :: u64) = word_of_nat ((j + 1) * 4096)" for i j
    using f [OF that(1)] f [OF that(2)] that(3) by (metis add_right_cancel mult_cancel2 zero_neq_numeral)
  have ok: "ram_ok [?r]" using u by (simp add: ram_ok_def) (simp add: lin_region_def)
  have fr: "frames_ok [?r]"
    using al inj by (auto simp: frames_ok_def lin_page_at split: if_splits)
  have "guest_hpa [?r] a \<noteq> None \<longleftrightarrow> a < word_of_nat (n * 4096)" for a
  proof -
    have "unat (a div 0x1000) < n" if "a < word_of_nat (n * 4096)"
    proof -
      have "unat a < n * 4096" using that u by (simp add: word_less_nat_alt)
      then show ?thesis by (simp add: unat_offset less_mult_imp_div_less)
    qed
    then show ?thesis using c [of a] by (auto simp: guest_hpa_def lin_page_at) (simp_all add: lin_region_def)
  qed
  moreover have "(word_of_nat (n * 4096) :: u64) \<le> 2 ^ 48" using u assms by (simp add: word_le_nat_alt)
  ultimately show ?thesis using ok fr by (simp add: guest_ram_ok_def lin_mm_def)
qed

definition demo_hdr :: "u64 \<Rightarrow> relm_setup_header" where
  "demo_hdr pref = hdr_set 0x1F1 1 1 (hdr_set 0x1FE 2 0xAA55 (hdr_set 0x202 4 0x53726448 (hdr_set 0x206 2 0x020F
     (hdr_set 0x211 1 1 (hdr_set 0x236 2 1 (hdr_set 0x258 8 pref (replicate 123 0)))))))"

definition demo_fw :: "u64 \<Rightarrow> string \<Rightarrow> u8 list res" where
  "demo_fw pref name =
     (if name = RELM_KERNEL_FW_NAME then Inr (replicate 0x1F1 0 @ demo_hdr pref @ replicate 404 0 @ replicate 0x200 0x90 @ [0xF4, 0xEB])
      else Inr [1, 2, 3])"

lemma demo_hdr_facts:
  shows "length (demo_hdr pref) = 123" "relm_validate_setup_header (demo_hdr pref) = Inr ()" "setup_size_of (demo_hdr pref) = 1024"
    "load_gpa_of (demo_hdr pref) = (if pref = 0 then RELM_KERNEL_LOAD_GPA else pref)"
  by (simp_all add: demo_hdr_def relm_validate_setup_header_def setup_size_of_def load_gpa_of_def hdr_get_set_same hdr_get_set_other
      take_bit_word_eq_self)

lemma demo_fw_image:
  assumes "0x4000 \<le> ram" "pref \<le> ram - 0x1000" "ram \<le> 2 ^ 48" "pref \<noteq> 0"
  shows "kernel_image (demo_fw pref) ram = Inr (demo_hdr pref, replicate 0x200 0x90 @ [0xF4, 0xEB])"
proof -
  have "unat pref \<le> unat ram - 0x1000" "0x4000 \<le> unat ram" "unat ram \<le> 2 ^ 48"
    using assms by (simp_all add: word_le_nat_alt unat_sub)
  moreover from this have "unat (pref + word_of_nat 514) = unat pref + 514" by (intro unat_add_nat) simp
  ultimately have "\<not> pref + 514 > ram" "\<not> ram \<le> pref" by (auto simp: word_less_nat_alt word_le_nat_alt)
  then show ?thesis
    using assms(4) by (simp add: kernel_image_def demo_fw_def Let_def demo_hdr_facts)
qed

lemma demo_initrd_image: "initrd_image (demo_fw pref) 0x8000000 = Inr [1, 2, 3]"
  by (simp add: initrd_image_def demo_fw_def RELM_KERNEL_FW_NAME_def RELM_INITRD_FW_NAME_def)

lemma default_cmdline: "cfg_cmd None = str_bytes RELM_DEFAULT_CMDLINE" "length (cfg_cmd None) = 55"
  by (simp_all add: cfg_cmd_def cmdline_of_def strnlen_def RELM_DEFAULT_CMDLINE_def str_bytes_def)

lemma demo_mm_128: "guest_ram_ok (lin_mm 0x8000)" "total_guest_ram (lin_mm 0x8000) = 0x8000000"
  by (simp_all add: lin_mm_ok) (simp add: lin_mm_def)

lemma demo_boots:
  assumes "pref \<le> 0x7FFF000" "pref \<noteq> 0"
  obtains b' h' where "relm_boot_load (demo_fw pref) (Some (lin_mm 0x8000, demo_boot)) True None demo_host = (Some (Inr b'), h')"
proof -
  have "kernel_image (demo_fw pref) 0x8000000 = Inr (demo_hdr pref, replicate 0x200 0x90 @ [0xF4, 0xEB])"
    using assms by (intro demo_fw_image) simp_all
  moreover have "cfg_cmd None \<noteq> []" using default_cmdline(2) by auto
  ultimately show thesis
    using boot_load_eq [OF demo_mm_128(1), of "demo_fw pref" demo_boot None demo_host] that by (simp add: demo_mm_128(2) demo_initrd_image)
qed



theorem initrd_overwrites_kernel_witness:
  "\<exists>b' h'. relm_boot_load (demo_fw 0x3FFFFFF) (Some (lin_mm 0x8000, demo_boot)) True None demo_host = (Some (Inr b'), h') \<and>
     ram_view (lin_mm 0x8000) h' 0x4000001 = 2"
proof -
  obtain b' h' where r: "relm_boot_load (demo_fw 0x3FFFFFF) (Some (lin_mm 0x8000, demo_boot)) True None demo_host = (Some (Inr b'), h')"
    by (rule demo_boots [of "0x3FFFFFF"]) simp_all
  have k: "kernel_image (demo_fw 0x3FFFFFF) (total_guest_ram (lin_mm 0x8000)) = Inr (demo_hdr 0x3FFFFFF, replicate 0x200 0x90 @ [0xF4, 0xEB])"
    unfolding demo_mm_128(2) by (intro demo_fw_image) simp_all
  have i: "initrd_image (demo_fw 0x3FFFFFF) (total_guest_ram (lin_mm 0x8000)) = Inr [1, 2, 3]" by (simp add: demo_mm_128 demo_initrd_image)
  have "0x200000 \<le> total_guest_ram (lin_mm 0x8000)" by (simp add: demo_mm_128)
  from initrd_overwrites_kernel [OF demo_mm_128(1) this r k i, of "0x4000001"] r show ?thesis by auto
qed

theorem boot_header_fields_witness:
  "hdr_get 0x21C 4 (boot_header (demo_hdr 0x1000000) 3) = 3 \<and> hdr_get 0x258 8 (boot_header (demo_hdr 0x1000000) 3) = hdr_get 0x258 8 (demo_hdr 0x1000000)"
  using boot_header_fields [OF demo_hdr_facts(1), of "0x1000000" 3] by simp

end
