(* ===== verification/Relm_Startup.thy ===== *)
theory Relm_Startup
  imports Relm_Vm Relm_Boot
begin

text \<open>
  From an empty host to the first guest instruction: creation of a VM (src/core/vm.c), the boot
  load (src/arch/x86/boot/boot.c) and phase 2 of its vCPU (src/arch/x86/vmx/vmx.c) in the order in
  which src/core/relm.c calls them. The lemmas carry the guest page tables and the loaded images
  through the steps that follow their construction.
\<close>

section \<open>The RAM of a created VM\<close>

text \<open>What the boot loader and phase 2 see of a VM.\<close>

definition vm_boot_of :: "ept_context relm_vm \<Rightarrow> vm_boot" where
  "vm_boot_of v = \<lparr>vb_ept = v_ctx v, vb_pml4_gpa = v_pml4_gpa v, vb_kernel_entry_gpa = 0, vb_boot_params_gpa = 0,
     vb_total_guest_ram = total_guest_ram (v_memory v)\<rparr>"

lemma holds_guest_ram_ok:
  assumes v: "vmx_vm.holds v pages h" and t: "total_guest_ram (v_memory v) \<le> 2 ^ 48"
  shows "guest_ram_ok (v_memory v)"
proof (cases "mem_regions (v_memory v)")
  case Nil
  with v have "total_guest_ram (v_memory v) = 0" by (auto simp: vmx_vm.holds_def)
  with Nil show ?thesis by (simp add: guest_ram_ok_def ram_ok_def frames_ok_def guest_hpa_def)
next
  case (Cons rg rgs)
  with v have rg: "mem_regions (v_memory v) = [rg]" "gr_pages rg = Some (map Some pages)" "gr_gpa_start rg = 0"
    "gr_size rg = total_guest_ram (v_memory v)" and pg: "distinct pages" "\<forall>f\<in>set pages. frame_ok f"
    by (auto simp: vmx_vm.holds_def)
  have "frames_ok [rg]"
    using pg rg(2) by (auto simp: frames_ok_def page_at_def frame_ok_def nth_eq_iff_index_eq split: if_splits)
  moreover have "a < total_guest_ram (v_memory v)" if "guest_hpa [rg] a \<noteq> None" for a
    using that rg(3,4) by (auto simp: guest_hpa_def covers_def split: if_splits)
  ultimately show ?thesis
    using vmx_ram_ok [OF v] vmx_ram_backed [OF v] t rg(1) by (auto simp: guest_ram_ok_def)
qed

lemma holds_frames:
  assumes "vmx_vm.holds v pages h" "guest_hpa (mem_regions (v_memory v)) a = Some x"
  shows "page_base x \<in> set pages"
proof (rule guest_hpa_page [OF assms(2)], goal_cases)
  case (1 r p)
  with assms(1) have r: "gr_pages r = Some (map Some pages)" "\<forall>f\<in>set pages. frame_ok f" by (auto simp: vmx_vm.holds_def)
  with 1(2) have p: "p \<in> set pages" by (auto simp: page_at_def split: if_splits)
  then have "PAGE_ALIGNED p" using r(2) by (simp add: frame_ok_def)
  then have "page_base x = p" unfolding 1(3) using page_offset_less [of "a - gr_gpa_start r"] by (intro page_base_add) simp_all
  with p show ?case by simp
qed

text \<open>Writes into guest RAM leave the tables of the second stage alone.\<close>

lemma puts_outside:
  assumes v: "vmx_vm.holds v pages h" and g: "guest_ram_ok (v_memory v)" and w: "list_all (in_ram (v_memory v)) ws" and x: "page_base x \<notin> set pages"
  shows "pmem (puts (v_memory v) ws h0) x = pmem h0 x"
  using w
proof (induction ws arbitrary: h0)
  case (Cons w ws)
  have "the (guest_hpa (mem_regions (v_memory v)) (fst w + word_of_nat i)) \<noteq> x" if "i < length (snd w)" for i
    using in_ram_backed [OF g, of "fst w" "snd w" i] Cons.prems that holds_frames [OF v] x by force
  then have "pmem (put (v_memory v) (fst w) (snd w) h0) x = pmem h0 x" by (simp add: put_def guest_write_other)
  with Cons show ?case by simp
qed simp

lemma holds_puts:
  assumes v: "vmx_vm.holds v pages h" and g: "guest_ram_ok (v_memory v)" and w: "list_all (in_ram (v_memory v)) ws"
  shows "vmx_vm.holds v pages (puts (v_memory v) ws h)"
proof -
  let ?h = "puts (v_memory v) ws h"
  have e: "?h = h\<lparr>pmem := pmem ?h\<rparr>" by (rule host.equality) (simp_all)
  have o: "pmem ?h x = pmem h x" if "page_base x \<in> ept_tabs (v_ctx v, h)" for x
    using v that by (intro puts_outside [OF v g w]) (auto simp: vmx_vm.holds_def)
  have "ept_state_ok (v_ctx v, h)" using v by (simp add: vmx_vm.holds_def)
  from ept_write_keeps [OF this o] have "ept_state_ok (v_ctx v, ?h)" "ept_tabs (v_ctx v, ?h) = ept_tabs (v_ctx v, h)"
    "ept_state_entry (v_ctx v, ?h) = ept_state_entry (v_ctx v, h)" using e by metis+
  then show ?thesis using v by (simp add: vmx_vm.holds_def vmx_vm.backs_def)
qed

text \<open>A new VM has its page tables in the last three pages of RAM.\<close>

lemma create_vm_tables:
  assumes h: "host_ok h" and run: "relm_create_vm (vmx_mem_ops cap) ops vid nm sz h = (Some (Some v), h1)"
    and t: "0x3000 \<le> total_guest_ram (v_memory v)" "total_guest_ram (v_memory v) \<le> 2 ^ 48"
  obtains pages where "vmx_vm.holds v pages h1" "guest_ram_ok (v_memory v)"
    "v_pml4_gpa v = total_guest_ram (v_memory v) - 0x3000" "tables_at (mem_regions (v_memory v)) (pmem h1) (v_pml4_gpa v)"
proof -
  obtain pages where v: "vmx_vm.holds v pages h1" using vmx_vm.create_vm_frames [OF h run] by auto
  note g = holds_guest_ram_ok [OF v t(2)]
  have "v_ctx v \<noteq> None" using v by (auto simp: vmx_vm.holds_def ept_state_ok_def split: option.splits)
  then obtain ept where c: "v_ctx v = Some ept" by auto
  have "0 < sz"
  proof (rule ccontr)
    assume "\<not> 0 < sz"
    then have "v_memory v = blank_memory"
      using run by (auto simp: relm_create_vm_def create_vcpu_array_def Let_def split: prod.splits bool.splits sum.splits if_splits)
    with t(1) show False by (simp add: blank_memory_def)
  qed
  then obtain h2 p h3 where r: "relm_ept_create_guest_page_tables (Some (v_memory v, v_ctx v)) 0 h2 = (Some (Inr ()), p, h3)"
      "v_pml4_gpa v = p" "pmem h1 = pmem h3"
    using run
    by (auto simp: relm_create_vm_def create_vcpu_array_def relm_vm_create_guest_page_tables_def vmx_mem_ops_def Let_def kzalloc_def
        split: prod.splits bool.splits sum.splits if_splits option.splits list.splits)
  have bk: "guest_hpa (mem_regions (v_memory v)) (total_guest_ram (v_memory v) - 0x3000 + word_of_nat i) \<noteq> None" if "i < 0x3000" for i
    using top_pages_backed [OF v t(1) that] .
  have rf: "ram_ok (mem_regions (v_memory v))" "frames_ok (mem_regions (v_memory v))" using g by (simp_all add: guest_ram_ok_def)
  from create_tables_at [OF rf refl bk r(1) [unfolded c]] r(2,3) show thesis by (intro that [OF v g]) auto
qed


section \<open>Reading guest memory through an identity map\<close>

lemma copy_from_in_ram:
  assumes g: "guest_ram_ok mm" and n: "0 < n" "n < 2 ^ 31" "n \<le> length dst" and r: "unat a + n \<le> unat (total_guest_ram mm)"
  shows "relm_vm_copy_from_guest (Some mm) a (Some dst) n h = (Ret (Inr (int n)), Some (rd_bytes (ram_view mm h) a n @ drop n dst))"
proof -
  have i: "in_ram mm (a, replicate n 0)" using r by (simp add: in_ram_def)
  have k: "backed_run (mem_regions mm) a n = n" using in_ram_backed [OF g i] by (intro backed_run_full) simp
  have "a + word_of_nat j < total_guest_ram mm" if "j < n" for j
    using in_ram_backed [OF g i, of j] that g by (simp add: guest_ram_ok_def)
  then have "guest_read (mem_regions mm) (pmem h) a n = rd_bytes (ram_view mm h) a n"
    by (simp add: guest_read_def rd_bytes_def ram_view_def guest_byte_def)
  then show ?thesis
    using copy_from_loop_spec [of "mem_regions mm" None 0 n dst a h] g n k c_int_small [of n]
    by (simp add: relm_vm_copy_from_guest_def guest_ram_ok_def)
qed

lemma copy_virt_identity:
  assumes g: "guest_ram_ok mm" and id: "\<And>i. i < sz \<Longrightarrow> relm_mmu_gva_to_gpa (Some mm) h ctl (gva + word_of_nat i) = Some (Inr (gva + word_of_nat i))"
    and sz: "sz < 2 ^ 31" "sz \<le> length dst" "unat gva + sz \<le> unat (total_guest_ram mm)" and c: "copied \<le> sz"
  shows "copy_virt_loop (Some mm) h ctl gva sz copied dst =
    (Some (Inr (int sz)), take copied dst @ rd_bytes (ram_view mm h) (gva + word_of_nat copied) (sz - copied) @ drop sz dst)"
  using sz(2) c
proof (induction "sz - copied" arbitrary: copied dst rule: less_induct)
  case less
  show ?case
  proof (cases "copied < sz")
    case False
    with less.prems sz(1) show ?thesis by (simp add: copy_virt_loop.simps c_int_small rd_bytes_def)
  next
    case lt: True
    define cur where "cur = gva + word_of_nat copied"
    define n where "n = min (sz - copied) (4096 - unat (cur AND 0xFFF))"
    have "cur AND 0xFFF \<le> 0xFFF" by (rule word_and_le1)
    then have "unat (cur AND 0xFFF) < 4096" by (simp add: word_le_nat_alt)
    with lt have n: "0 < n" "copied + n \<le> sz" by (simp_all add: n_def)
    have t: "unat (total_guest_ram mm) < 2 ^ 64" using unsigned_less [of "total_guest_ram mm"] by simp
    have u: "unat cur = unat gva + copied" unfolding cur_def using lt sz(3) t by (intro unat_add_nat) simp
    let ?d = "take copied dst @ rd_bytes (ram_view mm h) cur n @ drop (copied + n) dst"
    have cp: "relm_vm_copy_from_guest (Some mm) cur (Some (drop copied dst)) n h =
        (Ret (Inr (int n)), Some (rd_bytes (ram_view mm h) cur n @ drop n (drop copied dst)))"
      using n less.prems sz u by (intro copy_from_in_ram [OF g]) simp_all
    have st: "copy_virt_loop (Some mm) h ctl gva sz copied dst = copy_virt_loop (Some mm) h ctl gva sz (copied + n) ?d"
      using lt cp id [OF lt] by (subst copy_virt_loop.simps) (simp add: Let_def add.commute flip: cur_def n_def)
    have ne: "gva + word_of_nat (copied + n) = cur + word_of_nat n" by (simp add: cur_def add.assoc)
    have "copy_virt_loop (Some mm) h ctl gva sz (copied + n) ?d =
        (Some (Inr (int sz)), take (copied + n) ?d @ rd_bytes (ram_view mm h) (cur + word_of_nat n) (sz - (copied + n)) @ drop sz ?d)"
      unfolding ne [symmetric] using n lt less.prems by (intro less.hyps) simp_all
    moreover have "rd_bytes (ram_view mm h) cur (sz - copied) = rd_bytes (ram_view mm h) cur n @ rd_bytes (ram_view mm h) (cur + word_of_nat n) (sz - (copied + n))"
      using rd_bytes_split [of _ cur n "sz - (copied + n)"] n by simp
    ultimately show ?thesis using n less.prems unfolding st by (simp flip: cur_def)
  qed
qed

section \<open>Phase 2 leaves guest RAM alone\<close>

lemma vmx_vcpu_init_map:
  assumes "vmx_vcpu_init w b vc h = (Inr (), b', vc', h')"
  obtains ept hpa ctx where "vb_ept b = Some ept" "relm_ept_map_page 0xFEE00000 hpa 0x3 (Some ept) h = (Inr (), ctx, h')"
  using assms
  by (auto simp: vmx_vcpu_init_def relm_apic_ept_setup_def Let_def split: sum.splits prod.splits option.splits if_splits)

lemma vcpu_init_ram:
  assumes v: "vmx_vm.holds v pages h" and b: "vb_ept b = v_ctx v" and i: "vmx_vcpu_init w b vc h = (Inr (), b', vc', h')"
    and g: "guest_ram_ok (v_memory v)"
  shows "ram_view (v_memory v) h' = ram_view (v_memory v) h"
proof (rule vmx_vcpu_init_map [OF i], goal_cases)
  case (1 ept hpa ctx)
  have c: "v_ctx v = Some ept" using 1(1) b by simp
  then have e: "ept_ok ept h" using v by (simp add: vmx_vm.holds_def ept_state_ok_def)
  then obtain r where r: "pml4 ept = Some r" by (auto simp: ept_ok_def)
  note f = ept_map_frames [OF e 1(2) r]
  have "pmem h' x = pmem h x" if "page_base x \<in> set pages" for x
    using f [of x] v that c r by (auto simp: vmx_vm.holds_def ept_tabs_def)
  moreover have "page_base (the (guest_hpa (mem_regions (v_memory v)) a)) \<in> set pages" if "a < total_guest_ram (v_memory v)" for a
    using vmx_ram_backed [OF v that] holds_frames [OF v] by auto
  ultimately show ?case by (force simp: ram_view_def guest_byte_def fun_eq_iff)
qed


section \<open>The guest starts in its kernel\<close>

text \<open>The images stay clear of the parameter area, of each other and of the page tables at the end of RAM.\<close>

definition images_apart :: "u64 \<Rightarrow> relm_setup_header \<Rightarrow> u8 list \<Rightarrow> u8 list \<Rightarrow> bool" where
  "images_apart ram hdr kern rd \<longleftrightarrow> (let a = unat (load_gpa_of hdr) in
     0x21000 \<le> a \<and> a + length kern \<le> unat ram - 0x3000 \<and> 0x4000000 + length rd \<le> unat ram - 0x3000 \<and>
     (a + length kern \<le> 0x4000000 \<or> 0x4000000 + length rd \<le> a))"

lemma tables_at_cong:
  assumes "\<And>i. i < 0x3000 \<Longrightarrow> guest_byte rgs m' (q + word_of_nat i) = guest_byte rgs m (q + word_of_nat i)" "tables_at rgs m q"
  shows "tables_at rgs m' q"
proof -
  have "guest_byte rgs m' (q + word_of_nat (c + k)) = guest_byte rgs m (q + word_of_nat (c + k))" if "k < 4096" "c \<le> 0x2000" for c k
    using that by (intro assms(1)) simp
  from this [of _ 0] this [of _ "0x1000"] this [of _ "0x2000"] assms(2) show ?thesis by (simp add: tables_at_def add.assoc)
qed

lemma boot_keeps_tables:
  assumes v: "vmx_vm.holds v pages h" and g: "guest_ram_ok (v_memory v)"
    and ta: "tables_at (mem_regions (v_memory v)) (pmem h) (total_guest_ram (v_memory v) - 0x3000)"
    and h: "ram_view (v_memory v) h' = wr_all (boot_writes hdr kern rd cmd (total_guest_ram (v_memory v))) (ram_view (v_memory v) h)"
    and l: "length hdr = SETUP_HEADER_SIZE" "length cmd \<le> 4095" and ap: "images_apart (total_guest_ram (v_memory v)) hdr kern rd"
  shows "tables_at (mem_regions (v_memory v)) (pmem h') (total_guest_ram (v_memory v) - 0x3000)"
proof -
  let ?t = "total_guest_ram (v_memory v)" and ?m = "v_memory v"
  have t: "0x4003000 \<le> unat ?t" "unat ?t \<le> 2 ^ 48" using ap g by (auto simp: images_apart_def Let_def guest_ram_ok_def word_le_nat_alt)
  have ut: "unat (?t - 0x3000) = unat ?t - 0x3000" using t(1) by (simp add: unat_sub word_le_nat_alt)
  have same: "guest_byte (mem_regions ?m) (pmem h') (?t - 0x3000 + word_of_nat i) = guest_byte (mem_regions ?m) (pmem h) (?t - 0x3000 + word_of_nat i)"
    if i: "i < 0x3000" for i
  proof -
    let ?a = "?t - 0x3000 + word_of_nat i"
    have u: "unat ?a = unat ?t - 0x3000 + i" using i t ut unat_add_nat [of "?t - 0x3000" i] by simp
    then have lt: "?a < ?t" using i t by (simp add: word_less_nat_alt)
    define x where "x = ?a"
    have x: "unat x + 1 \<le> 2 ^ 64" "unat (load_gpa_of hdr) + length kern \<le> unat x" "0x4000000 + length rd \<le> unat x"
      using u t(2) i ap by (simp_all add: x_def images_apart_def Let_def)
    have "rd_bytes (ram_view ?m h') x 1 = rd_bytes (wr_bytes (wr_bytes (ram_view ?m h) (load_gpa_of hdr) kern) RELM_INITRD_LOAD_GPA rd) x 1"
      unfolding h using x l by (intro boot_writes_area) (simp_all add: low_area_def)
    also have "\<dots> = rd_bytes (wr_bytes (ram_view ?m h) (load_gpa_of hdr) kern) x 1" using x by (intro rd_wr_disjoint) simp_all
    also have "\<dots> = rd_bytes (ram_view ?m h) x 1" using x by (intro rd_wr_disjoint) simp_all
    finally have "rd_bytes (ram_view ?m h') x 1 = rd_bytes (ram_view ?m h) x 1" .
    then have "rd_bytes (ram_view ?m h') ?a 1 = rd_bytes (ram_view ?m h) ?a 1" by (simp only: x_def)
    with lt show ?thesis by (simp add: rd_bytes_def ram_view_def)
  qed
  show ?thesis by (rule tables_at_cong [OF same ta])
qed

lemma rd_wr_sub:
  assumes "k + n \<le> length bs" "length bs \<le> 2 ^ 64"
  shows "rd_bytes (wr_bytes m a bs) (a + word_of_nat k) n = take n (drop k bs)"
proof (rule nth_equalityI)
  fix i assume "i < length (rd_bytes (wr_bytes m a bs) (a + word_of_nat k) n)"
  then have i: "i < n" by simp
  have e: "a + word_of_nat k + word_of_nat i = a + word_of_nat (k + i)" by (simp add: add.assoc)
  have "unat (word_of_nat (k + i) :: u64) = k + i" using assms i by (intro unat_word_of_nat_small) simp
  then show "rd_bytes (wr_bytes m a bs) (a + word_of_nat k) n ! i = take n (drop k bs) ! i"
    using i assms unfolding nth_rd_bytes [OF i] e by (simp add: wr_bytes_def del: of_nat_add)
qed (use assms in simp)

text \<open>The statement with a host \<open>h2'\<close> in between that has the same tables and the same guest RAM.\<close>

lemma first_instruction:
  assumes h: "host_ok h" and cr: "relm_create_vm (vmx_mem_ops cap) ops vid nm sz h = (Some (Some v), h1)"
    and bo: "relm_boot_load fw (Some (v_memory v, vm_boot_of v)) True cfg h1 = (Some (Inr b), h2)"
    and same: "\<And>pages. vmx_vm.holds v pages h2 \<Longrightarrow> vmx_vm.holds v pages h2' \<and> ram_view (v_memory v) h2' = ram_view (v_memory v) h2"
    and i: "vmx_vcpu_init w b vc h2' = (Inr (), b', vc', h3)"
    and k: "kernel_image fw (total_guest_ram (v_memory v)) = Inr (hdr, kern)" and rd: "initrd_image fw (total_guest_ram (v_memory v)) = Inr rd"
    and ap: "images_apart (total_guest_ram (v_memory v)) hdr kern rd" and t: "total_guest_ram (v_memory v) \<le> 2 ^ 30"
    and cpu: "bit (rdmsr w MSR_VMX_CR0_FIXED1) 31" "\<not> bit (rdmsr w MSR_VMX_CR4_FIXED0) 12"
    and n: "0 < n" "0x200 + n \<le> length kern" "length buf = n"
  shows "relm_mmu_copy_from_guest_virt (Some (v_memory v)) h3 (ctl_of vc') (relm_mmu_rip_to_linear (ctl_of vc') (vmread vc' ENC_GUEST_RIP)) (Some buf) n =
      (Some (Inr (int n)), Some (take n (drop 0x200 kern))) \<and> reg_rsi (regs vc') = 0x7000"
proof -
  let ?m = "v_memory v" and ?t = "total_guest_ram (v_memory v)"
  have t': "0x4003000 \<le> unat ?t" "unat ?t \<le> 2 ^ 30" using ap t by (auto simp: images_apart_def Let_def word_le_nat_alt)
  then have tt: "0x3000 \<le> ?t" "?t \<le> 2 ^ 48" "0x200000 \<le> ?t" by (simp_all add: word_le_nat_alt)
  obtain pages where v: "vmx_vm.holds v pages h1" and g: "guest_ram_ok ?m" and p: "v_pml4_gpa v = ?t - 0x3000"
      and ta: "tables_at (mem_regions ?m) (pmem h1) (v_pml4_gpa v)"
    by (rule create_vm_tables [OF h cr tt(1,2)])
  note ta = ta [unfolded p]
  have cl: "length (cfg_cmd cfg) \<le> 4095" by (simp add: cfg_cmd_def cmdline_length)
  note kf = kernel_image_facts [OF k]
  obtain hdr' kern' rd' where s: "kernel_image fw ?t = Inr (hdr', kern')" "initrd_image fw ?t = Inr rd'" "cfg_cmd cfg \<noteq> []"
      "b = (vm_boot_of v)\<lparr>vb_boot_params_gpa := RELM_BOOT_PARAMS_GPA, vb_kernel_entry_gpa := load_gpa_of hdr' + 0x200\<rparr>"
      "h2 = puts ?m (boot_writes hdr' kern' rd' (cfg_cmd cfg) ?t) h1"
      "ram_view ?m h2 = wr_all (boot_writes hdr' kern' rd' (cfg_cmd cfg) ?t) (ram_view ?m h1)"
    by (rule boot_load_success [OF g tt(3) bo])
  have e: "hdr' = hdr" "kern' = kern" "rd' = rd" using s(1,2) k rd by simp_all
  note s = s [unfolded e]
  have v2: "vmx_vm.holds v pages h2"
    unfolding s(5) by (rule holds_puts [OF v g boot_writes_in_ram [OF g tt(3) k rd cl]])
  have vb: "vb_ept b = v_ctx v" "vb_pml4_gpa b = ?t - 0x3000" "vb_kernel_entry_gpa b = load_gpa_of hdr + 0x200" "vb_boot_params_gpa b = 0x7000"
    using s(4) p by (simp_all add: vm_boot_of_def)
  note v2' = same [OF v2]
  have rv: "ram_view ?m h3 = ram_view ?m h2" using vcpu_init_ram [OF conjunct1 [OF v2'] vb(1) i g] v2' by simp
  have ta3: "tables_at (mem_regions ?m) (pmem h3) (?t - 0x3000)"
    using boot_keeps_tables [OF v g ta _ kf(1) cl ap, of h3] rv s(6) by simp
  have al: "unat (load_gpa_of hdr) + length kern \<le> unat ?t - 0x3000" "0x21000 \<le> unat (load_gpa_of hdr)"
    using ap by (simp_all add: images_apart_def Let_def)
  have ue: "unat (load_gpa_of hdr + 0x200) = unat (load_gpa_of hdr) + 0x200"
    using unat_add_nat [of "load_gpa_of hdr" "0x200"] al(1) t'(2) n(2) by simp
  obtain vc4 where lm: "relm_setup_guest_state_longmode w (Some b') vc4 = (Inr (), vc')" and b': "b'\<lparr>vb_ept := vb_ept b\<rparr> = b"
    by (rule vmx_vcpu_init_stages [OF i]) blast
  have vb': "vb_pml4_gpa b' = vb_pml4_gpa b" "vb_kernel_entry_gpa b' = vb_kernel_entry_gpa b" "vb_boot_params_gpa b' = vb_boot_params_gpa b"
    using b' by (metis vm_boot.select_convs(2-4) vm_boot.surjective vm_boot.update_convs(1))+
  note l = longmode_ok [OF lm, unfolded vb' vb]
  let ?c = "ctl_of vc'"
  have lin: "relm_mmu_rip_to_linear ?c (vmread vc' ENC_GUEST_RIP) = load_gpa_of hdr + 0x200"
    using l by (simp add: relm_mmu_rip_to_linear_def ctl_of_def)
  have "bit (initial_cr0 w) 31" using cpu(1) by (simp add: initial_cr0_def fix_cr0_def bit_simps)
  then have cr0: "GUEST_CR0 ?c AND 0x80000000 \<noteq> 0" using l and_exp_eq_0_iff_not_bit [of "initial_cr0 w" 31] by (simp add: ctl_of_def)
  have "\<not> bit (initial_cr4 w) 12" using cpu(2) by (simp add: initial_cr4_def fix_cr4_def bit_simps)
  then have cr4: "GUEST_CR4 ?c AND 0x1000 = 0" using l and_exp_eq_0_iff_not_bit [of "initial_cr4 w" 12] by (simp add: ctl_of_def)
  have id: "relm_mmu_gva_to_gpa (Some ?m) h3 ?c gva = Some (Inr gva)" if "gva < 2 ^ 30" for gva
  proof (rule tables_at_identity [where q = "?t - 0x3000"])
    show "ram_ok (mem_regions ?m)" using g by (simp add: guest_ram_ok_def)
    have ut: "unat (?t - 0x3000) = unat ?t - 0x3000" using t'(1) by (simp add: unat_sub word_le_nat_alt)
    then show "?t - 0x3000 < 2 ^ 51" using t' by (simp add: word_less_nat_alt)
    have "unat ?t mod 4096 = 0" using vmx_vm.holds_length [OF v] by simp
    then have "(unat ?t - 0x3000) mod 4096 = 0" by (simp add: mod_eq_0_iff_dvd dvd_diff_nat)
    then show "frame_ok (?t - 0x3000)" using t' ut by (simp add: frame_ok_def PAGE_ALIGNED_unat word_less_nat_alt)
    show "guest_hpa (mem_regions ?m) (?t - 0x3000 + word_of_nat j) \<noteq> None" if "j < 0x3000" for j by (rule top_pages_backed [OF v tt(1) that])
    show "GUEST_IA32_EFER ?c AND 0x400 \<noteq> 0" "GUEST_CR3 ?c = ?t - 0x3000" using l by (simp_all add: ctl_of_def)
  qed (rule ta3 cr0 cr4 that)+
  have ok: "load_gpa_of hdr + 0x200 + word_of_nat j < 2 ^ 30" if "j < n" for j
    using unat_add_nat [of "load_gpa_of hdr + 0x200" j] that n(2) ue al(1) t' by (simp add: word_less_nat_alt)
  have "copy_virt_loop (Some ?m) h3 ?c (load_gpa_of hdr + 0x200) n 0 buf =
      (Some (Inr (int n)), take 0 buf @ rd_bytes (ram_view ?m h3) (load_gpa_of hdr + 0x200 + word_of_nat 0) (n - 0) @ drop n buf)"
    using n kf(3) ue al(1) t' by (intro copy_virt_identity [OF g id [OF ok]]) simp_all
  moreover have "rd_bytes (ram_view ?m h3) (load_gpa_of hdr + 0x200) n = take n (drop 0x200 kern)"
  proof -
    have "rd_bytes (ram_view ?m h3) (load_gpa_of hdr + 0x200) n =
        rd_bytes (wr_bytes (wr_bytes (ram_view ?m h1) (load_gpa_of hdr) kern) RELM_INITRD_LOAD_GPA rd) (load_gpa_of hdr + 0x200) n"
      unfolding rv s(6) using ue al n(2) t' kf(1) cl by (intro boot_writes_area) (simp_all add: low_area_def)
    also have "\<dots> = rd_bytes (wr_bytes (ram_view ?m h1) (load_gpa_of hdr) kern) (load_gpa_of hdr + 0x200) n"
      using ue al n(2) t' ap by (intro rd_wr_disjoint) (auto simp: images_apart_def Let_def)
    also have "\<dots> = take n (drop 0x200 kern)" using rd_wr_sub [of "0x200" n kern "ram_view ?m h1" "load_gpa_of hdr"] n(2) kf(3) by simp
    finally show ?thesis .
  qed
  ultimately show ?thesis using n(1,3) l lin by (simp add: relm_mmu_copy_from_guest_virt_def)
qed

text \<open>(C3) The first instruction. Create a VM, load a kernel whose images stay apart, and run phase 2 of its vCPU on a processor that
  allows paging and four-level page tables. Then a read of guest memory at the guest's instruction pointer, through the page tables that the
  guest's control registers select, gives the bytes of the kernel image from offset 0x200 on, and RSI points to the boot parameters.\<close>

theorem guest_starts_in_kernel:
  assumes h: "host_ok h" and cr: "relm_create_vm (vmx_mem_ops cap) ops vid nm sz h = (Some (Some v), h1)"
    and bo: "relm_boot_load fw (Some (v_memory v, vm_boot_of v)) True cfg h1 = (Some (Inr b), h2)"
    and i: "vmx_vcpu_init w b vc h2 = (Inr (), b', vc', h3)"
    and k: "kernel_image fw (total_guest_ram (v_memory v)) = Inr (hdr, kern)" and rd: "initrd_image fw (total_guest_ram (v_memory v)) = Inr rd"
    and ap: "images_apart (total_guest_ram (v_memory v)) hdr kern rd" and t: "total_guest_ram (v_memory v) \<le> 2 ^ 30"
    and cpu: "bit (rdmsr w MSR_VMX_CR0_FIXED1) 31" "\<not> bit (rdmsr w MSR_VMX_CR4_FIXED0) 12"
    and n: "0 < n" "0x200 + n \<le> length kern" "length buf = n"
  shows "relm_mmu_copy_from_guest_virt (Some (v_memory v)) h3 (ctl_of vc') (relm_mmu_rip_to_linear (ctl_of vc') (vmread vc' ENC_GUEST_RIP)) (Some buf) n =
      (Some (Inr (int n)), Some (take n (drop 0x200 kern))) \<and> reg_rsi (regs vc') = 0x7000"
  by (rule first_instruction [OF h cr bo _ i k rd ap t cpu n]) simp


text \<open>A host with enough consecutive frames.\<close>

definition lin_host :: "nat \<Rightarrow> host" where
  "lin_host n = \<lparr>pool = map (\<lambda>i. word_of_nat ((i + 1) * 4096)) [0..<n], kmem = [True, True, True, True, True, True], pmem = (\<lambda>_. 0)\<rparr>"

lemma lin_host_ok:
  assumes "n \<le> 2 ^ 36"
  shows "host_ok (lin_host n)"
proof -
  have u: "unat (word_of_nat ((i + 1) * 4096) :: u64) = (i + 1) * 4096" if "i < n" for i
    using that assms by (intro unat_word_of_nat_small) simp
  have "inj_on (\<lambda>i. word_of_nat ((i + 1) * 4096) :: u64) {0..<n}"
    by (rule inj_onI) (metis u atLeastLessThan_iff add_right_cancel mult_cancel2 zero_neq_numeral)
  moreover have "frame_ok (word_of_nat ((i + 1) * 4096))" if "i < n" for i
    using u [OF that] that assms by (simp add: frame_ok_def PAGE_ALIGNED_unat word_less_nat_alt)
  ultimately show ?thesis by (auto simp: host_ok_def lin_host_def distinct_map)
qed

theorem guest_starts_in_kernel_witness:
  "\<exists>v h1 b h2 b' vc' h3. relm_create_vm (vmx_mem_ops 0x104040) vmx_vm_ops 1 None 0x8000000 (lin_host 0x20010) = (Some (Some v), h1) \<and>
     relm_boot_load (demo_fw 0x1000000) (Some (v_memory v, vm_boot_of v)) True None h1 = (Some (Inr b), h2) \<and>
     vmx_vcpu_init demo_hw b demo_new_vcpu h2 = (Inr (), b', vc', h3) \<and>
     relm_mmu_copy_from_guest_virt (Some (v_memory v)) h3 (ctl_of vc') (relm_mmu_rip_to_linear (ctl_of vc') (vmread vc' ENC_GUEST_RIP)) (Some [0, 0]) 2 =
       (Some (Inr 2), Some [0xF4, 0xEB])"
proof -
  let ?h = "lin_host 0x20010"
  have h: "host_ok ?h" by (rule lin_host_ok) simp
  have pa: "PAGE_ALIGN 0x8000000 = 0x8000000" by (simp add: PAGE_ALIGN_def)
  have lp: "length (pool ?h) = 0x20010" "kmem ?h = [True, True, True, True, True, True]" by (simp_all add: lin_host_def)
  have "relm_ept_check_support 0x104040" by (simp add: relm_ept_check_support_def)
  from create_vm_enough [OF h lp(2) this, of "0x8000000" vmx_vm_ops 1 None]
  obtain v h1 where cr: "relm_create_vm (vmx_mem_ops 0x104040) vmx_vm_ops 1 None 0x8000000 ?h = (Some (Some v), h1)"
      and t: "total_guest_ram (v_memory v) = 0x8000000" "3 \<le> length (pool h1)"
    unfolding pa lp(1) by auto
  obtain pages where v: "vmx_vm.holds v pages h1" and g: "guest_ram_ok (v_memory v)" and p: "v_pml4_gpa v = 0x7FFD000"
    by (rule create_vm_tables [OF h cr]) (simp_all add: t)
  have k: "kernel_image (demo_fw 0x1000000) 0x8000000 = Inr (demo_hdr 0x1000000, replicate 0x200 0x90 @ [0xF4, 0xEB])"
    by (intro demo_fw_image) simp_all
  have c: "cfg_cmd None \<noteq> []" using default_cmdline(2) by auto
  let ?b = "(vm_boot_of v)\<lparr>vb_boot_params_gpa := 0x7000, vb_kernel_entry_gpa := 0x1000200\<rparr>"
  let ?w = "boot_writes (demo_hdr 0x1000000) (replicate 0x200 0x90 @ [0xF4, 0xEB]) [1, 2, 3] (cfg_cmd None) 0x8000000"
  have bo: "relm_boot_load (demo_fw 0x1000000) (Some (v_memory v, vm_boot_of v)) True None h1 = (Some (Inr ?b), puts (v_memory v) ?w h1)"
    using boot_load_eq [OF g, of "demo_fw 0x1000000" "vm_boot_of v" None h1] c by (simp add: t(1) k demo_initrd_image demo_hdr_facts)
  obtain ept r where e: "v_ctx v = Some ept" "pml4 ept = Some r"
    using v by (auto simp: vmx_vm.holds_def ept_state_ok_def ept_ok_def split: option.splits)
  have "\<exists>b' vc' h'. vmx_vcpu_init demo_hw ?b demo_new_vcpu (puts (v_memory v) ?w h1) = (Inr (), b', vc', h')"
    by (rule vmx_vcpu_init_succeeds [of _ ept r])
      (simp_all add: e t p vm_boot_of_def demo_hw_def demo_new_vcpu_def relm_init_exec_controls_def blank_apic_def pa_of_def PAGE_ALIGNED_def)
  then obtain b' vc' h3 where i: "vmx_vcpu_init demo_hw ?b demo_new_vcpu (puts (v_memory v) ?w h1) = (Inr (), b', vc', h3)" by blast
  have ap: "images_apart (total_guest_ram (v_memory v)) (demo_hdr 0x1000000) (replicate 0x200 0x90 @ [0xF4, 0xEB]) [1, 2, 3]"
    by (simp add: images_apart_def demo_hdr_facts t)
  have "relm_mmu_copy_from_guest_virt (Some (v_memory v)) h3 (ctl_of vc') (relm_mmu_rip_to_linear (ctl_of vc') (vmread vc' ENC_GUEST_RIP)) (Some [0, 0]) 2 =
      (Some (Inr (int 2)), Some (take 2 (drop 0x200 (replicate 0x200 0x90 @ [0xF4, 0xEB])))) \<and> reg_rsi (regs vc') = 0x7000"
    by (rule guest_starts_in_kernel [OF h cr bo i _ _ ap]) (simp_all add: t k demo_initrd_image demo_hw_def bit_simps)
  with cr bo i show ?thesis by auto
qed

end
