(* ===== verification/Relm_Vmx_Host.thy ===== *)
theory Relm_Vmx_Host
  imports Relm_Host
begin

text \<open>
  Turning VMX operation on and off on every processor of the host (src/arch/x86/vmx/vmx.c,
  arch.c): CR4.VMXE, the feature-control MSR, the VMXON regions, the cross-processor calls and the
  cleanup after a failure. The instructions \<open>VMXON\<close>, \<open>VMXOFF\<close>, \<open>VMREAD\<close> and the writes to CR4
  and the MSR are modelled with the exceptions the processor raises, which in the kernel are fatal. The
  order in which \<open>on_each_cpu\<close> reaches the processors is a parameter, so the theorems hold for every
  order.
\<close>

section \<open>Processors\<close>

record host_cpu =
  logical_cpu_id :: nat
  vmxon_region :: "u64 option"
  vmxon_pa :: u64

text \<open>\<open>lc_vmx\<close> is the VMXON pointer while the processor is in VMX operation, \<open>lc_current\<close> whether it has a current
  VMCS, \<open>lc_hcpu\<close> the per-CPU variable \<open>relm_per_cpu_hcpu\<close>.\<close>

record lcpu =
  lc_cr4 :: u64
  lc_feature_control :: u64
  lc_vmx :: "u64 option"
  lc_current :: bool
  lc_hcpu :: "host_cpu option"

record vmx_host =
  vh_cpu :: "nat \<Rightarrow> lcpu"
  vh_host :: host

datatype cpu_exn = UD | GP
datatype vmx_flags = VMsucceed | VMfailInvalid | VMfailValid

definition cpu_vmxon :: "u32 \<Rightarrow> mem \<Rightarrow> u64 \<Rightarrow> lcpu \<Rightarrow> cpu_exn + (vmx_flags \<times> lcpu)" where
  "cpu_vmxon vrev m pa c =
     (if \<not> bit (lc_cr4 c) 13 then Inl UD
      else if lc_vmx c \<noteq> None then Inr (if lc_current c then VMfailValid else VMfailInvalid, c)
      else if lc_feature_control c AND 5 \<noteq> 5 then Inl GP
      else if \<not> PAGE_ALIGNED pa \<or> le_word (rd_bytes m pa 4) \<noteq> ucast vrev then Inr (VMfailInvalid, c)
      else Inr (VMsucceed, c\<lparr>lc_vmx := Some pa, lc_current := False\<rparr>))"

definition cpu_vmxoff :: "lcpu \<Rightarrow> cpu_exn + (vmx_flags \<times> lcpu)" where
  "cpu_vmxoff c = (if lc_vmx c = None then Inl UD else Inr (VMsucceed, c\<lparr>lc_vmx := None, lc_current := False\<rparr>))"

definition cpu_vmread :: "lcpu \<Rightarrow> cpu_exn + unit" where
  "cpu_vmread c = (if lc_vmx c = None then Inl UD else Inr ())"

definition cpu_mov_cr4 :: "u64 \<Rightarrow> lcpu \<Rightarrow> cpu_exn + lcpu" where
  "cpu_mov_cr4 v c = (if lc_vmx c \<noteq> None \<and> \<not> bit v 13 then Inl GP else Inr (c\<lparr>lc_cr4 := v\<rparr>))"

definition cpu_wrmsr_feature_control :: "u64 \<Rightarrow> lcpu \<Rightarrow> cpu_exn + lcpu" where
  "cpu_wrmsr_feature_control v c = (if bit (lc_feature_control c) 0 then Inl GP else Inr (c\<lparr>lc_feature_control := v\<rparr>))"

section \<open>One processor\<close>

definition relm_vmx_support :: "u32 \<Rightarrow> bool" where
  "relm_vmx_support cpuid_ecx \<longleftrightarrow> cpuid_ecx AND 0x20 \<noteq> 0"

definition relm_enable_vmx_operation :: "lcpu \<Rightarrow> cpu_exn + lcpu" where
  "relm_enable_vmx_operation c =
     (let v = lc_cr4 c in if v AND 0x2000 = 0 then cpu_mov_cr4 (v OR 0x2000) c else Inr c)"

definition relm_setup_feature_control :: "lcpu \<Rightarrow> cpu_exn + (bool \<times> lcpu)" where
  "relm_setup_feature_control c =
     (let fc = lc_feature_control c; required = 1 OR 4 in
      if fc AND 1 \<noteq> 0 then Inr (fc AND 4 \<noteq> 0, c)
      else case cpu_wrmsr_feature_control (fc OR required) c of
        Inl x \<Rightarrow> Inl x
      | Inr c \<Rightarrow> Inr (lc_feature_control c AND required = required, c))"

definition relm_setup_vmxon_region :: "u32 \<Rightarrow> host_cpu \<Rightarrow> host \<Rightarrow> unit res \<times> host_cpu \<times> host" where
  "relm_setup_vmxon_region vrev hcpu h =
     (case get_zeroed_page h of
        (None, h) \<Rightarrow> (Inl ENOMEM, hcpu, h)
      | (Some f, h) \<Rightarrow> (Inr (), hcpu\<lparr>vmxon_region := Some f, vmxon_pa := f\<rparr>, h\<lparr>pmem := wr_bytes (pmem h) f (le_bytes 4 (ucast vrev))\<rparr>))"

definition relm_free_vmxon_region :: "host_cpu \<Rightarrow> host \<Rightarrow> host_cpu \<times> host" where
  "relm_free_vmxon_region hcpu h =
     (case vmxon_region hcpu of None \<Rightarrow> (hcpu, h) | Some f \<Rightarrow> (hcpu\<lparr>vmxon_region := None, vmxon_pa := 0\<rparr>, free_page f h))"

text \<open>Both failure branches of \<open>relm_vmxon\<close> read the instruction error from the VMCS.\<close>

definition relm_vmxon :: "u32 \<Rightarrow> mem \<Rightarrow> host_cpu option \<Rightarrow> lcpu \<Rightarrow> cpu_exn + (unit res \<times> lcpu)" where
  "relm_vmxon vrev m hcpu c =
     (case hcpu of None \<Rightarrow> Inr (Inl EINVAL, c)
      | Some hc \<Rightarrow>
        if vmxon_pa hc = 0 then Inr (Inl EINVAL, c)
        else case cpu_vmxon vrev m (vmxon_pa hc) c of
          Inl x \<Rightarrow> Inl x
        | Inr (VMsucceed, c) \<Rightarrow> Inr (Inr (), c)
        | Inr (_, c) \<Rightarrow> (case cpu_vmread c of Inl x \<Rightarrow> Inl x | Inr _ \<Rightarrow> Inr (Inl EIO, c)))"

definition relm_vmxoff :: "lcpu \<Rightarrow> cpu_exn + (unit res \<times> lcpu)" where
  "relm_vmxoff c =
     (case cpu_vmxoff c of Inl x \<Rightarrow> Inl x | Inr (VMsucceed, c) \<Rightarrow> Inr (Inr (), c) | Inr (_, c) \<Rightarrow> Inr (Inl EIO, c))"

definition set_cpu :: "nat \<Rightarrow> lcpu \<Rightarrow> vmx_host \<Rightarrow> vmx_host" where
  "set_cpu i c s = s\<lparr>vh_cpu := (vh_cpu s)(i := c)\<rparr>"

text \<open>The handlers of the cross-processor calls; the number is \<open>work->failed_cpus\<close>.\<close>

definition relm_vmx_enable_cpu :: "u32 \<Rightarrow> nat \<Rightarrow> vmx_host \<times> nat \<Rightarrow> cpu_exn + (vmx_host \<times> nat)" where
  "relm_vmx_enable_cpu vrev i w =
     (case w of (s, failed_cpus) \<Rightarrow>
      let c = vh_cpu s i in
      if lc_hcpu c = None then Inr (s, failed_cpus + 1)
      else case relm_enable_vmx_operation c of
        Inl x \<Rightarrow> Inl x
      | Inr c \<Rightarrow>
       (case relm_setup_feature_control c of
          Inl x \<Rightarrow> Inl x
        | Inr (False, c) \<Rightarrow> Inr (set_cpu i c s, failed_cpus + 1)
        | Inr (True, c) \<Rightarrow>
         (case relm_vmxon vrev (pmem (vh_host s)) (lc_hcpu c) c of
            Inl x \<Rightarrow> Inl x
          | Inr (Inl e, c) \<Rightarrow> Inr (set_cpu i c s, failed_cpus + 1)
          | Inr (Inr _, c) \<Rightarrow> Inr (set_cpu i c s, failed_cpus))))"

definition relm_vmx_disable_cpu :: "nat \<Rightarrow> vmx_host \<Rightarrow> cpu_exn + vmx_host" where
  "relm_vmx_disable_cpu i s =
     (let c = vh_cpu s i in
      if lc_hcpu c = None then Inr s
      else case relm_vmxoff c of
        Inl x \<Rightarrow> Inl x
      | Inr (_, c) \<Rightarrow>
       (case cpu_mov_cr4 (lc_cr4 c AND NOT 0x2000) c of Inl x \<Rightarrow> Inl x | Inr c \<Rightarrow> Inr (set_cpu i c s)))"

section \<open>All processors\<close>

fun on_each_cpu :: "(nat \<Rightarrow> 's \<Rightarrow> cpu_exn + 's) \<Rightarrow> nat list \<Rightarrow> 's \<Rightarrow> cpu_exn + 's" where
  "on_each_cpu f [] s = Inr s"
| "on_each_cpu f (i # js) s = (case f i s of Inl x \<Rightarrow> Inl x | Inr s \<Rightarrow> on_each_cpu f js s)"

fun alloc_hcpus :: "u32 \<Rightarrow> nat list \<Rightarrow> vmx_host \<Rightarrow> unit res \<times> vmx_host" where
  "alloc_hcpus vrev [] s = (Inr (), s)"
| "alloc_hcpus vrev (i # js) s =
     (case kzalloc (vh_host s) of
        (False, h) \<Rightarrow> (Inl ENOMEM, s\<lparr>vh_host := h\<rparr>)
      | (True, h) \<Rightarrow>
       (case relm_setup_vmxon_region vrev \<lparr>logical_cpu_id = i, vmxon_region = None, vmxon_pa = 0\<rparr> h of
          (Inl e, hc, h) \<Rightarrow> (Inl ENOMEM, s\<lparr>vh_host := h\<rparr>)
        | (Inr _, hc, h) \<Rightarrow> alloc_hcpus vrev js (set_cpu i ((vh_cpu s i)\<lparr>lc_hcpu := Some hc\<rparr>) (s\<lparr>vh_host := h\<rparr>))))"

definition free_hcpu :: "nat \<Rightarrow> vmx_host \<Rightarrow> vmx_host" where
  "free_hcpu i s = (case lc_hcpu (vh_cpu s i) of None \<Rightarrow> s
     | Some hc \<Rightarrow> set_cpu i ((vh_cpu s i)\<lparr>lc_hcpu := None\<rparr>) (s\<lparr>vh_host := snd (relm_free_vmxon_region hc (vh_host s))\<rparr>))"

text \<open>\<open>online\<close> lists the online processors; \<open>ord\<close> and \<open>ord'\<close> are the orders of the cross-processor calls.\<close>

definition relm_vmx_disable_on_all_cpus :: "nat list \<Rightarrow> nat list \<Rightarrow> vmx_host \<Rightarrow> cpu_exn + vmx_host" where
  "relm_vmx_disable_on_all_cpus online ord s =
     (case on_each_cpu relm_vmx_disable_cpu ord s of Inl x \<Rightarrow> Inl x | Inr s \<Rightarrow> Inr (fold free_hcpu online s))"

definition enable_cleanup :: "nat list \<Rightarrow> nat list \<Rightarrow> errno \<Rightarrow> vmx_host \<Rightarrow> cpu_exn + (unit res \<times> vmx_host)" where
  "enable_cleanup online ord e s =
     (case relm_vmx_disable_on_all_cpus online ord s of Inl x \<Rightarrow> Inl x | Inr s \<Rightarrow> Inr (Inl e, s))"

definition relm_vmx_enable_on_all_cpus :: "u32 \<Rightarrow> nat list \<Rightarrow> nat list \<Rightarrow> nat list \<Rightarrow> vmx_host \<Rightarrow> cpu_exn + (unit res \<times> vmx_host)" where
  "relm_vmx_enable_on_all_cpus vrev online ord ord' s =
     (case alloc_hcpus vrev online s of
        (Inl e, s) \<Rightarrow> enable_cleanup online ord' e s
      | (Inr _, s) \<Rightarrow>
       (case on_each_cpu (relm_vmx_enable_cpu vrev) ord (s, 0) of
          Inl x \<Rightarrow> Inl x
        | Inr (s, failed_cpus) \<Rightarrow> if failed_cpus > 0 then enable_cleanup online ord' EIO s else Inr (Inr (), s)))"

definition relm_arch_init :: "u32 \<Rightarrow> u32 \<Rightarrow> nat list \<Rightarrow> nat list \<Rightarrow> nat list \<Rightarrow> vmx_host \<Rightarrow> cpu_exn + (unit res \<times> vmx_host)" where
  "relm_arch_init cpuid_ecx vrev online ord ord' s =
     (if \<not> relm_vmx_support cpuid_ecx then Inr (Inl ENODEV, s) else relm_vmx_enable_on_all_cpus vrev online ord ord' s)"

definition relm_arch_exit :: "nat list \<Rightarrow> nat list \<Rightarrow> vmx_host \<Rightarrow> cpu_exn + vmx_host" where
  "relm_arch_exit online ord s = relm_vmx_disable_on_all_cpus online ord s"

section \<open>The cross-processor calls\<close>

lemma set_cpu_simps [simp]:
  "vh_cpu (set_cpu i c s) j = (if j = i then c else vh_cpu s j)" "vh_host (set_cpu i c s) = vh_host s"
  by (simp_all add: set_cpu_def)

text \<open>A handler that turns each processor into \<open>f\<close> of itself does so for all of them, in any order.\<close>

definition map_cpus :: "(lcpu \<Rightarrow> lcpu) \<Rightarrow> nat set \<Rightarrow> vmx_host \<Rightarrow> vmx_host" where
  "map_cpus f I s = s\<lparr>vh_cpu := (\<lambda>i. if i \<in> I then f (vh_cpu s i) else vh_cpu s i)\<rparr>"

lemma map_cpus_simps [simp]:
  "vh_cpu (map_cpus f I s) i = (if i \<in> I then f (vh_cpu s i) else vh_cpu s i)" "vh_host (map_cpus f I s) = vh_host s"
  by (simp_all add: map_cpus_def)

lemma vmx_host_eqI: "vh_cpu s = vh_cpu s' \<Longrightarrow> vh_host s = vh_host s' \<Longrightarrow> (s :: vmx_host) = s'"
  by (rule vmx_host.equality) simp_all

lemma map_cpus_step: "i \<notin> I \<Longrightarrow> map_cpus f I (set_cpu i (f (vh_cpu s i)) s) = map_cpus f (insert i I) s"
  by (rule vmx_host_eqI) (auto simp: fun_eq_iff)

lemma on_each_enable:
  assumes "distinct ord"
    and "\<And>i s n. i \<in> set ord \<Longrightarrow> vh_host s = vh_host s0 \<Longrightarrow> vh_cpu s i = vh_cpu s0 i \<Longrightarrow> h i (s, n) = Inr (set_cpu i (f (vh_cpu s0 i)) s, n + k)"
  shows "on_each_cpu h ord (s0, n) = Inr (map_cpus f (set ord) s0, n + k * length ord)"
proof -
  have "on_each_cpu h ord (s, n) = Inr (map_cpus f (set ord) s, n + k * length ord)"
    if "vh_host s = vh_host s0" "\<forall>i\<in>set ord. vh_cpu s i = vh_cpu s0 i" for s n
    using assms that
  proof (induction ord arbitrary: s n)
    case Nil
    then show ?case by (simp add: map_cpus_def)
  next
    case (Cons i js)
    have "h i (s, n) = Inr (set_cpu i (f (vh_cpu s i)) s, n + k)" using Cons.prems(2) [of i s n] Cons.prems by simp
    moreover have "on_each_cpu h js (set_cpu i (f (vh_cpu s i)) s, n + k) =
        Inr (map_cpus f (set js) (set_cpu i (f (vh_cpu s i)) s), n + k + k * length js)"
      using Cons.prems by (intro Cons.IH) auto
    moreover have "map_cpus f (set js) (set_cpu i (f (vh_cpu s i)) s) = map_cpus f (insert i (set js)) s"
      using Cons.prems(1) by (intro map_cpus_step) simp
    ultimately show ?case by simp
  qed
  then show ?thesis by simp
qed


section \<open>Enabling and disabling\<close>

definition enabled :: "lcpu \<Rightarrow> lcpu" where
  "enabled c = c\<lparr>lc_cr4 := lc_cr4 c OR 0x2000, lc_feature_control := (if bit (lc_feature_control c) 0 then lc_feature_control c else lc_feature_control c OR 5),
     lc_vmx := map_option vmxon_pa (lc_hcpu c), lc_current := False\<rparr>"

definition can_enable :: "u32 \<Rightarrow> mem \<Rightarrow> lcpu \<Rightarrow> bool" where
  "can_enable vrev m c \<longleftrightarrow> lc_vmx c = None \<and> (bit (lc_feature_control c) 0 \<longrightarrow> bit (lc_feature_control c) 2) \<and>
     (\<exists>hc. lc_hcpu c = Some hc \<and> vmxon_pa hc \<noteq> 0 \<and> PAGE_ALIGNED (vmxon_pa hc) \<and> le_word (rd_bytes m (vmxon_pa hc) 4) = ucast vrev)"

lemma and_bit_masks:
  fixes x :: u64
  shows "x AND 1 = 0 \<longleftrightarrow> \<not> bit x 0" "x AND 4 = 0 \<longleftrightarrow> \<not> bit x 2" "x AND 0x2000 = 0 \<longleftrightarrow> \<not> bit x 13"
  using and_exp_eq_0_iff_not_bit [of x 0] and_exp_eq_0_iff_not_bit [of x 2] and_exp_eq_0_iff_not_bit [of x 13] by simp_all

lemma bit_consts: "bit (0x2000 :: int) n \<longleftrightarrow> n = 13" "bit (5 :: int) n \<longleftrightarrow> n = 0 \<or> n = 2"
proof -
  have e: "(0x2000 :: int) = push_bit 13 1" "(5 :: int) = push_bit 0 1 OR push_bit 2 1" by (simp_all add: push_bit_eq_mult)
  show "bit (0x2000 :: int) n \<longleftrightarrow> n = 13" "bit (5 :: int) n \<longleftrightarrow> n = 0 \<or> n = 2"
    by (simp_all only: e bit_or_iff bit_push_bit_iff) (auto simp: bit_1_iff)
qed

lemma feature_bits: "(x AND 5 = (5 :: u64)) \<longleftrightarrow> bit x 0 \<and> bit x 2"
proof
  assume e: "x AND 5 = 5"
  have "bit (x AND 5) 0 \<and> bit (x AND 5) 2" unfolding e by (simp add: bit_consts)
  then show "bit x 0 \<and> bit x 2" by (simp add: bit_and_iff)
qed (rule bit_word_eqI, auto simp: bit_and_iff bit_consts)

lemma or_vmxe: "bit x 13 \<Longrightarrow> x OR 0x2000 = (x :: u64)"
  by (rule bit_word_eqI) (auto simp: bit_or_iff bit_consts)

lemma enable_cpu_ok:
  assumes "can_enable vrev (pmem (vh_host s)) (vh_cpu s i)"
  shows "relm_vmx_enable_cpu vrev i (s, n) = Inr (set_cpu i (enabled (vh_cpu s i)) s, n)"
proof -
  let ?c = "vh_cpu s i"
  obtain hc where hc: "lc_vmx ?c = None" "lc_hcpu ?c = Some hc" "vmxon_pa hc \<noteq> 0" "PAGE_ALIGNED (vmxon_pa hc)"
      "le_word (rd_bytes (pmem (vh_host s)) (vmxon_pa hc) 4) = ucast vrev" and fc: "bit (lc_feature_control ?c) 0 \<longrightarrow> bit (lc_feature_control ?c) 2"
    using assms by (auto simp: can_enable_def)
  have e: "relm_enable_vmx_operation ?c = Inr (?c\<lparr>lc_cr4 := lc_cr4 ?c OR 0x2000\<rparr>)"
    using hc(1) by (auto simp: relm_enable_vmx_operation_def Let_def cpu_mov_cr4_def and_bit_masks or_vmxe)
  show ?thesis
    unfolding relm_vmx_enable_cpu_def prod.case Let_def e
    using hc fc
    by (auto simp: relm_setup_feature_control_def Let_def cpu_wrmsr_feature_control_def and_bit_masks feature_bits bit_or_iff bit_consts
        relm_vmxon_def cpu_vmxon_def enabled_def)
qed

definition disabled :: "lcpu \<Rightarrow> lcpu" where
  "disabled c = c\<lparr>lc_vmx := None, lc_current := False, lc_cr4 := lc_cr4 c AND NOT 0x2000\<rparr>"

lemma disable_cpu_ok:
  assumes "lc_vmx (vh_cpu s i) \<noteq> None" "lc_hcpu (vh_cpu s i) \<noteq> None"
  shows "relm_vmx_disable_cpu i s = Inr (set_cpu i (disabled (vh_cpu s i)) s)"
  using assms by (auto simp: relm_vmx_disable_cpu_def Let_def relm_vmxoff_def cpu_vmxoff_def cpu_mov_cr4_def disabled_def)

lemma on_each_disable:
  assumes "distinct ord" "\<And>i. i \<in> set ord \<Longrightarrow> lc_vmx (vh_cpu s i) \<noteq> None \<and> lc_hcpu (vh_cpu s i) \<noteq> None"
  shows "on_each_cpu relm_vmx_disable_cpu ord s = Inr (map_cpus disabled (set ord) s)"
  using assms
proof (induction ord arbitrary: s)
  case Nil
  then show ?case by (simp add: map_cpus_def)
next
  case (Cons i js)
  have "on_each_cpu relm_vmx_disable_cpu js (set_cpu i (disabled (vh_cpu s i)) s) = Inr (map_cpus disabled (set js) (set_cpu i (disabled (vh_cpu s i)) s))"
    using Cons.prems by (intro Cons.IH) auto
  with Cons.prems show ?case by (simp add: disable_cpu_ok map_cpus_step)
qed

text \<open>The regions of the processors in \<open>js\<close>, taken from the pool in order.\<close>

definition give_regions :: "nat list \<Rightarrow> u64 list \<Rightarrow> (nat \<Rightarrow> lcpu) \<Rightarrow> nat \<Rightarrow> lcpu" where
  "give_regions js fs c = (\<lambda>i. case map_of (zip js fs) i of None \<Rightarrow> c i
     | Some f \<Rightarrow> (c i)\<lparr>lc_hcpu := Some \<lparr>logical_cpu_id = i, vmxon_region = Some f, vmxon_pa = f\<rparr>\<rparr>)"

lemma zero_page_other: "page_base x \<noteq> f \<Longrightarrow> zero_page m f x = m x"
  by (simp add: zero_page_def)

lemma region_bytes:
  assumes "frame_ok f" "page_base x \<noteq> f"
  shows "wr_bytes (zero_page m f) f (le_bytes 4 v) x = m x"
proof -
  have "\<not> unat (x - f) < 4"
  proof
    assume "unat (x - f) < 4"
    then have "page_base (f + word_of_nat (unat (x - f))) = f" using assms(1) by (intro page_base_add) (simp_all add: frame_ok_def)
    with assms(2) show False by simp
  qed
  then show ?thesis using assms(2) by (simp add: wr_bytes_def zero_page_other)
qed

lemma alloc_hcpus_ok:
  assumes "host_ok (vh_host s)" "distinct js" "kmem (vh_host s) = replicate (length js) True @ ks" "length js \<le> length (pool (vh_host s))"
  obtains s' where "alloc_hcpus vrev js s = (Inr (), s')" "vh_cpu s' = give_regions js (take (length js) (pool (vh_host s))) (vh_cpu s)"
    "pool (vh_host s') = drop (length js) (pool (vh_host s))" "kmem (vh_host s') = ks"
    "\<And>f. f \<in> set (take (length js) (pool (vh_host s))) \<Longrightarrow> rd_bytes (pmem (vh_host s')) f 4 = le_bytes 4 (ucast vrev)"
    "\<And>x. page_base x \<notin> set (take (length js) (pool (vh_host s))) \<Longrightarrow> pmem (vh_host s') x = pmem (vh_host s) x"
  using assms
proof (induction js arbitrary: s thesis)
  case Nil
  show ?case by (rule Nil.prems(1) [of s]) (use Nil.prems(4) in \<open>simp_all add: give_regions_def\<close>)
next
  case (Cons i js)
  let ?h = "vh_host s"
  obtain f fs where p: "pool ?h = f # fs" using Cons.prems(5) by (cases "pool ?h") auto
  have f: "frame_ok f" "f \<notin> set fs" using Cons.prems(2) p by (auto simp: host_ok_def)
  define h2 where "h2 = ?h\<lparr>kmem := replicate (length js) True @ ks, pool := fs, pmem := wr_bytes (zero_page (pmem ?h) f) f (le_bytes 4 (ucast vrev))\<rparr>"
  define s2 where "s2 = set_cpu i ((vh_cpu s i)\<lparr>lc_hcpu := Some \<lparr>logical_cpu_id = i, vmxon_region = Some f, vmxon_pa = f\<rparr>\<rparr>) (s\<lparr>vh_host := h2\<rparr>)"
  have st: "alloc_hcpus vrev (i # js) s = alloc_hcpus vrev js s2"
    using Cons.prems(4) p by (simp add: kzalloc_def relm_setup_vmxon_region_def s2_def h2_def)
  have h2: "vh_host s2 = h2" by (simp add: s2_def)
  have pr: "host_ok (vh_host s2)" "distinct js" "kmem (vh_host s2) = replicate (length js) True @ ks" "length js \<le> length (pool (vh_host s2))"
    using Cons.prems p by (auto simp: h2 h2_def host_ok_def)
  obtain s' where s': "alloc_hcpus vrev js s2 = (Inr (), s')" "vh_cpu s' = give_regions js (take (length js) fs) (vh_cpu s2)"
    "pool (vh_host s') = drop (length js) fs" "kmem (vh_host s') = ks"
    "\<And>f. f \<in> set (take (length js) fs) \<Longrightarrow> rd_bytes (pmem (vh_host s')) f 4 = le_bytes 4 (ucast vrev)"
    "\<And>x. page_base x \<notin> set (take (length js) fs) \<Longrightarrow> pmem (vh_host s') x = pmem h2 x"
    by (rule Cons.IH [OF _ pr]) (simp add: h2 h2_def)
  show ?case
  proof (rule Cons.prems(1))
    show "alloc_hcpus vrev (i # js) s = (Inr (), s')" using st s'(1) by simp
    show "vh_cpu s' = give_regions (i # js) (take (length (i # js)) (pool ?h)) (vh_cpu s)"
      using s'(2) Cons.prems(3) p by (auto simp: give_regions_def s2_def fun_eq_iff dest!: map_of_SomeD set_zip_leftD split: option.splits)
    show "pool (vh_host s') = drop (length (i # js)) (pool ?h)" "kmem (vh_host s') = ks" using s'(3,4) p by simp_all
    have tk: "f \<notin> set (take (length js) fs)" using f(2) by (meson in_set_takeD)
    have fb: "rd_bytes (pmem (vh_host s')) f 4 = le_bytes 4 (ucast vrev)"
    proof -
      have "pmem (vh_host s') (f + word_of_nat k) = pmem h2 (f + word_of_nat k)" if "k < 4" for k
      proof (rule s'(6))
        have "page_base (f + word_of_nat k) = f" using f(1) that by (intro page_base_add) (simp_all add: frame_ok_def unat_word_of_nat_small)
        with tk show "page_base (f + word_of_nat k) \<notin> set (take (length js) fs)" by simp
      qed
      then have "rd_bytes (pmem (vh_host s')) f 4 = rd_bytes (pmem h2) f 4" by (rule rd_bytes_eqI)
      then show ?thesis using rd_wr_bytes_same [of "le_bytes 4 (ucast vrev)" "zero_page (pmem ?h) f" f] by (simp add: h2_def)
    qed
    show "rd_bytes (pmem (vh_host s')) g 4 = le_bytes 4 (ucast vrev)" if "g \<in> set (take (length (i # js)) (pool ?h))" for g
      using that p fb s'(5) by auto
    show "pmem (vh_host s') x = pmem ?h x" if "page_base x \<notin> set (take (length (i # js)) (pool ?h))" for x
      using that p s'(6) [of x] region_bytes [OF f(1), of x "pmem ?h" "ucast vrev"] by (simp add: h2_def)
  qed
qed


text \<open>A host before the module is loaded: the pool is sound, no processor is in VMX operation or has a region, and none has
  VMX locked off.\<close>

definition vmx_idle :: "nat list \<Rightarrow> vmx_host \<Rightarrow> bool" where
  "vmx_idle online s \<longleftrightarrow> distinct online \<and> host_ok (vh_host s) \<and> 0 \<notin> set (pool (vh_host s)) \<and>
     (\<forall>i\<in>set online. lc_vmx (vh_cpu s i) = None \<and> lc_hcpu (vh_cpu s i) = None \<and>
        (bit (lc_feature_control (vh_cpu s i)) 0 \<longrightarrow> bit (lc_feature_control (vh_cpu s i)) 2))"

lemma give_regions_at:
  assumes "distinct js" "length fs = length js" "k < length js"
  shows "give_regions js fs c (js ! k) = (c (js ! k))\<lparr>lc_hcpu := Some \<lparr>logical_cpu_id = js ! k, vmxon_region = Some (fs ! k), vmxon_pa = fs ! k\<rparr>\<rparr>"
proof -
  have "map_of (zip js fs) (js ! k) = Some (fs ! k)" using assms by (intro map_of_is_SomeI) (auto simp: set_zip)
  then show ?thesis by (simp add: give_regions_def)
qed

lemma enable_all_eq:
  assumes i: "vmx_idle online s" and ord: "distinct ord" "set ord = set online"
    and km: "kmem (vh_host s) = replicate (length online) True @ ks" and pl: "length online \<le> length (pool (vh_host s))"
  obtains s1 where "relm_vmx_enable_on_all_cpus vrev online ord ord' s = Inr (Inr (), map_cpus enabled (set online) s1)"
    "vh_cpu s1 = give_regions online (take (length online) (pool (vh_host s))) (vh_cpu s)"
    "pool (vh_host s1) = drop (length online) (pool (vh_host s))" "kmem (vh_host s1) = ks"
proof -
  let ?fs = "take (length online) (pool (vh_host s))"
  have io: "host_ok (vh_host s)" "distinct online" using i by (simp_all add: vmx_idle_def)
  obtain s1 where s1: "alloc_hcpus vrev online s = (Inr (), s1)" "vh_cpu s1 = give_regions online ?fs (vh_cpu s)"
    "pool (vh_host s1) = drop (length online) (pool (vh_host s))" "kmem (vh_host s1) = ks"
    "\<And>f. f \<in> set ?fs \<Longrightarrow> rd_bytes (pmem (vh_host s1)) f 4 = le_bytes 4 (ucast vrev)"
    by (rule alloc_hcpus_ok [OF io km pl]) blast
  have lf: "length ?fs = length online" using pl by simp
  have rv: "take_bit 32 (ucast vrev :: u64) = ucast vrev" by (rule bit_word_eqI) (auto simp: bit_simps dest: bit_imp_le_length)
  have ce: "can_enable vrev (pmem (vh_host s1)) (vh_cpu s1 j)" if j: "j \<in> set online" for j
  proof -
    obtain k where k: "k < length online" "j = online ! k" using j by (auto simp: in_set_conv_nth)
    have f: "?fs ! k \<in> set ?fs" using k(1) lf by (metis nth_mem)
    then have "frame_ok (?fs ! k)" "?fs ! k \<noteq> 0" using i in_set_takeD [OF f] by (auto simp: vmx_idle_def host_ok_def)
    moreover have "le_word (rd_bytes (pmem (vh_host s1)) (?fs ! k) 4) = ucast vrev" using s1(5) [OF f] rv by (simp add: le_word_le_bytes)
    ultimately show ?thesis
      unfolding s1(2) k(2) give_regions_at [OF io(2) lf k(1)] using i j k(2) by (auto simp: can_enable_def vmx_idle_def frame_ok_def)
  qed
  have "on_each_cpu (relm_vmx_enable_cpu vrev) ord (s1, 0) = Inr (map_cpus enabled (set ord) s1, 0 + 0 * length ord)"
    by (rule on_each_enable [OF ord(1)]) (use ce ord(2) enable_cpu_ok in \<open>metis add_0_right\<close>)
  then have "relm_vmx_enable_on_all_cpus vrev online ord ord' s = Inr (Inr (), map_cpus enabled (set online) s1)"
    using s1(1) ord(2) by (simp add: relm_vmx_enable_on_all_cpus_def)
  with s1(2-4) show thesis by (intro that)
qed

lemma free_hcpus:
  assumes "distinct js" "\<And>i. i \<in> set js \<Longrightarrow> \<exists>hc. lc_hcpu (vh_cpu s i) = Some hc \<and> vmxon_region hc = Some (r i)"
  shows "pool (vh_host (fold free_hcpu js s)) = pool (vh_host s) @ map r js"
    and "vh_cpu (fold free_hcpu js s) = (\<lambda>i. if i \<in> set js then (vh_cpu s i)\<lparr>lc_hcpu := None\<rparr> else vh_cpu s i)"
proof -
  have "pool (vh_host (fold free_hcpu js s)) = pool (vh_host s) @ map r js \<and>
    vh_cpu (fold free_hcpu js s) = (\<lambda>i. if i \<in> set js then (vh_cpu s i)\<lparr>lc_hcpu := None\<rparr> else vh_cpu s i)"
    using assms
  proof (induction js arbitrary: s)
    case (Cons i js)
    from Cons.prems(2) [of i] obtain hc where hc: "lc_hcpu (vh_cpu s i) = Some hc" "vmxon_region hc = Some (r i)" by auto
    define s2 where "s2 = set_cpu i ((vh_cpu s i)\<lparr>lc_hcpu := None\<rparr>) (s\<lparr>vh_host := free_page (r i) (vh_host s)\<rparr>)"
    have st: "free_hcpu i s = s2" using hc by (simp add: free_hcpu_def relm_free_vmxon_region_def s2_def)
    have "pool (vh_host (fold free_hcpu js s2)) = pool (vh_host s2) @ map r js \<and>
      vh_cpu (fold free_hcpu js s2) = (\<lambda>i. if i \<in> set js then (vh_cpu s2 i)\<lparr>lc_hcpu := None\<rparr> else vh_cpu s2 i)"
      using Cons.prems by (intro Cons.IH) (auto simp: s2_def)
    then show ?case using st Cons.prems(1) by (auto simp: s2_def free_page_def)
  qed simp
  then show "pool (vh_host (fold free_hcpu js s)) = pool (vh_host s) @ map r js"
    "vh_cpu (fold free_hcpu js s) = (\<lambda>i. if i \<in> set js then (vh_cpu s i)\<lparr>lc_hcpu := None\<rparr> else vh_cpu s i)" by blast+
qed

text \<open>With a frame and a structure for every online processor, VMX comes up on all of them, in whatever order they take the
  call: each is in VMX operation with CR4.VMXE set, on a region of its own that has left the free pool.\<close>

theorem vmx_enabled_everywhere:
  assumes "vmx_idle online s" and "distinct ord" and "set ord = set online"
    and "kmem (vh_host s) = replicate (length online) True @ ks" and "length online \<le> length (pool (vh_host s))"
  shows "\<exists>s'. relm_vmx_enable_on_all_cpus vrev online ord ord' s = Inr (Inr (), s') \<and>
    (\<forall>i\<in>set online. bit (lc_cr4 (vh_cpu s' i)) 13 \<and>
       (\<exists>f. lc_vmx (vh_cpu s' i) = Some f \<and> f \<in> set (pool (vh_host s)) \<and> f \<notin> set (pool (vh_host s')))) \<and>
    inj_on (\<lambda>i. lc_vmx (vh_cpu s' i)) (set online)"
proof (rule enable_all_eq [OF assms, of vrev ord'], goal_cases)
  case (1 s1)
  let ?p = "pool (vh_host s)" and ?n = "length online" and ?s = "map_cpus enabled (set online) s1"
  have d: "distinct online" "distinct ?p" using assms(1) by (auto simp: vmx_idle_def host_ok_def)
  have lf: "length (take ?n ?p) = ?n" using assms(5) by simp
  have v: "lc_vmx (vh_cpu ?s (online ! k)) = Some (?p ! k)" "bit (lc_cr4 (vh_cpu ?s (online ! k))) 13" if "k < ?n" for k
    using that 1(2) give_regions_at [OF d(1) lf that] by (simp_all add: enabled_def bit_or_iff bit_consts)
  have m: "?p ! k \<in> set ?p" "?p ! k \<notin> set (drop ?n ?p)" if "k < ?n" for k
  proof -
    show "?p ! k \<in> set ?p" using that assms(5) by simp
    have "?p ! k \<in> set (take ?n ?p)" using that lf by (metis nth_mem nth_take)
    then show "?p ! k \<notin> set (drop ?n ?p)" using d(2) by (meson disjoint_iff set_take_disj_set_drop_if_distinct order_refl)
  qed
  define g where "g i = lc_vmx (vh_cpu ?s i)" for i
  have "g (online ! k) = Some (?p ! k)" if "k < ?n" for k unfolding g_def by (rule v(1) [OF that])
  then have "inj_on g (set online)"
    using d(2) assms(5) by (auto simp: inj_on_def in_set_conv_nth nth_eq_iff_index_eq)
  then have "inj_on (\<lambda>i. lc_vmx (vh_cpu ?s i)) (set online)" unfolding g_def .
  moreover have "\<forall>i\<in>set online. bit (lc_cr4 (vh_cpu ?s i)) 13 \<and> (\<exists>f. lc_vmx (vh_cpu ?s i) = Some f \<and> f \<in> set ?p \<and> f \<notin> set (pool (vh_host ?s)))"
  proof
    fix i assume "i \<in> set online"
    then obtain k where k: "k < ?n" "i = online ! k" by (auto simp: in_set_conv_nth)
    have pd: "pool (vh_host ?s) = drop ?n ?p" using 1(3) by simp
    show "bit (lc_cr4 (vh_cpu ?s i)) 13 \<and> (\<exists>f. lc_vmx (vh_cpu ?s i) = Some f \<and> f \<in> set ?p \<and> f \<notin> set (pool (vh_host ?s)))"
      unfolding k(2) pd by (intro conjI exI [of _ "?p ! k"] v [OF k(1)] m [OF k(1)])
  qed
  ultimately show ?case using 1(1) by blast
qed

text \<open>Once VMX is on everywhere, it can be turned off in any order and whatever became of the page allocator in between: the
  VMXON regions are appended to its frames.\<close>

lemma exit_after_enable:
  assumes "vmx_idle online s" and "distinct ord" and "set ord = set online"
    and "kmem (vh_host s) = replicate (length online) True @ ks" and "length online \<le> length (pool (vh_host s))"
    and "relm_vmx_enable_on_all_cpus vrev online ord ord' s = Inr (Inr (), s')" and "distinct ord2" and "set ord2 = set online"
  shows "host_ok (vh_host s')" "pool (vh_host s') = drop (length online) (pool (vh_host s))" "kmem (vh_host s') = ks"
    "\<exists>s''. relm_arch_exit online ord2 (s'\<lparr>vh_host := h\<rparr>) = Inr s'' \<and>
      (\<forall>i\<in>set online. lc_vmx (vh_cpu s'' i) = None \<and> lc_hcpu (vh_cpu s'' i) = None \<and> \<not> bit (lc_cr4 (vh_cpu s'' i)) 13) \<and>
      pool (vh_host s'') = pool h @ take (length online) (pool (vh_host s))"
proof -
  obtain s1 where 1: "relm_vmx_enable_on_all_cpus vrev online ord ord' s = Inr (Inr (), map_cpus enabled (set online) s1)"
    "vh_cpu s1 = give_regions online (take (length online) (pool (vh_host s))) (vh_cpu s)"
    "pool (vh_host s1) = drop (length online) (pool (vh_host s))" "kmem (vh_host s1) = ks"
    by (rule enable_all_eq [OF assms(1-5), of vrev ord'])
  let ?p = "pool (vh_host s)" and ?n = "length online"
  have d: "distinct online" "distinct ?p" using assms(1) by (auto simp: vmx_idle_def host_ok_def)
  have lf: "length (take ?n ?p) = ?n" using assms(5) by simp
  have s': "s' = map_cpus enabled (set online) s1" using assms(6) 1(1) by simp
  define r where "r i = the (map_of (zip online (take ?n ?p)) i)" for i
  have hc: "\<exists>hc. lc_hcpu (vh_cpu s1 i) = Some hc \<and> vmxon_region hc = Some (r i)" if i: "i \<in> set online" for i
  proof -
    obtain k where k: "k < ?n" "i = online ! k" using i by (auto simp: in_set_conv_nth)
    have "map_of (zip online (take ?n ?p)) i = Some (take ?n ?p ! k)" unfolding k(2) using d(1) lf k(1) by (intro map_of_is_SomeI) (auto simp: set_zip)
    then show ?thesis using 1(2) give_regions_at [OF d(1) lf k(1), of "vh_cpu s"] k(2) by (simp add: r_def)
  qed
  have rm: "map r online = take ?n ?p"
  proof (rule nth_equalityI)
    show "length (map r online) = length (take ?n ?p)" using lf by simp
    fix k assume "k < length (map r online)"
    then have "map_of (zip online (take ?n ?p)) (online ! k) = Some (take ?n ?p ! k)" using d(1) lf by (intro map_of_is_SomeI) (auto simp: set_zip)
    then show "map r online ! k = take ?n ?p ! k" using \<open>k < length (map r online)\<close> by (simp add: r_def)
  qed
  show "pool (vh_host s') = drop ?n ?p" "kmem (vh_host s') = ks" using 1(3,4) by (simp_all add: s')
  then show "host_ok (vh_host s')" using assms(1) by (auto simp: vmx_idle_def host_ok_def dest: in_set_dropD)
  let ?s = "s'\<lparr>vh_host := h\<rparr>"
  define s2 where "s2 = map_cpus disabled (set online) ?s"
  have on: "lc_vmx (vh_cpu s' i) \<noteq> None \<and> lc_hcpu (vh_cpu s' i) \<noteq> None" if "i \<in> set online" for i
    using hc [OF that] that by (auto simp: s' enabled_def)
  have off: "relm_arch_exit online ord2 ?s = Inr (fold free_hcpu online s2)"
    using on_each_disable [OF assms(7), of ?s] on assms(8) by (simp add: relm_arch_exit_def relm_vmx_disable_on_all_cpus_def s2_def)
  have h2: "\<exists>hc. lc_hcpu (vh_cpu s2 i) = Some hc \<and> vmxon_region hc = Some (r i)" if "i \<in> set online" for i
    using hc [OF that] that by (simp add: s2_def s' disabled_def enabled_def)
  note fr = free_hcpus [OF d(1) h2]
  have "pool (vh_host (fold free_hcpu online s2)) = pool h @ take ?n ?p" using fr(1) rm by (simp add: s2_def)
  moreover have "\<not> bit (x AND NOT 0x2000 :: u64) 13" for x by (simp add: bit_and_iff bit_not_iff bit_consts)
  ultimately show "\<exists>s''. relm_arch_exit online ord2 ?s = Inr s'' \<and>
      (\<forall>i\<in>set online. lc_vmx (vh_cpu s'' i) = None \<and> lc_hcpu (vh_cpu s'' i) = None \<and> \<not> bit (lc_cr4 (vh_cpu s'' i)) 13) \<and>
      pool (vh_host s'') = pool h @ take (length online) (pool (vh_host s))"
    using off fr(2) by (intro exI [of _ "fold free_hcpu online s2"]) (simp add: s2_def disabled_def)
qed

lemma take_drop_frames:
  assumes "distinct p"
  shows "set (drop n p @ take n p) = set p" "distinct (drop n p @ take n p)"
  using assms by (metis append_take_drop_id set_append sup_commute, metis append_take_drop_id distinct_append inf_commute)

text \<open>(C14) Loading and unloading is a round trip: after VMX was turned on everywhere, turning it off succeeds in any order, every
  processor is out of VMX operation with CR4.VMXE clear and no region, and the page allocator has its frames back, each once.\<close>

theorem vmx_round_trip:
  assumes "vmx_idle online s" and "distinct ord" and "set ord = set online"
    and "kmem (vh_host s) = replicate (length online) True @ ks" and "length online \<le> length (pool (vh_host s))"
    and "relm_vmx_enable_on_all_cpus vrev online ord ord' s = Inr (Inr (), s')" and "distinct ord2" and "set ord2 = set online"
  shows "\<exists>s''. relm_arch_exit online ord2 s' = Inr s'' \<and>
    (\<forall>i\<in>set online. lc_vmx (vh_cpu s'' i) = None \<and> lc_hcpu (vh_cpu s'' i) = None \<and> \<not> bit (lc_cr4 (vh_cpu s'' i)) 13) \<and>
    set (pool (vh_host s'')) = set (pool (vh_host s)) \<and> distinct (pool (vh_host s''))"
proof -
  note e = exit_after_enable [OF assms]
  have "distinct (pool (vh_host s))" using assms(1) by (simp add: vmx_idle_def host_ok_def)
  note td = take_drop_frames [OF this, of "length online"]
  have "s'\<lparr>vh_host := vh_host s'\<rparr> = s'" by simp
  with e(4) [of "vh_host s'"] td show ?thesis unfolding e(2) by metis
qed


lemma alloc_hcpus_append:
  "alloc_hcpus vrev (xs @ ys) s = (case alloc_hcpus vrev xs s of (Inl e, s) \<Rightarrow> (Inl e, s) | (Inr _, s) \<Rightarrow> alloc_hcpus vrev ys s)"
  by (induction xs arbitrary: s) (auto split: prod.splits bool.splits sum.splits)

lemma on_each_disable_faults:
  assumes "\<And>i. i \<in> set ord \<Longrightarrow> lc_vmx (vh_cpu s i) = None" "i \<in> set ord" "lc_hcpu (vh_cpu s i) \<noteq> None"
  shows "on_each_cpu relm_vmx_disable_cpu ord s = Inl UD"
  using assms
proof (induction ord)
  case (Cons j js)
  show ?case
  proof (cases "lc_hcpu (vh_cpu s j)")
    case None
    with Cons have "i \<in> set js" by auto
    with Cons None show ?thesis by (simp add: relm_vmx_disable_cpu_def)
  next
    case (Some hc)
    with Cons.prems(1) show ?thesis by (simp add: relm_vmx_disable_cpu_def relm_vmxoff_def cpu_vmxoff_def)
  qed
qed simp

text \<open>When the page allocator runs dry after at least one VMXON region, the error path executes VMXOFF on a processor that
  never entered VMX operation: the host takes an invalid-opcode exception instead of getting \<open>-ENOMEM\<close>.\<close>

theorem failed_enable_faults:
  assumes "vmx_idle online s" and "set ord' = set online"
    and "kmem (vh_host s) = replicate (length online) True @ ks"
    and "0 < length (pool (vh_host s))" and "length (pool (vh_host s)) < length online"
  shows "relm_vmx_enable_on_all_cpus vrev online ord ord' s = Inl UD"
proof -
  let ?p = "pool (vh_host s)" and ?xs = "take (length (pool (vh_host s))) online"
  obtain j js where on: "drop (length ?p) online = j # js" using assms(5) by (cases "drop (length ?p) online") auto
  have sp: "online = ?xs @ j # js" using on by (metis append_take_drop_id)
  have lx: "length ?xs = length ?p" using assms(5) by simp
  have pre: "host_ok (vh_host s)" "distinct ?xs" "length ?xs \<le> length ?p"
    using assms(1) lx by (auto simp: vmx_idle_def)
  have km: "kmem (vh_host s) = replicate (length ?xs) True @ replicate (Suc (length js)) True @ ks"
  proof -
    have "length online = length ?xs + Suc (length js)" using arg_cong [OF sp, of length] by simp
    then show ?thesis unfolding assms(3) by (simp only: replicate_add append_assoc)
  qed
  obtain s1 where s1: "alloc_hcpus vrev ?xs s = (Inr (), s1)" "vh_cpu s1 = give_regions ?xs (take (length ?xs) ?p) (vh_cpu s)"
      "pool (vh_host s1) = []" "kmem (vh_host s1) = replicate (Suc (length js)) True @ ks"
  proof (rule alloc_hcpus_ok [OF pre(1,2) km pre(3), of vrev], goal_cases)
    case (1 s1)
    moreover have "drop (length ?xs) ?p = []" by (simp only: lx drop_all order_refl)
    ultimately show ?thesis by (intro that [of s1]) (simp_all only:)
  qed
  have al: "alloc_hcpus vrev online s = (Inl ENOMEM, s1\<lparr>vh_host := (vh_host s1)\<lparr>kmem := replicate (length js) True @ ks\<rparr>\<rparr>)"
    by (subst sp) (simp add: alloc_hcpus_append s1 kzalloc_def relm_setup_vmxon_region_def get_zeroed_page_def)
  have k0: "0 < length ?xs" "length (take (length ?xs) ?p) = length ?xs" using assms(4) lx by simp_all
  have i0: "lc_hcpu (vh_cpu s1 (?xs ! 0)) \<noteq> None" unfolding s1(2) give_regions_at [OF pre(2) k0(2,1)] by simp
  have nv: "lc_vmx (vh_cpu s1 i) = None" if "i \<in> set online" for i
    using assms(1) that by (auto simp: s1(2) give_regions_def vmx_idle_def split: option.splits)
  have m: "?xs ! 0 \<in> set ord'" using k0(1) assms(2) by (metis in_set_takeD nth_mem)
  have "on_each_cpu relm_vmx_disable_cpu ord' (s1\<lparr>vh_host := (vh_host s1)\<lparr>kmem := replicate (length js) True @ ks\<rparr>\<rparr>) = Inl UD"
    by (rule on_each_disable_faults [OF _ m]) (use nv assms(2) i0 in simp_all)
  then show ?thesis by (simp add: relm_vmx_enable_on_all_cpus_def al enable_cleanup_def relm_vmx_disable_on_all_cpus_def)
qed

text \<open>Loading beside another hypervisor: when every processor is already in VMX operation, the load fails with \<open>-EIO\<close> and its
  cleanup turns VMX off on all of them, clearing CR4.VMXE under the other hypervisor.\<close>

theorem failed_enable_evicts_hypervisor:
  assumes "distinct online" and "online \<noteq> []" and "host_ok (vh_host s)" and "0 \<notin> set (pool (vh_host s))" and "distinct ord" and "set ord = set online"
    and "distinct ord'" and "set ord' = set online"
    and "\<forall>i\<in>set online. lc_vmx (vh_cpu s i) \<noteq> None \<and> bit (lc_cr4 (vh_cpu s i)) 13 \<and> lc_feature_control (vh_cpu s i) AND 5 = 5"
    and "kmem (vh_host s) = replicate (length online) True @ ks" and "length online \<le> length (pool (vh_host s))"
  shows "\<exists>s'. relm_vmx_enable_on_all_cpus vrev online ord ord' s = Inr (Inl EIO, s') \<and>
    (\<forall>i\<in>set online. lc_vmx (vh_cpu s' i) = None \<and> \<not> bit (lc_cr4 (vh_cpu s' i)) 13)"
proof -
  let ?p = "pool (vh_host s)" and ?n = "length online"
  obtain s1 where s1: "alloc_hcpus vrev online s = (Inr (), s1)" "vh_cpu s1 = give_regions online (take ?n ?p) (vh_cpu s)"
    by (rule alloc_hcpus_ok [OF assms(3,1,10,11)]) blast
  have lf: "length (take ?n ?p) = ?n" using assms(11) by simp
  have hc: "\<exists>f. lc_hcpu (vh_cpu s1 i) = Some \<lparr>logical_cpu_id = i, vmxon_region = Some f, vmxon_pa = f\<rparr> \<and> f \<noteq> 0" if i: "i \<in> set online" for i
  proof -
    obtain k where k: "k < ?n" "i = online ! k" using i by (auto simp: in_set_conv_nth)
    have "take ?n ?p ! k \<noteq> 0" using k(1) lf assms(4) by (metis in_set_takeD nth_mem)
    then show ?thesis unfolding s1(2) k(2) give_regions_at [OF assms(1) lf k(1)] by simp
  qed
  have vx: "lc_vmx (vh_cpu s1 i) \<noteq> None" "bit (lc_cr4 (vh_cpu s1 i)) 13" "lc_feature_control (vh_cpu s1 i) AND 5 = 5" if "i \<in> set online" for i
    using assms(9) that by (auto simp: s1(2) give_regions_def split: option.splits)
  have fail: "relm_vmx_enable_cpu vrev i (s2, n) = Inr (set_cpu i (vh_cpu s1 i) s2, n + 1)"
    if "i \<in> set ord" "vh_host s2 = vh_host s1" "vh_cpu s2 i = vh_cpu s1 i" for i s2 n
  proof -
    have io: "i \<in> set online" using that(1) assms(6) by simp
    obtain f where "lc_hcpu (vh_cpu s1 i) = Some \<lparr>logical_cpu_id = i, vmxon_region = Some f, vmxon_pa = f\<rparr>" "f \<noteq> 0" using hc [OF io] by blast
    with vx [OF io] that(3) show ?thesis
      by (auto simp: relm_vmx_enable_cpu_def Let_def relm_enable_vmx_operation_def relm_setup_feature_control_def and_bit_masks feature_bits
          relm_vmxon_def cpu_vmxon_def cpu_vmread_def)
  qed
  have en: "on_each_cpu (relm_vmx_enable_cpu vrev) ord (s1, 0) = Inr (map_cpus (\<lambda>c. c) (set ord) s1, 0 + 1 * length ord)"
    by (rule on_each_enable [OF assms(5)]) (rule fail)
  have "map_cpus (\<lambda>c. c) (set ord) s1 = s1" by (rule vmx_host_eqI) (simp_all add: fun_eq_iff)
  moreover have "0 < length ord" using assms(2,6) by auto
  moreover have "on_each_cpu relm_vmx_disable_cpu ord' s1 = Inr (map_cpus disabled (set online) s1)"
    using on_each_disable [OF assms(7), of s1] hc vx(1) assms(8) by fastforce
  ultimately have r: "relm_vmx_enable_on_all_cpus vrev online ord ord' s = Inr (Inl EIO, fold free_hcpu online (map_cpus disabled (set online) s1))"
    using en s1(1) by (simp add: relm_vmx_enable_on_all_cpus_def enable_cleanup_def relm_vmx_disable_on_all_cpus_def)
  have h2: "\<exists>h. lc_hcpu (vh_cpu (map_cpus disabled (set online) s1) i) = Some h \<and> vmxon_region h = Some (vmxon_pa (the (lc_hcpu (vh_cpu s1 i))))"
    if "i \<in> set online" for i
    using hc [OF that] that by (auto simp: disabled_def)
  let ?s' = "fold free_hcpu online (map_cpus disabled (set online) s1)"
  have fr: "vh_cpu ?s' = (\<lambda>i. if i \<in> set online then (vh_cpu (map_cpus disabled (set online) s1) i)\<lparr>lc_hcpu := None\<rparr>
      else vh_cpu (map_cpus disabled (set online) s1) i)"
    by (rule free_hcpus(2) [OF assms(1) h2])
  have "\<not> bit (x AND NOT 0x2000 :: u64) 13" for x by (simp add: bit_and_iff bit_not_iff bit_consts)
  with r show ?thesis by (intro exI [of _ ?s']) (simp add: fr disabled_def)
qed

section \<open>A small machine\<close>

definition demo_lcpu :: "u64 option \<Rightarrow> lcpu" where
  "demo_lcpu v = \<lparr>lc_cr4 = 0x20E0, lc_feature_control = 5, lc_vmx = v, lc_current = False, lc_hcpu = None\<rparr>"

definition demo_vmx_host :: "u64 list \<Rightarrow> u64 option \<Rightarrow> vmx_host" where
  "demo_vmx_host fs v = \<lparr>vh_cpu = (\<lambda>_. demo_lcpu v), vh_host = \<lparr>pool = fs, kmem = [True, True], pmem = (\<lambda>_. 0)\<rparr>\<rparr>"

lemma demo_vmx_idle: "fs \<in> {[0x1000], [0x1000, 0x2000]} \<Longrightarrow> vmx_idle [0, 1] (demo_vmx_host fs None)"
  by (auto simp: vmx_idle_def demo_vmx_host_def demo_lcpu_def host_ok_def frame_ok_def PAGE_ALIGNED_def bit_consts)

theorem vmx_enabled_everywhere_witness:
  "\<exists>s'. relm_vmx_enable_on_all_cpus 0x12 [0, 1] [1, 0] [0, 1] (demo_vmx_host [0x1000, 0x2000] None) = Inr (Inr (), s') \<and>
     (\<exists>f. lc_vmx (vh_cpu s' 1) = Some f)"
  using vmx_enabled_everywhere [OF demo_vmx_idle, of "[0x1000, 0x2000]" "[1, 0]" "[]" "0x12" "[0, 1]"]
  by (auto simp: demo_vmx_host_def)

theorem vmx_round_trip_witness:
  "\<exists>s' s''. relm_vmx_enable_on_all_cpus 0x12 [0, 1] [1, 0] [0, 1] (demo_vmx_host [0x1000, 0x2000] None) = Inr (Inr (), s') \<and>
     relm_arch_exit [0, 1] [0, 1] s' = Inr s'' \<and> set (pool (vh_host s'')) = {0x1000, 0x2000}"
proof -
  let ?s = "demo_vmx_host [0x1000, 0x2000] None"
  have i: "vmx_idle [0, 1] ?s" by (rule demo_vmx_idle) simp
  have o: "distinct [1, 0 :: nat]" "set [1, 0 :: nat] = set [0, 1]" "kmem (vh_host ?s) = replicate (length [0, 1 :: nat]) True @ []"
    "length [0, 1 :: nat] \<le> length (pool (vh_host ?s))" by (auto simp: demo_vmx_host_def)
  obtain s1 where e: "relm_vmx_enable_on_all_cpus 0x12 [0, 1] [1, 0] [0, 1] ?s = Inr (Inr (), map_cpus enabled (set [0, 1]) s1)"
    by (rule enable_all_eq [OF i o, of "0x12" "[0, 1]"])
  have "distinct [0, 1 :: nat]" by simp
  from vmx_round_trip [OF i o e this refl] e show ?thesis by (auto simp: demo_vmx_host_def)
qed

theorem failed_enable_faults_witness:
  "relm_vmx_enable_on_all_cpus 0x12 [0, 1] [1, 0] [0, 1] (demo_vmx_host [0x1000] None) = Inl UD"
  using failed_enable_faults [OF demo_vmx_idle, of "[0x1000]" "[0, 1]" "[]" "0x12" "[1, 0]"] by (simp add: demo_vmx_host_def)

theorem failed_enable_evicts_hypervisor_witness:
  "\<exists>s'. relm_vmx_enable_on_all_cpus 0x12 [0, 1] [1, 0] [0, 1] (demo_vmx_host [0x1000, 0x2000] (Some 0x9000)) = Inr (Inl EIO, s') \<and>
     lc_vmx (vh_cpu s' 0) = None"
  using failed_enable_evicts_hypervisor [of "[0, 1]" "demo_vmx_host [0x1000, 0x2000] (Some 0x9000)" "[1, 0]" "[0, 1]" "[]" "0x12"]
  by (auto simp: demo_vmx_host_def demo_lcpu_def host_ok_def frame_ok_def PAGE_ALIGNED_def bit_consts)

end
