(* ===== verification/Relm_Cr3_Cache.thy ===== *)
theory Relm_Cr3_Cache
  imports Relm_Vmexit Relm_Vmx_Setup
begin

text \<open>
  The CR3 target cache of a vCPU (src/arch/x86/vmx/vmx.c, \<open>relm_cr3_cache_*\<close>; include/arch/x86/vmx/vmx.h): a table of the
  address-space roots the guest has loaded, with a hit count and a time stamp each, from which the four most frequent are
  promoted to the CR3-target fields of the VMCS, whose loads no longer exit. The theorems: the selection is the top of the
  table by count and then by age, the promoted entries are the targets of the VMCS after every run, a recorded root is in the
  table, and a root of zero recorded into a full table makes a later selection read past the table.
\<close>

section \<open>Data\<close>

abbreviation (input) RELM_CR3_MAX_TARGETS :: nat where "RELM_CR3_MAX_TARGETS \<equiv> 4"
abbreviation (input) RELM_CR3_CACHE_SIZE :: nat where "RELM_CR3_CACHE_SIZE \<equiv> 16"
abbreviation (input) RELM_CR3_PROMOTE_THRESHOLD :: u64 where "RELM_CR3_PROMOTE_THRESHOLD \<equiv> 10"
abbreviation (input) U64_MAX :: u64 where "U64_MAX \<equiv> 0xFFFFFFFFFFFFFFFF"

definition CR3_TARGET_VALUES :: "nat list" where
  "CR3_TARGET_VALUES = [ENC_CR3_TARGET_VALUE0, ENC_CR3_TARGET_VALUE1, ENC_CR3_TARGET_VALUE2, ENC_CR3_TARGET_VALUE3]"

record cr3_target_entry =
  cr3_value :: u64
  hit_count :: u64
  last_seen_ns :: u64
  promoted :: bool

record cr3_shadow_cache =
  candidates :: "cr3_target_entry list"
  candidate_count :: u64
  promoted_count :: u32
  total_cr3_exits :: u64
  total_suppressions :: u64

definition relm_cr3_cache_init :: cr3_shadow_cache where
  "relm_cr3_cache_init =
     \<lparr>candidates = replicate RELM_CR3_CACHE_SIZE \<lparr>cr3_value = 0, hit_count = 0, last_seen_ns = 0, promoted = False\<rparr>,
      candidate_count = 0, promoted_count = 0, total_cr3_exits = 0, total_suppressions = 0\<rparr>"

section \<open>Selection\<close>

text \<open>One pass over the candidates: the index of the best one not picked yet, or the size of the table.\<close>

definition policy_try :: "cr3_target_entry list \<Rightarrow> bool list \<Rightarrow> nat \<Rightarrow> nat \<times> u64 \<times> u64 \<Rightarrow> nat \<times> u64 \<times> u64" where
  "policy_try cs picked i best =
     (case best of (best_idx, best_count, best_ts) \<Rightarrow>
      if picked ! i then best
      else if cr3_value (cs ! i) = 0 then best
      else if hit_count (cs ! i) = 0 then best
      else if hit_count (cs ! i) > best_count \<or> hit_count (cs ! i) = best_count \<and> last_seen_ns (cs ! i) > best_ts
      then (i, hit_count (cs ! i), last_seen_ns (cs ! i)) else best)"

definition policy_best :: "cr3_target_entry list \<Rightarrow> nat \<Rightarrow> bool list \<Rightarrow> nat" where
  "policy_best cs n picked = fst (fold (policy_try cs picked) [0..<n] (RELM_CR3_CACHE_SIZE, 0, 0))"

fun policy_passes :: "nat \<Rightarrow> cr3_target_entry list \<Rightarrow> nat \<Rightarrow> bool list \<Rightarrow> u64 list \<Rightarrow> u64 list" where
  "policy_passes 0 cs n picked selected = selected"
| "policy_passes (Suc k) cs n picked selected =
     (let best_idx = policy_best cs n picked in
      if best_idx = RELM_CR3_CACHE_SIZE then selected
      else policy_passes k cs n (picked[best_idx := True]) (selected @ [cr3_value (cs ! best_idx)]))"

text \<open>With more candidates than the table has entries the loops read past the arrays: no result.\<close>

definition relm_cr3_cache_policy_frequency :: "cr3_target_entry list \<Rightarrow> nat \<Rightarrow> u64 list option" where
  "relm_cr3_cache_policy_frequency cs n_candidates =
     (if n_candidates > RELM_CR3_CACHE_SIZE then None
      else Some (policy_passes (min n_candidates RELM_CR3_MAX_TARGETS) cs n_candidates (replicate RELM_CR3_CACHE_SIZE False) []))"

section \<open>Promotion\<close>

definition targets_changed :: "cr3_shadow_cache \<Rightarrow> u64 list \<Rightarrow> bool" where
  "targets_changed cache new_targets =
     (if word_of_nat (length new_targets) \<noteq> promoted_count cache then True
      else \<exists>t\<in>set new_targets. \<not> (\<exists>e\<in>set (candidates cache). promoted e \<and> cr3_value e = t))"

definition relm_cr3_cache_apply :: "cr3_shadow_cache \<times> vcpu \<Rightarrow> (cr3_shadow_cache \<times> vcpu) option" where
  "relm_cr3_cache_apply s =
     (case s of (cache, vc) \<Rightarrow>
      case relm_cr3_cache_policy_frequency (candidates cache) (unat (ucast (candidate_count cache) :: u32)) of
        None \<Rightarrow> None
      | Some new_targets \<Rightarrow>
        if \<not> targets_changed cache new_targets then Some (cache, vc) else
        let new_count = length new_targets;
            cache = cache\<lparr>candidates := map (\<lambda>e. if promoted e then e\<lparr>promoted := False\<rparr> else e) (candidates cache)\<rparr>
        in case check_vmwrites (zip CR3_TARGET_VALUES new_targets) vc of
          (Inl _, vc) \<Rightarrow> Some (cache\<lparr>promoted_count := 0\<rparr>, snd (vmwrite ENC_CR3_TARGET_COUNT 0 vc))
        | (Inr _, vc) \<Rightarrow>
         (case vmwrite ENC_CR3_TARGET_COUNT (word_of_nat new_count) vc of
            (False, vc) \<Rightarrow> Some (cache\<lparr>promoted_count := 0\<rparr>, snd (vmwrite ENC_CR3_TARGET_COUNT 0 vc))
          | (True, vc) \<Rightarrow>
            Some (cache\<lparr>candidates := map (\<lambda>e. if cr3_value e \<noteq> 0 \<and> cr3_value e \<in> set new_targets then e\<lparr>promoted := True\<rparr> else e) (candidates cache),
                        promoted_count := word_of_nat new_count\<rparr>, vc)))"

section \<open>Recording\<close>

text \<open>The search loop: the index of the entry of \<open>v\<close>, the first empty one and the least used that is not promoted; the size of the
  table stands for none.\<close>

fun record_scan :: "u64 \<Rightarrow> nat \<Rightarrow> cr3_target_entry list \<Rightarrow> nat \<Rightarrow> nat \<Rightarrow> u64 \<Rightarrow> nat \<times> nat \<times> nat" where
  "record_scan v i [] empty_idx evict_idx evict_count = (RELM_CR3_CACHE_SIZE, empty_idx, evict_idx)"
| "record_scan v i (e # es) empty_idx evict_idx evict_count =
     (if cr3_value e = v then (i, empty_idx, evict_idx)
      else let empty_idx = (if cr3_value e = 0 \<and> empty_idx = RELM_CR3_CACHE_SIZE then i else empty_idx) in
           if cr3_value e \<noteq> 0 \<and> \<not> promoted e \<and> hit_count e < evict_count
           then record_scan v (i + 1) es empty_idx i (hit_count e)
           else record_scan v (i + 1) es empty_idx evict_idx evict_count)"

definition new_entry :: "u64 \<Rightarrow> u64 \<Rightarrow> cr3_target_entry" where
  "new_entry now_ns v = \<lparr>cr3_value = v, hit_count = 1, last_seen_ns = now_ns, promoted = False\<rparr>"

definition relm_cr3_cache_record :: "u64 \<Rightarrow> u64 \<Rightarrow> cr3_shadow_cache \<times> vcpu \<Rightarrow> (cr3_shadow_cache \<times> vcpu) option" where
  "relm_cr3_cache_record now_ns v s =
     (case s of (cache, vc) \<Rightarrow>
      let cache = cache\<lparr>total_cr3_exits := total_cr3_exits cache + 1\<rparr>; cs = candidates cache in
      case record_scan v 0 cs RELM_CR3_CACHE_SIZE RELM_CR3_CACHE_SIZE U64_MAX of (found_idx, empty_idx, evict_idx) \<Rightarrow>
        if found_idx < RELM_CR3_CACHE_SIZE
        then let e = (cs ! found_idx)\<lparr>hit_count := hit_count (cs ! found_idx) + 1, last_seen_ns := now_ns\<rparr>;
                 cache = cache\<lparr>candidates := cs[found_idx := e]\<rparr>
             in if hit_count e \<ge> RELM_CR3_PROMOTE_THRESHOLD \<and> \<not> promoted e then relm_cr3_cache_apply (cache, vc) else Some (cache, vc)
        else if empty_idx < RELM_CR3_CACHE_SIZE
        then Some (cache\<lparr>candidates := cs[empty_idx := new_entry now_ns v], candidate_count := candidate_count cache + 1\<rparr>, vc)
        else if evict_idx < RELM_CR3_CACHE_SIZE
        then Some (cache\<lparr>candidates := cs[evict_idx := new_entry now_ns v]\<rparr>, vc)
        else Some (cache, vc))"

definition relm_cr3_cache_handle_exit :: "u64 \<Rightarrow> u64 \<Rightarrow> cr3_shadow_cache \<times> vcpu \<Rightarrow> (int \<times> cr3_shadow_cache \<times> vcpu) option" where
  "relm_cr3_cache_handle_exit now_ns exit_qual s =
     (case s of (cache, vc) \<Rightarrow>
      let src_reg = cr_source exit_qual in
      if src_reg > 15 then Some (1, cache, advance (vmread vc ENC_GUEST_RIP) vc)
      else let new_cr3 = guest_reg_read (regs vc) (int src_reg);
               vc = snd (vmwrite ENC_GUEST_CR3 new_cr3 vc)
           in case relm_cr3_cache_record now_ns new_cr3 (cache, vc) of
                None \<Rightarrow> None
              | Some (cache, vc) \<Rightarrow> Some (1, cache, advance (vmread vc ENC_GUEST_RIP) vc))"

section \<open>What a selection is\<close>

text \<open>Less used, or as much and seen earlier.\<close>

definition weaker :: "cr3_target_entry \<Rightarrow> cr3_target_entry \<Rightarrow> bool" where
  "weaker d e \<longleftrightarrow> hit_count d < hit_count e \<or> hit_count d = hit_count e \<and> last_seen_ns d \<le> last_seen_ns e"

lemma weaker_trans: "weaker d e \<Longrightarrow> weaker e f \<Longrightarrow> weaker d f"
  by (auto simp: weaker_def)

lemma weaker_refl [simp]: "weaker e e" by (simp add: weaker_def)

definition electable :: "cr3_target_entry list \<Rightarrow> nat \<Rightarrow> nat set" where
  "electable cs n = {i. i < n \<and> cr3_value (cs ! i) \<noteq> 0 \<and> hit_count (cs ! i) \<noteq> 0}"

lemma electable_finite [simp]: "finite (electable cs n)"
  by (simp add: electable_def)

definition best_so_far :: "cr3_target_entry list \<Rightarrow> bool list \<Rightarrow> nat \<Rightarrow> nat \<times> u64 \<times> u64 \<Rightarrow> bool" where
  "best_so_far cs picked n x = (case x of (b, c, t) \<Rightarrow>
     (\<forall>i\<in>electable cs n. picked ! i) \<and> b = RELM_CR3_CACHE_SIZE \<and> c = 0 \<and> t = 0 \<or>
     b \<in> electable cs n \<and> \<not> picked ! b \<and> c = hit_count (cs ! b) \<and> t = last_seen_ns (cs ! b) \<and>
     (\<forall>i\<in>electable cs n. \<not> picked ! i \<longrightarrow> weaker (cs ! i) (cs ! b)))"

lemma electable_Suc:
  "electable cs (Suc n) = (if cr3_value (cs ! n) \<noteq> 0 \<and> hit_count (cs ! n) \<noteq> 0 then insert n (electable cs n) else electable cs n)"
  by (auto simp: electable_def less_Suc_eq)

lemma best_so_far_step:
  assumes "best_so_far cs picked n x"
  shows "best_so_far cs picked (Suc n) (policy_try cs picked n x)"
proof -
  obtain b c t where x: "x = (b, c, t)" by (cases x) auto
  show ?thesis
  proof (cases "picked ! n \<or> cr3_value (cs ! n) = 0 \<or> hit_count (cs ! n) = 0")
    case True
    then have "policy_try cs picked n x = x" by (auto simp: policy_try_def x)
    with True assms show ?thesis by (auto simp: best_so_far_def x electable_Suc)
  next
    case False
    then have E: "electable cs (Suc n) = insert n (electable cs n)" by (simp add: electable_Suc)
    consider (none) "\<forall>i\<in>electable cs n. picked ! i" "b = RELM_CR3_CACHE_SIZE" "c = 0" "t = 0"
      | (some) "b \<in> electable cs n" "\<not> picked ! b" "c = hit_count (cs ! b)" "t = last_seen_ns (cs ! b)"
          "\<forall>i\<in>electable cs n. \<not> picked ! i \<longrightarrow> weaker (cs ! i) (cs ! b)"
      using assms by (auto simp: best_so_far_def x)
    then show ?thesis
    proof cases
      case none
      then have "policy_try cs picked n x = (n, hit_count (cs ! n), last_seen_ns (cs ! n))"
        using False word_neq_0_conv [of "hit_count (cs ! n)"] by (simp add: policy_try_def x)
      with none False show ?thesis by (simp add: best_so_far_def E)
    next
      case some
      show ?thesis
      proof (cases "weaker (cs ! n) (cs ! b)")
        case True
        then have "policy_try cs picked n x = x" by (auto simp: policy_try_def x weaker_def some)
        with some True show ?thesis by (simp add: best_so_far_def x E)
      next
        case stronger: False
        then have w: "weaker (cs ! b) (cs ! n)" by (auto simp: weaker_def)
        have "policy_try cs picked n x = (n, hit_count (cs ! n), last_seen_ns (cs ! n))"
          using False stronger by (auto simp: policy_try_def x weaker_def some)
        with some(5) False weaker_trans [OF _ w] show ?thesis by (simp add: best_so_far_def E)
      qed
    qed
  qed
qed

lemma policy_fold: "best_so_far cs picked n (fold (policy_try cs picked) [0..<n] (RELM_CR3_CACHE_SIZE, 0, 0))"
  by (induction n) (simp_all add: best_so_far_step, simp add: best_so_far_def electable_def)

lemma policy_best_none:
  "n \<le> RELM_CR3_CACHE_SIZE \<Longrightarrow> policy_best cs n picked = RELM_CR3_CACHE_SIZE \<longleftrightarrow> (\<forall>i\<in>electable cs n. picked ! i)"
  using policy_fold [of cs picked n] by (force simp: policy_best_def best_so_far_def electable_def split: prod.splits)

lemma policy_best_some:
  "n \<le> RELM_CR3_CACHE_SIZE \<Longrightarrow> policy_best cs n picked \<noteq> RELM_CR3_CACHE_SIZE \<Longrightarrow>
     policy_best cs n picked \<in> electable cs n \<and> \<not> picked ! policy_best cs n picked \<and>
     (\<forall>i\<in>electable cs n. \<not> picked ! i \<longrightarrow> weaker (cs ! i) (cs ! policy_best cs n picked))"
  using policy_fold [of cs picked n] by (auto simp: policy_best_def best_so_far_def split: prod.splits)

text \<open>The indices picked by some passes: distinct, strongest first, and stronger than what is left.\<close>

definition top_picks :: "cr3_target_entry list \<Rightarrow> nat set \<Rightarrow> nat \<Rightarrow> nat list \<Rightarrow> bool" where
  "top_picks cs E k js \<longleftrightarrow> distinct js \<and> set js \<subseteq> E \<and> length js = min k (card E) \<and>
     sorted_wrt (\<lambda>i j. weaker (cs ! j) (cs ! i)) js \<and> (\<forall>j\<in>set js. \<forall>i\<in>E - set js. weaker (cs ! i) (cs ! j))"

lemma policy_passes_top:
  assumes "n \<le> RELM_CR3_CACHE_SIZE" "length picked = RELM_CR3_CACHE_SIZE"
  shows "\<exists>js. policy_passes k cs n picked sel = sel @ map (\<lambda>j. cr3_value (cs ! j)) js \<and>
    top_picks cs {i \<in> electable cs n. \<not> picked ! i} k js"
  using assms(2)
proof (induction k arbitrary: picked sel)
  case 0
  show ?case by (intro exI [of _ "[]"]) (simp add: top_picks_def)
next
  case (Suc k)
  let ?b = "policy_best cs n picked" and ?E = "{i \<in> electable cs n. \<not> picked ! i}"
  show ?case
  proof (cases "?b = RELM_CR3_CACHE_SIZE")
    case True
    then have e: "?E = {}" using policy_best_none [OF assms(1)] by simp
    have "top_picks cs {} (Suc k) []" by (simp add: top_picks_def)
    then have "top_picks cs ?E (Suc k) []" by (simp only: e)
    with True show ?thesis by (intro exI [of _ "[]"]) simp
  next
    case False
    note b = policy_best_some [OF assms(1) False]
    have bl: "?b < RELM_CR3_CACHE_SIZE" using b assms(1) by (auto simp: electable_def)
    have E: "{i \<in> electable cs n. \<not> picked[?b := True] ! i} = ?E - {?b}"
      using bl Suc.prems by (auto simp: nth_list_update)
    obtain js where js: "policy_passes k cs n (picked[?b := True]) (sel @ [cr3_value (cs ! ?b)]) =
        (sel @ [cr3_value (cs ! ?b)]) @ map (\<lambda>j. cr3_value (cs ! j)) js" "top_picks cs (?E - {?b}) k js"
      using Suc.IH [of "picked[?b := True]" "sel @ [cr3_value (cs ! ?b)]"] Suc.prems unfolding E by auto
    have bE: "?b \<in> ?E" using b by simp
    have "top_picks cs ?E (Suc k) (?b # js)"
      unfolding top_picks_def
    proof (intro conjI ballI)
      show "distinct (?b # js)" "set (?b # js) \<subseteq> ?E" using js(2) bE by (auto simp: top_picks_def)
      show "length (?b # js) = min (Suc k) (card ?E)"
        using js(2) bE card_Suc_Diff1 [of ?E ?b] by (simp add: top_picks_def)
      show "sorted_wrt (\<lambda>i j. weaker (cs ! j) (cs ! i)) (?b # js)" using js(2) b by (auto simp: top_picks_def)
      fix j i assume "j \<in> set (?b # js)" "i \<in> ?E - set (?b # js)"
      then show "weaker (cs ! i) (cs ! j)" using js(2) b by (auto simp: top_picks_def)
    qed
    with js(1) False show ?thesis by (intro exI [of _ "?b # js"]) (simp add: Let_def)
  qed
qed

lemma policy_top:
  assumes "n \<le> RELM_CR3_CACHE_SIZE"
  obtains js where "relm_cr3_cache_policy_frequency cs n = Some (map (\<lambda>j. cr3_value (cs ! j)) js)"
    "top_picks cs (electable cs n) RELM_CR3_MAX_TARGETS js"
proof -
  have E: "{i \<in> electable cs n. \<not> replicate RELM_CR3_CACHE_SIZE False ! i} = electable cs n"
    using assms by (auto simp: electable_def)
  obtain js where js: "policy_passes (min n 4) cs n (replicate RELM_CR3_CACHE_SIZE False) [] = [] @ map (\<lambda>j. cr3_value (cs ! j)) js"
      "top_picks cs (electable cs n) (min n 4) js"
    using policy_passes_top [OF assms, of "replicate RELM_CR3_CACHE_SIZE False" "min n 4" cs "[]"] unfolding E by auto
  have "card (electable cs n) \<le> card {..<n}" by (rule card_mono) (auto simp: electable_def)
  then have "min (min n 4) (card (electable cs n)) = min 4 (card (electable cs n))" by simp
  with js assms show ?thesis
    by (intro that [of js]) (simp_all add: relm_cr3_cache_policy_frequency_def top_picks_def)
qed

text \<open>(C17) The selection is the top of the table: at most four distinct candidates, as many as there are used ones, ordered by hit
  count and then by the time they were last seen, and none left out is stronger than one taken.\<close>

theorem policy_selects_most_frequent:
  assumes "n \<le> 16"
  shows "\<exists>js. relm_cr3_cache_policy_frequency cs n = Some (map (\<lambda>j. cr3_value (cs ! j)) js) \<and> distinct js \<and>
    (\<forall>j\<in>set js. j < n \<and> cr3_value (cs ! j) \<noteq> 0 \<and> hit_count (cs ! j) \<noteq> 0) \<and>
    length js = min 4 (card {i. i < n \<and> cr3_value (cs ! i) \<noteq> 0 \<and> hit_count (cs ! i) \<noteq> 0}) \<and>
    sorted_wrt (\<lambda>i j. weaker (cs ! j) (cs ! i)) js \<and>
    (\<forall>j\<in>set js. \<forall>i<n. cr3_value (cs ! i) \<noteq> 0 \<and> hit_count (cs ! i) \<noteq> 0 \<and> i \<notin> set js \<longrightarrow> weaker (cs ! i) (cs ! j))"
proof (rule policy_top [OF assms, of cs], goal_cases)
  case (1 js)
  then show ?case
    unfolding top_picks_def electable_def by (intro exI [of _ js]) auto
qed

section \<open>The cache and the VMCS\<close>

definition promoted_values :: "cr3_target_entry list \<Rightarrow> u64 set" where
  "promoted_values cs = cr3_value ` {e \<in> set cs. promoted e}"

text \<open>The table: the used entries come first and have different roots; only they are promoted.\<close>

definition table_ok :: "cr3_shadow_cache \<Rightarrow> bool" where
  "table_ok c \<longleftrightarrow> length (candidates c) = RELM_CR3_CACHE_SIZE \<and> unat (candidate_count c) \<le> RELM_CR3_CACHE_SIZE \<and>
     (\<forall>i<RELM_CR3_CACHE_SIZE. cr3_value (candidates c ! i) = 0 \<longleftrightarrow> unat (candidate_count c) \<le> i) \<and>
     (\<forall>i<RELM_CR3_CACHE_SIZE. promoted (candidates c ! i) \<longrightarrow> cr3_value (candidates c ! i) \<noteq> 0) \<and>
     inj_on (\<lambda>i. cr3_value (candidates c ! i)) {..<unat (candidate_count c)}"

lemma table_okD:
  assumes "table_ok c"
  shows "length (candidates c) = RELM_CR3_CACHE_SIZE" "unat (candidate_count c) \<le> RELM_CR3_CACHE_SIZE"
    "i < RELM_CR3_CACHE_SIZE \<Longrightarrow> cr3_value (candidates c ! i) = 0 \<longleftrightarrow> unat (candidate_count c) \<le> i"
    "i < RELM_CR3_CACHE_SIZE \<Longrightarrow> promoted (candidates c ! i) \<Longrightarrow> i < unat (candidate_count c)"
    "inj_on (\<lambda>i. cr3_value (candidates c ! i)) {..<unat (candidate_count c)}"
  using assms unfolding table_ok_def by (auto simp: not_le)

text \<open>The CR3 targets the processor honours.\<close>

definition vmcs_targets :: "vcpu \<Rightarrow> u64 list" where
  "vmcs_targets vc = map (vmread vc) (take (unat (vmread vc ENC_CR3_TARGET_COUNT)) CR3_TARGET_VALUES)"

lemma vmread_fun: "vmread vc = vmcs vc"
  by (rule ext) (simp add: vmread_def)

definition cr3_ok :: "cr3_shadow_cache \<times> vcpu \<Rightarrow> bool" where
  "cr3_ok s = (case s of (c, vc) \<Rightarrow> table_ok c \<and> \<not> vmcs_rejects vc ENC_CR3_TARGET_COUNT \<and>
     vmread vc ENC_CR3_TARGET_COUNT = ucast (promoted_count c) \<and> unat (promoted_count c) \<le> RELM_CR3_MAX_TARGETS \<and>
     set (vmcs_targets vc) = promoted_values (candidates c) \<and> distinct (vmcs_targets vc))"

lemma check_vmwrites_result:
  "check_vmwrites ws vc = (r, vc') \<Longrightarrow> vmcs_rejects vc' = vmcs_rejects vc \<and> (\<forall>e. e \<notin> fst ` set ws \<longrightarrow> vmcs vc' e = vmcs vc e) \<and>
     (r = Inr () \<and> distinct (map fst ws) \<longrightarrow> map (vmcs vc') (map fst ws) = map snd ws)"
proof (induction ws arbitrary: vc)
  case (Cons w ws)
  obtain e v where w: "w = (e, v)" by (cases w)
  show ?case
  proof (cases "vmcs_rejects vc e")
    case False
    with Cons.prems w have c: "check_vmwrites ws (vc\<lparr>vmcs := (vmcs vc)(e := v)\<rparr>) = (r, vc')" by (simp add: vmwrite_def)
    from Cons.IH [OF c] w show ?thesis by auto
  qed (use Cons.prems w in \<open>auto simp: vmwrite_def\<close>)
qed simp

lemma CR3_TARGET_VALUES_facts:
  "distinct CR3_TARGET_VALUES" "length CR3_TARGET_VALUES = 4" "ENC_CR3_TARGET_COUNT \<notin> set CR3_TARGET_VALUES"
  by (simp_all add: CR3_TARGET_VALUES_def)

text \<open>Writing the selected roots and their number, as \<open>relm_cr3_cache_apply\<close> does.\<close>

lemma write_targets:
  assumes "check_vmwrites (zip CR3_TARGET_VALUES ts) vc = (r, vc')" "length ts \<le> 4"
  shows "vmcs_rejects vc' = vmcs_rejects vc"
    and "r = Inr () \<Longrightarrow> map (vmcs vc') (take (length ts) CR3_TARGET_VALUES) = ts"
proof -
  have z: "map fst (zip CR3_TARGET_VALUES ts) = take (length ts) CR3_TARGET_VALUES" "map snd (zip CR3_TARGET_VALUES ts) = ts"
    using assms(2) by (simp_all add: map_fst_zip_take map_snd_zip_take CR3_TARGET_VALUES_facts min_absorb2)
  note c = check_vmwrites_result [OF assms(1), unfolded z]
  show "vmcs_rejects vc' = vmcs_rejects vc" using c by simp
  show "map (vmcs vc') (take (length ts) CR3_TARGET_VALUES) = ts" if "r = Inr ()"
    using c that distinct_take [OF CR3_TARGET_VALUES_facts(1)] by simp
qed

lemma small_count: "k \<le> 4 \<Longrightarrow> unat (word_of_nat k :: u64) = k" "k \<le> 4 \<Longrightarrow> unat (word_of_nat k :: u32) = k"
  "k \<le> 4 \<Longrightarrow> ucast (word_of_nat k :: u32) = (word_of_nat k :: u64)"
proof -
  assume k: "k \<le> 4"
  show "unat (word_of_nat k :: u64) = k" "unat (word_of_nat k :: u32) = k" using k by (simp_all add: unat_of_nat take_bit_nat_eq_self)
  then show "ucast (word_of_nat k :: u32) = (word_of_nat k :: u64)" 
    using k by (simp add: word_unat_eq_iff unsigned_ucast_eq unat_of_nat take_bit_nat_eq_self)
qed

text \<open>The state after new targets are in force.\<close>

lemma vmcs_targets_written:
  assumes "map (vmcs vc) (take (length ts) CR3_TARGET_VALUES) = ts" "length ts \<le> 4"
  shows "vmcs_targets (vc\<lparr>vmcs := (vmcs vc)(ENC_CR3_TARGET_COUNT := word_of_nat (length ts))\<rparr>) = ts"
proof -
  have "ENC_CR3_TARGET_COUNT \<notin> set (take (length ts) CR3_TARGET_VALUES)" using CR3_TARGET_VALUES_facts(3) by (meson in_set_takeD)
  from map_fun_upd [OF this] assms(1)
  have "map ((vmcs vc)(ENC_CR3_TARGET_COUNT := word_of_nat (length ts))) (take (length ts) CR3_TARGET_VALUES) = ts" by (rule trans)
  then show ?thesis using assms(2) by (simp add: vmcs_targets_def vmread_fun small_count(1))
qed

lemma no_targets:
  "vmcs_targets (vc\<lparr>vmcs := (vmcs vc)(ENC_CR3_TARGET_COUNT := 0)\<rparr>) = []"
  by (simp add: vmcs_targets_def vmread_fun)

lemma demoted:
  "map (\<lambda>e. if promoted e then e\<lparr>promoted := False\<rparr> else e) cs = map (\<lambda>e. e\<lparr>promoted := False\<rparr>) cs"
  by (rule map_cong) (auto simp: cr3_target_entry.equality)

lemma promoted_values_demoted [simp]: "promoted_values (map (\<lambda>e. e\<lparr>promoted := False\<rparr>) cs) = {}"
  by (auto simp: promoted_values_def)

lemma promoted_values_marked:
  "promoted_values (map (\<lambda>e. if P (cr3_value e) then e\<lparr>promoted := True\<rparr> else e) (map (\<lambda>e. e\<lparr>promoted := False\<rparr>) cs)) =
     {v \<in> cr3_value ` set cs. P v}"
proof (induction cs)
  case (Cons e cs)
  have "promoted_values (d # ds) = (if promoted d then insert (cr3_value d) (promoted_values ds) else promoted_values ds)" for d ds
    by (auto simp: promoted_values_def)
  with Cons show ?case by auto
qed (simp add: promoted_values_def)

lemma table_ok_flags:
  assumes "table_ok c" "\<And>e. cr3_value (f e) = cr3_value e" "\<And>e. e \<in> set (candidates c) \<Longrightarrow> promoted (f e) \<Longrightarrow> cr3_value e \<noteq> 0"
  shows "table_ok (c\<lparr>candidates := map f (candidates c), promoted_count := n\<rparr>)"
proof -
  have "inj_on (\<lambda>i. cr3_value (map f (candidates c) ! i)) {..<unat (candidate_count c)} =
      inj_on (\<lambda>i. cr3_value (candidates c ! i)) {..<unat (candidate_count c)}"
    using assms(1,2) by (intro inj_on_cong) (simp add: table_ok_def)
  with assms show ?thesis by (auto simp: table_ok_def)
qed

lemma selected_facts:
  assumes ok: "table_ok c" and js: "top_picks (candidates c) (electable (candidates c) (unat (candidate_count c))) 4 js"
  shows "distinct (map (\<lambda>j. cr3_value (candidates c ! j)) js)" "length js \<le> 4"
    "set (map (\<lambda>j. cr3_value (candidates c ! j)) js) \<subseteq> cr3_value ` set (candidates c) - {0}"
proof -
  have s: "set js \<subseteq> {..<unat (candidate_count c)}" using js by (auto simp: top_picks_def electable_def)
  moreover have "inj_on (\<lambda>i. cr3_value (candidates c ! i)) {..<unat (candidate_count c)}" using ok by (simp add: table_ok_def)
  ultimately show "distinct (map (\<lambda>j. cr3_value (candidates c ! j)) js)"
    using js by (simp add: distinct_map top_picks_def inj_on_subset)
  show "length js \<le> 4" using js by (simp add: top_picks_def)
  show "set (map (\<lambda>j. cr3_value (candidates c ! j)) js) \<subseteq> cr3_value ` set (candidates c) - {0}"
    using js ok by (fastforce simp: top_picks_def electable_def table_ok_def)
qed

lemma count_u32: "table_ok c \<Longrightarrow> unat (ucast (candidate_count c) :: u32) = unat (candidate_count c)"
  by (simp add: table_ok_def unsigned_ucast_eq take_bit_nat_eq_self)

text \<open>A promotion keeps the invariant. When no VMWRITE fails the targets are the selected roots.\<close>

lemma apply_ok:
  assumes ok: "cr3_ok (c, vc)"
  obtains c' vc' where "relm_cr3_cache_apply (c, vc) = Some (c', vc')" "cr3_ok (c', vc')" "vmcs_rejects vc' = vmcs_rejects vc"
    "map cr3_value (candidates c') = map cr3_value (candidates c)" "map hit_count (candidates c') = map hit_count (candidates c)"
    "candidate_count c' = candidate_count c"
    "(\<forall>e\<in>set CR3_TARGET_VALUES. \<not> vmcs_rejects vc e) \<Longrightarrow>
       relm_cr3_cache_policy_frequency (candidates c) (unat (candidate_count c)) = Some ts \<Longrightarrow> set (vmcs_targets vc') = set ts"
proof -
  have tb: "table_ok c" and wr: "\<not> vmcs_rejects vc ENC_CR3_TARGET_COUNT" using ok by (simp_all add: cr3_ok_def)
  obtain js where js: "relm_cr3_cache_policy_frequency (candidates c) (unat (candidate_count c)) = Some (map (\<lambda>j. cr3_value (candidates c ! j)) js)"
      "top_picks (candidates c) (electable (candidates c) (unat (candidate_count c))) 4 js"
    by (rule policy_top [of "unat (candidate_count c)" "candidates c"]) (use tb in \<open>auto simp: table_ok_def\<close>)
  define new where "new = map (\<lambda>j. cr3_value (candidates c ! j)) js"
  note sf = selected_facts [OF tb js(2), folded new_def]
  have ln: "length new \<le> 4" using sf(2) by (simp add: new_def)
  show ?thesis
  proof (cases "targets_changed c new")
    case False
    then have pc: "promoted_count c = word_of_nat (length new)" and sub: "set new \<subseteq> promoted_values (candidates c)"
      by (auto simp: targets_changed_def promoted_values_def split: if_splits)
    have "card (promoted_values (candidates c)) = length (vmcs_targets vc)"
      using ok by (simp add: cr3_ok_def) (metis distinct_card)
    moreover have "length (vmcs_targets vc) = length new"
      using ok pc ln by (simp add: cr3_ok_def vmcs_targets_def small_count CR3_TARGET_VALUES_facts)
    ultimately have "card (promoted_values (candidates c)) = card (set new)" using sf(1) by (simp add: distinct_card)
    then have "set new = promoted_values (candidates c)"
      using sub by (intro card_seteq) (auto simp: promoted_values_def)
    with False js(1) ok show ?thesis
      by (intro that [of c vc]) (auto simp: relm_cr3_cache_apply_def count_u32 [OF tb] new_def cr3_ok_def)
  next
    case ch: True
    define d where "d = c\<lparr>candidates := map (\<lambda>e. e\<lparr>promoted := False\<rparr>) (candidates c), promoted_count := 0\<rparr>"
    have td: "table_ok d" unfolding d_def by (rule table_ok_flags [OF tb]) simp_all
    obtain r vc1 where cw: "check_vmwrites (zip CR3_TARGET_VALUES new) vc = (r, vc1)" by (cases "check_vmwrites (zip CR3_TARGET_VALUES new) vc")
    note wt = write_targets [OF cw ln]
    have w1: "\<not> vmcs_rejects vc1 ENC_CR3_TARGET_COUNT" using wr wt(1) by simp
    show ?thesis
    proof (cases r)
      case (Inl e)
      have "\<not> accepted (zip CR3_TARGET_VALUES new) vc"
        using cw Inl check_vmwrites_ok [of "zip CR3_TARGET_VALUES new" vc] by auto
      then have rj: "\<exists>e\<in>set CR3_TARGET_VALUES. vmcs_rejects vc e"
        by (auto simp: accepted_def dest: set_zip_leftD)
      have e: "relm_cr3_cache_apply (c, vc) = Some (d, vc1\<lparr>vmcs := (vmcs vc1)(ENC_CR3_TARGET_COUNT := 0)\<rparr>)"
        using js(1) ch cw Inl w1 by (simp add: relm_cr3_cache_apply_def count_u32 [OF tb] new_def [symmetric] demoted d_def vmwrite_def)
      show ?thesis
        using td w1 rj wt(1) by (intro that [OF e]) (auto simp: cr3_ok_def no_targets vmread_fun d_def)
    next
      case (Inr u)
      let ?f = "\<lambda>e. if cr3_value e \<noteq> 0 \<and> cr3_value e \<in> set new then e\<lparr>promoted := True\<rparr> else e"
      let ?c = "d\<lparr>candidates := map ?f (candidates d), promoted_count := word_of_nat (length new)\<rparr>"
        and ?v = "vc1\<lparr>vmcs := (vmcs vc1)(ENC_CR3_TARGET_COUNT := word_of_nat (length new))\<rparr>"
      have e: "relm_cr3_cache_apply (c, vc) = Some (?c, ?v)"
        using js(1) ch cw Inr w1 by (simp add: Let_def relm_cr3_cache_apply_def count_u32 [OF tb] new_def [symmetric] demoted d_def vmwrite_def)
      have tg: "vmcs_targets ?v = new" by (rule vmcs_targets_written [OF wt(2) ln]) (use Inr in simp)
      have "table_ok ?c"
      proof (rule table_ok_flags [OF td])
        fix e assume "e \<in> set (candidates d)" "promoted (?f e)"
        then show "cr3_value e \<noteq> 0" by (auto simp: d_def split: if_splits)
      qed simp
      moreover have "promoted_values (candidates ?c) = set new"
      proof -
        have "{v \<in> cr3_value ` set (candidates c). v \<noteq> 0 \<and> v \<in> set new} = set new" using sf(3) by blast
        moreover have "candidates ?c = map ?f (map (\<lambda>e. e\<lparr>promoted := False\<rparr>) (candidates c))" by (simp add: d_def)
        ultimately show ?thesis using promoted_values_marked [of "\<lambda>v. v \<noteq> 0 \<and> v \<in> set new" "candidates c"] by (simp only:)
      qed
      moreover have "vmread ?v ENC_CR3_TARGET_COUNT = ucast (promoted_count ?c)" using ln by (simp add: vmread_fun small_count)
      ultimately have "cr3_ok (?c, ?v)" using w1 tg ln sf(1) by (simp add: cr3_ok_def small_count)
      then show ?thesis
        using e tg js(1) wt(1) by (intro that [OF e]) (auto simp: new_def [symmetric] d_def)
    qed
  qed
qed

section \<open>Recording a root\<close>

text \<open>What the search loop returns, for a table whose prefix of length \<open>i\<close> it has passed.\<close>

definition empty_ok :: "cr3_target_entry list \<Rightarrow> nat \<Rightarrow> nat \<Rightarrow> bool" where
  "empty_ok cs i em \<longleftrightarrow> em = RELM_CR3_CACHE_SIZE \<and> (\<forall>k<i. cr3_value (cs ! k) \<noteq> 0) \<or>
     em < i \<and> cr3_value (cs ! em) = 0 \<and> (\<forall>k<em. cr3_value (cs ! k) \<noteq> 0)"

definition victims :: "cr3_target_entry list \<Rightarrow> nat \<Rightarrow> nat set" where
  "victims cs i = {k. k < i \<and> cr3_value (cs ! k) \<noteq> 0 \<and> \<not> promoted (cs ! k)}"

definition evict_ok :: "cr3_target_entry list \<Rightarrow> nat \<Rightarrow> nat \<Rightarrow> u64 \<Rightarrow> bool" where
  "evict_ok cs i ev ec \<longleftrightarrow> ev = RELM_CR3_CACHE_SIZE \<and> ec = U64_MAX \<and> (\<forall>k\<in>victims cs i. hit_count (cs ! k) = U64_MAX) \<or>
     ev \<in> victims cs i \<and> ec = hit_count (cs ! ev) \<and> (\<forall>k\<in>victims cs i. hit_count (cs ! ev) \<le> hit_count (cs ! k))"

definition scan_ok :: "u64 \<Rightarrow> cr3_target_entry list \<Rightarrow> nat \<Rightarrow> nat \<Rightarrow> nat \<Rightarrow> u64 \<Rightarrow> bool" where
  "scan_ok v cs i em ev ec \<longleftrightarrow> (\<forall>k<i. cr3_value (cs ! k) \<noteq> v) \<and> empty_ok cs i em \<and> evict_ok cs i ev ec"

lemma empty_step:
  "empty_ok cs i em \<Longrightarrow> i < RELM_CR3_CACHE_SIZE \<Longrightarrow> empty_ok cs (Suc i) (if cr3_value (cs ! i) = 0 \<and> em = RELM_CR3_CACHE_SIZE then i else em)"
  by (auto simp: empty_ok_def less_Suc_eq)

lemma victims_Suc: "victims cs (Suc i) = (if cr3_value (cs ! i) \<noteq> 0 \<and> \<not> promoted (cs ! i) then insert i (victims cs i) else victims cs i)"
  by (auto simp: victims_def less_Suc_eq)

lemma u64_top: "\<not> x < U64_MAX \<longleftrightarrow> x = (U64_MAX :: u64)"
proof -
  have "(-1 :: u64) = U64_MAX" by simp
  from word_order.extremum [of x, unfolded this] show ?thesis by auto
qed

lemma evict_step:
  assumes "evict_ok cs i ev ec"
  shows "if cr3_value (cs ! i) \<noteq> 0 \<and> \<not> promoted (cs ! i) \<and> hit_count (cs ! i) < ec
    then evict_ok cs (Suc i) i (hit_count (cs ! i)) else evict_ok cs (Suc i) ev ec"
proof (cases "cr3_value (cs ! i) \<noteq> 0 \<and> \<not> promoted (cs ! i)")
  case True
  then have V: "victims cs (Suc i) = insert i (victims cs i)" by (simp add: victims_Suc)
  consider (none) "ev = RELM_CR3_CACHE_SIZE" "ec = U64_MAX" "\<forall>k\<in>victims cs i. hit_count (cs ! k) = U64_MAX"
    | (some) "ev \<in> victims cs i" "ec = hit_count (cs ! ev)" "\<forall>k\<in>victims cs i. hit_count (cs ! ev) \<le> hit_count (cs ! k)"
    using assms by (auto simp: evict_ok_def)
  then show ?thesis
  proof cases
    case none
    with True u64_top [of "hit_count (cs ! i)"] show ?thesis by (auto simp: evict_ok_def V less_imp_le)
  next
    case some
    with True show ?thesis by (fastforce simp: evict_ok_def V)
  qed
qed (use assms in \<open>auto simp: evict_ok_def victims_Suc\<close>)

lemma scan_spec:
  assumes "record_scan v i es em ev ec = (found, em', ev')" "scan_ok v cs i em ev ec" "es = drop i cs" "length cs = RELM_CR3_CACHE_SIZE" "i \<le> RELM_CR3_CACHE_SIZE"
  shows "found < RELM_CR3_CACHE_SIZE \<and> cr3_value (cs ! found) = v \<or> found = RELM_CR3_CACHE_SIZE \<and> (\<exists>ec'. scan_ok v cs RELM_CR3_CACHE_SIZE em' ev' ec')"
  using assms
proof (induction v i es em ev ec rule: record_scan.induct)
  case (1 v i em ev ec)
  then have "i = RELM_CR3_CACHE_SIZE" by simp
  with 1 show ?case by auto
next
  case (2 v i e es em ev ec)
  have "i < length cs" using arg_cong [OF 2(5), of length] by simp
  with Cons_nth_drop_Suc [of i cs] 2(6) have i: "i < RELM_CR3_CACHE_SIZE" "cs ! i # drop (Suc i) cs = drop i cs" by simp_all
  have i: "i < RELM_CR3_CACHE_SIZE" "cs ! i = e" "es = drop (Suc i) cs" using i 2(5) [symmetric] by auto
  show ?case
  proof (cases "cr3_value e = v")
    case True
    with 2(3) i show ?thesis by simp
  next
    case False
    have nv: "\<forall>k<Suc i. cr3_value (cs ! k) \<noteq> v" using 2(4) False i(2) by (auto simp: scan_ok_def less_Suc_eq)
    have em: "empty_ok cs (Suc i) (if cr3_value e = 0 \<and> em = RELM_CR3_CACHE_SIZE then i else em)"
      using empty_step [OF _ i(1), of cs em] 2(4) i(2) by (simp add: scan_ok_def)
    note ev = evict_step [of cs i ev ec, unfolded i(2)]
    show ?thesis
    proof (cases "cr3_value e \<noteq> 0 \<and> \<not> promoted e \<and> hit_count e < ec")
      case True
      then have "scan_ok v cs (Suc i) (if cr3_value e = 0 \<and> em = RELM_CR3_CACHE_SIZE then i else em) i (hit_count e)"
        using nv em ev 2(4) by (simp add: scan_ok_def)
      with 2(1) [OF False refl True] 2(3,6) False True i show ?thesis by (simp add: Let_def)
    next
      case no: False
      then have "scan_ok v cs (Suc i) (if cr3_value e = 0 \<and> em = RELM_CR3_CACHE_SIZE then i else em) ev ec"
        using nv em ev 2(4) by (simp only: scan_ok_def if_False simp_thms)
      moreover have "record_scan v (i + 1) es (if cr3_value e = 0 \<and> em = RELM_CR3_CACHE_SIZE then i else em) ev ec = (found, em', ev')"
        using 2(3) False no by (simp only: record_scan.simps Let_def if_False)
      ultimately show ?thesis using 2(2) [OF False refl no] 2(6) i by simp
    qed
  qed
qed

lemma scan_start: "scan_ok v cs 0 RELM_CR3_CACHE_SIZE RELM_CR3_CACHE_SIZE U64_MAX"
  by (simp add: scan_ok_def empty_ok_def evict_ok_def victims_def)

text \<open>At most four entries are promoted, so a full table has others.\<close>

lemma promoted_few:
  assumes "cr3_ok (c, vc)"
  shows "card {i. i < RELM_CR3_CACHE_SIZE \<and> promoted (candidates c ! i)} \<le> 4"
proof -
  let ?P = "{i. i < RELM_CR3_CACHE_SIZE \<and> promoted (candidates c ! i)}" and ?n = "unat (candidate_count c)"
  have tb: "table_ok c" using assms by (simp add: cr3_ok_def)
  have "?P \<subseteq> {..<?n}" using table_okD(4) [OF tb] by auto
  then have "inj_on (\<lambda>i. cr3_value (candidates c ! i)) ?P" using table_okD(5) [OF tb] by (rule inj_on_subset [rotated])
  moreover have "(\<lambda>i. cr3_value (candidates c ! i)) ` ?P \<subseteq> promoted_values (candidates c)"
    using table_okD(1) [OF tb] by (auto simp: promoted_values_def)
  then have "(\<lambda>i. cr3_value (candidates c ! i)) ` ?P \<subseteq> set (vmcs_targets vc)" using assms by (simp add: cr3_ok_def)
  ultimately have "card ?P \<le> card (set (vmcs_targets vc))" by (rule card_inj_on_le [OF _ _ List.finite_set])
  also have "\<dots> \<le> length (vmcs_targets vc)" by (rule card_length)
  also have "\<dots> \<le> 4" by (simp add: vmcs_targets_def CR3_TARGET_VALUES_facts)
  finally show ?thesis .
qed

lemma victim_exists:
  assumes ok: "cr3_ok (c, vc)" and full: "unat (candidate_count c) = RELM_CR3_CACHE_SIZE"
  obtains k where "k \<in> victims (candidates c) RELM_CR3_CACHE_SIZE"
proof -
  have "\<not> {..<RELM_CR3_CACHE_SIZE} \<subseteq> {i. i < RELM_CR3_CACHE_SIZE \<and> promoted (candidates c ! i)}"
  proof
    assume "{..<RELM_CR3_CACHE_SIZE} \<subseteq> {i. i < RELM_CR3_CACHE_SIZE \<and> promoted (candidates c ! i)}"
    then have "card {..<RELM_CR3_CACHE_SIZE} \<le> card {i. i < RELM_CR3_CACHE_SIZE \<and> promoted (candidates c ! i)}" by (intro card_mono) simp_all
    with promoted_few [OF ok] show False by simp
  qed
  then obtain k where "k < RELM_CR3_CACHE_SIZE" "\<not> promoted (candidates c ! k)" by auto
  moreover have "table_ok c" using ok by (simp add: cr3_ok_def)
  ultimately show ?thesis using full table_okD(3) [of c k] by (intro that [of k]) (simp add: victims_def)
qed

lemma new_entry_simps [simp]: "cr3_value (new_entry now v) = v" "\<not> promoted (new_entry now v)"
  by (simp_all add: new_entry_def)

text \<open>Replacing an entry that is not promoted by one for a root that is not in the table.\<close>

lemma put_new_ok:
  assumes ok: "cr3_ok (c, vc)" and v: "v \<noteq> 0" "\<forall>k<RELM_CR3_CACHE_SIZE. cr3_value (candidates c ! k) \<noteq> v"
    and i: "i < RELM_CR3_CACHE_SIZE" "\<not> promoted (candidates c ! i)"
    and n: "n = candidate_count c \<and> i < unat n \<or> n = candidate_count c + 1 \<and> i = unat (candidate_count c)"
  shows "cr3_ok (c\<lparr>total_cr3_exits := t, candidates := (candidates c)[i := new_entry now v], candidate_count := n\<rparr>, vc)"
proof -
  let ?cs = "(candidates c)[i := new_entry now v]"
  have tb: "table_ok c" using ok by (simp add: cr3_ok_def)
  note T = table_okD [OF tb]
  have un: "n \<noteq> candidate_count c \<Longrightarrow> unat n = Suc (unat (candidate_count c))"
    using n i T(2) by (auto simp: unat_word_ariths)
  have un1: "i < unat n" "unat n \<le> RELM_CR3_CACHE_SIZE" "k \<noteq> i \<Longrightarrow> unat n \<le> k \<longleftrightarrow> unat (candidate_count c) \<le> k" for k
    using n i un T(2) by (cases "n = candidate_count c"; auto)+
  have at: "?cs ! k = (if k = i then new_entry now v else candidates c ! k)" if "k < RELM_CR3_CACHE_SIZE" for k
    using that T(1) i by (simp add: nth_list_update)
  have "inj_on (\<lambda>k. cr3_value (?cs ! k)) {..<unat n}"
  proof (rule inj_onI)
    fix k j assume kj: "k \<in> {..<unat n}" "j \<in> {..<unat n}" "cr3_value (?cs ! k) = cr3_value (?cs ! j)"
    then have b: "k < RELM_CR3_CACHE_SIZE" "j < RELM_CR3_CACHE_SIZE" using un1(2) by auto
    consider "k = i" | "j = i" | "k \<noteq> i" "j \<noteq> i" by blast
    then show "k = j"
    proof cases
      case 3
      then have "k < unat (candidate_count c)" "j < unat (candidate_count c)" using kj(1,2) un1(3) [of k] un1(3) [of j] by auto
      moreover have "cr3_value (candidates c ! k) = cr3_value (candidates c ! j)" using 3 b kj(3) by (simp add: at)
      ultimately show ?thesis using inj_onD [OF T(5), of k j] by simp
    qed (use kj(3) b v(2) in \<open>auto simp: at split: if_splits\<close>)
  qed
  moreover have "cr3_value (?cs ! k) = 0 \<longleftrightarrow> unat n \<le> k" if "k < RELM_CR3_CACHE_SIZE" for k
    using un1(1) un1(3) [of k] v(1) T(3) [OF that] by (simp add: at [OF that])
  moreover have "promoted (?cs ! k) \<longrightarrow> cr3_value (?cs ! k) \<noteq> 0" if "k < RELM_CR3_CACHE_SIZE" for k
    using T(3,4) [OF that] by (auto simp: at [OF that])
  ultimately have "table_ok (c\<lparr>total_cr3_exits := t, candidates := ?cs, candidate_count := n\<rparr>)"
    using T(1) un1(2) unfolding table_ok_def by simp
  moreover have "{e \<in> set ?cs. promoted e} = {e \<in> set (candidates c). promoted e}"
  proof -
    have "e \<in> set ?cs \<longleftrightarrow> e \<in> set (candidates c)" if "promoted e" for e
    proof
      assume "e \<in> set ?cs"
      then show "e \<in> set (candidates c)" using that set_update_subset_insert [of "candidates c" i "new_entry now v"] by auto
    next
      assume "e \<in> set (candidates c)"
      then obtain k where k: "k < RELM_CR3_CACHE_SIZE" "e = candidates c ! k" using T(1) by (auto simp: in_set_conv_nth)
      then have "?cs ! k = e" using i(2) that by (auto simp: at)
      then show "e \<in> set ?cs" using k(1) T(1) by (metis length_list_update nth_mem)
    qed
    then show ?thesis by auto
  qed
  ultimately show ?thesis using ok by (simp add: cr3_ok_def promoted_values_def)
qed

lemma hit_ok:
  assumes ok: "cr3_ok (c, vc)" and i: "i < RELM_CR3_CACHE_SIZE"
  shows "cr3_ok (c\<lparr>total_cr3_exits := t, candidates := (candidates c)[i := (candidates c ! i)\<lparr>hit_count := h, last_seen_ns := now\<rparr>]\<rparr>, vc)"
proof -
  let ?cs = "(candidates c)[i := (candidates c ! i)\<lparr>hit_count := h, last_seen_ns := now\<rparr>]"
  have tb: "table_ok c" using ok by (simp add: cr3_ok_def)
  note T = table_okD [OF tb]
  have at: "cr3_value (?cs ! k) = cr3_value (candidates c ! k)" "promoted (?cs ! k) = promoted (candidates c ! k)"
    if "k < RELM_CR3_CACHE_SIZE" for k
    using that T(1) i by (simp_all add: nth_list_update)
  have "inj_on (\<lambda>k. cr3_value (?cs ! k)) {..<unat (candidate_count c)}"
    using T(5) by (rule inj_on_cong [THEN iffD1, rotated]) (use at(1) T(2) in auto)
  moreover have "promoted (?cs ! k) \<Longrightarrow> cr3_value (?cs ! k) \<noteq> 0" "cr3_value (?cs ! k) = 0 \<longleftrightarrow> unat (candidate_count c) \<le> k"
    if "k < RELM_CR3_CACHE_SIZE" for k using T(3,4) [OF that] at [OF that] by auto
  ultimately have "table_ok (c\<lparr>total_cr3_exits := t, candidates := ?cs\<rparr>)"
    using T(1,2) unfolding table_ok_def by simp
  moreover have "promoted_values ?cs = promoted_values (candidates c)"
  proof -
    have pv: "promoted_values xs = (\<lambda>k. cr3_value (xs ! k)) ` {k. k < length xs \<and> promoted (xs ! k)}" for xs
      by (auto simp: promoted_values_def in_set_conv_nth)
    show ?thesis unfolding pv using at T(1) by (intro image_cong) auto
  qed
  ultimately show ?thesis using ok by (simp add: cr3_ok_def)
qed

text \<open>Recording a root: the invariant is kept, and the root is in the table afterwards unless every entry it could replace has
  a saturated hit count.\<close>

lemma record_ok:
  assumes ok: "cr3_ok (c, vc)" and v: "v \<noteq> 0"
  obtains c' vc' where "relm_cr3_cache_record now v (c, vc) = Some (c', vc')" "cr3_ok (c', vc')"
    "\<forall>e\<in>set (candidates c). hit_count e \<noteq> U64_MAX \<Longrightarrow> v \<in> cr3_value ` set (candidates c')"
proof -
  let ?c = "c\<lparr>total_cr3_exits := total_cr3_exits c + 1\<rparr>" and ?cs = "candidates c"
  have tb: "table_ok c" using ok by (simp add: cr3_ok_def)
  note T = table_okD [OF tb]
  obtain found em ev where sc: "record_scan v 0 ?cs RELM_CR3_CACHE_SIZE RELM_CR3_CACHE_SIZE U64_MAX = (found, em, ev)"
    by (cases "record_scan v 0 ?cs RELM_CR3_CACHE_SIZE RELM_CR3_CACHE_SIZE U64_MAX") auto
  consider (found) "found < RELM_CR3_CACHE_SIZE" "cr3_value (?cs ! found) = v"
    | (new) ec where "found = RELM_CR3_CACHE_SIZE" "scan_ok v ?cs RELM_CR3_CACHE_SIZE em ev ec"
    using scan_spec [OF sc scan_start] T(1) by auto
  then show ?thesis
  proof cases
    case found
    let ?e = "(?cs ! found)\<lparr>hit_count := hit_count (?cs ! found) + 1, last_seen_ns := now\<rparr>"
    let ?d = "c\<lparr>total_cr3_exits := total_cr3_exits c + 1, candidates := ?cs[found := ?e]\<rparr>"
    note h = hit_ok [OF ok found(1), where h = "hit_count (?cs ! found) + 1" and now = now and t = "total_cr3_exits c + 1"]
    have vd: "v \<in> cr3_value ` set (candidates ?d)"
      using found T(1) by (auto intro!: image_eqI [of _ _ ?e] set_update_memI)
    show ?thesis
    proof (cases "hit_count ?e \<ge> RELM_CR3_PROMOTE_THRESHOLD \<and> \<not> promoted ?e")
      case True
      then have r: "relm_cr3_cache_record now v (c, vc) = relm_cr3_cache_apply (?d, vc)"
        using found sc by (simp add: relm_cr3_cache_record_def Let_def)
      show ?thesis
      proof (rule apply_ok [OF h, where ts = "[]"], goal_cases)
        case (1 c' vc')
        have "cr3_value ` set (candidates c') = cr3_value ` set (candidates ?d)" using arg_cong [OF 1(4), of set] by simp
        with 1 r vd show ?case by (intro that [of c' vc']) auto
      qed
    next
      case False
      then have "relm_cr3_cache_record now v (c, vc) = Some (?d, vc)"
        using found sc by (auto simp: relm_cr3_cache_record_def Let_def)
      with h vd show ?thesis by (intro that [of ?d vc])
    qed
  next
    case new
    have nv: "\<forall>k<RELM_CR3_CACHE_SIZE. cr3_value (?cs ! k) \<noteq> v" using new(2) by (simp add: scan_ok_def)
    have ins: "v \<in> cr3_value ` set (?cs[i := new_entry now v])" if "i < RELM_CR3_CACHE_SIZE" for i
      using that T(1) by (auto intro!: image_eqI [of _ _ "new_entry now v"] set_update_memI)
    show ?thesis
    proof (cases "em < RELM_CR3_CACHE_SIZE")
      case True
      then have em: "cr3_value (?cs ! em) = 0" "\<forall>k<em. cr3_value (?cs ! k) \<noteq> 0" using new(2) by (auto simp: scan_ok_def empty_ok_def)
      have "em = unat (candidate_count c)"
        using em T(3) [OF True] T(3) [of "unat (candidate_count c)"] True by (metis le_less_linear le_antisym le_less_trans order_refl)
      then have "cr3_ok (c\<lparr>total_cr3_exits := total_cr3_exits c + 1, candidates := ?cs[em := new_entry now v], candidate_count := candidate_count c + 1\<rparr>, vc)"
        using put_new_ok [OF ok v nv True] T(4) [OF True] by auto
      with True new(1) sc ins [OF True] show ?thesis
        by (intro that [of "c\<lparr>total_cr3_exits := total_cr3_exits c + 1, candidates := ?cs[em := new_entry now v], candidate_count := candidate_count c + 1\<rparr>" vc])
          (auto simp: relm_cr3_cache_record_def)
    next
      case full: False
      show ?thesis
      proof (cases "ev < RELM_CR3_CACHE_SIZE")
        case True
        then have "ev \<in> victims ?cs RELM_CR3_CACHE_SIZE" using new(2) by (auto simp: scan_ok_def evict_ok_def)
        then have "\<not> promoted (?cs ! ev)" "ev < unat (candidate_count c)" using T(3) [OF True] by (auto simp: victims_def)
        then have "cr3_ok (c\<lparr>total_cr3_exits := total_cr3_exits c + 1, candidates := ?cs[ev := new_entry now v], candidate_count := candidate_count c\<rparr>, vc)"
          using put_new_ok [OF ok v nv True] by auto
        moreover have "c\<lparr>total_cr3_exits := t, candidates := x, candidate_count := candidate_count c\<rparr> = c\<lparr>total_cr3_exits := t, candidates := x\<rparr>" for t x
          by simp
        ultimately have "cr3_ok (c\<lparr>total_cr3_exits := total_cr3_exits c + 1, candidates := ?cs[ev := new_entry now v]\<rparr>, vc)" by simp
        with True full new(1) sc ins [OF True] show ?thesis
          by (intro that [of "c\<lparr>total_cr3_exits := total_cr3_exits c + 1, candidates := ?cs[ev := new_entry now v]\<rparr>" vc])
            (auto simp: relm_cr3_cache_record_def)
      next
        case none: False
        have "\<forall>k<RELM_CR3_CACHE_SIZE. cr3_value (?cs ! k) \<noteq> 0" using new(2) full by (auto simp: scan_ok_def empty_ok_def)
        then have "unat (candidate_count c) = RELM_CR3_CACHE_SIZE" using T(2) T(3) [of "unat (candidate_count c)"] by (metis le_neq_implies_less order_refl)
        then obtain k where k: "k \<in> victims ?cs RELM_CR3_CACHE_SIZE" by (rule victim_exists [OF ok])
        then have "hit_count (?cs ! k) = U64_MAX" using new(2) none by (auto simp: scan_ok_def evict_ok_def victims_def)
        moreover have "?cs ! k \<in> set ?cs" using k T(1) by (simp add: victims_def)
        moreover have "table_ok ?c \<longleftrightarrow> table_ok c" unfolding table_ok_def by simp
        then have "cr3_ok (?c, vc)" using ok by (simp add: cr3_ok_def)
        ultimately show ?thesis
          using none full new(1) sc by (intro that [of ?c vc]) (auto simp: relm_cr3_cache_record_def)
      qed
    qed
  qed
qed

section \<open>Runs\<close>

text \<open>The loads of a guest, as times and roots.\<close>

fun cr3_loads :: "(u64 \<times> u64) list \<Rightarrow> cr3_shadow_cache \<times> vcpu \<Rightarrow> (cr3_shadow_cache \<times> vcpu) option" where
  "cr3_loads [] s = Some s"
| "cr3_loads ((now, v) # ls) s = (case relm_cr3_cache_record now v s of None \<Rightarrow> None | Some s \<Rightarrow> cr3_loads ls s)"

lemma cr3_loads_ok:
  "cr3_ok s \<Longrightarrow> \<forall>(now, v)\<in>set ls. v \<noteq> 0 \<Longrightarrow> \<exists>s'. cr3_loads ls s = Some s' \<and> cr3_ok s'"
proof (induction ls arbitrary: s)
  case (Cons l ls)
  obtain now v where l: "l = (now, v)" by (cases l)
  obtain c vc where s: "s = (c, vc)" by (cases s)
  obtain c' vc' where r: "relm_cr3_cache_record now v s = Some (c', vc')" "cr3_ok (c', vc')"
    by (rule record_ok [of c vc v now]) (use Cons.prems in \<open>auto simp: l s\<close>)
  from Cons.IH [OF r(2)] Cons.prems(2) r(1) show ?case by (simp add: l)
qed simp

lemma init_ok:
  assumes "vmread vc ENC_CR3_TARGET_COUNT = 0" "\<not> vmcs_rejects vc ENC_CR3_TARGET_COUNT"
  shows "cr3_ok (relm_cr3_cache_init, vc)"
proof -
  have "vmcs_targets vc = []" using assms(1) by (simp add: vmcs_targets_def)
  moreover have "promoted_values (candidates relm_cr3_cache_init) = {}" by (auto simp: relm_cr3_cache_init_def promoted_values_def)
  moreover have "table_ok relm_cr3_cache_init" unfolding table_ok_def by (simp add: relm_cr3_cache_init_def)
  ultimately show ?thesis using assms by (simp add: cr3_ok_def relm_cr3_cache_init_def)
qed

text \<open>(C16) After any loads of roots other than zero, whatever VMWRITEs of target values fail: the code has stayed inside its
  table, the CR3 targets the processor honours are exactly the promoted entries, at most four, each once, and they are roots of the table.\<close>

theorem cr3_targets_mirror:
  assumes "vmread vc 0x400A = 0" and "\<not> vmcs_rejects vc 0x400A" and "\<forall>(now, v)\<in>set ls. v \<noteq> 0"
  shows "\<exists>c vc'. cr3_loads ls (relm_cr3_cache_init, vc) = Some (c, vc') \<and> set (vmcs_targets vc') = promoted_values (candidates c) \<and>
    distinct (vmcs_targets vc') \<and> length (vmcs_targets vc') = unat (promoted_count c) \<and> unat (promoted_count c) \<le> 4 \<and>
    set (vmcs_targets vc') \<subseteq> cr3_value ` set (candidates c) - {0}"
proof -
  obtain c vc' where s: "cr3_loads ls (relm_cr3_cache_init, vc) = Some (c, vc')" "cr3_ok (c, vc')"
    using cr3_loads_ok [OF init_ok [OF assms(1,2)] assms(3)] by auto
  have tb: "table_ok c" using s(2) by (simp add: cr3_ok_def)
  have "promoted_values (candidates c) \<subseteq> cr3_value ` set (candidates c) - {0}"
  proof
    fix w assume "w \<in> promoted_values (candidates c)"
    then obtain k where k: "k < RELM_CR3_CACHE_SIZE" "promoted (candidates c ! k)" "w = cr3_value (candidates c ! k)"
      using table_okD(1) [OF tb] by (auto simp: promoted_values_def in_set_conv_nth)
    then have "w \<noteq> 0" using table_okD(3,4) [OF tb k(1)] by auto
    with k table_okD(1) [OF tb] show "w \<in> cr3_value ` set (candidates c) - {0}" by simp
  qed
  moreover have "length (vmcs_targets vc') = unat (promoted_count c)"
    using s(2) by (simp add: cr3_ok_def vmcs_targets_def CR3_TARGET_VALUES_facts unsigned_ucast_eq take_bit_nat_eq_self)
  ultimately show ?thesis using s by (intro exI [of _ c] exI [of _ vc']) (simp add: cr3_ok_def)
qed

text \<open>A promotion that can write the VMCS makes the four most frequent roots its targets.\<close>

theorem promotion_installs_selection:
  assumes "cr3_ok (c, vc)" and "\<forall>e\<in>set CR3_TARGET_VALUES. \<not> vmcs_rejects vc e"
  shows "\<exists>c' vc' ts. relm_cr3_cache_apply (c, vc) = Some (c', vc') \<and>
    relm_cr3_cache_policy_frequency (candidates c) (unat (candidate_count c)) = Some ts \<and> set (vmcs_targets vc') = set ts"
proof -
  have "unat (candidate_count c) \<le> 16" using assms(1) by (simp add: cr3_ok_def table_ok_def)
  then obtain ts where ts: "relm_cr3_cache_policy_frequency (candidates c) (unat (candidate_count c)) = Some ts" by (rule policy_top)
  show ?thesis by (rule apply_ok [OF assms(1), of ts]) (use ts assms(2) in auto)
qed

text \<open>The table never turns a root away: while no hit count has saturated, a recorded root other than zero is in the table
  afterwards, and what it replaced was not a target.\<close>

theorem recorded_root_kept:
  assumes "cr3_ok (c, vc)" and "v \<noteq> 0" and "\<forall>e\<in>set (candidates c). hit_count e \<noteq> 0xFFFFFFFFFFFFFFFF"
  shows "\<exists>c' vc'. relm_cr3_cache_record now v (c, vc) = Some (c', vc') \<and> v \<in> cr3_value ` set (candidates c') \<and>
    set (vmcs_targets vc') \<subseteq> cr3_value ` set (candidates c')"
proof (rule record_ok [OF assms(1,2), of now], goal_cases)
  case (1 c' vc')
  moreover have "set (vmcs_targets vc') \<subseteq> cr3_value ` set (candidates c')" using 1(2) by (auto simp: cr3_ok_def promoted_values_def)
  ultimately show ?case using assms(3) by blast
qed

text \<open>(C38) Zero is a root a guest may load, and it is also the mark of an empty entry: loaded when the table is full it
  empties an entry that stays counted, the next new root is counted again, and the next promotion reads past the table.\<close>

theorem zero_root_overruns_table:
  assumes "cr3_ok (c, vc)" and "candidate_count c = 16" and "\<forall>e\<in>set (candidates c). hit_count e \<noteq> 0xFFFFFFFFFFFFFFFF"
    and "v \<notin> cr3_value ` set (candidates c)" and "v \<noteq> 0"
  shows "\<exists>c1 c2. relm_cr3_cache_record t1 0 (c, vc) = Some (c1, vc) \<and> relm_cr3_cache_record t2 v (c1, vc) = Some (c2, vc) \<and>
    candidate_count c2 = 17 \<and> relm_cr3_cache_apply (c2, vc) = None"
proof -
  let ?cs = "candidates c"
  have tb: "table_ok c" using assms(1) by (simp add: cr3_ok_def)
  note T = table_okD [OF tb]
  have nz: "cr3_value (?cs ! k) \<noteq> 0" if "k < RELM_CR3_CACHE_SIZE" for k using T(3) [OF that] that assms(2) by simp
  obtain f em ev where sc: "record_scan 0 0 ?cs RELM_CR3_CACHE_SIZE RELM_CR3_CACHE_SIZE U64_MAX = (f, em, ev)"
    by (cases "record_scan 0 0 ?cs RELM_CR3_CACHE_SIZE RELM_CR3_CACHE_SIZE U64_MAX") auto
  obtain ec where so: "f = RELM_CR3_CACHE_SIZE" "scan_ok 0 ?cs RELM_CR3_CACHE_SIZE em ev ec"
    using scan_spec [OF sc scan_start] T(1) nz by auto
  have em: "em = RELM_CR3_CACHE_SIZE" using so(2) nz by (auto simp: scan_ok_def empty_ok_def)
  obtain k where k: "k \<in> victims ?cs RELM_CR3_CACHE_SIZE" by (rule victim_exists [OF assms(1)]) (use assms(2) in auto)
  have "hit_count (?cs ! k) \<noteq> U64_MAX" using assms(3) k T(1) by (simp add: victims_def)
  then have ev: "ev < RELM_CR3_CACHE_SIZE" using so(2) k by (auto simp: scan_ok_def evict_ok_def victims_def)
  define c1 where "c1 = c\<lparr>total_cr3_exits := total_cr3_exits c + 1, candidates := ?cs[ev := new_entry t1 0]\<rparr>"
  have r1: "relm_cr3_cache_record t1 0 (c, vc) = Some (c1, vc)"
    using sc so(1) em ev by (simp add: relm_cr3_cache_record_def c1_def)
  let ?ds = "candidates c1"
  have l: "length ?ds = RELM_CR3_CACHE_SIZE" using T(1) by (simp add: c1_def)
  have at: "cr3_value (?ds ! k) = (if k = ev then 0 else cr3_value (?cs ! k))" if "k < RELM_CR3_CACHE_SIZE" for k
    using that T(1) ev by (simp add: c1_def nth_list_update)
  have nv: "cr3_value (?ds ! k) \<noteq> v" if "k < RELM_CR3_CACHE_SIZE" for k
    using at [OF that] assms(4,5) that T(1) by auto
  obtain f2 em2 ev2 where sc2: "record_scan v 0 ?ds RELM_CR3_CACHE_SIZE RELM_CR3_CACHE_SIZE U64_MAX = (f2, em2, ev2)"
    by (cases "record_scan v 0 ?ds RELM_CR3_CACHE_SIZE RELM_CR3_CACHE_SIZE U64_MAX") auto
  obtain ec2 where so2: "f2 = RELM_CR3_CACHE_SIZE" "scan_ok v ?ds RELM_CR3_CACHE_SIZE em2 ev2 ec2"
    using scan_spec [OF sc2 scan_start] l nv by auto
  have em2: "em2 < RELM_CR3_CACHE_SIZE" using so2(2) at [OF ev] ev by (auto simp: scan_ok_def empty_ok_def)
  define c2 where "c2 = c1\<lparr>total_cr3_exits := total_cr3_exits c1 + 1, candidates := ?ds[em2 := new_entry t2 v], candidate_count := candidate_count c1 + 1\<rparr>"
  have "relm_cr3_cache_record t2 v (c1, vc) = Some (c2, vc)"
    using sc2 so2(1) em2 by (simp add: relm_cr3_cache_record_def c2_def)
  moreover have n: "candidate_count c2 = 17" by (simp add: c2_def c1_def assms(2))
  moreover have "relm_cr3_cache_apply (c2, vc) = None" by (simp add: relm_cr3_cache_apply_def relm_cr3_cache_policy_frequency_def n)
  ultimately show ?thesis using r1 by blast
qed

section \<open>A full table\<close>

definition demo_roots :: "cr3_target_entry list" where
  "demo_roots = map (\<lambda>i. new_entry (word_of_nat i) (word_of_nat (i + 1))) [0..<16]"

definition demo_full :: cr3_shadow_cache where
  "demo_full = \<lparr>candidates = demo_roots, candidate_count = 16, promoted_count = 0, total_cr3_exits = 16, total_suppressions = 0\<rparr>"

lemma demo_roots_nth: "i < 16 \<Longrightarrow> demo_roots ! i = new_entry (word_of_nat i) (word_of_nat (i + 1))"
  unfolding demo_roots_def by (subst nth_map) simp_all

lemma demo_root_value: "i < 16 \<Longrightarrow> unat (cr3_value (demo_roots ! i)) = i + 1"
  by (simp add: demo_roots_nth unat_word_of_nat_small del: of_nat_Suc of_nat_add)

lemma demo_roots_set: "e \<in> set demo_roots \<Longrightarrow> \<exists>i<16. e = new_entry (word_of_nat i) (word_of_nat (i + 1))"
  by (auto simp: demo_roots_def)

lemma demo_full_ok: "cr3_ok (demo_full, demo_vcpu)"
proof -
  have nz: "cr3_value (demo_roots ! i) \<noteq> 0" if "i < 16" for i using demo_root_value [OF that] by auto
  have "inj_on (\<lambda>i. cr3_value (demo_roots ! i)) {..<16}"
    by (rule inj_onI) (metis demo_root_value lessThan_iff add_right_cancel)
  then have "table_ok demo_full"
    using nz unfolding table_ok_def by (simp add: demo_full_def demo_roots_nth) (simp add: demo_roots_def)
  moreover have "promoted_values demo_roots = {}" using demo_roots_set by (fastforce simp: promoted_values_def)
  moreover have "vmcs_targets demo_vcpu = []" by (simp add: vmcs_targets_def vmread_def demo_vcpu_def)
  ultimately show ?thesis by (simp add: cr3_ok_def demo_full_def demo_vcpu_def vmread_def)
qed

lemma demo_unsaturated: "\<forall>e\<in>set (candidates demo_full). hit_count e \<noteq> 0xFFFFFFFFFFFFFFFF"
  by (auto simp: demo_full_def new_entry_def dest!: demo_roots_set)

lemma demo_fresh: "0x5000 \<notin> cr3_value ` set (candidates demo_full)"
proof
  assume "0x5000 \<in> cr3_value ` set (candidates demo_full)"
  then obtain i where i: "i < 16" "0x5000 = (word_of_nat (i + 1) :: u64)" by (auto simp: demo_full_def dest!: demo_roots_set)
  have "unat (word_of_nat (i + 1) :: u64) = i + 1" using i(1) by (intro unat_word_of_nat_small) simp
  then have "unat (0x5000 :: u64) = i + 1" by (simp only: i(2) [symmetric])
  with i(1) show False by simp
qed

definition demo_entry :: "u64 \<Rightarrow> u64 \<Rightarrow> cr3_target_entry" where
  "demo_entry v h = \<lparr>cr3_value = v, hit_count = h, last_seen_ns = 0, promoted = False\<rparr>"

theorem policy_selects_most_frequent_witness:
  "(3::nat) \<le> 16 \<and> relm_cr3_cache_policy_frequency [demo_entry 0x1000 3, demo_entry 0x2000 7, demo_entry 0x3000 0] 3 = Some [0x2000, 0x1000] \<and>
   (\<exists>js. relm_cr3_cache_policy_frequency [demo_entry 0x1000 3, demo_entry 0x2000 7, demo_entry 0x3000 0] 3 =
      Some (map (\<lambda>j. cr3_value ([demo_entry 0x1000 3, demo_entry 0x2000 7, demo_entry 0x3000 0] ! j)) js) \<and> distinct js)"
proof (intro conjI)
  show "relm_cr3_cache_policy_frequency [demo_entry 0x1000 3, demo_entry 0x2000 7, demo_entry 0x3000 0] 3 = Some [0x2000, 0x1000]" by code_simp
  show "\<exists>js. relm_cr3_cache_policy_frequency [demo_entry 0x1000 3, demo_entry 0x2000 7, demo_entry 0x3000 0] 3 =
      Some (map (\<lambda>j. cr3_value ([demo_entry 0x1000 3, demo_entry 0x2000 7, demo_entry 0x3000 0] ! j)) js) \<and> distinct js"
    using policy_selects_most_frequent [of 3 "[demo_entry 0x1000 3, demo_entry 0x2000 7, demo_entry 0x3000 0]"] by auto
qed simp

theorem cr3_targets_mirror_witness:
  "\<exists>c vc'. cr3_loads [(1, 0x1000), (2, 0x2000), (3, 0x1000)] (relm_cr3_cache_init, demo_vcpu) = Some (c, vc') \<and>
     set (vmcs_targets vc') = promoted_values (candidates c)"
proof -
  have "vmread demo_vcpu 0x400A = 0" "\<not> vmcs_rejects demo_vcpu 0x400A" by (simp_all add: vmread_def demo_vcpu_def)
  from cr3_targets_mirror [OF this, of "[(1, 0x1000), (2, 0x2000), (3, 0x1000)]"] show ?thesis by auto
qed

theorem promotion_installs_selection_witness:
  "\<exists>c' vc' ts. relm_cr3_cache_apply (demo_full, demo_vcpu) = Some (c', vc') \<and>
     relm_cr3_cache_policy_frequency (candidates demo_full) 16 = Some ts \<and> set (vmcs_targets vc') = set ts"
  using promotion_installs_selection [OF demo_full_ok] by (simp add: demo_vcpu_def demo_full_def)

theorem recorded_root_kept_witness:
  "\<exists>c' vc'. relm_cr3_cache_record 9 0x5000 (demo_full, demo_vcpu) = Some (c', vc') \<and> 0x5000 \<in> cr3_value ` set (candidates c')"
  using recorded_root_kept [OF demo_full_ok _ demo_unsaturated, of "0x5000" 9] by auto

theorem zero_root_overruns_table_witness:
  "\<exists>c1 c2. relm_cr3_cache_record 9 0 (demo_full, demo_vcpu) = Some (c1, demo_vcpu) \<and>
     relm_cr3_cache_record 10 0x5000 (c1, demo_vcpu) = Some (c2, demo_vcpu) \<and> candidate_count c2 = 17 \<and>
     relm_cr3_cache_apply (c2, demo_vcpu) = None"
  using zero_root_overruns_table [OF demo_full_ok _ demo_unsaturated demo_fresh, of 9 10] by (simp add: demo_full_def)

end
