(* ===== verification/Relm_Stage2.thy ===== *)
theory Relm_Stage2
  imports Relm_Guest_Mem
begin

text \<open>
  Stage-2 translation, the arm64 back end (src/arch/arm64/stage2.c, include/arch/arm64/stage2.h): the walk geometry with its VTCR
  and VTTBR encodings, the registration of the EL2 runtime, the table context, mapping of 4 KiB pages, 2 MiB blocks, ranges
  and guest RAM, the walk, lookup, unmapping, teardown and the abort handler. A tree starts at level 0 or at level 1. The
  callback of the EL2 runtime is a parameter. Unlike the x86 back ends, pages and blocks live in one tree here: the abstract
  state is a map of pages and a map of blocks, and every run of operations refines it.
\<close>

section \<open>Geometry\<close>

abbreviation (input) S2_TABLE_ADDR_MASK :: u64 where "S2_TABLE_ADDR_MASK \<equiv> 0x0000FFFFFFFFF000"
abbreviation (input) S2_PAGE_ADDR_MASK :: u64 where "S2_PAGE_ADDR_MASK \<equiv> 0x0000FFFFFFFFF000"
abbreviation (input) S2_DESC_TYPE_MASK :: u64 where "S2_DESC_TYPE_MASK \<equiv> 0x3"
abbreviation (input) S2_DESC_VALID :: u64 where "S2_DESC_VALID \<equiv> 0x1"
abbreviation (input) S2_DESC_BLOCK :: u64 where "S2_DESC_BLOCK \<equiv> 0x1"
abbreviation (input) S2_DESC_TABLE :: u64 where "S2_DESC_TABLE \<equiv> 0x3"
abbreviation (input) S2_DESC_PAGE :: u64 where "S2_DESC_PAGE \<equiv> 0x3"
abbreviation (input) S2_ACCESS_READ :: u64 where "S2_ACCESS_READ \<equiv> 0x40"
abbreviation (input) S2_AF :: u64 where "S2_AF \<equiv> 0x400"
abbreviation (input) S2_PAGE_SIZE_4KB :: u64 where "S2_PAGE_SIZE_4KB \<equiv> 0x1000"
abbreviation (input) S2_PAGE_SIZE_2MB :: u64 where "S2_PAGE_SIZE_2MB \<equiv> 0x200000"
abbreviation (input) S2_VTCR_WALK_FLAGS :: u64 where "S2_VTCR_WALK_FLAGS \<equiv> 0x80003500"

record relm_stage2_geometry =
  ipa_bits :: nat
  pa_bits :: nat
  start_level :: nat
  vmid_bits :: nat

definition s2_pa_encoding :: "nat \<Rightarrow> u64 res" where
  "s2_pa_encoding bits =
     (if bits = 32 then Inr 0 else if bits = 36 then Inr 1 else if bits = 40 then Inr 2 else if bits = 42 then Inr 3
      else if bits = 44 then Inr 4 else if bits = 48 then Inr 5 else Inl EINVAL)"

definition s2_geometry_valid :: "relm_stage2_geometry \<Rightarrow> bool" where
  "s2_geometry_valid g \<longleftrightarrow> 32 \<le> ipa_bits g \<and> ipa_bits g \<le> 48 \<and> \<not> failed (s2_pa_encoding (pa_bits g)) \<and>
     start_level g = (if ipa_bits g \<le> 39 then 1 else 0) \<and> (vmid_bits g = 8 \<or> vmid_bits g = 16)"

definition s2_range_fits :: "u64 \<Rightarrow> u64 \<Rightarrow> nat \<Rightarrow> bool" where
  "s2_range_fits address sz bits = (let limit = push_bit bits 1 in sz \<noteq> 0 \<and> address < limit \<and> sz \<le> limit - address)"

definition s2_page_aligned :: "u64 \<Rightarrow> bool" where
  "s2_page_aligned v \<longleftrightarrow> v AND (S2_PAGE_SIZE_4KB - 1) = 0"

definition s2_level_size :: "nat \<Rightarrow> u64" where
  "s2_level_size level = push_bit (12 + 9 * (3 - level)) 1"

definition s2_index :: "u64 \<Rightarrow> nat \<Rightarrow> u64" where
  "s2_index ipa level = drop_bit (12 + 9 * (3 - level)) ipa AND 0x1FF"

text \<open>Output pointers of the C functions are results; a null output pointer is refused with \<open>-EINVAL\<close> and no caller passes one.\<close>

definition relm_stage2_encode_vtcr :: "relm_stage2_geometry option \<Rightarrow> u64 res" where
  "relm_stage2_encode_vtcr geometry =
     (case geometry of None \<Rightarrow> Inl EINVAL
      | Some g \<Rightarrow>
        if \<not> s2_geometry_valid g then Inl EINVAL
        else case s2_pa_encoding (pa_bits g) of Inl e \<Rightarrow> Inl e
        | Inr ps \<Rightarrow>
          let v = S2_VTCR_WALK_FLAGS OR word_of_nat (64 - ipa_bits g);
              v = v OR (if start_level g \<noteq> 0 then 0x40 else 0x80);
              v = v OR push_bit 16 ps
          in Inr (if vmid_bits g = 16 then v OR 0x80000 else v))"

definition relm_stage2_encode_vttbr :: "relm_stage2_geometry \<Rightarrow> u64 \<Rightarrow> u16 \<Rightarrow> u64 res" where
  "relm_stage2_encode_vttbr g root_pa vmid =
     (if \<not> s2_geometry_valid g \<or> \<not> s2_page_aligned root_pa then Inl EINVAL
      else if \<not> s2_range_fits root_pa 0x1000 (pa_bits g) \<or> vmid_bits g = 8 \<and> vmid > 255 then Inl ERANGE
      else Inr (root_pa OR push_bit 48 (ucast vmid)))"

section \<open>The EL2 runtime\<close>

record relm_stage2_runtime_ops =
  host_pfr0_el1 :: u64
  host_mmfr0_el1 :: u64
  host_mmfr1_el1 :: u64
  invalidate :: "(u64 \<Rightarrow> u64 \<Rightarrow> unit res) option"

record stage2_runtime =
  s2_runtime :: relm_stage2_runtime_ops
  s2_limits :: relm_stage2_geometry
  s2_runtime_ready :: bool

definition pa_widths :: "nat list" where
  "pa_widths = [32, 36, 40, 42, 44, 48, 52, 56]"

text \<open>The page shift and the byte order of the host kernel are its configuration.\<close>

definition s2_decode_limits :: "nat \<Rightarrow> bool \<Rightarrow> relm_stage2_runtime_ops \<Rightarrow> relm_stage2_geometry res" where
  "s2_decode_limits page_shift big_endian ops =
     (let el2 = drop_bit 8 (host_pfr0_el1 ops) AND 0xF; granule = drop_bit 28 (host_mmfr0_el1 ops) AND 0xF;
          granule2 = drop_bit 40 (host_mmfr0_el1 ops) AND 0xF; pa = host_mmfr0_el1 ops AND 0xF;
          vmids = drop_bit 4 (host_mmfr1_el1 ops) AND 0xF in
      if page_shift \<noteq> 12 then Inl EOPNOTSUPP
      else if big_endian then Inl EOPNOTSUPP
      else if el2 \<noteq> 1 \<and> el2 \<noteq> 2 \<or> pa \<ge> 8 \<or> vmids \<noteq> 0 \<and> vmids \<noteq> 2 then Inl EOPNOTSUPP
      else if (if granule2 = 0 then granule \<noteq> 0 \<and> granule \<noteq> 1 else granule2 \<noteq> 2 \<and> granule2 \<noteq> 3) then Inl EOPNOTSUPP
      else let w = pa_widths ! unat pa; bits = (if w > 48 then 48 else w)
           in Inr \<lparr>ipa_bits = bits, pa_bits = bits, start_level = (if bits \<le> 39 then 1 else 0), vmid_bits = (if vmids = 2 then 16 else 8)\<rparr>)"

definition relm_stage2_register_runtime ::
    "nat \<Rightarrow> bool \<Rightarrow> relm_stage2_runtime_ops option \<Rightarrow> stage2_runtime \<Rightarrow> unit res \<times> stage2_runtime" where
  "relm_stage2_register_runtime page_shift big_endian ops g =
     (case ops of None \<Rightarrow> (Inl EINVAL, g)
      | Some ops \<Rightarrow>
        if invalidate ops = None then (Inl EINVAL, g)
        else case s2_decode_limits page_shift big_endian ops of
          Inl e \<Rightarrow> (Inl e, g)
        | Inr limits \<Rightarrow>
          if s2_runtime_ready g then (Inl EBUSY, g)
          else (Inr (), g\<lparr>s2_runtime := ops, s2_limits := limits, s2_runtime_ready := True\<rparr>))"

definition relm_stage2_unregister_runtime :: "stage2_runtime \<Rightarrow> unit res \<times> stage2_runtime" where
  "relm_stage2_unregister_runtime g =
     (Inr (), g\<lparr>s2_runtime_ready := False,
        s2_runtime := \<lparr>host_pfr0_el1 = 0, host_mmfr0_el1 = 0, host_mmfr1_el1 = 0, invalidate = None\<rparr>\<rparr>)"

definition relm_stage2_check_support :: "stage2_runtime \<Rightarrow> bool" where
  "relm_stage2_check_support g = s2_runtime_ready g"

definition relm_stage2_choose_geometry :: "stage2_runtime \<Rightarrow> nat \<Rightarrow> relm_stage2_geometry res" where
  "relm_stage2_choose_geometry g requested_ipa_bits =
     (if requested_ipa_bits < 32 \<or> requested_ipa_bits > 48 then Inl EINVAL
      else if \<not> s2_runtime_ready g \<or> requested_ipa_bits > ipa_bits (s2_limits g) then Inl EOPNOTSUPP
      else Inr ((s2_limits g)\<lparr>ipa_bits := requested_ipa_bits, start_level := (if requested_ipa_bits \<le> 39 then 1 else 0)\<rparr>))"

section \<open>The context\<close>

text \<open>The members of \<open>struct relm_stage2\<close> the code uses. The root is a host address; the locks have no state.\<close>

record relm_stage2 =
  s2_root :: u64
  s2_root_pa :: u64
  s2_geometry :: relm_stage2_geometry
  s2_vtcr_el2 :: u64
  s2_vmid :: u16
  s2_pages_4kb :: u64
  s2_pages_2mb :: u64
  s2_pages_1gb :: u64
  s2_total_mapped :: u64

definition s2_alloc_table :: "host \<Rightarrow> u64 option \<times> host" where
  "s2_alloc_table h = get_zeroed_page h"

text \<open>The recursion over the levels that remain below a table.\<close>

fun s2_free_levels :: "nat \<Rightarrow> u64 \<Rightarrow> host \<Rightarrow> host" where
  "s2_free_levels 0 table h = free_page table h"
| "s2_free_levels (Suc n) table h =
     free_page table
       (fold (\<lambda>i h. let entry = rd64 (pmem h) (slot table (word_of_nat i)) in
                if entry AND S2_DESC_TYPE_MASK = S2_DESC_TABLE then s2_free_levels n (entry AND S2_TABLE_ADDR_MASK) h else h) [0..<512] h)"

definition s2_free_table_tree :: "u64 \<Rightarrow> nat \<Rightarrow> host \<Rightarrow> host" where
  "s2_free_table_tree table level h = s2_free_levels (3 - level) table h"

definition relm_stage2_context_create ::
    "stage2_runtime \<Rightarrow> relm_stage2_geometry option \<Rightarrow> u16 \<Rightarrow> host \<Rightarrow> relm_stage2 res \<times> host" where
  "relm_stage2_context_create g geometry vmid h =
     (case relm_stage2_encode_vtcr geometry of
        Inl e \<Rightarrow> (Inl e, h)
      | Inr vtcr \<Rightarrow>
        let gm = the geometry in
        if vmid_bits gm = 8 \<and> vmid > 255 then (Inl ERANGE, h)
        else if \<not> s2_runtime_ready g \<or> ipa_bits gm > ipa_bits (s2_limits g) \<or> pa_bits gm > pa_bits (s2_limits g) \<or>
                vmid_bits gm > vmid_bits (s2_limits g) then (Inl EOPNOTSUPP, h)
        else case kzalloc h of (False, h) \<Rightarrow> (Inl ENOMEM, h)
        | (True, h) \<Rightarrow>
         (case s2_alloc_table h of (None, h) \<Rightarrow> (Inl ENOMEM, h)
          | (Some root, h) \<Rightarrow>
            (Inr \<lparr>s2_root = root, s2_root_pa = root, s2_geometry = gm, s2_vtcr_el2 = vtcr, s2_vmid = vmid,
                  s2_pages_4kb = 0, s2_pages_2mb = 0, s2_pages_1gb = 0, s2_total_mapped = 0\<rparr>, h)))"

text \<open>The invalidation callback of a runtime that is not registered is a null pointer: no result.\<close>

definition s2_invalidate :: "stage2_runtime \<Rightarrow> relm_stage2 \<Rightarrow> unit res option" where
  "s2_invalidate g st =
     (case relm_stage2_encode_vttbr (s2_geometry st) (s2_root_pa st) (s2_vmid st) of
        Inl e \<Rightarrow> Some (Inl e)
      | Inr vttbr \<Rightarrow> (case invalidate (s2_runtime g) of None \<Rightarrow> None | Some f \<Rightarrow> Some (f (s2_vtcr_el2 st) vttbr)))"

definition relm_stage2_invalidate_context :: "stage2_runtime \<Rightarrow> relm_stage2 option \<Rightarrow> unit res option" where
  "relm_stage2_invalidate_context g st = (case st of None \<Rightarrow> Some (Inl EINVAL) | Some st \<Rightarrow> s2_invalidate g st)"

definition relm_stage2_context_destroy :: "stage2_runtime \<Rightarrow> relm_stage2 option \<Rightarrow> host \<Rightarrow> (unit res \<times> host) option" where
  "relm_stage2_context_destroy g st h =
     (case st of None \<Rightarrow> Some (Inr (), h)
      | Some st \<Rightarrow>
       (case s2_invalidate g st of
          None \<Rightarrow> None
        | Some (Inl e) \<Rightarrow> Some (Inl e, h)
        | Some (Inr _) \<Rightarrow> Some (Inr (), s2_free_table_tree (s2_root st) (start_level (s2_geometry st)) h)))"

section \<open>Mapping\<close>

definition s2_get_or_create :: "u64 \<Rightarrow> host \<Rightarrow> u64 option \<times> host" where
  "s2_get_or_create entry h =
     (let e = rd64 (pmem h) entry in
      if e AND S2_DESC_TYPE_MASK = S2_DESC_TABLE then (Some (e AND S2_TABLE_ADDR_MASK), h)
      else case s2_alloc_table h of
        (None, h) \<Rightarrow> (None, h)
      | (Some child, h) \<Rightarrow> (Some child, h\<lparr>pmem := wr64 (pmem h) entry (child OR S2_DESC_TABLE)\<rparr>))"

fun s2_descend :: "nat list \<Rightarrow> u64 \<Rightarrow> u64 \<Rightarrow> host \<Rightarrow> u64 option \<times> host" where
  "s2_descend [] ipa table h = (Some table, h)"
| "s2_descend (level # ls) ipa table h =
     (case s2_get_or_create (slot table (s2_index ipa level)) h of
        (None, h) \<Rightarrow> (None, h)
      | (Some table, h) \<Rightarrow> s2_descend ls ipa table h)"

definition s2_leaf_entry :: "u64 \<Rightarrow> u64 \<Rightarrow> nat \<Rightarrow> u64" where
  "s2_leaf_entry pa flags leaf_level =
     (pa AND S2_PAGE_ADDR_MASK) OR flags OR S2_AF OR (if leaf_level = 3 then S2_DESC_PAGE else S2_DESC_BLOCK)"

definition s2_map_one :: "u64 \<Rightarrow> u64 \<Rightarrow> u64 \<Rightarrow> nat \<Rightarrow> relm_stage2 \<Rightarrow> host \<Rightarrow> unit res \<times> relm_stage2 \<times> host" where
  "s2_map_one ipa pa flags leaf_level st h =
     (case s2_descend [start_level (s2_geometry st)..<leaf_level] ipa (s2_root st) h of
        (None, h) \<Rightarrow> (Inl ENOMEM, st, h)
      | (Some table, h) \<Rightarrow>
        let lf = slot table (s2_index ipa leaf_level);
            st = (if rd64 (pmem h) lf AND S2_DESC_VALID \<noteq> 0 then st
                  else if leaf_level = 3
                  then st\<lparr>s2_pages_4kb := s2_pages_4kb st + 1, s2_total_mapped := s2_total_mapped st + s2_level_size leaf_level\<rparr>
                  else st\<lparr>s2_pages_2mb := s2_pages_2mb st + 1, s2_total_mapped := s2_total_mapped st + s2_level_size leaf_level\<rparr>)
        in (Inr (), st, h\<lparr>pmem := wr64 (pmem h) lf (s2_leaf_entry pa flags leaf_level)\<rparr>))"

definition s2_map :: "u64 \<Rightarrow> u64 \<Rightarrow> u64 \<Rightarrow> nat \<Rightarrow> relm_stage2 option \<Rightarrow> host \<Rightarrow> unit res \<times> relm_stage2 option \<times> host" where
  "s2_map ipa pa flags leaf_level ctx h =
     (case ctx of None \<Rightarrow> (Inl EINVAL, ctx, h)
      | Some st \<Rightarrow>
        if \<not> s2_page_aligned ipa \<or> \<not> s2_page_aligned pa then (Inl EINVAL, ctx, h)
        else if flags AND S2_ACCESS_READ = 0 then (Inl EINVAL, ctx, h)
        else if \<not> s2_range_fits ipa (s2_level_size leaf_level) (ipa_bits (s2_geometry st)) \<or>
                \<not> s2_range_fits pa (s2_level_size leaf_level) (pa_bits (s2_geometry st)) then (Inl ERANGE, ctx, h)
        else case s2_map_one ipa pa flags leaf_level st h of (r, st, h) \<Rightarrow> (r, Some st, h))"

definition relm_stage2_map_page :: "u64 \<Rightarrow> u64 \<Rightarrow> u64 \<Rightarrow> relm_stage2 option \<Rightarrow> host \<Rightarrow> unit res \<times> relm_stage2 option \<times> host" where
  "relm_stage2_map_page ipa pa flags ctx h = s2_map ipa pa flags 3 ctx h"

definition relm_stage2_map_huge_page :: "u64 \<Rightarrow> u64 \<Rightarrow> u64 \<Rightarrow> relm_stage2 option \<Rightarrow> host \<Rightarrow> unit res \<times> relm_stage2 option \<times> host" where
  "relm_stage2_map_huge_page ipa pa flags ctx h =
     (if (ipa OR pa) AND (S2_PAGE_SIZE_2MB - 1) \<noteq> 0 then (Inl EINVAL, ctx, h) else s2_map ipa pa flags 2 ctx h)"

section \<open>Ranges and guest RAM\<close>

text \<open>The size is a multiple of the page size, so the byte offset of iteration \<open>i\<close> is \<open>4096 * i\<close> without wrap-around.\<close>

fun s2_map_pages :: "nat \<Rightarrow> u64 \<Rightarrow> u64 \<Rightarrow> u64 \<Rightarrow> u64 \<Rightarrow> relm_stage2 option \<Rightarrow> host \<Rightarrow> unit res \<times> relm_stage2 option \<times> host" where
  "s2_map_pages 0 offset ipa pa flags ctx h = (Inr (), ctx, h)"
| "s2_map_pages (Suc k) offset ipa pa flags ctx h =
     (case relm_stage2_map_page (ipa + offset) (pa + offset) flags ctx h of
        (Inl e, ctx, h) \<Rightarrow> (Inl e, ctx, h)
      | (Inr _, ctx, h) \<Rightarrow> s2_map_pages k (offset + S2_PAGE_SIZE_4KB) ipa pa flags ctx h)"

definition relm_stage2_map_range :: "u64 \<Rightarrow> u64 \<Rightarrow> u64 \<Rightarrow> u64 \<Rightarrow> relm_stage2 option \<Rightarrow> host \<Rightarrow> unit res \<times> relm_stage2 option \<times> host" where
  "relm_stage2_map_range ipa pa sz flags ctx h =
     (if sz = 0 \<or> \<not> s2_page_aligned sz then (Inl EINVAL, ctx, h)
      else s2_map_pages (unat sz div 4096) 0 ipa pa flags ctx h)"

definition s2_range_overlaps_mmio :: "relm_vm_memory option \<Rightarrow> u64 \<Rightarrow> u64 \<Rightarrow> bool" where
  "s2_range_overlaps_mmio vm ipa sz =
     (case vm of None \<Rightarrow> False
      | Some mm \<Rightarrow>
         (\<exists>i\<in>set [0..<relm_vm_mmio_region_count vm].
            case relm_vm_mmio_region_at vm i (Some \<lparr>mr_gpa_start = 0, mr_size = 0, mr_name = []\<rparr>) of
              (Inr _, Some region) \<Rightarrow> ipa < mr_gpa_start region + mr_size region \<and> mr_gpa_start region < ipa + sz
            | _ \<Rightarrow> False))"

fun s2_map_ram_pages :: "relm_vm_memory option \<Rightarrow> nat \<Rightarrow> u64 \<Rightarrow> u64 \<Rightarrow> u64 \<Rightarrow> u64 \<Rightarrow> relm_stage2 option \<Rightarrow> host
    \<Rightarrow> unit res \<times> relm_stage2 option \<times> host" where
  "s2_map_ram_pages vm 0 offset ipa pa flags ctx h = (Inr (), ctx, h)"
| "s2_map_ram_pages vm (Suc k) offset ipa pa flags ctx h =
     (if s2_range_overlaps_mmio vm (ipa + offset) S2_PAGE_SIZE_4KB
      then s2_map_ram_pages vm k (offset + S2_PAGE_SIZE_4KB) ipa pa flags ctx h
      else case relm_stage2_map_page (ipa + offset) (pa + offset) flags ctx h of
        (Inl e, ctx, h) \<Rightarrow> (Inl e, ctx, h)
      | (Inr _, ctx, h) \<Rightarrow> s2_map_ram_pages vm k (offset + S2_PAGE_SIZE_4KB) ipa pa flags ctx h)"

definition relm_stage2_map_guest_ram_4kb :: "relm_vm_memory option \<Rightarrow> u64 \<Rightarrow> u64 \<Rightarrow> u64 \<Rightarrow> u64 \<Rightarrow> relm_stage2 option \<Rightarrow> host
    \<Rightarrow> unit res \<times> relm_stage2 option \<times> host" where
  "relm_stage2_map_guest_ram_4kb vm ipa pa sz flags ctx h =
     (if vm = None \<or> sz = 0 \<or> \<not> s2_page_aligned sz then (Inl EINVAL, ctx, h)
      else s2_map_ram_pages vm (unat sz div 4096) 0 ipa pa flags ctx h)"

text \<open>The loop over 2 MiB strides; \<open>address\<close> and \<open>physical\<close> are \<open>ipa + offset\<close> and \<open>pa + offset\<close>.\<close>

function s2_map_ram_strides :: "relm_vm_memory option \<Rightarrow> u64 \<Rightarrow> u64 \<Rightarrow> u64 \<Rightarrow> u64 \<Rightarrow> relm_stage2 option \<Rightarrow> host
    \<Rightarrow> unit res \<times> relm_stage2 option \<times> host" where
  "s2_map_ram_strides vm end address physical flags ctx h =
     (if address < end then
        let remaining = end - address;
            to_boundary = S2_PAGE_SIZE_2MB - (address AND (S2_PAGE_SIZE_2MB - 1));
            chunk = (if remaining < to_boundary then remaining else to_boundary)
        in if remaining \<ge> S2_PAGE_SIZE_2MB \<and> (address OR physical) AND (S2_PAGE_SIZE_2MB - 1) = 0 \<and>
              \<not> s2_range_overlaps_mmio vm address S2_PAGE_SIZE_2MB
           then (case relm_stage2_map_huge_page address physical flags ctx h of
                   (Inl e, ctx, h) \<Rightarrow> (Inl e, ctx, h)
                 | (Inr _, ctx, h) \<Rightarrow> s2_map_ram_strides vm end (address + S2_PAGE_SIZE_2MB) (physical + S2_PAGE_SIZE_2MB) flags ctx h)
           else (case relm_stage2_map_guest_ram_4kb vm address physical chunk flags ctx h of
                   (Inl e, ctx, h) \<Rightarrow> (Inl e, ctx, h)
                 | (Inr _, ctx, h) \<Rightarrow> s2_map_ram_strides vm end (address + chunk) (physical + chunk) flags ctx h)
      else (Inr (), ctx, h))"
  by pat_completeness auto

termination
  by (relation "measure (\<lambda>(vm, e, a, p, flags, ctx, h). unat (e - a))")
    (auto simp: Let_def boundary_positive word_diff_positive intro!: stride_decreases)

declare s2_map_ram_strides.simps [simp del]

definition relm_stage2_map_guest_ram_huge :: "relm_vm_memory option \<Rightarrow> u64 \<Rightarrow> u64 \<Rightarrow> u64 \<Rightarrow> u64 \<Rightarrow> relm_stage2 option \<Rightarrow> host
    \<Rightarrow> unit res \<times> relm_stage2 option \<times> host" where
  "relm_stage2_map_guest_ram_huge vm ipa pa sz flags ctx h =
     (if vm = None \<or> sz = 0 \<or> \<not> s2_page_aligned sz then (Inl EINVAL, ctx, h)
      else s2_map_ram_strides vm (ipa + sz) ipa pa flags ctx h)"

section \<open>Walk, lookup, unmapping\<close>

text \<open>The result is the leaf's physical base, its guest base and its size.\<close>

fun s2_walk_levels :: "nat list \<Rightarrow> u64 \<Rightarrow> u64 \<Rightarrow> mem \<Rightarrow> (u64 \<times> u64 \<times> u64) res" where
  "s2_walk_levels [] ipa table m = Inl ENOENT"
| "s2_walk_levels (level # ls) ipa table m =
     (let entry = rd64 m (slot table (s2_index ipa level)); type = entry AND S2_DESC_TYPE_MASK in
      if entry = 0 then Inl ENOENT
      else if level < 3 \<and> type = S2_DESC_TABLE then s2_walk_levels ls ipa (entry AND S2_TABLE_ADDR_MASK) m
      else if level = 0 \<or> level = 3 \<and> type \<noteq> S2_DESC_PAGE \<or> level < 3 \<and> type \<noteq> S2_DESC_BLOCK then Inl EINVAL
      else let sz = s2_level_size level in Inr (entry AND S2_PAGE_ADDR_MASK AND NOT (sz - 1), ipa AND NOT (sz - 1), sz))"

definition s2_walk :: "u64 \<Rightarrow> relm_stage2 \<Rightarrow> host \<Rightarrow> (u64 \<times> u64 \<times> u64) res" where
  "s2_walk ipa st h = s2_walk_levels [start_level (s2_geometry st)..<4] ipa (s2_root st) (pmem h)"

definition relm_stage2_get_mapping :: "u64 \<Rightarrow> relm_stage2 option \<Rightarrow> host \<Rightarrow> u64 res" where
  "relm_stage2_get_mapping ipa ctx h =
     (case ctx of None \<Rightarrow> Inl EINVAL
      | Some st \<Rightarrow> (case s2_walk ipa st h of Inl e \<Rightarrow> Inl e | Inr (leaf_pa, base, sz) \<Rightarrow> Inr (leaf_pa + (ipa - base))))"

text \<open>The second descent of an unmapping, to the level whose leaves have size \<open>sz\<close>; some level of the list has it, since the walk
  returned it.\<close>

fun s2_find_leaf :: "nat list \<Rightarrow> u64 \<Rightarrow> u64 \<Rightarrow> u64 \<Rightarrow> mem \<Rightarrow> u64 \<times> nat" where
  "s2_find_leaf [] ipa sz table m = (table, 4)"
| "s2_find_leaf (level # ls) ipa sz table m =
     (if s2_level_size level = sz then (table, level)
      else s2_find_leaf ls ipa sz (rd64 m (slot table (s2_index ipa level)) AND S2_TABLE_ADDR_MASK) m)"

definition relm_stage2_unmap_page :: "u64 \<Rightarrow> relm_stage2 option \<Rightarrow> host \<Rightarrow> unit res \<times> relm_stage2 option \<times> host" where
  "relm_stage2_unmap_page ipa ctx h =
     (case ctx of None \<Rightarrow> (Inl EINVAL, ctx, h)
      | Some st \<Rightarrow>
       (case s2_walk ipa st h of
          Inl e \<Rightarrow> (if e = ENOENT then Inr () else Inl e, ctx, h)
        | Inr (leaf_pa, base, sz) \<Rightarrow>
          if base \<noteq> ipa then (Inl EINVAL, ctx, h)
          else case s2_find_leaf [start_level (s2_geometry st)..<4] ipa sz (s2_root st) (pmem h) of (table, level) \<Rightarrow>
            let st = (if level = 3 then st\<lparr>s2_pages_4kb := s2_pages_4kb st - 1\<rparr> else st\<lparr>s2_pages_2mb := s2_pages_2mb st - 1\<rparr>)
            in (Inr (), Some (st\<lparr>s2_total_mapped := s2_total_mapped st - sz\<rparr>),
                h\<lparr>pmem := wr64 (pmem h) (slot table (s2_index ipa level)) 0\<rparr>)))"

text \<open>Both ends are page aligned: when \<open>ipa + sz\<close> does not wrap the loop runs once per page, otherwise not at all.\<close>

fun s2_unmap_pages :: "nat \<Rightarrow> u64 \<Rightarrow> relm_stage2 option \<Rightarrow> host \<Rightarrow> unit res \<times> relm_stage2 option \<times> host" where
  "s2_unmap_pages 0 ipa ctx h = (Inr (), ctx, h)"
| "s2_unmap_pages (Suc k) ipa ctx h =
     (case relm_stage2_unmap_page ipa ctx h of
        (Inl e, ctx, h) \<Rightarrow> (Inl e, ctx, h)
      | (Inr _, ctx, h) \<Rightarrow> s2_unmap_pages k (ipa + S2_PAGE_SIZE_4KB) ctx h)"

definition relm_stage2_unmap_range :: "u64 \<Rightarrow> u64 \<Rightarrow> relm_stage2 option \<Rightarrow> host \<Rightarrow> unit res \<times> relm_stage2 option \<times> host" where
  "relm_stage2_unmap_range ipa sz ctx h =
     (if sz = 0 \<or> \<not> s2_page_aligned ipa \<or> \<not> s2_page_aligned sz then (Inl EINVAL, ctx, h)
      else s2_unmap_pages (if ipa < ipa + sz then unat sz div 4096 else 0) ipa ctx h)"

section \<open>Setup and faults\<close>

text \<open>\<open>vm\<close> is the memory, the id and the stage-2 context of the VM.\<close>

definition relm_setup_stage2 :: "stage2_runtime \<Rightarrow> (relm_vm_memory \<times> int \<times> relm_stage2 option) option \<Rightarrow> host
    \<Rightarrow> unit res \<times> relm_stage2 option \<times> host" where
  "relm_setup_stage2 g vm h =
     (case vm of None \<Rightarrow> (Inl EINVAL, None, h)
      | Some (mm, vm_id, Some st) \<Rightarrow> (Inl EEXIST, Some st, h)
      | Some (mm, vm_id, None) \<Rightarrow>
       (case relm_stage2_choose_geometry g 39 of
          Inl e \<Rightarrow> (Inl e, None, h)
        | Inr geometry \<Rightarrow>
          if \<not> (\<forall>r\<in>set (mem_regions mm). s2_range_fits (gr_gpa_start r) (gr_size r) (ipa_bits geometry)) then (Inl ERANGE, None, h)
          else case relm_stage2_context_create g (Some geometry) (word_of_int vm_id) h of
            (Inl e, h) \<Rightarrow> (Inl e, None, h)
          | (Inr st, h) \<Rightarrow> (Inr (), Some st, h)))"

text \<open>\<open>has_stage2\<close> stands for the chain of pointers from the vCPU to the context, \<open>sync\<close> for a synchronous exit.\<close>

definition relm_stage2_handle_fault :: "bool \<Rightarrow> bool \<Rightarrow> u64 \<Rightarrow> unit res" where
  "relm_stage2_handle_fault has_stage2 sync esr_el2 =
     (if \<not> has_stage2 \<or> \<not> sync then Inl EINVAL
      else let ec = esr_el2 AND push_bit 26 0x3F in
        if ec \<noteq> push_bit 26 0x20 \<and> ec \<noteq> push_bit 26 0x24 then Inl EINVAL
        else if esr_el2 AND 0x3C = 0xC then Inl EACCES else Inl EFAULT)"

section \<open>Entries of a tree by path\<close>

definition s2_table :: "u64 \<Rightarrow> bool" where "s2_table e \<longleftrightarrow> e AND 3 = 3"
definition s2_block :: "u64 \<Rightarrow> bool" where "s2_block e \<longleftrightarrow> e AND 3 = 1"
definition s2_addr :: "u64 \<Rightarrow> u64" where "s2_addr e = e AND S2_TABLE_ADDR_MASK"
definition s2_link :: "u64 \<Rightarrow> u64" where "s2_link f = f OR S2_DESC_TABLE"
definition s2_frame :: "u64 \<Rightarrow> bool" where "s2_frame f \<longleftrightarrow> frame_ok f \<and> f < 2 ^ 48"

lemma bit_3: "bit (3 :: int) k \<longleftrightarrow> k < 2"
proof -
  have "(3 :: int) = mask 2" by (simp add: mask_eq_exp_minus_1)
  then show ?thesis by (simp only: bit_mask_iff) simp
qed

lemma bit_s2_mask: "bit (0x0000FFFFFFFFF000 :: int) k \<longleftrightarrow> 12 \<le> k \<and> k < 48"
proof -
  have "(0x0000FFFFFFFFF000 :: int) = push_bit 12 (mask 36)" by (simp add: mask_eq_exp_minus_1 push_bit_eq_mult)
  then show ?thesis by (simp only: bit_push_bit_iff bit_mask_iff) auto
qed

lemma s2_frame_bit:
  assumes "s2_frame f" "bit f k"
  shows "12 \<le> k \<and> k < 48"
proof -
  have "f < 2 ^ 48" using assms(1) by (simp add: s2_frame_def)
  then have "take_bit 48 f = f" by (simp add: take_bit_eq_self_unat word_less_nat_alt)
  then have "k < 48" using assms(2) by (metis bit_take_bit_iff)
  then show ?thesis using frame_ok_bit [of f k] assms by (simp add: s2_frame_def)
qed

interpretation s2_fmt: radix_format s2_table s2_addr s2_link "\<lambda>_. False" s2_frame
proof unfold_locales
  fix f assume f: "s2_frame f"
  show "frame_ok f" using f by (simp add: s2_frame_def)
  show "s2_table (s2_link f)" unfolding s2_table_def s2_link_def by (rule bit_word_eqI) (auto simp: bit_simps bit_3)
  show "s2_addr (s2_link f) = f"
    unfolding s2_addr_def s2_link_def
    by (rule bit_word_eqI) (use s2_frame_bit [OF f] in \<open>auto simp: bit_simps bit_3 bit_s2_mask\<close>)
qed (simp_all add: s2_table_def)

text \<open>The raw entry at the end of a path; zero where the path leaves the tree.\<close>

abbreviation s2_walk_path :: "mem \<Rightarrow> u64 \<Rightarrow> u64 list \<Rightarrow> u64 option" where "s2_walk_path \<equiv> walk s2_table s2_addr"

abbreviation s2_wf :: "nat \<Rightarrow> mem \<Rightarrow> u64 \<Rightarrow> u64 set \<Rightarrow> bool" where "s2_wf \<equiv> radix_wf s2_table s2_addr"

definition raw :: "mem \<Rightarrow> u64 \<Rightarrow> u64 list \<Rightarrow> u64" where
  "raw m r q = (case s2_walk_path m r (butlast q) of None \<Rightarrow> 0 | Some t \<Rightarrow> rd64 m (slot t (last q)))"

lemma raw_snoc: "raw m r (p @ [i]) = (case s2_walk_path m r p of None \<Rightarrow> 0 | Some t \<Rightarrow> rd64 m (slot t i))"
  by (simp add: raw_def split: option.split)

lemma walk_path_snoc:
  "s2_walk_path m r (p @ [i]) = (if s2_table (raw m r (p @ [i])) then Some (s2_addr (raw m r (p @ [i]))) else None)"
  using s2_fmt.absent_zero by (auto simp: raw_snoc walk_snoc entry_of_def Let_def split: option.split)

text \<open>A write to one entry leaves the memory of every other entry alone.\<close>

lemma rd_other_entry:
  assumes wf: "s2_wf D m r free"
    and p: "path_ok p" "length p < D" "s2_walk_path m r p = Some t" "unat i < 512"
    and q: "path_ok q" "length q < D" "s2_walk_path m r q = Some u" "unat j < 512" and ne: "q @ [j] \<noteq> p @ [i]"
  shows "rd64 (wr64 m (slot t i) v) (slot u j) = rd64 m (slot u j)"
proof -
  have f: "frame_ok t" "frame_ok u" using radix_wf_frame [OF wf p(1-3)] radix_wf_frame [OF wf q(1-3)] by auto
  have "\<not> (t = u \<and> i = j)" using radix_wf_inj [OF wf p(1-3) q(1,2)] q(3) ne by auto
  with f p(4) q(4) have "slot t i \<noteq> slot u j" by (simp add: frame_simps)
  with f p(4) q(4) show ?thesis by (simp add: rd64_wr64_other frame_simps)
qed

lemma raw_write_leaf:
  assumes wf: "s2_wf D m r free"
    and p: "path_ok p" "Suc (length p) = D" "s2_walk_path m r p = Some t" "unat i < 512"
    and q: "path_ok q" "length q \<le> D" "q \<noteq> []"
  shows "raw (wr64 m (slot t i) v) r q = (if q = p @ [i] then v else raw m r q)"
proof -
  obtain q' j where qs: "q = q' @ [j]" using q(3) by (cases q rule: rev_cases) auto
  have q': "path_ok q'" "length q' < D" "unat j < 512" using q qs by auto
  have "\<not> prefix (p @ [i]) q'" using p(2) q'(2) by (auto dest: prefix_length_le)
  then have w: "s2_walk_path (wr64 m (slot t i) v) r q' = s2_walk_path m r q'"
    using walk_write_other [OF wf p(1) _ p(3,4), of q' v] p(2) q' by simp
  show ?thesis
  proof (cases "s2_walk_path m r q'")
    case (Some u)
    show ?thesis
    proof (cases "q = p @ [i]")
      case True
      then show ?thesis using p(3) w qs by (simp add: raw_snoc mem_simps)
    next
      case False
      then show ?thesis using rd_other_entry [OF wf p(1) _ p(3,4) q'(1,2) Some q'(3)] p(2) qs w Some by (auto simp: raw_snoc)
    qed
  qed (use w qs p(3) in \<open>auto simp: raw_snoc\<close>)
qed

lemma raw_cut:
  assumes wf: "s2_wf D m r free"
    and p: "path_ok p" "length p < D" "s2_walk_path m r p = Some t" "unat i < 512"
    and v: "\<not> s2_table v" and q: "path_ok q" "length q \<le> D" "q \<noteq> []"
  shows "raw (wr64 m (slot t i) v) r q = (if q = p @ [i] then v else if prefix (p @ [i]) q then 0 else raw m r q)"
proof -
  obtain q' j where qs: "q = q' @ [j]" using q(3) by (cases q rule: rev_cases) auto
  have q': "path_ok q'" "length q' < D" "unat j < 512" using q qs by auto
  have w: "s2_walk_path (wr64 m (slot t i) v) r q' = (if prefix (p @ [i]) q' then None else s2_walk_path m r q')"
    using walk_cut [OF wf p v q'(1)] q'(2) by simp
  have pf: "prefix (p @ [i]) q \<longleftrightarrow> q = p @ [i] \<or> prefix (p @ [i]) q'" unfolding qs prefix_snoc by auto
  show ?thesis
  proof (cases "prefix (p @ [i]) q'")
    case True
    then have "q \<noteq> p @ [i]" using qs by (auto dest: prefix_length_le)
    with True w pf show ?thesis by (auto simp: qs raw_snoc)
  next
    case False
    show ?thesis
    proof (cases "q = p @ [i]")
      case True
      then show ?thesis using p(3) w qs False by (simp add: raw_snoc mem_simps)
    next
      case ne: False
      show ?thesis
      proof (cases "s2_walk_path m r q'")
        case (Some u)
        then show ?thesis using rd_other_entry [OF wf p q'(1,2) Some q'(3)] ne qs w False pf by (auto simp: raw_snoc)
      qed (use w qs False ne pf in \<open>auto simp: raw_snoc\<close>)
    qed
  qed
qed

lemma raw_link:
  assumes wf: "s2_wf D m r free"
    and p: "path_ok p" "Suc (length p) < D" "s2_walk_path m r p = Some t" "unat i < 512"
    and absent: "\<not> s2_table (raw m r (p @ [i]))"
    and f: "s2_frame f" "f \<in> free"
    and q: "path_ok q" "length q \<le> D" "q \<noteq> []"
  shows "raw (wr64 (zero_page m f) (slot t i) (s2_link f)) r q = (if q = p @ [i] then s2_link f else raw m r q)"
proof -
  let ?m = "wr64 (zero_page m f) (slot t i) (s2_link f)"
  obtain q' j where qs: "q = q' @ [j]" using q(3) by (cases q rule: rev_cases) auto
  have q': "path_ok q'" "length q' < D" "unat j < 512" using q qs by auto
  have none: "entry_of s2_table m t i = None" using absent p(3) by (simp add: entry_of_def raw_snoc)
  note wl = s2_fmt.walk_link [OF wf p none f]
  have nt: "f \<notin> tables s2_table s2_addr D m r" using wf f by (auto simp: radix_wf_def)
  have ff: "frame_ok f" using f by (simp add: s2_frame_def)
  have ft: "frame_ok t" "t \<noteq> f" using radix_wf_frame [OF wf p(1) _ p(3)] p f by auto
  show ?thesis
  proof (cases "q' = p @ [i]")
    case True
    have "slot t i \<noteq> slot f j" using ft ff p(4) q'(3) by (simp add: frame_simps)
    then have "rd64 ?m (slot f j) = 0" using ft ff p(4) q'(3) by (simp add: rd64_wr64_other rd64_zero_page frame_simps)
    moreover have "s2_walk_path m r q' = None" using True p(3) none by (simp add: walk_snoc)
    moreover have "q \<noteq> p @ [i]" using True qs by simp
    ultimately show ?thesis using True wl [of q'] q' unfolding qs raw_snoc by simp
  next
    case False
    then have w: "s2_walk_path ?m r q' = s2_walk_path m r q'" using wl [of q'] q' by simp
    show ?thesis
    proof (cases "s2_walk_path m r q'")
      case (Some u)
      then have u: "frame_ok u" "u \<in> tables s2_table s2_addr D m r" using radix_wf_frame [OF wf q'(1,2)] q' by (auto intro: tablesI)
      show ?thesis
      proof (cases "q = p @ [i]")
        case True
        then show ?thesis using Some w p(3) qs by (simp add: raw_snoc mem_simps)
      next
        case ne: False
        have "\<not> (t = u \<and> i = j)" using radix_wf_inj [OF wf p(1) _ p(3) q'(1,2)] Some ne qs p(2) by auto
        then have "rd64 ?m (slot u j) = rd64 m (slot u j)"
          using ft u p(4) q'(3) zero_page_same [OF wf u(2) q'(3) nt] by (subst rd64_wr64_other) (auto simp: frame_simps)
        with Some w ne show ?thesis by (auto simp: qs raw_snoc)
      qed
    qed (use w qs p(3) in \<open>auto simp: raw_snoc\<close>)
  qed
qed

section \<open>The invariant and the abstract state\<close>

text \<open>Every entry is empty or links a table or a page; blocks occur one level above the pages only.\<close>

definition entry_shape :: "nat \<Rightarrow> nat \<Rightarrow> u64 \<Rightarrow> bool" where
  "entry_shape D k e \<longleftrightarrow> e = 0 \<or> s2_table e \<or> Suc k = D \<and> s2_block e"

definition s2_tree :: "nat \<Rightarrow> u64 \<Rightarrow> host \<Rightarrow> bool" where
  "s2_tree D r h \<longleftrightarrow> host_ok h \<and> (\<forall>f\<in>set (pool h). f < 2 ^ 48) \<and> s2_wf D (pmem h) r (set (pool h)) \<and>
     (\<forall>q. path_ok q \<and> q \<noteq> [] \<and> length q \<le> D \<longrightarrow> entry_shape D (length q) (raw (pmem h) r q))"

text \<open>What a tree translates: a descriptor per mapped page and per mapped block, by path.\<close>

type_synonym s2_map_state = "(u64 list \<rightharpoonup> u64) \<times> (u64 list \<rightharpoonup> u64)"

definition s2_abs :: "nat \<Rightarrow> u64 \<Rightarrow> host \<Rightarrow> s2_map_state" where
  "s2_abs D r h =
     (\<lambda>q. if path_ok q \<and> length q = D \<and> s2_table (raw (pmem h) r q) then Some (raw (pmem h) r q) else None,
      \<lambda>q. if path_ok q \<and> Suc (length q) = D \<and> s2_block (raw (pmem h) r q) then Some (raw (pmem h) r q) else None)"

definition s2_path :: "nat \<Rightarrow> nat \<Rightarrow> u64 \<Rightarrow> u64 list" where
  "s2_path s l ipa = map (s2_index ipa) [s..<l]"

lemma s2_path_ok [simp]: "path_ok (s2_path s l ipa)" "length (s2_path s l ipa) = l - s"
  by (auto simp: s2_path_def path_ok_def s2_index_def unat_and_1FF)

lemma s2_path_empty [simp]: "s2_path s l ipa = [] \<longleftrightarrow> l \<le> s"
  by (auto simp: s2_path_def)

lemma s2_path_Suc: "s \<le> l \<Longrightarrow> s2_path s (Suc l) ipa = s2_path s l ipa @ [s2_index ipa l]"
  by (simp add: s2_path_def)

lemma s2_index_less [simp]: "unat (s2_index ipa l) < 512"
  by (simp add: s2_index_def unat_and_1FF)

lemma s2_types: "s2_block e \<Longrightarrow> \<not> s2_table e" "\<not> s2_table 0" "\<not> s2_block 0"
  by (auto simp: s2_table_def s2_block_def)

lemma s2_treeD:
  assumes "s2_tree D r h"
  shows "host_ok h" "s2_wf D (pmem h) r (set (pool h))" "f \<in> set (pool h) \<Longrightarrow> s2_frame f"
    "path_ok q \<Longrightarrow> q \<noteq> [] \<Longrightarrow> length q \<le> D \<Longrightarrow> entry_shape D (length q) (raw (pmem h) r q)"
  using assms by (auto simp: s2_tree_def s2_frame_def host_ok_def)

text \<open>A table is followed or made; making one replaces a block that was there.\<close>

lemma goc_tree:
  assumes tr: "s2_tree D r h" and p: "path_ok p" "Suc (length p) < D" "s2_walk_path (pmem h) r p = Some t" "unat i < 512"
    and g: "s2_get_or_create (slot t i) h = (res, h')"
  obtains "res = None" "h' = h"
  | u where "res = Some u" "s2_tree D r h'" "s2_walk_path (pmem h') r (p @ [i]) = Some u" "s2_table (raw (pmem h') r (p @ [i]))"
      "\<And>q. path_ok q \<Longrightarrow> q \<noteq> [] \<Longrightarrow> length q \<le> D \<Longrightarrow> q \<noteq> p @ [i] \<Longrightarrow> raw (pmem h') r q = raw (pmem h) r q"
proof -
  note T = s2_treeD [OF tr]
  have e: "raw (pmem h) r (p @ [i]) = rd64 (pmem h) (slot t i)" using p(3) by (simp add: raw_snoc)
  show ?thesis
  proof (cases "s2_table (rd64 (pmem h) (slot t i))")
    case True
    then have "res = Some (s2_addr (rd64 (pmem h) (slot t i)))" "h' = h"
      using g by (auto simp: s2_get_or_create_def s2_table_def s2_addr_def Let_def)
    with True e tr show ?thesis by (intro that(2) [of "s2_addr (rd64 (pmem h) (slot t i))"]) (auto simp: walk_path_snoc)
  next
    case False
    show ?thesis
    proof (cases "pool h")
      case Nil
      with False g show ?thesis by (intro that(1)) (auto simp: s2_get_or_create_def s2_alloc_table_def s2_table_def Let_def)
    next
      case (Cons f fs)
      let ?m = "wr64 (zero_page (pmem h) f) (slot t i) (s2_link f)"
      have r: "res = Some f" "h' = h\<lparr>pool := fs, pmem := ?m\<rparr>"
        using g False Cons by (auto simp: s2_get_or_create_def s2_alloc_table_def s2_table_def s2_link_def Let_def)
      have f: "s2_frame f" "f \<in> set (pool h)" "f \<notin> set fs" using T(1,3) Cons by (auto simp: host_ok_def)
      have ab: "\<not> s2_table (raw (pmem h) r (p @ [i]))" using False e by simp
      note rl = raw_link [OF T(2) p ab f(1,2)]
      have ne: "entry_of s2_table (pmem h) t i = None" using False by (simp add: entry_of_def)
      have wf: "s2_wf D ?m r (set fs)"
        using s2_fmt.radix_wf_link [OF T(2) p ne f(1,2)] f(3) Cons by (simp add: insert_Diff_if)
      have lk: "s2_table (s2_link f)" "s2_addr (s2_link f) = f" using s2_fmt.link_present s2_fmt.link_addr f(1) by auto
      have at: "raw ?m r (p @ [i]) = s2_link f" using rl [of "p @ [i]"] p by simp
      have "entry_shape D (length q) (raw ?m r q)" if "path_ok q" "q \<noteq> []" "length q \<le> D" for q
        using rl [of q] T(4) [of q] that lk(1) by (simp add: entry_shape_def)
      moreover have "host_ok h'" "\<forall>f\<in>set fs. f < 2 ^ 48" using T(1) tr Cons r by (auto simp: host_ok_def s2_tree_def)
      ultimately have "s2_tree D r h'" using wf r by (simp add: s2_tree_def)
      moreover have "s2_walk_path (pmem h') r (p @ [i]) = Some f" using at lk r by (simp add: walk_path_snoc)
      ultimately show ?thesis using r at lk rl by (intro that(2) [of f]) auto
    qed
  qed
qed

lemma descend_tree:
  assumes "s2_tree D r h" "D = 4 - s" "s \<le> l" "l \<le> L" "L \<le> 3" "s2_walk_path (pmem h) r (s2_path s l ipa) = Some t"
    and "s2_descend [l..<L] ipa t h = (res, h')"
  shows "s2_tree D r h' \<and> (\<forall>u. res = Some u \<longrightarrow> s2_walk_path (pmem h') r (s2_path s L ipa) = Some u) \<and>
    (\<forall>q. path_ok q \<and> q \<noteq> [] \<and> length q \<le> D \<longrightarrow> raw (pmem h') r q = raw (pmem h) r q \<or>
       (\<exists>k. l < k \<and> (if res = None then k < L else k \<le> L) \<and> q = s2_path s k ipa \<and> s2_table (raw (pmem h') r q)))"
  using assms
proof (induction "L - l" arbitrary: l t h)
  case 0
  then show ?case by simp
next
  case (Suc n)
  then have ll: "l < L" by simp
  then have up: "[l..<L] = l # [Suc l..<L]" by (simp add: upt_conv_Cons)
  obtain res1 h1 where g: "s2_get_or_create (slot t (s2_index ipa l)) h = (res1, h1)" by (cases "s2_get_or_create (slot t (s2_index ipa l)) h")
  have pl: "Suc (length (s2_path s l ipa)) < D" using Suc.prems(2,3,5) ll by simp
  have ps: "s2_path s (Suc l) ipa = s2_path s l ipa @ [s2_index ipa l]" using Suc.prems(3) by (rule s2_path_Suc)
  show ?case
  proof (rule goc_tree [OF Suc.prems(1) s2_path_ok(1) pl Suc.prems(6) s2_index_less g], goal_cases)
    case 1
    then have "res = None" "h' = h" using Suc.prems(7) up g by simp_all
    then show ?case using Suc.prems(1) by simp
  next
    case (2 u)
    have d: "s2_descend [Suc l..<L] ipa u h1 = (res, h')" using Suc.prems(7) up g 2(1) by simp
    have IH: "s2_tree D r h' \<and> (\<forall>u. res = Some u \<longrightarrow> s2_walk_path (pmem h') r (s2_path s L ipa) = Some u) \<and>
      (\<forall>q. path_ok q \<and> q \<noteq> [] \<and> length q \<le> D \<longrightarrow> raw (pmem h') r q = raw (pmem h1) r q \<or>
         (\<exists>k. Suc l < k \<and> (if res = None then k < L else k \<le> L) \<and> q = s2_path s k ipa \<and> s2_table (raw (pmem h') r q)))"
      using Suc.hyps(2) ll Suc.prems(2,3,5) 2(2,3) d by (intro Suc.hyps(1) [of "Suc l" h1 u]) (simp_all add: ps)
    have step: "raw (pmem h') r q = raw (pmem h) r q \<or>
        (\<exists>k. l < k \<and> (if res = None then k < L else k \<le> L) \<and> q = s2_path s k ipa \<and> s2_table (raw (pmem h') r q))"
      if q: "path_ok q" "q \<noteq> []" "length q \<le> D" for q
    proof (cases "q = s2_path s (Suc l) ipa")
      case True
      have "\<not> (\<exists>k. Suc l < k \<and> k \<le> L \<and> q = s2_path s k ipa)"
      proof
        assume "\<exists>k. Suc l < k \<and> k \<le> L \<and> q = s2_path s k ipa"
        then obtain k where "Suc l < k" "length q = k - s" by auto
        with True Suc.prems(3) show False by simp
      qed
      then have "raw (pmem h') r q = raw (pmem h1) r q" using IH q by (metis less_imp_le)
      then have tb: "s2_table (raw (pmem h') r q)" using 2(4) True ps by simp
      show ?thesis
      proof (cases "res = None \<and> Suc l = L")
        case no: True
        then have "[Suc l..<L] = []" by simp
        with d no show ?thesis by simp
      next
        case False
        then have "if res = None then Suc l < L else Suc l \<le> L" using ll by auto
        with True tb show ?thesis by (intro disjI2 exI [of _ "Suc l"]) auto
      qed
    next
      case False
      then have same: "raw (pmem h1) r q = raw (pmem h) r q" using 2(5) q ps by simp
      from IH q consider "raw (pmem h') r q = raw (pmem h1) r q"
        | k where "Suc l < k" "if res = None then k < L else k \<le> L" "q = s2_path s k ipa" "s2_table (raw (pmem h') r q)" by blast
      then show ?thesis
      proof cases
        case 1
        with same show ?thesis by simp
      next
        case (2 k)
        then show ?thesis by (intro disjI2 exI [of _ k]) simp
      qed
    qed
    then show ?case using IH by blast
  qed
qed

text \<open>The descent changes no page; the only block it can replace is the one at the path it makes a table of.\<close>

lemma descend_abs:
  assumes tr: "s2_tree D r h" and D: "D = 4 - s" "s \<le> 1" and L: "s \<le> L" "L \<le> 3"
    and d: "s2_descend [s..<L] ipa r h = (res, h')"
  shows "s2_tree D r h'" "res = Some u \<Longrightarrow> s2_walk_path (pmem h') r (s2_path s L ipa) = Some u"
    "s2_abs D r h' = (if res \<noteq> None \<and> L = 3 then (fst (s2_abs D r h), (snd (s2_abs D r h))(s2_path s 3 ipa := None)) else s2_abs D r h)"
proof -
  have w0: "s2_walk_path (pmem h) r (s2_path s s ipa) = Some r" by (simp add: s2_path_def)
  note dt = descend_tree [OF tr D(1) order_refl L w0 d]
  show "s2_tree D r h'" "res = Some u \<Longrightarrow> s2_walk_path (pmem h') r (s2_path s L ipa) = Some u" using dt by auto
  have rw: "raw (pmem h') r q = raw (pmem h) r q \<or>
      (\<exists>k. s < k \<and> (if res = None then k < L else k \<le> L) \<and> q = s2_path s k ipa \<and> s2_table (raw (pmem h') r q))"
    if "path_ok q" "q \<noteq> []" "length q \<le> D" for q using dt that by blast
  have pg: "raw (pmem h') r q = raw (pmem h) r q" if q: "path_ok q" "length q = D" for q
  proof (rule ccontr)
    assume "raw (pmem h') r q \<noteq> raw (pmem h) r q"
    moreover have "q \<noteq> []" using q D by auto
    ultimately obtain k where "s < k" "k \<le> L" "q = s2_path s k ipa" using rw [of q] q by (auto split: if_splits)
    then show False using q(2) D L by simp
  qed
  have at: "s2_table (raw (pmem h') r (s2_path s 3 ipa))" if "res \<noteq> None" "L = 3"
  proof -
    have "s2_path s 3 ipa = s2_path s 2 ipa @ [s2_index ipa 2]" using s2_path_Suc [of s 2 ipa] D(2) by (simp add: numeral_3_eq_3 numeral_2_eq_2)
    with that dt show ?thesis by (auto simp: walk_path_snoc split: if_splits)
  qed
  have bl: "raw (pmem h') r q = raw (pmem h) r q \<or> res \<noteq> None \<and> L = 3 \<and> q = s2_path s 3 ipa" if q: "path_ok q" "Suc (length q) = D" for q
  proof (rule ccontr)
    assume n: "\<not> ?thesis"
    moreover have "q \<noteq> []" using q D by auto
    ultimately obtain k where k: "s < k" "if res = None then k < L else k \<le> L" "q = s2_path s k ipa" using rw [of q] q by auto
    then have "k = 3" using q(2) D by simp
    with k L n show False by (auto split: if_splits)
  qed
  have "fst (s2_abs D r h') = fst (s2_abs D r h)" using pg by (auto simp: s2_abs_def fun_eq_iff)
  moreover have "snd (s2_abs D r h') = (if res \<noteq> None \<and> L = 3 then (snd (s2_abs D r h))(s2_path s 3 ipa := None) else snd (s2_abs D r h))"
  proof
    fix q
    show "snd (s2_abs D r h') q = (if res \<noteq> None \<and> L = 3 then (snd (s2_abs D r h))(s2_path s 3 ipa := None) else snd (s2_abs D r h)) q"
      using bl [of q] at s2_types(1) by (auto simp: s2_abs_def)
  qed
  ultimately show "s2_abs D r h' = (if res \<noteq> None \<and> L = 3 then (fst (s2_abs D r h), (snd (s2_abs D r h))(s2_path s 3 ipa := None)) else s2_abs D r h)"
    by (simp add: prod_eq_iff)
qed

text \<open>Writing the descriptor of a page, and an entry one level above.\<close>

lemma page_write:
  assumes tr: "s2_tree D r h" and p: "path_ok p" "Suc (length p) = D" "s2_walk_path (pmem h) r p = Some t" "unat i < 512"
    and v: "v = 0 \<or> s2_table v" and D: "1 < D"
  shows "s2_tree D r (h\<lparr>pmem := wr64 (pmem h) (slot t i) v\<rparr>)"
    "s2_abs D r (h\<lparr>pmem := wr64 (pmem h) (slot t i) v\<rparr>) =
       ((fst (s2_abs D r h))(p @ [i] := (if v = 0 then None else Some v)), snd (s2_abs D r h))"
proof -
  note T = s2_treeD [OF tr]
  note rw = raw_write_leaf [OF T(2) p]
  show "s2_tree D r (h\<lparr>pmem := wr64 (pmem h) (slot t i) v\<rparr>)"
    using tr v radix_wf_leaf_write [OF T(2) p] rw by (auto simp: s2_tree_def host_ok_def entry_shape_def)
  have "fst (s2_abs D r (h\<lparr>pmem := wr64 (pmem h) (slot t i) v\<rparr>)) q = ((fst (s2_abs D r h))(p @ [i] := (if v = 0 then None else Some v))) q" for q
  proof (cases "path_ok q \<and> length q = D")
    case True
    then have "q \<noteq> []" using p(2) by auto
    with True rw [of q v] v s2_types show ?thesis by (auto simp: s2_abs_def)
  qed (use p in \<open>auto simp: s2_abs_def\<close>)
  moreover have "snd (s2_abs D r (h\<lparr>pmem := wr64 (pmem h) (slot t i) v\<rparr>)) q = snd (s2_abs D r h) q" for q
  proof (cases "path_ok q \<and> Suc (length q) = D")
    case True
    then have "q \<noteq> []" "q \<noteq> p @ [i]" using p(2) D by auto
    then show ?thesis using True rw [of q v] by (simp add: s2_abs_def)
  qed (auto simp: s2_abs_def)
  ultimately show "s2_abs D r (h\<lparr>pmem := wr64 (pmem h) (slot t i) v\<rparr>) =
       ((fst (s2_abs D r h))(p @ [i] := (if v = 0 then None else Some v)), snd (s2_abs D r h))"
    by (auto simp: prod_eq_iff fun_eq_iff)
qed

lemma block_write:
  assumes tr: "s2_tree D r h" and p: "path_ok p" "Suc (Suc (length p)) = D" "s2_walk_path (pmem h) r p = Some t" "unat i < 512"
    and v: "v = 0 \<or> s2_block v"
  shows "s2_tree D r (h\<lparr>pmem := wr64 (pmem h) (slot t i) v\<rparr>)"
    "s2_abs D r (h\<lparr>pmem := wr64 (pmem h) (slot t i) v\<rparr>) =
       (\<lambda>q. if prefix (p @ [i]) q then None else fst (s2_abs D r h) q, (snd (s2_abs D r h))(p @ [i] := (if v = 0 then None else Some v)))"
proof -
  note T = s2_treeD [OF tr]
  have pl: "length p < D" using p(2) by simp
  have nt: "\<not> s2_table v" using v s2_types by auto
  note rw = raw_cut [OF T(2) p(1) pl p(3,4) nt]
  show "s2_tree D r (h\<lparr>pmem := wr64 (pmem h) (slot t i) v\<rparr>)"
    using tr v p(2) radix_wf_cut [OF T(2) p(1) pl p(3,4) nt] rw by (auto simp: s2_tree_def host_ok_def entry_shape_def)
  have "fst (s2_abs D r (h\<lparr>pmem := wr64 (pmem h) (slot t i) v\<rparr>)) q = (if prefix (p @ [i]) q then None else fst (s2_abs D r h) q)" for q
  proof (cases "path_ok q \<and> length q = D")
    case True
    then have "q \<noteq> []" "q \<noteq> p @ [i]" using p(2) by auto
    with True rw [of q] s2_types show ?thesis by (auto simp: s2_abs_def)
  qed (auto simp: s2_abs_def)
  moreover have "snd (s2_abs D r (h\<lparr>pmem := wr64 (pmem h) (slot t i) v\<rparr>)) q = ((snd (s2_abs D r h))(p @ [i] := (if v = 0 then None else Some v))) q" for q
  proof (cases "path_ok q \<and> Suc (length q) = D")
    case True
    then have "q \<noteq> []" "prefix (p @ [i]) q \<longleftrightarrow> q = p @ [i]" using p(2) by (auto simp: prefix_def)
    with True rw [of q] v s2_types show ?thesis by (auto simp: s2_abs_def)
  qed (use p in \<open>auto simp: s2_abs_def\<close>)
  ultimately show "s2_abs D r (h\<lparr>pmem := wr64 (pmem h) (slot t i) v\<rparr>) =
       (\<lambda>q. if prefix (p @ [i]) q then None else fst (s2_abs D r h) q, (snd (s2_abs D r h))(p @ [i] := (if v = 0 then None else Some v)))"
    by (auto simp: prod_eq_iff fun_eq_iff)
qed

section \<open>Operations on the abstract state\<close>

definition s2_ok :: "relm_stage2 \<Rightarrow> host \<Rightarrow> bool" where
  "s2_ok st h \<longleftrightarrow> start_level (s2_geometry st) \<le> 1 \<and> s2_tree (4 - start_level (s2_geometry st)) (s2_root st) h"

definition s2_maps :: "relm_stage2 \<Rightarrow> host \<Rightarrow> s2_map_state" where
  "s2_maps st h = s2_abs (4 - start_level (s2_geometry st)) (s2_root st) h"

text \<open>The permission, attribute and sharing bits of a leaf (\<open>S2_LEAF_FLAGS_MASK\<close>).\<close>

definition s2_flags_ok :: "u64 \<Rightarrow> bool" where
  "s2_flags_ok flags \<longleftrightarrow> flags AND 0x00400000000003FC = flags"

lemma flags_no_type: "s2_flags_ok flags \<Longrightarrow> flags AND 3 = 0" "s2_flags_ok flags \<Longrightarrow> flags AND S2_PAGE_ADDR_MASK = 0"
proof -
  assume "s2_flags_ok flags"
  then have e: "flags AND 0x00400000000003FC = flags" by (simp only: s2_flags_ok_def)
  have f: "flags AND x = flags AND (0x00400000000003FC AND x)" for x
    using arg_cong [OF e [symmetric], of "\<lambda>y. y AND x"] by (simp only: and.assoc)
  show "flags AND 3 = 0" using f [of 3] by simp
  show "flags AND S2_PAGE_ADDR_MASK = 0" using f [of S2_PAGE_ADDR_MASK] by simp
qed

lemma leaf_entry_type:
  "s2_table (s2_leaf_entry pa flags 3)" "s2_flags_ok flags \<Longrightarrow> s2_block (s2_leaf_entry pa flags 2)"
proof -
  have o: "(x AND 3) OR 3 = (3 :: u64)" for x by (rule bit_word_eqI) (auto simp: bit_simps)
  show "s2_table (s2_leaf_entry pa flags 3)"
    by (simp add: s2_table_def s2_leaf_entry_def bit.conj_disj_distrib2 and.assoc o)
  assume "s2_flags_ok flags"
  then show "s2_block (s2_leaf_entry pa flags 2)"
    by (simp add: s2_block_def s2_leaf_entry_def bit.conj_disj_distrib2 and.assoc flags_no_type)
qed

lemma leaf_entry_addr:
  assumes "s2_flags_ok flags"
  shows "s2_leaf_entry pa flags l AND S2_PAGE_ADDR_MASK = pa AND S2_PAGE_ADDR_MASK"
  by (simp add: s2_leaf_entry_def bit.conj_disj_distrib2 and.assoc flags_no_type [OF assms])

lemma map_one_page:
  assumes ok: "s2_ok st h" and m: "s2_map_one ipa pa flags 3 st h = (res, st', h')"
  shows "s2_ok st' h'" "s2_geometry st' = s2_geometry st" "s2_root st' = s2_root st"
    "s2_maps st' h' = (if res = Inr () then ((fst (s2_maps st h))(s2_path (start_level (s2_geometry st)) 4 ipa \<mapsto> s2_leaf_entry pa flags 3),
       (snd (s2_maps st h))(s2_path (start_level (s2_geometry st)) 3 ipa := None)) else s2_maps st h)"
proof -
  let ?s = "start_level (s2_geometry st)" and ?r = "s2_root st"
  let ?D = "4 - ?s"
  have s: "?s \<le> 1" and tr: "s2_tree ?D ?r h" using ok by (simp_all add: s2_ok_def)
  obtain res1 h1 where d: "s2_descend [?s..<3] ipa ?r h = (res1, h1)" by (cases "s2_descend [?s..<3] ipa ?r h")
  have s3: "?s \<le> 3" using s by simp
  note da = descend_abs [OF tr refl s s3 order_refl d]
  have "s2_ok st' h' \<and> s2_geometry st' = s2_geometry st \<and> s2_root st' = ?r \<and>
    s2_maps st' h' = (if res = Inr () then ((fst (s2_maps st h))(s2_path ?s 4 ipa \<mapsto> s2_leaf_entry pa flags 3),
       (snd (s2_maps st h))(s2_path ?s 3 ipa := None)) else s2_maps st h)"
  proof (cases res1)
    case None
    then have "res = Inl ENOMEM" "st' = st" "h' = h1" using m d by (simp_all add: s2_map_one_def)
    then show ?thesis using None da(1,3) s by (simp add: s2_ok_def s2_maps_def)
  next
    case (Some t)
    have w: "s2_walk_path (pmem h1) ?r (s2_path ?s 3 ipa) = Some t" by (rule da(2) [OF Some])
    have ps: "s2_path ?s 4 ipa = s2_path ?s 3 ipa @ [s2_index ipa 3]" using s2_path_Suc [OF s3, of ipa] by (simp add: eval_nat_numeral)
    have pl: "Suc (length (s2_path ?s 3 ipa)) = ?D" "1 < ?D" using s by simp_all
    have vt: "s2_leaf_entry pa flags 3 = 0 \<or> s2_table (s2_leaf_entry pa flags 3)" "s2_leaf_entry pa flags 3 \<noteq> 0"
      using leaf_entry_type(1) [of pa flags] s2_types(2) by auto
    note pw = page_write [OF da(1) s2_path_ok(1) pl(1) w s2_index_less vt(1) pl(2)]
    have e: "res = Inr ()" "h' = h1\<lparr>pmem := wr64 (pmem h1) (slot t (s2_index ipa 3)) (s2_leaf_entry pa flags 3)\<rparr>"
      "s2_geometry st' = s2_geometry st" "s2_root st' = ?r"
      using m d Some by (auto simp: s2_map_one_def Let_def split: if_splits)
    show ?thesis
      using pw da(3) vt(2) e s Some by (simp add: s2_ok_def s2_maps_def ps)
  qed
  then show "s2_ok st' h'" "s2_geometry st' = s2_geometry st" "s2_root st' = s2_root st"
    "s2_maps st' h' = (if res = Inr () then ((fst (s2_maps st h))(s2_path ?s 4 ipa \<mapsto> s2_leaf_entry pa flags 3),
       (snd (s2_maps st h))(s2_path ?s 3 ipa := None)) else s2_maps st h)" by blast+
qed

lemma map_one_block:
  assumes ok: "s2_ok st h" and fl: "s2_flags_ok flags" and m: "s2_map_one ipa pa flags 2 st h = (res, st', h')"
  shows "s2_ok st' h'" "s2_geometry st' = s2_geometry st" "s2_root st' = s2_root st"
    "s2_maps st' h' = (if res = Inr () then (\<lambda>q. if prefix (s2_path (start_level (s2_geometry st)) 3 ipa) q then None else fst (s2_maps st h) q,
       (snd (s2_maps st h))(s2_path (start_level (s2_geometry st)) 3 ipa \<mapsto> s2_leaf_entry pa flags 2)) else s2_maps st h)"
proof -
  let ?s = "start_level (s2_geometry st)" and ?r = "s2_root st"
  let ?D = "4 - ?s"
  have s: "?s \<le> 1" and tr: "s2_tree ?D ?r h" using ok by (simp_all add: s2_ok_def)
  obtain res1 h1 where d: "s2_descend [?s..<2] ipa ?r h = (res1, h1)" by (cases "s2_descend [?s..<2] ipa ?r h")
  have s2: "?s \<le> 2" using s by simp
  note da = descend_abs [OF tr refl s s2 _ d]
  have "s2_ok st' h' \<and> s2_geometry st' = s2_geometry st \<and> s2_root st' = ?r \<and>
    s2_maps st' h' = (if res = Inr () then (\<lambda>q. if prefix (s2_path ?s 3 ipa) q then None else fst (s2_maps st h) q,
       (snd (s2_maps st h))(s2_path ?s 3 ipa \<mapsto> s2_leaf_entry pa flags 2)) else s2_maps st h)"
  proof (cases res1)
    case None
    then have "res = Inl ENOMEM" "st' = st" "h' = h1" using m d by (simp_all add: s2_map_one_def)
    then show ?thesis using None da(1,3) s by (simp add: s2_ok_def s2_maps_def)
  next
    case (Some t)
    have w: "s2_walk_path (pmem h1) ?r (s2_path ?s 2 ipa) = Some t" by (rule da(2) [OF _ Some]) simp
    have ps: "s2_path ?s 3 ipa = s2_path ?s 2 ipa @ [s2_index ipa 2]" using s2_path_Suc [OF s2, of ipa] by (simp add: eval_nat_numeral)
    have pl: "Suc (Suc (length (s2_path ?s 2 ipa))) = ?D" using s by simp
    have vt: "s2_leaf_entry pa flags 2 = 0 \<or> s2_block (s2_leaf_entry pa flags 2)" "s2_leaf_entry pa flags 2 \<noteq> 0"
      using leaf_entry_type(2) [OF fl, of pa] s2_types(3) by auto
    have t1: "s2_tree ?D ?r h1" by (rule da(1)) simp
    note bw = block_write [OF t1 s2_path_ok(1) pl w s2_index_less vt(1)]
    have e: "res = Inr ()" "h' = h1\<lparr>pmem := wr64 (pmem h1) (slot t (s2_index ipa 2)) (s2_leaf_entry pa flags 2)\<rparr>"
      "s2_geometry st' = s2_geometry st" "s2_root st' = ?r"
      using m d Some by (auto simp: s2_map_one_def Let_def split: if_splits)
    have ab: "s2_abs ?D ?r h1 = s2_maps st h" using da(3) by (simp add: s2_maps_def)
    have "s2_maps st' h' = s2_abs ?D ?r h'" by (simp add: s2_maps_def e)
    then have "s2_maps st' h' = (\<lambda>q. if prefix (s2_path ?s 3 ipa) q then None else fst (s2_maps st h) q,
       (snd (s2_maps st h))(s2_path ?s 3 ipa \<mapsto> s2_leaf_entry pa flags 2))"
      unfolding e(2) bw(2) ab ps using vt(2) by simp
    then show ?thesis using bw(1) e s by (simp add: s2_ok_def)
  qed
  then show "s2_ok st' h'" "s2_geometry st' = s2_geometry st" "s2_root st' = s2_root st"
    "s2_maps st' h' = (if res = Inr () then (\<lambda>q. if prefix (s2_path ?s 3 ipa) q then None else fst (s2_maps st h) q,
       (snd (s2_maps st h))(s2_path ?s 3 ipa \<mapsto> s2_leaf_entry pa flags 2)) else s2_maps st h)" by blast+
qed

section \<open>The walk\<close>

lemma level_sizes: "s2_level_size 3 = 0x1000" "s2_level_size 2 = 0x200000" "s2_level_size 1 = 0x40000000" "s2_level_size 0 = 0x8000000000"
  by (simp_all add: s2_level_size_def push_bit_eq_mult)

lemma raw_below:
  assumes "s2_walk_path m r (s2_path s l ipa) = None" "s \<le> l" "l < k"
  shows "raw m r (s2_path s k ipa) = 0" "s2_walk_path m r (s2_path s k ipa) = None"
proof -
  have pre: "s2_walk_path m r (s2_path s j ipa) = None" if "l \<le> j" for j
    using that
  proof (induction j rule: dec_induct)
    case (step j)
    then have "s2_path s (Suc j) ipa = s2_path s j ipa @ [s2_index ipa j]" using assms(2) by (intro s2_path_Suc) simp
    with step show ?case by (simp add: walk_append_None)
  qed (rule assms(1))
  show "s2_walk_path m r (s2_path s k ipa) = None" using assms(3) by (intro pre) simp
  have "s2_path s k ipa = s2_path s (k - 1) ipa @ [s2_index ipa (k - 1)]" using assms(2,3) s2_path_Suc [of s "k - 1" ipa] by simp
  then show "raw m r (s2_path s k ipa) = 0" using pre [of "k - 1"] assms(3) by (simp add: raw_snoc)
qed

text \<open>The leaf that covers an address, as the walk reports it.\<close>

definition s2_leaf_of :: "nat \<Rightarrow> s2_map_state \<Rightarrow> u64 \<Rightarrow> (u64 \<times> u64 \<times> u64) res" where
  "s2_leaf_of s a ipa =
     (case fst a (s2_path s 4 ipa) of
        Some e \<Rightarrow> Inr (e AND S2_PAGE_ADDR_MASK AND NOT 0xFFF, ipa AND NOT 0xFFF, 0x1000)
      | None \<Rightarrow>
       (case snd a (s2_path s 3 ipa) of
          Some e \<Rightarrow> Inr (e AND S2_PAGE_ADDR_MASK AND NOT 0x1FFFFF, ipa AND NOT 0x1FFFFF, 0x200000)
        | None \<Rightarrow> Inl ENOENT))"

lemma walk_levels_step:
  assumes "s2_walk_path m r (s2_path s l ipa) = Some t" "s \<le> l" "l < 4"
  shows "s2_walk_levels [l..<4] ipa t m =
     (let e = raw m r (s2_path s (Suc l) ipa) in
      if e = 0 then Inl ENOENT
      else if l < 3 \<and> s2_table e then s2_walk_levels [Suc l..<4] ipa (s2_addr e) m
      else if l = 0 \<or> l = 3 \<and> \<not> s2_table e \<or> l < 3 \<and> \<not> s2_block e then Inl EINVAL
      else Inr (e AND S2_PAGE_ADDR_MASK AND NOT (s2_level_size l - 1), ipa AND NOT (s2_level_size l - 1), s2_level_size l))"
proof -
  have "[l..<4] = l # [Suc l..<4]" using assms(3) by (rule upt_conv_Cons)
  moreover have "raw m r (s2_path s (Suc l) ipa) = rd64 m (slot t (s2_index ipa l))"
    using assms(1) s2_path_Suc [OF assms(2), of ipa] by (simp add: raw_snoc)
  ultimately show ?thesis by (auto simp: Let_def s2_table_def s2_block_def s2_addr_def)
qed

lemma walk_levels_spec:
  assumes tr: "s2_tree (4 - s) r h" and s: "s \<le> 1" and l: "s \<le> l" "l < 4"
    and w: "s2_walk_path (pmem h) r (s2_path s l ipa) = Some t"
  shows "s2_walk_levels [l..<4] ipa t (pmem h) = s2_leaf_of s (s2_abs (4 - s) r h) ipa"
  using l w
proof (induction "3 - l" arbitrary: l t)
  case 0
  then have l: "l = 3" by simp
  let ?e = "raw (pmem h) r (s2_path s 4 ipa)"
  have s4: "Suc 3 = (4::nat)" by simp
  have p3: "s2_path s 3 ipa = s2_path s 2 ipa @ [s2_index ipa 2]" using s2_path_Suc [of s 2 ipa] s by (simp add: eval_nat_numeral)
  have sh: "entry_shape (4 - s) (4 - s) ?e" using s2_treeD(4) [OF tr, of "s2_path s 4 ipa"] s by simp
  have "s2_table (raw (pmem h) r (s2_path s 3 ipa))" using 0(4) l p3 by (auto simp: walk_path_snoc split: if_splits)
  then have nb: "snd (s2_abs (4 - s) r h) (s2_path s 3 ipa) = None" using s2_types by (auto simp: s2_abs_def)
  show ?case
    using walk_levels_step [OF 0(4) 0(2,3)] sh nb s s2_types
    by (auto simp: l s4 entry_shape_def s2_leaf_of_def s2_abs_def level_sizes Let_def)
next
  case (Suc n)
  then have l: "l < 3" by simp
  let ?e = "raw (pmem h) r (s2_path s (Suc l) ipa)"
  have pl: "s2_path s (Suc l) ipa = s2_path s l ipa @ [s2_index ipa l]" by (rule s2_path_Suc [OF Suc.prems(1)])
  have ll: "length (s2_path s (Suc l) ipa) = Suc l - s" by simp
  have sh: "entry_shape (4 - s) (Suc l - s) ?e"
    using s2_treeD(4) [OF tr, of "s2_path s (Suc l) ipa"] Suc.prems(1) l by simp
  show ?case
  proof (cases "s2_table ?e")
    case True
    then have w1: "s2_walk_path (pmem h) r (s2_path s (Suc l) ipa) = Some (s2_addr ?e)" by (simp add: pl walk_path_snoc)
    have "s2_walk_levels [Suc l..<4] ipa (s2_addr ?e) (pmem h) = s2_leaf_of s (s2_abs (4 - s) r h) ipa"
      using Suc.hyps(2) Suc.prems(1) l by (intro Suc.hyps(1) [OF _ _ _ w1]) simp_all
    then show ?thesis using walk_levels_step [OF Suc.prems(3,1,2)] True l s2_types by (auto simp: Let_def)
  next
    case False
    then have w1: "s2_walk_path (pmem h) r (s2_path s (Suc l) ipa) = None" by (simp add: pl walk_path_snoc)
    have z: "raw (pmem h) r (s2_path s 4 ipa) = 0" using raw_below(1) [OF w1, of 4] Suc.prems(1) l by simp
    have pg: "fst (s2_abs (4 - s) r h) (s2_path s 4 ipa) = None" using z s2_types by (simp add: s2_abs_def)
    show ?thesis
    proof (cases "?e = 0")
      case True
      have "raw (pmem h) r (s2_path s 3 ipa) = 0"
        using True raw_below(1) [OF w1, of 3] Suc.prems(1) l by (cases "Suc l = 3") auto
      then have "snd (s2_abs (4 - s) r h) (s2_path s 3 ipa) = None" using s2_types by (simp add: s2_abs_def)
      then show ?thesis using walk_levels_step [OF Suc.prems(3,1,2)] True pg by (simp add: Let_def s2_leaf_of_def)
    next
      case nz: False
      with False sh have b: "s2_block ?e" "l = 2" using Suc.prems(1) l s by (auto simp: entry_shape_def)
      then have e3: "raw (pmem h) r (s2_path s 3 ipa) = ?e" by simp
      have "snd (s2_abs (4 - s) r h) (s2_path s 3 ipa) = Some ?e" using b s by (simp add: s2_abs_def)
      then show ?thesis
        using walk_levels_step [OF Suc.prems(3,1,2)] nz False b pg by (simp add: Let_def s2_leaf_of_def level_sizes)
    qed
  qed
qed

lemma walk_spec: "s2_ok st h \<Longrightarrow> s2_walk ipa st h = s2_leaf_of (start_level (s2_geometry st)) (s2_maps st h) ipa"
  unfolding s2_walk_def s2_maps_def
  by (rule walk_levels_spec) (auto simp: s2_ok_def s2_path_def)

section \<open>Unmapping\<close>

lemma level_size_neq: "l < L \<Longrightarrow> L \<le> 3 \<Longrightarrow> s2_level_size l \<noteq> s2_level_size L"
proof -
  assume "l < L" "L \<le> 3"
  then have "(l, L) \<in> {(0, 1), (0, 2), (0, 3), (1, 2), (1, 3), (2, 3)}" by auto
  then show ?thesis by (auto simp: level_sizes level_sizes [simplified])
qed

lemma find_leaf_at:
  assumes "s2_walk_path m r (s2_path s L ipa) = Some t" "L \<le> 3" "s \<le> l" "l \<le> L" "s2_walk_path m r (s2_path s l ipa) = Some u"
  shows "s2_find_leaf [l..<4] ipa (s2_level_size L) u m = (t, L)"
  using assms(3-5)
proof (induction "L - l" arbitrary: l u)
  case 0
  then have "l = L" "[l..<4] = l # [Suc l..<4]" using assms(2) by (simp_all add: upt_conv_Cons)
  with 0 assms(1) show ?case by simp
next
  case (Suc n)
  then have l: "l < L" "[l..<4] = l # [Suc l..<4]" using assms(2) by (simp_all add: upt_conv_Cons)
  have pl: "s2_path s (Suc l) ipa = s2_path s l ipa @ [s2_index ipa l]" by (rule s2_path_Suc [OF Suc.prems(1)])
  have "s2_walk_path m r (s2_path s (Suc l) ipa) \<noteq> None"
  proof
    assume n: "s2_walk_path m r (s2_path s (Suc l) ipa) = None"
    show False using raw_below(2) [OF n, of L] n assms(1) l Suc.prems(1) by (cases "Suc l = L") auto
  qed
  then have w: "s2_walk_path m r (s2_path s (Suc l) ipa) = Some (s2_addr (rd64 m (slot u (s2_index ipa l))))"
    using Suc.prems(3) by (auto simp: pl walk_path_snoc raw_snoc split: if_splits)
  have "s2_find_leaf [Suc l..<4] ipa (s2_level_size L) (s2_addr (rd64 m (slot u (s2_index ipa l)))) m = (t, L)"
    using Suc.hyps(2) Suc.prems(1) l by (intro Suc.hyps(1) [OF _ _ _ w]) simp_all
  then show ?case using l level_size_neq [OF l(1) assms(2)] by (simp add: s2_addr_def)
qed

text \<open>What an unmapping does to the abstract state when it succeeds.\<close>

definition s2_remove :: "nat \<Rightarrow> u64 \<Rightarrow> s2_map_state \<Rightarrow> s2_map_state" where
  "s2_remove s ipa a = (if fst a (s2_path s 4 ipa) \<noteq> None then ((fst a)(s2_path s 4 ipa := None), snd a)
     else (fst a, (snd a)(s2_path s 3 ipa := None)))"

text \<open>There are no pages below a block.\<close>

lemma block_no_pages:
  assumes ok: "s2_ok st h" and b: "snd (s2_maps st h) q = Some e" and pre: "prefix q q'"
  shows "fst (s2_maps st h) q' = None"
proof -
  let ?D = "4 - start_level (s2_geometry st)" and ?r = "s2_root st"
  have s: "start_level (s2_geometry st) \<le> 1" using ok by (simp add: s2_ok_def)
  have q: "Suc (length q) = ?D" "s2_block (raw (pmem h) ?r q)" using b by (auto simp: s2_maps_def s2_abs_def split: if_splits)
  show ?thesis
  proof (cases "path_ok q' \<and> length q' = ?D")
    case True
    obtain z where z: "q' = q @ z" using pre by (auto simp: prefix_def)
    then have "length z = Suc 0" using True q(1) s by simp
    then obtain i where i: "z = [i]" by (auto simp: length_Suc_conv)
    obtain p j where p: "q = p @ [j]" using q(1) s by (cases q rule: rev_cases) auto
    have "s2_walk_path (pmem h) ?r q = None" using q(2) s2_types(1) unfolding p walk_path_snoc by auto
    then have "raw (pmem h) ?r q' = 0" by (simp add: z i raw_snoc)
    then show ?thesis using s2_types by (simp add: s2_maps_def s2_abs_def)
  qed (auto simp: s2_maps_def s2_abs_def)
qed

lemma unmap_spec:
  assumes ok: "s2_ok st h" and u: "relm_stage2_unmap_page ipa (Some st) h = (res, ctx', h')"
  obtains st' where "ctx' = Some st'" "s2_ok st' h'" "s2_geometry st' = s2_geometry st" "s2_root st' = s2_root st"
    "s2_maps st' h' = (if res = Inr () then s2_remove (start_level (s2_geometry st)) ipa (s2_maps st h) else s2_maps st h)"
proof -
  let ?s = "start_level (s2_geometry st)" and ?r = "s2_root st" and ?a = "s2_maps st h"
  let ?D = "4 - ?s"
  have s: "?s \<le> 1" and tr: "s2_tree ?D ?r h" using ok by (simp_all add: s2_ok_def)
  note ws = walk_spec [OF ok, of ipa]
  have root: "s2_walk_path (pmem h) ?r (s2_path ?s ?s ipa) = Some ?r" by (simp add: s2_path_def)
  have ps: "s2_path ?s 4 ipa = s2_path ?s 3 ipa @ [s2_index ipa 3]" "s2_path ?s 3 ipa = s2_path ?s 2 ipa @ [s2_index ipa 2]"
    using s2_path_Suc [of ?s 3 ipa] s2_path_Suc [of ?s 2 ipa] s by (simp_all add: eval_nat_numeral)
  consider (page) e where "fst ?a (s2_path ?s 4 ipa) = Some e"
    | (block) e where "fst ?a (s2_path ?s 4 ipa) = None" "snd ?a (s2_path ?s 3 ipa) = Some e"
    | (none) "fst ?a (s2_path ?s 4 ipa) = None" "snd ?a (s2_path ?s 3 ipa) = None" by fastforce
  then show ?thesis
  proof cases
    case page
    then have "raw (pmem h) ?r (s2_path ?s 4 ipa) \<noteq> 0" using s2_types by (auto simp: s2_maps_def s2_abs_def split: if_splits)
    then obtain t where t: "s2_walk_path (pmem h) ?r (s2_path ?s 3 ipa) = Some t" unfolding ps(1) raw_snoc by (auto split: option.splits)
    have fl: "s2_find_leaf [?s..<4] ipa 0x1000 ?r (pmem h) = (t, 3)"
      using find_leaf_at [OF t order_refl order_refl _ root] s by (simp add: level_sizes)
    have pl: "Suc (length (s2_path ?s 3 ipa)) = ?D" "1 < ?D" using s by simp_all
    note pw = page_write [OF tr s2_path_ok(1) pl(1) t s2_index_less _ pl(2), of 0, simplified, of ipa 3]
    show ?thesis
    proof (cases "ipa AND NOT 0xFFF = ipa")
      case True
      let ?st = "st\<lparr>s2_pages_4kb := s2_pages_4kb st - 1, s2_total_mapped := s2_total_mapped st - 0x1000\<rparr>"
      have "res = Inr ()" "ctx' = Some ?st" "h' = h\<lparr>pmem := wr64 (pmem h) (slot t (s2_index ipa 3)) 0\<rparr>"
        using u ws page True fl by (auto simp: relm_stage2_unmap_page_def s2_leaf_of_def Let_def)
      then show ?thesis using pw page s ps(1)
        by (intro that [of ?st]) (auto simp: s2_ok_def s2_maps_def s2_remove_def)
    next
      case False
      then have "res = Inl EINVAL" "ctx' = Some st" "h' = h"
        using u ws page by (auto simp: relm_stage2_unmap_page_def s2_leaf_of_def)
      then show ?thesis using ok by (intro that [of st]) auto
    qed
  next
    case block
    then have b: "s2_block (raw (pmem h) ?r (s2_path ?s 3 ipa))" by (auto simp: s2_maps_def s2_abs_def split: if_splits)
    then have "raw (pmem h) ?r (s2_path ?s 3 ipa) \<noteq> 0" using s2_types by auto
    then obtain t where t: "s2_walk_path (pmem h) ?r (s2_path ?s 2 ipa) = Some t" unfolding ps(2) raw_snoc by (auto split: option.splits)
    have fl: "s2_find_leaf [?s..<4] ipa 0x200000 ?r (pmem h) = (t, 2)"
      using find_leaf_at [OF t _ order_refl _ root] s by (simp add: level_sizes)
    have pl: "Suc (Suc (length (s2_path ?s 2 ipa))) = ?D" using s by simp
    note bw = block_write [OF tr s2_path_ok(1) pl t s2_index_less, of 0, simplified, of ipa 2]
    have pg: "fst ?a q = None" if "prefix (s2_path ?s 3 ipa) q" for q using block_no_pages [OF ok block(2) that] .
    show ?thesis
    proof (cases "ipa AND NOT 0x1FFFFF = ipa")
      case True
      let ?st = "st\<lparr>s2_pages_2mb := s2_pages_2mb st - 1, s2_total_mapped := s2_total_mapped st - 0x200000\<rparr>"
      have e: "res = Inr ()" "ctx' = Some ?st" "h' = h\<lparr>pmem := wr64 (pmem h) (slot t (s2_index ipa 2)) 0\<rparr>"
        using u ws block True fl by (auto simp: relm_stage2_unmap_page_def s2_leaf_of_def Let_def)
      have "s2_maps ?st h' = (\<lambda>q. if prefix (s2_path ?s 3 ipa) q then None else fst ?a q, (snd ?a)(s2_path ?s 3 ipa := None))"
        unfolding s2_maps_def e(3) using bw(2) ps(2) by simp
      moreover have "(\<lambda>q. if prefix (s2_path ?s 3 ipa) q then None else fst ?a q) = fst ?a" using pg by (auto simp: fun_eq_iff)
      ultimately show ?thesis using e bw(1) block s by (intro that [of ?st]) (auto simp: s2_ok_def s2_remove_def)
    next
      case False
      then have "res = Inl EINVAL" "ctx' = Some st" "h' = h"
        using u ws block by (auto simp: relm_stage2_unmap_page_def s2_leaf_of_def)
      then show ?thesis using ok by (intro that [of st]) auto
    qed
  next
    case none
    then have e: "res = Inr ()" "ctx' = Some st" "h' = h" using u ws by (auto simp: relm_stage2_unmap_page_def s2_leaf_of_def)
    have "(snd ?a)(s2_path ?s 3 ipa := None) = snd ?a" using none(2) by auto
    then show ?thesis using ok e none by (intro that [of st]) (auto simp: s2_remove_def)
  qed
qed

section \<open>Runs of operations\<close>

datatype s2_op = S2_Map u64 u64 u64 | S2_Huge u64 u64 u64 | S2_Unmap u64

fun s2_exec :: "s2_op \<Rightarrow> relm_stage2 option \<Rightarrow> host \<Rightarrow> unit res \<times> relm_stage2 option \<times> host" where
  "s2_exec (S2_Map ipa pa flags) ctx h = relm_stage2_map_page ipa pa flags ctx h"
| "s2_exec (S2_Huge ipa pa flags) ctx h = relm_stage2_map_huge_page ipa pa flags ctx h"
| "s2_exec (S2_Unmap ipa) ctx h = relm_stage2_unmap_page ipa ctx h"

fun s2_op_ok :: "s2_op \<Rightarrow> bool" where
  "s2_op_ok (S2_Huge ipa pa flags) \<longleftrightarrow> s2_flags_ok flags"
| "s2_op_ok _ \<longleftrightarrow> True"

text \<open>The specification: a page and a block are entered in their maps, a page takes the place of a block and a block that of
  the pages below it, and an operation that fails changes nothing.\<close>

fun s2_spec :: "nat \<Rightarrow> s2_op \<Rightarrow> s2_map_state \<Rightarrow> s2_map_state" where
  "s2_spec s (S2_Map ipa pa flags) a = ((fst a)(s2_path s 4 ipa \<mapsto> s2_leaf_entry pa flags 3), (snd a)(s2_path s 3 ipa := None))"
| "s2_spec s (S2_Huge ipa pa flags) a =
     (\<lambda>q. if prefix (s2_path s 3 ipa) q then None else fst a q, (snd a)(s2_path s 3 ipa \<mapsto> s2_leaf_entry pa flags 2))"
| "s2_spec s (S2_Unmap ipa) a = s2_remove s ipa a"

fun s2_runs :: "s2_op list \<Rightarrow> relm_stage2 option \<Rightarrow> host \<Rightarrow> unit res list \<times> relm_stage2 option \<times> host" where
  "s2_runs [] ctx h = ([], ctx, h)"
| "s2_runs (x # xs) ctx h =
     (case s2_exec x ctx h of (r, ctx, h) \<Rightarrow> (case s2_runs xs ctx h of (rs, ctx, h) \<Rightarrow> (r # rs, ctx, h)))"

fun s2_spec_runs :: "nat \<Rightarrow> (s2_op \<times> unit res) list \<Rightarrow> s2_map_state \<Rightarrow> s2_map_state" where
  "s2_spec_runs s [] a = a"
| "s2_spec_runs s ((x, r) # xs) a = s2_spec_runs s xs (if r = Inr () then s2_spec s x a else a)"

definition s2_translate :: "nat \<Rightarrow> s2_map_state \<Rightarrow> u64 \<Rightarrow> u64 res" where
  "s2_translate s a ipa =
     (case fst a (s2_path s 4 ipa) of
        Some e \<Rightarrow> Inr ((e AND S2_PAGE_ADDR_MASK) + (ipa AND 0xFFF))
      | None \<Rightarrow> (case snd a (s2_path s 3 ipa) of
          Some e \<Rightarrow> Inr ((e AND S2_PAGE_ADDR_MASK AND NOT 0x1FFFFF) + (ipa AND 0x1FFFFF))
        | None \<Rightarrow> Inl ENOENT))"

lemma map_spec:
  assumes ok: "s2_ok st h" and m: "s2_map ipa pa flags 3 (Some st) h = (res, ctx', h')"
  shows "\<exists>st'. ctx' = Some st' \<and> s2_ok st' h' \<and> s2_geometry st' = s2_geometry st \<and> s2_root st' = s2_root st \<and>
    s2_maps st' h' = (if res = Inr () then s2_spec (start_level (s2_geometry st)) (S2_Map ipa pa flags) (s2_maps st h) else s2_maps st h)"
proof (cases "s2_map_one ipa pa flags 3 st h")
  case (fields r1 st1 h1)
  note mp = map_one_page [OF ok fields]
  show ?thesis using m ok mp fields unfolding s2_map_def by (auto split: if_splits)
qed

lemma huge_spec:
  assumes ok: "s2_ok st h" and fl: "s2_flags_ok flags" and m: "relm_stage2_map_huge_page ipa pa flags (Some st) h = (res, ctx', h')"
  shows "\<exists>st'. ctx' = Some st' \<and> s2_ok st' h' \<and> s2_geometry st' = s2_geometry st \<and> s2_root st' = s2_root st \<and>
    s2_maps st' h' = (if res = Inr () then s2_spec (start_level (s2_geometry st)) (S2_Huge ipa pa flags) (s2_maps st h) else s2_maps st h)"
proof (cases "s2_map_one ipa pa flags 2 st h")
  case (fields r1 st1 h1)
  note mp = map_one_block [OF ok fl fields]
  show ?thesis using m ok mp fields unfolding s2_map_def relm_stage2_map_huge_page_def by (auto split: if_splits)
qed

lemma exec_spec:
  assumes ok: "s2_ok st h" and x: "s2_op_ok x" and e: "s2_exec x (Some st) h = (res, ctx', h')"
  shows "\<exists>st'. ctx' = Some st' \<and> s2_ok st' h' \<and> s2_geometry st' = s2_geometry st \<and> s2_root st' = s2_root st \<and>
    s2_maps st' h' = (if res = Inr () then s2_spec (start_level (s2_geometry st)) x (s2_maps st h) else s2_maps st h)"
proof (cases x)
  case (S2_Map ipa pa flags)
  then have "s2_map ipa pa flags 3 (Some st) h = (res, ctx', h')" using e by (simp add: relm_stage2_map_page_def)
  from map_spec [OF ok this] show ?thesis unfolding S2_Map .
next
  case (S2_Huge ipa pa flags)
  then have "s2_flags_ok flags" "relm_stage2_map_huge_page ipa pa flags (Some st) h = (res, ctx', h')" using x e by simp_all
  from huge_spec [OF ok this] show ?thesis unfolding S2_Huge .
next
  case (S2_Unmap ipa)
  show ?thesis
    by (rule unmap_spec [OF ok, of ipa res ctx' h']) (use S2_Unmap e in auto)
qed

lemma runs_spec:
  assumes "s2_ok st h" "list_all s2_op_ok xs" "s2_runs xs (Some st) h = (rs, ctx', h')"
  shows "\<exists>st'. ctx' = Some st' \<and> s2_ok st' h' \<and> s2_geometry st' = s2_geometry st \<and>
    s2_maps st' h' = s2_spec_runs (start_level (s2_geometry st)) (zip xs rs) (s2_maps st h)"
  using assms
proof (induction xs arbitrary: st h rs)
  case (Cons x xs)
  obtain r ctx1 h1 where e: "s2_exec x (Some st) h = (r, ctx1, h1)" by (cases "s2_exec x (Some st) h") auto
  obtain st1 where st1: "ctx1 = Some st1" "s2_ok st1 h1" "s2_geometry st1 = s2_geometry st"
      "s2_maps st1 h1 = (if r = Inr () then s2_spec (start_level (s2_geometry st)) x (s2_maps st h) else s2_maps st h)"
    using exec_spec [OF Cons.prems(1) _ e] Cons.prems(2) by auto
  obtain rs1 where rs: "rs = r # rs1" "s2_runs xs (Some st1) h1 = (rs1, ctx', h')"
    using Cons.prems(3) e st1(1) by (auto split: prod.splits)
  from Cons.IH [OF st1(2) _ rs(2)] Cons.prems(2) st1(3,4) rs(1) show ?case by auto
qed auto

lemma and_plus_not: "x - (x AND NOT m) = x AND (m :: u64)"
proof -
  have "(x AND m) + (x AND NOT m) = (x AND m) OR (x AND NOT m)"
    by (rule disjunctive_add) (auto simp: bit_simps)
  also have "\<dots> = x" by (rule bit_word_eqI) (auto simp: bit_simps)
  finally show ?thesis by (simp add: algebra_simps)
qed

lemma lookup_spec:
  assumes "s2_ok st h"
  shows "relm_stage2_get_mapping ipa (Some st) h = s2_translate (start_level (s2_geometry st)) (s2_maps st h) ipa"
proof -
  have "e AND S2_PAGE_ADDR_MASK AND NOT 0xFFF = e AND S2_PAGE_ADDR_MASK" for e :: u64 by (simp add: and.assoc)
  then show ?thesis
    using and_plus_not [of ipa "0xFFF"] and_plus_not [of ipa "0x1FFFFF"]
    by (simp add: relm_stage2_get_mapping_def walk_spec [OF assms] s2_leaf_of_def s2_translate_def split: option.split)
qed

text \<open>A new context translates nothing.\<close>

lemma fresh_context:
  assumes h: "host_ok h" "\<forall>f\<in>set (pool h). f < 2 ^ 48" and c: "relm_stage2_context_create g (Some gm) vmid h = (Inr st, h')"
  shows "s2_ok st h'" "s2_geometry st = gm" "s2_maps st h' = (\<lambda>_. None, \<lambda>_. None)"
    "s2_geometry_valid gm" "set (pool h') = set (pool h) - {s2_root st}" "s2_root st \<in> set (pool h)"
proof -
  obtain v where v: "relm_stage2_encode_vtcr (Some gm) = Inr v" using c by (auto simp: relm_stage2_context_create_def split: sum.splits)
  then show val: "s2_geometry_valid gm" by (auto simp: relm_stage2_encode_vtcr_def split: if_splits)
  obtain h0 where k: "kzalloc h = (True, h0)"
    using c v by (auto simp: relm_stage2_context_create_def Let_def split: prod.splits bool.splits if_splits)
  then have h0: "pool h0 = pool h" "pmem h0 = pmem h" using kzalloc_simps [of h] by simp_all
  have "pool h0 \<noteq> []"
  proof
    assume "pool h0 = []"
    then show False using c v k by (auto simp: relm_stage2_context_create_def s2_alloc_table_def Let_def split: if_splits)
  qed
  then obtain r fs where p: "pool h = r # fs" using h0 by (metis list.exhaust)
  have st: "s2_root st = r" "s2_geometry st = gm" and h': "pool h' = fs" "pmem h' = zero_page (pmem h) r"
    using c v k h0 p by (auto simp: relm_stage2_context_create_def s2_alloc_table_def Let_def split: if_splits)
  show "s2_geometry st = gm" by (rule st(2))
  let ?D = "4 - start_level gm"
  have r: "frame_ok r" "r \<notin> set fs" using h p by (auto simp: host_ok_def)
  show "set (pool h') = set (pool h) - {s2_root st}" "s2_root st \<in> set (pool h)" using p h' st r by auto
  have s: "start_level gm \<le> 1" using val by (simp add: s2_geometry_valid_def)
  have z: "rd64 (pmem h') (slot r i) = 0" if "unat i < 512" for i using r that by (simp add: h' rd64_zero_page frame_simps)
  have w: "s2_walk_path (pmem h') r q = (if q = [] then Some r else None)" if "path_ok q" for q
    using that z s2_types(2) by (cases q) (auto simp: Let_def)
  have rw: "raw (pmem h') r q = 0" if qs: "path_ok q" "q \<noteq> []" for q
  proof -
    obtain q' j where q: "q = q' @ [j]" using qs(2) by (cases q rule: rev_cases) auto
    with qs show ?thesis using w [of q'] z [of j] by (simp add: raw_snoc)
  qed
  have "s2_wf ?D (pmem h') r (set fs)" unfolding radix_wf_def tables_def using r by (auto simp: w split: if_splits)
  then have "s2_tree ?D r h'" using h p h' rw by (auto simp: s2_tree_def host_ok_def entry_shape_def)
  then show "s2_ok st h'" using s st by (simp add: s2_ok_def)
  have ne: "raw (pmem h') r q = 0" if q: "path_ok q" "length q = ?D \<or> Suc (length q) = ?D" for q
  proof (rule rw [OF q(1)])
    show "q \<noteq> []" using q(2) s by auto
  qed
  show "s2_maps st h' = (\<lambda>_. None, \<lambda>_. None)" using ne s2_types st by (auto simp: s2_maps_def s2_abs_def fun_eq_iff)
qed

section \<open>Teardown\<close>

lemma s2_free_frames:
  "s2_free_levels n t h = h\<lparr>pool := pool h @ radix_frames s2_table s2_addr (Suc n) (pmem h) t\<rparr>"
proof (induction n arbitrary: t h)
  case 0
  show ?case by (simp add: free_page_def del: radix_frames.simps)
next
  case (Suc n)
  let ?f = "\<lambda>i. case entry_of s2_table (pmem h) t (word_of_nat i) of None \<Rightarrow> [] | Some e \<Rightarrow> radix_frames s2_table s2_addr (Suc n) (pmem h) (s2_addr e)"
  let ?g = "\<lambda>i h. let entry = rd64 (pmem h) (slot t (word_of_nat i)) in
      if entry AND S2_DESC_TYPE_MASK = S2_DESC_TABLE then s2_free_levels n (entry AND S2_TABLE_ADDR_MASK) h else h"
  have "fold ?g [0..<512] h = h\<lparr>pool := pool h @ concat (map ?f [0..<512])\<rparr>"
  proof (rule fold_append_pool)
    fix i :: nat and h1 :: host assume m: "pmem h1 = pmem h"
    have "?g i h1 = (if s2_table (rd64 (pmem h) (slot t (word_of_nat i)))
        then s2_free_levels n (s2_addr (rd64 (pmem h) (slot t (word_of_nat i)))) h1 else h1)"
      by (simp add: Let_def s2_table_def s2_addr_def m)
    then show "?g i h1 = h1\<lparr>pool := pool h1 @ ?f i\<rparr>" unfolding Suc.IH m by (auto simp: entry_of_def Let_def)
  qed simp
  then show ?case
    unfolding s2_free_levels.simps radix_frames.simps(2) [of _ _ "Suc n"] by (simp add: free_page_def)
qed

end
