(* ===== verification/Relm_Stage2_Props.thy ===== *)
theory Relm_Stage2_Props
  imports Relm_Stage2
begin

text \<open>
  Properties of the stage-2 back end (src/arch/arm64/stage2.c): every run of map and unmap calls on a new context refines
  the specification of Relm_Stage2, teardown is exact, guest RAM is mapped around the MMIO windows, the VTCR encoding
  gives the geometry back, and what mixing pages and blocks in one range does.
\<close>

section \<open>Runs and teardown\<close>


text \<open>A host with a registered runtime, a 39-bit geometry and the context created on it.\<close>

definition demo_s2_runtime :: stage2_runtime where
  "demo_s2_runtime = \<lparr>s2_runtime = \<lparr>host_pfr0_el1 = 0x100, host_mmfr0_el1 = 5, host_mmfr1_el1 = 0x20, invalidate = Some (\<lambda>_ _. Inr ())\<rparr>,
     s2_limits = \<lparr>ipa_bits = 48, pa_bits = 48, start_level = 0, vmid_bits = 16\<rparr>, s2_runtime_ready = True\<rparr>"

definition demo_s2_geometry :: relm_stage2_geometry where
  "demo_s2_geometry = \<lparr>ipa_bits = 39, pa_bits = 48, start_level = 1, vmid_bits = 16\<rparr>"

definition demo_s2 :: relm_stage2 where
  "demo_s2 = \<lparr>s2_root = 0x1000, s2_root_pa = 0x1000, s2_geometry = demo_s2_geometry, s2_vtcr_el2 = 0x800D3559, s2_vmid = 7,
     s2_pages_4kb = 0, s2_pages_2mb = 0, s2_pages_1gb = 0, s2_total_mapped = 0\<rparr>"

definition demo_s2_host :: host where
  "demo_s2_host = \<lparr>pool = [0x2000, 0x3000, 0x4000, 0x5000], kmem = [True], pmem = zero_page (\<lambda>_. 0) 0x1000\<rparr>"

lemma demo_s2_create: "relm_stage2_context_create demo_s2_runtime (Some demo_s2_geometry) 7 demo_host = (Inr demo_s2, demo_s2_host)"
  by (simp add: relm_stage2_context_create_def relm_stage2_encode_vtcr_def s2_geometry_valid_def s2_pa_encoding_def demo_s2_runtime_def
      demo_s2_geometry_def demo_s2_def demo_host_def demo_s2_host_def kzalloc_def s2_alloc_table_def Let_def)

lemma demo_host_low: "\<forall>f\<in>set (pool demo_host). f < 2 ^ 48"
  by (simp add: demo_host_def)

lemmas demo_s2_facts = demo_host_ok demo_host_low demo_s2_create

text \<open>A mapping whose arguments are accepted succeeds when one frame is free for every level below the root.\<close>

lemma descend_succeeds:
  "length ls \<le> length (pool h) \<Longrightarrow>
     \<exists>t h'. s2_descend ls ipa table h = (Some t, h') \<and> length (pool h) \<le> length (pool h') + length ls"
proof (induction ls arbitrary: table h)
  case (Cons l ls)
  obtain f fs where p: "pool h = f # fs" using Cons.prems by (cases "pool h") auto
  have "\<exists>t h1. s2_get_or_create (slot table (s2_index ipa l)) h = (Some t, h1) \<and> length (pool h) \<le> Suc (length (pool h1))"
    unfolding s2_get_or_create_def s2_alloc_table_def get_zeroed_page_simps(2) [OF p] using p by (auto simp: Let_def)
  then obtain t h1 where g: "s2_get_or_create (slot table (s2_index ipa l)) h = (Some t, h1)" "length (pool h) \<le> Suc (length (pool h1))" by blast
  then have "length ls \<le> length (pool h1)" using Cons.prems by simp
  from Cons.IH [OF this, of t] g show ?case by auto
qed simp

lemma map_succeeds:
  assumes "s2_page_aligned ipa" "s2_page_aligned pa" "flags AND S2_ACCESS_READ \<noteq> 0" "L - start_level (s2_geometry st) \<le> length (pool h)"
    "s2_range_fits ipa (s2_level_size L) (ipa_bits (s2_geometry st))" "s2_range_fits pa (s2_level_size L) (pa_bits (s2_geometry st))"
  obtains st' h' where "s2_map ipa pa flags L (Some st) h = (Inr (), Some st', h')" "s2_geometry st' = s2_geometry st"
    "length (pool h) \<le> length (pool h') + (L - start_level (s2_geometry st))"
proof -
  from descend_succeeds [of "[start_level (s2_geometry st)..<L]" h ipa "s2_root st"] assms(4) that assms show ?thesis
    by (auto simp: s2_map_def s2_map_one_def Let_def split: if_splits)
qed

lemmas demo_s2_args = s2_page_aligned_def s2_range_fits_def demo_s2_def demo_s2_geometry_def demo_s2_host_def level_sizes

lemma demo_s2_run: "fst (s2_runs [S2_Map 0x7000 0x9000 0xC0] (Some demo_s2) demo_s2_host) = [Inr ()]"
  by code_simp


text \<open>After any run, tearing the context down gives back the frames of its tables, each once, and no other; when the EL2
  runtime refuses the invalidation nothing is freed.\<close>

theorem stage2_teardown_exact:
  assumes "host_ok h" and "\<forall>f\<in>set (pool h). f < 2 ^ 48" and "relm_stage2_context_create g (Some gm) vmid h = (Inr st, h1)"
    and "list_all s2_op_ok xs" and "s2_runs xs (Some st) h1 = (rs, Some st2, h2)"
    and "relm_stage2_context_destroy g2 (Some st2) h2 = Some (r, h3)"
  shows "if r = Inr () then host_ok h3 \<and> set (pool h3) = tables s2_table s2_addr (4 - start_level gm) (pmem h2) (s2_root st2) \<union> set (pool h2)
    else h3 = h2"
proof -
  note f = fresh_context [OF assms(1-3)]
  have st2: "s2_ok st2 h2" "s2_geometry st2 = gm" using runs_spec [OF f(1) assms(4,5)] f(2) by auto
  let ?D = "4 - start_level gm"
  have tr: "s2_tree ?D (s2_root st2) h2" "start_level gm \<le> 1" using st2 by (simp_all add: s2_ok_def)
  note T = s2_treeD [OF tr(1)]
  have tk: "tree_ok s2_table s2_addr (\<lambda>_. False) ?D (s2_root st2) h2" using T(1,2) by (simp add: tree_ok_def plain_def)
  have "Suc (3 - start_level gm) = ?D" using tr(2) by simp
  then have "s2_free_table_tree (s2_root st2) (start_level gm) h2 =
      h2\<lparr>pool := pool h2 @ radix_frames (\<lambda>e. s2_table e \<and> \<not> False) s2_addr ?D (pmem h2) (s2_root st2)\<rparr>"
    by (simp add: s2_free_table_tree_def s2_free_frames)
  note td = teardown_ok [OF tk this]
  show ?thesis
    using assms(6) st2(2) td by (auto simp: relm_stage2_context_destroy_def tree_frames_def split: option.splits sum.splits)
qed

theorem stage2_teardown_exact_witness:
  "set (pool (snd (the (relm_stage2_context_destroy demo_s2_runtime (Some demo_s2) demo_s2_host)))) =
     tables s2_table s2_addr 3 (pmem demo_s2_host) 0x1000 \<union> {0x2000, 0x3000, 0x4000, 0x5000}"
proof -
  have v: "relm_stage2_encode_vttbr demo_s2_geometry 0x1000 7 = Inr 0x7000000001000"
    by (simp add: relm_stage2_encode_vttbr_def demo_s2_geometry_def s2_geometry_valid_def s2_pa_encoding_def s2_page_aligned_def s2_range_fits_def Let_def)
  obtain h3 where d: "relm_stage2_context_destroy demo_s2_runtime (Some demo_s2) demo_s2_host = Some (Inr (), h3)"
    using v by (simp add: relm_stage2_context_destroy_def s2_invalidate_def demo_s2_def demo_s2_runtime_def)
  from stage2_teardown_exact [OF demo_s2_facts _ _ d, of "[]" "[]"] show ?thesis
    using d by (simp add: demo_s2_geometry_def demo_s2_def demo_s2_host_def)
qed

section \<open>Pages and blocks in one range\<close>

lemma index_block: "drop_bit 21 a = drop_bit 21 b \<Longrightarrow> l \<le> 2 \<Longrightarrow> s2_index a l = s2_index b l"
proof -
  assume e: "drop_bit 21 a = drop_bit 21 b" and l: "l \<le> 2"
  then have "12 + 9 * (3 - l) = 9 * (2 - l) + 21" by simp
  then have "drop_bit (12 + 9 * (3 - l)) x = drop_bit (9 * (2 - l)) (drop_bit 21 x)" for x :: u64 by (simp only: drop_bit_drop_bit)
  then show ?thesis by (simp only: s2_index_def e)
qed

lemma path_block: "drop_bit 21 a = drop_bit 21 b \<Longrightarrow> s2_path s 3 a = s2_path s 3 b"
  unfolding s2_path_def by (rule map_cong [OF refl]) (rule index_block, simp_all)

lemma bit_1FF: "bit (0x1FF :: int) k \<longleftrightarrow> k < 9"
proof -
  have "(0x1FF :: int) = mask 9" by (simp add: mask_eq_exp_minus_1)
  then show ?thesis by (simp only: bit_mask_iff) simp
qed

lemma bit_of_index: "n < 9 * (4 - s) \<Longrightarrow> s \<le> 3 \<Longrightarrow>
    bit (a :: u64) (12 + n) \<longleftrightarrow> bit (s2_index a (3 - n div 9)) (n mod 9)"
proof -
  assume n: "n < 9 * (4 - s)" "s \<le> 3"
  then have d: "n div 9 \<le> 3" by (simp add: less_mult_imp_div_less div_le_mono flip: less_Suc_eq_le)
  have "12 + 9 * (3 - (3 - n div 9)) + n mod 9 = 12 + n" using d by simp
  moreover have "n mod 9 < 9" by simp
  then have "n mod 9 < 64" by linarith
  ultimately show ?thesis by (simp add: s2_index_def bit_simps bit_1FF add.commute)
qed

lemma path_page:
  assumes "s2_path s 4 a = s2_path s 4 b" "s \<le> 1" "drop_bit (48 - 9 * s) a = drop_bit (48 - 9 * s) b"
  shows "drop_bit 12 a = (drop_bit 12 b :: u64)"
proof (rule bit_word_eqI)
  fix n assume "n < LENGTH(64)"
  show "bit (drop_bit 12 a) n = bit (drop_bit 12 b) n"
  proof (cases "n < 9 * (4 - s)")
    case True
    let ?l = "3 - n div 9"
    have "s \<le> ?l" "?l < 4" using True by linarith+
    then have "s2_index a ?l = s2_index b ?l" using assms(1) by (auto simp: s2_path_def)
    with True show ?thesis using bit_of_index [OF True] assms(2) by (simp add: bit_simps)
  next
    case False
    then have "48 - 9 * s \<le> 12 + n" by linarith
    then obtain k where k: "12 + n = 48 - 9 * s + k" by (auto simp: le_iff_add)
    show ?thesis using arg_cong [OF assms(3), of "\<lambda>x. bit x k"] k by (simp add: bit_simps)
  qed
qed

lemma block_above: "drop_bit 21 a = drop_bit 21 b \<Longrightarrow> s \<le> 1 \<Longrightarrow> drop_bit (48 - 9 * s) a = drop_bit (48 - 9 * s) (b :: u64)"
proof -
  assume e: "drop_bit 21 a = drop_bit 21 b" and "s \<le> 1"
  then have "48 - 9 * s = 27 - 9 * s + 21" by simp
  then show ?thesis by (simp only: e flip: drop_bit_drop_bit)
qed

lemma pages_differ:
  assumes "drop_bit 21 a = drop_bit 21 (b :: u64)" "drop_bit 12 a \<noteq> drop_bit 12 b" "s \<le> 1"
  shows "s2_path s 4 a \<noteq> s2_path s 4 b"
  using path_page [of s a b] block_above [OF assms(1,3)] assms(2,3) by blast

text \<open>A 4 KiB page mapped inside a 2 MiB block takes the whole block with it: the other pages of the block are no longer
  mapped, though only one page was named and the call reports success.\<close>

theorem page_in_block_drops_block:
  assumes "host_ok h" and "\<forall>f\<in>set (pool h). f < 2 ^ 48" and "relm_stage2_context_create g (Some gm) vmid h = (Inr st, h1)"
    and "s2_flags_ok f" and "s2_runs [S2_Huge ipa pa f, S2_Map a pa1 f1] (Some st) h1 = ([Inr (), Inr ()], ctx, h2)"
    and "drop_bit 21 a = drop_bit 21 ipa" and "drop_bit 21 b = drop_bit 21 ipa" and "drop_bit 12 a \<noteq> drop_bit 12 b"
  shows "relm_stage2_get_mapping b ctx h2 = Inl ENOENT"
proof -
  note fr = fresh_context [OF assms(1-3)]
  let ?s = "start_level gm"
  obtain st' where st': "ctx = Some st'" "s2_ok st' h2" "s2_geometry st' = gm"
      "s2_maps st' h2 = s2_spec ?s (S2_Map a pa1 f1) (s2_spec ?s (S2_Huge ipa pa f) (\<lambda>_. None, \<lambda>_. None))"
    using runs_spec [OF fr(1) _ assms(5)] assms(4) fr(2,3) by auto
  have s: "?s \<le> 1" using fr(4) by (simp add: s2_geometry_valid_def)
  have "s2_path ?s 4 a \<noteq> s2_path ?s 4 b" using pages_differ assms(6-8) s by metis
  moreover have "s2_path ?s 3 a = s2_path ?s 3 b" by (rule path_block) (simp add: assms(6,7))
  ultimately have "fst (s2_maps st' h2) (s2_path ?s 4 b) = None" "snd (s2_maps st' h2) (s2_path ?s 3 b) = None"
    by (simp_all add: st'(4))
  then show ?thesis using lookup_spec [OF st'(2), of b] st' by (simp add: s2_translate_def)
qed

lemma demo_s2_mixed: "fst (s2_runs [S2_Huge 0x200000 0x400000 0xC0, S2_Map 0x201000 0x9000 0xC0] (Some demo_s2) demo_s2_host) = [Inr (), Inr ()]"
proof -
  obtain st1 h1 where m: "s2_map 0x200000 0x400000 0xC0 2 (Some demo_s2) demo_s2_host = (Inr (), Some st1, h1)"
      "s2_geometry st1 = demo_s2_geometry" "3 \<le> length (pool h1)"
    by (rule map_succeeds [of "0x200000" "0x400000" "0xC0" 2 demo_s2 demo_s2_host]) (simp_all add: demo_s2_args)
  obtain st2 h2 where "s2_map 0x201000 0x9000 0xC0 3 (Some st1) h1 = (Inr (), Some st2, h2)"
    by (rule map_succeeds [of "0x201000" "0x9000" "0xC0" 3 st1 h1]) (use m(2,3) in \<open>simp_all add: demo_s2_args\<close>)
  with m(1) show ?thesis by (simp add: relm_stage2_map_huge_page_def relm_stage2_map_page_def)
qed

theorem page_in_block_drops_block_witness:
  "relm_stage2_get_mapping 0x202123
     (fst (snd (s2_runs [S2_Huge 0x200000 0x400000 0xC0, S2_Map 0x201000 0x9000 0xC0] (Some demo_s2) demo_s2_host)))
     (snd (snd (s2_runs [S2_Huge 0x200000 0x400000 0xC0, S2_Map 0x201000 0x9000 0xC0] (Some demo_s2) demo_s2_host))) = Inl ENOENT"
proof -
  let ?xs = "[S2_Huge 0x200000 0x400000 0xC0, S2_Map 0x201000 0x9000 0xC0]"
  obtain rs ctx h2 where r: "s2_runs ?xs (Some demo_s2) demo_s2_host = (rs, ctx, h2)" by (metis surj_pair)
  then have "rs = [Inr (), Inr ()]" using demo_s2_mixed by simp
  with r have m: "s2_runs ?xs (Some demo_s2) demo_s2_host = ([Inr (), Inr ()], ctx, h2)" by simp
  show ?thesis
    using page_in_block_drops_block [OF demo_s2_facts _ m, of "0x202123"] r by (simp add: s2_flags_ok_def)
qed

lemma or_and_zero: "(a OR b) AND m = 0 \<Longrightarrow> a AND m = (0 :: u64)"
  by (metis and.commute bit.conj_disj_distrib2 or_eq_0_iff)

lemma fits_bound: "s2_range_fits a sz b \<Longrightarrow> b \<le> 48 \<Longrightarrow> unat a + unat sz \<le> 2 ^ b"
proof -
  assume f: "s2_range_fits a sz b" and b: "b \<le> 48"
  let ?l = "push_bit b 1 :: u64"
  have "(2 :: nat) ^ b < 2 ^ 64" by (rule power_strict_increasing) (use b in simp_all)
  then have "unat (word_of_nat (2 ^ b) :: u64) = 2 ^ b" unfolding unat_of_nat by (intro mod_less) simp
  then have l: "unat ?l = 2 ^ b" by (simp add: push_bit_eq_mult)
  have "unat a < unat ?l" "unat sz \<le> unat (?l - a)" using f by (simp_all add: s2_range_fits_def Let_def word_less_nat_alt word_le_nat_alt)
  moreover from this(1) have "unat (?l - a) = unat ?l - unat a" by (intro unat_sub) (simp add: word_le_nat_alt)
  ultimately show ?thesis using l by simp
qed

lemma fits_bound48: "s2_range_fits a sz b \<Longrightarrow> b \<le> 48 \<Longrightarrow> unat a + unat sz \<le> 2 ^ 48"
  using fits_bound [of a sz b] power_increasing [of b 48 "2 :: nat"] by simp

lemma geometry_bounds:
  assumes "s2_geometry_valid gm"
  shows "start_level gm \<le> 1" "ipa_bits gm \<le> 48" "pa_bits gm \<le> 48" "ipa_bits gm \<le> 48 - 9 * start_level gm"
  using assms by (auto simp: s2_geometry_valid_def s2_pa_encoding_def failed_def split: if_splits)

text \<open>(C40) Removing one page at the base of a 2 MiB block through the range operation removes the whole block.\<close>

theorem unmap_range_drops_block:
  assumes "host_ok h" and "\<forall>f\<in>set (pool h). f < 2 ^ 48" and "relm_stage2_context_create g (Some gm) vmid h = (Inr st, h1)"
    and "s2_flags_ok f" and "relm_stage2_map_huge_page ipa pa f (Some st) h1 = (Inr (), ctx, h2)" and "drop_bit 21 b = drop_bit 21 ipa"
  shows "\<exists>ctx' h3. relm_stage2_unmap_range ipa 0x1000 ctx h2 = (Inr (), ctx', h3) \<and> relm_stage2_get_mapping b ctx' h3 = Inl ENOENT"
proof -
  note fr = fresh_context [OF assms(1-3)]
  let ?s = "start_level gm"
  obtain st' where st': "ctx = Some st'" "s2_ok st' h2" "s2_geometry st' = gm"
      "s2_maps st' h2 = s2_spec ?s (S2_Huge ipa pa f) (\<lambda>_. None, \<lambda>_. None)"
    using huge_spec [OF fr(1) assms(4,5)] fr(2,3) by auto
  have g: "(ipa OR pa) AND 0x1FFFFF = 0" "s2_range_fits ipa 0x200000 (ipa_bits gm)"
    using assms(5) fr(2) by (auto simp: relm_stage2_map_huge_page_def s2_map_def level_sizes split: if_splits)
  have z: "ipa AND 0x1FFFFF = 0" using g(1) by (rule or_and_zero)
  have al: "ipa AND NOT 0x1FFFFF = ipa" using and_plus_not [of ipa "0x1FFFFF"] z by simp
  have al0: "ipa AND 0xFFF = 0" using arg_cong [OF z, of "\<lambda>x. x AND 0xFFF"] by (simp add: and.assoc)
  have "unat ipa + 0x200000 \<le> 2 ^ 48" using fits_bound48 [OF g(2)] geometry_bounds [OF fr(4)] by simp
  then have lt: "ipa < ipa + 0x1000" by (simp add: word_less_nat_alt unat_word_ariths)
  have lf: "s2_walk ipa st' h2 = Inr (s2_leaf_entry pa f 2 AND S2_PAGE_ADDR_MASK AND NOT 0x1FFFFF, ipa, 0x200000)"
    using walk_spec [OF st'(2), of ipa] st'(3,4) al by (simp add: s2_leaf_of_def)
  obtain r ctx' h3 where u: "relm_stage2_unmap_page ipa ctx h2 = (r, ctx', h3)" by (metis surj_pair)
  have r: "r = Inr ()" using u lf st'(1) by (auto simp: relm_stage2_unmap_page_def Let_def split: prod.splits)
  obtain st3 where st3: "ctx' = Some st3" "s2_ok st3 h3" "s2_geometry st3 = gm" "s2_maps st3 h3 = s2_remove ?s ipa (s2_maps st' h2)"
    using unmap_spec [OF st'(2)] u st'(1,3) r by metis
  have "s2_path ?s 3 b = s2_path ?s 3 ipa" by (rule path_block) (rule assms(6))
  then have "fst (s2_maps st3 h3) (s2_path ?s 4 b) = None" "snd (s2_maps st3 h3) (s2_path ?s 3 b) = None"
    by (simp_all add: st3(4) st'(4) s2_remove_def)
  then have "relm_stage2_get_mapping b ctx' h3 = Inl ENOENT" using lookup_spec [OF st3(2), of b] st3 by (simp add: s2_translate_def)
  moreover have "relm_stage2_unmap_range ipa 0x1000 ctx h2 = (Inr (), ctx', h3)"
    using u r lt al0 by (simp add: relm_stage2_unmap_range_def s2_page_aligned_def)
  ultimately show ?thesis by blast
qed

lemma demo_s2_huge: "fst (relm_stage2_map_huge_page 0x200000 0x400000 0xC0 (Some demo_s2) demo_s2_host) = Inr ()"
  by code_simp

theorem unmap_range_drops_block_witness:
  "\<exists>ctx h2 ctx' h3. relm_stage2_map_huge_page 0x200000 0x400000 0xC0 (Some demo_s2) demo_s2_host = (Inr (), ctx, h2) \<and>
     relm_stage2_unmap_range 0x200000 0x1000 ctx h2 = (Inr (), ctx', h3) \<and> relm_stage2_get_mapping 0x3FF123 ctx' h3 = Inl ENOENT"
proof -
  obtain ctx h2 where m: "relm_stage2_map_huge_page 0x200000 0x400000 0xC0 (Some demo_s2) demo_s2_host = (Inr (), ctx, h2)"
    using demo_s2_huge by (metis prod.collapse)
  then show ?thesis using unmap_range_drops_block [OF demo_s2_facts _ m, of "0x3FF123"] by (simp add: s2_flags_ok_def)
qed

section \<open>Guest RAM around the MMIO windows\<close>

abbreviation (input) page_at :: "u64 \<Rightarrow> u64 \<Rightarrow> nat \<Rightarrow> u64" where
  "page_at a offset i \<equiv> a + offset + word_of_nat i * 0x1000"

lemma page_at_Suc: "page_at a offset (Suc i) = page_at a (offset + 0x1000) i"
  by (simp add: algebra_simps)

lemma map_page_success:
  assumes ok: "s2_ok st h" and m: "relm_stage2_map_page ipa pa flags (Some st) h = (Inr (), ctx', h')"
  shows "\<exists>st'. ctx' = Some st' \<and> s2_ok st' h' \<and> s2_geometry st' = s2_geometry st \<and>
    s2_maps st' h' = s2_spec (start_level (s2_geometry st)) (S2_Map ipa pa flags) (s2_maps st h)"
    "s2_page_aligned pa" "s2_range_fits pa 0x1000 (pa_bits (s2_geometry st))"
proof -
  have "s2_map ipa pa flags 3 (Some st) h = (Inr (), ctx', h')" using m by (simp add: relm_stage2_map_page_def)
  with map_spec [OF ok this] show "\<exists>st'. ctx' = Some st' \<and> s2_ok st' h' \<and> s2_geometry st' = s2_geometry st \<and>
      s2_maps st' h' = s2_spec (start_level (s2_geometry st)) (S2_Map ipa pa flags) (s2_maps st h)"
    "s2_page_aligned pa" "s2_range_fits pa 0x1000 (pa_bits (s2_geometry st))"
    by (auto simp: s2_map_def level_sizes split: if_splits)
qed

text \<open>What mapping \<open>k\<close> pages of RAM makes of the abstract state: the pages are entered, those in a window are left out and
  nothing else changes.\<close>

definition ram_mapped :: "relm_vm_memory option \<Rightarrow> nat \<Rightarrow> nat \<Rightarrow> u64 \<Rightarrow> u64 \<Rightarrow> u64 \<Rightarrow> u64 \<Rightarrow> nat \<Rightarrow> s2_map_state \<Rightarrow> s2_map_state \<Rightarrow> bool" where
  "ram_mapped vm s k offset ipa pa flags bits a a' \<longleftrightarrow> snd a' = (\<lambda>_. None) \<and>
     (\<forall>q. (\<forall>i<k. q \<noteq> s2_path s 4 (page_at ipa offset i)) \<longrightarrow> fst a' q = fst a q) \<and>
     (\<forall>i<k. let p = page_at pa offset i; q = s2_path s 4 (page_at ipa offset i) in
        if s2_range_overlaps_mmio vm (page_at ipa offset i) 0x1000 then fst a' q = fst a q
        else fst a' q = Some (s2_leaf_entry p flags 3) \<and> s2_page_aligned p \<and> s2_range_fits p 0x1000 bits)"

lemma ram_mapped_skip:
  assumes "ram_mapped vm s k (offset + 0x1000) ipa pa flags bits a a'" "s2_range_overlaps_mmio vm (ipa + offset) 0x1000"
    and "\<And>i. i < k \<Longrightarrow> s2_path s 4 (page_at ipa offset 0) \<noteq> s2_path s 4 (page_at ipa (offset + 0x1000) i)"
  shows "ram_mapped vm s (Suc k) offset ipa pa flags bits a a'"
  using assms unfolding ram_mapped_def All_less_Suc2 page_at_Suc by (auto simp: Let_def)

lemma ram_mapped_page:
  assumes "ram_mapped vm s k (offset + 0x1000) ipa pa flags bits (s2_spec s (S2_Map (ipa + offset) (pa + offset) flags) a) a'"
    and "\<not> s2_range_overlaps_mmio vm (ipa + offset) 0x1000" "s2_page_aligned (pa + offset)" "s2_range_fits (pa + offset) 0x1000 bits"
    and d: "\<And>i. i < k \<Longrightarrow> s2_path s 4 (page_at ipa offset 0) \<noteq> s2_path s 4 (page_at ipa (offset + 0x1000) i)"
  shows "ram_mapped vm s (Suc k) offset ipa pa flags bits a a'"
proof -
  have "fst a' (s2_path s 4 (ipa + offset)) = Some (s2_leaf_entry (pa + offset) flags 3)"
    using assms(1) d unfolding ram_mapped_def by simp
  moreover have "s2_path s 4 (page_at ipa (offset + 0x1000) i) \<noteq> s2_path s 4 (ipa + offset)" if "i < k" for i using d [OF that] by simp
  ultimately show ?thesis using assms unfolding ram_mapped_def All_less_Suc2 page_at_Suc by (auto simp: Let_def)
qed

lemma ram_pages_spec:
  assumes "s2_ok st h" "snd (s2_maps st h) = (\<lambda>_. None)" "start_level (s2_geometry st) = s"
    "s2_map_ram_pages vm k offset ipa pa flags (Some st) h = (Inr (), ctx', h')"
    "inj_on (\<lambda>i. s2_path s 4 (page_at ipa offset i)) {..<k}"
  shows "\<exists>st'. ctx' = Some st' \<and> s2_ok st' h' \<and> s2_geometry st' = s2_geometry st \<and>
    ram_mapped vm s k offset ipa pa flags (pa_bits (s2_geometry st)) (s2_maps st h) (s2_maps st' h')"
  using assms
proof (induction k arbitrary: offset st h)
  case 0
  then show ?case by (auto simp: ram_mapped_def)
next
  case (Suc k)
  let ?P = "\<lambda>i. s2_path s 4 (page_at ipa (offset + 0x1000) i)" and ?bits = "pa_bits (s2_geometry st)"
  have ij: "inj_on ?P {..<k}"
  proof (rule inj_onI)
    fix i j assume "i \<in> {..<k}" "j \<in> {..<k}" "?P i = ?P j"
    then show "i = j" using inj_onD [OF Suc.prems(5), of "Suc i" "Suc j"] by (simp only: page_at_Suc) simp
  qed
  have d: "s2_path s 4 (page_at ipa offset 0) \<noteq> ?P i" if "i < k" for i
    using inj_onD [OF Suc.prems(5), of 0 "Suc i"] that by (simp only: page_at_Suc) auto
  show ?case
  proof (cases "s2_range_overlaps_mmio vm (ipa + offset) 0x1000")
    case True
    then have "s2_map_ram_pages vm k (offset + 0x1000) ipa pa flags (Some st) h = (Inr (), ctx', h')" using Suc.prems(4) by simp
    from Suc.IH [OF Suc.prems(1-3) this ij] show ?thesis using ram_mapped_skip [OF _ True d] by blast
  next
    case False
    then obtain ctx1 h1 where m: "relm_stage2_map_page (ipa + offset) (pa + offset) flags (Some st) h = (Inr (), ctx1, h1)"
        and run: "s2_map_ram_pages vm k (offset + 0x1000) ipa pa flags ctx1 h1 = (Inr (), ctx', h')"
      using Suc.prems(4) by (auto split: prod.splits sum.splits)
    note ms = map_page_success [OF Suc.prems(1) m]
    obtain st1 where st1: "ctx1 = Some st1" "s2_ok st1 h1" "s2_geometry st1 = s2_geometry st"
        "s2_maps st1 h1 = s2_spec s (S2_Map (ipa + offset) (pa + offset) flags) (s2_maps st h)" "snd (s2_maps st1 h1) = (\<lambda>_. None)"
      using ms(1) Suc.prems(2,3) by auto
    from Suc.IH [OF st1(2,5) _ run [unfolded st1(1)] ij] st1(3) Suc.prems(3)
    obtain st' where st': "ctx' = Some st'" "s2_ok st' h'" "s2_geometry st' = s2_geometry st"
        "ram_mapped vm s k (offset + 0x1000) ipa pa flags ?bits (s2_maps st1 h1) (s2_maps st' h')" by (auto simp only:)
    then show ?thesis using ram_mapped_page [OF st'(4) [unfolded st1(4)] False ms(2,3) d] by blast
  qed
qed

text \<open>Inside the guest-physical space pages have different paths, and an address has the path of its page.\<close>

lemma path_of_page: "s2_path s l (page_base x) = s2_path s l x" if "l \<le> 4"
proof -
  have "drop_bit 12 (page_base x) = drop_bit 12 x" unfolding page_base_drop
    by (rule bit_word_eqI) (auto simp: bit_simps dest: bit_imp_le_length)
  moreover have "drop_bit (12 + n) y = drop_bit n (drop_bit 12 y)" for n and y :: u64 by (simp only: drop_bit_drop_bit add.commute)
  ultimately have "s2_index (page_base x) n = s2_index x n" for n by (simp only: s2_index_def)
  then show ?thesis by (simp add: s2_path_def)
qed

lemma path_inj:
  assumes "s2_path s 4 a = s2_path s 4 b" "s \<le> 1" "unat a < 2 ^ (48 - 9 * s)" "unat b < 2 ^ (48 - 9 * s)"
  shows "drop_bit 12 a = (drop_bit 12 b :: u64)"
proof (rule path_page [OF assms(1,2)])
  have "drop_bit (48 - 9 * s) x = 0" if "unat x < 2 ^ (48 - 9 * s)" for x :: u64
  proof -
    have "unat (drop_bit (48 - 9 * s) x) = unat x div 2 ^ (48 - 9 * s)" unfolding unat_drop_bit_eq by (simp only: drop_bit_eq_div)
    then show ?thesis using that by (simp add: word_unat_eq_iff)
  qed
  then show "drop_bit (48 - 9 * s) a = drop_bit (48 - 9 * s) b" using assms(3,4) by simp
qed

lemma pages_inj:
  assumes "s2_page_aligned ipa" "unat ipa + k * 4096 \<le> 2 ^ (48 - 9 * s)" "s \<le> 1"
  shows "inj_on (\<lambda>i. s2_path s 4 (page_at ipa 0 i)) {..<k}"
proof (rule inj_onI)
  fix i j assume ij: "i \<in> {..<k}" "j \<in> {..<k}" and e: "s2_path s 4 (page_at ipa 0 i) = s2_path s 4 (page_at ipa 0 j)"
  have le: "(2 :: nat) ^ (48 - 9 * s) \<le> 2 ^ 48" by (rule power_increasing) simp_all
  have u: "unat (page_at ipa 0 n) = unat ipa + n * 4096" if "n < k" for n
  proof -
    have "unat ipa + n * 4096 < 2 ^ 48" using that assms(2) le by linarith
    then show ?thesis by (simp add: unat_word_ariths unat_of_nat)
  qed
  have "drop_bit 12 (page_at ipa 0 i) = drop_bit 12 (page_at ipa 0 j)"
    by (rule path_inj [OF e assms(3)]) (use u ij assms(2) in auto)
  then have "unat (page_at ipa 0 i) div 4096 = unat (page_at ipa 0 j) div 4096"
    using unat_drop_bit_eq [of 12 "page_at ipa 0 i"] unat_drop_bit_eq [of 12 "page_at ipa 0 j"] by (simp add: drop_bit_eq_div)
  then show "i = j" using u ij by simp
qed

lemma page_split:
  assumes "s2_page_aligned ipa"
  shows "page_at ipa 0 (unat (x - ipa) div 4096) = page_base x" "x - ipa = word_of_nat (unat (x - ipa) div 4096) * 0x1000 + (x AND 0xFFF)"
proof -
  let ?d = "x - ipa"
  have d: "?d = word_of_nat (unat ?d div 4096) * 0x1000 + ?d mod 0x1000"
    using word_div_mod_4096 [of ?d] by (simp add: unat_div_distrib)
  have "PAGE_ALIGNED ipa" using assms by (simp add: s2_page_aligned_def PAGE_ALIGNED_def)
  then have "PAGE_ALIGNED (page_at ipa 0 (unat ?d div 4096))" using aligned_page_plus by simp
  moreover have "unat (?d mod 0x1000) < 4096" by (simp add: unat_mod_distrib)
  ultimately have "page_base (page_at ipa 0 (unat ?d div 4096) + ?d mod 0x1000) = page_at ipa 0 (unat ?d div 4096)" by (rule page_base_add)
  moreover have "page_at ipa 0 (unat ?d div 4096) + ?d mod 0x1000 = x" using d by (simp add: algebra_simps)
  ultimately show p: "page_at ipa 0 (unat ?d div 4096) = page_base x" by simp
  have "x AND 0xFFF = x - page_base x" using and_plus_not [of x "0xFFF"] by (simp add: page_base_def)
  then show "?d = word_of_nat (unat ?d div 4096) * 0x1000 + (x AND 0xFFF)" by (simp flip: p)
qed

lemma page_in_range:
  assumes "ipa \<le> x" "x < ipa + sz" "unat ipa + unat sz < 2 ^ 64" "s2_page_aligned sz"
  shows "unat (x - ipa) div 4096 < unat sz div 4096"
proof -
  have "unat (ipa + sz) = unat ipa + unat sz" using assms(3) by (simp add: unat_word_ariths)
  then have "unat (x - ipa) < unat sz" using assms(1,2) by (simp add: unat_sub word_less_nat_alt word_le_nat_alt)
  moreover have "unat sz mod 4096 = 0" using assms(4) PAGE_ALIGNED_unat [of sz] by (simp add: s2_page_aligned_def PAGE_ALIGNED_def)
  ultimately show ?thesis by auto
qed

lemma low_page_mask:
  assumes "s2_page_aligned p" "unat p < 2 ^ 48"
  shows "p AND S2_PAGE_ADDR_MASK = p"
proof -
  have "page_base p = p" using page_base_aligned assms(1) by (simp add: s2_page_aligned_def PAGE_ALIGNED_def)
  moreover have "take_bit 48 p = p" using take_bit_eq_self_unat [of 48 p] assms(2) by simp
  ultimately have "bit p k \<Longrightarrow> 12 \<le> k \<and> k < 48" for k
    by (metis (no_types, lifting) bit_push_bit_iff bit_take_bit_iff page_base_drop)
  then show ?thesis by (intro bit_word_eqI) (auto simp: bit_simps bit_s2_mask)
qed


lemma demo_s2_ram: "fst (relm_stage2_map_guest_ram_4kb (Some mmio_two) 0xCFFFF000 0x9000 0x2000 0xC0 (Some demo_s2) demo_s2_host) = Inr ()"
  by code_simp


section \<open>Geometry\<close>

text \<open>How the architecture reads the fields of VTCR\_EL2: T0SZ, SL0, PS and VS.\<close>

definition vtcr_geometry :: "u64 \<Rightarrow> relm_stage2_geometry" where
  "vtcr_geometry v = \<lparr>ipa_bits = 64 - unat (v AND 0x3F), pa_bits = pa_widths ! unat (drop_bit 16 v AND 7),
     start_level = (if drop_bit 6 v AND 3 = 1 then 1 else 0), vmid_bits = (if bit v 19 then 16 else 8)\<rparr>"

definition geometry_of :: "nat \<Rightarrow> nat \<Rightarrow> nat \<Rightarrow> relm_stage2_geometry" where
  "geometry_of i p v = \<lparr>ipa_bits = i, pa_bits = p, start_level = (if i \<le> 39 then 1 else 0), vmid_bits = v\<rparr>"

lemma valid_geometry_cases:
  assumes "s2_geometry_valid gm"
  shows "\<exists>i\<in>set [32..<49]. \<exists>p\<in>set [32, 36, 40, 42, 44, 48]. \<exists>v\<in>set [8, 16]. gm = geometry_of i p v"
proof -
  have "gm = geometry_of (ipa_bits gm) (pa_bits gm) (vmid_bits gm)"
    using assms by (cases gm) (auto simp: s2_geometry_valid_def geometry_of_def)
  moreover have "ipa_bits gm \<in> set [32..<49]" using assms unfolding s2_geometry_valid_def set_upt by simp
  moreover have "pa_bits gm \<in> set [32, 36, 40, 42, 44, 48]"
    using assms by (auto simp: s2_geometry_valid_def s2_pa_encoding_def split: if_splits)
  moreover have "vmid_bits gm \<in> set [8, 16]" using assms by (auto simp: s2_geometry_valid_def)
  ultimately show ?thesis by blast
qed

lemma all_vtcrs:
  "\<forall>i\<in>set [32..<49]. \<forall>p\<in>set [32, 36, 40, 42, 44, 48]. \<forall>v\<in>set [8, 16].
     case relm_stage2_encode_vtcr (Some (geometry_of i p v)) of Inl _ \<Rightarrow> False | Inr w \<Rightarrow> vtcr_geometry w = geometry_of i p v"
  by code_simp

text \<open>The VTCR value of a geometry reads back as that geometry, for every valid geometry, and every other geometry is refused.\<close>

theorem vtcr_round_trip:
  "case relm_stage2_encode_vtcr (Some gm) of
     Inl e \<Rightarrow> e = EINVAL \<and> \<not> s2_geometry_valid gm
   | Inr v \<Rightarrow> s2_geometry_valid gm \<and> vtcr_geometry v = gm"
proof (cases "s2_geometry_valid gm")
  case True
  then obtain i p v where "i \<in> set [32..<49]" "p \<in> set [32, 36, 40, 42, 44, 48]" "v \<in> set [8, 16]" and gm: "gm = geometry_of i p v"
    using valid_geometry_cases by blast
  then have "case relm_stage2_encode_vtcr (Some (geometry_of i p v)) of Inl _ \<Rightarrow> False | Inr w \<Rightarrow> vtcr_geometry w = geometry_of i p v"
    using all_vtcrs by blast
  then show ?thesis using True unfolding gm by (auto split: sum.splits)
qed (simp add: relm_stage2_encode_vtcr_def)

end
