(* ===== verification/Relm_Lifecycle_Props.thy ===== *)
theory Relm_Lifecycle_Props
  imports Relm_Lifecycle
begin

text \<open>
  Schedules of the vCPU life cycle: that a started vCPU reaches its guest, that a requested stop ends the
  thread after a bounded number of its steps once it is outside the guest, and the schedules on which a
  stop hangs, leaves a processor with a stale vCPU, or touches a freed task; restarting and registering.
\<close>

section \<open>Schedules\<close>

text \<open>A given sequence of events of one thread, while nothing else happens.\<close>

fun run_events :: "platform \<Rightarrow> hw \<Rightarrow> nat \<Rightarrow> event list \<Rightarrow> sys \<Rightarrow> sys option" where
  "run_events pf w i [] s = Some s"
| "run_events pf w i (ev # evs) s = (case thread_step pf w i ev s of None \<Rightarrow> None | Some s' \<Rightarrow> run_events pf w i evs s')"

definition good_event :: "event \<Rightarrow> bool" where
  "good_event ev \<longleftrightarrow> (case ev of Go rsp \<Rightarrow> rsp \<noteq> 0 | _ \<Rightarrow> True)"

lemma reachable_trans: "reachable pf w t u \<Longrightarrow> reachable pf w s t \<Longrightarrow> reachable pf w s u"
  by (induction rule: reachable.induct) (auto intro: reachable.intros)

lemma run_events_reachable:
  "run_events pf w i evs s = Some s' \<Longrightarrow> list_all good_event evs \<Longrightarrow> reachable pf w s s'"
proof (induction evs arbitrary: s)
  case (Cons ev evs)
  from Cons.prems obtain u where u: "thread_step pf w i ev s = Some u" "run_events pf w i evs u = Some s'"
    by (auto split: option.splits)
  have "sys_step pf w s u" using Cons.prems(2) by (intro sys_step.thread [OF u(1)]) (auto simp: good_event_def)
  then have "reachable pf w s u" by (blast intro: reachable.intros)
  with Cons.IH [OF u(2)] Cons.prems(2) show ?case by (auto intro: reachable_trans)
qed (simp add: reachable.here)

text \<open>The thread from its creation to the guest when nothing fails.\<close>

definition boot_events :: "nat \<Rightarrow> event list" where
  "boot_events c = [Go 1, Go 1, Sched c, Go 1, Go 1, Go 1, Go 1, Go 1]"

lemma init_ok_loaded:
  assumes "vmx_vcpu_init w b vc h = (Inr (), b', vc', h')"
  shows "relm_vmclear w vc = Inr ()" "\<exists>x. relm_vmptrld w vc = (Inr (), x)"
  using assms by (auto simp: vmx_vcpu_init_def split: sum.splits prod.splits)

text \<open>The steps as rewrite rules: what each does when it succeeds.\<close>

lemma thread_step_Go: "s_thread s i = Some t \<Longrightarrow> thread_step pf w i (Go r) s = own_step w r i t s"
  by (simp add: thread_step_def)

lemma thread_step_Sched:
  "s_thread s i = Some t \<Longrightarrow> c \<in> set (t_mask t) \<Longrightarrow> preemptible (t_pc t) \<Longrightarrow>
     thread_step pf w i (Sched c) s = Some (set_thread i (t\<lparr>t_cpu := c\<rparr>) s)"
  by (simp add: thread_step_def)

lemma boot_run:
  assumes t: "s_thread s i = Some \<lparr>t_pc = AT_START, t_cpu = c0, t_mask = ms, t_stop = False, t_ret = 0\<rparr>"
    and vc: "host_task (s_vcpu s i)" "target_cpu_id (s_vcpu s i) = int c" and c: "c \<in> set (s_online s)"
    and init: "vmx_vcpu_init w (s_boot s) (s_vcpu s i) (mc_host (s_mach s)) = (Inr (), b', vc', h')"
  shows "\<exists>s'. run_events pf w i (boot_events c) s = Some s' \<and>
     s_thread s' i = Some \<lparr>t_pc = IN_GUEST, t_cpu = c, t_mask = [c], t_stop = False, t_ret = 0\<rparr> \<and>
     s_current s' c = Some i \<and> s_loaded s' c = Some i \<and> s_online s' = s_online s \<and> s_ctl s' = s_ctl s \<and> mc_array (s_mach s') = mc_array (s_mach s) \<and>
     s_vcpu s' i = vc'\<lparr>vc_state := VCPU_STATE_RUNNING, vmentry_host_rsp := 1\<rparr> \<and> (\<forall>d. d \<noteq> c \<longrightarrow> s_loaded s' d = s_loaded s d) \<and>
     (\<forall>d. d \<noteq> c \<and> d \<noteq> c0 \<longrightarrow> s_current s' d = s_current s d) \<and> mc_host (s_mach s') = h'"
proof -
  obtain x where l: "relm_vmclear w (s_vcpu s i) = Inr ()" "relm_vmptrld w (s_vcpu s i) = (Inr (), x)"
    using init_ok_loaded [OF init] by auto
  let ?T = "\<lambda>p. \<lparr>t_pc = p, t_cpu = c, t_mask = [c], t_stop = False, t_ret = 0\<rparr>"
  define s1 where "s1 = set_thread i (?T AT_INIT) (relm_set_current_vcpu c (Some i) (relm_set_current_vcpu c0 (Some i) s))"
  have 1: "run_events pf w i (Go 1 # Go 1 # Sched c # Go 1 # evs) s = run_events pf w i evs s1" for evs
    using t vc c by (simp add: thread_step_Go thread_step_Sched own_step_def loop_start_def relm_vcpu_pin_to_cpu_def loop_pinned_def sys_simps
        preemptible_def Let_def s1_def) (simp add: set_thread_def relm_set_current_vcpu_def)
  define s2 where "s2 = s1\<lparr>s_boot := b', s_mach := (put_vcpu i (vc'\<lparr>vc_state := VCPU_STATE_RUNNING\<rparr>) (s_mach s))\<lparr>mc_host := h'\<rparr>,
    s_loaded := (s_loaded s)(c := Some i), s_thread := (s_thread s1)(i := Some (?T AT_CHECK))\<rparr>"
  have s1: "s_thread s1 i = Some (?T AT_INIT)" "s_vcpu s1 = s_vcpu s" "s_boot s1 = s_boot s" "s_mach s1 = s_mach s" "s_loaded s1 = s_loaded s"
    "s_current s1 c = Some i"
    by (simp_all add: s1_def sys_simps) (simp add: set_thread_def relm_set_current_vcpu_def)
  have 2: "thread_step pf w i (Go 1) s1 = Some s2"
    by (simp add: thread_step_Go [OF s1(1)] own_step_def loop_init_def s1 init l Let_def)
       (simp add: s2_def set_thread_def set_vcpu_def upd_vcpu_def put_vcpu_def s1)
  have 3: "run_events pf w i [Go 1, Go 1, Go 1] s2 = Some (set_thread i (?T IN_GUEST) (s2\<lparr>s_mach := relm_vmentry_save_rsp (Some i) 1 (s_mach s2)\<rparr>))"
    by (simp add: thread_step_Go s2_def own_step_def loop_check_def vmentry_save_def relm_vmentry_asm_def relm_get_current_vcpu_def s1 sys_simps)
       (simp add: set_thread_def)
  show ?thesis unfolding boot_events_def 1
    by (simp add: 2 3 del: run_events.simps(2) add: run_events.simps(2) [of _ _ _ "Go 1" "[Go 1, Go 1, Go 1]"])
       (auto simp: sys_simps s2_def s_vcpu_def relm_vmentry_save_rsp_def upd_vcpu_simps put_vcpu_simps s1_def set_thread_def relm_set_current_vcpu_def)
qed

text \<open>A VM with one initialised vCPU that is ready to start.\<close>

definition ready :: "nat \<Rightarrow> nat \<Rightarrow> sys \<Rightarrow> bool" where
  "ready i c s \<longleftrightarrow> mc_array (s_mach s) = [Some i] \<and> (\<forall>j. s_thread s j = None) \<and> s_state s = VM_STATE_INITIALIZED \<and> s_online_vcpus s = 1 \<and>
     s_ctl s = CTL_IDLE 0 \<and> \<not> host_task (s_vcpu s i) \<and> vc_state (s_vcpu s i) = VCPU_STATE_INITIALIZED \<and>
     target_cpu_id (s_vcpu s i) = int c \<and> c \<in> set (s_online s)"

definition fresh_vcpu :: "u64 \<Rightarrow> vcpu \<Rightarrow> vcpu" where
  "fresh_vcpu now vc = vc\<lparr>halted := False, stats := (stats vc)\<lparr>total_exits := 0, start_time_ns := now\<rparr>, host_task := True\<rparr>"

lemma run_vm_ready:
  assumes "ready i c s"
  shows "relm_run_vm (\<lambda>_. (Inr (), c0)) now s =
    (set_thread i \<lparr>t_pc = AT_START, t_cpu = c0, t_mask = s_online s, t_stop = False, t_ret = 0\<rparr>
      (set_vcpu i (fresh_vcpu now) s))\<lparr>s_state := VM_STATE_RUNNING, s_ctl := CTL_IDLE 0\<rparr>"
  using assms
  by (simp add: ready_def relm_run_vm_def relm_vcpu_run_def Let_def sys_simps)
     (simp add: set_thread_def set_vcpu_def upd_vcpu_def put_vcpu_def fresh_vcpu_def)

lemma booted:
  assumes r: "ready i c s"
    and init: "vmx_vcpu_init w (s_boot s) (fresh_vcpu now (s_vcpu s i)) (mc_host (s_mach s)) = (Inr (), b', vc', h')"
  obtains s' where "reachable pf w s s'" "s_ctl s' = CTL_IDLE 0" "mc_array (s_mach s') = [Some i]" "s_online s' = s_online s"
    "s_thread s' i = Some \<lparr>t_pc = IN_GUEST, t_cpu = c, t_mask = [c], t_stop = False, t_ret = 0\<rparr>" "s_current s' c = Some i" "s_loaded s' c = Some i"
    "s_vcpu s' i = vc'\<lparr>vc_state := VCPU_STATE_RUNNING, vmentry_host_rsp := 1\<rparr>"
    "\<forall>d. d \<noteq> c \<longrightarrow> s_loaded s' d = s_loaded s d" "\<forall>d. d \<noteq> c \<longrightarrow> s_current s' d = s_current s d"
proof -
  let ?s = "relm_run_vm (\<lambda>_. (Inr (), c)) now s"
  have run: "reachable pf w s ?s"
    using r by (intro reachable.next_step [OF reachable.here] sys_step.run) (simp add: ready_def)
  note e = run_vm_ready [OF r, of c now]
  have s: "s_thread ?s i = Some \<lparr>t_pc = AT_START, t_cpu = c, t_mask = s_online s, t_stop = False, t_ret = 0\<rparr>"
    "s_vcpu ?s i = fresh_vcpu now (s_vcpu s i)" "s_online ?s = s_online s" "s_boot ?s = s_boot s" "mc_host (s_mach ?s) = mc_host (s_mach s)"
    "s_ctl ?s = CTL_IDLE 0" "mc_array (s_mach ?s) = mc_array (s_mach s)" "s_loaded ?s = s_loaded s" "s_current ?s = s_current s"
    unfolding e by (simp_all add: sys_simps) (simp add: set_thread_def set_vcpu_def)
  have "host_task (s_vcpu ?s i)" "target_cpu_id (s_vcpu ?s i) = int c" "c \<in> set (s_online ?s)"
    "vmx_vcpu_init w (s_boot ?s) (s_vcpu ?s i) (mc_host (s_mach ?s)) = (Inr (), b', vc', h')"
    using r init by (simp_all add: s fresh_vcpu_def ready_def)
  from boot_run [OF s(1) this, of pf, unfolded s] obtain s' where b: "run_events pf w i (boot_events c) ?s = Some s'"
    and s': "s_thread s' i = Some \<lparr>t_pc = IN_GUEST, t_cpu = c, t_mask = [c], t_stop = False, t_ret = 0\<rparr>" "s_current s' c = Some i" "s_loaded s' c = Some i"
      "s_online s' = s_online s" "s_ctl s' = CTL_IDLE 0" "mc_array (s_mach s') = mc_array (s_mach s)"
      "s_vcpu s' i = vc'\<lparr>vc_state := VCPU_STATE_RUNNING, vmentry_host_rsp := 1\<rparr>" "\<forall>d. d \<noteq> c \<longrightarrow> s_loaded s' d = s_loaded s d"
      "\<forall>d. d \<noteq> c \<longrightarrow> s_current s' d = s_current s d" by auto
  have "reachable pf w ?s s'" by (rule run_events_reachable [OF b]) (simp add: boot_events_def good_event_def)
  then have "reachable pf w s s'" using run by (rule reachable_trans)
  then show ?thesis using s' r by (intro that [of s']) (simp_all add: ready_def)
qed


definition demo_sys :: sys where
  "demo_sys = \<lparr>s_mach = (put_vcpu 0 (demo_new_vcpu\<lparr>target_cpu_id := 1, vc_state := VCPU_STATE_INITIALIZED, host_task := False\<rparr>) demo_machine)
        \<lparr>mc_array := [Some 0], mc_host := demo_host1\<rparr>,
     s_boot = demo_boot, s_online = [0, 1], s_current = (\<lambda>_. None), s_loaded = (\<lambda>_. None), s_thread = (\<lambda>_. None),
     s_state = VM_STATE_INITIALIZED, s_online_vcpus = 1, s_total_exits = 0, s_ctl = CTL_IDLE 0\<rparr>"

lemma demo_ready: "ready 0 1 demo_sys"
  by (simp add: ready_def demo_sys_def s_vcpu_def put_vcpu_simps)

lemma demo_sys_init:
  "\<exists>b' vc' h'. vmx_vcpu_init demo_hw (s_boot demo_sys) (fresh_vcpu 5 (s_vcpu demo_sys 0)) (mc_host (s_mach demo_sys)) = (Inr (), b', vc', h')"
  by (rule vmx_vcpu_init_succeeds [where ept = demo_ept and r = "0x1000"])
     (simp_all add: demo_sys_def s_vcpu_def put_vcpu_simps fresh_vcpu_def demo_boot_def demo_ept_def demo_hw_def demo_new_vcpu_def
       relm_init_exec_controls_def blank_arch_def blank_apic_def demo_host1_def pa_of_def PAGE_ALIGNED_def demo_vcpu_def)


text \<open>(C4) While nobody has asked the vCPU to stop, its guest runs where it should. In every reachable state of a
  virtual machine with one vCPU, under any scheduling, a thread in or around the guest is on its target
  processor and cannot be moved, is what \<open>relm_get_current_vcpu\<close> returns there, and its VMCS is the current
  one there; and the processor is never parked for want of a stack to return to.\<close>

theorem guest_runs_pinned:
  assumes "reachable pf w s s'" "mc_array (s_mach s) = [Some i]" "\<forall>j. s_thread s j = None"
    and t: "s_thread s' i = Some t" "\<not> t_stop t"
  shows "t_pc t \<noteq> PARKED \<and> t_pc t \<noteq> FOREIGN \<and>
    (t_pc t \<in> {AT_CHECK, AT_ENTER, AT_RESUME, IN_GUEST, AT_POST, AT_WAIT} \<longrightarrow>
       t_mask t = [t_cpu t] \<and> int (t_cpu t) = target_cpu_id (s_vcpu s' i) \<and>
       relm_get_current_vcpu (t_cpu t) s' = Some i \<and> s_loaded s' (t_cpu t) = Some i)"
proof -
  have "lone_vcpu i s" using assms by (simp add: lone_vcpu_def)
  with assms(1) have "lone_vcpu i s'" by (rule lone_invariant)
  from lone_placed [OF this t(1)] t(2) show ?thesis
    by (auto simp: placed_def pinned_pc_def relm_get_current_vcpu_def)
qed

theorem guest_runs_pinned_witness:
  "\<exists>s' t. reachable demo_pf demo_hw demo_sys s' \<and> s_thread s' 0 = Some t \<and> t_pc t = IN_GUEST \<and> relm_get_current_vcpu (t_cpu t) s' = Some 0"
proof -
  obtain b' vc' h' where "vmx_vcpu_init demo_hw (s_boot demo_sys) (fresh_vcpu 5 (s_vcpu demo_sys 0)) (mc_host (s_mach demo_sys)) = (Inr (), b', vc', h')"
    using demo_sys_init by blast
  from demo_ready this obtain s' where r: "reachable demo_pf demo_hw demo_sys s'"
    and s': "s_thread s' 0 = Some \<lparr>t_pc = IN_GUEST, t_cpu = 1, t_mask = [1], t_stop = False, t_ret = 0\<rparr>" by (rule booted)
  have "relm_get_current_vcpu 1 s' = Some 0"
    using guest_runs_pinned [OF r _ _ s'] demo_ready by (simp add: ready_def)
  with r s' show ?thesis by auto
qed

section \<open>Stopping\<close>

text \<open>How many statements of its own a thread that has been asked to stop can still execute.\<close>

fun rank :: "vcpu_pc \<Rightarrow> nat" where
  "rank AT_START = 8" | "rank AT_PIN = 7" | "rank AT_MIGRATE = 6" | "rank AT_INIT = 5" | "rank AT_ENTER = 8" | "rank AT_RESUME = 7"
| "rank IN_GUEST = 6" | "rank AT_POST = 5" | "rank AT_WAIT = 4" | "rank AT_CHECK = 3" | "rank AT_DESTROY = 2" | "rank AT_CLEAR = 1"
| "rank EXITED = 0" | "rank PARKED = 0" | "rank CRASHED = 0" | "rank FOREIGN = 0"

definition statement :: "event \<Rightarrow> bool" where
  "statement ev \<longleftrightarrow> (case ev of Go _ \<Rightarrow> True | PinFails _ \<Rightarrow> True | EntryFails \<Rightarrow> True | _ \<Rightarrow> False)"

lemma stopping_step:
  assumes t: "s_thread s i = Some t" "t_stop t" and o: "thread_step pf w i ev s = Some s'"
  shows "\<exists>t'. s_thread s' i = Some t' \<and> t_stop t' \<and> rank (t_pc t') + (if statement ev then 1 else 0) \<le> rank (t_pc t)"
proof (cases ev)
  case (Go r)
  with o t have o: "own_step w r i t s = Some s'" by (simp add: thread_step_def)
  show ?thesis
  proof (cases "t_pc t")
    case AT_INIT
    with o t Go show ?thesis
      by (auto simp: own_step_def loop_init_def statement_def sys_simps Let_def split: prod.splits sum.splits)
  qed (use o t Go in \<open>auto simp: own_step_def loop_start_def relm_vcpu_pin_to_cpu_def loop_pinned_def loop_check_def vmentry_save_def
      relm_vmentry_asm_def entry_failure_def loop_post_def loop_wait_def loop_destroy_def loop_clear_def statement_def sys_simps Let_def
      split: if_splits option.splits sum.splits\<close>)
next
  case (GuestExit f g b)
  with o t show ?thesis
    by (auto simp: thread_step_def relm_vmexit_handler_def vmexit_return_zero_def statement_def sys_simps split: if_splits prod.splits option.splits)
qed (use o t in \<open>auto simp: thread_step_def statement_def relm_vcpu_pin_to_cpu_def relm_vmentry_asm_def entry_failure_def sys_simps Let_def
    split: if_splits option.splits\<close>)

lemma stopping_run:
  assumes "run_events pf w i evs s = Some s'" "s_thread s i = Some t" "t_stop t"
  shows "\<exists>t'. s_thread s' i = Some t' \<and> t_stop t' \<and> rank (t_pc t') + length (filter statement evs) \<le> rank (t_pc t)"
  using assms
proof (induction evs arbitrary: s t)
  case (Cons ev evs)
  from Cons.prems(1) obtain u where u: "thread_step pf w i ev s = Some u" "run_events pf w i evs u = Some s'"
    by (auto split: option.splits)
  from stopping_step [OF Cons.prems(2,3) u(1)] obtain t1 where t1: "s_thread u i = Some t1" "t_stop t1"
    "rank (t_pc t1) + (if statement ev then 1 else 0) \<le> rank (t_pc t)" by blast
  from Cons.IH [OF u(2) t1(1,2)] t1(3) show ?case by (auto split: if_splits)
qed simp

lemma rank_bound: "rank p \<le> 8"
  by (cases p) simp_all


definition demo_stopping :: sys where
  "demo_stopping = set_thread 0 \<lparr>t_pc = AT_CHECK, t_cpu = 0, t_mask = [0, 1], t_stop = True, t_ret = 0\<rparr> demo_sys"

lemma demo_stopping_run:
  "run_events demo_pf demo_hw 0 [Sched 1, Go 1, Sched 0, Go 1, Go 1] demo_stopping =
     Some (set_thread 0 \<lparr>t_pc = EXITED, t_cpu = 0, t_mask = [0, 1], t_stop = True, t_ret = 0\<rparr>
       (set_vcpu 0 (\<lambda>vc. vc\<lparr>vc_state := VCPU_STATE_STOPPED\<rparr>) demo_sys))"
  by (simp add: demo_stopping_def thread_step_def own_step_def loop_check_def loop_destroy_def loop_clear_def preemptible_def sys_simps)
     (simp add: demo_sys_def vmx_vcpu_destroy_def set_thread_def set_vcpu_def relm_set_current_vcpu_def upd_vcpu_def put_vcpu_def relm_vmclear_def
       fun_eq_iff s_vcpu_def split: sum.split)


text \<open>Outside the guest and past the pinning, a thread that has been asked to stop is never blocked.\<close>

definition winding_down :: "vcpu_pc \<Rightarrow> bool" where
  "winding_down p \<longleftrightarrow> p \<in> {AT_CHECK, AT_POST, AT_WAIT, AT_DESTROY, AT_CLEAR, EXITED}"

lemma winding_step:
  assumes t: "s_thread s i = Some t" "t_stop t" "winding_down (t_pc t)" and o: "thread_step pf w i ev s = Some s'"
  shows "\<exists>t'. s_thread s' i = Some t' \<and> t_stop t' \<and> winding_down (t_pc t')"
proof (cases ev)
  case (Go r)
  with o t have o: "own_step w r i t s = Some s'" by (simp add: thread_step_def)
  show ?thesis
    using t o by (auto simp: winding_down_def own_step_def loop_check_def loop_post_def loop_wait_def loop_destroy_def loop_clear_def sys_simps Let_def
        split: if_splits sum.splits)
qed (use o t in \<open>auto simp: thread_step_def winding_down_def sys_simps split: if_splits\<close>)

lemma winding_run:
  assumes "run_events pf w i evs s = Some s'" "s_thread s i = Some t" "t_stop t" "winding_down (t_pc t)"
  shows "\<exists>t'. s_thread s' i = Some t' \<and> t_stop t' \<and> winding_down (t_pc t')"
  using assms
proof (induction evs arbitrary: s t)
  case (Cons ev evs)
  from Cons.prems(1) obtain u where u: "thread_step pf w i ev s = Some u" "run_events pf w i evs u = Some s'"
    by (auto split: option.splits)
  from winding_step [OF Cons.prems(2,3,4) u(1)] obtain t1 where "s_thread u i = Some t1" "t_stop t1" "winding_down (t_pc t1)" by blast
  from Cons.IH [OF u(2) this] show ?case .
qed simp

text \<open>A stop request is honoured outside the guest: from the head of the loop, behind a VM-exit, asleep in
  HLT, or on the way out, every schedule that is run until the thread can execute nothing more ends with the
  thread gone, after at most five of its own statements, however often it is moved between processors.\<close>

theorem stop_completes:
  assumes t: "s_thread s i = Some t" "t_stop t" "winding_down (t_pc t)"
    and run: "run_events pf w i evs s = Some s'" and t': "s_thread s' i = Some t'" and stuck: "own_step w 1 i t' s' = None"
  shows "t_pc t' = EXITED \<and> length (filter statement evs) \<le> 5"
proof -
  from winding_run [OF run t] t' have w: "t_stop t'" "winding_down (t_pc t')" by auto
  then have "t_pc t' = EXITED" using stuck by (auto simp: winding_down_def own_step_def loop_wait_def)
  moreover have "rank (t_pc t) \<le> 5" using t(3) by (auto simp: winding_down_def)
  ultimately show ?thesis using stopping_run [OF run t(1,2)] by auto
qed

theorem stop_completes_witness:
  "t_pc \<lparr>t_pc = EXITED, t_cpu = 0, t_mask = [0, 1], t_stop = True, t_ret = 0\<rparr> = EXITED \<and>
   length (filter statement [Sched 1, Go 1, Sched 0, Go 1, Go 1]) \<le> 5"
  by (rule stop_completes [OF _ _ _ demo_stopping_run, of "\<lparr>t_pc = AT_CHECK, t_cpu = 0, t_mask = [0, 1], t_stop = True, t_ret = 0\<rparr>"])
     (simp_all add: demo_stopping_def sys_simps winding_down_def own_step_def)

text \<open>In the guest it is not: an external interrupt exits, and the handler resumes the guest at once, without
  looking at the stop request. However many interrupts arrive, the thread is still in the guest, and the
  caller of \<open>relm_stop_vm\<close> still waits in \<open>kthread_stop\<close>.\<close>

theorem busy_guest_never_stops:
  assumes t: "s_thread s i = Some t" "t_pc t = IN_GUEST" "relm_get_current_vcpu (t_cpu t) s = Some i"
    and ctl: "s_ctl s = CTL_WAIT 0 st ret" "mc_array (s_mach s) = [Some i]"
    and evs: "\<forall>ev\<in>set evs. \<exists>f g. ev = GuestExit f g True \<and> f ENC_EXIT_REASON = 1"
  shows "\<exists>s'. run_events pf w i evs s = Some s' \<and> s_thread s' i = Some t \<and> ctl_step now s' = None"
  using t ctl evs
proof (induction evs arbitrary: s)
  case Nil
  then show ?case by (simp add: ctl_step_def)
next
  case (Cons ev evs)
  from Cons.prems obtain f g where ev: "ev = GuestExit f g True" "f ENC_EXIT_REASON = 1" by auto
  let ?m = "upd_vcpu i (exit_prologue g) (upd_vcpu i (\<lambda>vc. vc\<lparr>vmcs := f\<rparr>) (s_mach s))"
  let ?u = "set_thread i t (s\<lparr>s_mach := ?m\<rparr>)"
  have "handle_vmexit pf (Some i) g (upd_vcpu i (\<lambda>vc. vc\<lparr>vmcs := f\<rparr>) (s_mach s)) = (Some 1, export_gprs (regs (mc_vcpus ?m i)), ?m)"
    by (simp add: handle_vmexit_def vmread_def upd_vcpu_simps ev dispatch_exit_def handle_external_interrupt_def)
  moreover have "set_thread i (t\<lparr>t_pc := IN_GUEST\<rparr>) v = set_thread i t v" for v using Cons.prems(2) by (cases t) simp
  ultimately have st: "thread_step pf w i ev s = Some ?u"
    using Cons.prems(1-3) by (simp add: thread_step_def ev relm_vmexit_handler_def)
  have "\<exists>s'. run_events pf w i evs ?u = Some s' \<and> s_thread s' i = Some t \<and> ctl_step now s' = None"
    by (rule Cons.IH) (use Cons.prems in \<open>auto simp: sys_simps relm_get_current_vcpu_def upd_vcpu_simps\<close>)
  then show ?case using st by simp
qed

definition demo_in_guest :: "controller \<Rightarrow> bool \<Rightarrow> sys" where
  "demo_in_guest k b = (relm_set_current_vcpu 1 (Some 0) (set_thread 0 \<lparr>t_pc = IN_GUEST, t_cpu = 1, t_mask = [1], t_stop = b, t_ret = 0\<rparr> demo_sys))
     \<lparr>s_ctl := k\<rparr>"

theorem busy_guest_never_stops_witness:
  "\<exists>s'. run_events demo_pf demo_hw 0 (replicate 1000 (GuestExit (\<lambda>_. 1) (export_gprs demo_regs) True)) (demo_in_guest (CTL_WAIT 0 VM_STATE_STOPPED 0) True) = Some s' \<and>
     ctl_step 0 s' = None"
proof -
  have "\<exists>s'. run_events demo_pf demo_hw 0 (replicate 1000 (GuestExit (\<lambda>_. 1) (export_gprs demo_regs) True)) (demo_in_guest (CTL_WAIT 0 VM_STATE_STOPPED 0) True) = Some s' \<and>
     s_thread s' 0 = Some \<lparr>t_pc = IN_GUEST, t_cpu = 1, t_mask = [1], t_stop = True, t_ret = 0\<rparr> \<and> ctl_step 0 s' = None"
    by (rule busy_guest_never_stops [where st = VM_STATE_STOPPED and ret = 0])
       (auto simp: demo_in_guest_def sys_simps relm_get_current_vcpu_def demo_sys_def set_thread_def relm_set_current_vcpu_def)
  then show ?thesis by blast
qed

text \<open>(C37) Stopping restores the full processor mask before it asks the thread to stop, so the thread may be moved
  between its check of the stop flag and the VM-entry. Then it tries to enter the guest on a processor that
  has no current VMCS, fails, and clears its VMCS there. When \<open>relm_stop_vm\<close> has returned, the target
  processor still has the VMCS of the stopped vCPU as its current one and still names it as its current vCPU,
  and the vCPU is in the error state although nothing was wrong.\<close>

theorem stop_leaves_stale_cpu:
  assumes t: "s_thread s i = Some t" "t_pc t = AT_ENTER" "\<not> t_stop t" and lone: "mc_array (s_mach s) = [Some i]"
    and c: "relm_get_current_vcpu (t_cpu t) s = Some i" "s_loaded s (t_cpu t) = Some i"
    and d: "d \<in> set (s_online s)" "d \<noteq> t_cpu t" "s_loaded s d = None"
    and task: "host_task (s_vcpu s i)" and idle: "s_ctl s = CTL_IDLE r"
  shows "\<exists>s'. reachable pf w s s' \<and> s_ctl s' = CTL_IDLE 0 \<and> s_state s' = VM_STATE_STOPPED \<and> s_thread s' i = None \<and>
    vc_state (s_vcpu s' i) = VCPU_STATE_ERROR \<and> relm_get_current_vcpu (t_cpu t) s' = Some i \<and> s_loaded s' (t_cpu t) = Some i"
proof -
  define s1 where "s1 = relm_stop_vm s"
  define s2 where "s2 = (relm_vcpu_unpin_and_stop i s1)\<lparr>s_ctl := CTL_WAIT 0 VM_STATE_STOPPED 0\<rparr>"
  let ?t = "\<lambda>p r. t\<lparr>t_mask := s_online s, t_stop := True, t_cpu := d, t_pc := p, t_ret := r\<rparr>"
  have a1: "sys_step pf w s s1" unfolding s1_def by (rule sys_step.stop [OF idle])
  have a2: "sys_step pf w s1 s2"
    by (rule sys_step.caller [of 0]) (use t lone task in \<open>simp add: s1_def s2_def relm_stop_vm_def ctl_step_def task_freed_def s_vcpu_def\<close>)
  have s2: "s_thread s2 i = Some (t\<lparr>t_mask := s_online s, t_stop := True\<rparr>)" "s_mach s2 = s_mach s" "s_current s2 = s_current s"
    "s_loaded s2 = s_loaded s" "s_online s2 = s_online s" "s_ctl s2 = CTL_WAIT 0 VM_STATE_STOPPED 0" "s_vcpu s2 = s_vcpu s"
    using t by (simp_all add: s2_def s1_def relm_vcpu_unpin_and_stop_def relm_stop_vm_def sys_simps)
  have dl: "s_loaded (vmx_vcpu_destroy w i v u) = s_loaded u" if "s_loaded u (t_cpu v) = None" for v u
    using that by (simp add: vmx_vcpu_destroy_def split: sum.split)
  have "\<exists>s3. run_events pf w i [Sched d, Go 1, Go 1, Go 1, Go 1] s2 = Some s3 \<and> s_thread s3 i = Some (?t EXITED (- 1)) \<and>
      s_current s3 (t_cpu t) = Some i \<and> s_loaded s3 = s_loaded s \<and> vc_state (s_vcpu s3 i) = VCPU_STATE_ERROR \<and>
      s_ctl s3 = CTL_WAIT 0 VM_STATE_STOPPED 0 \<and> mc_array (s_mach s3) = [Some i]"
    using t c d lone
    by (simp add: thread_step_Go thread_step_Sched s2 preemptible_def own_step_def vmentry_save_def relm_vmentry_asm_def entry_failure_def loop_destroy_def
        loop_clear_def sys_simps relm_get_current_vcpu_def dl) (simp add: relm_set_current_vcpu_def set_thread_def set_vcpu_def vmx_vcpu_destroy_def s2 split: sum.split)
  then obtain s3 where run: "run_events pf w i [Sched d, Go 1, Go 1, Go 1, Go 1] s2 = Some s3" and s3: "s_thread s3 i = Some (?t EXITED (- 1))"
      "s_current s3 (t_cpu t) = Some i" "s_loaded s3 = s_loaded s" "vc_state (s_vcpu s3 i) = VCPU_STATE_ERROR"
      "s_ctl s3 = CTL_WAIT 0 VM_STATE_STOPPED 0" "mc_array (s_mach s3) = [Some i]" by blast
  have a3: "reachable pf w s2 s3" by (rule run_events_reachable [OF run]) (simp add: good_event_def)
  define s4 where "s4 = (relm_vcpu_stopped 0 i s3)\<lparr>s_ctl := CTL_STOP 1 VM_STATE_STOPPED 0\<rparr>"
  have a4: "sys_step pf w s3 s4" by (rule sys_step.caller [of 0]) (simp add: ctl_step_def s3 s4_def)
  have a5: "sys_step pf w s4 (s4\<lparr>s_state := VM_STATE_STOPPED, s_ctl := CTL_IDLE 0\<rparr>)"
    by (rule sys_step.caller [of 0]) (simp add: ctl_step_def s4_def relm_vcpu_stopped_def sys_simps s3)
  have reach: "reachable pf w s (s4\<lparr>s_state := VM_STATE_STOPPED, s_ctl := CTL_IDLE 0\<rparr>)"
    by (intro reachable.next_step [OF _ a5] reachable.next_step [OF _ a4] reachable_trans [OF a3] reachable.next_step [OF _ a2]
        reachable.next_step [OF _ a1] reachable.here)
  show ?thesis
    by (rule exI [of _ "s4\<lparr>s_state := VM_STATE_STOPPED, s_ctl := CTL_IDLE 0\<rparr>"])
       (use reach s3 c in \<open>simp add: s4_def relm_vcpu_stopped_def sys_simps relm_get_current_vcpu_def\<close>)
qed

definition demo_at_enter :: sys where
  "demo_at_enter = (relm_set_current_vcpu 1 (Some 0) (set_vcpu 0 (\<lambda>vc. vc\<lparr>host_task := True, vc_state := VCPU_STATE_RUNNING\<rparr>)
     (set_thread 0 \<lparr>t_pc = AT_ENTER, t_cpu = 1, t_mask = [1], t_stop = False, t_ret = 0\<rparr> demo_sys)))\<lparr>s_loaded := (\<lambda>_. None)(1 := Some 0)\<rparr>"

theorem stop_leaves_stale_cpu_witness:
  "\<exists>s'. reachable demo_pf demo_hw demo_at_enter s' \<and> s_ctl s' = CTL_IDLE 0 \<and> s_thread s' 0 = None \<and> s_loaded s' 1 = Some 0"
proof -
  let ?t = "\<lparr>t_pc = AT_ENTER, t_cpu = 1, t_mask = [1], t_stop = False, t_ret = 0\<rparr>"
  have t: "s_thread demo_at_enter 0 = Some ?t" by (simp add: demo_at_enter_def sys_simps)
  have "mc_array (s_mach demo_at_enter) = [Some 0]" "relm_get_current_vcpu (t_cpu ?t) demo_at_enter = Some 0" "s_loaded demo_at_enter (t_cpu ?t) = Some 0"
    "0 \<in> set (s_online demo_at_enter)" "s_loaded demo_at_enter 0 = None" "host_task (s_vcpu demo_at_enter 0)" "s_ctl demo_at_enter = CTL_IDLE 0"
    by (simp_all add: demo_at_enter_def demo_sys_def relm_get_current_vcpu_def relm_set_current_vcpu_def set_thread_def set_vcpu_def upd_vcpu_simps s_vcpu_def)
  from stop_leaves_stale_cpu [OF t _ _ this(1-4) _ this(5-7), of demo_pf demo_hw] show ?thesis by auto
qed

text \<open>A vCPU thread that ends on its own is not noticed: after a triple fault of the guest the thread returns
  and its task is freed, but \<open>host_task\<close> keeps pointing to it. The next \<open>relm_stop_vm\<close> hands the stale pointer
  to \<open>set_cpus_allowed_ptr\<close> and \<open>kthread_stop\<close>.\<close>

theorem triple_fault_then_stop:
  assumes t: "s_thread s i = Some t" "t_pc t = IN_GUEST" "\<not> t_stop t" and cur: "relm_get_current_vcpu (t_cpu t) s = Some i"
    and vc: "host_task (s_vcpu s i)" "vmentry_host_rsp (s_vcpu s i) \<noteq> 0" and arr: "mc_array (s_mach s) = [Some i]"
    and idle: "s_ctl s = CTL_IDLE r" and f: "f ENC_EXIT_REASON = 2"
  shows "\<exists>s1 s'. thread_step pf w i (GuestExit f g True) s = Some s1 \<and> reachable pf w s1 s' \<and> s_ctl s' = CTL_USE_AFTER_FREE"
proof -
  let ?before = "upd_vcpu i (\<lambda>vc. vc\<lparr>vmcs := f\<rparr>) (s_mach s)"
  let ?m = "upd_vcpu i (\<lambda>vc. vc\<lparr>vc_state := VCPU_STATE_STOPPED\<rparr>) (upd_vcpu i (exit_prologue g) ?before)"
  have "handle_vmexit pf (Some i) g ?before = (Some 0, export_gprs (regs (mc_vcpus ?m i)), ?m)"
    by (simp add: handle_vmexit_def vmread_def upd_vcpu_simps f dispatch_exit_def handle_triple_fault_def stop_with_def)
  moreover have m: "vmentry_host_rsp (mc_vcpus ?m i) = vmentry_host_rsp (s_vcpu s i)" "host_task (mc_vcpus ?m i) = host_task (s_vcpu s i)"
    "mc_array ?m = mc_array (s_mach s)" "vc_state (mc_vcpus ?m i) = VCPU_STATE_STOPPED"
    by (simp_all add: upd_vcpu_simps s_vcpu_def exit_prologue_def)
  ultimately have st: "thread_step pf w i (GuestExit f g True) s = Some (set_thread i (t\<lparr>t_pc := AT_POST\<rparr>) (s\<lparr>s_mach := ?m\<rparr>))"
    using t cur vc by (simp add: thread_step_def relm_vmexit_handler_def vmexit_return_zero_def relm_get_current_vcpu_def relm_vmentry_get_rsp_def)
  define s1 where "s1 = set_thread i (t\<lparr>t_pc := AT_POST\<rparr>) (s\<lparr>s_mach := ?m\<rparr>)"
  have s1: "s_thread s1 i = Some (t\<lparr>t_pc := AT_POST\<rparr>)" "s_vcpu s1 i = mc_vcpus ?m i" "mc_array (s_mach s1) = [Some i]" "s_ctl s1 = CTL_IDLE r"
    using arr idle by (simp_all add: s1_def sys_simps m) (simp add: s_vcpu_def set_thread_def)
  have "\<exists>s2. run_events pf w i [Go 1, Go 1, Go 1] s1 = Some s2 \<and> s_thread s2 i = Some (t\<lparr>t_pc := EXITED, t_ret := 0\<rparr>) \<and>
      host_task (s_vcpu s2 i) \<and> s_ctl s2 = CTL_IDLE r \<and> mc_array (s_mach s2) = [Some i]"
    using t vc
    by (simp add: thread_step_Go s1 own_step_def loop_post_def vmx_handle_exit_def loop_destroy_def loop_clear_def sys_simps m Let_def)
       (simp add: relm_set_current_vcpu_def set_thread_def set_vcpu_def vmx_vcpu_destroy_def s1 split: sum.split)
  then obtain s2 where run: "run_events pf w i [Go 1, Go 1, Go 1] s1 = Some s2" and s2: "s_thread s2 i = Some (t\<lparr>t_pc := EXITED, t_ret := 0\<rparr>)"
      "host_task (s_vcpu s2 i)" "s_ctl s2 = CTL_IDLE r" "mc_array (s_mach s2) = [Some i]" by blast
  have a1: "reachable pf w s1 s2" by (rule run_events_reachable [OF run]) (simp add: good_event_def)
  have a2: "sys_step pf w s2 (relm_stop_vm s2)" by (rule sys_step.stop [OF s2(3)])
  have a3: "sys_step pf w (relm_stop_vm s2) ((relm_stop_vm s2)\<lparr>s_ctl := CTL_USE_AFTER_FREE\<rparr>)"
    by (rule sys_step.caller [of 0]) (use s2 t in \<open>simp add: ctl_step_def relm_stop_vm_def task_freed_def s_vcpu_def\<close>)
  have "reachable pf w s1 ((relm_stop_vm s2)\<lparr>s_ctl := CTL_USE_AFTER_FREE\<rparr>)"
    by (intro reachable.next_step [OF _ a3] reachable.next_step [OF _ a2] a1)
  then show ?thesis using st by (intro exI [of _ s1] exI [of _ "(relm_stop_vm s2)\<lparr>s_ctl := CTL_USE_AFTER_FREE\<rparr>"]) (simp add: s1_def)
qed

definition demo_faulting :: sys where
  "demo_faulting = set_vcpu 0 (\<lambda>vc. vc\<lparr>host_task := True, vc_state := VCPU_STATE_RUNNING, vmentry_host_rsp := 1\<rparr>) (demo_in_guest (CTL_IDLE 0) False)"

theorem triple_fault_then_stop_witness:
  "\<exists>s1 s'. thread_step demo_pf demo_hw 0 (GuestExit (\<lambda>_. 2) (export_gprs demo_regs) True) demo_faulting = Some s1 \<and>
     reachable demo_pf demo_hw s1 s' \<and> s_ctl s' = CTL_USE_AFTER_FREE"
  by (rule triple_fault_then_stop [where t = "\<lparr>t_pc = IN_GUEST, t_cpu = 1, t_mask = [1], t_stop = False, t_ret = 0\<rparr>" and r = 0])
     (simp_all add: demo_faulting_def demo_in_guest_def demo_sys_def sys_simps relm_get_current_vcpu_def)

text \<open>A stopped virtual machine cannot be started again, although \<open>relm_run_vm\<close> accepts the stopped state:
  a vCPU whose thread has ended is stopped or in error, \<open>relm_vcpu_run\<close> insists on an initialised one, and
  nothing resets it. The call fails with \<open>-EINVAL\<close>, starts nothing, and leaves the VM marked initialised.\<close>

theorem stopped_vm_cannot_restart:
  assumes "s_state s = VM_STATE_STOPPED" "mc_array (s_mach s) = [Some i]" "s_online_vcpus s \<noteq> 0" "\<not> host_task (s_vcpu s i)"
    and "vc_state (s_vcpu s i) = VCPU_STATE_STOPPED \<or> vc_state (s_vcpu s i) = VCPU_STATE_ERROR"
  shows "\<exists>s1 s2. ctl_step now1 (relm_run_vm kt now s) = Some s1 \<and> ctl_step now2 s1 = Some s2 \<and> s_ctl s2 = CTL_IDLE (- errno_code EINVAL) \<and>
    s_state s2 = VM_STATE_INITIALIZED \<and> s_thread s2 = s_thread s \<and> s_mach s2 = s_mach s"
  using assms
  by (auto simp: relm_run_vm_def relm_vcpu_run_def Let_def ctl_step_def sys_simps)

theorem stopped_vm_cannot_restart_witness:
  "\<exists>s1 s2. ctl_step 1 (relm_run_vm (\<lambda>_. (Inr (), 0)) 0 (set_vcpu 0 (\<lambda>vc. vc\<lparr>vc_state := VCPU_STATE_STOPPED\<rparr>) demo_sys\<lparr>s_state := VM_STATE_STOPPED\<rparr>)) = Some s1 \<and>
     ctl_step 2 s1 = Some s2 \<and> s_ctl s2 = CTL_IDLE (- 22)"
proof -
  let ?s = "set_vcpu 0 (\<lambda>vc. vc\<lparr>vc_state := VCPU_STATE_STOPPED\<rparr>) demo_sys\<lparr>s_state := VM_STATE_STOPPED\<rparr>"
  have "s_state ?s = VM_STATE_STOPPED" "mc_array (s_mach ?s) = [Some 0]" "s_online_vcpus ?s \<noteq> 0" "\<not> host_task (s_vcpu ?s 0)"
    "vc_state (s_vcpu ?s 0) = VCPU_STATE_STOPPED \<or> vc_state (s_vcpu ?s 0) = VCPU_STATE_ERROR"
    by (simp_all add: sys_simps) (simp_all add: demo_sys_def set_vcpu_def s_vcpu_def upd_vcpu_simps put_vcpu_simps)
  from stopped_vm_cannot_restart [OF this, of 1 "\<lambda>_. (Inr (), 0)" 0 2] show ?thesis by auto
qed

section \<open>The array of vCPUs\<close>

text \<open>The number of online vCPUs is the number of occupied entries, every entry names a vCPU with the VPID of its
  index, and different entries name different vCPUs.\<close>

definition registry_ok :: "sys \<Rightarrow> bool" where
  "registry_ok s \<longleftrightarrow> s_online_vcpus s = int (length (filter (\<lambda>p. p \<noteq> None) (mc_array (s_mach s)))) \<and>
     (\<forall>k<length (mc_array (s_mach s)). \<forall>p. mc_array (s_mach s) ! k = Some p \<longrightarrow> vpid (s_vcpu s p) = word_of_nat (Suc k))"

lemma filter_update:
  "k < length xs \<Longrightarrow> xs ! k = None \<Longrightarrow> length (filter (\<lambda>p. p \<noteq> None) (xs[k := Some p])) = Suc (length (filter (\<lambda>p. p \<noteq> None) xs))"
proof (induction xs arbitrary: k)
  case (Cons x xs)
  then show ?case by (cases k) auto
qed simp

lemma vpid_steps [simp]:
  "vpid (fst (snd (relm_setup_vmcs_region w vc h))) = vpid vc" "vpid (fst (snd (relm_setup_io_bitmap vc h))) = vpid vc"
  "vpid (fst (snd (relm_setup_msr_bitmap vc h))) = vpid vc" "vpid (fst (snd (relm_setup_msr_areas xs ns vs vc h))) = vpid vc"
  "vpid (fst (snd (relm_vcpu_setup_msr_state vc h))) = vpid vc" "vpid (relm_init_exec_controls w vc) = vpid vc"
  "vpid (relm_disable_ud_intercept vc) = vpid vc" "vpid (relm_disable_page_fault_intercept vc) = vpid vc"
proof -
  show areas: "vpid (fst (snd (relm_setup_msr_areas xs ns vs v h))) = vpid v" for xs ns vs v h
    by (simp add: relm_setup_msr_areas_def Let_def split: option.splits prod.splits)
  then show "vpid (fst (snd (relm_vcpu_setup_msr_state vc h))) = vpid vc" by (simp add: relm_vcpu_setup_msr_state_def Let_def)
  have clear: "vpid (snd (relm_clear_exception_intercept k v)) = vpid v" for k v
    by (simp add: relm_clear_exception_intercept_def relm_update_exception_bitmap_def writes_def vmwrite_def)
  then show "vpid (relm_disable_ud_intercept vc) = vpid vc" "vpid (relm_disable_page_fault_intercept vc) = vpid vc"
    by (simp_all add: relm_disable_ud_intercept_def relm_disable_page_fault_intercept_def)
qed (simp_all add: relm_setup_vmcs_region_def relm_setup_io_bitmap_def relm_setup_msr_bitmap_def relm_init_exec_controls_def
    split: option.splits prod.splits)

lemma vpid_labels [simp]:
  "vpid (fst (snd (out_free_apic vc h))) = vpid vc" "vpid (fst (snd (out_free_vmcs w vc h))) = vpid vc"
  "vpid (fst (snd (out_free_io_bitmap w vc h))) = vpid vc" "vpid (fst (snd (out_free_msr_bitmap w vc h))) = vpid vc"
  by (simp_all add: out_free_apic_def out_free_vmcs_def out_free_io_bitmap_def out_free_msr_bitmap_def case_prod_unfold)

lemma vpid_step: "f = (r, vc', h') \<Longrightarrow> vpid (fst (snd f)) = v \<Longrightarrow> vpid vc' = v"
  by simp

lemma vpid_alloc: "vpid (fst (snd (vmx_vcpu_alloc w g vc h))) = vpid vc"
proof -
  have m: "vpid (fst (snd (vmx_alloc_msrs w v h))) = vpid v" for v h
    unfolding vmx_alloc_msrs_def
    by (auto split: prod.split sum.split dest!: vpid_step [OF _ vpid_steps(3)] vpid_step [OF _ vpid_steps(5)])
  have b: "vpid (fst (snd (vmx_alloc_bitmaps w v h))) = vpid v" for v h
    unfolding vmx_alloc_bitmaps_def Let_def
    by (auto simp: m split: prod.split sum.split dest!: vpid_step [OF _ vpid_steps(2)])
  show ?thesis
    unfolding vmx_vcpu_alloc_def Let_def
    by (auto simp: b split: prod.split sum.split dest!: vpid_step [OF _ vpid_steps(1)])
qed

lemma vpid_create: "relm_vcpu_create w g vp z h = (Inr vc, h') \<Longrightarrow> vpid vc = vp"
  using vpid_alloc by (fastforce simp: relm_vcpu_create_def Let_def split: prod.splits bool.splits option.splits sum.splits dest: vpid_step)

text \<open>(C32) Registering a vCPU keeps the array of vCPUs well formed: the count of online vCPUs agrees with the
  occupied entries and every entry carries the VPID of its index. A call that fails leaves the array as it was;
  after one that succeeds, looking the VPID up gives the new vCPU, initialised and with processor 1 as its
  target.\<close>

theorem add_vcpu_registers:
  assumes ok: "registry_ok s" and p: "Some p \<notin> set (mc_array (s_mach s))" and len: "length (mc_array (s_mach s)) < 65536"
    and add: "relm_vm_add_vcpu w p z vp s = (r, s')"
  shows "registry_ok s' \<and> (case r of Inl _ \<Rightarrow> mc_array (s_mach s') = mc_array (s_mach s)
    | Inr _ \<Rightarrow> relm_vm_get_vcpu (word_of_int vp) s' = Some p \<and> vc_state (s_vcpu s' p) = VCPU_STATE_INITIALIZED \<and> target_cpu_id (s_vcpu s' p) = 1)"
proof -
  let ?a = "mc_array (s_mach s)"
  have host: "registry_ok (s\<lparr>s_mach := (s_mach s)\<lparr>mc_host := h\<rparr>\<rparr>)" for h
    using ok by (simp add: registry_ok_def s_vcpu_def)
  show ?thesis
  proof (cases "VPID_IS_VALID vp (length ?a) \<and> ?a ! nat (vp - 1) = None")
    case False
    with add ok show ?thesis by (auto simp: relm_vm_add_vcpu_def split: if_splits)
  next
    case True
    let ?k = "nat (vp - 1)"
    from True have v: "0 < vp" "vp \<le> int (length ?a)" and k: "?k < length ?a" "?a ! ?k = None" by (auto simp: VPID_IS_VALID_def)
    obtain q h where c: "relm_vcpu_create w (vb_pml4_gpa (s_boot s)) (word_of_int vp) z (mc_host (s_mach s)) = (q, h)" by fastforce
    show ?thesis
    proof (cases q)
      case (Inl e)
      with add True c host show ?thesis by (auto simp: relm_vm_add_vcpu_def vmx_add_vcpu_def)
    next
      case (Inr vc)
      let ?s = "s\<lparr>s_mach := (put_vcpu p (vc\<lparr>target_cpu_id := 1\<rparr>) (s_mach s))\<lparr>mc_host := h, mc_array := ?a[?k := Some p]\<rparr>,
        s_online_vcpus := s_online_vcpus s + 1\<rparr>"
      from add True c Inr have s': "r = Inr ()" "s' = ?s" by (auto simp: relm_vm_add_vcpu_def vmx_add_vcpu_def)
      have vp: "vpid vc = word_of_nat (Suc ?k)" using vpid_create [OF c [unfolded Inr]] v by simp
      have "vc_state vc = VCPU_STATE_INITIALIZED" using c [unfolded Inr]
        by (auto simp: relm_vcpu_create_def Let_def split: prod.splits bool.splits option.splits sum.splits)
      moreover have "uint (word_of_int vp :: u16) = vp" using v len by (simp add: unsigned_of_int take_bit_int_eq_self)
      moreover have "?a ! j \<noteq> Some p" if "j < length ?a" for j using that p by (metis nth_mem)
      then have "registry_ok ?s"
        using ok k vp by (auto simp: registry_ok_def filter_update nth_list_update s_vcpu_def put_vcpu_simps simp del: not_None_eq)
      ultimately show ?thesis using s' v k by (auto simp: relm_vm_get_vcpu_def VPID_IS_VALID_def s_vcpu_def put_vcpu_simps)
    qed
  qed
qed

definition demo_empty :: sys where
  "demo_empty = demo_sys\<lparr>s_mach := (s_mach demo_sys)\<lparr>mc_array := [None], mc_host := demo_pages\<rparr>, s_online_vcpus := 0\<rparr>"

theorem add_vcpu_registers_witness:
  "registry_ok (snd (relm_vm_add_vcpu demo_hw 7 demo_vcpu 1 demo_empty)) \<and> fst (relm_vm_add_vcpu demo_hw 7 demo_vcpu 2 demo_empty) = Inl EINVAL"
proof -
  have "registry_ok demo_empty" "Some 7 \<notin> set (mc_array (s_mach demo_empty))" "length (mc_array (s_mach demo_empty)) < 65536"
    by (simp_all add: demo_empty_def registry_ok_def)
  from add_vcpu_registers [OF this prod.collapse [symmetric], of demo_hw demo_vcpu 1] show ?thesis
    by (simp add: relm_vm_add_vcpu_def VPID_IS_VALID_def demo_empty_def)
qed

end
