(* ===== verification/Spec2Isabelle.thy ===== *)
theory Spec2Isabelle
  imports Relm_Iommu Relm_Startup Relm_Vmx_Host Relm_Cr3_Cache Relm_Stage2_Props Relm_Decoder Relm_Virtio Relm_Apic_Props Relm_Fw_Cfg Relm_Lifecycle_Props
begin

text \<open>
  Verification of RELM, a hypervisor that is a module of the Linux kernel. The module turns the virtualisation extension of
  every processor on, creates one virtual machine with its memory, loads a Linux kernel into it and runs its vCPU in a kernel
  thread until the module is removed. The theories model the C sources under src/ function by function; names are those
  of the C code.

  \<^bold>\<open>The program and its parts.\<close> The generic part (src/core/vm.c, vcpu.c, iommu.c) knows a VM as guest memory, an array of vCPUs
  and two tables of functions, one for the second-stage page tables (\<open>struct relm_mem_ops\<close>) and one for the vCPU
  (\<open>struct vcpu_arch_ops\<close>). Back ends fill the tables: Intel VMX with extended page tables (src/arch/x86/vmx), AMD SVM with
  nested page tables (src/arch/x86/svm) and arm64 with stage-2 tables (src/arch/arm64). Around them are the boot loader
  (src/arch/x86/boot), the firmware interface (src/firmware), the virtio-mmio transport and the registry of MMIO windows (src/virtio)
  and the instruction decoder (src/core/decoder.c, src/arch/x86/decoder). A guest exit enters \<open>handle_vmexit\<close>, which changes the
  vCPU, its local APIC or a device and decides whether the guest is entered again.

  \<^bold>\<open>Common ground.\<close> Relm_Prelude: words for the C integers, \<open>errno\<close> and results \<open>errno + 'a\<close>, byte memory, 4 KiB frames, the locale
  \<open>step_invariant\<close> for invariants of runs. Relm_Host: the memory of the host, its page allocator as a list of free frames
  and its slab allocator as a list of answers. Relm_Dense: arrays with a live prefix. Relm_Radix: trees of page tables and the
  locale \<open>radix_format\<close> of an entry format, extended in Relm_Host to \<open>radix_alloc\<close> by the routine that links in a new table. A null
  pointer that the code checks is a value \<open>None\<close>; a dereference of an invalid pointer by the host gives no result.

  \<^bold>\<open>Memory of a virtual machine.\<close>
  \<^item> Relm_Mmio (src/virtio/mmio.c): the registry of MMIO windows; windows are disjoint and off guest RAM over every run.
  \<^item> Relm_Mem_Ops: the contract \<open>mem_ops\<close> of the page-mapping table, proved for runs of calls once.
  \<^item> Relm_Ept (ept.c) and Relm_Npt (npt.c): the two x86 formats. Both interpret \<open>mem_ops\<close>; every run of calls refines a partial map from
    pages to entries, lookups see exactly it, and teardown returns the frames of the tables.
  \<^item> Relm_Guest_Mem (src/core/vm.c): allocation and release of guest RAM and the copy loops, over the locales \<open>guest_backend\<close> and
    \<open>paged_backend\<close>; the page arrays of the software and the tables of the processor agree on every byte.
  \<^item> Relm_Vm (src/core/vm.c): \<open>relm_create_vm\<close> and \<open>relm_destroy_vm\<close> over \<open>vm_backend\<close>, interpreted for VMX and SVM; every frame is
    accounted for on every error label.
  \<^item> Relm_Iommu (src/core/iommu.c): the mirror of guest RAM for devices. The IOMMU interface of the kernel is a parameter.
  \<^item> Relm_Stage2, Relm_Stage2_Props (stage2.c): the arm64 tables, where pages and blocks share a tree; the abstract state is a
    map of pages and a map of blocks. The EL2 runtime is a parameter.

  \<^bold>\<open>Processors and vCPUs.\<close>
  \<^item> Relm_Vmx_Host (vmx.c, arch.c): VMX operation on all processors, with the exceptions of the instructions, in any order of the calls.
  \<^item> Relm_Vcpu: the vCPU and its VMCS as data. Relm_Apic, Relm_Apic_Props (apic.c): the local APIC, as operations on sets of vectors, with
    the virtual-APIC page a mirror of the register file.
  \<^item> Relm_Vmx_Alloc (vmx.c, vcpu.c): phase 1, which takes frames and gives them back exactly. Relm_Vmx_Setup (vmx.c): phase 2, whose
    VMCS satisfies the capability registers and the entry conditions of long mode.
  \<^item> Relm_Mmu (mmu.c): the walker of guest page tables and the tables built in guest RAM. Relm_Decoder: the adapter over Zydis, for an
    arbitrary Zydis. Relm_Virtio (virtio.c): the transport, its registry and the register file of a device, for arbitrary devices.
  \<^item> Relm_Emulate: emulation of an access to the APIC page or to a device window, completely or not at all. Relm_Vmexit
    (vmexit.c): every exit handler, the register contract of the dispatcher and progress. Relm_Cr3_Cache (vmx.c): the cache
    of address-space roots and the CR3 targets it promotes.
  \<^item> Relm_Lifecycle, Relm_Lifecycle_Props (vcpu.c, vm.c, vmx_asm.S): the vCPU thread, the scheduler and the caller of the stop as a step
    relation; where the guest runs, that it gets there, and that a stop ends.

  \<^bold>\<open>Boot.\<close> Relm_E820 and Relm_Fw_Cfg (src/firmware): the memory map and the configuration device. Relm_Boot (boot.c, stub.S): the kernel,
  the RAM disk, the command line and the boot parameters, as writes to one byte memory. Relm_Startup composes creation, boot
  load and phase 2 in the order of src/core/relm.c: the guest fetches its first instruction from the kernel image.

  \<^bold>\<open>Bounds and termination.\<close> Every loop of the sources is a structural recursion or a \<open>function\<close> with a measure, so the models return;
  the one exception is \<open>iommu_map_loop\<close>, whose 64-bit counter can wrap: it is a partial function whose result \<open>None\<close> is not
  returning, and its theorem proves that it returns for the RAM of a VM. No definition uses fuel. Machine integers wrap as in
  C; sizes of arrays are those of the sources.

  \<^bold>\<open>Parameters.\<close> Code outside the repository is an argument: the page and slab allocators through their answers, \<open>request_firmware\<close>, the
  IOMMU interface, Zydis, the devices behind the transport, the clock, the scheduler's choices, the capability MSRs of the
  processor and the EL2 runtime. What a theorem assumes of them is a named predicate, shown satisfiable by its witness.

  \<^bold>\<open>Not modelled.\<close> The vCPUs of SVM (svm.c, vmexit.c and mmu.c under svm) and of arm64 (arm64.c, vmexit.c): they do not compile in
  this revision and use pointers that are never set, so there is no behaviour to translate. The SeaBIOS loader (seabios.c) has no
  caller. The copy of the kernel's instruction decoder (insn.c, inat.c) rests on generated tables and has no caller. Locks
  that guard state of one thread have no state of their own; dumps, statistics printing and tracing are output only. The module entry
  points of src/core/relm.c appear through the operations they call. Vendored code, guest programs, tests and build files are
  not part of the hypervisor.
\<close>

end
